(* ===== verification/Prelude.thy ===== *)
theory Prelude
  imports Main "HOL-Library.Word" "HOL-Library.AList"
begin

text \<open>
  Shared material of the development: names for the machine integers of the C++ code, the
  little-endian byte codec behind every \<^verbatim>\<open>memcpy\<close> between a packed struct and a buffer, and
  the generic facts on lists, words and association lists that the component theories use.

  Conventions.  A \<^verbatim>\<open>uintN_t\<close> is an \<open>N word\<close>: addition wraps, \<open>unat\<close> reads the value.  A
  \<^verbatim>\<open>size_t\<close> that is the size or the index of an object in memory is a \<open>nat\<close>.  The event
  counters of the code are \<^verbatim>\<open>std::atomic<uint64_t>\<close> and are \<open>u64\<close> here, so the counting
  theorems hold with the wrap-around of the program.  A pointer that may be null is an
  \<open>option\<close>; the list below \<open>Some\<close> is the memory the pointer designates.
\<close>

unbundle bit_operations_syntax

type_synonym u8 = "8 word"
type_synonym u16 = "16 word"
type_synonym u32 = "32 word"
type_synonym u64 = "64 word"

type_synonym bytes = "u8 list"

text \<open>
  The collections of the development: \<open>codec_simps\<close> evaluates and inverts struct layouts,
  \<open>len_simps\<close> holds the length facts of the codecs.
\<close>

named_theorems codec_simps
named_theorems len_simps

subsection \<open>Little-endian words\<close>

fun word_le :: "bytes \<Rightarrow> 'a::len word" where
  "word_le [] = 0"
| "word_le (b # bs) = ucast b OR push_bit 8 (word_le bs)"

definition bytes_le :: "nat \<Rightarrow> 'a::len word \<Rightarrow> bytes" where
  "bytes_le n w = map (\<lambda>i. ucast (drop_bit (8 * i) w)) [0..<n]"

definition field_le :: "nat \<Rightarrow> nat \<Rightarrow> bytes \<Rightarrow> 'a::len word" where
  "field_le off n bs = word_le (take n (drop off bs))"

lemma length_bytes_le [simp, len_simps]: "length (bytes_le n w) = n"
  by (simp add: bytes_le_def)

lemma bytes_le_nth [simp]: "i < n \<Longrightarrow> bytes_le n w ! i = ucast (drop_bit (8 * i) w)"
  by (simp add: bytes_le_def)

lemma bit_word_le:
  "bit (word_le bs :: 'a::len word) n \<longleftrightarrow>
     n < LENGTH('a) \<and> n div 8 < length bs \<and> bit (bs ! (n div 8)) (n mod 8)"
proof (induction bs arbitrary: n)
  case Nil
  then show ?case by simp
next
  case (Cons b bs)
  show ?case
  proof (cases "n < 8")
    case True
    then show ?thesis
      by (auto simp: bit_or_iff bit_push_bit_iff bit_unsigned_iff)
  next
    case False
    then obtain m where n: "n = m + 8"
      using le_Suc_ex [of 8 n] by (auto simp: not_less)
    have "\<not> bit b n"
      using False bit_imp_le_length [of b n] by auto
    moreover have "n div 8 = Suc (m div 8)" and "n mod 8 = m mod 8"
      using n by simp_all
    ultimately show ?thesis
      using False n by (auto simp: bit_or_iff bit_push_bit_iff bit_unsigned_iff Cons.IH)
  qed
qed

lemma word_le_bytes_le [simp, codec_simps]:
  assumes "LENGTH('a) = 8 * n"
  shows "word_le (bytes_le n w) = (w :: 'a::len word)"
proof (rule bit_word_eqI)
  fix k assume k: "k < LENGTH('a)"
  then have lt: "k div 8 < n" using assms by auto
  then have "bit (bytes_le n w ! (k div 8)) (k mod 8) = bit w k"
    by (simp add: bit_unsigned_iff bit_drop_bit_eq)
  then show "bit (word_le (bytes_le n w) :: 'a word) k = bit w k"
    using k lt by (simp add: bit_word_le)
qed

lemma bytes_le_word_le [simp, codec_simps]:
  assumes "LENGTH('a) = 8 * length bs"
  shows "bytes_le (length bs) (word_le bs :: 'a::len word) = bs"
proof (rule nth_equalityI)
  show "length (bytes_le (length bs) (word_le bs :: 'a word)) = length bs" by simp
next
  fix i assume "i < length (bytes_le (length bs) (word_le bs :: 'a word))"
  then have i: "i < length bs" by simp
  have "ucast (drop_bit (8 * i) (word_le bs :: 'a word)) = bs ! i"
  proof (rule bit_word_eqI)
    fix k assume k: "k < LENGTH(8)"
    then have "8 * i + k < LENGTH('a)" using i assms by auto
    moreover have "(8 * i + k) div 8 = i" and "(8 * i + k) mod 8 = k" using k by simp_all
    ultimately show "bit (ucast (drop_bit (8 * i) (word_le bs :: 'a word)) :: u8) k = bit (bs ! i) k"
      using i k by (simp add: bit_unsigned_iff bit_drop_bit_eq bit_word_le)
  qed
  then show "bytes_le (length bs) (word_le bs :: 'a word) ! i = bs ! i"
    using i by simp
qed

lemma bytes_le_field_le [codec_simps]:
  assumes "LENGTH('a) = 8 * n" and "off + n \<le> length bs"
  shows "bytes_le n (field_le off n bs :: 'a::len word) = take n (drop off bs)"
  using bytes_le_word_le [where bs = "take n (drop off bs)" and 'a = 'a] assms
  by (simp add: field_le_def min_absorb2)

lemma field_le_append [codec_simps]:
  "off + n \<le> length xs \<Longrightarrow> field_le off n (xs @ ys) = field_le off n xs"
  by (simp add: field_le_def)

lemma field_le_append_bytes_le [codec_simps]:
  "off = length xs \<Longrightarrow> LENGTH('a) = 8 * n \<Longrightarrow> field_le off n (xs @ bytes_le n w @ ys) = (w :: 'a::len word)"
  by (simp add: field_le_def)

text \<open>Cutting a block into consecutive fields and gluing them back.\<close>

fun pieces :: "nat list \<Rightarrow> 'a list \<Rightarrow> 'a list list" where
  "pieces [] xs = []"
| "pieces (n # ns) xs = take n xs # pieces ns (drop n xs)"

lemma concat_pieces: "concat (pieces ns xs) = take (sum_list ns) xs"
  by (induction ns arbitrary: xs) (simp_all add: take_add)

lemma mod_add_cancel_iff:
  assumes "a < n" and "b < n" and "c < (n :: nat)"
  shows "(c + a) mod n = (c + b) mod n \<longleftrightarrow> a = b"
proof -
  have "(c + a) mod n = (if c + a < n then c + a else c + a - n)"
    and "(c + b) mod n = (if c + b < n then c + b else c + b - n)"
    using assms by (simp_all add: mod_if)
  then show ?thesis using assms by auto
qed

subsection \<open>Words\<close>

lemma unat_Suc_word: "unat (w :: 'a::len word) + 1 < 2 ^ LENGTH('a) \<Longrightarrow> unat (w + 1) = Suc (unat w)"
  by (simp add: unat_word_ariths)

lemma word_diff_add_cancel_unat:
  "unat (a - b :: 'a::len word) = d \<Longrightarrow> a = b + word_of_nat d"
  by auto

lemma unat_diff_eq_iff:
  assumes "c < 2 ^ LENGTH('a)"
  shows "unat (s - e :: 'a::len word) = c \<longleftrightarrow> s = e + word_of_nat c"
proof
  assume "s = e + word_of_nat c"
  then show "unat (s - e) = c" using assms by (simp add: unat_of_nat take_bit_nat_eq_self)
qed (rule word_diff_add_cancel_unat)

lemma word_xor_cancel [simp]:
  "x XOR z = y XOR z \<longleftrightarrow> x = (y :: 'a::len word)" "z XOR x = z XOR y \<longleftrightarrow> x = y"
proof -
  show *: "x XOR z = y XOR z \<longleftrightarrow> x = y" for x y z :: "'a word"
  proof
    assume "x XOR z = y XOR z"
    then have "(x XOR z) XOR z = (y XOR z) XOR z" by (rule arg_cong)
    then show "x = y" unfolding xor.assoc by simp
  qed simp
  show "z XOR x = z XOR y \<longleftrightarrow> x = y" using * [of x z y] by (simp add: xor.commute)
qed

lemma word_of_nat_unat_ucast: "(word_of_nat (unat (w :: 'a::len word)) :: 'b::len word) = ucast w"
  by (rule bit_word_eqI) (auto simp: bit_simps unsigned_of_nat)

lemma unat_and_mask: "unat (w AND mask k :: 'a::len word) = unat w mod 2 ^ k"
proof -
  have "unat (w AND mask k) = unat (take_bit k w)" by (simp only: take_bit_eq_mask)
  also have "\<dots> = take_bit k (unat w)" by (rule unsigned_take_bit_eq)
  also have "\<dots> = unat w mod 2 ^ k" by (rule take_bit_eq_mod)
  finally show ?thesis .
qed

lemma unat_neg_word:
  assumes "d \<noteq> (0 :: 'a::len word)"
  shows "unat (- d) + unat d = 2 ^ LENGTH('a)"
proof -
  have "2 ^ LENGTH('a) dvd unat (- d) + unat d"
    using unat_word_ariths(1) [of "- d" d] by (simp add: dvd_eq_mod_eq_0)
  then obtain k where k: "unat (- d) + unat d = 2 ^ LENGTH('a) * k" by blast
  have "0 < unat d" and "unat d < 2 ^ LENGTH('a)" and "unat (- d) < 2 ^ LENGTH('a)"
    using assms by (simp_all add: unat_gt_0)
  then have "0 < 2 ^ LENGTH('a) * k" and "2 ^ LENGTH('a) * k < 2 ^ LENGTH('a) * 2"
    unfolding k [symmetric] by linarith+
  then have "k = 1" by simp
  with k show ?thesis by simp
qed

subsection \<open>Association lists\<close>

text \<open>
  A \<^verbatim>\<open>std::unordered_map\<close> is an association list with distinct keys; its order stands for the
  iteration order of the container, which the C++ standard leaves open.  \<^const>\<open>AList.update\<close> replaces or
  adds an entry, \<^const>\<open>AList.delete\<close> erases one, \<open>map_of\<close> is \<^verbatim>\<open>find\<close>.
\<close>

definition al_wf :: "('k \<times> 'v) list \<Rightarrow> bool" where
  "al_wf m \<longleftrightarrow> distinct (map fst m)"

lemma al_wf_Nil [simp]: "al_wf []"
  by (simp add: al_wf_def)

lemma al_wf_update [simp]: "al_wf m \<Longrightarrow> al_wf (AList.update k v m)"
  by (simp add: al_wf_def distinct_update)

lemma al_wf_delete [simp]: "al_wf m \<Longrightarrow> al_wf (AList.delete k m)"
  by (simp add: al_wf_def distinct_delete)

lemma al_keys_delete [simp]: "fst ` set (AList.delete k m) = fst ` set m - {k}"
  using arg_cong [OF delete_keys [of k m], of set] by simp

lemma al_keys_update [simp]: "fst ` set (AList.update k v m) = insert k (fst ` set m)"
  by (induction m) auto

lemma al_find_key: "map_of m k = Some v \<Longrightarrow> k \<in> fst ` set m"
  by (metis map_of_eq_None_iff option.distinct(1))

lemma al_length_delete:
  "al_wf m \<Longrightarrow> length (AList.delete k m) = (if map_of m k = None then length m else length m - 1)"
proof -
  assume "al_wf m"
  then have "map fst (AList.delete k m) = remove1 k (map fst m)"
    by (simp add: delete_keys al_wf_def distinct_remove1_removeAll)
  from arg_cong [OF this, of length] show ?thesis
    by (auto simp: length_remove1 map_of_eq_None_iff)
qed

lemma al_length_update:
  "length (AList.update k v m) = (if map_of m k = None then Suc (length m) else length m)"
  by (induction m) auto

end
