(* ===== verification/Protocol_Types.thy ===== *)
theory Protocol_Types
  imports Prelude "HOL-Library.Product_Lexorder"
begin

text \<open>
  The wire protocol of \<^verbatim>\<open>include/qdgz300/m01_receiver/protocol/protocol_types.h\<close>: constants,
  packet types, the packed headers with their byte layout (\<open>decode_\<close> is the \<^verbatim>\<open>memcpy\<close> from a
  buffer into the struct, \<open>encode_\<close> the inverse copy), the channel-mask packing, modular
  sequence comparison and the reassembly key with its ordering.  The lemmas show that the
  layouts are bijective between structs and byte blocks of the asserted sizes, that the packed
  fields round-trip, that sequence comparison is the sign of the modular difference, and that
  the hand-written \<^verbatim>\<open>operator<\<close> of the key is a total order compatible with \<^verbatim>\<open>operator==\<close>.
\<close>

named_theorems const_defs

definition PROTOCOL_MAGIC :: u32 where [const_defs]: "PROTOCOL_MAGIC = 0x55AA55AA"
definition PROTOCOL_VERSION_MAJOR :: u8 where [const_defs]: "PROTOCOL_VERSION_MAJOR = 3"
definition PROTOCOL_VERSION :: u8 where [const_defs]: "PROTOCOL_VERSION = 0x31"
definition COMMON_HEADER_SIZE :: nat where [const_defs]: "COMMON_HEADER_SIZE = 32"
definition MAX_PAYLOAD_SIZE :: nat where [const_defs]: "MAX_PAYLOAD_SIZE = 65507 - COMMON_HEADER_SIZE"
definition HEARTBEAT_PAYLOAD_SIZE :: nat where [const_defs]: "HEARTBEAT_PAYLOAD_SIZE = 48"
definition DATA_SPECIFIC_HEADER_SIZE :: nat where [const_defs]: "DATA_SPECIFIC_HEADER_SIZE = 40"
definition EXECUTION_SNAPSHOT_SIZE :: nat where [const_defs]: "EXECUTION_SNAPSHOT_SIZE = 40"
definition DEVICE_ID_BROADCAST :: u8 where [const_defs]: "DEVICE_ID_BROADCAST = 0x10"
definition DEVICE_ID_RESERVED :: u8 where [const_defs]: "DEVICE_ID_RESERVED = 0xFF"

text \<open>
  \<open>OTHER_TYPE\<close> stands for the values a \<^verbatim>\<open>static_cast\<close> to the enum gives on a byte that is no
  enumerator.
\<close>

datatype PacketType = CONTROL | ACK | DATA | HEARTBEAT | RMA | OTHER_TYPE u8

definition packet_type_of :: "u8 \<Rightarrow> PacketType" where
  "packet_type_of b =
     (if b = 0x01 then CONTROL else if b = 0x02 then ACK else if b = 0x03 then DATA
      else if b = 0x04 then HEARTBEAT else if b = 0xFF then RMA else OTHER_TYPE b)"

definition packet_type_code :: "PacketType \<Rightarrow> u8" where
  "packet_type_code t =
     (case t of CONTROL \<Rightarrow> 0x01 | ACK \<Rightarrow> 0x02 | DATA \<Rightarrow> 0x03 | HEARTBEAT \<Rightarrow> 0x04 | RMA \<Rightarrow> 0xFF
      | OTHER_TYPE b \<Rightarrow> b)"

subsection \<open>CommonHeader\<close>

record CommonHeader =
  magic :: u32
  sequence_number :: u32
  timestamp :: u64
  payload_len :: u16
  packet_type :: u8
  protocol_version :: u8
  source_id :: u8
  dest_id :: u8
  control_epoch :: u16
  ext_flags :: u8
  reserved1 :: u8
  reserved2 :: u16
  reserved3 :: bytes

definition decode_common :: "bytes \<Rightarrow> CommonHeader" where
  "decode_common bs =
     \<lparr> magic = field_le 0 4 bs, sequence_number = field_le 4 4 bs, timestamp = field_le 8 8 bs,
       payload_len = field_le 16 2 bs, packet_type = field_le 18 1 bs,
       protocol_version = field_le 19 1 bs, source_id = field_le 20 1 bs, dest_id = field_le 21 1 bs,
       control_epoch = field_le 22 2 bs, ext_flags = field_le 24 1 bs, reserved1 = field_le 25 1 bs,
       reserved2 = field_le 26 2 bs, reserved3 = take 4 (drop 28 bs) \<rparr>"

definition encode_common :: "CommonHeader \<Rightarrow> bytes" where
  "encode_common h =
     bytes_le 4 (magic h) @ bytes_le 4 (sequence_number h) @ bytes_le 8 (timestamp h) @
     bytes_le 2 (payload_len h) @ bytes_le 1 (packet_type h) @ bytes_le 1 (protocol_version h) @
     bytes_le 1 (source_id h) @ bytes_le 1 (dest_id h) @ bytes_le 2 (control_epoch h) @
     bytes_le 1 (ext_flags h) @ bytes_le 1 (reserved1 h) @ bytes_le 2 (reserved2 h) @ reserved3 h"

text \<open>The array \<^verbatim>\<open>reserved3[4]\<close> has four elements.\<close>

definition wf_common :: "CommonHeader \<Rightarrow> bool" where
  "wf_common h \<longleftrightarrow> length (reserved3 h) = 4"

text \<open>\<^verbatim>\<open>std::memset(&header, 0, sizeof(header))\<close>, also the value initialisation \<^verbatim>\<open>CommonHeader{}\<close>.\<close>

definition zero_common :: CommonHeader where
  "zero_common =
     \<lparr> magic = 0, sequence_number = 0, timestamp = 0, payload_len = 0, packet_type = 0,
       protocol_version = 0, source_id = 0, dest_id = 0, control_epoch = 0, ext_flags = 0,
       reserved1 = 0, reserved2 = 0, reserved3 = [0, 0, 0, 0] \<rparr>"

definition is_valid_magic :: "CommonHeader \<Rightarrow> bool" where
  "is_valid_magic h \<longleftrightarrow> magic h = PROTOCOL_MAGIC"

definition get_major_version :: "CommonHeader \<Rightarrow> u8" where
  "get_major_version h = drop_bit 4 (protocol_version h)"

definition get_minor_version :: "CommonHeader \<Rightarrow> u8" where
  "get_minor_version h = protocol_version h AND 0x0F"

definition is_valid_version :: "CommonHeader \<Rightarrow> bool" where
  "is_valid_version h \<longleftrightarrow> drop_bit 4 (protocol_version h) = PROTOCOL_VERSION_MAJOR"

definition get_packet_type :: "CommonHeader \<Rightarrow> PacketType" where
  "get_packet_type h = packet_type_of (packet_type h)"

text \<open>
  \<^verbatim>\<open>ParsedPacket\<close>: the header and a view into the receive buffer.
\<close>

record ParsedPacket =
  header :: CommonHeader
  payload :: "bytes option"
  total_size :: nat

subsection \<open>DataSpecificHeader\<close>

record DataSpecificHeader =
  frame_counter :: u32
  cpi_count :: u32
  pulse_index :: u32
  sample_offset :: u32
  sample_count :: u32
  data_timestamp :: u64
  health_summary :: u16
  reserved_health :: u16
  beam_id :: u16
  frag_index :: u16
  total_frags :: u16
  tail_frag_payload_bytes :: u16

definition decode_specific :: "bytes \<Rightarrow> DataSpecificHeader" where
  "decode_specific bs =
     \<lparr> frame_counter = field_le 0 4 bs, cpi_count = field_le 4 4 bs, pulse_index = field_le 8 4 bs,
       sample_offset = field_le 12 4 bs, sample_count = field_le 16 4 bs,
       data_timestamp = field_le 20 8 bs, health_summary = field_le 28 2 bs,
       reserved_health = field_le 30 2 bs, beam_id = field_le 32 2 bs, frag_index = field_le 34 2 bs,
       total_frags = field_le 36 2 bs, tail_frag_payload_bytes = field_le 38 2 bs \<rparr>"

definition encode_specific :: "DataSpecificHeader \<Rightarrow> bytes" where
  "encode_specific h =
     bytes_le 4 (frame_counter h) @ bytes_le 4 (cpi_count h) @ bytes_le 4 (pulse_index h) @
     bytes_le 4 (sample_offset h) @ bytes_le 4 (sample_count h) @ bytes_le 8 (data_timestamp h) @
     bytes_le 2 (health_summary h) @ bytes_le 2 (reserved_health h) @ bytes_le 2 (beam_id h) @
     bytes_le 2 (frag_index h) @ bytes_le 2 (total_frags h) @ bytes_le 2 (tail_frag_payload_bytes h)"

text \<open>\<^verbatim>\<open>frag_index == (total_frags - 1)\<close> is computed in \<^verbatim>\<open>int\<close> after promotion.\<close>

definition is_tail_fragment :: "DataSpecificHeader \<Rightarrow> bool" where
  "is_tail_fragment h \<longleftrightarrow> int (unat (frag_index h)) = int (unat (total_frags h)) - 1"

definition is_single_fragment :: "DataSpecificHeader \<Rightarrow> bool" where
  "is_single_fragment h \<longleftrightarrow> total_frags h = 1"

function popcount16_loop :: "u16 \<Rightarrow> u8 \<Rightarrow> u8" where
  "popcount16_loop v c =
     (if v \<noteq> 0 then popcount16_loop (drop_bit 1 v) (c + ucast (v AND 1)) else c)"
  by pat_completeness auto
termination
proof (relation "measure (\<lambda>(v, c). unat v)")
  fix v c :: "16 word"
  assume "v \<noteq> 0"
  then have "0 < unat v" by (simp add: unat_gt_0)
  then show "((drop_bit 1 v, c'), (v, c'')) \<in> measure (\<lambda>(v, c). unat v)" for c' c'' :: u8
    by (simp add: drop_bit_eq_div unat_div)
qed simp

definition popcount16 :: "u16 \<Rightarrow> u8" where
  "popcount16 v = popcount16_loop v 0"

definition get_channel_mask :: "DataSpecificHeader \<Rightarrow> u16" where
  "get_channel_mask h = reserved_health h AND 0x0FFF"

definition get_data_type_raw :: "DataSpecificHeader \<Rightarrow> u8" where
  "get_data_type_raw h = ucast (drop_bit 12 (reserved_health h AND 0xF000))"

definition get_channel_count :: "DataSpecificHeader \<Rightarrow> u8" where
  "get_channel_count h = popcount16 (get_channel_mask h)"

definition set_channel_mask_data_type_compat :: "u16 \<Rightarrow> u8 \<Rightarrow> DataSpecificHeader \<Rightarrow> DataSpecificHeader" where
  "set_channel_mask_data_type_compat channel_mask data_type h =
     (let masked_channel = channel_mask AND 0x0FFF;
          masked_type = push_bit 12 (ucast (data_type AND 0x0F)) AND 0xF000
      in h\<lparr>reserved_health := masked_channel OR masked_type\<rparr>)"

subsection \<open>ExecutionSnapshot\<close>

text \<open>Signed fields are stored as the word that \<open>sint\<close> reads.\<close>

record ExecutionSnapshot =
  azimuth_angle :: u16
  elevation_angle :: u16
  work_freq_index :: u8
  snap_reserved :: u8
  mgc_gain :: u16
  signal_bandwidth :: u16
  pulse_width :: u16
  pulse_period :: u16
  accumulation_count :: u16
  tilt_sensor_x :: u32
  tilt_sensor_y :: u32
  heading_angle :: u32
  bds_longitude :: u32
  bds_latitude :: u32
  bds_altitude :: u32

definition decode_snapshot :: "bytes \<Rightarrow> ExecutionSnapshot" where
  "decode_snapshot bs =
     \<lparr> azimuth_angle = field_le 0 2 bs, elevation_angle = field_le 2 2 bs,
       work_freq_index = field_le 4 1 bs, snap_reserved = field_le 5 1 bs, mgc_gain = field_le 6 2 bs,
       signal_bandwidth = field_le 8 2 bs, pulse_width = field_le 10 2 bs,
       pulse_period = field_le 12 2 bs, accumulation_count = field_le 14 2 bs,
       tilt_sensor_x = field_le 16 4 bs, tilt_sensor_y = field_le 20 4 bs,
       heading_angle = field_le 24 4 bs, bds_longitude = field_le 28 4 bs,
       bds_latitude = field_le 32 4 bs, bds_altitude = field_le 36 4 bs \<rparr>"

definition encode_snapshot :: "ExecutionSnapshot \<Rightarrow> bytes" where
  "encode_snapshot s =
     bytes_le 2 (azimuth_angle s) @ bytes_le 2 (elevation_angle s) @ bytes_le 1 (work_freq_index s) @
     bytes_le 1 (snap_reserved s) @ bytes_le 2 (mgc_gain s) @ bytes_le 2 (signal_bandwidth s) @
     bytes_le 2 (pulse_width s) @ bytes_le 2 (pulse_period s) @ bytes_le 2 (accumulation_count s) @
     bytes_le 4 (tilt_sensor_x s) @ bytes_le 4 (tilt_sensor_y s) @ bytes_le 4 (heading_angle s) @
     bytes_le 4 (bds_longitude s) @ bytes_le 4 (bds_latitude s) @ bytes_le 4 (bds_altitude s)"

definition zero_snapshot :: ExecutionSnapshot where
  "zero_snapshot =
     \<lparr> azimuth_angle = 0, elevation_angle = 0, work_freq_index = 0, snap_reserved = 0, mgc_gain = 0,
       signal_bandwidth = 0, pulse_width = 0, pulse_period = 0, accumulation_count = 0,
       tilt_sensor_x = 0, tilt_sensor_y = 0, heading_angle = 0, bds_longitude = 0, bds_latitude = 0,
       bds_altitude = 0 \<rparr>"

subsection \<open>Modular sequence numbers\<close>

definition is_sequence_newer :: "u32 \<Rightarrow> u32 \<Rightarrow> bool" where
  "is_sequence_newer seq_new seq_old = (let delta = seq_new - seq_old in 0 < delta \<and> delta < 2 ^ 31)"

definition is_epoch_newer :: "u16 \<Rightarrow> u16 \<Rightarrow> bool" where
  "is_epoch_newer epoch_new epoch_old = (let delta = epoch_new - epoch_old in 0 < delta \<and> delta < 2 ^ 15)"

subsection \<open>ReassemblyKey\<close>

datatype ReassemblyKey =
  ReassemblyKey (rk_control_epoch: u16) (rk_source_id: u8) (rk_frame_counter: u32) (rk_beam_id: u16)
    (rk_cpi_count: u32) (rk_pulse_index: u32) (rk_channel_mask: u16) (rk_data_type: u8)

definition key_less :: "ReassemblyKey \<Rightarrow> ReassemblyKey \<Rightarrow> bool" where
  "key_less a b =
     (if rk_control_epoch a \<noteq> rk_control_epoch b then rk_control_epoch a < rk_control_epoch b
      else if rk_source_id a \<noteq> rk_source_id b then rk_source_id a < rk_source_id b
      else if rk_frame_counter a \<noteq> rk_frame_counter b then rk_frame_counter a < rk_frame_counter b
      else if rk_beam_id a \<noteq> rk_beam_id b then rk_beam_id a < rk_beam_id b
      else if rk_cpi_count a \<noteq> rk_cpi_count b then rk_cpi_count a < rk_cpi_count b
      else if rk_pulse_index a \<noteq> rk_pulse_index b then rk_pulse_index a < rk_pulse_index b
      else if rk_channel_mask a \<noteq> rk_channel_mask b then rk_channel_mask a < rk_channel_mask b
      else rk_data_type a < rk_data_type b)"

definition key_equal :: "ReassemblyKey \<Rightarrow> ReassemblyKey \<Rightarrow> bool" where
  "key_equal a b \<longleftrightarrow>
     rk_control_epoch a = rk_control_epoch b \<and> rk_source_id a = rk_source_id b \<and>
     rk_frame_counter a = rk_frame_counter b \<and> rk_beam_id a = rk_beam_id b \<and>
     rk_cpi_count a = rk_cpi_count b \<and> rk_pulse_index a = rk_pulse_index b \<and>
     rk_channel_mask a = rk_channel_mask b \<and> rk_data_type a = rk_data_type b"

datatype ValidationResult =
    VR_OK | INVALID_MAGIC | INVALID_VERSION | INVALID_DEST_ID | PAYLOAD_LEN_MISMATCH
  | UNSUPPORTED_PACKET_TYPE | CRC_MISMATCH | MALFORMED_PAYLOAD | RESERVED_FIELD_WARNING

subsection \<open>Byte layouts\<close>

lemma length_encode_common [len_simps]: "wf_common h \<Longrightarrow> length (encode_common h) = 32"
  by (simp add: encode_common_def wf_common_def)

lemma length_encode_specific [simp, len_simps]: "length (encode_specific h) = 40"
  by (simp add: encode_specific_def)

lemma length_encode_snapshot [simp, len_simps]: "length (encode_snapshot s) = 40"
  by (simp add: encode_snapshot_def)

lemma decode_encode_common: "wf_common h \<Longrightarrow> decode_common (encode_common h @ rest) = h"
  by (simp add: decode_common_def encode_common_def wf_common_def field_le_def)

lemma decode_encode_specific: "decode_specific (encode_specific h @ rest) = h"
  by (simp add: decode_specific_def encode_specific_def field_le_def)

lemma decode_encode_snapshot: "decode_snapshot (encode_snapshot s @ rest) = s"
  by (simp add: decode_snapshot_def encode_snapshot_def field_le_def)

lemma encode_decode_common: "32 \<le> length bs \<Longrightarrow> encode_common (decode_common bs) = take 32 bs"
  using concat_pieces [of "[4, 4, 8, 2, 1, 1, 1, 1, 2, 1, 1, 2, 4]" bs]
  by (simp add: decode_common_def encode_common_def bytes_le_field_le)

lemma encode_decode_specific: "40 \<le> length bs \<Longrightarrow> encode_specific (decode_specific bs) = take 40 bs"
  using concat_pieces [of "[4, 4, 4, 4, 4, 8, 2, 2, 2, 2, 2, 2]" bs]
  by (simp add: decode_specific_def encode_specific_def bytes_le_field_le)

lemma encode_decode_snapshot: "40 \<le> length bs \<Longrightarrow> encode_snapshot (decode_snapshot bs) = take 40 bs"
  using concat_pieces [of "[2, 2, 1, 1, 2, 2, 2, 2, 2, 4, 4, 4, 4, 4, 4]" bs]
  by (simp add: decode_snapshot_def encode_snapshot_def bytes_le_field_le)

lemma wf_common_decode: "32 \<le> length bs \<Longrightarrow> wf_common (decode_common bs)"
  by (simp add: wf_common_def decode_common_def)

lemma decode_common_take: "decode_common (take 32 bs) = decode_common bs"
  by (simp add: decode_common_def field_le_def drop_take)

lemma packet_type_of_eq_simps [simp]:
  "packet_type_of b = DATA \<longleftrightarrow> b = 0x03"
  "packet_type_of b = HEARTBEAT \<longleftrightarrow> b = 0x04"
  by (auto simp: packet_type_of_def)

lemma packet_type_code_of [simp]: "packet_type_code (packet_type_of b) = b"
  by (simp add: packet_type_of_def packet_type_code_def)

subsection \<open>Packed fields\<close>

lemma popcount16_loop_card:
  "unat c + card {i. bit v i} < 256 \<Longrightarrow>
   unat (popcount16_loop v c) = unat c + card {i. bit v i}"
proof (induction v c rule: popcount16_loop.induct)
  case (1 v c)
  show ?case
  proof (cases "v = 0")
    case True
    then show ?thesis by simp
  next
    case False
    have fin: "finite {i. bit (drop_bit 1 v) i}"
      by (rule finite_subset [of _ "{..<16}"]) (auto dest: bit_imp_le_length)
    have split: "{i. bit v i} = (if bit v 0 then {0} else {}) \<union> Suc ` {i. bit (drop_bit 1 v) i}"
      by (auto simp: bit_drop_bit_eq image_iff) (metis not0_implies_Suc)+
    have card: "card {i. bit v i} = of_bool (bit v 0) + card {i. bit (drop_bit 1 v) i}"
      using fin by (simp add: split card_image card_insert_if image_iff)
    have low: "ucast (v AND 1) = (of_bool (bit v 0) :: u8)"
      by (simp add: and_one_eq bit_0 mod_2_eq_odd)
    have c': "unat (c + ucast (v AND 1)) = unat c + of_bool (bit v 0)"
      using "1.prems" card by (cases "bit v 0") (simp_all add: low unat_Suc_word)
    have "unat (popcount16_loop (drop_bit 1 v) (c + ucast (v AND 1))) =
        unat (c + ucast (v AND 1)) + card {i. bit (drop_bit 1 v) i}"
      using "1.IH" [OF False] "1.prems" card c' by simp
    then show ?thesis using False c' card by (simp add: popcount16_loop.simps [of v c])
  qed
qed

declare popcount16_loop.simps [simp del]

lemma card_bits_u16: "card {i. bit (v :: u16) i} \<le> 16"
proof -
  have "{i. bit v i} \<subseteq> {..<16}" by (auto dest: bit_imp_le_length)
  then show ?thesis using card_mono [of "{..<16::nat}"] by fastforce
qed

lemma popcount16_card: "unat (popcount16 v) = card {i. bit v i}"
  using popcount16_loop_card [of 0 v] card_bits_u16 [of v] by (simp add: popcount16_def)

lemma mask_literals:
  "(0x0FFF :: u16) = mask 12" "(0xF000 :: u16) = push_bit 12 (mask 4)" "(0x0F :: u8) = mask 4"
  by (simp_all add: mask_eq_exp_minus_1)

lemma get_set_channel_mask:
  "get_channel_mask (set_channel_mask_data_type_compat cm dt h) = cm AND 0x0FFF"
  by (rule bit_word_eqI)
     (auto simp: get_channel_mask_def set_channel_mask_data_type_compat_def Let_def mask_literals bit_simps
        dest: bit_imp_le_length)

lemma get_set_data_type_raw:
  "get_data_type_raw (set_channel_mask_data_type_compat cm dt h) = dt AND 0x0F"
  by (rule bit_word_eqI)
     (auto simp: get_data_type_raw_def set_channel_mask_data_type_compat_def Let_def mask_literals bit_simps
        dest: bit_imp_le_length)

subsection \<open>Sequence comparison\<close>

lemma is_sequence_newer_unat:
  "is_sequence_newer a b \<longleftrightarrow> 0 < unat (a - b) \<and> unat (a - b) < 2 ^ 31"
  by (simp add: is_sequence_newer_def Let_def word_less_nat_alt unat_gt_0)

lemma sequence_diff_flip: assumes "a \<noteq> b"
  shows "unat (b - a :: u32) + unat (a - b) = 2 ^ 32"
  using unat_neg_word [of "a - b"] assms by simp

lemma is_sequence_newer_asym: "is_sequence_newer a b \<Longrightarrow> \<not> is_sequence_newer b a"
  using sequence_diff_flip [of a b] by (cases "a = b") (auto simp: is_sequence_newer_unat)

lemma is_sequence_newer_total: "a \<noteq> b \<Longrightarrow> is_sequence_newer a b \<or> is_sequence_newer b a \<or> a - b = 2^31"
  using sequence_diff_flip [of a b] unsigned_less [of "a - b", where ?'a = nat]
    unsigned_less [of "b - a", where ?'a = nat]
  unfolding is_sequence_newer_unat word_unat_eq_iff by (auto)
lemma is_sequence_newer_add:
  "d < 2 ^ 32 \<Longrightarrow> is_sequence_newer (b + word_of_nat d) b \<longleftrightarrow> 0 < d \<and> d < 2 ^ 31"
  by (simp add: is_sequence_newer_unat unat_of_nat take_bit_nat_eq_self)

subsection \<open>The key order\<close>

fun key_tuple :: "ReassemblyKey \<Rightarrow> u16 \<times> u8 \<times> u32 \<times> u16 \<times> u32 \<times> u32 \<times> u16 \<times> u8" where
  "key_tuple (ReassemblyKey a b c d e f g h) = (a, b, c, d, e, f, g, h)"

lemma key_tuple_inject [simp]: "key_tuple a = key_tuple b \<longleftrightarrow> a = b"
  by (cases a; cases b) simp

lemma pair_less_if: "(a :: 'a::linorder, x :: 'b::linorder) < (b, y) \<longleftrightarrow> (if a \<noteq> b then a < b else x < y)"
  by auto

lemma key_less_tuple: "key_less a b \<longleftrightarrow> key_tuple a < key_tuple b"
  by (cases a; cases b) (simp only: key_less_def key_tuple.simps ReassemblyKey.sel pair_less_if)

lemma key_equal_iff [simp]: "key_equal a b \<longleftrightarrow> a = b"
  by (cases a; cases b) (auto simp: key_equal_def)

instantiation ReassemblyKey :: linorder
begin

definition less_ReassemblyKey :: "ReassemblyKey \<Rightarrow> ReassemblyKey \<Rightarrow> bool" where
  "less_ReassemblyKey a b = key_less a b"

definition less_eq_ReassemblyKey :: "ReassemblyKey \<Rightarrow> ReassemblyKey \<Rightarrow> bool" where
  "less_eq_ReassemblyKey a b = (key_equal a b \<or> key_less a b)"

instance
proof
  fix a b c :: ReassemblyKey
  note defs = less_ReassemblyKey_def less_eq_ReassemblyKey_def key_less_tuple key_equal_iff
  have le: "a \<le> b \<longleftrightarrow> key_tuple a \<le> key_tuple b" for a b :: ReassemblyKey
    unfolding defs by (metis key_tuple_inject order_le_less)
  show "a < b \<longleftrightarrow> a \<le> b \<and> \<not> b \<le> a" unfolding le defs by (rule less_le_not_le)
  show "a \<le> a" unfolding le by (rule order_refl)
  show "a \<le> b \<Longrightarrow> b \<le> c \<Longrightarrow> a \<le> c" unfolding le by (rule order_trans)
  show "a \<le> b \<Longrightarrow> b \<le> a \<Longrightarrow> a = b" unfolding le by (metis key_tuple_inject order_antisym)
  show "a \<le> b \<or> b \<le> a" unfolding le by (rule linear)
qed

end

subsection \<open>Properties\<close>

text \<open>
  The packed header layouts are bijective.  Copying a \<^verbatim>\<open>CommonHeader\<close>, a
  \<^verbatim>\<open>DataSpecificHeader\<close> or an \<^verbatim>\<open>ExecutionSnapshot\<close> to the wire and back gives the same struct,
  whatever follows it in the buffer; reading a struct from a buffer and writing it gives the bytes
  that were read; the sizes are the ones the \<^verbatim>\<open>static_assert\<close>s demand.
\<close>

lemma header_layouts_bijective:
  assumes "wf_common h" and "40 \<le> length bs"
  shows "decode_common (encode_common h @ rest) = h \<and> length (encode_common h) = COMMON_HEADER_SIZE \<and>
      encode_common (decode_common bs) = take COMMON_HEADER_SIZE bs \<and>
      decode_specific (encode_specific d @ rest) = d \<and>
      encode_specific (decode_specific bs) = take DATA_SPECIFIC_HEADER_SIZE bs \<and>
      decode_snapshot (encode_snapshot s @ rest) = s \<and>
      encode_snapshot (decode_snapshot bs) = take EXECUTION_SNAPSHOT_SIZE bs"
  using assms by (simp add: decode_encode_common decode_encode_specific decode_encode_snapshot
      encode_decode_common encode_decode_specific encode_decode_snapshot length_encode_common const_defs)

text \<open>
  The compatibility packing of \<^verbatim>\<open>reserved_health\<close> loses nothing: a 12-bit channel mask and a
  4-bit data type written by \<^verbatim>\<open>set_channel_mask_data_type_compat\<close> are read back unchanged, and the
  channel count is the number of channels in the mask.
\<close>

lemma channel_packing_roundtrip:
  assumes "cm AND 0x0FFF = cm" and "dt AND 0x0F = dt"
  shows "get_channel_mask (set_channel_mask_data_type_compat cm dt h) = cm \<and>
      get_data_type_raw (set_channel_mask_data_type_compat cm dt h) = dt \<and>
      unat (get_channel_count (set_channel_mask_data_type_compat cm dt h)) = card {i. bit cm i}"
  using assms by (simp add: get_set_channel_mask get_set_data_type_raw get_channel_count_def popcount16_card)

text \<open>
  Sequence comparison across the 32-bit wrap.  A number at most \<^verbatim>\<open>2^31 - 1\<close> steps ahead is
  newer, whatever the wrap; the relation is asymmetric; and two different numbers are comparable
  unless they are exactly half the number space apart.
\<close>

lemma sequence_comparison_wraps:
  assumes "d < 2 ^ 32"
  shows "(is_sequence_newer (b + word_of_nat d) b \<longleftrightarrow> 0 < d \<and> d < 2 ^ 31) \<and>
      \<not> (is_sequence_newer a b \<and> is_sequence_newer b a) \<and>
      (a = b \<or> is_sequence_newer a b \<or> is_sequence_newer b a \<or> a - b = 2 ^ 31)"
  using is_sequence_newer_add [OF assms] is_sequence_newer_asym is_sequence_newer_total by blast

text \<open>
  The hand-written \<^verbatim>\<open>operator<\<close> of \<^verbatim>\<open>ReassemblyKey\<close> is a strict total order whose
  incomparable elements are exactly the ones \<^verbatim>\<open>operator==\<close> identifies, as an ordered map needs.
\<close>

lemma key_operator_less_total_order:
  "\<not> key_less a a \<and> (key_less a b \<and> key_less b c \<longrightarrow> key_less a c) \<and>
   (key_equal a b \<longleftrightarrow> \<not> key_less a b \<and> \<not> key_less b a)"
proof -
  have "\<not> x < x \<and> (x < y \<and> y < z \<longrightarrow> x < z) \<and> (x = y \<longleftrightarrow> \<not> x < y \<and> \<not> y < x)" for x y z :: "'a::linorder"
    by auto
  then show ?thesis unfolding key_less_tuple key_equal_iff key_tuple_inject [symmetric] .
qed

end
