(* ===== verification/Protocol_Containers.thy ===== *)
theory Protocol_Containers
  imports Protocol_Types
begin

text \<open>
  The two containers of \<^verbatim>\<open>protocol_types.h\<close>: the two-level \<^verbatim>\<open>PriorityQueue\<close> and the
  \<^verbatim>\<open>DupCmdCache\<close> that remembers the acknowledgement of recent commands.  Each operation runs under
  the container's mutex, so it is one step of the model.  The lemmas show that the counters and
  the two internal structures stay consistent, that high-priority items overtake and each level is
  first-in first-out, and which commands the cache remembers.
\<close>

subsection \<open>PriorityQueue\<close>

datatype PacketPriority = HIGH | NORMAL

record 'a PriorityQueue =
  max_depth :: nat
  high_priority :: "'a list"
  normal_priority :: "'a list"
  total_depth :: nat

definition pq_new :: "nat \<Rightarrow> 'a PriorityQueue" where
  "pq_new m = \<lparr>max_depth = (if m = 0 then 1 else m), high_priority = [], normal_priority = [],
     total_depth = 0\<rparr>"

definition pq_push :: "'a PriorityQueue \<Rightarrow> 'a \<Rightarrow> PacketPriority \<Rightarrow> 'a PriorityQueue \<times> bool" where
  "pq_push q v p =
     (if total_depth q \<ge> max_depth q then (q, False)
      else let q1 = (if p = HIGH then q\<lparr>high_priority := high_priority q @ [v]\<rparr>
                     else q\<lparr>normal_priority := normal_priority q @ [v]\<rparr>)
           in (q1\<lparr>total_depth := total_depth q1 + 1\<rparr>, True))"

definition pq_pop :: "'a PriorityQueue \<Rightarrow> ('a \<times> 'a PriorityQueue) option" where
  "pq_pop q =
     (if high_priority q \<noteq> []
      then Some (hd (high_priority q),
                 q\<lparr>high_priority := tl (high_priority q), total_depth := total_depth q - 1\<rparr>)
      else if normal_priority q \<noteq> []
      then Some (hd (normal_priority q),
                 q\<lparr>normal_priority := tl (normal_priority q), total_depth := total_depth q - 1\<rparr>)
      else None)"

definition pq_set_max_depth :: "'a PriorityQueue \<Rightarrow> nat \<Rightarrow> 'a PriorityQueue" where
  "pq_set_max_depth q m = q\<lparr>max_depth := (if m = 0 then 1 else m)\<rparr>"

definition pq_inv :: "'a PriorityQueue \<Rightarrow> bool" where
  "pq_inv q \<longleftrightarrow> 0 < max_depth q \<and> total_depth q = length (high_priority q) + length (normal_priority q)"

text \<open>The order in which successive pops return the elements.\<close>

definition pq_order :: "'a PriorityQueue \<Rightarrow> 'a list" where
  "pq_order q = high_priority q @ normal_priority q"

fun pq_drain :: "nat \<Rightarrow> 'a PriorityQueue \<Rightarrow> 'a list" where
  "pq_drain 0 q = []"
| "pq_drain (Suc n) q = (case pq_pop q of None \<Rightarrow> [] | Some (x, q') \<Rightarrow> x # pq_drain n q')"

lemma pq_new_inv [simp]: "pq_inv (pq_new m)"
  by (simp add: pq_inv_def pq_new_def)

lemma pq_set_max_depth_inv: "pq_inv q \<Longrightarrow> pq_inv (pq_set_max_depth q m)"
  by (simp add: pq_inv_def pq_set_max_depth_def)

lemma pq_push_inv: "pq_inv q \<Longrightarrow> pq_inv (fst (pq_push q v p))"
  by (auto simp: pq_inv_def pq_push_def Let_def)

lemma pq_pop_Some:
  assumes "pq_inv q" and "pq_pop q = Some (x, q')"
  shows "pq_order q = x # pq_order q'" and "pq_inv q'" and "total_depth q = Suc (total_depth q')"
  using assms by (cases "high_priority q"; cases "normal_priority q";
      auto simp: pq_pop_def pq_order_def pq_inv_def)+

lemma pq_pop_None: "pq_pop q = None \<longleftrightarrow> pq_order q = []"
  by (auto simp: pq_pop_def pq_order_def)

lemma pq_drain_order: "pq_inv q \<Longrightarrow> pq_drain n q = take n (pq_order q)"
proof (induction n arbitrary: q)
  case (Suc n)
  show ?case
  proof (cases "pq_pop q")
    case None
    then show ?thesis using pq_pop_None [of q] by simp
  next
    case (Some r)
    then obtain x q' where r: "pq_pop q = Some (x, q')" by (cases r) auto
    then show ?thesis using pq_pop_Some [OF Suc.prems r] Suc.IH by simp
  qed
qed simp

subsection \<open>DupCmdCache\<close>

record ScheduleApplyAckPayload =
  ack_frame_counter :: u32
  acked_sequence_number :: u32
  ack_result :: u8
  error_code :: u8
  error_detail :: u16
  applied_timestamp :: u64
  payload_crc32c :: u32

datatype DupCmdKey = DupCmdKey (dk_source_id: u8) (dk_control_epoch: u16) (dk_sequence_number: u32)

record DupCmdCacheEntry =
  entry_key :: DupCmdKey
  last_result :: ScheduleApplyAckPayload
  cached_at_ms :: u64

record DupCmdCache =
  max_entries :: nat
  entries :: "(DupCmdKey \<times> DupCmdCacheEntry) list"
  fifo :: "DupCmdKey list"

definition dup_new :: "nat \<Rightarrow> DupCmdCache" where
  "dup_new m = \<lparr>max_entries = (if m = 0 then 1 else m), entries = [], fifo = []\<rparr>"

definition dup_find :: "DupCmdCache \<Rightarrow> DupCmdKey \<Rightarrow> ScheduleApplyAckPayload option" where
  "dup_find c k = (case map_of (entries c) k of None \<Rightarrow> None | Some e \<Rightarrow> Some (last_result e))"

definition dup_evict :: "DupCmdCache \<Rightarrow> DupCmdCache" where
  "dup_evict c = c\<lparr>fifo := tl (fifo c), entries := AList.delete (hd (fifo c)) (entries c)\<rparr>"

definition dup_upsert :: "DupCmdCache \<Rightarrow> DupCmdKey \<Rightarrow> ScheduleApplyAckPayload \<Rightarrow> u64 \<Rightarrow> DupCmdCache" where
  "dup_upsert c k ack now_ms =
     (case map_of (entries c) k of
        Some e \<Rightarrow> c\<lparr>entries := AList.update k (e\<lparr>last_result := ack, cached_at_ms := now_ms\<rparr>) (entries c)\<rparr>
      | None \<Rightarrow>
          let c1 = (if length (entries c) \<ge> max_entries c \<and> fifo c \<noteq> [] then dup_evict c else c);
              e = \<lparr>entry_key = k, last_result = ack, cached_at_ms = now_ms\<rparr>
          in c1\<lparr>entries := AList.update k e (entries c1), fifo := fifo c1 @ [k]\<rparr>)"

definition dup_clear :: "DupCmdCache \<Rightarrow> DupCmdCache" where
  "dup_clear c = c\<lparr>entries := [], fifo := []\<rparr>"

function dup_shrink :: "DupCmdCache \<Rightarrow> DupCmdCache" where
  "dup_shrink c =
     (if length (entries c) > max_entries c \<and> fifo c \<noteq> [] then dup_shrink (dup_evict c) else c)"
  by pat_completeness auto
termination
  by (relation "measure (\<lambda>c. length (fifo c))") (auto simp: dup_evict_def)

declare dup_shrink.simps [simp del]

definition dup_set_max_entries :: "DupCmdCache \<Rightarrow> nat \<Rightarrow> DupCmdCache" where
  "dup_set_max_entries c m = dup_shrink (c\<lparr>max_entries := (if m = 0 then 1 else m)\<rparr>)"

text \<open>The queue of keys and the hash map hold the same keys.\<close>

definition dup_keys_ok :: "DupCmdCache \<Rightarrow> bool" where
  "dup_keys_ok c \<longleftrightarrow> 0 < max_entries c \<and> al_wf (entries c) \<and> distinct (fifo c) \<and>
     set (fifo c) = fst ` set (entries c)"

definition dup_inv :: "DupCmdCache \<Rightarrow> bool" where
  "dup_inv c \<longleftrightarrow> dup_keys_ok c \<and> length (entries c) \<le> max_entries c"

lemma dup_length: "dup_keys_ok c \<Longrightarrow> length (entries c) = length (fifo c)"
  using distinct_card [of "fifo c"] distinct_card [of "map fst (entries c)"]
  by (simp add: dup_keys_ok_def al_wf_def)

lemma dup_evict_ok:
  assumes "dup_keys_ok c" and "fifo c \<noteq> []"
  shows "dup_keys_ok (dup_evict c)" and "length (entries (dup_evict c)) = length (entries c) - 1"
proof -
  show ok: "dup_keys_ok (dup_evict c)"
    using assms by (cases "fifo c") (auto simp: dup_keys_ok_def dup_evict_def)
  show "length (entries (dup_evict c)) = length (entries c) - 1"
    unfolding dup_length [OF ok] dup_length [OF assms(1)] by (simp add: dup_evict_def)
qed

lemma dup_find_evict:
  "dup_find (dup_evict c) k = (if k = hd (fifo c) then None else dup_find c k)"
  by (simp add: dup_find_def dup_evict_def delete_conv')

lemma dup_find_None: "dup_keys_ok c \<Longrightarrow> dup_find c k = None \<longleftrightarrow> k \<notin> set (fifo c)"
  by (auto simp: dup_find_def dup_keys_ok_def map_of_eq_None_iff split: option.splits dest: al_find_key)

lemma dup_upsert_hit:
  "k \<in> set (fifo c) \<Longrightarrow> dup_keys_ok c \<Longrightarrow> \<exists>e. dup_upsert c k a t =
     c\<lparr>entries := AList.update k (e\<lparr>last_result := a, cached_at_ms := t\<rparr>) (entries c)\<rparr>"
  by (cases "map_of (entries c) k")
     (auto simp: dup_upsert_def dup_keys_ok_def map_of_eq_None_iff)

lemma dup_upsert_miss:
  "k \<notin> set (fifo c) \<Longrightarrow> dup_keys_ok c \<Longrightarrow> dup_upsert c k a t =
     (let c1 = (if length (entries c) \<ge> max_entries c \<and> fifo c \<noteq> [] then dup_evict c else c)
      in c1\<lparr>entries := AList.update k \<lparr>entry_key = k, last_result = a, cached_at_ms = t\<rparr> (entries c1),
            fifo := fifo c1 @ [k]\<rparr>)"
  by (cases "map_of (entries c) k")
     (auto simp: dup_upsert_def dup_keys_ok_def dest: al_find_key)

lemma dup_add_ok:
  assumes "dup_keys_ok c" "k \<notin> set (fifo c)" "length (entries c) < max_entries c"
  shows "dup_inv (c\<lparr>entries := AList.update k e (entries c), fifo := fifo c @ [k]\<rparr>)"
proof -
  have "map_of (entries c) k = None" using assms by (auto simp: dup_keys_ok_def map_of_eq_None_iff)
  then show ?thesis
    using assms by (auto simp: dup_inv_def dup_keys_ok_def al_length_update)
qed

lemma dup_upsert_inv:
  assumes "dup_inv c"
  shows "dup_inv (dup_upsert c k a t)"
proof (cases "k \<in> set (fifo c)")
  case True
  have ok: "dup_keys_ok c" using assms by (simp add: dup_inv_def)
  obtain e where u: "dup_upsert c k a t = c\<lparr>entries := AList.update k e (entries c)\<rparr>"
    using dup_upsert_hit [OF True ok] by blast
  have k: "k \<in> fst ` set (entries c)" using True ok by (simp add: dup_keys_ok_def)
  then have "map_of (entries c) k \<noteq> None" by (simp add: map_of_eq_None_iff)
  then show ?thesis
    using assms k unfolding u by (auto simp: dup_inv_def dup_keys_ok_def al_length_update)
next
  case False
  have ok: "dup_keys_ok c" and le: "length (entries c) \<le> max_entries c" and pos: "0 < max_entries c"
    using assms by (simp_all add: dup_inv_def dup_keys_ok_def)
  show ?thesis
  proof (cases "length (entries c) \<ge> max_entries c \<and> fifo c \<noteq> []")
    case True
    have "k \<notin> set (fifo (dup_evict c))" using False by (cases "fifo c") (auto simp: dup_evict_def)
    moreover have "max_entries (dup_evict c) = max_entries c" by (simp add: dup_evict_def)
    ultimately show ?thesis
      using dup_add_ok [OF dup_evict_ok(1) [OF ok]] dup_evict_ok(2) [OF ok] True le pos
      by (simp add: dup_upsert_miss [OF False ok] Let_def)
  next
    case not: False
    then have "length (entries c) < max_entries c"
      using pos le dup_length [OF ok] by (cases "fifo c") auto
    then show ?thesis
      using dup_add_ok [OF ok False] not by (simp add: dup_upsert_miss [OF False ok] Let_def)
  qed
qed

lemma dup_shrink_ok: "dup_keys_ok c \<Longrightarrow> dup_inv (dup_shrink c) \<and> max_entries (dup_shrink c) = max_entries c \<and>
    fifo (dup_shrink c) = drop (length (fifo c) - max_entries c) (fifo c)"
proof (induction c rule: dup_shrink.induct)
  case (1 c)
  show ?case
  proof (cases "length (entries c) > max_entries c \<and> fifo c \<noteq> []")
    case True
    then have len: "max_entries c < length (fifo c)" using dup_length [OF 1(2)] by simp
    then have eq: "length (fifo c) - max_entries c = Suc (length (fifo c) - 1 - max_entries c)" by simp
    have "drop (length (fifo c) - 1 - max_entries c) (tl (fifo c)) = drop (length (fifo c) - max_entries c) (fifo c)"
      unfolding eq by (simp add: drop_Suc)
    then show ?thesis
      using 1(1) [OF True dup_evict_ok(1) [OF 1(2)]] True
      by (simp add: dup_shrink.simps [of c]) (simp add: dup_evict_def)
  next
    case False
    then have "length (entries c) \<le> max_entries c" using dup_length [OF 1(2)] by auto
    with False 1(2) show ?thesis
      using dup_length [OF 1(2)] by (simp add: dup_shrink.simps [of c] dup_inv_def)
  qed
qed

lemma dup_set_max_entries_inv:
  "dup_inv c \<Longrightarrow> dup_inv (dup_set_max_entries c m)"
  unfolding dup_set_max_entries_def
  by (rule dup_shrink_ok [THEN conjunct1]) (simp add: dup_inv_def dup_keys_ok_def)

lemma dup_find_upsert:
  assumes "dup_inv c"
  shows "dup_find (dup_upsert c k a t) k' =
      (if k' = k then Some a
       else if k \<notin> set (fifo c) \<and> length (fifo c) = max_entries c \<and> k' = hd (fifo c) then None
       else dup_find c k')"
proof (cases "k \<in> set (fifo c)")
  case True
  have ok: "dup_keys_ok c" using assms by (simp add: dup_inv_def)
  from dup_upsert_hit [OF True ok, of a t] True show ?thesis
    by (auto simp: dup_find_def update_conv')
next
  case False
  have ok: "dup_keys_ok c" using assms by (simp add: dup_inv_def)
  have "length (entries c) \<ge> max_entries c \<and> fifo c \<noteq> [] \<longleftrightarrow> length (fifo c) = max_entries c"
    using assms dup_length [OF ok] by (auto simp: dup_inv_def dup_keys_ok_def)
  with False show ?thesis
    by (auto simp: dup_upsert_miss [OF False ok] Let_def dup_find_def update_conv' dup_evict_def delete_conv')
qed

subsection \<open>Properties\<close>

text \<open>
  \<^verbatim>\<open>PriorityQueue::push\<close> refuses exactly when the queue is at its depth limit and otherwise keeps
  the depth counter exact; popping then returns all high-priority elements before the normal ones,
  each level in order of arrival.
\<close>

lemma priority_queue_order:
  assumes "pq_inv q" and "pq_push q v p = (q', ok)"
  shows "pq_inv q' \<and> (ok \<longleftrightarrow> total_depth q < max_depth q) \<and>
      pq_drain n q' = take n
        (if \<not> ok then high_priority q @ normal_priority q
         else if p = HIGH then high_priority q @ [v] @ normal_priority q
         else high_priority q @ normal_priority q @ [v])"
proof -
  have inv: "pq_inv q'" using pq_push_inv [OF assms(1), of v p] assms(2) by simp
  have "pq_order q' = (if \<not> ok then high_priority q @ normal_priority q
         else if p = HIGH then high_priority q @ [v] @ normal_priority q
         else high_priority q @ normal_priority q @ [v])"
    and "ok \<longleftrightarrow> total_depth q < max_depth q"
    using assms by (auto simp: pq_push_def pq_order_def Let_def split: if_splits)
  with inv show ?thesis by (simp only: pq_drain_order [OF inv])
qed

text \<open>
  The duplicate-command cache.  After \<^verbatim>\<open>upsert\<close> the new acknowledgement is found under its key;
  every other command is found as before, except that a new key in a full cache evicts the oldest one;
  the cache stays within its limit, its queue and its map hold the same keys, and lowering the limit
  keeps the most recent keys.
\<close>

lemma dup_cache_remembers:
  assumes "dup_inv c"
  shows "dup_inv (dup_upsert c k a t) \<and>
      dup_find (dup_upsert c k a t) k' =
        (if k' = k then Some a
         else if k \<notin> set (fifo c) \<and> length (fifo c) = max_entries c \<and> k' = hd (fifo c) then None
         else dup_find c k') \<and>
      dup_inv (dup_set_max_entries c m) \<and>
      fifo (dup_set_max_entries c m) = drop (length (fifo c) - max 1 m) (fifo c)"
proof -
  have "dup_keys_ok (c\<lparr>max_entries := if m = 0 then 1 else m\<rparr>)"
    using assms by (simp add: dup_inv_def dup_keys_ok_def)
  from dup_shrink_ok [OF this]
  have "fifo (dup_set_max_entries c m) = drop (length (fifo c) - max 1 m) (fifo c)"
    by (cases m) (simp_all add: dup_set_max_entries_def)
  then show ?thesis
    using dup_upsert_inv [OF assms] dup_find_upsert [OF assms] dup_set_max_entries_inv [OF assms] by simp
qed

end
