(* ===== verification/Spsc_Queue.thy ===== *)
theory Spsc_Queue
  imports Prelude
begin

text \<open>
  The two single-producer single-consumer rings: \<^verbatim>\<open>qdgz300::SPSCQueue<T, Cap>\<close>
  (\<^verbatim>\<open>include/qdgz300/common/spsc_queue.h\<close>, power-of-two capacity, index masks) and
  \<^verbatim>\<open>receiver::delivery::SpscQueue<T>\<close> (\<^verbatim>\<open>include/qdgz300/m01_receiver/delivery/spsc_queue.h\<close>,
  modulo indexing).  Both drop the oldest element when full.  The contract is the locale
  \<open>drop_oldest_queue\<close>; both rings are interpretations of it, so their common consequences (what
  a run of pushes leaves, how many elements it drops) are proved once.
\<close>

subsection \<open>SPSCQueue: indices masked by a power of two\<close>

text \<open>
  \<^verbatim>\<open>Cap\<close> is the length of \<^verbatim>\<open>buffer_\<close>; \<^verbatim>\<open>head_\<close> and \<^verbatim>\<open>tail_\<close> are \<^verbatim>\<open>size_t\<close> words, since \<^verbatim>\<open>size()\<close>
  relies on the wrap-around of \<^verbatim>\<open>tail - head\<close>.
\<close>

record 'a SPSCQueue =
  sq_head :: u64
  sq_tail :: u64
  sq_drop_count :: u64
  sq_buffer :: "'a list"

definition spsc_mask :: "'a SPSCQueue \<Rightarrow> u64" where
  "spsc_mask q = word_of_nat (length (sq_buffer q) - 1)"

definition spsc_next :: "'a SPSCQueue \<Rightarrow> u64 \<Rightarrow> u64" where
  "spsc_next q i = (i + 1) AND spsc_mask q"

definition spsc_new :: "'a list \<Rightarrow> 'a SPSCQueue" where
  "spsc_new slots = \<lparr>sq_head = 0, sq_tail = 0, sq_drop_count = 0, sq_buffer = slots\<rparr>"

definition try_push :: "'a SPSCQueue \<Rightarrow> 'a \<Rightarrow> 'a SPSCQueue \<times> bool" where
  "try_push q item =
     (let t = sq_tail q; n = spsc_next q t in
      if n = sq_head q then (q, False)
      else (q\<lparr>sq_buffer := (sq_buffer q)[unat t := item], sq_tail := n\<rparr>, True))"

text \<open>
  The retry loop of \<^verbatim>\<open>drop_oldest_push\<close> without interference: each iteration either stores the
  item or advances the head.  The value \<open>None\<close> is a loop that does not return.
\<close>

partial_function (option) drop_oldest_loop ::
  "'a SPSCQueue \<Rightarrow> 'a \<Rightarrow> bool \<Rightarrow> ('a SPSCQueue \<times> bool) option" where
  "drop_oldest_loop q item dropped =
     (let t = sq_tail q; n = spsc_next q t; h = sq_head q in
      if n \<noteq> h then Some (q\<lparr>sq_buffer := (sq_buffer q)[unat t := item], sq_tail := n\<rparr>, \<not> dropped)
      else drop_oldest_loop (q\<lparr>sq_head := spsc_next q h, sq_drop_count := sq_drop_count q + 1\<rparr>) item True)"

definition drop_oldest_push :: "'a SPSCQueue \<Rightarrow> 'a \<Rightarrow> ('a SPSCQueue \<times> bool) option" where
  "drop_oldest_push q item = drop_oldest_loop q item False"

definition try_pop :: "'a SPSCQueue \<Rightarrow> ('a \<times> 'a SPSCQueue) option" where
  "try_pop q =
     (let h = sq_head q in
      if h = sq_tail q then None else Some (sq_buffer q ! unat h, q\<lparr>sq_head := spsc_next q h\<rparr>))"

definition spsc_size :: "'a SPSCQueue \<Rightarrow> nat" where
  "spsc_size q = unat ((sq_tail q - sq_head q) AND spsc_mask q)"

definition spsc_empty :: "'a SPSCQueue \<Rightarrow> bool" where
  "spsc_empty q \<longleftrightarrow> sq_head q = sq_tail q"

definition spsc_full :: "'a SPSCQueue \<Rightarrow> bool" where
  "spsc_full q \<longleftrightarrow> spsc_next q (sq_tail q) = sq_head q"

definition spsc_reset :: "'a SPSCQueue \<Rightarrow> 'a SPSCQueue" where
  "spsc_reset q = q\<lparr>sq_head := 0, sq_tail := 0, sq_drop_count := 0\<rparr>"

definition usable_capacity :: "'a SPSCQueue \<Rightarrow> nat" where
  "usable_capacity q = length (sq_buffer q) - 1"

text \<open>
  The class invariant: the capacity is a power of two (the \<^verbatim>\<open>static_assert\<close>), the indices are
  in range.
\<close>

definition spsc_inv :: "'a SPSCQueue \<Rightarrow> bool" where
  "spsc_inv q \<longleftrightarrow>
     (\<exists>k. k < 64 \<and> length (sq_buffer q) = 2 ^ k) \<and> 1 < length (sq_buffer q) \<and>
     unat (sq_head q) < length (sq_buffer q) \<and> unat (sq_tail q) < length (sq_buffer q)"

text \<open>The elements between head and tail, oldest first.\<close>

definition ring_contents :: "'a list \<Rightarrow> nat \<Rightarrow> nat \<Rightarrow> 'a list" where
  "ring_contents buf h t =
     map (\<lambda>i. buf ! ((h + i) mod length buf)) [0..<(t + length buf - h) mod length buf]"

definition spsc_contents :: "'a SPSCQueue \<Rightarrow> 'a list" where
  "spsc_contents q = ring_contents (sq_buffer q) (unat (sq_head q)) (unat (sq_tail q))"

subsection \<open>SpscQueue: indices modulo the buffer size\<close>

text \<open>Here \<^verbatim>\<open>head_\<close> is the write position and \<^verbatim>\<open>tail_\<close> the read position.\<close>

record 'a SpscQueue =
  dq_capacity :: nat
  dq_buffer :: "'a list"
  dq_head :: nat
  dq_tail :: nat
  dq_dropped_count :: u64

definition dq_new :: "nat \<Rightarrow> 'a \<Rightarrow> 'a SpscQueue" where
  "dq_new capacity empty_slot =
     (let cap = (if capacity > 0 then capacity else 1) in
      \<lparr>dq_capacity = cap, dq_buffer = replicate (cap + 1) empty_slot, dq_head = 0, dq_tail = 0,
       dq_dropped_count = 0\<rparr>)"

definition dq_push :: "'a SpscQueue \<Rightarrow> 'a \<Rightarrow> 'a SpscQueue \<times> bool" where
  "dq_push q item =
     (let current_head = dq_head q;
          next_head = (current_head + 1) mod length (dq_buffer q);
          current_tail = dq_tail q;
          q1 = (if next_head = current_tail
                then q\<lparr>dq_tail := (current_tail + 1) mod length (dq_buffer q),
                       dq_dropped_count := dq_dropped_count q + 1\<rparr>
                else q)
      in (q1\<lparr>dq_buffer := (dq_buffer q)[current_head := item], dq_head := next_head\<rparr>, True))"

definition dq_pop :: "'a SpscQueue \<Rightarrow> ('a \<times> 'a SpscQueue) option" where
  "dq_pop q =
     (if dq_tail q = dq_head q then None
      else Some (dq_buffer q ! dq_tail q, q\<lparr>dq_tail := (dq_tail q + 1) mod length (dq_buffer q)\<rparr>))"

definition dq_empty :: "'a SpscQueue \<Rightarrow> bool" where
  "dq_empty q \<longleftrightarrow> dq_tail q = dq_head q"

definition dq_size :: "'a SpscQueue \<Rightarrow> nat" where
  "dq_size q =
     (if dq_head q \<ge> dq_tail q then dq_head q - dq_tail q
      else length (dq_buffer q) - dq_tail q + dq_head q)"

definition dq_reset_dropped_count :: "'a SpscQueue \<Rightarrow> 'a SpscQueue" where
  "dq_reset_dropped_count q = q\<lparr>dq_dropped_count := 0\<rparr>"

definition dq_inv :: "'a SpscQueue \<Rightarrow> bool" where
  "dq_inv q \<longleftrightarrow>
     0 < dq_capacity q \<and> length (dq_buffer q) = dq_capacity q + 1 \<and>
     dq_head q < length (dq_buffer q) \<and> dq_tail q < length (dq_buffer q)"

definition dq_contents :: "'a SpscQueue \<Rightarrow> 'a list" where
  "dq_contents q = ring_contents (dq_buffer q) (dq_tail q) (dq_head q)"

text \<open>
  A burst of calls to \<^verbatim>\<open>drop_oldest_push\<close>, as the receive loop makes them, and up to \<open>n\<close> calls of a
  pop until it reports an empty queue, as the consumer loops make them.
\<close>

fun push_run :: "'a SPSCQueue \<Rightarrow> 'a list \<Rightarrow> 'a SPSCQueue option" where
  "push_run q [] = Some q"
| "push_run q (x # xs) =
     (case drop_oldest_push q x of None \<Rightarrow> None | Some (q', direct) \<Rightarrow> push_run q' xs)"

fun pop_run :: "('q \<Rightarrow> ('a \<times> 'q) option) \<Rightarrow> nat \<Rightarrow> 'q \<Rightarrow> 'a list" where
  "pop_run pop 0 q = []"
| "pop_run pop (Suc n) q = (case pop q of None \<Rightarrow> [] | Some (x, q') \<Rightarrow> x # pop_run pop n q')"

subsection \<open>The contract of a drop-oldest queue\<close>

lemma tl_drop_snoc: "n < length xs \<Longrightarrow> tl (drop n xs) @ [x] = drop (Suc n) (xs @ [x])"
  by (simp add: tl_drop drop_Suc [symmetric])

locale drop_oldest_queue =
  fixes push :: "'q \<Rightarrow> 'a \<Rightarrow> 'q"
    and pop :: "'q \<Rightarrow> ('a \<times> 'q) option"
    and contents :: "'q \<Rightarrow> 'a list"
    and usable :: "'q \<Rightarrow> nat"
    and dropped :: "'q \<Rightarrow> u64"
    and invar :: "'q \<Rightarrow> bool"
  assumes invar_push: "invar q \<Longrightarrow> invar (push q x)"
    and invar_pop: "invar q \<Longrightarrow> pop q = Some (x, q') \<Longrightarrow> invar q'"
    and contents_push: "invar q \<Longrightarrow> contents (push q x) =
          (if length (contents q) < usable q then contents q else tl (contents q)) @ [x]"
    and contents_bound: "invar q \<Longrightarrow> length (contents q) \<le> usable q"
    and usable_pos: "invar q \<Longrightarrow> 0 < usable q"
    and usable_push: "invar q \<Longrightarrow> usable (push q x) = usable q"
    and dropped_push: "invar q \<Longrightarrow>
          dropped (push q x) = (if length (contents q) < usable q then dropped q else dropped q + 1)"
    and pop_empty: "invar q \<Longrightarrow> pop q = None \<longleftrightarrow> contents q = []"
    and pop_head: "invar q \<Longrightarrow> pop q = Some (x, q') \<Longrightarrow> contents q = x # contents q'"
    and pop_frame: "invar q \<Longrightarrow> pop q = Some (x, q') \<Longrightarrow> usable q' = usable q \<and> dropped q' = dropped q"
begin

fun push_all :: "'q \<Rightarrow> 'a list \<Rightarrow> 'q" where
  "push_all q [] = q"
| "push_all q (x # xs) = push_all (push q x) xs"

lemma push_all_append: "push_all q (xs @ ys) = push_all (push_all q xs) ys"
  by (induction xs arbitrary: q) simp_all

lemma push_all_foldl: "push_all q xs = foldl push q xs"
  by (induction xs arbitrary: q) simp_all

lemma pop_run_contents: "invar q \<Longrightarrow> pop_run pop n q = take n (contents q)"
proof (induction n arbitrary: q)
  case (Suc n)
  show ?case
  proof (cases "pop q")
    case None
    then show ?thesis using pop_empty [OF Suc.prems] by simp
  next
    case (Some r)
    then obtain x q' where r: "pop q = Some (x, q')" by (cases r) auto
    then show ?thesis
      using Suc.IH [OF invar_pop [OF Suc.prems r]] pop_head [OF Suc.prems r] by simp
  qed
qed simp

lemma push_all_facts:
  assumes "invar q"
  shows "invar (push_all q xs) \<and> usable (push_all q xs) = usable q \<and>
    contents (push_all q xs) = drop (length (contents q @ xs) - usable q) (contents q @ xs) \<and>
    dropped (push_all q xs) = dropped q + word_of_nat (length (contents q @ xs) - usable q)"
proof (induction xs rule: rev_induct)
  case Nil
  then show ?case using assms contents_bound [OF assms] by simp
next
  case (snoc x xs)
  let ?q = "push_all q xs" and ?all = "contents q @ xs"
  from snoc have inv: "invar ?q" and us: "usable ?q = usable q"
    and con: "contents ?q = drop (length ?all - usable q) ?all"
    and dr: "dropped ?q = dropped q + word_of_nat (length ?all - usable q)" by auto
  have len: "length (contents ?q) = min (length ?all) (usable q)" unfolding con length_drop by arith
  have pos: "0 < usable q" using usable_pos [OF assms] .
  show ?case
  proof (cases "length ?all < usable q")
    case True
    then show ?thesis
      using inv us con dr len
      by (simp add: push_all_append invar_push usable_push contents_push dropped_push)
  next
    case False
    then have eq: "length (?all @ [x]) - usable q = Suc (length ?all - usable q)" by simp
    have "tl (drop (length ?all - usable q) ?all) @ [x] = drop (Suc (length ?all - usable q)) (?all @ [x])"
      using False pos by (intro tl_drop_snoc) simp
    then show ?thesis
      using False inv us con dr len eq
      by (simp add: push_all_append invar_push usable_push contents_push dropped_push algebra_simps
          del: append_assoc)
  qed
qed

end

subsection \<open>Ring arithmetic\<close>

lemma mod_add_if: "a < n \<Longrightarrow> b < (n::nat) \<Longrightarrow> (a + b) mod n = (if a + b < n then a + b else a + b - n)"
  by (simp add: mod_if)

lemma mod_Suc_if: "a < (n::nat) \<Longrightarrow> (a + 1) mod n = (if a + 1 = n then 0 else a + 1)"
  by (auto simp: mod_if)

lemma ring_size_if:
  "h < n \<Longrightarrow> t < (n::nat) \<Longrightarrow> (t + n - h) mod n = (if h \<le> t then t - h else t + n - h)"
  by (auto simp: mod_if)

lemma length_ring_contents [simp]:
  "length (ring_contents buf h t) = (t + length buf - h) mod length buf"
  by (simp add: ring_contents_def)

lemma ring_full_iff:
  "h < n \<Longrightarrow> t < (n::nat) \<Longrightarrow> (t + n - h) mod n < n - 1 \<longleftrightarrow> (t + 1) mod n \<noteq> h"
  unfolding ring_size_if mod_Suc_if by (auto split: if_splits)

lemma ring_size_push:
  assumes "h < n" "t < (n::nat)" "(t + 1) mod n \<noteq> h"
  shows "((t + 1) mod n + n - h) mod n = Suc ((t + n - h) mod n)"
  using assms ring_size_if [of h n "(t + 1) mod n"] ring_size_if [of h n t]
  by (auto simp: mod_Suc_if [simplified] split: if_splits)

lemma ring_size_pop:
  assumes "h < n" "t < (n::nat)" "h \<noteq> t"
  shows "(t + n - h) mod n = Suc ((t + n - (h + 1) mod n) mod n)"
  using assms ring_size_if [of "(h + 1) mod n" n t] ring_size_if [of h n t]
  by (auto simp: mod_Suc_if [simplified] split: if_splits)

lemma ring_index_neq_tail:
  assumes "h < n" "t < (n::nat)" "i < (t + n - h) mod n"
  shows "(h + i) mod n \<noteq> t"
proof -
  have "i < n" using assms by (auto simp: ring_size_if split: if_splits)
  then show ?thesis
    using assms by (auto simp: ring_size_if mod_add_if split: if_splits)
qed

lemma ring_index_last: "h < n \<Longrightarrow> t < (n::nat) \<Longrightarrow> (h + (t + n - h) mod n) mod n = t"
  by (auto simp: ring_size_if mod_if)

lemma ring_contents_push:
  assumes "h < length buf" "t < length buf" "(t + 1) mod length buf \<noteq> h"
  shows "ring_contents (buf[t := x]) h ((t + 1) mod length buf) = ring_contents buf h t @ [x]"
proof -
  let ?n = "length buf" and ?s = "(t + length buf - h) mod length buf"
  have last: "(h + ?s) mod ?n = t" using assms by (simp add: ring_index_last)
  have "t \<noteq> (h + i) mod ?n" if "i < ?s" for i
    using that assms ring_index_neq_tail by blast
  then have "map (\<lambda>i. buf[t := x] ! ((h + i) mod ?n)) [0..<?s] = map (\<lambda>i. buf ! ((h + i) mod ?n)) [0..<?s]"
    by simp
  then show ?thesis
    using assms last by (simp add: ring_contents_def ring_size_push [simplified])
qed

lemma ring_contents_pop:
  assumes "h < length buf" "t < length buf" "h \<noteq> t"
  shows "ring_contents buf h t = buf ! h # ring_contents buf ((h + 1) mod length buf) t"
proof -
  let ?n = "length buf"
  have "map (\<lambda>i. buf ! ((h + i) mod ?n)) [0..<Suc m] =
      buf ! h # map (\<lambda>i. buf ! (((h + 1) mod ?n + i) mod ?n)) [0..<m]" for m
    using assms by (simp add: map_upt_Suc mod_add_left_eq del: upt_Suc)
  then show ?thesis
    using ring_size_pop [OF assms] by (simp add: ring_contents_def del: upt_Suc)
qed

lemma ring_contents_Nil: "h < length buf \<Longrightarrow> t < length buf \<Longrightarrow> ring_contents buf h t = [] \<longleftrightarrow> h = t"
  by (auto simp: ring_contents_def ring_size_if split: if_splits)

subsection \<open>SPSCQueue meets the contract\<close>

lemma spsc_mask_eq: "length (sq_buffer q) = 2 ^ k \<Longrightarrow> spsc_mask q = mask k"
  by (simp add: spsc_mask_def mask_eq_exp_minus_1 of_nat_diff)

lemma unat_spsc_next:
  assumes "spsc_inv q" and "unat i < length (sq_buffer q)"
  shows "unat (spsc_next q i) = (unat i + 1) mod length (sq_buffer q)"
proof -
  from assms(1) obtain k where k: "k < 64" "length (sq_buffer q) = 2 ^ k"
    by (auto simp: spsc_inv_def)
  have "(2::nat) ^ k \<le> 2 ^ 63" using k(1) by (intro power_increasing) auto
  then have "unat (i + 1) = Suc (unat i)" using assms(2) k(2) by (intro unat_Suc_word) simp
  then show ?thesis
    using k by (simp add: spsc_next_def spsc_mask_eq unat_and_mask)
qed

lemma unat_diff_mod_pow2:
  assumes "k < 64" "unat t < 2 ^ k" "unat h < (2::nat) ^ k"
  shows "unat (t - h :: u64) mod 2 ^ k = (unat t + 2 ^ k - unat h) mod 2 ^ k"
proof (cases "unat h \<le> unat t")
  case True
  then have "unat (t - h) = unat t - unat h" by (simp add: unat_sub word_le_nat_alt)
  then show ?thesis using True assms by (simp add: ring_size_if [of _ "2 ^ k"])
next
  case False
  then have "h - t \<noteq> 0" by auto
  then have "unat (t - h) + unat (h - t) = 2 ^ 64" using unat_neg_word [of "h - t"] by simp
  moreover have "unat (h - t) = unat h - unat t" using False by (simp add: unat_sub word_le_nat_alt)
  moreover have "(2::nat) ^ 64 = 2 ^ k * 2 ^ (64 - k)" using assms(1) by (simp add: power_add [symmetric])
  moreover obtain m where "(2::nat) ^ (64 - k) = Suc m" by (metis not0_implies_Suc power_not_zero zero_neq_numeral)
  ultimately have "unat (t - h) = 2 ^ k * m + (unat t + 2 ^ k - unat h)" using assms False by simp
  moreover have "(2 ^ k * m + (unat t + 2 ^ k - unat h)) mod 2 ^ k = (unat t + 2 ^ k - unat h) mod 2 ^ k"
    by (rule mod_mult_self4)
  ultimately show ?thesis by (simp only:)
qed

lemma spsc_size_contents: "spsc_inv q \<Longrightarrow> spsc_size q = length (spsc_contents q)"
  by (auto simp: spsc_inv_def spsc_size_def spsc_contents_def spsc_mask_eq unat_and_mask
      unat_diff_mod_pow2)

lemma spsc_full_iff:
  assumes "spsc_inv q"
  shows "spsc_next q (sq_tail q) = sq_head q \<longleftrightarrow> length (spsc_contents q) = usable_capacity q"
proof -
  let ?n = "length (sq_buffer q)"
  have rng: "unat (sq_head q) < ?n" "unat (sq_tail q) < ?n" using assms by (auto simp: spsc_inv_def)
  have "spsc_next q (sq_tail q) = sq_head q \<longleftrightarrow> (unat (sq_tail q) + 1) mod ?n = unat (sq_head q)"
    using unat_spsc_next [OF assms rng(2)] by (simp add: word_unat_eq_iff)
  moreover have "(unat (sq_tail q) + ?n - unat (sq_head q)) mod ?n \<le> ?n - 1"
    using rng by (auto simp: ring_size_if)
  ultimately show ?thesis
    using ring_full_iff [OF rng] by (auto simp: spsc_contents_def usable_capacity_def)
qed

lemma spsc_contents_bound: "spsc_inv q \<Longrightarrow> length (spsc_contents q) \<le> usable_capacity q"
  by (auto simp: spsc_inv_def spsc_contents_def usable_capacity_def ring_size_if)

text \<open>Storing at the tail when the ring is not full.\<close>

definition spsc_store :: "'a SPSCQueue \<Rightarrow> 'a \<Rightarrow> 'a SPSCQueue" where
  "spsc_store q item =
     q\<lparr>sq_buffer := (sq_buffer q)[unat (sq_tail q) := item], sq_tail := spsc_next q (sq_tail q)\<rparr>"

lemma spsc_store_facts:
  assumes "spsc_inv q" and "length (spsc_contents q) < usable_capacity q"
  shows "spsc_inv (spsc_store q x)" and "spsc_contents (spsc_store q x) = spsc_contents q @ [x]"
    and "usable_capacity (spsc_store q x) = usable_capacity q"
    and "sq_drop_count (spsc_store q x) = sq_drop_count q"
proof -
  let ?n = "length (sq_buffer q)"
  have rng: "unat (sq_head q) < ?n" "unat (sq_tail q) < ?n" using assms by (auto simp: spsc_inv_def)
  note nx = unat_spsc_next [OF assms(1) rng(2)]
  have ne: "(unat (sq_tail q) + 1) mod ?n \<noteq> unat (sq_head q)"
    using spsc_full_iff [OF assms(1)] assms(2) nx by (auto simp: word_unat_eq_iff)
  show "spsc_inv (spsc_store q x)" using assms(1) nx by (auto simp: spsc_inv_def spsc_store_def)
  show "spsc_contents (spsc_store q x) = spsc_contents q @ [x]"
    using ring_contents_push [OF rng ne] nx by (simp add: spsc_contents_def spsc_store_def)
qed (simp_all add: spsc_store_def usable_capacity_def)

lemma spsc_advance_facts:
  assumes "spsc_inv q" and "spsc_contents q \<noteq> []"
  shows "spsc_inv (q\<lparr>sq_head := spsc_next q (sq_head q)\<rparr>)"
    and "spsc_contents q =
      sq_buffer q ! unat (sq_head q) # spsc_contents (q\<lparr>sq_head := spsc_next q (sq_head q)\<rparr>)"
proof -
  let ?n = "length (sq_buffer q)"
  have rng: "unat (sq_head q) < ?n" "unat (sq_tail q) < ?n" using assms by (auto simp: spsc_inv_def)
  have ne: "unat (sq_head q) \<noteq> unat (sq_tail q)"
    using assms(2) ring_contents_Nil [OF rng] by (simp add: spsc_contents_def)
  note nx = unat_spsc_next [OF assms(1) rng(1)]
  show "spsc_inv (q\<lparr>sq_head := spsc_next q (sq_head q)\<rparr>)"
    using assms(1) nx by (auto simp: spsc_inv_def)
  show "spsc_contents q =
      sq_buffer q ! unat (sq_head q) # spsc_contents (q\<lparr>sq_head := spsc_next q (sq_head q)\<rparr>)"
    using ring_contents_pop [OF rng ne] nx by (simp add: spsc_contents_def)
qed

lemma drop_oldest_push_not_full:
  assumes "spsc_inv q" and "length (spsc_contents q) < usable_capacity q"
  shows "drop_oldest_push q x = Some (spsc_store q x, True)"
  using assms spsc_full_iff [OF assms(1)]
  by (simp add: drop_oldest_push_def drop_oldest_loop.simps [of q] Let_def spsc_store_def)

lemma drop_oldest_push_full:
  assumes "spsc_inv q" and "length (spsc_contents q) = usable_capacity q"
  shows "drop_oldest_push q x =
    Some (spsc_store (q\<lparr>sq_head := spsc_next q (sq_head q), sq_drop_count := sq_drop_count q + 1\<rparr>) x, False)"
proof -
  let ?q = "q\<lparr>sq_head := spsc_next q (sq_head q), sq_drop_count := sq_drop_count q + 1\<rparr>"
  have pos: "0 < usable_capacity q" using assms(1) by (simp add: spsc_inv_def usable_capacity_def)
  then have ne: "spsc_contents q \<noteq> []" using assms(2) by auto
  have c: "spsc_contents q = sq_buffer q ! unat (sq_head q) # spsc_contents ?q"
    using spsc_advance_facts(2) [OF assms(1) ne] by (simp add: spsc_contents_def)
  have inv: "spsc_inv ?q" using spsc_advance_facts(1) [OF assms(1) ne] by (simp add: spsc_inv_def)
  have "length (spsc_contents ?q) \<noteq> usable_capacity ?q"
    using c assms(2) by (simp add: usable_capacity_def)
  then have "spsc_next ?q (sq_tail ?q) \<noteq> sq_head ?q" using spsc_full_iff [OF inv] by blast
  then have "drop_oldest_loop ?q x True = Some (spsc_store ?q x, False)"
    by (simp add: drop_oldest_loop.simps [of ?q] Let_def spsc_store_def)
  moreover have "spsc_next q (sq_tail q) = sq_head q" using spsc_full_iff [OF assms(1)] assms(2) by simp
  ultimately show ?thesis by (simp add: drop_oldest_push_def drop_oldest_loop.simps [of q] Let_def)
qed

lemma drop_oldest_push_returns:
  assumes "spsc_inv q"
  obtains q' direct where "drop_oldest_push q x = Some (q', direct)"
  using drop_oldest_push_not_full [OF assms] drop_oldest_push_full [OF assms] spsc_contents_bound [OF assms]
  by (meson le_neq_implies_less)

lemma try_pop_Some_iff:
  "spsc_inv q \<Longrightarrow> try_pop q = Some (x, q') \<longleftrightarrow>
     spsc_contents q \<noteq> [] \<and> x = sq_buffer q ! unat (sq_head q) \<and>
     q' = q\<lparr>sq_head := spsc_next q (sq_head q)\<rparr>"
  by (auto simp: try_pop_def Let_def spsc_contents_def spsc_inv_def ring_contents_Nil word_unat_eq_iff)

lemma try_pop_None_iff: "spsc_inv q \<Longrightarrow> try_pop q = None \<longleftrightarrow> spsc_contents q = []"
  by (auto simp: try_pop_def Let_def spsc_contents_def spsc_inv_def ring_contents_Nil word_unat_eq_iff)

definition spsc_push :: "'a SPSCQueue \<Rightarrow> 'a \<Rightarrow> 'a SPSCQueue" where
  "spsc_push q x = (case drop_oldest_push q x of None \<Rightarrow> q | Some (q', _) \<Rightarrow> q')"

lemma spsc_push_cases:
  assumes "spsc_inv q"
  shows "spsc_inv (spsc_push q x) \<and> spsc_contents (spsc_push q x) =
      (if length (spsc_contents q) < usable_capacity q then spsc_contents q else tl (spsc_contents q)) @ [x] \<and>
      usable_capacity (spsc_push q x) = usable_capacity q \<and> sq_drop_count (spsc_push q x) =
      (if length (spsc_contents q) < usable_capacity q then sq_drop_count q else sq_drop_count q + 1)"
proof (cases "length (spsc_contents q) < usable_capacity q")
  case True
  then show ?thesis
    using spsc_store_facts [OF assms True] by (simp add: spsc_push_def drop_oldest_push_not_full assms)
next
  case False
  let ?q = "q\<lparr>sq_head := spsc_next q (sq_head q), sq_drop_count := sq_drop_count q + 1\<rparr>"
  have full: "length (spsc_contents q) = usable_capacity q"
    using False spsc_contents_bound [OF assms] by simp
  have ne: "spsc_contents q \<noteq> []" using full assms by (auto simp: spsc_inv_def usable_capacity_def)
  have inv: "spsc_inv ?q" and c: "spsc_contents q = sq_buffer q ! unat (sq_head q) # spsc_contents ?q"
    using spsc_advance_facts [OF assms ne] by (simp_all add: spsc_inv_def spsc_contents_def)
  have "length (spsc_contents ?q) < usable_capacity ?q"
    using c full by (simp add: usable_capacity_def)
  from spsc_store_facts [OF inv this]
  show ?thesis
    using full arg_cong [OF c, of tl]
    by (simp add: spsc_push_def drop_oldest_push_full assms) (simp add: usable_capacity_def)
qed

interpretation spsc: drop_oldest_queue
  spsc_push try_pop spsc_contents usable_capacity sq_drop_count spsc_inv
proof unfold_locales
  fix q q' :: "'a SPSCQueue" and x
  assume inv: "spsc_inv q"
  show "spsc_contents (spsc_push q x) =
      (if length (spsc_contents q) < usable_capacity q then spsc_contents q else tl (spsc_contents q)) @ [x]"
    and "sq_drop_count (spsc_push q x) =
      (if length (spsc_contents q) < usable_capacity q then sq_drop_count q else sq_drop_count q + 1)"
    and "spsc_inv (spsc_push q x)" and "usable_capacity (spsc_push q x) = usable_capacity q"
    using spsc_push_cases [OF inv] by blast+
  show "length (spsc_contents q) \<le> usable_capacity q" by (rule spsc_contents_bound [OF inv])
  show "0 < usable_capacity q" using inv by (simp add: spsc_inv_def usable_capacity_def)
  show "try_pop q = None \<longleftrightarrow> spsc_contents q = []" by (rule try_pop_None_iff [OF inv])
  assume "try_pop q = Some (x, q')"
  then show "spsc_inv q'" and "spsc_contents q = x # spsc_contents q'"
    and "usable_capacity q' = usable_capacity q \<and> sq_drop_count q' = sq_drop_count q"
    using spsc_advance_facts [OF inv] by (auto simp: try_pop_Some_iff [OF inv] usable_capacity_def)
qed

subsection \<open>SpscQueue meets the contract\<close>

lemma dq_push_simps:
  assumes "dq_inv q"
  shows "dq_inv (fst (dq_push q x))"
    and "dq_contents (fst (dq_push q x)) =
      (if length (dq_contents q) < dq_capacity q then dq_contents q else tl (dq_contents q)) @ [x]"
    and "dq_dropped_count (fst (dq_push q x)) =
      (if length (dq_contents q) < dq_capacity q then dq_dropped_count q else dq_dropped_count q + 1)"
proof -
  let ?n = "length (dq_buffer q)" and ?h = "dq_head q" and ?t = "dq_tail q"
  have cap: "dq_capacity q = ?n - 1" and rng: "?t < ?n" "?h < ?n" and "1 < ?n"
    using assms by (auto simp: dq_inv_def)
  have full: "length (dq_contents q) < dq_capacity q \<longleftrightarrow> (?h + 1) mod ?n \<noteq> ?t"
    using ring_full_iff [OF rng] cap by (simp add: dq_contents_def)
  show "dq_inv (fst (dq_push q x))"
    using assms by (auto simp: dq_inv_def dq_push_def Let_def)
  show "dq_dropped_count (fst (dq_push q x)) =
      (if length (dq_contents q) < dq_capacity q then dq_dropped_count q else dq_dropped_count q + 1)"
    unfolding full by (simp add: dq_push_def Let_def)
  show "dq_contents (fst (dq_push q x)) =
      (if length (dq_contents q) < dq_capacity q then dq_contents q else tl (dq_contents q)) @ [x]"
  proof (cases "(?h + 1) mod ?n = ?t")
    case False
    then show ?thesis
      unfolding full using ring_contents_push [OF rng False] by (simp add: dq_push_def dq_contents_def Let_def)
  next
    case True
    let ?t' = "(?t + 1) mod ?n"
    have rng': "?t' < ?n" by (rule mod_less_divisor) (use \<open>1 < ?n\<close> in linarith)
    have ne: "?t \<noteq> ?h" using True \<open>1 < ?n\<close> rng by (auto simp: mod_Suc_if [simplified] split: if_splits)
    have ne': "(?h + 1) mod ?n \<noteq> ?t'"
      using True \<open>1 < ?n\<close> rng by (auto simp: mod_Suc_if [simplified] split: if_splits)
    have "tl (dq_contents q) = ring_contents (dq_buffer q) ?t' ?h"
      using ring_contents_pop [OF rng ne] by (simp add: dq_contents_def)
    then show ?thesis
      unfolding full using True ring_contents_push [OF rng' rng(2) ne']
      by (simp add: dq_push_def dq_contents_def Let_def)
  qed
qed

interpretation dq: drop_oldest_queue
  "\<lambda>q x. fst (dq_push q x)" dq_pop dq_contents dq_capacity dq_dropped_count dq_inv
proof unfold_locales
  fix q q' :: "'a SpscQueue" and x
  assume inv: "dq_inv q"
  then have rng: "dq_tail q < length (dq_buffer q)" "dq_head q < length (dq_buffer q)"
    by (auto simp: dq_inv_def)
  show "dq_contents (fst (dq_push q x)) =
      (if length (dq_contents q) < dq_capacity q then dq_contents q else tl (dq_contents q)) @ [x]"
    and "dq_dropped_count (fst (dq_push q x)) =
      (if length (dq_contents q) < dq_capacity q then dq_dropped_count q else dq_dropped_count q + 1)"
    and "dq_inv (fst (dq_push q x))"
    using dq_push_simps [OF inv] by blast+
  show "dq_capacity (fst (dq_push q x)) = dq_capacity q" by (simp add: dq_push_def Let_def)
  show "length (dq_contents q) \<le> dq_capacity q"
    using inv rng by (auto simp: dq_inv_def dq_contents_def ring_size_if)
  show "0 < dq_capacity q" using inv by (simp add: dq_inv_def)
  show "dq_pop q = None \<longleftrightarrow> dq_contents q = []"
    using rng by (simp add: dq_pop_def dq_contents_def ring_contents_Nil)
  assume pop: "dq_pop q = Some (x, q')"
  then show "dq_inv q'" and "dq_capacity q' = dq_capacity q \<and> dq_dropped_count q' = dq_dropped_count q"
    using inv by (auto simp: dq_pop_def dq_inv_def split: if_splits)
  show "dq_contents q = x # dq_contents q'"
    using pop ring_contents_pop [OF rng] by (auto simp: dq_pop_def dq_contents_def split: if_splits)
qed

subsection \<open>Properties\<close>

lemma push_run_push_all: "spsc_inv q \<Longrightarrow> push_run q xs = Some (spsc.push_all q xs)"
proof (induction xs arbitrary: q)
  case (Cons x xs)
  obtain q' direct where d: "drop_oldest_push q x = Some (q', direct)"
    using drop_oldest_push_returns [OF Cons.prems] .
  then have "spsc_push q x = q'" by (simp add: spsc_push_def)
  then show ?case using d Cons.IH [OF spsc.invar_push [OF Cons.prems, of x]] by simp
qed simp

lemma spsc_new_inv: "length slots = 2 ^ k \<Longrightarrow> 0 < k \<Longrightarrow> k < 64 \<Longrightarrow> spsc_inv (spsc_new slots)"
  using one_less_power [of "2::nat" k] by (auto simp: spsc_inv_def spsc_new_def)

lemma spsc_contents_new [simp]: "spsc_contents (spsc_new slots) = []"
  by (simp add: spsc_contents_def ring_contents_def spsc_new_def)

text \<open>
  C19: A burst of \<^verbatim>\<open>drop_oldest_push\<close> calls always returns.  Afterwards the queue holds the newest
  elements of the old contents followed by the burst, oldest first and at most \<^verbatim>\<open>Cap - 1\<close> of them;
  \<^verbatim>\<open>size()\<close> is their number, the drop counter has grown by exactly the number of elements lost, and
  successive \<^verbatim>\<open>try_pop\<close> calls return them in that order.
\<close>

theorem spsc_burst_keeps_newest:
  assumes "spsc_inv q"
  shows "\<exists>q'. push_run q xs = Some q' \<and> spsc_inv q' \<and>
      (let everything = spsc_contents q @ xs; lost = length everything - usable_capacity q in
        spsc_contents q' = drop lost everything \<and>
        spsc_size q' = min (length everything) (usable_capacity q) \<and>
        sq_drop_count q' = sq_drop_count q + word_of_nat lost \<and>
        pop_run try_pop n q' = take n (drop lost everything))"
proof -
  let ?q = "spsc.push_all q xs" and ?all = "spsc_contents q @ xs"
  note facts = spsc.push_all_facts [OF assms, of xs]
  then have inv: "spsc_inv ?q" by blast
  have c: "spsc_contents ?q = drop (length ?all - usable_capacity q) ?all" using facts by blast
  have "spsc_size ?q = min (length ?all) (usable_capacity q)"
    unfolding spsc_size_contents [OF inv] c length_drop by arith
  moreover have "pop_run try_pop n ?q = take n (drop (length ?all - usable_capacity q) ?all)"
    unfolding spsc.pop_run_contents [OF inv] c ..
  ultimately show ?thesis
    using facts push_run_push_all [OF assms, of xs] unfolding Let_def by blast
qed

theorem spsc_burst_keeps_newest_witness:
  "\<exists>q'. push_run (spsc_new [0, 0, 0, 0 :: nat]) [1, 2, 3, 4, 5] = Some q' \<and> sq_drop_count q' = 2 \<and>
     pop_run try_pop 9 q' = [3, 4, 5]"
  using spsc_burst_keeps_newest [OF spsc_new_inv [of "[0, 0, 0, 0 :: nat]" 2], of "[1, 2, 3, 4, 5]" 9]
  by (simp add: usable_capacity_def spsc_new_def Let_def) (auto simp: spsc_new_def [symmetric])

text \<open>
  The delivery queue keeps its contract for every sequence of pushes: no call fails, the newest
  \<^verbatim>\<open>capacity\<close> elements stay, in order, the dropped counter counts the others, and \<^verbatim>\<open>size()\<close> and
  \<^verbatim>\<open>pop\<close> agree with the contents.
\<close>

lemma delivery_queue_keeps_newest:
  assumes "dq_inv q"
  shows "let q' = foldl (\<lambda>q x. fst (dq_push q x)) q xs; everything = dq_contents q @ xs;
             lost = length everything - dq_capacity q
      in dq_inv q' \<and> dq_contents q' = drop lost everything \<and> dq_size q' = length (dq_contents q') \<and>
         dq_dropped_count q' = dq_dropped_count q + word_of_nat lost \<and>
         pop_run dq_pop n q' = take n (drop lost everything)"
proof -
  let ?q = "dq.push_all q xs"
  note facts = dq.push_all_facts [OF assms, of xs]
  then have inv: "dq_inv ?q" by blast
  then have "dq_tail ?q < length (dq_buffer ?q)" "dq_head ?q < length (dq_buffer ?q)"
    by (simp_all add: dq_inv_def)
  then have "dq_size ?q = length (dq_contents ?q)"
    by (auto simp: dq_size_def dq_contents_def ring_size_if)
  then show ?thesis
    using facts dq.pop_run_contents [OF inv, of n] unfolding Let_def dq.push_all_foldl by simp
qed

text \<open>
  C39: The \<^verbatim>\<open>static_assert\<close> on \<^verbatim>\<open>Cap\<close> also admits \<^verbatim>\<open>Cap = 1\<close>, a ring without a usable slot: there
  \<^verbatim>\<open>try_push\<close> always fails and \<^verbatim>\<open>drop_oldest_push\<close> never returns.
\<close>

theorem spsc_capacity_one_never_returns:
  "try_push (spsc_new [slot]) x = (spsc_new [slot], False) \<and> drop_oldest_push (spsc_new [slot]) x = None"
proof -
  have "\<not> (length (sq_buffer q) = 1 \<and> sq_head q = 0 \<and> sq_tail q = 0)"
    if "drop_oldest_loop q y d = Some r" for q :: "'a SPSCQueue" and y d r
    by (rule drop_oldest_loop.raw_induct [OF _ that])
       (auto simp: Let_def spsc_next_def spsc_mask_def split: if_splits)
  from this [of "spsc_new [slot]" x False] have "drop_oldest_loop (spsc_new [slot]) x False = None"
    by (cases "drop_oldest_loop (spsc_new [slot]) x False") (auto simp: spsc_new_def)
  then show ?thesis
    by (simp add: drop_oldest_push_def try_push_def Let_def spsc_next_def spsc_mask_def spsc_new_def)
qed

end
