(* ===== verification/Spsc_Concurrency.thy ===== *)
theory Spsc_Concurrency
  imports Spsc_Queue
begin

text \<open>
  \<^verbatim>\<open>SPSCQueue\<close> between two threads.  The receive thread is the producer (\<^verbatim>\<open>try_push\<close> or
  \<^verbatim>\<open>drop_oldest_push\<close>), the processing thread the consumer (\<^verbatim>\<open>try_pop\<close>).  An action is one access
  to shared memory: a load or store of \<^verbatim>\<open>head_\<close> or \<^verbatim>\<open>tail_\<close>, a compare-and-swap of \<^verbatim>\<open>head_\<close>, a
  read or write of a slot; actions interleave arbitrarily.  (\<^verbatim>\<open>tail_\<close> is written by the producer
  only, so its own load of \<^verbatim>\<open>tail_\<close> is merged with its load of \<^verbatim>\<open>head_\<close>.)  Atomics are
  sequentially consistent here: the release and acquire orders of the code are at most weaker.

  The flag \<open>dropping\<close> selects what the producer does on a full ring: give up (\<^verbatim>\<open>try_push\<close>) or advance
  \<^verbatim>\<open>head_\<close> itself (\<^verbatim>\<open>drop_oldest_push\<close>).  With \<open>dropping = False\<close> every interleaving is first-in
  first-out without loss.  With \<open>dropping = True\<close> it is not: \<^verbatim>\<open>try_pop\<close> publishes \<^verbatim>\<open>head_\<close> with a plain
  store, which can move \<^verbatim>\<open>head_\<close> back behind the producer's compare-and-swap.
\<close>

datatype 'a producer =
    PIdle
  | PTry 'a
  | PLoaded 'a u64 u64 u64   \<comment> \<open>item, tail, next, head as loaded\<close>
  | PStored 'a u64           \<comment> \<open>item and the next tail still to publish\<close>

datatype 'a consumer =
    CIdle
  | CHead u64                \<comment> \<open>head loaded\<close>
  | CLoaded u64              \<comment> \<open>not empty\<close>
  | CRead u64 'a             \<comment> \<open>item moved out, head still to publish\<close>

text \<open>\<open>pushed\<close> and \<open>popped\<close> record the items of completed calls.\<close>

record 'a race =
  ring :: "'a SPSCQueue"
  producer_pc :: "'a producer"
  consumer_pc :: "'a consumer"
  pushed :: "'a list"
  popped :: "'a list"

datatype 'a action =
    Call 'a | PLoad | PWrite | PPublish | PGiveUp | PCasOk | PCasFail
  | CLoadHead | CLoadTail | CReadSlot | CStoreHead

definition producer_act :: "bool \<Rightarrow> 'a action \<Rightarrow> 'a race \<Rightarrow> 'a race option" where
  "producer_act dropping a s =
     (let q = ring s in
      case (a, producer_pc s) of
        (Call x, PIdle) \<Rightarrow> Some (s\<lparr>producer_pc := PTry x\<rparr>)
      | (PLoad, PTry x) \<Rightarrow>
          Some (s\<lparr>producer_pc := PLoaded x (sq_tail q) (spsc_next q (sq_tail q)) (sq_head q)\<rparr>)
      | (PWrite, PLoaded x t n h) \<Rightarrow>
          if n \<noteq> h
          then Some (s\<lparr>ring := q\<lparr>sq_buffer := (sq_buffer q)[unat t := x]\<rparr>, producer_pc := PStored x n\<rparr>)
          else None
      | (PPublish, PStored x n) \<Rightarrow>
          Some (s\<lparr>ring := q\<lparr>sq_tail := n\<rparr>, producer_pc := PIdle, pushed := pushed s @ [x]\<rparr>)
      | (PGiveUp, PLoaded x t n h) \<Rightarrow>
          if n = h \<and> \<not> dropping then Some (s\<lparr>producer_pc := PIdle\<rparr>) else None
      | (PCasOk, PLoaded x t n h) \<Rightarrow>
          if n = h \<and> dropping \<and> sq_head q = h
          then Some (s\<lparr>ring := q\<lparr>sq_head := spsc_next q h, sq_drop_count := sq_drop_count q + 1\<rparr>,
                       producer_pc := PTry x\<rparr>)
          else None
      | (PCasFail, PLoaded x t n h) \<Rightarrow>
          if n = h \<and> dropping then Some (s\<lparr>producer_pc := PTry x\<rparr>) else None
      | _ \<Rightarrow> None)"

definition consumer_act :: "'a action \<Rightarrow> 'a race \<Rightarrow> 'a race option" where
  "consumer_act a s =
     (let q = ring s in
      case (a, consumer_pc s) of
        (CLoadHead, CIdle) \<Rightarrow> Some (s\<lparr>consumer_pc := CHead (sq_head q)\<rparr>)
      | (CLoadTail, CHead h) \<Rightarrow>
          Some (s\<lparr>consumer_pc := (if h = sq_tail q then CIdle else CLoaded h)\<rparr>)
      | (CReadSlot, CLoaded h) \<Rightarrow> Some (s\<lparr>consumer_pc := CRead h (sq_buffer q ! unat h)\<rparr>)
      | (CStoreHead, CRead h x) \<Rightarrow>
          Some (s\<lparr>ring := q\<lparr>sq_head := spsc_next q h\<rparr>, consumer_pc := CIdle, popped := popped s @ [x]\<rparr>)
      | _ \<Rightarrow> None)"

inductive race_step :: "bool \<Rightarrow> 'a race \<Rightarrow> 'a race \<Rightarrow> bool" for dropping where
  producer_step: "producer_act dropping a s = Some s' \<Longrightarrow> race_step dropping s s'"
| consumer_step: "consumer_act a s = Some s' \<Longrightarrow> race_step dropping s s'"

definition race_start :: "'a list \<Rightarrow> 'a race" where
  "race_start slots =
     \<lparr>ring = spsc_new slots, producer_pc = PIdle, consumer_pc = CIdle, pushed = [], popped = []\<rparr>"

inductive race_reachable :: "bool \<Rightarrow> 'a list \<Rightarrow> 'a race \<Rightarrow> bool" for dropping slots where
  race_start: "race_reachable dropping slots (race_start slots)"
| race_next: "race_reachable dropping slots s \<Longrightarrow> race_step dropping s s' \<Longrightarrow> race_reachable dropping slots s'"

subsection \<open>Without drop-oldest every interleaving is FIFO\<close>

definition producer_inv :: "'a race \<Rightarrow> bool" where
  "producer_inv s =
     (let q = ring s; room = length (spsc_contents q) < usable_capacity q in
      case producer_pc s of
        PLoaded x t n h \<Rightarrow> t = sq_tail q \<and> n = spsc_next q (sq_tail q) \<and> (n \<noteq> h \<longrightarrow> room)
      | PStored x n \<Rightarrow> n = spsc_next q (sq_tail q) \<and> room \<and> sq_buffer q ! unat (sq_tail q) = x
      | _ \<Rightarrow> True)"

definition consumer_inv :: "'a race \<Rightarrow> bool" where
  "consumer_inv s =
     (let q = ring s in
      case consumer_pc s of
        CIdle \<Rightarrow> True
      | CHead h \<Rightarrow> h = sq_head q
      | CLoaded h \<Rightarrow> h = sq_head q \<and> spsc_contents q \<noteq> []
      | CRead h x \<Rightarrow> h = sq_head q \<and> spsc_contents q \<noteq> [] \<and> x = sq_buffer q ! unat h)"

definition race_inv :: "'a race \<Rightarrow> bool" where
  "race_inv s \<longleftrightarrow>
     spsc_inv (ring s) \<and> pushed s = popped s @ spsc_contents (ring s) \<and> producer_inv s \<and> consumer_inv s"

lemma spsc_contents_write_tail:
  assumes "spsc_inv q"
  shows "spsc_contents (q\<lparr>sq_buffer := (sq_buffer q)[unat (sq_tail q) := x]\<rparr>) = spsc_contents q"
proof -
  have rng: "unat (sq_head q) < length (sq_buffer q)" "unat (sq_tail q) < length (sq_buffer q)"
    using assms by (auto simp: spsc_inv_def)
  then show ?thesis
    using ring_index_neq_tail [OF rng] by (fastforce simp: spsc_contents_def ring_contents_def)
qed

lemma spsc_contents_head: "spsc_inv q \<Longrightarrow> spsc_contents q \<noteq> [] \<Longrightarrow> sq_head q \<noteq> sq_tail q"
  by (auto simp: spsc_contents_def ring_contents_def)

lemma producer_act_inv:
  assumes "race_inv s" and "producer_act False a s = Some s'"
  shows "race_inv s'"
proof -
  let ?q = "ring s"
  have inv: "spsc_inv ?q" using assms(1) by (simp add: race_inv_def)
  show ?thesis
  proof (cases "producer_pc s")
    case PIdle
    then show ?thesis
      using assms by (cases a) (auto simp: producer_act_def race_inv_def producer_inv_def consumer_inv_def Let_def
          split: consumer.splits)
  next
    case (PTry x)
    then show ?thesis
      using assms spsc_full_iff [OF inv] spsc_contents_bound [OF inv]
      by (cases a) (auto simp: producer_act_def race_inv_def producer_inv_def consumer_inv_def Let_def
          split: consumer.splits)
  next
    case (PLoaded x t n h)
    let ?q' = "?q\<lparr>sq_buffer := (sq_buffer ?q)[unat (sq_tail ?q) := x]\<rparr>"
    have "spsc_inv ?q'" and "usable_capacity ?q' = usable_capacity ?q" and "spsc_next ?q' = spsc_next ?q"
      and "spsc_contents ?q' = spsc_contents ?q"
      using inv spsc_contents_write_tail [OF inv]
      by (auto simp: spsc_inv_def usable_capacity_def spsc_next_def spsc_mask_def fun_eq_iff)
    moreover have "unat (sq_tail ?q) < length (sq_buffer ?q)" using inv by (simp add: spsc_inv_def)
    ultimately show ?thesis
      using assms PLoaded spsc_contents_head [OF inv]
      by (cases a) (auto simp: producer_act_def race_inv_def producer_inv_def consumer_inv_def Let_def
          nth_list_update word_unat_eq_iff split: if_splits consumer.splits)
  next
    case (PStored x n)
    have room: "length (spsc_contents ?q) < usable_capacity ?q" and n: "n = spsc_next ?q (sq_tail ?q)"
      and slot: "sq_buffer ?q ! unat (sq_tail ?q) = x"
      using assms(1) PStored by (auto simp: race_inv_def producer_inv_def Let_def)
    have "spsc_store ?q x = ?q\<lparr>sq_tail := n\<rparr>" 
      using slot [symmetric] n by (simp add: spsc_store_def)
    with spsc_store_facts [OF inv room, of x]
    show ?thesis
      using assms PStored
      by (cases a) (auto simp: producer_act_def race_inv_def producer_inv_def consumer_inv_def Let_def
          split: consumer.splits)
  qed
qed

lemma consumer_act_inv:
  assumes "race_inv s" and "consumer_act a s = Some s'"
  shows "race_inv s'"
proof -
  let ?q = "ring s"
  have inv: "spsc_inv ?q" using assms(1) by (simp add: race_inv_def)
  have Nil: "spsc_contents ?q = [] \<longleftrightarrow> sq_head ?q = sq_tail ?q"
    using inv by (simp add: spsc_contents_def spsc_inv_def ring_contents_Nil word_unat_eq_iff)
  show ?thesis
  proof (cases "consumer_pc s")
    case (CRead h x)
    then have ne: "spsc_contents ?q \<noteq> []" and h: "h = sq_head ?q" and x: "x = sq_buffer ?q ! unat h"
      using assms(1) by (auto simp: race_inv_def consumer_inv_def Let_def)
    let ?q' = "?q\<lparr>sq_head := spsc_next ?q (sq_head ?q)\<rparr>"
    from spsc_advance_facts [OF inv ne] x h
    have "spsc_inv ?q'" and "spsc_contents ?q = x # spsc_contents ?q'" by simp_all
    moreover have "usable_capacity ?q' = usable_capacity ?q" and "spsc_next ?q' = spsc_next ?q"
      by (auto simp: usable_capacity_def spsc_next_def spsc_mask_def fun_eq_iff)
    ultimately show ?thesis
      using assms CRead h
      by (cases a) (auto simp: consumer_act_def race_inv_def producer_inv_def consumer_inv_def Let_def
          split: producer.splits)
  qed (use assms Nil in \<open>cases a; auto simp: consumer_act_def race_inv_def producer_inv_def
        consumer_inv_def Let_def split: producer.splits if_splits\<close>)+
qed

lemma race_start_inv:
  "length slots = 2 ^ k \<Longrightarrow> 0 < k \<Longrightarrow> k < 64 \<Longrightarrow> race_inv (race_start slots)"
  using one_less_power [of "2::nat" k]
  by (auto simp: race_inv_def race_start_def spsc_new_def spsc_inv_def spsc_contents_def ring_contents_def
      producer_inv_def consumer_inv_def Let_def)

lemma race_reachable_inv:
  assumes "race_reachable False slots s" and "length slots = 2 ^ k" "0 < k" "k < 64"
  shows "race_inv s"
  using assms(1)
proof induction
  case race_start
  show ?case by (rule race_start_inv [OF assms(2-4)])
next
  case (race_next s s')
  from race_next(2) race_next.IH show ?case
    by (cases rule: race_step.cases) (auto intro: producer_act_inv consumer_act_inv)
qed

subsection \<open>Executing a schedule\<close>

fun race_run :: "bool \<Rightarrow> 'a action list \<Rightarrow> 'a race \<Rightarrow> 'a race option" where
  "race_run dropping [] s = Some s"
| "race_run dropping (a # as) s =
     (case producer_act dropping a s of
        Some s' \<Rightarrow> race_run dropping as s'
      | None \<Rightarrow> (case consumer_act a s of Some s' \<Rightarrow> race_run dropping as s' | None \<Rightarrow> None))"

lemma race_run_reachable:
  "race_reachable dropping slots s \<Longrightarrow> race_run dropping as s = Some s' \<Longrightarrow> race_reachable dropping slots s'"
proof (induction as arbitrary: s)
  case (Cons a as)
  then show ?case
    using race_next [OF Cons.prems(1)] Cons.IH
    by (auto split: option.splits intro: race_step.intros)
qed simp

text \<open>Two schedules of the producer: storing into a ring with room, and evicting first.\<close>

definition push_direct :: "'a \<Rightarrow> 'a action list" where
  "push_direct x = [Call x, PLoad, PWrite, PPublish]"

definition push_evicting :: "'a \<Rightarrow> 'a action list" where
  "push_evicting x = [Call x, PLoad, PCasOk, PLoad, PWrite, PPublish]"

text \<open>
  The ring has four slots.  The consumer loads \<^verbatim>\<open>head_\<close> and is then preempted while the producer
  evicts twice; its late store of \<^verbatim>\<open>head_\<close> makes the ring look empty.
\<close>

definition lossy_schedule :: "nat action list" where
  "lossy_schedule =
     push_direct 0 @ push_direct 1 @ push_direct 2 @ [CLoadHead, CLoadTail] @
     push_evicting 3 @ push_evicting 4 @ [CReadSlot, CStoreHead]"

lemma lossy_schedule_result:
  "race_run True lossy_schedule (race_start [9, 9, 9, 9]) =
     Some \<lparr>ring = \<lparr>sq_head = 1, sq_tail = 1, sq_drop_count = 2, sq_buffer = [4, 1, 2, 3]\<rparr>,
           producer_pc = PIdle, consumer_pc = CIdle, pushed = [0, 1, 2, 3, 4], popped = [4]\<rparr>"
  by (simp add: lossy_schedule_def push_direct_def push_evicting_def race_start_def spsc_new_def
      producer_act_def consumer_act_def spsc_next_def spsc_mask_def)

subsection \<open>Properties\<close>

text \<open>
  C14: With a producer that gives up on a full ring (\<^verbatim>\<open>try_push\<close>), every interleaving of the two
  threads is linear first-in first-out: at each moment the items of completed pushes are exactly the
  items popped so far followed by the ring's contents, and the index invariant holds.
\<close>

theorem spsc_interleavings_fifo:
  assumes "race_reachable False slots s" and "length slots = 2 ^ k" "0 < k" "k < 64"
  shows "pushed s = popped s @ spsc_contents (ring s) \<and> spsc_inv (ring s)"
  using race_reachable_inv [OF assms] by (simp add: race_inv_def)

theorem spsc_interleavings_fifo_witness:
  "\<exists>s. race_reachable False [9, 9, 9, 9 :: nat] s \<and> popped s = [0] \<and> spsc_contents (ring s) = [1]"
proof -
  let ?as = "push_direct 0 @ [CLoadHead, CLoadTail, Call 1, PLoad, CReadSlot, PWrite, CStoreHead, PPublish]"
  let ?s = "\<lparr>ring = \<lparr>sq_head = 1, sq_tail = 2, sq_drop_count = 0, sq_buffer = [0, 1, 9, 9 :: nat]\<rparr>,
      producer_pc = PIdle, consumer_pc = CIdle, pushed = [0, 1], popped = [0]\<rparr>"
  have "race_run False ?as (race_start [9, 9, 9, 9]) = Some ?s"
    by (simp add: push_direct_def race_start_def spsc_new_def producer_act_def consumer_act_def
        spsc_next_def spsc_mask_def)
  then have r: "race_reachable False [9, 9, 9, 9] ?s"
    by (rule race_run_reachable [OF race_reachable.race_start])
  then show ?thesis
    using spsc_interleavings_fifo [of "[9, 9, 9, 9]" ?s 2] by (intro exI [of _ ?s]) simp
qed

text \<open>
  With \<^verbatim>\<open>drop_oldest_push\<close> the two threads race on \<^verbatim>\<open>head_\<close>: an interleaving exists after which
  both threads are idle, five items were pushed, one was popped, two were counted as dropped, and
  the ring reports that it is empty, so two items vanished uncounted.
\<close>

lemma spsc_drop_oldest_race_loses_items:
  "\<exists>s. race_reachable True [9, 9, 9, 9 :: nat] s \<and> producer_pc s = PIdle \<and> consumer_pc s = CIdle \<and>
     spsc_empty (ring s) \<and> pushed s = [0, 1, 2, 3, 4] \<and> popped s = [4] \<and> sq_drop_count (ring s) = 2"
  using race_run_reachable [OF race_reachable.race_start lossy_schedule_result]
  by (intro exI conjI) (assumption, simp_all add: spsc_empty_def)

end
