(* ===== verification/Crc32c.thy ===== *)
theory Crc32c
  imports Protocol_Types
begin

text \<open>
  CRC-32C (\<^verbatim>\<open>src/m01_receiver/protocol/crc32c.cpp\<close>): the table, the table-driven loop, the loop
  over the ARM intrinsics and the entry point.  The reference is the bitwise division step.  The
  lemmas show that the table-driven loop and, for intrinsics that do what the ACLE documents, the
  eight-byte loop both compute the bitwise reference, and that the checksum changes whenever one
  byte of the message changes.
\<close>

definition kInitXor :: u32 where [const_defs]: "kInitXor = 0xFFFFFFFF"
definition kPolyReflected :: u32 where [const_defs]: "kPolyReflected = 0x82F63B78"

text \<open>One iteration of the inner loop of \<^verbatim>\<open>make_table\<close>.\<close>

definition crc_bit_step :: "u32 \<Rightarrow> u32" where
  "crc_bit_step crc = (let mask = - (crc AND 1) in drop_bit 1 crc XOR (kPolyReflected AND mask))"

definition make_table :: "u32 list" where
  "make_table = map (\<lambda>i. (crc_bit_step ^^ 8) (word_of_nat i)) [0..<256]"

definition crc_table_step :: "u32 \<Rightarrow> u8 \<Rightarrow> u32" where
  "crc_table_step crc b =
     (let idx = (ucast ((crc XOR ucast b) AND 0xFF) :: u8)
      in make_table ! unat idx XOR drop_bit 8 crc)"

definition crc32c_sw :: "u32 \<Rightarrow> bytes \<Rightarrow> u32" where
  "crc32c_sw crc data = foldl crc_table_step crc data"

text \<open>
  The ARM path takes the intrinsics \<^verbatim>\<open>__crc32cb\<close> and \<^verbatim>\<open>__crc32cd\<close> as parameters.
\<close>

function crc32c_arm :: "(u32 \<Rightarrow> u8 \<Rightarrow> u32) \<Rightarrow> (u32 \<Rightarrow> u64 \<Rightarrow> u32) \<Rightarrow> u32 \<Rightarrow> bytes \<Rightarrow> u32" where
  "crc32c_arm cb cd crc data =
     (if 8 \<le> length data then crc32c_arm cb cd (cd crc (word_le (take 8 data))) (drop 8 data)
      else foldl cb crc data)"
  by pat_completeness auto
termination
  by (relation "measure (\<lambda>(cb, cd, crc, data). length data)") auto

declare crc32c_arm.simps [simp del]

definition crc32c :: "bytes option \<Rightarrow> nat \<Rightarrow> u32" where
  "crc32c data len =
     (case data of
        None \<Rightarrow> if len \<noteq> 0 then 0 else crc32c_sw kInitXor [] XOR kInitXor
      | Some bs \<Rightarrow> crc32c_sw kInitXor (take len bs) XOR kInitXor)"

subsection \<open>The bitwise reference\<close>

definition crc_byte_ref :: "u32 \<Rightarrow> u8 \<Rightarrow> u32" where
  "crc_byte_ref crc b = (crc_bit_step ^^ 8) (crc XOR ucast b)"

subsection \<open>The division step is linear and injective\<close>

lemma crc_bit_step_if: "crc_bit_step x = drop_bit 1 x XOR (if bit x 0 then kPolyReflected else 0)"
proof (cases "bit x 0")
  case True
  then have "x AND 1 = 1" by (simp add: and_one_eq bit_0 mod_2_eq_odd)
  with True show ?thesis by (simp add: crc_bit_step_def)
next
  case False
  then have "x AND 1 = 0" by (simp add: and_one_eq bit_0 mod_2_eq_odd)
  with False show ?thesis by (simp add: crc_bit_step_def)
qed

lemma crc_bit_step_xor: "crc_bit_step (x XOR y) = crc_bit_step x XOR crc_bit_step y"
  by (rule bit_word_eqI) (auto simp: crc_bit_step_if bit_simps)

lemma crc_bit_steps_xor:
  "(crc_bit_step ^^ n) (x XOR y) = (crc_bit_step ^^ n) x XOR (crc_bit_step ^^ n) y"
  by (induction n) (simp_all add: crc_bit_step_xor)

lemma crc_bit_steps_shift:
  "\<forall>k < n. \<not> bit x k \<Longrightarrow> (crc_bit_step ^^ n) x = drop_bit n x"
proof (induction n)
  case (Suc n)
  then have "(crc_bit_step ^^ n) x = drop_bit n x" by simp
  moreover have "\<not> bit (drop_bit n x) 0" using Suc.prems by (simp add: bit_drop_bit_eq)
  ultimately show ?case
    by (simp add: crc_bit_step_if [of "drop_bit n x"] drop_bit_drop_bit)
qed simp

lemma crc_bit_step_top: "bit (crc_bit_step x) 31 = bit x 0"
  by (auto simp: crc_bit_step_if bit_simps kPolyReflected_def dest: bit_imp_le_length)

lemma inj_crc_bit_step: "inj crc_bit_step"
proof (rule injI)
  fix x y assume eq: "crc_bit_step x = crc_bit_step y"
  then have low: "bit x 0 = bit y 0" using crc_bit_step_top by metis
  with eq have high: "drop_bit 1 x = drop_bit 1 y" by (auto simp: crc_bit_step_if split: if_splits)
  show "x = y"
  proof (rule bit_word_eqI)
    fix n assume "n < LENGTH(32)"
    show "bit x n = bit y n"
      using low arg_cong [OF high, of "\<lambda>w. bit w (n - 1)"]
      by (cases n) (simp_all add: bit_drop_bit_eq)
  qed
qed

lemma inj_crc_bit_steps: "inj (crc_bit_step ^^ n)"
proof (induction n)
  case (Suc n)
  show ?case
    unfolding funpow.simps by (rule inj_compose [OF inj_crc_bit_step Suc.IH])
qed simp

lemma crc_table_step_ref: "crc_table_step crc b = crc_byte_ref crc b"
proof -
  define x where "x = crc XOR ucast b"
  define lo hi where "lo = x AND mask 8" and "hi = x AND NOT (mask 8)"
  have x: "x = lo XOR hi"
    by (rule bit_word_eqI) (auto simp: lo_def hi_def bit_simps)
  have idx: "ucast (x AND 0xFF) = (ucast x :: u8)"
    by (rule bit_word_eqI) (auto simp: bit_simps mask_eq_exp_minus_1 [of 8, where 'a = u32, simplified, symmetric])
  have lo_idx: "ucast (ucast x :: u8) = lo"
    by (rule bit_word_eqI) (auto simp: lo_def bit_simps)
  have "unat (ucast x :: u8) < 256"
    using unsigned_less [of "ucast x :: u8", where ?'a = nat] by simp
  then have "make_table ! unat (ucast x :: u8) = (crc_bit_step ^^ 8) lo"
    by (simp add: make_table_def word_of_nat_unat_ucast lo_idx)
  moreover have "(crc_bit_step ^^ 8) hi = drop_bit 8 hi"
    by (rule crc_bit_steps_shift) (simp add: hi_def bit_simps)
  moreover have "drop_bit 8 hi = drop_bit 8 crc"
    by (rule bit_word_eqI) (auto simp: hi_def x_def bit_simps dest: bit_imp_le_length)
  moreover have "crc_byte_ref crc b = (crc_bit_step ^^ 8) lo XOR (crc_bit_step ^^ 8) hi"
    unfolding crc_byte_ref_def x_def [symmetric] by (subst x) (rule crc_bit_steps_xor)
  ultimately show ?thesis
    by (simp add: crc_table_step_def x_def [symmetric] idx)
qed

lemma crc32c_sw_ref: "crc32c_sw crc data = foldl crc_byte_ref crc data"
  by (simp add: crc32c_sw_def crc_table_step_ref [abs_def])

lemma crc_byte_ref_inject_crc: "crc_byte_ref c b = crc_byte_ref c' b \<longleftrightarrow> c = c'"
  unfolding crc_byte_ref_def inj_eq [OF inj_crc_bit_steps] by simp

lemma crc_byte_ref_inject_byte: "crc_byte_ref c b = crc_byte_ref c b' \<longleftrightarrow> b = b'"
proof
  assume "crc_byte_ref c b = crc_byte_ref c b'"
  then have eq: "(ucast b :: u32) = ucast b'"
    unfolding crc_byte_ref_def inj_eq [OF inj_crc_bit_steps] by simp
  show "b = b'"
  proof (rule bit_word_eqI)
    fix n assume "n < LENGTH(8)"
    then show "bit b n = bit b' n"
      using arg_cong [OF eq, of "\<lambda>w. bit w n"] by (simp add: bit_simps)
  qed
qed simp

lemma foldl_crc_inject: "foldl crc_byte_ref c bs = foldl crc_byte_ref c' bs \<longleftrightarrow> c = c'"
  by (induction bs arbitrary: c c') (simp_all add: crc_byte_ref_inject_crc)

lemma foldl_crc_update:
  "i < length bs \<Longrightarrow> b \<noteq> bs ! i \<Longrightarrow> foldl crc_byte_ref c (bs[i := b]) \<noteq> foldl crc_byte_ref c bs"
proof (induction bs arbitrary: c i)
  case (Cons x bs)
  then show ?case
    by (cases i) (simp_all add: foldl_crc_inject crc_byte_ref_inject_byte)
qed simp

subsection \<open>The intrinsics\<close>

text \<open>
  What the ACLE documents of the two intrinsics: one byte, and eight bytes in memory order of
  the little-endian argument.
\<close>

locale crc_intrinsics =
  fixes cb :: "u32 \<Rightarrow> u8 \<Rightarrow> u32" and cd :: "u32 \<Rightarrow> u64 \<Rightarrow> u32"
  assumes cb_byte: "cb crc b = crc_byte_ref crc b"
    and cd_bytes: "cd crc v = foldl crc_byte_ref crc (bytes_le 8 v)"
begin

lemma arm_is_reference: "crc32c_arm cb cd crc data = foldl crc_byte_ref crc data"
proof (induction "length data" arbitrary: crc data rule: less_induct)
  case less
  show ?case
  proof (cases "8 \<le> length data")
    case True
    then have "bytes_le 8 (word_le (take 8 data) :: u64) = take 8 data"
      using bytes_le_word_le [where bs = "take 8 data" and 'a = 64] by simp
    moreover have "crc32c_arm cb cd (cd crc (word_le (take 8 data))) (drop 8 data) =
        foldl crc_byte_ref (cd crc (word_le (take 8 data))) (drop 8 data)"
      using True by (intro less) simp
    ultimately show ?thesis
      using True by (simp add: crc32c_arm.simps [of cb cd crc data] cd_bytes
          foldl_append [symmetric] del: foldl_append)
  next
    case False
    moreover have "cb = crc_byte_ref" by (intro ext) (rule cb_byte)
    ultimately show ?thesis by (subst crc32c_arm.simps) simp
  qed
qed

lemma arm_is_software: "crc32c_arm cb cd crc data = crc32c_sw crc data"
  by (simp add: arm_is_reference crc32c_sw_ref)

end

interpretation ref_intrinsics: crc_intrinsics
  crc_byte_ref "\<lambda>crc v. foldl crc_byte_ref crc (bytes_le 8 v)"
  by unfold_locales simp_all

subsection \<open>Properties\<close>

text \<open>
  C29: The table-driven \<^verbatim>\<open>crc32c\<close> equals the bitwise definition of CRC-32C (reflected polynomial
  0x82F63B78, initial value and final xor 0xFFFFFFFF) on every buffer, and so does the
  eight-bytes-at-a-time loop over the ARM intrinsics, when these compute the checksum of one byte
  and of the eight bytes of their argument in memory order.
\<close>

theorem crc32c_implementations_agree:
  assumes "\<And>crc b. cb crc b = crc_byte_ref crc b"
    and "\<And>crc v. cd crc v = foldl crc_byte_ref crc (bytes_le 8 v)"
  shows "crc32c (Some bs) n = foldl crc_byte_ref kInitXor (take n bs) XOR kInitXor \<and>
      crc32c_arm cb cd kInitXor (take n bs) XOR kInitXor = crc32c (Some bs) n"
proof -
  have "crc_intrinsics cb cd" using assms by unfold_locales
  then show ?thesis by (simp add: crc32c_def crc32c_sw_ref crc_intrinsics.arm_is_reference)
qed

text \<open>The check value of CRC-32C: the checksum of the nine digits \<^verbatim>\<open>123456789\<close>.\<close>

lemma funpow_8: "(f ^^ 8) x = f (f (f (f (f (f (f (f x)))))))"
  by (simp add: numeral_eq_Suc)

lemma crc_check_value_steps:
  "crc_byte_ref 0xFFFFFFFF 0x31 = 0x6F0A661C"
  "crc_byte_ref 0x6F0A661C 0x32 = 0x8CAA3B9F"
  "crc_byte_ref 0x8CAA3B9F 0x33 = 0xEF84D04D"
  "crc_byte_ref 0xEF84D04D 0x34 = 0x9C50B11"
  "crc_byte_ref 0x9C50B11 0x35 = 0xE72EDCCA"
  "crc_byte_ref 0xE72EDCCA 0x36 = 0xBECA8E79"
  "crc_byte_ref 0xBECA8E79 0x37 = 0xEDBD6815"
  "crc_byte_ref 0xEDBD6815 0x38 = 0x9F787F65"
  "crc_byte_ref 0x9F787F65 0x39 = 0x1CF96D7C"
  by (simp_all add: crc_byte_ref_def funpow_8 crc_bit_step_def kPolyReflected_def)

theorem crc32c_implementations_agree_witness:
  "crc32c (Some [0x31, 0x32, 0x33, 0x34, 0x35, 0x36, 0x37, 0x38, 0x39]) 9 = 0xE3069283"
  using crc32c_implementations_agree
    [of crc_byte_ref "\<lambda>crc v. foldl crc_byte_ref crc (bytes_le 8 v)"
      "[0x31, 0x32, 0x33, 0x34, 0x35, 0x36, 0x37, 0x38, 0x39]" 9]
  by (simp add: kInitXor_def crc_check_value_steps)

text \<open>
  \<^verbatim>\<open>crc32c\<close> detects every corruption that is confined to one byte: changing any byte of the
  checked range changes the checksum.
\<close>

lemma crc32c_detects_byte_corruption:
  assumes "i < n" and "n \<le> length bs" and "b \<noteq> bs ! i"
  shows "crc32c (Some (bs[i := b])) n \<noteq> crc32c (Some bs) n"
  using foldl_crc_update [of i "take n bs" b kInitXor] assms
  by (simp add: crc32c_def crc32c_sw_ref take_update_swap)

end
