(* ===== verification/Packet_Validation.thy ===== *)
theory Packet_Validation
  imports Crc32c
begin

text \<open>
  \<^verbatim>\<open>PacketParser\<close> (\<^verbatim>\<open>src/m01_receiver/protocol/packet_parser.cpp\<close>) and \<^verbatim>\<open>Validator\<close>
  (\<^verbatim>\<open>src/m01_receiver/protocol/validator.cpp\<close>).  The lemmas characterise the accepted datagrams
  exactly, give the error of every rejected one in the order of the checks, and show that a
  heartbeat with one corrupted byte is refused.
\<close>

subsection \<open>PacketParser\<close>

definition basic_validation :: "CommonHeader \<Rightarrow> nat \<Rightarrow> bool" where
  "basic_validation h total_length =
     (if magic h \<noteq> PROTOCOL_MAGIC then False
      else if drop_bit 4 (protocol_version h) \<noteq> PROTOCOL_VERSION_MAJOR then False
      else if unat (payload_len h) > MAX_PAYLOAD_SIZE then False
      else if COMMON_HEADER_SIZE + unat (payload_len h) \<noteq> total_length then False
      else True)"

definition parse :: "bytes option \<Rightarrow> nat \<Rightarrow> ParsedPacket option" where
  "parse buffer len =
     (case buffer of
        None \<Rightarrow> None
      | Some bs \<Rightarrow>
          if len < COMMON_HEADER_SIZE then None
          else let h = decode_common bs in
            if \<not> basic_validation h len then None
            else Some \<lparr>header = h, payload = Some (drop COMMON_HEADER_SIZE bs), total_size = len\<rparr>)"

definition quick_check_magic :: "bytes option \<Rightarrow> nat \<Rightarrow> bool" where
  "quick_check_magic buffer len =
     (case buffer of
        None \<Rightarrow> False
      | Some bs \<Rightarrow> if len < 4 then False else field_le 0 4 bs = PROTOCOL_MAGIC)"

subsection \<open>Validator\<close>

datatype Scope = DATA_PLANE_ONLY | DATA_AND_HEARTBEAT

record Validator =
  local_device_id :: u8
  scope :: Scope

definition verify_heartbeat_crc :: "bytes option \<Rightarrow> nat \<Rightarrow> bool" where
  "verify_heartbeat_crc pl pl_len =
     (case pl of
        None \<Rightarrow> False
      | Some bs \<Rightarrow>
          if pl_len < HEARTBEAT_PAYLOAD_SIZE then False
          else (field_le 44 4 bs :: u32) = crc32c (Some bs) 44)"

definition check_dest_id :: "Validator \<Rightarrow> u8 \<Rightarrow> bool" where
  "check_dest_id v dest =
     (if dest = DEVICE_ID_RESERVED then False
      else dest = local_device_id v \<or> dest = DEVICE_ID_BROADCAST)"

definition is_data_packet :: "PacketType \<Rightarrow> bool" where
  "is_data_packet t \<longleftrightarrow> t = DATA"

definition check_reserved_fields :: "CommonHeader \<Rightarrow> bool" where
  "check_reserved_fields h =
     (if reserved1 h \<noteq> 0 \<or> reserved2 h \<noteq> 0 then False else list_all (\<lambda>b. b = 0) (reserved3 h))"

definition validate_payload_by_type :: "ParsedPacket \<Rightarrow> ValidationResult" where
  "validate_payload_by_type p =
     (let t = get_packet_type (header p) in
      if t \<noteq> DATA \<and> t \<noteq> HEARTBEAT then UNSUPPORTED_PACKET_TYPE
      else if t = DATA then VR_OK
      else if verify_heartbeat_crc (payload p) (unat (payload_len (header p))) then VR_OK
      else CRC_MISMATCH)"

text \<open>The result of \<^verbatim>\<open>check_reserved_fields\<close> is discarded by \<^verbatim>\<open>validate\<close>.\<close>

definition validate :: "Validator \<Rightarrow> ParsedPacket \<Rightarrow> ValidationResult" where
  "validate v p =
     (let h = header p; t = get_packet_type h in
      if \<not> is_valid_magic h then INVALID_MAGIC
      else if \<not> is_valid_version h then INVALID_VERSION
      else if \<not> check_dest_id v (dest_id h) then INVALID_DEST_ID
      else if scope v = DATA_PLANE_ONLY \<and> \<not> is_data_packet t then UNSUPPORTED_PACKET_TYPE
      else if scope v = DATA_AND_HEARTBEAT \<and> t \<noteq> DATA \<and> t \<noteq> HEARTBEAT then UNSUPPORTED_PACKET_TYPE
      else if total_size p \<noteq> COMMON_HEADER_SIZE + unat (payload_len h) then PAYLOAD_LEN_MISMATCH
      else validate_payload_by_type p)"

subsection \<open>What the parser accepts\<close>

lemma parse_Some_iff:
  "parse (Some bs) n = Some p \<longleftrightarrow>
     COMMON_HEADER_SIZE \<le> n \<and> basic_validation (decode_common bs) n \<and>
     p = \<lparr>header = decode_common bs, payload = Some (drop COMMON_HEADER_SIZE bs), total_size = n\<rparr>"
  by (auto simp: parse_def Let_def)

lemma basic_validation_iff:
  "basic_validation h n \<longleftrightarrow>
     is_valid_magic h \<and> is_valid_version h \<and> unat (payload_len h) \<le> MAX_PAYLOAD_SIZE \<and>
     n = COMMON_HEADER_SIZE + unat (payload_len h)"
  by (auto simp: basic_validation_def is_valid_magic_def is_valid_version_def)

lemma parse_None_null [simp]: "parse None n = None"
  by (simp add: parse_def)

lemma parse_encoded:
  assumes "wf_common h" and "is_valid_magic h" and "is_valid_version h"
    and "unat (payload_len h) = length pl" and "length pl \<le> MAX_PAYLOAD_SIZE"
  shows "parse (Some (encode_common h @ pl)) (length (encode_common h @ pl)) =
      Some \<lparr>header = h, payload = Some pl, total_size = COMMON_HEADER_SIZE + length pl\<rparr>"
  using assms length_encode_common [OF assms(1)]
  by (simp add: parse_Some_iff basic_validation_iff decode_encode_common COMMON_HEADER_SIZE_def)

lemma parse_decoded:
  assumes "parse (Some bs) (length bs) = Some p"
  shows "bs = encode_common (header p) @ the (payload p)" and "wf_common (header p)"
    and "is_valid_magic (header p)" and "is_valid_version (header p)"
    and "unat (payload_len (header p)) = length (the (payload p))"
    and "length (the (payload p)) \<le> MAX_PAYLOAD_SIZE"
    and "payload p \<noteq> None" and "total_size p = length bs"
  using assms append_take_drop_id [of 32 bs]
  by (auto simp: parse_Some_iff basic_validation_iff COMMON_HEADER_SIZE_def encode_decode_common
      wf_common_decode)

lemma validate_after_parse:
  assumes "parse buffer n = Some p"
  shows "validate v p \<notin> {INVALID_MAGIC, INVALID_VERSION, PAYLOAD_LEN_MISMATCH}"
  using assms
  by (cases buffer)
     (auto simp: parse_Some_iff basic_validation_iff validate_def validate_payload_by_type_def Let_def)

lemma validate_OK_iff:
  "validate v p = VR_OK \<longleftrightarrow>
     is_valid_magic (header p) \<and> is_valid_version (header p) \<and> check_dest_id v (dest_id (header p)) \<and>
     total_size p = COMMON_HEADER_SIZE + unat (payload_len (header p)) \<and>
     (get_packet_type (header p) = DATA \<or>
      get_packet_type (header p) = HEARTBEAT \<and> scope v = DATA_AND_HEARTBEAT \<and>
      verify_heartbeat_crc (payload p) (unat (payload_len (header p))))"
  by (cases "scope v")
     (auto simp: validate_def validate_payload_by_type_def is_data_packet_def Let_def)

lemma verify_heartbeat_crc_update:
  assumes "verify_heartbeat_crc (Some bs) n" and "48 \<le> length bs" and "i < 48" and "b \<noteq> bs ! i"
  shows "\<not> verify_heartbeat_crc (Some (bs[i := b])) n"
proof (cases "i < 44")
  case True
  have "(field_le 44 4 (bs[i := b]) :: u32) = field_le 44 4 bs"
    using True by (simp add: field_le_def)
  moreover have "crc32c (Some (bs[i := b])) 44 \<noteq> crc32c (Some bs) 44"
    using foldl_crc_update [of i "take 44 bs" b kInitXor] True assms
    by (simp add: crc32c_def crc32c_sw_ref take_update_swap)
  ultimately show ?thesis using assms(1) by (auto simp: verify_heartbeat_crc_def split: if_splits)
next
  case False
  have "crc32c (Some (bs[i := b])) 44 = crc32c (Some bs) 44"
    using False by (simp add: crc32c_def)
  moreover have "(field_le 44 4 (bs[i := b]) :: u32) \<noteq> field_le 44 4 bs"
  proof
    assume eq: "(field_le 44 4 (bs[i := b]) :: u32) = field_le 44 4 bs"
    then have "take 4 (drop 44 (bs[i := b])) = take 4 (drop 44 bs)"
      using bytes_le_field_le [of 4 44 "bs[i := b]", where 'a = 32]
        bytes_le_field_le [of 4 44 bs, where 'a = 32] assms(2) by simp
    then have "take 4 (drop 44 (bs[i := b])) ! (i - 44) = take 4 (drop 44 bs) ! (i - 44)" by simp
    then show False using False assms by simp
  qed
  ultimately show ?thesis using assms(1) by (auto simp: verify_heartbeat_crc_def split: if_splits)
qed

lemma validate_parsed:
  assumes "parse buffer n = Some p"
  shows "validate v p =
      (if \<not> check_dest_id v (dest_id (header p)) then INVALID_DEST_ID
       else if get_packet_type (header p) = DATA then VR_OK
       else if get_packet_type (header p) = HEARTBEAT \<and> scope v = DATA_AND_HEARTBEAT
       then if verify_heartbeat_crc (payload p) (unat (payload_len (header p))) then VR_OK else CRC_MISMATCH
       else UNSUPPORTED_PACKET_TYPE)"
  using assms
  by (cases buffer; cases "scope v")
     (auto simp: parse_Some_iff basic_validation_iff validate_def validate_payload_by_type_def
       is_data_packet_def Let_def)

subsection \<open>Sample datagrams\<close>

definition sample_header :: "u8 \<Rightarrow> nat \<Rightarrow> CommonHeader" where
  "sample_header ptype n = zero_common\<lparr>magic := PROTOCOL_MAGIC, protocol_version := PROTOCOL_VERSION,
     packet_type := ptype, dest_id := DEVICE_ID_BROADCAST, payload_len := word_of_nat n\<rparr>"

definition sample_datagram :: "u8 \<Rightarrow> bytes \<Rightarrow> bytes" where
  "sample_datagram ptype pl = encode_common (sample_header ptype (length pl)) @ pl"

definition sample_heartbeat :: bytes where
  "sample_heartbeat = replicate 44 0 @ bytes_le 4 (crc32c (Some (replicate 44 0)) 44)"

lemma parse_sample:
  assumes "length pl \<le> MAX_PAYLOAD_SIZE"
  shows "parse (Some (sample_datagram ptype pl)) (length (sample_datagram ptype pl)) =
      Some \<lparr>header = sample_header ptype (length pl), payload = Some pl, total_size = 32 + length pl\<rparr>"
proof -
  have "unat (word_of_nat (length pl) :: u16) = length pl"
    using assms by (simp add: unat_of_nat take_bit_nat_eq_self const_defs)
  moreover have "drop_bit 4 (0x31 :: u8) = 3" by simp
  ultimately show ?thesis
    using parse_encoded [of "sample_header ptype (length pl)" pl] assms
    by (simp add: sample_datagram_def sample_header_def wf_common_def zero_common_def is_valid_magic_def
        is_valid_version_def const_defs)
qed

lemma verify_sample_heartbeat: "verify_heartbeat_crc (Some sample_heartbeat) 48"
  by (simp add: verify_heartbeat_crc_def sample_heartbeat_def field_le_def crc32c_def const_defs)

subsection \<open>Properties\<close>

text \<open>
  C17: The parser accepts exactly the wire format.  A received datagram parses to a packet if and only
  if it is the encoding of that packet's header, with the protocol magic and major version 3, followed
  by the payload, whose length is the header's \<^verbatim>\<open>payload_len\<close> and at most the maximum of a UDP
  datagram; every other datagram is refused.
\<close>

theorem parser_accepts_wire_format:
  "parse (Some bs) (length bs) = Some p \<longleftrightarrow>
     (\<exists>h pl. p = \<lparr>header = h, payload = Some pl, total_size = length bs\<rparr> \<and> bs = encode_common h @ pl \<and>
        wf_common h \<and> is_valid_magic h \<and> is_valid_version h \<and> unat (payload_len h) = length pl \<and>
        length pl \<le> MAX_PAYLOAD_SIZE)"
proof
  assume *: "parse (Some bs) (length bs) = Some p"
  obtain h pl n where p: "p = \<lparr>header = h, payload = Some pl, total_size = n\<rparr>"
    using * by (auto simp: parse_Some_iff)
  with parse_decoded [OF *]
  show "\<exists>h pl. p = \<lparr>header = h, payload = Some pl, total_size = length bs\<rparr> \<and> bs = encode_common h @ pl \<and>
      wf_common h \<and> is_valid_magic h \<and> is_valid_version h \<and> unat (payload_len h) = length pl \<and>
      length pl \<le> MAX_PAYLOAD_SIZE"
    by (intro exI [of _ h] exI [of _ pl]) simp
next
  assume "\<exists>h pl. p = \<lparr>header = h, payload = Some pl, total_size = length bs\<rparr> \<and> bs = encode_common h @ pl \<and>
      wf_common h \<and> is_valid_magic h \<and> is_valid_version h \<and> unat (payload_len h) = length pl \<and>
      length pl \<le> MAX_PAYLOAD_SIZE"
  then show "parse (Some bs) (length bs) = Some p"
    by (elim exE conjE) (metis COMMON_HEADER_SIZE_def length_append length_encode_common parse_encoded)
qed



text \<open>
  End to end, a heartbeat datagram that the receiver accepts is refused with \<^verbatim>\<open>CRC_MISMATCH\<close>
  after a corruption of any single byte of its 48-byte payload, the stored checksum included.
\<close>

lemma corrupted_heartbeat_refused:
  assumes "parse (Some bs) (length bs) = Some p" and "validate v p = VR_OK"
    and "packet_type (header p) = 4" and "32 \<le> i" "i < 80" "b \<noteq> bs ! i"
  shows "\<exists>p'. parse (Some (bs[i := b])) (length bs) = Some p' \<and> validate v p' = CRC_MISMATCH"
proof -
  have t: "get_packet_type (header p) = HEARTBEAT"
    using assms(3) by (simp add: get_packet_type_def packet_type_of_def)
  note d = parse_decoded [OF assms(1)]
  let ?pl = "the (payload p)" and ?n = "unat (payload_len (header p))"
  have pl: "payload p = Some ?pl" using d(7) by auto
  have ok: "check_dest_id v (dest_id (header p))" "verify_heartbeat_crc (Some ?pl) ?n" "scope v = DATA_AND_HEARTBEAT"
    using assms(2) t pl by (auto simp: validate_OK_iff)
  then have "48 \<le> length ?pl"
    using d(5) by (auto simp: verify_heartbeat_crc_def const_defs split: if_splits)
  have bs: "bs = encode_common (header p) @ ?pl" by (rule d(1))
  have len: "length (encode_common (header p)) = 32" by (rule length_encode_common [OF d(2)])
  have upd: "bs[i := b] = encode_common (header p) @ ?pl[i - 32 := b]"
    using assms(4) len by (subst bs) (simp add: list_update_append)
  have ne: "b \<noteq> ?pl ! (i - 32)"
    using assms(4,6) len by (subst (asm) bs) (simp add: nth_append)
  have "\<not> verify_heartbeat_crc (Some (?pl[i - 32 := b])) ?n"
    by (rule verify_heartbeat_crc_update [OF ok(2) \<open>48 \<le> length ?pl\<close> _ ne]) (use assms(4,5) in simp)
  moreover have p': "parse (Some (bs[i := b])) (length bs) =
      Some \<lparr>header = header p, payload = Some (?pl[i - 32 := b]), total_size = COMMON_HEADER_SIZE + length ?pl\<rparr>"
    using parse_encoded [OF d(2,3,4), of "?pl[i - 32 := b]"] d(5,6) upd
      arg_cong [OF bs, of length] by simp
  ultimately show ?thesis
    using validate_parsed [OF p'] ok t by simp
qed

end
