(* ===== verification/Reassembler.thy ===== *)
theory Reassembler
  imports Packet_Validation
begin

text \<open>
  \<^verbatim>\<open>Reassembler\<close> (\<^verbatim>\<open>include/qdgz300/m01_receiver/pipeline/reassembler.h\<close>,
  \<^verbatim>\<open>src/m01_receiver/pipeline/reassembler.cpp\<close>): fragments of a frame are collected per key and
  assembled once all have arrived or the context times out.

  Correspondence.  The context map is an association list, the bitset a predicate on indices with
  the \<^verbatim>\<open>out_of_range\<close> exception of \<^verbatim>\<open>bitset::test\<close> as an error value, a fragment reference a
  record with the owned pool buffer (a handle), the owned heap copy and the bytes the data pointer
  designates.  Every reading of the clock is an argument.  The frame callback is the list of frames
  an operation returns.
\<close>

subsection \<open>Data\<close>

record ReassemblerConfig =
  rc_timeout_ms :: u32
  rc_max_contexts :: nat
  rc_max_total_frags :: u16
  rc_sample_count_fixed :: nat
  rc_max_reasm_bytes_per_key :: nat

record FragmentRef =
  ref_pool_buffer :: "nat option"
  ref_heap_buffer :: "bytes option"
  ref_data :: "bytes option"
  ref_data_size :: nat

definition empty_ref :: FragmentRef where
  "empty_ref = \<lparr>ref_pool_buffer = None, ref_heap_buffer = None, ref_data = None, ref_data_size = 0\<rparr>"

definition pool_ref :: "nat \<Rightarrow> bytes \<Rightarrow> nat \<Rightarrow> FragmentRef" where
  "pool_ref buf pl n =
     \<lparr>ref_pool_buffer = Some buf, ref_heap_buffer = None, ref_data = Some pl, ref_data_size = n\<rparr>"

definition heap_ref :: "bytes \<Rightarrow> nat \<Rightarrow> FragmentRef" where
  "heap_ref src n =
     (let copied = take n src in
      \<lparr>ref_pool_buffer = None, ref_heap_buffer = Some copied, ref_data = Some copied, ref_data_size = n\<rparr>)"

definition has_data :: "FragmentRef \<Rightarrow> bool" where
  "has_data r \<longleftrightarrow> ref_data r \<noteq> None \<and> ref_data_size r > 0"

record ReassemblyContext =
  ctx_key :: ReassemblyKey
  ctx_total_frags :: u16
  ctx_tail_frag_payload_bytes :: u16
  ctx_first_frag_time_ms :: u64
  ctx_data_timestamp :: u64
  ctx_execution_snapshot :: ExecutionSnapshot
  ctx_has_execution_snapshot :: bool
  ctx_received_fragments :: "nat \<Rightarrow> bool"
  ctx_fragment_sizes :: "nat list"
  ctx_fragment_refs :: "FragmentRef list"
  ctx_total_payload_size :: nat
  ctx_received_count :: u16
  ctx_received_payload_bytes :: nat
  ctx_is_complete :: bool
  ctx_is_timeout :: bool

definition check_complete :: "ReassemblyContext \<Rightarrow> bool" where
  "check_complete c \<longleftrightarrow> ctx_received_count c = ctx_total_frags c"

definition check_timeout :: "ReassemblyContext \<Rightarrow> u64 \<Rightarrow> u32 \<Rightarrow> bool" where
  "check_timeout c current_time_ms timeout_ms \<longleftrightarrow>
     current_time_ms - ctx_first_frag_time_ms c \<ge> ucast timeout_ms"

record ReassembledFrame =
  rf_key :: ReassemblyKey
  rf_data :: bytes
  rf_total_size :: nat
  rf_data_timestamp :: u64
  rf_execution_snapshot :: ExecutionSnapshot
  rf_has_execution_snapshot :: bool
  rf_is_complete :: bool
  rf_missing_fragments_count :: u16
  rf_missing_frag_indices :: "u16 list"

record ReasmStatistics =
  total_fragments_received :: u64
  duplicate_fragments :: u64
  late_fragments :: u64
  frames_completed :: u64
  frames_incomplete :: u64
  total_missing_fragments :: u64
  contexts_created :: u64
  contexts_destroyed :: u64
  contexts_overflow :: u64
  reasm_bytes_overflow :: u64

definition zero_reasm_stats :: ReasmStatistics where
  "zero_reasm_stats =
     \<lparr>total_fragments_received = 0, duplicate_fragments = 0, late_fragments = 0, frames_completed = 0,
      frames_incomplete = 0, total_missing_fragments = 0, contexts_created = 0, contexts_destroyed = 0,
      contexts_overflow = 0, reasm_bytes_overflow = 0\<rparr>"

record FrozenKeyEntry =
  fk_key :: ReassemblyKey
  fk_expire_ms :: u64
  fk_valid :: bool

definition empty_frozen_entry :: FrozenKeyEntry where
  "empty_frozen_entry = \<lparr>fk_key = ReassemblyKey 0 0 0 0 0 0 0 0, fk_expire_ms = 0, fk_valid = False\<rparr>"

record Reassembler_state =
  rsm_config :: ReassemblerConfig
  rsm_callback :: bool
  rsm_contexts :: "(ReassemblyKey \<times> ReassemblyContext) list"
  rsm_frozen_keys_ring :: "FrozenKeyEntry list"
  rsm_frozen_keys_next_insert :: nat
  rsm_stats :: ReasmStatistics
  rsm_timeout_ms_runtime :: u32

datatype reasm_error = Bitset_out_of_range

subsection \<open>Operations\<close>

definition reassembler_new :: "ReassemblerConfig \<Rightarrow> bool \<Rightarrow> Reassembler_state" where
  "reassembler_new cfg callback =
     \<lparr>rsm_config = cfg, rsm_callback = callback, rsm_contexts = [],
      rsm_frozen_keys_ring = replicate (max 1 (rc_max_contexts cfg * 2)) empty_frozen_entry,
      rsm_frozen_keys_next_insert = 0, rsm_stats = zero_reasm_stats,
      rsm_timeout_ms_runtime = rc_timeout_ms cfg\<rparr>"

definition infer_missing_fragment_size ::
  "ReassemblyContext \<Rightarrow> nat \<Rightarrow> ReassemblerConfig \<Rightarrow> u8 \<Rightarrow> u8 \<Rightarrow> nat" where
  "infer_missing_fragment_size ctx i cfg channel_count data_type =
     (let n = unat (ctx_total_frags ctx) in
      if i + 1 = n then unat (ctx_tail_frag_payload_bytes ctx)
      else case find (\<lambda>j. j + 1 \<noteq> n \<and> j < length (ctx_fragment_sizes ctx) \<and> ctx_fragment_sizes ctx ! j > 0)
                  [0..<n] of
             Some j \<Rightarrow> ctx_fragment_sizes ctx ! j
           | None \<Rightarrow> rc_sample_count_fixed cfg * (if data_type = 0x02 then 8 else 4) * unat channel_count)"

definition extract_key :: "CommonHeader \<Rightarrow> DataSpecificHeader \<Rightarrow> ReassemblyKey" where
  "extract_key common specific =
     ReassemblyKey (control_epoch common) (source_id common) (frame_counter specific) (beam_id specific)
       (cpi_count specific) (pulse_index specific) (get_channel_mask specific) (get_data_type_raw specific)"

definition parse_specific_header ::
  "ReassemblerConfig \<Rightarrow> bytes option \<Rightarrow> nat \<Rightarrow> DataSpecificHeader option" where
  "parse_specific_header cfg pl pl_len =
     (case pl of
        None \<Rightarrow> None
      | Some bs \<Rightarrow>
          if pl_len < DATA_SPECIFIC_HEADER_SIZE then None
          else let h = decode_specific bs in
            if total_frags h = 0 \<or> total_frags h > rc_max_total_frags cfg then None
            else if frag_index h \<ge> total_frags h then None
            else Some h)"

text \<open>
  The common first half of \<^verbatim>\<open>process_packet\<close> and \<^verbatim>\<open>process_packet_zero_copy\<close>: the fragment a packet
  carries, as header, payload pointer, payload size and the snapshot of a tail fragment, or
  nothing when the packet is dropped.
\<close>

record fragment =
  fr_specific :: DataSpecificHeader
  fr_payload :: bytes
  fr_payload_size :: nat
  fr_snapshot :: "ExecutionSnapshot option"

definition extract_fragment :: "ReassemblerConfig \<Rightarrow> ParsedPacket \<Rightarrow> fragment option" where
  "extract_fragment cfg p =
     (let pl_len = unat (payload_len (header p)) in
      case parse_specific_header cfg (payload p) pl_len of
        None \<Rightarrow> None
      | Some specific \<Rightarrow>
          if total_frags specific = 0 \<or> total_frags specific > rc_max_total_frags cfg then None
          else let bs = the (payload p); specific_size = DATA_SPECIFIC_HEADER_SIZE;
                   snapshot_size = EXECUTION_SNAPSHOT_SIZE in
            if is_tail_fragment specific
            then if pl_len \<noteq> specific_size + snapshot_size + unat (tail_frag_payload_bytes specific) then None
                 else Some \<lparr>fr_specific = specific, fr_payload = drop (specific_size + snapshot_size) bs,
                            fr_payload_size = pl_len - (specific_size + snapshot_size),
                            fr_snapshot = Some (decode_snapshot (drop specific_size bs))\<rparr>
            else if pl_len < specific_size then None
                 else Some \<lparr>fr_specific = specific, fr_payload = drop specific_size bs,
                            fr_payload_size = pl_len - specific_size, fr_snapshot = None\<rparr>)"

text \<open>The scan stops at the first live entry with the key; entries it passes may expire.\<close>

fun is_key_frozen :: "ReassemblyKey \<Rightarrow> u64 \<Rightarrow> FrozenKeyEntry list \<Rightarrow> bool \<times> FrozenKeyEntry list" where
  "is_key_frozen key now_ms [] = (False, [])"
| "is_key_frozen key now_ms (e # es) =
     (if \<not> fk_valid e then apsnd (Cons e) (is_key_frozen key now_ms es)
      else if fk_expire_ms e \<le> now_ms
      then apsnd (Cons (e\<lparr>fk_valid := False\<rparr>)) (is_key_frozen key now_ms es)
      else if key_equal (fk_key e) key then (True, e # es)
      else apsnd (Cons e) (is_key_frozen key now_ms es))"

fun refresh_frozen_key :: "ReassemblyKey \<Rightarrow> u64 \<Rightarrow> FrozenKeyEntry list \<Rightarrow> FrozenKeyEntry list option" where
  "refresh_frozen_key key expire_ms [] = None"
| "refresh_frozen_key key expire_ms (e # es) =
     (if fk_valid e \<and> key_equal (fk_key e) key then Some (e\<lparr>fk_expire_ms := expire_ms\<rparr> # es)
      else map_option (Cons e) (refresh_frozen_key key expire_ms es))"

definition add_frozen_key :: "ReassemblyKey \<Rightarrow> u64 \<Rightarrow> Reassembler_state \<Rightarrow> Reassembler_state" where
  "add_frozen_key key expire_ms r =
     (case refresh_frozen_key key expire_ms (rsm_frozen_keys_ring r) of
        Some ring' \<Rightarrow> r\<lparr>rsm_frozen_keys_ring := ring'\<rparr>
      | None \<Rightarrow>
          let ring' = rsm_frozen_keys_ring r; i = rsm_frozen_keys_next_insert r in
          r\<lparr>rsm_frozen_keys_ring := ring'[i := \<lparr>fk_key = key, fk_expire_ms = expire_ms, fk_valid = True\<rparr>],
            rsm_frozen_keys_next_insert := (i + 1) mod length ring'\<rparr>)"

definition fresh_context :: "ReassemblyKey \<Rightarrow> u16 \<Rightarrow> u16 \<Rightarrow> u64 \<Rightarrow> u64 \<Rightarrow> ReassemblyContext" where
  "fresh_context key tfrags tail ts receive_time_ms =
     \<lparr>ctx_key = key, ctx_total_frags = tfrags, ctx_tail_frag_payload_bytes = tail,
      ctx_first_frag_time_ms = receive_time_ms, ctx_data_timestamp = ts,
      ctx_execution_snapshot = zero_snapshot, ctx_has_execution_snapshot = False,
      ctx_received_fragments = (\<lambda>_. False), ctx_fragment_sizes = replicate (unat tfrags) 0,
      ctx_fragment_refs = replicate (unat tfrags) empty_ref, ctx_total_payload_size = 0,
      ctx_received_count = 0, ctx_received_payload_bytes = 0, ctx_is_complete = False,
      ctx_is_timeout = False\<rparr>"

definition get_or_create_context ::
  "ReassemblyKey \<Rightarrow> u16 \<Rightarrow> u16 \<Rightarrow> u64 \<Rightarrow> u64 \<Rightarrow> Reassembler_state \<Rightarrow>
     ReassemblyContext option \<times> Reassembler_state" where
  "get_or_create_context key tfrags tail ts receive_time_ms r =
     (case map_of (rsm_contexts r) key of
        Some ctx \<Rightarrow> (Some ctx, r)
      | None \<Rightarrow>
          if length (rsm_contexts r) \<ge> rc_max_contexts (rsm_config r)
          then (None, r\<lparr>rsm_stats := (rsm_stats r)\<lparr>contexts_overflow := contexts_overflow (rsm_stats r) + 1\<rparr>\<rparr>)
          else let ctx = fresh_context key tfrags tail ts receive_time_ms in
            (Some ctx,
             r\<lparr>rsm_contexts := AList.update key ctx (rsm_contexts r),
               rsm_stats := (rsm_stats r)\<lparr>contexts_created := contexts_created (rsm_stats r) + 1\<rparr>\<rparr>))"

text \<open>
  \<^verbatim>\<open>add_fragment\<close> and \<^verbatim>\<open>add_fragment_zero_copy\<close> are the same but for the reference they store:
  \<open>store_fragment\<close> has it as an argument.  The result is the changed context and statistics and
  whether the fragment was taken.
\<close>

definition store_fragment ::
  "FragmentRef \<Rightarrow> nat \<Rightarrow> DataSpecificHeader \<Rightarrow> nat \<Rightarrow> ReassemblyContext \<Rightarrow> ReasmStatistics \<Rightarrow>
     ReassemblyContext \<times> ReasmStatistics \<times> bool" where
  "store_fragment ref max_bytes h n ctx st =
     (let i = unat (frag_index h) in
      if frag_index h \<ge> ctx_total_frags ctx \<or> i \<ge> 1024 then (ctx, st, False)
      else if ctx_received_fragments ctx i
      then (ctx, st\<lparr>duplicate_fragments := duplicate_fragments st + 1\<rparr>, False)
      else if ctx_received_payload_bytes ctx + n > max_bytes
      then (ctx, st\<lparr>reasm_bytes_overflow := reasm_bytes_overflow st + 1\<rparr>, False)
      else if is_tail_fragment h \<and> n \<noteq> unat (ctx_tail_frag_payload_bytes ctx) then (ctx, st, False)
      else if \<not> is_tail_fragment h \<and> n = 0 then (ctx, st, False)
      else let ctx1 = (if n > 0 then ctx\<lparr>ctx_fragment_refs := (ctx_fragment_refs ctx)[i := ref]\<rparr> else ctx);
               ctx2 = ctx1\<lparr>ctx_fragment_sizes := (ctx_fragment_sizes ctx)[i := n],
                           ctx_received_fragments := (ctx_received_fragments ctx)(i := True),
                           ctx_received_count := ctx_received_count ctx + 1,
                           ctx_received_payload_bytes := ctx_received_payload_bytes ctx + n,
                           ctx_total_payload_size := ctx_total_payload_size ctx + n\<rparr>
           in (ctx2\<lparr>ctx_is_complete := check_complete ctx2\<rparr>, st, True))"

definition add_fragment ::
  "nat \<Rightarrow> DataSpecificHeader \<Rightarrow> bytes \<Rightarrow> nat \<Rightarrow> ReassemblyContext \<Rightarrow> ReasmStatistics \<Rightarrow>
     ReassemblyContext \<times> ReasmStatistics \<times> bool" where
  "add_fragment max_bytes h pl n ctx st = store_fragment (heap_ref pl n) max_bytes h n ctx st"

definition add_fragment_zero_copy ::
  "nat \<Rightarrow> nat \<Rightarrow> DataSpecificHeader \<Rightarrow> bytes \<Rightarrow> nat \<Rightarrow> ReassemblyContext \<Rightarrow> ReasmStatistics \<Rightarrow>
     ReassemblyContext \<times> ReasmStatistics \<times> bool" where
  "add_fragment_zero_copy buf max_bytes h pl n ctx st =
     store_fragment (pool_ref buf pl n) max_bytes h n ctx st"

definition bitset_test :: "(nat \<Rightarrow> bool) \<Rightarrow> nat \<Rightarrow> reasm_error + bool" where
  "bitset_test bits i = (if i < 1024 then Inr (bits i) else Inl Bitset_out_of_range)"

text \<open>The loop that adds up the size of the frame buffer.\<close>

fun assembled_size :: "ReassemblerConfig \<Rightarrow> ReassemblyContext \<Rightarrow> u8 \<Rightarrow> u8 \<Rightarrow> nat list \<Rightarrow> reasm_error + nat" where
  "assembled_size cfg ctx cc dt [] = Inr 0"
| "assembled_size cfg ctx cc dt (i # is) =
     (case bitset_test (ctx_received_fragments ctx) i of
        Inl e \<Rightarrow> Inl e
      | Inr received \<Rightarrow>
          let n = (if received \<and> i < length (ctx_fragment_refs ctx) \<and> has_data (ctx_fragment_refs ctx ! i)
                   then ref_data_size (ctx_fragment_refs ctx ! i)
                   else infer_missing_fragment_size ctx i cfg cc dt)
          in map_sum id (\<lambda>rest. n + rest) (assembled_size cfg ctx cc dt is))"

text \<open>
  The loop that writes the buffer: the bytes written one after the other from position 0 and the
  indices recorded as missing.
\<close>

fun assemble :: "ReassemblerConfig \<Rightarrow> ReassemblyContext \<Rightarrow> u8 \<Rightarrow> u8 \<Rightarrow> nat list \<Rightarrow> reasm_error + bytes \<times> u16 list" where
  "assemble cfg ctx cc dt [] = Inr ([], [])"
| "assemble cfg ctx cc dt (i # is) =
     (case bitset_test (ctx_received_fragments ctx) i of
        Inl e \<Rightarrow> Inl e
      | Inr received \<Rightarrow>
          if received \<and> i < length (ctx_fragment_refs ctx) \<and> has_data (ctx_fragment_refs ctx ! i)
          then let r = ctx_fragment_refs ctx ! i in
            map_sum id (apfst (append (take (ref_data_size r) (the (ref_data r))))) (assemble cfg ctx cc dt is)
          else map_sum id (map_prod (append (replicate (infer_missing_fragment_size ctx i cfg cc dt) 0))
                                    (Cons (word_of_nat i)))
                 (assemble cfg ctx cc dt is))"

definition destroy_context :: "ReassemblyKey \<Rightarrow> Reassembler_state \<Rightarrow> Reassembler_state" where
  "destroy_context key r =
     (case map_of (rsm_contexts r) key of
        None \<Rightarrow> r
      | Some _ \<Rightarrow>
          r\<lparr>rsm_contexts := AList.delete key (rsm_contexts r),
            rsm_stats := (rsm_stats r)\<lparr>contexts_destroyed := contexts_destroyed (rsm_stats r) + 1\<rparr>\<rparr>)"

definition frame_of_context ::
  "ReassemblerConfig \<Rightarrow> ReassemblyKey \<Rightarrow> ReassemblyContext \<Rightarrow> reasm_error + ReassembledFrame" where
  "frame_of_context cfg key ctx =
     (let cc = popcount16 (rk_channel_mask key); is = [0..<unat (ctx_total_frags ctx)] in
      case assembled_size cfg ctx cc (rk_data_type key) is of
        Inl e \<Rightarrow> Inl e
      | Inr n \<Rightarrow>
          (case assemble cfg ctx cc (rk_data_type key) is of
             Inl e \<Rightarrow> Inl e
           | Inr (bs, missing) \<Rightarrow>
               Inr \<lparr>rf_key = key, rf_data = bs, rf_total_size = n, rf_data_timestamp = ctx_data_timestamp ctx,
                    rf_execution_snapshot = ctx_execution_snapshot ctx,
                    rf_has_execution_snapshot = ctx_has_execution_snapshot ctx,
                    rf_is_complete = (missing = []),
                    rf_missing_fragments_count = word_of_nat (length missing),
                    rf_missing_frag_indices = missing\<rparr>))"

text \<open>\<open>now_ms\<close> is the clock reading for the freeze of a timed-out key.\<close>

definition complete_reassembly ::
  "ReassemblyKey \<Rightarrow> ReassemblyContext \<Rightarrow> bool \<Rightarrow> u64 \<Rightarrow> Reassembler_state \<Rightarrow>
     reasm_error + Reassembler_state \<times> ReassembledFrame list" where
  "complete_reassembly key ctx is_timeout now_ms r =
     (case frame_of_context (rsm_config r) key ctx of
        Inl e \<Rightarrow> Inl e
      | Inr frame \<Rightarrow>
          let st = rsm_stats r; miss = rf_missing_fragments_count frame;
              st1 = (if miss = 0 \<and> \<not> is_timeout then st\<lparr>frames_completed := frames_completed st + 1\<rparr>
                     else st\<lparr>frames_incomplete := frames_incomplete st + 1,
                            total_missing_fragments := total_missing_fragments st + ucast miss\<rparr>);
              r1 = r\<lparr>rsm_stats := st1\<rparr>;
              r2 = (if is_timeout then add_frozen_key key (now_ms + ucast (rsm_timeout_ms_runtime r1)) r1 else r1)
          in Inr (destroy_context key r2, if rsm_callback r then [frame] else []))"

text \<open>
  The common second half: lookup of the frozen keys and the context, storing, completion.  The
  pointer to the context is the entry of the map, so the changed context is written back.
\<close>

definition process_fragment ::
  "(nat \<Rightarrow> DataSpecificHeader \<Rightarrow> bytes \<Rightarrow> nat \<Rightarrow> ReassemblyContext \<Rightarrow> ReasmStatistics \<Rightarrow>
      ReassemblyContext \<times> ReasmStatistics \<times> bool) \<Rightarrow> CommonHeader \<Rightarrow> fragment \<Rightarrow> u64 \<Rightarrow> Reassembler_state \<Rightarrow>
     reasm_error + Reassembler_state \<times> ReassembledFrame list" where
  "process_fragment add common f now_ms r =
     (let specific = fr_specific f; key = extract_key common specific;
          (frozen, ring') = is_key_frozen key now_ms (rsm_frozen_keys_ring r);
          r1 = r\<lparr>rsm_frozen_keys_ring := ring'\<rparr> in
      if frozen
      then Inr (r1\<lparr>rsm_stats := (rsm_stats r1)\<lparr>late_fragments := late_fragments (rsm_stats r1) + 1\<rparr>\<rparr>, [])
      else case get_or_create_context key (total_frags specific) (tail_frag_payload_bytes specific)
                  (data_timestamp specific) now_ms r1 of
             (None, r2) \<Rightarrow> Inr (r2, [])
           | (Some ctx, r2) \<Rightarrow>
               let ctx1 = (case fr_snapshot f of
                             None \<Rightarrow> ctx
                           | Some s \<Rightarrow> ctx\<lparr>ctx_execution_snapshot := s, ctx_has_execution_snapshot := True\<rparr>);
                   (ctx2, st2, taken) = add (rc_max_reasm_bytes_per_key (rsm_config r2)) specific (fr_payload f)
                                          (fr_payload_size f) ctx1 (rsm_stats r2);
                   r3 = r2\<lparr>rsm_contexts := AList.update key ctx2 (rsm_contexts r2), rsm_stats := st2\<rparr>
               in if \<not> taken then Inr (r3, [])
                  else if check_complete ctx2 then complete_reassembly key ctx2 False 0 r3
                  else Inr (r3, []))"

definition count_fragment :: "Reassembler_state \<Rightarrow> Reassembler_state" where
  "count_fragment r = r\<lparr>rsm_stats := (rsm_stats r)\<lparr>total_fragments_received :=
     total_fragments_received (rsm_stats r) + 1\<rparr>\<rparr>"

definition process_packet ::
  "ParsedPacket \<Rightarrow> u64 \<Rightarrow> Reassembler_state \<Rightarrow> reasm_error + Reassembler_state \<times> ReassembledFrame list" where
  "process_packet p now_ms r =
     (let r0 = count_fragment r in
      case extract_fragment (rsm_config r0) p of
        None \<Rightarrow> Inr (r0, [])
      | Some f \<Rightarrow> process_fragment add_fragment (header p) f now_ms r0)"

definition process_packet_zero_copy ::
  "ParsedPacket \<Rightarrow> nat \<Rightarrow> u64 \<Rightarrow> Reassembler_state \<Rightarrow> reasm_error + Reassembler_state \<times> ReassembledFrame list" where
  "process_packet_zero_copy p buf now_ms r =
     (let r0 = count_fragment r in
      case extract_fragment (rsm_config r0) p of
        None \<Rightarrow> Inr (r0, [])
      | Some f \<Rightarrow> process_fragment (add_fragment_zero_copy buf) (header p) f now_ms r0)"

text \<open>Completing a list of keys, one clock reading per completed key.\<close>

fun complete_keys ::
  "ReassemblyKey list \<Rightarrow> (nat \<Rightarrow> u64) \<Rightarrow> Reassembler_state \<Rightarrow>
     reasm_error + Reassembler_state \<times> ReassembledFrame list" where
  "complete_keys [] clk r = Inr (r, [])"
| "complete_keys (k # ks) clk r =
     (case map_of (rsm_contexts r) k of
        None \<Rightarrow> complete_keys ks clk r
      | Some ctx \<Rightarrow>
          (case complete_reassembly k ctx True (clk 0) r of
             Inl e \<Rightarrow> Inl e
           | Inr (r', out) \<Rightarrow> map_sum id (apsnd (append out)) (complete_keys ks (\<lambda>n. clk (Suc n)) r')))"

definition check_timeouts ::
  "u64 \<Rightarrow> (nat \<Rightarrow> u64) \<Rightarrow> Reassembler_state \<Rightarrow> reasm_error + Reassembler_state \<times> ReassembledFrame list" where
  "check_timeouts now_ms clk r =
     complete_keys
       (map fst (filter (\<lambda>kc. check_timeout (snd kc) now_ms (rsm_timeout_ms_runtime r)) (rsm_contexts r))) clk r"

definition flush_all ::
  "(nat \<Rightarrow> u64) \<Rightarrow> Reassembler_state \<Rightarrow> reasm_error + (Reassembler_state \<times> ReassembledFrame list) \<times> nat" where
  "flush_all clk r =
     (let keys = map fst (rsm_contexts r) in
      map_sum id (\<lambda>res. (res, length keys)) (complete_keys keys clk r))"

definition reset_statistics :: "Reassembler_state \<Rightarrow> Reassembler_state" where
  "reset_statistics r =
     r\<lparr>rsm_stats := zero_reasm_stats,
       rsm_frozen_keys_ring := map (\<lambda>e. e\<lparr>fk_valid := False, fk_expire_ms := 0\<rparr>) (rsm_frozen_keys_ring r),
       rsm_frozen_keys_next_insert := 0\<rparr>"

text \<open>The nominal layout of a frame whose fragments all carry the configured number of samples.\<close>

definition get_complex_size :: "u8 \<Rightarrow> nat" where
  "get_complex_size data_type =
     (if data_type = 0x00 \<or> data_type = 0x01 then 4 else if data_type = 0x02 then 8 else 4)"

definition calculate_fragment_payload_size :: "ReassemblerConfig \<Rightarrow> u16 \<Rightarrow> u16 \<Rightarrow> u16 \<Rightarrow> u8 \<Rightarrow> u8 \<Rightarrow> nat" where
  "calculate_fragment_payload_size cfg i tfrags tail cc dt =
     (if unat i + 1 = unat tfrags then unat tail
      else rc_sample_count_fixed cfg * get_complex_size dt * unat cc)"

definition calculate_total_payload_size :: "ReassemblerConfig \<Rightarrow> u16 \<Rightarrow> u16 \<Rightarrow> u8 \<Rightarrow> u8 \<Rightarrow> nat" where
  "calculate_total_payload_size cfg tfrags tail cc dt =
     (\<Sum>i \<leftarrow> [0..<unat tfrags]. calculate_fragment_payload_size cfg (word_of_nat i) tfrags tail cc dt)"

definition calculate_fragment_offset :: "ReassemblerConfig \<Rightarrow> u16 \<Rightarrow> u16 \<Rightarrow> u16 \<Rightarrow> u8 \<Rightarrow> u8 \<Rightarrow> nat" where
  "calculate_fragment_offset cfg i tfrags tail cc dt =
     (\<Sum>j \<leftarrow> [0..<unat i]. calculate_fragment_payload_size cfg (word_of_nat j) tfrags tail cc dt)"

definition set_timeout_ms :: "u32 \<Rightarrow> Reassembler_state \<Rightarrow> Reassembler_state" where
  "set_timeout_ms t r = r\<lparr>rsm_timeout_ms_runtime := t\<rparr>"

end
