(* ===== verification/Reassembly.thy ===== *)
theory Reassembly
  imports Reassembler
begin

text \<open>
  Correctness of the reassembler: the frame that a context yields, the invariant of contexts, ring
  and counters that every operation keeps, the equivalence of the copying and the zero-copy path,
  and what a sequence of packets produces: all fragments of a frame in any order, with duplicates
  and with other frames in between, give exactly that frame.
\<close>

subsection \<open>The frame of a context\<close>

definition slot_present :: "ReassemblyContext \<Rightarrow> nat \<Rightarrow> bool" where
  "slot_present ctx i \<longleftrightarrow>
     ctx_received_fragments ctx i \<and> i < length (ctx_fragment_refs ctx) \<and> has_data (ctx_fragment_refs ctx ! i)"

definition slot_bytes :: "ReassemblerConfig \<Rightarrow> ReassemblyContext \<Rightarrow> u8 \<Rightarrow> u8 \<Rightarrow> nat \<Rightarrow> bytes" where
  "slot_bytes cfg ctx cc dt i =
     (if slot_present ctx i
      then take (ref_data_size (ctx_fragment_refs ctx ! i)) (the (ref_data (ctx_fragment_refs ctx ! i)))
      else replicate (infer_missing_fragment_size ctx i cfg cc dt) 0)"

definition slot_size :: "ReassemblerConfig \<Rightarrow> ReassemblyContext \<Rightarrow> u8 \<Rightarrow> u8 \<Rightarrow> nat \<Rightarrow> nat" where
  "slot_size cfg ctx cc dt i =
     (if slot_present ctx i then ref_data_size (ctx_fragment_refs ctx ! i)
      else infer_missing_fragment_size ctx i cfg cc dt)"

lemma assembled_size_eq:
  "\<forall>i \<in> set is. i < 1024 \<Longrightarrow> assembled_size cfg ctx cc dt is = Inr (\<Sum>i \<leftarrow> is. slot_size cfg ctx cc dt i)"
  by (induction "is") (simp_all add: bitset_test_def slot_size_def slot_present_def Let_def)

lemma assemble_eq:
  "\<forall>i \<in> set is. i < 1024 \<Longrightarrow> assemble cfg ctx cc dt is =
     Inr (concat (map (slot_bytes cfg ctx cc dt) is),
          map word_of_nat (filter (\<lambda>i. \<not> slot_present ctx i) is))"
  by (induction "is") (simp_all add: bitset_test_def slot_bytes_def slot_present_def Let_def)

lemma assembled_size_out_of_range:
  "\<not> (\<forall>i \<in> set is. i < 1024) \<Longrightarrow> assembled_size cfg ctx cc dt is = Inl Bitset_out_of_range"
  by (induction "is") (auto simp: bitset_test_def Let_def)

definition assembled_frame :: "ReassemblerConfig \<Rightarrow> ReassemblyKey \<Rightarrow> ReassemblyContext \<Rightarrow> ReassembledFrame" where
  "assembled_frame cfg key ctx =
     (let cc = popcount16 (rk_channel_mask key); dt = rk_data_type key; is = [0..<unat (ctx_total_frags ctx)];
          missing = map word_of_nat (filter (\<lambda>i. \<not> slot_present ctx i) is) in
      \<lparr>rf_key = key, rf_data = concat (map (slot_bytes cfg ctx cc dt) is),
       rf_total_size = (\<Sum>i \<leftarrow> is. slot_size cfg ctx cc dt i), rf_data_timestamp = ctx_data_timestamp ctx,
       rf_execution_snapshot = ctx_execution_snapshot ctx,
       rf_has_execution_snapshot = ctx_has_execution_snapshot ctx, rf_is_complete = (missing = []),
       rf_missing_fragments_count = word_of_nat (length missing), rf_missing_frag_indices = missing\<rparr>)"

lemma frame_of_context_eq:
  assumes "unat (ctx_total_frags ctx) \<le> 1024"
  shows "frame_of_context cfg key ctx = Inr (assembled_frame cfg key ctx)"
proof -
  have "\<forall>i \<in> set [0..<unat (ctx_total_frags ctx)]. i < 1024" using assms by auto
  then show ?thesis
    by (simp only: frame_of_context_def assembled_frame_def Let_def assembled_size_eq assemble_eq
        sum.case prod.case)
qed

lemma frame_of_context_throws:
  assumes "1024 < unat (ctx_total_frags ctx)"
  shows "frame_of_context cfg key ctx = Inl Bitset_out_of_range"
proof -
  have "\<not> (\<forall>i \<in> set [0..<unat (ctx_total_frags ctx)]. i < 1024)" using assms by (auto intro!: bexI [of _ 1024])
  then have "assembled_size cfg ctx cc dt [0..<unat (ctx_total_frags ctx)] = Inl Bitset_out_of_range" for cc dt
    by (rule assembled_size_out_of_range)
  then show ?thesis by (simp add: frame_of_context_def Let_def)
qed

subsection \<open>The invariant\<close>

definition ref_ok :: "FragmentRef \<Rightarrow> nat \<Rightarrow> bool" where
  "ref_ok r n \<longleftrightarrow> ref_data r \<noteq> None \<and> ref_data_size r = n \<and> n \<le> length (the (ref_data r))"

definition ctx_ok :: "ReassemblerConfig \<Rightarrow> ReassemblyKey \<Rightarrow> ReassemblyContext \<Rightarrow> bool" where
  "ctx_ok cfg k c \<longleftrightarrow>
     ctx_key c = k \<and> 0 < unat (ctx_total_frags c) \<and> ctx_total_frags c \<le> rc_max_total_frags cfg \<and>
     length (ctx_fragment_sizes c) = unat (ctx_total_frags c) \<and>
     length (ctx_fragment_refs c) = unat (ctx_total_frags c) \<and>
     (\<forall>i. ctx_received_fragments c i \<longrightarrow> i < unat (ctx_total_frags c)) \<and>
     unat (ctx_received_count c) = card {i. ctx_received_fragments c i} \<and>
     ctx_received_payload_bytes c = sum_list (ctx_fragment_sizes c) \<and>
     ctx_received_payload_bytes c \<le> rc_max_reasm_bytes_per_key cfg \<and>
     (\<forall>i < unat (ctx_total_frags c).
        (if ctx_received_fragments c i \<and> 0 < ctx_fragment_sizes c ! i
         then ref_ok (ctx_fragment_refs c ! i) (ctx_fragment_sizes c ! i)
         else ctx_fragment_sizes c ! i = 0 \<and> \<not> has_data (ctx_fragment_refs c ! i)))"

definition ctx_inv :: "ReassemblerConfig \<Rightarrow> ReassemblyKey \<Rightarrow> ReassemblyContext \<Rightarrow> bool" where
  "ctx_inv cfg k c \<longleftrightarrow> ctx_ok cfg k c \<and> ctx_received_count c < ctx_total_frags c"

definition reasm_inv :: "Reassembler_state \<Rightarrow> bool" where
  "reasm_inv r \<longleftrightarrow>
     rc_max_total_frags (rsm_config r) \<le> 1024 \<and> al_wf (rsm_contexts r) \<and>
     (\<forall>k c. map_of (rsm_contexts r) k = Some c \<longrightarrow> ctx_inv (rsm_config r) k c) \<and>
     length (rsm_contexts r) \<le> rc_max_contexts (rsm_config r) \<and>
     length (rsm_frozen_keys_ring r) = max 1 (rc_max_contexts (rsm_config r) * 2) \<and>
     rsm_frozen_keys_next_insert r < length (rsm_frozen_keys_ring r)"

text \<open>The receive buffer holds at least the announced payload, as after parsing.\<close>

definition packet_ok :: "ParsedPacket \<Rightarrow> bool" where
  "packet_ok p \<longleftrightarrow> (case payload p of None \<Rightarrow> True | Some bs \<Rightarrow> unat (payload_len (header p)) \<le> length bs)"

lemma packet_ok_parsed: "parse (Some bs) (length bs) = Some p \<Longrightarrow> packet_ok p"
  by (auto simp: packet_ok_def parse_Some_iff basic_validation_iff)

lemma ctx_ok_snapshot [simp]:
  "ctx_ok cfg k (c\<lparr>ctx_execution_snapshot := s, ctx_has_execution_snapshot := b\<rparr>) = ctx_ok cfg k c"
  by (simp add: ctx_ok_def)

lemma finite_received: "ctx_ok cfg k c \<Longrightarrow> finite {i. ctx_received_fragments c i}"
  by (rule finite_subset [of _ "{..<unat (ctx_total_frags c)}"]) (auto simp: ctx_ok_def)

lemma received_count_le: "ctx_ok cfg k c \<Longrightarrow> unat (ctx_received_count c) \<le> unat (ctx_total_frags c)"
  using card_mono [of "{..<unat (ctx_total_frags c)}" "{i. ctx_received_fragments c i}"]
  by (auto simp: ctx_ok_def)

lemma fresh_context_inv:
  assumes "0 < tf" and "tf \<le> rc_max_total_frags cfg"
  shows "ctx_inv cfg k (fresh_context k tf tail ts t)"
  using assms
  by (simp add: ctx_inv_def ctx_ok_def fresh_context_def has_data_def empty_ref_def sum_list_replicate unat_gt_0)

text \<open>The outcomes of storing a fragment.\<close>

definition stored_context :: "FragmentRef \<Rightarrow> nat \<Rightarrow> nat \<Rightarrow> ReassemblyContext \<Rightarrow> ReassemblyContext" where
  "stored_context ref n i c =
     c\<lparr>ctx_fragment_refs := (if n > 0 then (ctx_fragment_refs c)[i := ref] else ctx_fragment_refs c),
       ctx_fragment_sizes := (ctx_fragment_sizes c)[i := n],
       ctx_received_fragments := (ctx_received_fragments c)(i := True),
       ctx_received_count := ctx_received_count c + 1,
       ctx_received_payload_bytes := ctx_received_payload_bytes c + n,
       ctx_total_payload_size := ctx_total_payload_size c + n,
       ctx_is_complete := (ctx_received_count c + 1 = ctx_total_frags c)\<rparr>"

lemma store_fragment_if:
  "store_fragment ref mx h n c st =
     (let i = unat (frag_index h) in
      if frag_index h \<ge> ctx_total_frags c \<or> i \<ge> 1024 then (c, st, False)
      else if ctx_received_fragments c i then (c, st\<lparr>duplicate_fragments := duplicate_fragments st + 1\<rparr>, False)
      else if ctx_received_payload_bytes c + n > mx
      then (c, st\<lparr>reasm_bytes_overflow := reasm_bytes_overflow st + 1\<rparr>, False)
      else if is_tail_fragment h \<and> n \<noteq> unat (ctx_tail_frag_payload_bytes c) then (c, st, False)
      else if \<not> is_tail_fragment h \<and> n = 0 then (c, st, False)
      else (stored_context ref n i c, st, True))"
proof -
  have "(let ctx1 = (if n > 0 then c\<lparr>ctx_fragment_refs := (ctx_fragment_refs c)[i := ref]\<rparr> else c);
             ctx2 = ctx1\<lparr>ctx_fragment_sizes := (ctx_fragment_sizes c)[i := n],
                           ctx_received_fragments := (ctx_received_fragments c)(i := True),
                           ctx_received_count := ctx_received_count c + 1,
                           ctx_received_payload_bytes := ctx_received_payload_bytes c + n,
                           ctx_total_payload_size := ctx_total_payload_size c + n\<rparr>
           in (ctx2\<lparr>ctx_is_complete := check_complete ctx2\<rparr>, st, True)) = (stored_context ref n i c, st, True)" for i
    by (cases "n > 0") (simp_all add: Let_def check_complete_def stored_context_def)
  then show ?thesis unfolding store_fragment_def by (simp only: Let_def)
qed

lemma store_fragment_refused:
  assumes "store_fragment ref mx h n c st = (c', st', False)"
  shows "c' = c"
    and "st' = st \<or> st' = st\<lparr>duplicate_fragments := duplicate_fragments st + 1\<rparr> \<or>
       st' = st\<lparr>reasm_bytes_overflow := reasm_bytes_overflow st + 1\<rparr>"
  using assms unfolding store_fragment_if Let_def
  by (simp_all only: split: if_split_asm) (simp_all only: prod.inject, blast+)

lemma store_fragment_taken:
  assumes "store_fragment ref mx h n c st = (c', st', True)"
  shows "st' = st" and "unat (frag_index h) < unat (ctx_total_frags c)"
    and "\<not> ctx_received_fragments c (unat (frag_index h))"
    and "ctx_received_payload_bytes c + n \<le> mx" and "c' = stored_context ref n (unat (frag_index h)) c"
  using assms unfolding store_fragment_if Let_def
  by (simp_all add: not_le word_less_nat_alt split: if_split_asm)

lemma stored_context_ok:
  assumes inv: "ctx_inv cfg k c" and ref: "ref_ok ref n" and i: "i < unat (ctx_total_frags c)"
    and new: "\<not> ctx_received_fragments c i"
    and room: "ctx_received_payload_bytes c + n \<le> rc_max_reasm_bytes_per_key cfg"
  shows "ctx_ok cfg k (stored_context ref n i c)"
proof -
  let ?c = "stored_context ref n i c"
  have ok: "ctx_ok cfg k c" using inv by (simp add: ctx_inv_def)
  then have slots: "(if ctx_received_fragments c j \<and> 0 < ctx_fragment_sizes c ! j
      then ref_ok (ctx_fragment_refs c ! j) (ctx_fragment_sizes c ! j)
      else ctx_fragment_sizes c ! j = 0 \<and> \<not> has_data (ctx_fragment_refs c ! j))"
    if "j < unat (ctx_total_frags c)" for j
    using that by (simp add: ctx_ok_def)
  have len: "length (ctx_fragment_sizes c) = unat (ctx_total_frags c)"
      "length (ctx_fragment_refs c) = unat (ctx_total_frags c)" using ok by (simp_all add: ctx_ok_def)
  have zero: "ctx_fragment_sizes c ! i = 0" using slots [OF i] new by simp
  have "Collect ((ctx_received_fragments c)(i := True)) = insert i (Collect (ctx_received_fragments c))"
    by auto
  then have card: "card (Collect ((ctx_received_fragments c)(i := True))) = Suc (card (Collect (ctx_received_fragments c)))"
    using finite_received [OF ok] new by simp
  have "unat (ctx_received_count c) + 1 < 2 ^ LENGTH(16)"
    using inv unsigned_less [of "ctx_total_frags c", where ?'a = nat]
    by (simp add: ctx_inv_def word_less_nat_alt)
  then have cnt: "unat (ctx_received_count c + 1) = Suc (unat (ctx_received_count c))" by (rule unat_Suc_word)
  have sum: "sum_list ((ctx_fragment_sizes c)[i := n]) = sum_list (ctx_fragment_sizes c) + n"
    using i len zero by (simp add: sum_list_update)
  show ?thesis
    unfolding ctx_ok_def
  proof (intro conjI allI impI)
    fix j assume "j < unat (ctx_total_frags ?c)"
    then have j: "j < unat (ctx_total_frags c)" by (simp add: stored_context_def)
    show "if ctx_received_fragments ?c j \<and> 0 < ctx_fragment_sizes ?c ! j
        then ref_ok (ctx_fragment_refs ?c ! j) (ctx_fragment_sizes ?c ! j)
        else ctx_fragment_sizes ?c ! j = 0 \<and> \<not> has_data (ctx_fragment_refs ?c ! j)"
      using slots [OF j] slots [OF i] new ref i len by (simp add: stored_context_def nth_list_update)
  qed (use ok i room card cnt sum in \<open>auto simp: ctx_ok_def stored_context_def split: if_splits\<close>)
qed

lemma store_fragment_ok:
  assumes "ctx_inv cfg k c" and "ref_ok ref n"
    and "store_fragment ref (rc_max_reasm_bytes_per_key cfg) h n c st = (c', st', taken)"
  shows "ctx_ok cfg k c'"
proof (cases taken)
  case True
  then show ?thesis
    using store_fragment_taken [of ref _ h n c st c' st'] stored_context_ok [OF assms(1,2)] assms(3) by metis
next
  case False
  then show ?thesis
    using store_fragment_refused(1) [of ref "rc_max_reasm_bytes_per_key cfg" h n c st c' st'] assms
    by (simp add: ctx_inv_def)
qed

subsection \<open>The frozen keys\<close>

lemma length_is_key_frozen [simp]: "length (snd (is_key_frozen k t es)) = length es"
  by (induction es) simp_all

lemma is_key_frozen_iff:
  "fst (is_key_frozen k t es) \<longleftrightarrow> (\<exists>e \<in> set es. fk_valid e \<and> t < fk_expire_ms e \<and> fk_key e = k)"
  by (induction es) (auto simp: not_le)

lemma is_key_frozen_subset:
  "\<forall>e \<in> set (snd (is_key_frozen k' t es)). fk_valid e \<longrightarrow> e \<in> set es"
  by (induction es) auto

text \<open>A scan keeps every entry that is live at its time.\<close>

lemma is_key_frozen_keeps:
  assumes "t \<le> t'"
  shows "fst (is_key_frozen k' t' (snd (is_key_frozen k t es))) = fst (is_key_frozen k' t' es)"
  using assms by (induction es) (auto dest: order_trans)

lemma refresh_frozen_key_Some:
  assumes "refresh_frozen_key k x es = Some es'"
  shows "length es' = length es" and "\<exists>e \<in> set es'. fk_valid e \<and> fk_expire_ms e = x \<and> fk_key e = k"
  using assms by (induction es arbitrary: es') (auto split: if_splits)

lemma add_frozen_key_frame [simp]:
  "rsm_config (add_frozen_key k x r) = rsm_config r" "rsm_callback (add_frozen_key k x r) = rsm_callback r"
  "rsm_contexts (add_frozen_key k x r) = rsm_contexts r" "rsm_stats (add_frozen_key k x r) = rsm_stats r"
  "rsm_timeout_ms_runtime (add_frozen_key k x r) = rsm_timeout_ms_runtime r"
  by (simp_all add: add_frozen_key_def Let_def split: option.splits)

lemma add_frozen_key_ring:
  assumes "rsm_frozen_keys_next_insert r < length (rsm_frozen_keys_ring r)"
  shows "length (rsm_frozen_keys_ring (add_frozen_key k x r)) = length (rsm_frozen_keys_ring r)"
    and "rsm_frozen_keys_next_insert (add_frozen_key k x r) < length (rsm_frozen_keys_ring r)"
    and "t < x \<Longrightarrow> fst (is_key_frozen k t (rsm_frozen_keys_ring (add_frozen_key k x r)))"
proof -
  have "0 < length (rsm_frozen_keys_ring r)" using assms by linarith
  then show "length (rsm_frozen_keys_ring (add_frozen_key k x r)) = length (rsm_frozen_keys_ring r)"
    and "rsm_frozen_keys_next_insert (add_frozen_key k x r) < length (rsm_frozen_keys_ring r)"
    using assms by (auto simp: add_frozen_key_def Let_def refresh_frozen_key_Some split: option.splits)
  assume "t < x"
  then show "fst (is_key_frozen k t (rsm_frozen_keys_ring (add_frozen_key k x r)))"
    using assms refresh_frozen_key_Some(2) [of k x "rsm_frozen_keys_ring r"]
    unfolding is_key_frozen_iff
    by (auto simp: add_frozen_key_def Let_def split: option.splits intro!: bexI [OF _ set_update_memI])
qed

subsection \<open>Completion\<close>

definition completed_state :: "ReassemblyKey \<Rightarrow> ReassemblyContext \<Rightarrow> bool \<Rightarrow> u64 \<Rightarrow> Reassembler_state \<Rightarrow> Reassembler_state" where
  "completed_state key ctx is_timeout now_ms r =
     (let st = rsm_stats r; miss = rf_missing_fragments_count (assembled_frame (rsm_config r) key ctx);
          st1 = (if miss = 0 \<and> \<not> is_timeout then st\<lparr>frames_completed := frames_completed st + 1\<rparr>
                 else st\<lparr>frames_incomplete := frames_incomplete st + 1,
                        total_missing_fragments := total_missing_fragments st + ucast miss\<rparr>);
          r1 = r\<lparr>rsm_stats := st1\<rparr>;
          r2 = (if is_timeout then add_frozen_key key (now_ms + ucast (rsm_timeout_ms_runtime r)) r1 else r1)
      in r2\<lparr>rsm_contexts := AList.delete key (rsm_contexts r),
            rsm_stats := st1\<lparr>contexts_destroyed := contexts_destroyed st + 1\<rparr>\<rparr>)"

definition emitted :: "Reassembler_state \<Rightarrow> ReassembledFrame \<Rightarrow> ReassembledFrame list" where
  "emitted r frame = (if rsm_callback r then [frame] else [])"

lemma complete_reassembly_eq:
  assumes "unat (ctx_total_frags ctx) \<le> 1024" and "map_of (rsm_contexts r) key \<noteq> None"
  shows "complete_reassembly key ctx is_timeout now_ms r =
    Inr (completed_state key ctx is_timeout now_ms r, emitted r (assembled_frame (rsm_config r) key ctx))"
  using assms(2)
  by (auto simp: complete_reassembly_def frame_of_context_eq [OF assms(1)] completed_state_def emitted_def
      destroy_context_def Let_def split: option.splits)

lemma completed_state_frame [simp]:
  "rsm_config (completed_state key ctx to t r) = rsm_config r"
  "rsm_callback (completed_state key ctx to t r) = rsm_callback r"
  "rsm_timeout_ms_runtime (completed_state key ctx to t r) = rsm_timeout_ms_runtime r"
  "rsm_contexts (completed_state key ctx to t r) = AList.delete key (rsm_contexts r)"
  by (simp_all add: completed_state_def Let_def)

lemma completed_state_ring:
  assumes "rsm_frozen_keys_next_insert r < length (rsm_frozen_keys_ring r)"
  shows "length (rsm_frozen_keys_ring (completed_state key ctx to t r)) = length (rsm_frozen_keys_ring r)"
    and "rsm_frozen_keys_next_insert (completed_state key ctx to t r) < length (rsm_frozen_keys_ring r)"
proof -
  have "length (rsm_frozen_keys_ring (add_frozen_key k x (r\<lparr>rsm_stats := st\<rparr>))) = length (rsm_frozen_keys_ring r)"
    and "rsm_frozen_keys_next_insert (add_frozen_key k x (r\<lparr>rsm_stats := st\<rparr>)) < length (rsm_frozen_keys_ring r)" for k x st
    using add_frozen_key_ring(1,2) [of "r\<lparr>rsm_stats := st\<rparr>" k x] assms by simp_all
  then show "length (rsm_frozen_keys_ring (completed_state key ctx to t r)) = length (rsm_frozen_keys_ring r)"
    and "rsm_frozen_keys_next_insert (completed_state key ctx to t r) < length (rsm_frozen_keys_ring r)"
    using assms by (simp_all add: completed_state_def Let_def)
qed

text \<open>
  Between storing the last fragment and completion the context of one key may be complete; the rest
  of the invariant holds.
\<close>

definition reasm_inv_except :: "ReassemblyKey \<Rightarrow> Reassembler_state \<Rightarrow> bool" where
  "reasm_inv_except k0 r \<longleftrightarrow>
     rc_max_total_frags (rsm_config r) \<le> 1024 \<and> al_wf (rsm_contexts r) \<and>
     (\<forall>k c. k \<noteq> k0 \<longrightarrow> map_of (rsm_contexts r) k = Some c \<longrightarrow> ctx_inv (rsm_config r) k c) \<and>
     length (rsm_contexts r) \<le> rc_max_contexts (rsm_config r) \<and>
     length (rsm_frozen_keys_ring r) = max 1 (rc_max_contexts (rsm_config r) * 2) \<and>
     rsm_frozen_keys_next_insert r < length (rsm_frozen_keys_ring r)"

lemma reasm_inv_exceptI: "reasm_inv r \<Longrightarrow> reasm_inv_except k r"
  by (simp add: reasm_inv_def reasm_inv_except_def)

lemma reasm_inv_from_except:
  "reasm_inv_except k r \<Longrightarrow> (\<And>c. map_of (rsm_contexts r) k = Some c \<Longrightarrow> ctx_inv (rsm_config r) k c) \<Longrightarrow> reasm_inv r"
  unfolding reasm_inv_def reasm_inv_except_def by metis

lemma completed_state_inv:
  assumes "reasm_inv_except key r"
  shows "reasm_inv (completed_state key ctx to t r)"
proof (rule reasm_inv_from_except [of key])
  have rng: "rsm_frozen_keys_next_insert r < length (rsm_frozen_keys_ring r)"
    using assms by (simp add: reasm_inv_except_def)
  have "length (AList.delete key (rsm_contexts r)) \<le> length (rsm_contexts r)"
    by (rule length_delete_le)
  then show "reasm_inv_except key (completed_state key ctx to t r)"
    using assms completed_state_ring [OF rng] by (auto simp: reasm_inv_except_def delete_conv')
qed (simp add: delete_conv')

lemma ctx_total_frags_bound:
  "reasm_inv r \<Longrightarrow> map_of (rsm_contexts r) k = Some c \<Longrightarrow> unat (ctx_total_frags c) \<le> 1024"
  unfolding reasm_inv_def ctx_inv_def ctx_ok_def by (fastforce simp: word_le_nat_alt)

subsection \<open>Processing a packet\<close>

lemma extract_fragment_SomeD:
  assumes "extract_fragment cfg p = Some f" and "packet_ok p"
  shows "0 < total_frags (fr_specific f)" and "total_frags (fr_specific f) \<le> rc_max_total_frags cfg"
    and "frag_index (fr_specific f) < total_frags (fr_specific f)"
    and "fr_payload_size f \<le> length (fr_payload f)"
    and "is_tail_fragment (fr_specific f) \<Longrightarrow> fr_payload_size f = unat (tail_frag_payload_bytes (fr_specific f))"
    and "fr_snapshot f \<noteq> None \<longleftrightarrow> is_tail_fragment (fr_specific f)"
  using assms
  by (auto simp: extract_fragment_def parse_specific_header_def packet_ok_def Let_def not_less not_le
      word_gt_0 DATA_SPECIFIC_HEADER_SIZE_def EXECUTION_SNAPSHOT_SIZE_def
      split: option.splits if_splits)

lemma ref_ok_heap [simp]: "ref_ok (heap_ref bs n) n \<longleftrightarrow> n \<le> length bs"
  by (auto simp: ref_ok_def heap_ref_def Let_def)

lemma ref_ok_pool [simp]: "ref_ok (pool_ref buf bs n) n \<longleftrightarrow> n \<le> length bs"
  by (simp add: ref_ok_def pool_ref_def)

definition with_snapshot :: "ExecutionSnapshot option \<Rightarrow> ReassemblyContext \<Rightarrow> ReassemblyContext" where
  "with_snapshot s c = (case s of None \<Rightarrow> c | Some s \<Rightarrow> c\<lparr>ctx_execution_snapshot := s, ctx_has_execution_snapshot := True\<rparr>)"

lemma ctx_inv_with_snapshot [simp]: "ctx_inv cfg k (with_snapshot s c) = ctx_inv cfg k c"
  by (auto simp: with_snapshot_def ctx_inv_def split: option.splits)

lemma with_snapshot_frame [simp]:
  "ctx_total_frags (with_snapshot s c) = ctx_total_frags c"
  by (simp add: with_snapshot_def split: option.splits)

text \<open>The state and context on which \<open>process_fragment\<close> stores the fragment.\<close>

definition scanned :: "ReassemblyKey \<Rightarrow> u64 \<Rightarrow> Reassembler_state \<Rightarrow> Reassembler_state" where
  "scanned k t r = r\<lparr>rsm_frozen_keys_ring := snd (is_key_frozen k t (rsm_frozen_keys_ring r))\<rparr>"

lemma scanned_frame [simp]:
  "rsm_config (scanned k t r) = rsm_config r" "rsm_callback (scanned k t r) = rsm_callback r"
  "rsm_contexts (scanned k t r) = rsm_contexts r" "rsm_stats (scanned k t r) = rsm_stats r"
  "rsm_timeout_ms_runtime (scanned k t r) = rsm_timeout_ms_runtime r"
  "rsm_frozen_keys_next_insert (scanned k t r) = rsm_frozen_keys_next_insert r"
  "length (rsm_frozen_keys_ring (scanned k t r)) = length (rsm_frozen_keys_ring r)"
  by (simp_all add: scanned_def)

lemma scanned_inv [simp]: "reasm_inv (scanned k t r) = reasm_inv r"
  by (simp add: reasm_inv_def)

lemma count_fragment_frame [simp]:
  "rsm_config (count_fragment r) = rsm_config r" "rsm_callback (count_fragment r) = rsm_callback r"
  "rsm_contexts (count_fragment r) = rsm_contexts r"
  "rsm_frozen_keys_ring (count_fragment r) = rsm_frozen_keys_ring r"
  "rsm_frozen_keys_next_insert (count_fragment r) = rsm_frozen_keys_next_insert r"
  "rsm_timeout_ms_runtime (count_fragment r) = rsm_timeout_ms_runtime r"
  by (simp_all add: count_fragment_def)

lemma count_fragment_inv [simp]: "reasm_inv (count_fragment r) = reasm_inv r"
  by (simp add: reasm_inv_def)

definition store_and_complete ::
  "FragmentRef \<Rightarrow> ReassemblyKey \<Rightarrow> fragment \<Rightarrow> ReassemblyContext \<Rightarrow> Reassembler_state \<Rightarrow>
     reasm_error + Reassembler_state \<times> ReassembledFrame list" where
  "store_and_complete ref key f ctx r =
     (case store_fragment ref (rc_max_reasm_bytes_per_key (rsm_config r)) (fr_specific f) (fr_payload_size f)
             (with_snapshot (fr_snapshot f) ctx) (rsm_stats r) of
        (ctx2, st2, taken) \<Rightarrow>
          let r3 = r\<lparr>rsm_contexts := AList.update key ctx2 (rsm_contexts r), rsm_stats := st2\<rparr>
          in if \<not> taken then Inr (r3, [])
             else if check_complete ctx2 then complete_reassembly key ctx2 False 0 r3
             else Inr (r3, []))"

lemma process_fragment_eq:
  assumes "\<And>mx c st. add mx (fr_specific f) (fr_payload f) (fr_payload_size f) c st =
      store_fragment ref mx (fr_specific f) (fr_payload_size f) c st"
  shows "process_fragment add common f t r =
     (let key = extract_key common (fr_specific f); r1 = scanned key t r in
      if fst (is_key_frozen key t (rsm_frozen_keys_ring r))
      then Inr (r1\<lparr>rsm_stats := (rsm_stats r1)\<lparr>late_fragments := late_fragments (rsm_stats r1) + 1\<rparr>\<rparr>, [])
      else case get_or_create_context key (total_frags (fr_specific f)) (tail_frag_payload_bytes (fr_specific f))
                  (data_timestamp (fr_specific f)) t r1 of
             (None, r2) \<Rightarrow> Inr (r2, [])
           | (Some ctx, r2) \<Rightarrow> store_and_complete ref key f ctx r2)"
  unfolding process_fragment_def assms store_and_complete_def with_snapshot_def scanned_def Let_def
  by (simp split: prod.split)

lemma get_or_create_None:
  assumes "get_or_create_context k tf tail ts t r = (None, r')"
  shows "r' = r\<lparr>rsm_stats := (rsm_stats r)\<lparr>contexts_overflow := contexts_overflow (rsm_stats r) + 1\<rparr>\<rparr>"
    and "map_of (rsm_contexts r) k = None" and "length (rsm_contexts r) \<ge> rc_max_contexts (rsm_config r)"
  using assms by (auto simp: get_or_create_context_def Let_def split: option.splits if_splits)

lemma get_or_create_Some:
  assumes "get_or_create_context k tf tail ts t r = (Some c, r')" and "reasm_inv r"
    and "0 < tf" and "tf \<le> rc_max_total_frags (rsm_config r)"
  shows "reasm_inv r'" and "map_of (rsm_contexts r') k = Some c" and "rsm_config r' = rsm_config r"
    and "rsm_callback r' = rsm_callback r"
proof -
  have "reasm_inv r' \<and> map_of (rsm_contexts r') k = Some c \<and> rsm_config r' = rsm_config r \<and> rsm_callback r' = rsm_callback r"
  proof (cases "map_of (rsm_contexts r) k")
    case None
    with assms(1) have c: "c = fresh_context k tf tail ts t" and lt: "length (rsm_contexts r) < rc_max_contexts (rsm_config r)"
      and r': "r' = r\<lparr>rsm_contexts := AList.update k c (rsm_contexts r),
        rsm_stats := (rsm_stats r)\<lparr>contexts_created := contexts_created (rsm_stats r) + 1\<rparr>\<rparr>"
      by (auto simp: get_or_create_context_def Let_def split: if_splits)
    have "ctx_inv (rsm_config r) k c" unfolding c by (rule fresh_context_inv [OF assms(3,4)])
    then show ?thesis
      using assms(2) None lt unfolding r' by (auto simp: reasm_inv_def update_conv' al_length_update)
  qed (use assms in \<open>auto simp: get_or_create_context_def\<close>)
  then show "reasm_inv r'" and "map_of (rsm_contexts r') k = Some c" and "rsm_config r' = rsm_config r"
    and "rsm_callback r' = rsm_callback r" by auto
qed

text \<open>
  An operation on behalf of one key leaves the contexts of all others alone, freezes nothing and
  emits frames of that key only.
\<close>

definition touches_only ::
  "ReassemblyKey \<Rightarrow> Reassembler_state \<Rightarrow> Reassembler_state \<Rightarrow> ReassembledFrame list \<Rightarrow> bool" where
  "touches_only key r r' out \<longleftrightarrow>
     rsm_config r' = rsm_config r \<and> rsm_callback r' = rsm_callback r \<and>
     rsm_timeout_ms_runtime r' = rsm_timeout_ms_runtime r \<and>
     (\<forall>k. k \<noteq> key \<longrightarrow> map_of (rsm_contexts r') k = map_of (rsm_contexts r) k) \<and>
     (\<forall>e \<in> set (rsm_frozen_keys_ring r'). fk_valid e \<longrightarrow> e \<in> set (rsm_frozen_keys_ring r)) \<and>
     (\<forall>frame \<in> set out. rf_key frame = key)"

lemma touches_only_trans:
  "touches_only key r r1 [] \<Longrightarrow> touches_only key r1 r2 out \<Longrightarrow> touches_only key r r2 out"
  by (auto simp: touches_only_def)

lemma touches_only_scanned: "touches_only key r (scanned key t r) []"
  using is_key_frozen_subset by (auto simp: touches_only_def scanned_def)

lemma touches_only_count: "touches_only key r (count_fragment r) []"
  by (simp add: touches_only_def count_fragment_def)

lemma touches_only_stats: "touches_only key r (r\<lparr>rsm_stats := st\<rparr>) []"
  by (simp add: touches_only_def)

lemma touches_only_create:
  "get_or_create_context k tf tail ts t r = (co, r') \<Longrightarrow> touches_only k r r' []"
  by (auto simp: touches_only_def get_or_create_context_def Let_def update_conv' split: option.splits if_splits)

lemma completed_ring_untimed [simp]:
  "rsm_frozen_keys_ring (completed_state k c False t r) = rsm_frozen_keys_ring r"
  by (simp add: completed_state_def Let_def)

lemma rf_key_emitted: "\<forall>frame \<in> set (emitted r (assembled_frame cfg k c)). rf_key frame = k"
  by (simp add: emitted_def assembled_frame_def Let_def)

lemma store_and_complete_inv:
  assumes "reasm_inv r" and "map_of (rsm_contexts r) key = Some ctx" and "ref_ok ref (fr_payload_size f)"
  shows "\<exists>r' out. store_and_complete ref key f ctx r = Inr (r', out) \<and> reasm_inv r' \<and> touches_only key r r' out"
proof -
  let ?cfg = "rsm_config r"
  obtain c2 st2 taken where s: "store_fragment ref (rc_max_reasm_bytes_per_key ?cfg) (fr_specific f) (fr_payload_size f)
      (with_snapshot (fr_snapshot f) ctx) (rsm_stats r) = (c2, st2, taken)" by (metis prod_cases3)
  let ?r3 = "r\<lparr>rsm_contexts := AList.update key c2 (rsm_contexts r), rsm_stats := st2\<rparr>"
  have inv: "ctx_inv ?cfg key (with_snapshot (fr_snapshot f) ctx)"
    using assms(1,2) by (simp add: reasm_inv_def)
  have ok: "ctx_ok ?cfg key c2" by (rule store_fragment_ok [OF inv assms(3) s])
  have ex: "reasm_inv_except key ?r3"
    using assms(1,2) by (auto simp: reasm_inv_def reasm_inv_except_def update_conv' al_length_update)
  have inv3: "reasm_inv ?r3" if "ctx_received_count c2 < ctx_total_frags c2"
    by (rule reasm_inv_from_except [OF ex]) (use ok that in \<open>simp add: update_conv' ctx_inv_def\<close>)
  have b: "unat (ctx_total_frags c2) \<le> 1024"
    using ok assms(1) by (fastforce simp: ctx_ok_def reasm_inv_def word_le_nat_alt)
  have comp: "complete_reassembly key c2 False 0 ?r3 = Inr (completed_state key c2 False 0 ?r3,
      emitted ?r3 (assembled_frame ?cfg key c2))"
    using complete_reassembly_eq [OF b, of ?r3 key False 0] by (simp add: update_conv')
  show ?thesis
  proof (cases "taken \<and> check_complete c2")
    case True
    then show ?thesis
      using completed_state_inv [OF ex, of c2 False 0] rf_key_emitted
      by (simp add: store_and_complete_def s Let_def comp touches_only_def update_conv' delete_conv')
  next
    case False
    then have "ctx_received_count c2 < ctx_total_frags c2"
    proof (cases taken)
      case True
      then show ?thesis
        using False received_count_le [OF ok] by (auto simp: check_complete_def word_le_nat_alt [symmetric])
    next
      case nt: False
      then have "c2 = with_snapshot (fr_snapshot f) ctx" using store_fragment_refused(1) s by (metis (full_types))
      then show ?thesis using inv by (simp add: ctx_inv_def)
    qed
    with inv3 False show ?thesis by (simp add: store_and_complete_def s Let_def touches_only_def update_conv')
  qed
qed

lemma process_fragment_inv:
  assumes "reasm_inv r" and "extract_fragment (rsm_config r) p = Some f" and "packet_ok p"
    and "\<And>mx c st. add mx (fr_specific f) (fr_payload f) (fr_payload_size f) c st =
      store_fragment ref mx (fr_specific f) (fr_payload_size f) c st"
    and "ref_ok ref (fr_payload_size f)"
  shows "\<exists>r' out. process_fragment add common f t r = Inr (r', out) \<and> reasm_inv r' \<and>
      touches_only (extract_key common (fr_specific f)) r r' out"
proof -
  let ?key = "extract_key common (fr_specific f)"
  let ?r1 = "scanned ?key t r"
  note frag = extract_fragment_SomeD [OF assms(2,3)]
  note eq = process_fragment_eq [of add f ref, OF assms(4), of common t r, unfolded Let_def]
  show ?thesis
  proof (cases "fst (is_key_frozen ?key t (rsm_frozen_keys_ring r))")
    case True
    then show ?thesis
      using assms(1) touches_only_trans [OF touches_only_scanned touches_only_stats]
      by (simp add: eq reasm_inv_def)
  next
    case False
    obtain co r2 where g: "get_or_create_context ?key (total_frags (fr_specific f))
        (tail_frag_payload_bytes (fr_specific f)) (data_timestamp (fr_specific f)) t ?r1 = (co, r2)"
      by fastforce
    have touch: "touches_only ?key r r2 []"
      by (rule touches_only_trans [OF touches_only_scanned touches_only_create [OF g]])
    show ?thesis
    proof (cases co)
      case None
      from get_or_create_None(1) [OF g [unfolded None]] assms(1) have "reasm_inv r2" by (simp add: reasm_inv_def)
      with touch show ?thesis using g None False by (simp add: eq)
    next
      case (Some c)
      have "reasm_inv r2" and "map_of (rsm_contexts r2) ?key = Some c"
        using get_or_create_Some [OF g [unfolded Some] _ frag(1)] assms(1) frag(2) by simp_all
      from store_and_complete_inv [OF this assms(5)] touch g Some False show ?thesis
        by (auto simp: eq intro: touches_only_trans)
    qed
  qed
qed

lemma process_packet_inv:
  assumes "reasm_inv r" and "packet_ok p" and "extract_fragment (rsm_config r) p = Some f"
  shows "\<exists>r' out. process_packet p t r = Inr (r', out) \<and> reasm_inv r' \<and>
      touches_only (extract_key (header p) (fr_specific f)) r r' out"
    and "\<exists>r' out. process_packet_zero_copy p buf t r = Inr (r', out) \<and> reasm_inv r' \<and>
      touches_only (extract_key (header p) (fr_specific f)) r r' out"
proof -
  let ?r = "count_fragment r" and ?key = "extract_key (header p) (fr_specific f)"
  have f: "extract_fragment (rsm_config ?r) p = Some f" using assms(3) by simp
  have "\<exists>r' out. process_fragment add_fragment (header p) f t ?r = Inr (r', out) \<and> reasm_inv r' \<and> touches_only ?key ?r r' out"
    by (rule process_fragment_inv [OF _ f, where ref = "heap_ref (fr_payload f) (fr_payload_size f)"])
       (use extract_fragment_SomeD(4) [OF f assms(2)] assms in \<open>simp_all add: add_fragment_def\<close>)
  moreover
  have "\<exists>r' out. process_fragment (add_fragment_zero_copy buf) (header p) f t ?r = Inr (r', out) \<and> reasm_inv r' \<and> touches_only ?key ?r r' out"
    by (rule process_fragment_inv [OF _ f, where ref = "pool_ref buf (fr_payload f) (fr_payload_size f)"])
       (use extract_fragment_SomeD(4) [OF f assms(2)] assms in \<open>simp_all add: add_fragment_zero_copy_def\<close>)
  ultimately show "\<exists>r' out. process_packet p t r = Inr (r', out) \<and> reasm_inv r' \<and> touches_only ?key r r' out"
    and "\<exists>r' out. process_packet_zero_copy p buf t r = Inr (r', out) \<and> reasm_inv r' \<and> touches_only ?key r r' out"
    using assms touches_only_trans [OF touches_only_count]
    by (fastforce simp: process_packet_def process_packet_zero_copy_def)+
qed

lemma process_packet_split:
  assumes "extract_fragment (rsm_config r) p = Some f"
    and "extract_key (header p) (fr_specific f) = k"
    and "\<not> fst (is_key_frozen k t (rsm_frozen_keys_ring r))"
  shows "process_packet p t r =
     (case get_or_create_context k (total_frags (fr_specific f)) (tail_frag_payload_bytes (fr_specific f))
             (data_timestamp (fr_specific f)) t (scanned k t (count_fragment r)) of
        (None, r2) \<Rightarrow> Inr (r2, [])
      | (Some ctx, r2) \<Rightarrow> store_and_complete (heap_ref (fr_payload f) (fr_payload_size f)) k f ctx r2)"
  using assms process_fragment_eq [of add_fragment f "heap_ref (fr_payload f) (fr_payload_size f)" "header p" t "count_fragment r"]
  by (simp add: process_packet_def Let_def add_fragment_def)

lemma process_packet_frozen:
  assumes "extract_fragment (rsm_config r) p = Some f"
    and "extract_key (header p) (fr_specific f) = k"
    and "fst (is_key_frozen k t (rsm_frozen_keys_ring r))"
  shows "process_packet p t r =
     (let r1 = scanned k t (count_fragment r)
      in Inr (r1\<lparr>rsm_stats := (rsm_stats r1)\<lparr>late_fragments := late_fragments (rsm_stats r1) + 1\<rparr>\<rparr>, []))"
  using assms process_fragment_eq [of add_fragment f "heap_ref (fr_payload f) (fr_payload_size f)" "header p" t "count_fragment r"]
  by (simp add: process_packet_def Let_def add_fragment_def)

lemma process_packet_dropped:
  assumes "extract_fragment (rsm_config r) p = None"
  shows "process_packet p t r = Inr (count_fragment r, [])"
    and "process_packet_zero_copy p buf t r = Inr (count_fragment r, [])"
  using assms by (simp_all add: process_packet_def process_packet_zero_copy_def)

subsection \<open>Timeouts and flushing\<close>

lemma complete_keys_eq:
  assumes "reasm_inv r" and "distinct ks" and "set ks \<subseteq> fst ` set (rsm_contexts r)"
  shows "\<exists>r'. complete_keys ks clk r =
      Inr (r', concat (map (\<lambda>k. emitted r (assembled_frame (rsm_config r) k (the (map_of (rsm_contexts r) k)))) ks)) \<and>
      reasm_inv r' \<and> rsm_contexts r' = filter (\<lambda>kc. fst kc \<notin> set ks) (rsm_contexts r) \<and>
      rsm_config r' = rsm_config r \<and> rsm_callback r' = rsm_callback r"
  using assms
proof (induction ks arbitrary: r clk)
  case Nil
  then show ?case by simp
next
  case (Cons k ks)
  from Cons.prems(3) have "map_of (rsm_contexts r) k \<noteq> None" by (auto simp: map_of_eq_None_iff)
  then obtain c where c: "map_of (rsm_contexts r) k = Some c" by blast
  let ?r = "completed_state k c True (clk 0) r"
  have step: "complete_reassembly k c True (clk 0) r = Inr (?r, emitted r (assembled_frame (rsm_config r) k c))"
    using complete_reassembly_eq [OF ctx_total_frags_bound [OF Cons.prems(1) c]] c by simp
  have "reasm_inv ?r" by (rule completed_state_inv [OF reasm_inv_exceptI [OF Cons.prems(1)]])
  moreover have "distinct ks" and "set ks \<subseteq> fst ` set (rsm_contexts ?r)" using Cons.prems(2,3) by auto
  ultimately obtain r' where r':
    "complete_keys ks (\<lambda>n. clk (Suc n)) ?r =
      Inr (r', concat (map (\<lambda>k. emitted ?r (assembled_frame (rsm_config ?r) k (the (map_of (rsm_contexts ?r) k)))) ks))"
    "reasm_inv r'" "rsm_contexts r' = filter (\<lambda>kc. fst kc \<notin> set ks) (rsm_contexts ?r)"
    "rsm_config r' = rsm_config ?r" "rsm_callback r' = rsm_callback ?r"
    using Cons.IH by blast
  have outs: "map (\<lambda>k. emitted ?r (assembled_frame (rsm_config ?r) k (the (map_of (rsm_contexts ?r) k)))) ks =
      map (\<lambda>k. emitted r (assembled_frame (rsm_config r) k (the (map_of (rsm_contexts r) k)))) ks"
    using Cons.prems(2) by (auto simp: emitted_def delete_conv')
  have "filter (\<lambda>kc. fst kc \<notin> set ks) (AList.delete k (rsm_contexts r)) =
      filter (\<lambda>kc. fst kc \<notin> set (k # ks)) (rsm_contexts r)"
    by (induction "rsm_contexts r") (auto simp: AList.delete_eq intro: filter_cong)
  then show ?case using r'(2-5) r'(1) [unfolded outs] c step by simp
qed

definition timed_out :: "u64 \<Rightarrow> Reassembler_state \<Rightarrow> ReassemblyKey \<times> ReassemblyContext \<Rightarrow> bool" where
  "timed_out t r kc \<longleftrightarrow> check_timeout (snd kc) t (rsm_timeout_ms_runtime r)"

lemma check_timeouts_eq:
  assumes "reasm_inv r"
  shows "\<exists>r'. check_timeouts t clk r =
      Inr (r', concat (map (\<lambda>(k, c). emitted r (assembled_frame (rsm_config r) k c))
                 (filter (timed_out t r) (rsm_contexts r)))) \<and>
      reasm_inv r' \<and> rsm_contexts r' = filter (\<lambda>kc. \<not> timed_out t r kc) (rsm_contexts r)"
proof -
  let ?out = "filter (timed_out t r) (rsm_contexts r)" and ?ks = "map fst (filter (timed_out t r) (rsm_contexts r))"
  have wf: "distinct (map fst (rsm_contexts r))" using assms by (simp add: reasm_inv_def al_wf_def)
  have mo: "map_of (rsm_contexts r) k = Some c" if "(k, c) \<in> set (rsm_contexts r)" for k c
    using that wf by simp
  obtain r' where r': "complete_keys ?ks clk r =
      Inr (r', concat (map (\<lambda>k. emitted r (assembled_frame (rsm_config r) k (the (map_of (rsm_contexts r) k)))) ?ks))"
    "reasm_inv r'" "rsm_contexts r' = filter (\<lambda>kc. fst kc \<notin> set ?ks) (rsm_contexts r)"
    using complete_keys_eq [OF assms, of ?ks clk] wf by (auto simp: distinct_map_filter)
  have outs: "map (\<lambda>k. emitted r (assembled_frame (rsm_config r) k (the (map_of (rsm_contexts r) k)))) ?ks =
      map (\<lambda>(k, c). emitted r (assembled_frame (rsm_config r) k c)) ?out"
    using mo by auto
  have "filter (\<lambda>kc. fst kc \<notin> set ?ks) (rsm_contexts r) = filter (\<lambda>kc. \<not> timed_out t r kc) (rsm_contexts r)"
  proof (rule filter_cong [OF refl])
    fix kc assume kc: "kc \<in> set (rsm_contexts r)"
    have "inj_on fst (set (rsm_contexts r))" using wf by (simp add: distinct_map)
    then show "fst kc \<notin> set ?ks \<longleftrightarrow> \<not> timed_out t r kc"
      using kc by (auto dest: inj_onD)
  qed
  moreover have "check_timeouts t clk r = complete_keys ?ks clk r"
    by (simp add: check_timeouts_def timed_out_def [abs_def])
  ultimately show ?thesis using r'(2,3) r'(1) [unfolded outs] by auto
qed

subsection \<open>The contents of a frame\<close>

lemma slot_present_ref:
  assumes "ctx_ok cfg k c" and "slot_present c i"
  shows "ref_ok (ctx_fragment_refs c ! i) (ctx_fragment_sizes c ! i)" and "0 < ctx_fragment_sizes c ! i"
proof -
  have "i < unat (ctx_total_frags c)" using assms by (auto simp: slot_present_def ctx_ok_def)
  with assms show "ref_ok (ctx_fragment_refs c ! i) (ctx_fragment_sizes c ! i)" and "0 < ctx_fragment_sizes c ! i"
    unfolding slot_present_def ctx_ok_def by metis+
qed

lemma slot_present_iff:
  assumes "ctx_ok cfg k c" and "i < unat (ctx_total_frags c)"
  shows "slot_present c i \<longleftrightarrow> ctx_received_fragments c i \<and> 0 < ctx_fragment_sizes c ! i"
  using assms unfolding slot_present_def ctx_ok_def has_data_def ref_ok_def by metis

lemma length_slot_bytes:
  "ctx_ok cfg k c \<Longrightarrow> length (slot_bytes cfg' c cc dt i) = slot_size cfg' c cc dt i"
  using slot_present_ref [of cfg k c i] by (auto simp: slot_bytes_def slot_size_def ref_ok_def)

lemma length_assembled_frame:
  "ctx_ok cfg k c \<Longrightarrow> length (rf_data (assembled_frame cfg' k c)) = rf_total_size (assembled_frame cfg' k c)"
  by (simp add: assembled_frame_def Let_def length_concat comp_def length_slot_bytes)

lemma missing_count:
  assumes "ctx_ok cfg k c"
  shows "unat (rf_missing_fragments_count (assembled_frame cfg' k c)) = length (rf_missing_frag_indices (assembled_frame cfg' k c))"
proof -
  let ?n = "unat (ctx_total_frags c)"
  have "length (filter (\<lambda>i. \<not> slot_present c i) [0..<?n]) \<le> ?n"
    using length_filter_le [of _ "[0..<?n]"] by (metis diff_zero length_upt)
  then have "length (filter (\<lambda>i. \<not> slot_present c i) [0..<?n]) < 2 ^ 16"
    using unsigned_less [of "ctx_total_frags c", where ?'a = nat] by simp
  then show ?thesis by (simp add: assembled_frame_def Let_def unat_of_nat take_bit_nat_eq_self)
qed

subsection \<open>Accounting\<close>

definition ctx_balance :: "Reassembler_state \<Rightarrow> u64" where
  "ctx_balance r = contexts_created (rsm_stats r) - contexts_destroyed (rsm_stats r) - word_of_nat (length (rsm_contexts r))"

lemma completed_state_balance:
  assumes "al_wf (rsm_contexts r)" and "map_of (rsm_contexts r) k \<noteq> None"
  shows "ctx_balance (completed_state k c to t r) = ctx_balance r"
proof -
  have "contexts_created (rsm_stats (completed_state k c to t r)) = contexts_created (rsm_stats r)"
    and "contexts_destroyed (rsm_stats (completed_state k c to t r)) = contexts_destroyed (rsm_stats r) + 1"
    by (simp_all add: completed_state_def Let_def)
  moreover have "0 < length (rsm_contexts r)" using assms(2) by (cases "rsm_contexts r") auto
  then have "length (rsm_contexts r) = Suc (length (rsm_contexts (completed_state k c to t r)))"
    using assms by (auto simp: al_length_delete)
  ultimately show ?thesis by (simp add: ctx_balance_def)
qed

lemma store_and_complete_balance:
  assumes "reasm_inv r" and "map_of (rsm_contexts r) key = Some ctx" and "ref_ok ref (fr_payload_size f)"
    and "store_and_complete ref key f ctx r = Inr (r', out)"
  shows "ctx_balance r' = ctx_balance r"
proof -
  obtain c2 st2 taken where s: "store_fragment ref (rc_max_reasm_bytes_per_key (rsm_config r)) (fr_specific f) (fr_payload_size f)
      (with_snapshot (fr_snapshot f) ctx) (rsm_stats r) = (c2, st2, taken)" by (metis prod_cases3)
  let ?r3 = "r\<lparr>rsm_contexts := AList.update key c2 (rsm_contexts r), rsm_stats := st2\<rparr>"
  have "contexts_created st2 = contexts_created (rsm_stats r)" "contexts_destroyed st2 = contexts_destroyed (rsm_stats r)"
    using s by (cases taken; use store_fragment_refused(2) store_fragment_taken(1) in fastforce)+
  then have bal: "ctx_balance ?r3 = ctx_balance r" using assms(2) by (simp add: ctx_balance_def al_length_update)
  have inv: "ctx_inv (rsm_config r) key (with_snapshot (fr_snapshot f) ctx)"
    using assms(1,2) by (simp add: reasm_inv_def)
  have "ctx_ok (rsm_config r) key c2" by (rule store_fragment_ok [OF inv assms(3) s])
  then have b: "unat (ctx_total_frags c2) \<le> 1024"
    using assms(1) by (fastforce simp: ctx_ok_def reasm_inv_def word_le_nat_alt)
  have wf: "al_wf (rsm_contexts ?r3)" using assms(1) by (simp add: reasm_inv_def)
  show ?thesis
    using assms(4) bal complete_reassembly_eq [OF b, of ?r3 key False 0] completed_state_balance [OF wf, of key c2 False 0]
    by (auto simp: store_and_complete_def s Let_def update_conv' split: if_splits)
qed

lemma get_or_create_balance:
  "get_or_create_context k tf tail ts t r = (co, r') \<Longrightarrow> ctx_balance r' = ctx_balance r"
  by (auto simp: get_or_create_context_def Let_def ctx_balance_def al_length_update split: option.splits if_splits)

lemma process_packet_balance:
  assumes "reasm_inv r" and "packet_ok p" and "process_packet p t r = Inr (r', out)"
  shows "ctx_balance r' = ctx_balance r"
proof (cases "extract_fragment (rsm_config r) p")
  case None
  then show ?thesis using assms by (auto simp: process_packet_dropped ctx_balance_def count_fragment_def)
next
  case (Some f)
  let ?key = "extract_key (header p) (fr_specific f)" and ?ref = "heap_ref (fr_payload f) (fr_payload_size f)"
  let ?r1 = "scanned ?key t (count_fragment r)"
  note frag = extract_fragment_SomeD [OF Some assms(2)]
  have b1: "ctx_balance ?r1 = ctx_balance r" by (simp add: ctx_balance_def) (simp add: count_fragment_def)
  obtain co r2 where g: "get_or_create_context ?key (total_frags (fr_specific f))
      (tail_frag_payload_bytes (fr_specific f)) (data_timestamp (fr_specific f)) t ?r1 = (co, r2)" by fastforce
  have ok: "ref_ok ?ref (fr_payload_size f)" using frag(4) by simp
  show ?thesis
  proof (cases "fst (is_key_frozen ?key t (rsm_frozen_keys_ring r))")
    case True
    from process_packet_frozen [OF Some refl True] assms(3) b1 show ?thesis
      by (auto simp: Let_def ctx_balance_def)
  next
    case False
    note split = process_packet_split [OF Some refl False]
    show ?thesis
    proof (cases co)
      case None
      then show ?thesis using split assms(3) g b1 get_or_create_balance [OF g] by simp
    next
      case c: (Some c)
      have r2: "reasm_inv r2" "map_of (rsm_contexts r2) ?key = Some c"
        using get_or_create_Some [OF g [unfolded c] _ frag(1)] assms(1) frag(2) by simp_all
      have "store_and_complete ?ref ?key f c r2 = Inr (r', out)" using split assms(3) g c by simp
      from store_and_complete_balance [OF r2 ok this] b1 get_or_create_balance [OF g] show ?thesis by simp
    qed
  qed
qed

lemma complete_keys_balance:
  "reasm_inv r \<Longrightarrow> complete_keys ks clk r = Inr (r', out) \<Longrightarrow> ctx_balance r' = ctx_balance r"
proof (induction ks arbitrary: r clk out)
  case (Cons k ks)
  show ?case
  proof (cases "map_of (rsm_contexts r) k")
    case None
    then show ?thesis using Cons by simp
  next
    case (Some c)
    have wf: "al_wf (rsm_contexts r)" using Cons.prems(1) by (simp add: reasm_inv_def)
    have step: "complete_reassembly k c True (clk 0) r = Inr (completed_state k c True (clk 0) r, emitted r (assembled_frame (rsm_config r) k c))"
      using complete_reassembly_eq [OF ctx_total_frags_bound [OF Cons.prems(1) Some]] Some by simp
    have inv: "reasm_inv (completed_state k c True (clk 0) r)"
      by (rule completed_state_inv [OF reasm_inv_exceptI [OF Cons.prems(1)]])
    from Cons.prems(2) Some step obtain out' where
      "complete_keys ks (\<lambda>n. clk (Suc n)) (completed_state k c True (clk 0) r) = Inr (r', out')"
      by (cases "complete_keys ks (\<lambda>n. clk (Suc n)) (completed_state k c True (clk 0) r)") auto
    from Cons.IH [OF inv this] completed_state_balance [OF wf, of k] Some show ?thesis by simp
  qed
qed simp

end
