(* ===== verification/Reassembly_Order.thy ===== *)
theory Reassembly_Order
  imports Reassembly
begin

text \<open>
  What sequences of packets produce.  \<open>frame_spec\<close> describes a frame as its sender sees it: the key,
  the payload of each fragment, the snapshot and the time stamp.  A packet carries fragment \<open>i\<close> of
  it when the fields the reassembler reads say so.  The main lemma follows the context of one key
  through an arbitrary packet sequence: fragments in any order, duplicates, packets of other frames
  and malformed packets in between.
\<close>

record frame_spec =
  fs_key :: ReassemblyKey
  fs_payloads :: "bytes list"
  fs_snapshot :: ExecutionSnapshot
  fs_timestamp :: u64

definition fs_wf :: "ReassemblerConfig \<Rightarrow> frame_spec \<Rightarrow> bool" where
  "fs_wf cfg F \<longleftrightarrow>
     0 < length (fs_payloads F) \<and> length (fs_payloads F) \<le> unat (rc_max_total_frags cfg) \<and>
     list_all (\<lambda>pl. pl \<noteq> []) (fs_payloads F) \<and> length (last (fs_payloads F)) < 2 ^ 16 \<and>
     (\<Sum>pl \<leftarrow> fs_payloads F. length pl) \<le> rc_max_reasm_bytes_per_key cfg"

definition fragment_key :: "ReassemblerConfig \<Rightarrow> ParsedPacket \<Rightarrow> ReassemblyKey option" where
  "fragment_key cfg p = map_option (\<lambda>f. extract_key (header p) (fr_specific f)) (extract_fragment cfg p)"

definition carries :: "ReassemblerConfig \<Rightarrow> frame_spec \<Rightarrow> ParsedPacket \<Rightarrow> nat \<Rightarrow> bool" where
  "carries cfg F p i \<longleftrightarrow>
     (case extract_fragment cfg p of
        None \<Rightarrow> False
      | Some f \<Rightarrow>
          let h = fr_specific f; n = length (fs_payloads F) in
          extract_key (header p) h = fs_key F \<and> i < n \<and> unat (frag_index h) = i \<and> unat (total_frags h) = n \<and>
          unat (tail_frag_payload_bytes h) = length (last (fs_payloads F)) \<and>
          data_timestamp h = fs_timestamp F \<and> fr_payload_size f = length (fs_payloads F ! i) \<and>
          take (fr_payload_size f) (fr_payload f) = fs_payloads F ! i \<and>
          fr_snapshot f = (if i + 1 = n then Some (fs_snapshot F) else None))"

text \<open>The frame the sender meant.\<close>

definition fs_frame :: "frame_spec \<Rightarrow> ReassembledFrame" where
  "fs_frame F =
     \<lparr>rf_key = fs_key F, rf_data = concat (fs_payloads F), rf_total_size = length (concat (fs_payloads F)),
      rf_data_timestamp = fs_timestamp F, rf_execution_snapshot = fs_snapshot F,
      rf_has_execution_snapshot = True, rf_is_complete = True, rf_missing_fragments_count = 0,
      rf_missing_frag_indices = []\<rparr>"

text \<open>A run of the receive loop over packets with their arrival times.\<close>

fun run_packets ::
  "(ParsedPacket \<times> u64) list \<Rightarrow> Reassembler_state \<Rightarrow> reasm_error + Reassembler_state \<times> ReassembledFrame list" where
  "run_packets [] r = Inr (r, [])"
| "run_packets ((p, t) # pts) r =
     (case process_packet p t r of
        Inl e \<Rightarrow> Inl e
      | Inr (r', out) \<Rightarrow> map_sum id (apsnd (append out)) (run_packets pts r'))"

subsection \<open>The context after a set of fragments\<close>

definition canon :: "frame_spec \<Rightarrow> u64 \<Rightarrow> nat set \<Rightarrow> ReassemblyContext" where
  "canon F t0 S =
     (let ps = fs_payloads F; n = length ps in
      \<lparr>ctx_key = fs_key F, ctx_total_frags = word_of_nat n, ctx_tail_frag_payload_bytes = word_of_nat (length (last ps)),
       ctx_first_frag_time_ms = t0, ctx_data_timestamp = fs_timestamp F,
       ctx_execution_snapshot = (if n - 1 \<in> S then fs_snapshot F else zero_snapshot),
       ctx_has_execution_snapshot = (n - 1 \<in> S), ctx_received_fragments = (\<lambda>i. i \<in> S),
       ctx_fragment_sizes = map (\<lambda>i. if i \<in> S then length (ps ! i) else 0) [0..<n],
       ctx_fragment_refs = map (\<lambda>i. if i \<in> S then heap_ref (ps ! i) (length (ps ! i)) else empty_ref) [0..<n],
       ctx_total_payload_size = (\<Sum>i\<in>S. length (ps ! i)), ctx_received_count = word_of_nat (card S),
       ctx_received_payload_bytes = (\<Sum>i\<in>S. length (ps ! i)),
       ctx_is_complete = ((word_of_nat (card S) :: u16) = word_of_nat n), ctx_is_timeout = False\<rparr>)"

lemma heap_ref_take: "heap_ref (take n bs) n = heap_ref bs n"
  by (simp add: heap_ref_def)

lemma fs_bounds:
  assumes "fs_wf cfg F"
  shows "unat (word_of_nat (length (fs_payloads F)) :: u16) = length (fs_payloads F)"
    and "unat (word_of_nat (length (last (fs_payloads F))) :: u16) = length (last (fs_payloads F))"
    and "k \<le> length (fs_payloads F) \<Longrightarrow> unat (word_of_nat k :: u16) = k"
proof -
  have "length (fs_payloads F) < 2 ^ 16"
    using assms unsigned_less [of "rc_max_total_frags cfg", where ?'a = nat] by (simp add: fs_wf_def)
  with assms show "unat (word_of_nat (length (fs_payloads F)) :: u16) = length (fs_payloads F)"
    and "unat (word_of_nat (length (last (fs_payloads F))) :: u16) = length (last (fs_payloads F))"
    and "k \<le> length (fs_payloads F) \<Longrightarrow> unat (word_of_nat k :: u16) = k"
    by (simp_all add: fs_wf_def unat_of_nat take_bit_nat_eq_self)
qed

lemma canon_empty:
  assumes "fs_wf cfg F"
  shows "canon F t0 {} = fresh_context (fs_key F) (word_of_nat (length (fs_payloads F)))
    (word_of_nat (length (last (fs_payloads F)))) (fs_timestamp F) t0"
proof -
  have "(word_of_nat (length (fs_payloads F)) :: u16) \<noteq> 0"
    using fs_bounds(1) [OF assms] assms by (auto simp: fs_wf_def)
  then show ?thesis
    using fs_bounds(1) [OF assms]
    by (simp add: canon_def fresh_context_def Let_def map_replicate_const)
qed

lemma carriesD:
  assumes "carries cfg F p i"
  obtains f where "extract_fragment cfg p = Some f" "extract_key (header p) (fr_specific f) = fs_key F"
    "i < length (fs_payloads F)" "unat (frag_index (fr_specific f)) = i"
    "unat (total_frags (fr_specific f)) = length (fs_payloads F)"
    "unat (tail_frag_payload_bytes (fr_specific f)) = length (last (fs_payloads F))"
    "data_timestamp (fr_specific f) = fs_timestamp F" "fr_payload_size f = length (fs_payloads F ! i)"
    "take (fr_payload_size f) (fr_payload f) = fs_payloads F ! i"
    "fr_snapshot f = (if i + 1 = length (fs_payloads F) then Some (fs_snapshot F) else None)"
  using assms by (auto simp: carries_def Let_def split: option.splits)

lemma store_canon_new:
  assumes wf: "fs_wf cfg F" and "i \<notin> S" and "S \<subseteq> {..<length (fs_payloads F)}" and "i < length (fs_payloads F)"
    and snap: "s = (if i + 1 = length (fs_payloads F) then Some (fs_snapshot F) else None)"
  shows "stored_context (heap_ref (fs_payloads F ! i) (length (fs_payloads F ! i))) (length (fs_payloads F ! i)) i
      (with_snapshot s (canon F t0 S)) = canon F t0 (insert i S)"
proof -
  let ?ps = "fs_payloads F" and ?n = "length (fs_payloads F)"
  have fin: "finite S" using assms(3) finite_subset by blast
  have ne: "0 < length (?ps ! i)" using wf assms(4) by (auto simp: fs_wf_def list_all_length)
  have upd: "(map (\<lambda>j. if j \<in> S then g j else z) [0..<?n])[i := g i] = map (\<lambda>j. if j \<in> insert i S then g j else z) [0..<?n]"
    for g :: "nat \<Rightarrow> 'x" and z
    by (rule nth_equalityI) (use assms(4) in \<open>auto simp: nth_list_update\<close>)
  have c: "with_snapshot s (canon F t0 S) = (canon F t0 S)\<lparr>
      ctx_execution_snapshot := (if ?n - 1 \<in> insert i S then fs_snapshot F else zero_snapshot),
      ctx_has_execution_snapshot := (?n - 1 \<in> insert i S)\<rparr>"
    using assms(3,4) snap by (auto simp: with_snapshot_def canon_def Let_def)
  show ?thesis
    unfolding c stored_context_def
    using ne fin assms(2) upd [of "\<lambda>j. length (?ps ! j)" 0]
      upd [of "\<lambda>j. heap_ref (?ps ! j) (length (?ps ! j))" empty_ref]
    by (simp add: canon_def Let_def fun_eq_iff add.commute)
qed

lemma with_snapshot_canon_old:
  assumes "i \<in> S" and "s = (if i + 1 = length (fs_payloads F) then Some (fs_snapshot F) else None)"
  shows "with_snapshot s (canon F t0 S) = canon F t0 S"
proof -
  have "i + 1 = length (fs_payloads F) \<Longrightarrow> length (fs_payloads F) - 1 = i" by simp
  with assms show ?thesis by (auto simp: with_snapshot_def canon_def Let_def)
qed

lemma sum_lengths_le:
  assumes "S \<subseteq> {..<length ps}"
  shows "(\<Sum>i\<in>S. length (ps ! i)) \<le> (\<Sum>pl \<leftarrow> ps. length pl)"
proof -
  have "(\<Sum>i\<in>S. length (ps ! i)) \<le> (\<Sum>i\<in>{..<length ps}. length (ps ! i))"
    using assms by (intro sum_mono2) auto
  also have "\<dots> = (\<Sum>pl \<leftarrow> ps. length pl)"
    by (simp add: sum_list_sum_nth atLeast0LessThan)
  finally show ?thesis .
qed

lemma store_fragment_canon:
  assumes wf: "fs_wf cfg F" and S: "S \<subseteq> {..<length (fs_payloads F)}" and car: "carries cfg F p i"
    and f: "extract_fragment cfg p = Some f" and "rc_max_total_frags cfg \<le> 1024"
  shows "store_fragment (heap_ref (fr_payload f) (fr_payload_size f)) (rc_max_reasm_bytes_per_key cfg) (fr_specific f)
      (fr_payload_size f) (with_snapshot (fr_snapshot f) (canon F t0 S)) st =
    (if i \<in> S then (canon F t0 S, st\<lparr>duplicate_fragments := duplicate_fragments st + 1\<rparr>, False)
     else (canon F t0 (insert i S), st, True))"
proof -
  let ?ps = "fs_payloads F"
  from car f have c: "i < length ?ps" "unat (frag_index (fr_specific f)) = i"
    "unat (total_frags (fr_specific f)) = length ?ps" "fr_payload_size f = length (?ps ! i)"
    "take (fr_payload_size f) (fr_payload f) = ?ps ! i"
    "fr_snapshot f = (if i + 1 = length ?ps then Some (fs_snapshot F) else None)"
    by (auto elim!: carriesD)
  have n: "length ?ps \<le> 1024"
    using wf assms(5) by (simp add: fs_wf_def word_le_nat_alt)
  have lt: "\<not> frag_index (fr_specific f) \<ge> word_of_nat (length ?ps)"
    using c(1,2) fs_bounds(1) [OF wf] by (simp add: word_le_nat_alt)
  have tail: "is_tail_fragment (fr_specific f) \<longleftrightarrow> i + 1 = length ?ps"
    unfolding is_tail_fragment_def c(2,3) by linarith
  have "?ps \<noteq> []" using c(1) by auto
  then have tl: "length (?ps ! i) = length (last ?ps)" if "i + 1 = length ?ps"
    using that by (metis add_diff_cancel_right' last_conv_nth)
  have ne: "length (?ps ! i) \<noteq> 0" using wf c(1) by (auto simp: fs_wf_def list_all_length)
  have ref: "heap_ref (fr_payload f) (fr_payload_size f) = heap_ref (?ps ! i) (length (?ps ! i))"
    using c(4,5) heap_ref_take by metis
  have fields: "ctx_total_frags (with_snapshot s (canon F t0 S)) = word_of_nat (length ?ps)"
    "ctx_received_fragments (with_snapshot s (canon F t0 S)) i = (i \<in> S)"
    "ctx_received_payload_bytes (with_snapshot s (canon F t0 S)) = (\<Sum>i\<in>S. length (?ps ! i))"
    "ctx_tail_frag_payload_bytes (with_snapshot s (canon F t0 S)) = word_of_nat (length (last ?ps))" for s
    by (auto simp: with_snapshot_def canon_def Let_def split: option.split)
  show ?thesis
  proof (cases "i \<in> S")
    case True
    then show ?thesis
      using lt n c(1) with_snapshot_canon_old [OF True c(6), of t0]
      unfolding store_fragment_if Let_def c(2) fields by simp
  next
    case False
    have fin: "finite S" using S finite_subset by blast
    have "(\<Sum>i\<in>insert i S. length (?ps ! i)) \<le> rc_max_reasm_bytes_per_key cfg"
      using sum_lengths_le [of "insert i S" ?ps] S c(1) wf by (simp add: fs_wf_def)
    then have "\<not> (\<Sum>i\<in>S. length (?ps ! i)) + length (?ps ! i) > rc_max_reasm_bytes_per_key cfg"
      using False fin by simp
    then show ?thesis
      using lt n c(1) tl ne False fs_bounds(2) [OF wf] store_canon_new [OF wf False S c(1) c(6), of t0]
      unfolding store_fragment_if Let_def c(2) fields tail c(4) ref [unfolded c(4)] by simp
  qed
qed

lemma slot_present_canon:
  "fs_wf cfg F \<Longrightarrow> i < length (fs_payloads F) \<Longrightarrow> slot_present (canon F t0 {..<length (fs_payloads F)}) i"
  by (simp add: slot_present_def canon_def Let_def has_data_def heap_ref_def fs_wf_def list_all_length)

lemma assembled_frame_canon:
  assumes "fs_wf cfg F"
  shows "assembled_frame cfg (fs_key F) (canon F t0 {..<length (fs_payloads F)}) = fs_frame F"
proof -
  let ?ps = "fs_payloads F" and ?c = "canon F t0 {..<length (fs_payloads F)}"
  have n: "unat (ctx_total_frags ?c) = length ?ps" using fs_bounds(1) [OF assms] by (simp add: canon_def Let_def)
  have present: "slot_present ?c i" if "i \<in> set [0..<length ?ps]" for i
    using slot_present_canon [OF assms] that by simp
  have bytes: "map (slot_bytes cfg ?c cc dt) [0..<length ?ps] = map ((!) ?ps) [0..<length ?ps]" for cc dt
    using present by (auto simp: slot_bytes_def canon_def Let_def heap_ref_def)
  have sizes: "map (slot_size cfg ?c cc dt) [0..<length ?ps] = map (\<lambda>i. length (?ps ! i)) [0..<length ?ps]" for cc dt
    using present by (auto simp: slot_size_def canon_def Let_def heap_ref_def)
  have miss: "filter (\<lambda>i. \<not> slot_present ?c i) [0..<length ?ps] = []"
    using present by (simp add: filter_empty_conv)
  have "concat (map ((!) ?ps) [0..<length ?ps]) = concat ?ps" by (simp add: map_nth)
  moreover have "(\<Sum>i\<leftarrow>[0..<length ?ps]. length (?ps ! i)) = length (concat ?ps)"
    by (simp add: length_concat map_nth [of ?ps, symmetric, THEN arg_cong, of "map length"] comp_def)
  moreover have "length ?ps - 1 < length ?ps" using assms by (simp add: fs_wf_def)
  ultimately show ?thesis
    unfolding assembled_frame_def n Let_def bytes sizes miss by (simp add: fs_frame_def canon_def Let_def)
qed

subsection \<open>One packet\<close>

definition key_live :: "ReassemblyKey \<Rightarrow> Reassembler_state \<Rightarrow> bool" where
  "key_live k r \<longleftrightarrow> (\<forall>e \<in> set (rsm_frozen_keys_ring r). fk_valid e \<longrightarrow> fk_key e \<noteq> k)"

lemma key_live_not_frozen: "key_live k r \<Longrightarrow> \<not> fst (is_key_frozen k t (rsm_frozen_keys_ring r))"
  by (auto simp: key_live_def is_key_frozen_iff)

lemma key_live_scanned: "key_live k r \<Longrightarrow> key_live k (scanned k' t r)"
  using is_key_frozen_subset by (fastforce simp: key_live_def scanned_def)

lemma key_live_cong: "rsm_frozen_keys_ring r' = rsm_frozen_keys_ring r \<Longrightarrow> key_live k r' = key_live k r"
  by (simp add: key_live_def)

text \<open>A fragment of the frame arrives while the fragments \<open>S\<close> are held.\<close>

lemma carried_packet_stored:
  assumes inv: "reasm_inv r" and wf: "fs_wf (rsm_config r) F" and S: "S \<subseteq> {..<length (fs_payloads F)}"
    and car: "carries (rsm_config r) F p i"
    and r2: "rsm_config r2 = rsm_config r" "rsm_callback r2 = rsm_callback r"
    and f: "extract_fragment (rsm_config r) p = Some f"
  shows "\<exists>r' out. store_and_complete (heap_ref (fr_payload f) (fr_payload_size f)) (fs_key F) f (canon F t0 S) r2 = Inr (r', out) \<and>
      rsm_callback r' = rsm_callback r \<and> rsm_frozen_keys_ring r' = rsm_frozen_keys_ring r2 \<and>
      (if insert i S = {..<length (fs_payloads F)} \<and> i \<notin> S
       then map_of (rsm_contexts r') (fs_key F) = None \<and> out = emitted r (fs_frame F)
       else map_of (rsm_contexts r') (fs_key F) = Some (canon F t0 (insert i S)) \<and> out = [])"
proof -
  let ?n = "length (fs_payloads F)" and ?k = "fs_key F" and ?c = "canon F t0 (insert i S)"
  have max: "rc_max_total_frags (rsm_config r) \<le> 1024" using inv by (simp add: reasm_inv_def)
  have i: "i < ?n" using car by (auto elim!: carriesD)
  note st = store_fragment_canon [OF wf S car f max, of t0 "rsm_stats r2"]
  show ?thesis
  proof (cases "i \<in> S")
    case True
    then show ?thesis
      using st r2 by (simp add: store_and_complete_def Let_def update_conv' insert_absorb)
  next
    case False
    have "card (insert i S) \<le> ?n" using S i card_mono [of "{..<?n}" "insert i S"] by simp
    then have "(word_of_nat (card (insert i S)) :: u16) = word_of_nat ?n \<longleftrightarrow> card (insert i S) = ?n"
      using fs_bounds(1) [OF wf] fs_bounds(3) [OF wf, of "card (insert i S)"] by (auto simp: word_unat_eq_iff)
    moreover have "card (insert i S) = ?n \<longleftrightarrow> insert i S = {..<?n}"
      using card_subset_eq [of "{..<?n}" "insert i S"] S i by auto
    ultimately have comp: "check_complete ?c \<longleftrightarrow> insert i S = {..<?n}"
      by (simp add: check_complete_def canon_def Let_def)
    let ?r3 = "r2\<lparr>rsm_contexts := AList.update ?k ?c (rsm_contexts r2), rsm_stats := rsm_stats r2\<rparr>"
    have "unat (ctx_total_frags ?c) \<le> 1024"
      using fs_bounds(1) [OF wf] wf max by (simp add: canon_def Let_def fs_wf_def word_le_nat_alt)
    from complete_reassembly_eq [OF this, of ?r3 ?k False 0]
    have compl: "complete_reassembly ?k ?c False 0 ?r3 =
        Inr (completed_state ?k ?c False 0 ?r3, emitted r (assembled_frame (rsm_config r) ?k ?c))"
      using r2 by (simp add: update_conv' emitted_def)
    show ?thesis
      using st r2 False comp compl assembled_frame_canon [OF wf, of t0]
      by (auto simp: store_and_complete_def Let_def update_conv' delete_conv' simp del: insert_iff)
  qed
qed

lemma first_fragment:
  assumes inv: "reasm_inv r" and wf: "fs_wf (rsm_config r) F" and car: "carries (rsm_config r) F p i"
    and live: "key_live (fs_key F) r" and none: "map_of (rsm_contexts r) (fs_key F) = None"
    and room: "length (rsm_contexts r) < rc_max_contexts (rsm_config r)"
  shows "\<exists>r' out. process_packet p t r = Inr (r', out) \<and> key_live (fs_key F) r' \<and> rsm_callback r' = rsm_callback r \<and>
      (if length (fs_payloads F) = 1
       then map_of (rsm_contexts r') (fs_key F) = None \<and> out = emitted r (fs_frame F)
       else map_of (rsm_contexts r') (fs_key F) = Some (canon F t {i}) \<and> out = [])"
proof -
  let ?k = "fs_key F"
  obtain f where f: "extract_fragment (rsm_config r) p = Some f" "extract_key (header p) (fr_specific f) = ?k"
    "i < length (fs_payloads F)" "unat (total_frags (fr_specific f)) = length (fs_payloads F)"
    "unat (tail_frag_payload_bytes (fr_specific f)) = length (last (fs_payloads F))"
    "data_timestamp (fr_specific f) = fs_timestamp F"
    using car by (auto elim!: carriesD)
  have words: "total_frags (fr_specific f) = word_of_nat (length (fs_payloads F))"
    "tail_frag_payload_bytes (fr_specific f) = word_of_nat (length (last (fs_payloads F)))"
    by (simp_all flip: f(4,5))
  let ?r1 = "scanned ?k t (count_fragment r)"
  let ?r2 = "?r1\<lparr>rsm_contexts := AList.update ?k (canon F t {}) (rsm_contexts ?r1),
      rsm_stats := (rsm_stats ?r1)\<lparr>contexts_created := contexts_created (rsm_stats ?r1) + 1\<rparr>\<rparr>"
  have "get_or_create_context ?k (total_frags (fr_specific f)) (tail_frag_payload_bytes (fr_specific f))
      (data_timestamp (fr_specific f)) t ?r1 = (Some (canon F t {}), ?r2)"
    using none room by (simp add: get_or_create_context_def words f(6) canon_empty [OF wf] Let_def)
  then have step: "process_packet p t r = store_and_complete (heap_ref (fr_payload f) (fr_payload_size f)) ?k f (canon F t {}) ?r2"
    using process_packet_split [OF f(1,2) key_live_not_frozen [OF live]] by simp
  have "insert i {} = {..<length (fs_payloads F)} \<longleftrightarrow> length (fs_payloads F) = 1"
  proof
    assume "insert i {} = {..<length (fs_payloads F)}"
    from arg_cong [OF this, of card] show "length (fs_payloads F) = 1" by simp
  qed (use f(3) in auto)
  with carried_packet_stored [OF inv wf _ car _ _ f(1), of "{}" ?r2 t]
  obtain r' out where r': "store_and_complete (heap_ref (fr_payload f) (fr_payload_size f)) ?k f (canon F t {}) ?r2 = Inr (r', out)"
    "rsm_callback r' = rsm_callback r" "rsm_frozen_keys_ring r' = rsm_frozen_keys_ring ?r1"
    "if length (fs_payloads F) = 1
       then map_of (rsm_contexts r') (fs_key F) = None \<and> out = emitted r (fs_frame F)
       else map_of (rsm_contexts r') (fs_key F) = Some (canon F t {i}) \<and> out = []"
    by auto
  have "key_live ?k r'"
    using key_live_scanned [of ?k "count_fragment r" ?k t] live r'(3) by (simp add: key_live_def)
  with r' step show ?thesis by (intro exI [of _ r'] exI [of _ out]) simp
qed

lemma next_fragment:
  assumes inv: "reasm_inv r" and wf: "fs_wf (rsm_config r) F" and car: "carries (rsm_config r) F p i"
    and live: "key_live (fs_key F) r" and some: "map_of (rsm_contexts r) (fs_key F) = Some (canon F t0 S)"
    and S: "S \<subseteq> {..<length (fs_payloads F)}"
  shows "\<exists>r' out. process_packet p t r = Inr (r', out) \<and> key_live (fs_key F) r' \<and> rsm_callback r' = rsm_callback r \<and>
      (if insert i S = {..<length (fs_payloads F)} \<and> i \<notin> S
       then map_of (rsm_contexts r') (fs_key F) = None \<and> out = emitted r (fs_frame F)
       else map_of (rsm_contexts r') (fs_key F) = Some (canon F t0 (insert i S)) \<and> out = [])"
proof -
  let ?k = "fs_key F" and ?r1 = "scanned (fs_key F) t (count_fragment r)"
  obtain f where f: "extract_fragment (rsm_config r) p = Some f" "extract_key (header p) (fr_specific f) = ?k"
    using car by (auto elim!: carriesD)
  have "get_or_create_context ?k (total_frags (fr_specific f)) (tail_frag_payload_bytes (fr_specific f))
      (data_timestamp (fr_specific f)) t ?r1 = (Some (canon F t0 S), ?r1)"
    using some by (simp add: get_or_create_context_def)
  then have step: "process_packet p t r = store_and_complete (heap_ref (fr_payload f) (fr_payload_size f)) ?k f (canon F t0 S) ?r1"
    using process_packet_split [OF f key_live_not_frozen [OF live]] by simp
  from carried_packet_stored [OF inv wf S car _ _ f(1), of ?r1 t0]
  obtain r' out where r': "store_and_complete (heap_ref (fr_payload f) (fr_payload_size f)) ?k f (canon F t0 S) ?r1 = Inr (r', out)"
    "rsm_callback r' = rsm_callback r" "rsm_frozen_keys_ring r' = rsm_frozen_keys_ring ?r1"
    "if insert i S = {..<length (fs_payloads F)} \<and> i \<notin> S
       then map_of (rsm_contexts r') (fs_key F) = None \<and> out = emitted r (fs_frame F)
       else map_of (rsm_contexts r') (fs_key F) = Some (canon F t0 (insert i S)) \<and> out = []"
    by auto
  have "key_live ?k r'"
    using key_live_scanned [of ?k "count_fragment r" ?k t] live r'(3) by (simp add: key_live_def)
  with r' step show ?thesis by (intro exI [of _ r'] exI [of _ out]) simp
qed

lemma touches_only_other:
  assumes "touches_only key r r' out" and "key \<noteq> k"
  shows "map_of (rsm_contexts r') k = map_of (rsm_contexts r) k" and "key_live k r \<Longrightarrow> key_live k r'"
    and "filter (\<lambda>frame. rf_key frame = k) out = []"
  using assms by (auto simp: touches_only_def key_live_def filter_empty_conv)

lemma other_packet:
  assumes "reasm_inv r" and "packet_ok p" and "fragment_key (rsm_config r) p \<noteq> Some k"
  shows "\<exists>r' out. process_packet p t r = Inr (r', out) \<and> reasm_inv r' \<and> rsm_config r' = rsm_config r \<and>
      rsm_callback r' = rsm_callback r \<and> map_of (rsm_contexts r') k = map_of (rsm_contexts r) k \<and>
      (key_live k r \<longrightarrow> key_live k r') \<and> filter (\<lambda>frame. rf_key frame = k) out = []"
proof (cases "extract_fragment (rsm_config r) p")
  case None
  then show ?thesis using assms by (simp add: process_packet_dropped key_live_def)
next
  case (Some f)
  let ?key = "extract_key (header p) (fr_specific f)"
  have ne: "?key \<noteq> k" using assms(3) Some by (simp add: fragment_key_def)
  from process_packet_inv(1) [OF assms(1,2) Some, of t]
  obtain r' out where "process_packet p t r = Inr (r', out)" "reasm_inv r'" and t: "touches_only ?key r r' out" by blast
  moreover have "rsm_config r' = rsm_config r" "rsm_callback r' = rsm_callback r" using t by (simp_all add: touches_only_def)
  ultimately show ?thesis using touches_only_other [OF t ne] by blast
qed

subsection \<open>Sequences of packets\<close>

definition packets_for :: "ReassemblerConfig \<Rightarrow> frame_spec \<Rightarrow> (ParsedPacket \<times> u64) list \<Rightarrow> bool" where
  "packets_for cfg F pts \<longleftrightarrow>
     (\<forall>(p, t) \<in> set pts. packet_ok p \<and> (fragment_key cfg p = Some (fs_key F) \<longrightarrow> (\<exists>i. carries cfg F p i)))"

definition carried_index :: "ReassemblerConfig \<Rightarrow> ParsedPacket \<Rightarrow> nat" where
  "carried_index cfg p = unat (frag_index (fr_specific (the (extract_fragment cfg p))))"

definition arrivals :: "ReassemblerConfig \<Rightarrow> ReassemblyKey \<Rightarrow> (ParsedPacket \<times> u64) list \<Rightarrow> nat list" where
  "arrivals cfg k pts = map (carried_index cfg) (filter (\<lambda>p. fragment_key cfg p = Some k) (map fst pts))"

lemma carries_index: "carries cfg F p i \<Longrightarrow> carried_index cfg p = i"
  by (auto elim!: carriesD simp: carried_index_def)

lemma run_without:
  assumes "reasm_inv r" and "packets_for (rsm_config r) F pts" and "arrivals (rsm_config r) (fs_key F) pts = []"
  shows "\<exists>r' outs. run_packets pts r = Inr (r', outs) \<and> reasm_inv r' \<and>
      map_of (rsm_contexts r') (fs_key F) = map_of (rsm_contexts r) (fs_key F) \<and>
      filter (\<lambda>frame. rf_key frame = fs_key F) outs = []"
  using assms
proof (induction pts arbitrary: r)
  case (Cons pt pts)
  obtain p t where pt: "pt = (p, t)" by (cases pt)
  have p: "packet_ok p" "fragment_key (rsm_config r) p \<noteq> Some (fs_key F)"
    and rest: "packets_for (rsm_config r) F pts" "arrivals (rsm_config r) (fs_key F) pts = []"
    using Cons.prems(2,3) by (auto simp: pt packets_for_def arrivals_def split: if_splits)
  from other_packet [OF Cons.prems(1) p, of t] obtain r1 out where r1: "process_packet p t r = Inr (r1, out)"
    "reasm_inv r1" "rsm_config r1 = rsm_config r" "map_of (rsm_contexts r1) (fs_key F) = map_of (rsm_contexts r) (fs_key F)"
    "filter (\<lambda>frame. rf_key frame = fs_key F) out = []" by blast
  from Cons.IH [OF r1(2)] rest r1(3) obtain r' outs where "run_packets pts r1 = Inr (r', outs)" "reasm_inv r'"
    "map_of (rsm_contexts r') (fs_key F) = map_of (rsm_contexts r1) (fs_key F)"
    "filter (\<lambda>frame. rf_key frame = fs_key F) outs = []" by auto
  with r1 show ?case by (simp add: pt)
qed simp

lemma run_rest:
  assumes "reasm_inv r" and "fs_wf (rsm_config r) F" and "key_live (fs_key F) r"
    and "map_of (rsm_contexts r) (fs_key F) = Some (canon F t0 S)" and "packets_for (rsm_config r) F pts"
    and "arrivals (rsm_config r) (fs_key F) pts = js @ [j]" and "j \<notin> S \<union> set js"
    and "S \<union> set js \<union> {j} = {..<length (fs_payloads F)}"
  shows "\<exists>r' outs. run_packets pts r = Inr (r', outs) \<and> reasm_inv r' \<and>
      map_of (rsm_contexts r') (fs_key F) = None \<and>
      filter (\<lambda>frame. rf_key frame = fs_key F) outs = emitted r (fs_frame F)"
  using assms
proof (induction pts arbitrary: r S js)
  case Nil
  then show ?case by (simp add: arrivals_def)
next
  case (Cons pt pts)
  obtain p t where pt: "pt = (p, t)" by (cases pt)
  let ?k = "fs_key F" and ?cfg = "rsm_config r"
  have ok: "packet_ok p" and rest: "packets_for ?cfg F pts"
    using Cons.prems(5) by (auto simp: pt packets_for_def)
  have key: "rf_key (fs_frame F) = ?k" by (simp add: fs_frame_def)
  show ?case
  proof (cases "fragment_key ?cfg p = Some ?k")
    case False
    from other_packet [OF Cons.prems(1) ok False, of t] Cons.prems(3)
    obtain r1 out where r1: "process_packet p t r = Inr (r1, out)" "reasm_inv r1" "rsm_config r1 = ?cfg"
      "rsm_callback r1 = rsm_callback r" "map_of (rsm_contexts r1) ?k = map_of (rsm_contexts r) ?k" "key_live ?k r1"
      "filter (\<lambda>frame. rf_key frame = ?k) out = []" by blast
    have "arrivals ?cfg ?k pts = js @ [j]" using Cons.prems(6) False by (simp add: pt arrivals_def)
    with Cons.IH [of r1 S js] Cons.prems(2,4,7,8) r1 rest
    obtain r' outs where "run_packets pts r1 = Inr (r', outs)" "reasm_inv r'"
      "map_of (rsm_contexts r') ?k = None" "filter (\<lambda>frame. rf_key frame = ?k) outs = emitted r1 (fs_frame F)" by auto
    with r1 show ?thesis by (simp add: pt emitted_def)
  next
    case True
    then obtain i where car: "carries ?cfg F p i" using Cons.prems(5) by (auto simp: pt packets_for_def)
    have arr: "i # arrivals ?cfg ?k pts = js @ [j]"
      using Cons.prems(6) True carries_index [OF car] by (simp add: pt arrivals_def)
    have S: "S \<subseteq> {..<length (fs_payloads F)}" using Cons.prems(8) by auto
    obtain f where f: "extract_fragment ?cfg p = Some f" using car by (auto elim!: carriesD)
    from next_fragment [OF Cons.prems(1,2) car Cons.prems(3,4) S, of t]
    obtain r1 out where r1: "process_packet p t r = Inr (r1, out)" "key_live ?k r1" "rsm_callback r1 = rsm_callback r"
      "if insert i S = {..<length (fs_payloads F)} \<and> i \<notin> S
       then map_of (rsm_contexts r1) ?k = None \<and> out = emitted r (fs_frame F)
       else map_of (rsm_contexts r1) ?k = Some (canon F t0 (insert i S)) \<and> out = []" by blast
    have inv: "reasm_inv r1" and cfg: "rsm_config r1 = ?cfg"
      using process_packet_inv(1) [OF Cons.prems(1) ok f, of t] r1(1) by (auto simp: touches_only_def)
    show ?thesis
    proof (cases js)
      case Nil
      with arr have ij: "i = j" and none: "arrivals ?cfg ?k pts = []" by auto
      then have "insert i S = {..<length (fs_payloads F)} \<and> i \<notin> S" using Cons.prems(7,8) Nil by auto
      with r1(4) have "map_of (rsm_contexts r1) ?k = None" "out = emitted r (fs_frame F)" by simp_all
      moreover from run_without [OF inv, of F pts] rest none cfg
      obtain r' outs where "run_packets pts r1 = Inr (r', outs)" "reasm_inv r'"
        "map_of (rsm_contexts r') ?k = map_of (rsm_contexts r1) ?k" "filter (\<lambda>frame. rf_key frame = ?k) outs = []" by auto
      ultimately show ?thesis using r1(1) key by (simp add: pt emitted_def)
    next
      case js0: (Cons i' js')
      with arr have js: "js = i # js'" and arr': "arrivals ?cfg ?k pts = js' @ [j]" by auto
      have "insert i S \<noteq> {..<length (fs_payloads F)}" using Cons.prems(7,8) js by auto
      with r1(4) have c1: "map_of (rsm_contexts r1) ?k = Some (canon F t0 (insert i S))" "out = []" by simp_all
      have "j \<notin> insert i S \<union> set js'" "insert i S \<union> set js' \<union> {j} = {..<length (fs_payloads F)}"
        using Cons.prems(7,8) js by auto
      with Cons.IH [of r1 "insert i S" js'] inv cfg r1(2) c1(1) rest arr' Cons.prems(2)
      obtain r' outs where "run_packets pts r1 = Inr (r', outs)" "reasm_inv r'"
        "map_of (rsm_contexts r') ?k = None" "filter (\<lambda>frame. rf_key frame = ?k) outs = emitted r1 (fs_frame F)" by auto
      with r1(1,3) c1(2) show ?thesis by (simp add: pt emitted_def)
    qed
  qed
qed

subsection \<open>The sender's datagrams\<close>

text \<open>How a sender splits a frame: one datagram per fragment, the snapshot in front of the last payload.\<close>

definition fragment_header :: "frame_spec \<Rightarrow> nat \<Rightarrow> DataSpecificHeader" where
  "fragment_header F i =
     (let k = fs_key F in
      set_channel_mask_data_type_compat (rk_channel_mask k) (rk_data_type k)
       \<lparr>frame_counter = rk_frame_counter k, cpi_count = rk_cpi_count k, pulse_index = rk_pulse_index k,
        sample_offset = 0, sample_count = 0, data_timestamp = fs_timestamp F, health_summary = 0,
        reserved_health = 0, beam_id = rk_beam_id k, frag_index = word_of_nat i,
        total_frags = word_of_nat (length (fs_payloads F)),
        tail_frag_payload_bytes = word_of_nat (length (last (fs_payloads F)))\<rparr>)"

definition fragment_body :: "frame_spec \<Rightarrow> nat \<Rightarrow> bytes" where
  "fragment_body F i =
     encode_specific (fragment_header F i) @
     (if i + 1 = length (fs_payloads F) then encode_snapshot (fs_snapshot F) else []) @ fs_payloads F ! i"

definition fragment_common :: "frame_spec \<Rightarrow> nat \<Rightarrow> CommonHeader" where
  "fragment_common F i =
     (sample_header 3 (length (fragment_body F i)))
       \<lparr>control_epoch := rk_control_epoch (fs_key F), source_id := rk_source_id (fs_key F)\<rparr>"

definition fragment_datagram :: "frame_spec \<Rightarrow> nat \<Rightarrow> bytes" where
  "fragment_datagram F i = encode_common (fragment_common F i) @ fragment_body F i"

definition fragment_packet :: "frame_spec \<Rightarrow> nat \<Rightarrow> ParsedPacket" where
  "fragment_packet F i =
     \<lparr>header = fragment_common F i, payload = Some (fragment_body F i),
      total_size = COMMON_HEADER_SIZE + length (fragment_body F i)\<rparr>"

definition fs_sendable :: "frame_spec \<Rightarrow> bool" where
  "fs_sendable F \<longleftrightarrow>
     rk_channel_mask (fs_key F) AND 0x0FFF = rk_channel_mask (fs_key F) \<and>
     rk_data_type (fs_key F) AND 0x0F = rk_data_type (fs_key F) \<and>
     list_all (\<lambda>pl. length pl + 80 \<le> MAX_PAYLOAD_SIZE) (fs_payloads F)"

lemma fragment_body_length:
  "fs_sendable F \<Longrightarrow> i < length (fs_payloads F) \<Longrightarrow> length (fragment_body F i) \<le> MAX_PAYLOAD_SIZE"
proof -
  assume "fs_sendable F" and "i < length (fs_payloads F)"
  then have "length (fs_payloads F ! i) + 80 \<le> MAX_PAYLOAD_SIZE" by (simp add: fs_sendable_def list_all_length)
  moreover have "length (fragment_body F i) \<le> length (fs_payloads F ! i) + 80" by (simp add: fragment_body_def)
  ultimately show ?thesis by linarith
qed

lemma payload_len_fragment_common:
  assumes "fs_sendable F" and "i < length (fs_payloads F)"
  shows "unat (payload_len (fragment_common F i)) = length (fragment_body F i)"
  using fragment_body_length [OF assms]
  by (simp add: fragment_common_def sample_header_def unat_of_nat take_bit_nat_eq_self const_defs)

lemma parse_fragment_datagram:
  assumes "fs_sendable F" and "i < length (fs_payloads F)"
  shows "parse (Some (fragment_datagram F i)) (length (fragment_datagram F i)) = Some (fragment_packet F i)"
proof -
  have "wf_common (fragment_common F i)" "is_valid_magic (fragment_common F i)" "is_valid_version (fragment_common F i)"
    by (simp_all add: fragment_common_def sample_header_def wf_common_def zero_common_def is_valid_magic_def
        is_valid_version_def const_defs)
  from parse_encoded [OF this payload_len_fragment_common [OF assms] fragment_body_length [OF assms]]
  show ?thesis by (simp add: fragment_datagram_def fragment_packet_def)
qed

lemma extract_key_fragment:
  assumes "fs_sendable F"
  shows "extract_key (fragment_common F i) (fragment_header F i) = fs_key F"
proof (cases "fs_key F")
  case (ReassemblyKey a b c d e g m dt)
  then have "m AND 0x0FFF = m" "dt AND 0x0F = dt" using assms by (simp_all add: fs_sendable_def)
  with ReassemblyKey show ?thesis
    by (simp add: extract_key_def fragment_header_def fragment_common_def Let_def
        get_set_channel_mask get_set_data_type_raw) (simp add: set_channel_mask_data_type_compat_def Let_def)
qed

lemma carries_fragment_packet:
  assumes "fs_wf cfg F" and "fs_sendable F" and "i < length (fs_payloads F)"
  shows "carries cfg F (fragment_packet F i) i"
proof -
  let ?n = "length (fs_payloads F)" and ?h = "fragment_header F i" and ?b = "fragment_body F i"
  have fields: "frag_index ?h = word_of_nat i" "total_frags ?h = word_of_nat ?n"
    "tail_frag_payload_bytes ?h = word_of_nat (length (last (fs_payloads F)))" "data_timestamp ?h = fs_timestamp F"
    by (simp_all add: fragment_header_def set_channel_mask_data_type_compat_def Let_def)
  note b = fs_bounds [OF assms(1)]
  have i: "unat (frag_index ?h) = i" using b(3) [of i] assms(3) fields by simp
  have n: "unat (total_frags ?h) = ?n" using b(1) fields by simp
  have tb: "unat (tail_frag_payload_bytes ?h) = length (last (fs_payloads F))" using b(2) fields by simp
  have dec: "decode_specific ?b = ?h" by (simp add: fragment_body_def decode_encode_specific)
  have tf: "total_frags ?h \<noteq> 0" "\<not> total_frags ?h > rc_max_total_frags cfg" "\<not> frag_index ?h \<ge> total_frags ?h"
    using assms(1,3) n i by (auto simp: fs_wf_def word_less_nat_alt word_le_nat_alt)
  have "40 \<le> length ?b" by (simp add: fragment_body_def)
  then have parse: "parse_specific_header cfg (Some ?b) (length ?b) = Some ?h"
    using tf by (simp add: parse_specific_header_def dec Let_def DATA_SPECIFIC_HEADER_SIZE_def)
  have tail: "is_tail_fragment ?h \<longleftrightarrow> i + 1 = ?n" unfolding is_tail_fragment_def i n by linarith
  have last: "length (fs_payloads F ! i) = length (last (fs_payloads F))" if "i + 1 = ?n"
    using that assms(3) by (metis add_diff_cancel_right' last_conv_nth length_0_conv not_less_zero)
  have "extract_fragment cfg (fragment_packet F i) = Some \<lparr>fr_specific = ?h, fr_payload = fs_payloads F ! i,
      fr_payload_size = length (fs_payloads F ! i),
      fr_snapshot = (if i + 1 = ?n then Some (fs_snapshot F) else None)\<rparr>"
    using parse tf tail tb last decode_encode_snapshot [of "fs_snapshot F" "fs_payloads F ! i"]
    by (auto simp: extract_fragment_def fragment_packet_def payload_len_fragment_common [OF assms(2,3)] Let_def
        fragment_body_def DATA_SPECIFIC_HEADER_SIZE_def EXECUTION_SNAPSHOT_SIZE_def)
  then show ?thesis
    using i n tb fields(4) assms(3) extract_key_fragment [OF assms(2)]
    by (simp add: carries_def Let_def fragment_packet_def)
qed

lemma packet_ok_fragment_packet:
  "fs_sendable F \<Longrightarrow> i < length (fs_payloads F) \<Longrightarrow> packet_ok (fragment_packet F i)"
  using payload_len_fragment_common by (simp add: packet_ok_def fragment_packet_def)

lemma carries_key: "carries cfg F p i \<Longrightarrow> fragment_key cfg p = Some (fs_key F)"
  by (auto elim!: carriesD simp: fragment_key_def)

lemma packets_for_fragments:
  assumes "fs_wf cfg F" and "fs_sendable F" and "\<forall>(i, t) \<in> set its. i < length (fs_payloads F)"
  shows "packets_for cfg F (map (apfst (fragment_packet F)) its)"
    and "arrivals cfg (fs_key F) (map (apfst (fragment_packet F)) its) = map fst its"
proof -
  have car: "carries cfg F (fragment_packet F i) i" if "(i, t) \<in> set its" for i t
    using assms carries_fragment_packet that by blast
  then show "packets_for cfg F (map (apfst (fragment_packet F)) its)"
    using assms packet_ok_fragment_packet by (fastforce simp: packets_for_def)
  show "arrivals cfg (fs_key F) (map (apfst (fragment_packet F)) its) = map fst its"
  proof -
    have "\<forall>(i, t) \<in> set its. fragment_key cfg (fragment_packet F i) = Some (fs_key F) \<and>
        carried_index cfg (fragment_packet F i) = i"
      using car carries_index carries_key by fastforce
    then show ?thesis by (induction its) (auto simp: arrivals_def)
  qed
qed

lemma reassembler_new_inv: "rc_max_total_frags cfg \<le> 1024 \<Longrightarrow> reasm_inv (reassembler_new cfg cb)"
  by (simp add: reasm_inv_def reassembler_new_def)

lemma key_live_new: "key_live k (reassembler_new cfg cb)"
  by (simp add: key_live_def reassembler_new_def empty_frozen_entry_def)

subsection \<open>Sample frame\<close>

definition sample_config :: ReassemblerConfig where
  "sample_config = \<lparr>rc_timeout_ms = 100, rc_max_contexts = 4, rc_max_total_frags = 16,
     rc_sample_count_fixed = 4096, rc_max_reasm_bytes_per_key = 1000\<rparr>"

definition sample_frame :: frame_spec where
  "sample_frame = \<lparr>fs_key = ReassemblyKey 1 0x11 7 2 3 4 5 1, fs_payloads = [[10, 11], [12, 13], [14]],
     fs_snapshot = zero_snapshot, fs_timestamp = 99\<rparr>"

lemma sample_frame_ok:
  "fs_wf sample_config sample_frame" "fs_sendable sample_frame" "length (fs_payloads sample_frame) = 3"
  by (simp_all add: fs_wf_def fs_sendable_def sample_config_def sample_frame_def const_defs)

subsection \<open>A frame from its fragments\<close>

lemma frame_from_fragments:
  assumes "reasm_inv r" and "fs_wf (rsm_config r) F" and "key_live (fs_key F) r"
    and "map_of (rsm_contexts r) (fs_key F) = None"
    and "length (rsm_contexts r) < rc_max_contexts (rsm_config r)"
    and "packets_for (rsm_config r) F ((p, t) # pts)" and "fragment_key (rsm_config r) p = Some (fs_key F)"
    and "arrivals (rsm_config r) (fs_key F) ((p, t) # pts) = js @ [j]" and "j \<notin> set js"
    and "set (js @ [j]) = {..<length (fs_payloads F)}"
  shows "\<exists>r' outs. run_packets ((p, t) # pts) r = Inr (r', outs) \<and> reasm_inv r' \<and>
      map_of (rsm_contexts r') (fs_key F) = None \<and>
      filter (\<lambda>frame. rf_key frame = fs_key F) outs = (if rsm_callback r then [fs_frame F] else [])"
proof -
  let ?k = "fs_key F" and ?cfg = "rsm_config r" and ?n = "length (fs_payloads F)"
  obtain i where car: "carries ?cfg F p i" and ok: "packet_ok p" and rest: "packets_for ?cfg F pts"
    using assms(6,7) by (auto simp: packets_for_def)
  obtain f where f: "extract_fragment ?cfg p = Some f" using car by (auto elim!: carriesD)
  have arr: "i # arrivals ?cfg ?k pts = js @ [j]"
    using assms(7,8) carries_index [OF car] by (simp add: arrivals_def)
  from first_fragment [OF assms(1,2) car assms(3,4,5), of t]
  obtain r1 out where r1: "process_packet p t r = Inr (r1, out)" "key_live ?k r1" "rsm_callback r1 = rsm_callback r"
    "if ?n = 1 then map_of (rsm_contexts r1) ?k = None \<and> out = emitted r (fs_frame F)
     else map_of (rsm_contexts r1) ?k = Some (canon F t {i}) \<and> out = []" by blast
  have inv: "reasm_inv r1" and cfg: "rsm_config r1 = ?cfg"
    using process_packet_inv(1) [OF assms(1) ok f, of t] r1(1) by (auto simp: touches_only_def)
  have card: "card (set (js @ [j])) = ?n" using assms(10) by simp
  show ?thesis
  proof (cases js)
    case Nil
    with arr card have "?n = 1" and none: "arrivals ?cfg ?k pts = []" by simp_all
    with r1(4) have o: "map_of (rsm_contexts r1) ?k = None" "out = emitted r (fs_frame F)" by simp_all
    from run_without [OF inv, of F pts] rest none cfg
    obtain r' outs where "run_packets pts r1 = Inr (r', outs)" "reasm_inv r'"
      "map_of (rsm_contexts r') ?k = map_of (rsm_contexts r1) ?k" "filter (\<lambda>frame. rf_key frame = ?k) outs = []" by auto
    with r1(1) o show ?thesis by (simp add: emitted_def fs_frame_def)
  next
    case (Cons i' js')
    with arr have js: "js = i # js'" and arr': "arrivals ?cfg ?k pts = js' @ [j]" by auto
    have "card (set (js @ [j])) = Suc (card (set js))" using assms(9) by simp
    moreover have "0 < card (set js)" using js by (simp add: card_gt_0_iff)
    ultimately have "?n \<noteq> 1" using card by simp
    with r1(4) have o: "map_of (rsm_contexts r1) ?k = Some (canon F t {i})" "out = []" by simp_all
    from run_rest [of r1 F t "{i}" pts js' j] inv cfg r1(2) o rest arr' assms(2,9,10) js
    obtain r' outs where "run_packets pts r1 = Inr (r', outs)" "reasm_inv r'"
      "map_of (rsm_contexts r') ?k = None" "filter (\<lambda>frame. rf_key frame = ?k) outs = emitted r1 (fs_frame F)" by auto
    with r1(1,3) o show ?thesis by (simp add: emitted_def)
  qed
qed

subsection \<open>Properties\<close>

text \<open>
  C1: Reassembly is insensitive to order, duplication and interleaving.  Take any sequence of
  well-formed packets that starts with a fragment of a frame whose key is unknown to the reassembler
  and that has room for a context.  If the fragments of that frame in the sequence, duplicates
  included, cover all indices, the last of them being new, then processing the sequence never fails
  and emits for that key exactly one frame: the concatenation of the payloads in index order,
  complete, with the sender's snapshot and time stamp, and the context is gone.
\<close>

theorem reassembly_any_order:
  assumes "reasm_inv r" and "fs_wf (rsm_config r) F" and "key_live (fs_key F) r"
    and "map_of (rsm_contexts r) (fs_key F) = None"
    and "length (rsm_contexts r) < rc_max_contexts (rsm_config r)"
    and "packets_for (rsm_config r) F ((p, t) # pts)" and "fragment_key (rsm_config r) p = Some (fs_key F)"
    and "arrivals (rsm_config r) (fs_key F) ((p, t) # pts) = js @ [j]" and "j \<notin> set js"
    and "set (js @ [j]) = {..<length (fs_payloads F)}"
  shows "\<exists>r' outs. run_packets ((p, t) # pts) r = Inr (r', outs) \<and> reasm_inv r' \<and>
      map_of (rsm_contexts r') (fs_key F) = None \<and>
      filter (\<lambda>frame. rf_key frame = fs_key F) outs = (if rsm_callback r then [fs_frame F] else [])"
  by (rule frame_from_fragments [OF assms])

theorem reassembly_any_order_witness:
  "\<exists>r' outs. run_packets [(fragment_packet sample_frame 2, 5), (fragment_packet sample_frame 2, 6),
       (fragment_packet sample_frame 0, 7), (fragment_packet sample_frame 1, 8)] (reassembler_new sample_config True)
     = Inr (r', outs) \<and> filter (\<lambda>frame. rf_key frame = fs_key sample_frame) outs = [fs_frame sample_frame] \<and>
     rf_data (fs_frame sample_frame) = [10, 11, 12, 13, 14]"
proof -
  let ?its = "[(2, 5), (2, 6), (0, 7), (1, 8)] :: (nat \<times> u64) list" and ?r = "reassembler_new sample_config True"
  have cfg: "rsm_config ?r = sample_config" and new: "rsm_contexts ?r = []" by (simp_all add: reassembler_new_def)
  have max: "rc_max_total_frags sample_config \<le> 1024" "0 < rc_max_contexts sample_config"
    by (simp_all add: sample_config_def)
  note pf = packets_for_fragments [OF sample_frame_ok(1,2), of ?its]
  have "carries sample_config sample_frame (fragment_packet sample_frame 2) 2"
    by (rule carries_fragment_packet) (simp_all add: sample_frame_ok)
  from carries_key [OF this] pf
  have "\<exists>r' outs. run_packets (map (apfst (fragment_packet sample_frame)) ?its) ?r = Inr (r', outs) \<and> reasm_inv r' \<and>
      map_of (rsm_contexts r') (fs_key sample_frame) = None \<and>
      filter (\<lambda>frame. rf_key frame = fs_key sample_frame) outs = (if rsm_callback ?r then [fs_frame sample_frame] else [])"
    unfolding list.map apfst_conv
    by (intro reassembly_any_order [where js = "[2, 2, 0]" and j = 1] reassembler_new_inv key_live_new;
        simp add: cfg sample_frame_ok new max)
       auto
  then show ?thesis by (auto simp: reassembler_new_def fs_frame_def sample_frame_def)
qed

text \<open>
  C4: The reassembler's invariant.  With at most 1024 fragments configured, a new reassembler
  satisfies it, and every operation returns without an exception and keeps it: distinct keys, the
  context limit, per context a received count equal to the number of marked fragments and below the
  total, byte accounting within the limit and valid fragment references, and a well-formed ring of
  frozen keys.
\<close>

theorem reassembler_invariant:
  assumes "reasm_inv r" and "packet_ok p" and "rc_max_total_frags cfg \<le> 1024"
  shows "reasm_inv (reassembler_new cfg cb) \<and>
      (\<exists>r' out. process_packet p t r = Inr (r', out) \<and> reasm_inv r') \<and>
      (\<exists>r' out. process_packet_zero_copy p buf t r = Inr (r', out) \<and> reasm_inv r') \<and>
      (\<exists>r' out. check_timeouts t clk r = Inr (r', out) \<and> reasm_inv r') \<and>
      (\<exists>r' out n. flush_all clk r = Inr ((r', out), n) \<and> reasm_inv r' \<and> rsm_contexts r' = []) \<and>
      reasm_inv (reset_statistics r) \<and> reasm_inv (set_timeout_ms ms r)"
proof (intro conjI)
  show "reasm_inv (reassembler_new cfg cb)" by (rule reassembler_new_inv [OF assms(3)])
  show "\<exists>r' out. process_packet p t r = Inr (r', out) \<and> reasm_inv r'"
    and "\<exists>r' out. process_packet_zero_copy p buf t r = Inr (r', out) \<and> reasm_inv r'"
    using process_packet_inv [OF assms(1,2)] process_packet_dropped [of r p] assms(1)
    by (cases "extract_fragment (rsm_config r) p"; force)+
  show "\<exists>r' out. check_timeouts t clk r = Inr (r', out) \<and> reasm_inv r'"
    using check_timeouts_eq [OF assms(1), of t clk] by blast
  have "distinct (map fst (rsm_contexts r))" using assms(1) by (simp add: reasm_inv_def al_wf_def)
  from complete_keys_eq [OF assms(1) this, of clk]
  show "\<exists>r' out n. flush_all clk r = Inr ((r', out), n) \<and> reasm_inv r' \<and> rsm_contexts r' = []"
    by (auto simp: flush_all_def Let_def filter_empty_conv)
  show "reasm_inv (reset_statistics r)" using assms(1) by (auto simp: reasm_inv_def reset_statistics_def)
  show "reasm_inv (set_timeout_ms ms r)" using assms(1) by (simp add: reasm_inv_def set_timeout_ms_def)
qed

theorem reassembler_invariant_witness:
  "\<exists>r' out. process_packet (fragment_packet sample_frame 1) 5 (reassembler_new sample_config True) = Inr (r', out) \<and>
     reasm_inv r'"
proof -
  have "reasm_inv (reassembler_new sample_config True)"
    by (rule reassembler_new_inv) (simp add: sample_config_def)
  moreover have "packet_ok (fragment_packet sample_frame 1)"
    by (rule packet_ok_fragment_packet) (simp_all add: sample_frame_ok)
  moreover have "rc_max_total_frags sample_config \<le> 1024" by (simp add: sample_config_def)
  ultimately show ?thesis using reassembler_invariant by blast
qed

lemma assembled_contents:
  assumes ok: "ctx_ok cfg k c"
  shows "rf_data (assembled_frame cfg k c) = concat (map (\<lambda>i. if ctx_received_fragments c i \<and> 0 < ctx_fragment_sizes c ! i
          then take (ctx_fragment_sizes c ! i) (the (ref_data (ctx_fragment_refs c ! i)))
          else replicate (infer_missing_fragment_size c i cfg (popcount16 (rk_channel_mask k)) (rk_data_type k)) 0)
        [0..<unat (ctx_total_frags c)])"
    and "rf_missing_frag_indices (assembled_frame cfg k c) = map word_of_nat
      (filter (\<lambda>i. \<not> (ctx_received_fragments c i \<and> 0 < ctx_fragment_sizes c ! i)) [0..<unat (ctx_total_frags c)])"
proof -
  have "map (slot_bytes cfg c cc dt) [0..<unat (ctx_total_frags c)] =
      map (\<lambda>i. if ctx_received_fragments c i \<and> 0 < ctx_fragment_sizes c ! i
          then take (ctx_fragment_sizes c ! i) (the (ref_data (ctx_fragment_refs c ! i)))
          else replicate (infer_missing_fragment_size c i cfg cc dt) 0) [0..<unat (ctx_total_frags c)]" for cc dt
    using slot_present_iff [OF ok] slot_present_ref [OF ok]
    by (intro map_cong refl) (auto simp: slot_bytes_def ref_ok_def)
  then show "rf_data (assembled_frame cfg k c) = concat (map (\<lambda>i. if ctx_received_fragments c i \<and> 0 < ctx_fragment_sizes c ! i
          then take (ctx_fragment_sizes c ! i) (the (ref_data (ctx_fragment_refs c ! i)))
          else replicate (infer_missing_fragment_size c i cfg (popcount16 (rk_channel_mask k)) (rk_data_type k)) 0)
        [0..<unat (ctx_total_frags c)])"
    by (simp only: assembled_frame_def Let_def ReassembledFrame.select_convs)
  have "filter (\<lambda>i. \<not> slot_present c i) [0..<unat (ctx_total_frags c)] =
      filter (\<lambda>i. \<not> (ctx_received_fragments c i \<and> 0 < ctx_fragment_sizes c ! i)) [0..<unat (ctx_total_frags c)]"
    using slot_present_iff [OF ok] by (intro filter_cong refl) auto
  then show "rf_missing_frag_indices (assembled_frame cfg k c) = map word_of_nat
      (filter (\<lambda>i. \<not> (ctx_received_fragments c i \<and> 0 < ctx_fragment_sizes c ! i)) [0..<unat (ctx_total_frags c)])"
    by (simp only: assembled_frame_def Let_def ReassembledFrame.select_convs)
qed

text \<open>
  C7: The frame of a timed-out context.  \<^verbatim>\<open>check_timeouts\<close> returns and, for every context whose age has
  reached the limit, removes the context and emits one frame for its key.  The frame's buffer has
  exactly the computed size; slot by slot it holds the received payload or zeros of the inferred
  size; and the missing list names exactly the indices without a payload, counted without wrap.
\<close>

theorem timeout_frame_contents:
  assumes "reasm_inv r" and "map_of (rsm_contexts r) k = Some c" and "check_timeout c t (rsm_timeout_ms_runtime r)"
  shows "\<exists>r' outs frame. check_timeouts t clk r = Inr (r', outs) \<and> map_of (rsm_contexts r') k = None \<and>
      filter (\<lambda>fr. rf_key fr = k) outs = (if rsm_callback r then [frame] else []) \<and>
      rf_data frame = concat (map (\<lambda>i. if ctx_received_fragments c i \<and> 0 < ctx_fragment_sizes c ! i
          then take (ctx_fragment_sizes c ! i) (the (ref_data (ctx_fragment_refs c ! i)))
          else replicate (infer_missing_fragment_size c i (rsm_config r) (popcount16 (rk_channel_mask k)) (rk_data_type k)) 0)
        [0..<unat (ctx_total_frags c)]) \<and>
      rf_total_size frame = length (rf_data frame) \<and>
      rf_missing_frag_indices frame = map word_of_nat (filter (\<lambda>i. \<not> (ctx_received_fragments c i \<and> 0 < ctx_fragment_sizes c ! i))
        [0..<unat (ctx_total_frags c)]) \<and>
      unat (rf_missing_fragments_count frame) = length (rf_missing_frag_indices frame) \<and>
      (rf_is_complete frame \<longleftrightarrow> rf_missing_frag_indices frame = [])"
proof -
  let ?f = "assembled_frame (rsm_config r) k c"
  have ok: "ctx_ok (rsm_config r) k c" using assms(1,2) by (simp add: reasm_inv_def ctx_inv_def)
  from check_timeouts_eq [OF assms(1), of t clk] obtain r' where
    r': "check_timeouts t clk r = Inr (r', concat (map (\<lambda>(k, c). emitted r (assembled_frame (rsm_config r) k c))
        (filter (timed_out t r) (rsm_contexts r))))"
    "rsm_contexts r' = filter (\<lambda>kc. \<not> timed_out t r kc) (rsm_contexts r)" by blast
  have wf: "distinct (map fst (rsm_contexts r))" using assms(1) by (simp add: reasm_inv_def al_wf_def)
  have "(k, c) \<in> set (rsm_contexts r)" using assms(2) by (rule map_of_SomeD)
  then obtain xs ys where xy: "rsm_contexts r = xs @ (k, c) # ys" by (meson split_list)
  then have notin: "k \<notin> fst ` set xs" "k \<notin> fst ` set ys" using wf by auto
  have notin': "k \<notin> fst ` set (filter (timed_out t r) xs)" "k \<notin> fst ` set (filter (timed_out t r) ys)"
    using notin by auto
  have to: "timed_out t r (k, c)" using assms(3) by (simp add: timed_out_def)
  have others: "filter (\<lambda>fr. rf_key fr = k) (concat (map (\<lambda>(k, c). emitted r (assembled_frame (rsm_config r) k c)) zs)) = []"
    if "k \<notin> fst ` set zs" for zs
    using that by (induction zs) (auto simp: emitted_def assembled_frame_def Let_def)
  have key: "rf_key ?f = k" by (simp add: assembled_frame_def Let_def)
  have "filter (\<lambda>fr. rf_key fr = k) (concat (map (\<lambda>(k, c). emitted r (assembled_frame (rsm_config r) k c))
      (filter (timed_out t r) (rsm_contexts r)))) = (if rsm_callback r then [?f] else [])"
    using others [OF notin' (1)] others [OF notin' (2)] to key by (simp add: xy) (simp add: emitted_def)
  moreover have "map_of (rsm_contexts r') k = None"
    using notin to by (auto simp: r'(2) xy map_of_eq_None_iff)
  moreover have "rf_is_complete ?f \<longleftrightarrow> rf_missing_frag_indices ?f = []" by (simp add: assembled_frame_def Let_def)
  moreover note r'(1) assembled_contents [OF ok] length_assembled_frame [OF ok, of "rsm_config r", symmetric] missing_count [OF ok, of "rsm_config r"]
  ultimately show ?thesis by (intro exI conjI)
qed

lemma sample_first:
  obtains r1 where "process_packet (fragment_packet sample_frame 0) 5 (reassembler_new sample_config True) = Inr (r1, [])"
    and "reasm_inv r1" and "rsm_config r1 = sample_config" and "rsm_callback r1"
    and "rsm_timeout_ms_runtime r1 = 100"
    and "map_of (rsm_contexts r1) (fs_key sample_frame) = Some (canon sample_frame 5 {0})"
proof -
  let ?r = "reassembler_new sample_config True" and ?p = "fragment_packet sample_frame 0"
  have cfg: "rsm_config ?r = sample_config" "rsm_callback ?r" "rsm_contexts ?r = []" "rsm_timeout_ms_runtime ?r = 100"
    "rc_max_total_frags sample_config \<le> 1024" "0 < rc_max_contexts sample_config"
    by (simp_all add: reassembler_new_def sample_config_def)
  have car: "carries sample_config sample_frame ?p 0"
    by (rule carries_fragment_packet) (simp_all add: sample_frame_ok)
  have inv: "reasm_inv ?r" by (rule reassembler_new_inv [OF cfg(5)])
  from first_fragment [OF inv, of sample_frame ?p 0 5] car key_live_new [of _ sample_config True]
  obtain r1 where r1: "process_packet ?p 5 ?r = Inr (r1, [])" "rsm_callback r1"
    "map_of (rsm_contexts r1) (fs_key sample_frame) = Some (canon sample_frame 5 {0})"
    by (auto simp: cfg sample_frame_ok)
  have ok: "packet_ok ?p" by (rule packet_ok_fragment_packet) (simp_all add: sample_frame_ok)
  obtain f where "extract_fragment (rsm_config ?r) ?p = Some f" using car cfg by (auto elim!: carriesD)
  from process_packet_inv(1) [OF inv ok this, of 5] r1(1)
  have "reasm_inv r1" "rsm_config r1 = sample_config" "rsm_timeout_ms_runtime r1 = 100"
    by (auto simp: touches_only_def cfg)
  with r1 show thesis by (intro that)
qed

theorem timeout_frame_contents_witness:
  "\<exists>r1 r' outs frame. process_packet (fragment_packet sample_frame 0) 5 (reassembler_new sample_config True) = Inr (r1, []) \<and>
     check_timeouts 105 (\<lambda>_. 105) r1 = Inr (r', outs) \<and>
     filter (\<lambda>fr. rf_key fr = fs_key sample_frame) outs = [frame] \<and>
     rf_data frame = [10, 11, 0, 0, 0] \<and> rf_missing_frag_indices frame = [1, 2]"
proof -
  obtain r1 where r1: "process_packet (fragment_packet sample_frame 0) 5 (reassembler_new sample_config True) = Inr (r1, [])"
    "reasm_inv r1" "rsm_config r1 = sample_config" "rsm_callback r1" "rsm_timeout_ms_runtime r1 = 100"
    "map_of (rsm_contexts r1) (fs_key sample_frame) = Some (canon sample_frame 5 {0})" by (rule sample_first)
  let ?c = "canon sample_frame 5 {0}"
  have c: "ctx_received_fragments ?c = (\<lambda>i. i = 0)" "ctx_fragment_sizes ?c = [2, 0, 0]" "ctx_first_frag_time_ms ?c = 5"
    "ctx_total_frags ?c = 3" "ctx_tail_frag_payload_bytes ?c = 1" "the (ref_data (ctx_fragment_refs ?c ! 0)) = [10, 11]"
    by (auto simp: canon_def sample_frame_def heap_ref_def upt_rec fun_eq_iff Let_def)
  have "check_timeout ?c 105 (rsm_timeout_ms_runtime r1)" by (simp add: check_timeout_def c r1(5))
  moreover have "replicate 2 (0 :: u8) = [0, 0]" by (simp add: numeral_2_eq_2)
  ultimately show ?thesis
    using timeout_frame_contents [OF r1(2,6), of 105 "\<lambda>_. 105"] r1(1,4) c
    by (auto simp: upt_rec infer_missing_fragment_size_def Let_def)
qed



text \<open>
  The counters of created and destroyed contexts account for the live ones: across processing a
  packet and across a timeout sweep, created minus destroyed minus the number of live contexts does
  not change, in 64-bit arithmetic.
\<close>

lemma context_accounting:
  assumes "reasm_inv r" and "packet_ok p"
  shows "(\<exists>r' out. process_packet p t r = Inr (r', out) \<and> ctx_balance r' = ctx_balance r) \<and>
      (\<exists>r' out. check_timeouts t clk r = Inr (r', out) \<and> ctx_balance r' = ctx_balance r)"
proof -
  obtain r1 out1 where r1: "process_packet p t r = Inr (r1, out1)"
    using process_packet_inv(1) [OF assms] process_packet_dropped(1) [of r p]
    by (cases "extract_fragment (rsm_config r) p"; force)
  obtain r2 out2 where r2: "check_timeouts t clk r = Inr (r2, out2)"
    using check_timeouts_eq [OF assms(1), of t clk] by blast
  show ?thesis
    using r1 process_packet_balance [OF assms r1] r2 complete_keys_balance [OF assms(1) r2 [unfolded check_timeouts_def]]
    by blast
qed

text \<open>
  A configuration that admits more than 1024 fragments per frame is not safe: assembling the frame
  of a context with more than 1024 fragments, as a timeout sweep does, raises \<^verbatim>\<open>std::out_of_range\<close> from
  \<^verbatim>\<open>bitset::test\<close> instead of returning.
\<close>

lemma oversized_context_throws:
  assumes "1024 < unat (ctx_total_frags c)"
  shows "complete_reassembly k c is_timeout now_ms r = Inl Bitset_out_of_range"
  by (simp add: complete_reassembly_def frame_of_context_throws [OF assms])

text \<open>
  A frame whose last fragment announces an empty payload is never reported complete: even when
  every fragment was received, the emitted frame lists the last index as missing.
\<close>

lemma empty_tail_reported_missing:
  assumes "ctx_ok cfg k c" and "\<forall>i < unat (ctx_total_frags c). ctx_received_fragments c i"
    and "\<forall>i < unat (ctx_total_frags c) - 1. 0 < ctx_fragment_sizes c ! i"
    and "ctx_fragment_sizes c ! (unat (ctx_total_frags c) - 1) = 0" and "ctx_total_frags c \<le> 1024"
  shows "\<exists>frame. frame_of_context cfg k c = Inr frame \<and> \<not> rf_is_complete frame \<and>
      rf_missing_frag_indices frame = [ctx_total_frags c - 1] \<and> rf_missing_fragments_count frame = 1"
proof -
  obtain n where n: "unat (ctx_total_frags c) = Suc n"
    using assms(1) by (metis ctx_ok_def gr0_conv_Suc)
  have present: "slot_present c i \<longleftrightarrow> i < n" if "i \<le> n" for i
    using slot_present_iff [OF assms(1), of i] assms(2-4) that n by (cases "i = n") auto
  have "filter (\<lambda>i. \<not> slot_present c i) [0..<Suc n] = [n]"
    using present by (auto simp: filter_empty_conv)
  moreover have "(word_of_nat n :: u16) = ctx_total_frags c - 1"
  proof -
    have "ctx_total_frags c = word_of_nat (Suc n)" unfolding n [symmetric] by simp
    then show ?thesis by simp
  qed
  moreover have "unat (ctx_total_frags c) \<le> 1024" using assms(5) by (simp add: word_le_nat_alt)
  ultimately show ?thesis
    by (simp only: frame_of_context_eq n assembled_frame_def Let_def) simp
qed

end
