(* ===== verification/Reassembly_Paths.thy ===== *)
theory Reassembly_Paths
  imports Reassembly_Order
begin

text \<open>
  The copying path (\<^verbatim>\<open>process_packet\<close>) and the zero-copy path (\<^verbatim>\<open>process_packet_zero_copy\<close>) of the
  reassembler differ only in who owns the bytes of a fragment.  \<open>norm_state\<close> forgets the owner; up to
  it the two paths go through the same states and emit the same frames on every packet sequence.
\<close>

definition norm_ref :: "FragmentRef \<Rightarrow> FragmentRef" where
  "norm_ref r = (if has_data r then heap_ref (the (ref_data r)) (ref_data_size r) else empty_ref)"

definition norm_ctx :: "ReassemblyContext \<Rightarrow> ReassemblyContext" where
  "norm_ctx c = c\<lparr>ctx_fragment_refs := map norm_ref (ctx_fragment_refs c)\<rparr>"

definition norm_contexts ::
  "(ReassemblyKey \<times> ReassemblyContext) list \<Rightarrow> (ReassemblyKey \<times> ReassemblyContext) list" where
  "norm_contexts m = map (apsnd norm_ctx) m"

definition norm_state :: "Reassembler_state \<Rightarrow> Reassembler_state" where
  "norm_state r = r\<lparr>rsm_contexts := norm_contexts (rsm_contexts r)\<rparr>"

definition norm_result ::
  "reasm_error + Reassembler_state \<times> ReassembledFrame list \<Rightarrow> reasm_error + Reassembler_state \<times> ReassembledFrame list" where
  "norm_result = map_sum id (apfst norm_state)"

fun run_packets_zero_copy ::
  "(ParsedPacket \<times> nat \<times> u64) list \<Rightarrow> Reassembler_state \<Rightarrow> reasm_error + Reassembler_state \<times> ReassembledFrame list" where
  "run_packets_zero_copy [] r = Inr (r, [])"
| "run_packets_zero_copy ((p, buf, t) # pts) r =
     (case process_packet_zero_copy p buf t r of
        Inl e \<Rightarrow> Inl e
      | Inr (r', out) \<Rightarrow> map_sum id (apsnd (append out)) (run_packets_zero_copy pts r'))"

fun run_packets_copying ::
  "(ParsedPacket \<times> nat \<times> u64) list \<Rightarrow> Reassembler_state \<Rightarrow> reasm_error + Reassembler_state \<times> ReassembledFrame list" where
  "run_packets_copying [] r = Inr (r, [])"
| "run_packets_copying ((p, buf, t) # pts) r =
     (case process_packet p t r of
        Inl e \<Rightarrow> Inl e
      | Inr (r', out) \<Rightarrow> map_sum id (apsnd (append out)) (run_packets_copying pts r'))"

subsection \<open>Normalisation of references and contexts\<close>

lemma has_data_norm [simp]: "has_data (norm_ref r) = has_data r"
  by (auto simp: norm_ref_def has_data_def heap_ref_def empty_ref_def Let_def)

lemma norm_ref_data:
  "has_data r \<Longrightarrow> ref_data_size (norm_ref r) = ref_data_size r"
  "has_data r \<Longrightarrow> take (ref_data_size r) (the (ref_data (norm_ref r))) = take (ref_data_size r) (the (ref_data r))"
  by (auto simp: norm_ref_def heap_ref_def Let_def)

lemma norm_ref_idem [simp]: "norm_ref (norm_ref r) = norm_ref r"
  by (auto simp: norm_ref_def has_data_def heap_ref_def empty_ref_def Let_def)

lemma norm_ref_pool_heap: "norm_ref (pool_ref buf bs n) = norm_ref (heap_ref bs n)"
  by (simp add: norm_ref_def pool_ref_def heap_ref_def has_data_def Let_def)

lemma norm_ctx_frame [simp]:
  "ctx_total_frags (norm_ctx c) = ctx_total_frags c" "ctx_fragment_sizes (norm_ctx c) = ctx_fragment_sizes c"
  "ctx_received_fragments (norm_ctx c) = ctx_received_fragments c"
  "ctx_tail_frag_payload_bytes (norm_ctx c) = ctx_tail_frag_payload_bytes c"
  "ctx_received_payload_bytes (norm_ctx c) = ctx_received_payload_bytes c"
  "ctx_received_count (norm_ctx c) = ctx_received_count c"
  "ctx_fragment_refs (norm_ctx c) = map norm_ref (ctx_fragment_refs c)"
  "ctx_first_frag_time_ms (norm_ctx c) = ctx_first_frag_time_ms c"
  "ctx_data_timestamp (norm_ctx c) = ctx_data_timestamp c"
  "ctx_execution_snapshot (norm_ctx c) = ctx_execution_snapshot c"
  "ctx_has_execution_snapshot (norm_ctx c) = ctx_has_execution_snapshot c"
  by (simp_all add: norm_ctx_def)

lemma norm_ctx_idem [simp]: "norm_ctx (norm_ctx c) = norm_ctx c"
  by (simp add: norm_ctx_def)

lemma infer_norm [simp]: "infer_missing_fragment_size (norm_ctx c) i cfg cc dt = infer_missing_fragment_size c i cfg cc dt"
  unfolding infer_missing_fragment_size_def norm_ctx_frame ..

lemma assembled_size_norm [simp]: "assembled_size cfg (norm_ctx c) cc dt is = assembled_size cfg c cc dt is"
  by (induction "is") (auto simp: norm_ref_data Let_def split: sum.splits)

lemma assemble_norm [simp]: "assemble cfg (norm_ctx c) cc dt is = assemble cfg c cc dt is"
  by (induction "is") (auto simp: norm_ref_data Let_def split: sum.splits)

lemma frame_of_context_norm [simp]: "frame_of_context cfg k (norm_ctx c) = frame_of_context cfg k c"
  unfolding frame_of_context_def norm_ctx_frame assembled_size_norm assemble_norm ..

lemma check_complete_norm [simp]: "check_complete (norm_ctx c) = check_complete c"
  by (simp add: check_complete_def)

lemma norm_with_snapshot: "norm_ctx (with_snapshot s c) = with_snapshot s (norm_ctx c)"
  by (simp add: with_snapshot_def norm_ctx_def split: option.split)

lemma norm_stored_context:
  assumes "norm_ref ref = norm_ref ref'"
  shows "norm_ctx (stored_context ref n i c) = norm_ctx (stored_context ref' n i (norm_ctx c))"
  using assms by (simp add: stored_context_def norm_ctx_def map_update comp_def)

lemma store_fragment_norm:
  assumes "norm_ref ref = norm_ref ref'"
  shows "(case store_fragment ref mx h n c st of (c', st', b) \<Rightarrow> (norm_ctx c', st', b)) =
      (case store_fragment ref' mx h n (norm_ctx c) st of (c', st', b) \<Rightarrow> (norm_ctx c', st', b))"
  unfolding store_fragment_if Let_def using norm_stored_context [OF assms] by simp

subsection \<open>Normalisation of states\<close>

lemma map_of_norm [simp]: "map_of (norm_contexts m) k = map_option norm_ctx (map_of m k)"
  by (induction m) (auto simp: norm_contexts_def)

lemma length_norm_contexts [simp]: "length (norm_contexts m) = length m"
  by (simp add: norm_contexts_def)

lemma update_norm: "AList.update k (norm_ctx c) (norm_contexts m) = norm_contexts (AList.update k c m)"
  by (induction m) (auto simp: norm_contexts_def)

lemma update_norm': "norm_contexts (AList.update k c m) = AList.update k (norm_ctx c) (norm_contexts m)"
  by (rule update_norm [symmetric])

lemma delete_norm: "norm_contexts (AList.delete k m) = AList.delete k (norm_contexts m)"
  by (induction m) (auto simp: norm_contexts_def)

lemma norm_contexts_idem [simp]: "norm_contexts (norm_contexts m) = norm_contexts m"
  by (auto simp: norm_contexts_def)

lemma norm_state_frame [simp]:
  "rsm_config (norm_state r) = rsm_config r" "rsm_callback (norm_state r) = rsm_callback r"
  "rsm_contexts (norm_state r) = norm_contexts (rsm_contexts r)"
  "rsm_frozen_keys_ring (norm_state r) = rsm_frozen_keys_ring r"
  "rsm_frozen_keys_next_insert (norm_state r) = rsm_frozen_keys_next_insert r"
  "rsm_stats (norm_state r) = rsm_stats r" "rsm_timeout_ms_runtime (norm_state r) = rsm_timeout_ms_runtime r"
  by (simp_all add: norm_state_def)

lemma norm_state_idem [simp]: "norm_state (norm_state r) = norm_state r"
  by (simp add: norm_state_def)

lemma norm_state_eqI:
  "rsm_config a = rsm_config b \<Longrightarrow> rsm_callback a = rsm_callback b \<Longrightarrow>
   norm_contexts (rsm_contexts a) = norm_contexts (rsm_contexts b) \<Longrightarrow>
   rsm_frozen_keys_ring a = rsm_frozen_keys_ring b \<Longrightarrow>
   rsm_frozen_keys_next_insert a = rsm_frozen_keys_next_insert b \<Longrightarrow>
   rsm_stats a = rsm_stats b \<Longrightarrow> rsm_timeout_ms_runtime a = rsm_timeout_ms_runtime b \<Longrightarrow>
   norm_state a = norm_state b"
  by (simp add: norm_state_def)

lemma norm_state_eqD:
  assumes "norm_state a = norm_state b"
  shows "rsm_config a = rsm_config b" "rsm_callback a = rsm_callback b" "rsm_stats a = rsm_stats b"
    "rsm_frozen_keys_ring a = rsm_frozen_keys_ring b" "rsm_frozen_keys_next_insert a = rsm_frozen_keys_next_insert b"
    "rsm_timeout_ms_runtime a = rsm_timeout_ms_runtime b"
    "norm_contexts (rsm_contexts a) = norm_contexts (rsm_contexts b)"
  using assms norm_state_frame by metis+

lemma complete_reassembly_norm:
  assumes "norm_ctx c = norm_ctx c'" and "norm_state r = norm_state r'"
  shows "norm_result (complete_reassembly k c False t r) = norm_result (complete_reassembly k c' False t r')"
proof -
  have frames: "frame_of_context cfg k c = frame_of_context cfg k c'" for cfg
    using frame_of_context_norm [of cfg k c] frame_of_context_norm [of cfg k c'] assms(1) by simp
  note eqs = norm_state_eqD [OF assms(2)]
  have "map_option norm_ctx (map_of (rsm_contexts r) k) = map_option norm_ctx (map_of (rsm_contexts r') k)"
    using arg_cong [OF eqs(7), of "\<lambda>m. map_of m k"] by simp
  then have dest: "norm_state (destroy_context k (r\<lparr>rsm_stats := st\<rparr>)) = norm_state (destroy_context k (r'\<lparr>rsm_stats := st\<rparr>))" for st
    using eqs by (auto simp: destroy_context_def delete_norm intro!: norm_state_eqI split: option.splits)
  show ?thesis
    using dest by (simp add: complete_reassembly_def frames eqs norm_result_def Let_def split: sum.split)
qed

lemma store_and_complete_norm:
  assumes "norm_ref ref = norm_ref ref'" and "norm_ctx c = norm_ctx c'" and "norm_state r = norm_state r'"
  shows "norm_result (store_and_complete ref k f c r) = norm_result (store_and_complete ref' k f c' r')"
proof -
  note eqs = norm_state_eqD [OF assms(3)]
  let ?mx = "rc_max_reasm_bytes_per_key (rsm_config r')" and ?w = "with_snapshot (fr_snapshot f)"
  obtain c1 st1 b1 where s1: "store_fragment ref ?mx (fr_specific f) (fr_payload_size f) (?w c) (rsm_stats r') = (c1, st1, b1)"
    by (metis prod_cases3)
  obtain c2 st2 b2 where s2: "store_fragment ref' ?mx (fr_specific f) (fr_payload_size f) (?w c') (rsm_stats r') = (c2, st2, b2)"
    by (metis prod_cases3)
  have w: "norm_ctx (?w c) = norm_ctx (?w c')" unfolding norm_with_snapshot assms(2) ..
  have same: "norm_ctx c1 = norm_ctx c2" "st1 = st2" "b1 = b2"
    using store_fragment_norm [OF assms(1), of ?mx "fr_specific f" "fr_payload_size f" "?w c" "rsm_stats r'"]
      store_fragment_norm [OF refl, of ref' ?mx "fr_specific f" "fr_payload_size f" "?w c'" "rsm_stats r'"] s1 s2 w
    by (auto split: prod.splits)
  let ?r1 = "r\<lparr>rsm_contexts := AList.update k c1 (rsm_contexts r), rsm_stats := st2\<rparr>"
  let ?r2 = "r'\<lparr>rsm_contexts := AList.update k c2 (rsm_contexts r'), rsm_stats := st2\<rparr>"
  have st: "norm_state ?r1 = norm_state ?r2"
    using eqs same by (intro norm_state_eqI) (simp_all add: update_norm')
  have "check_complete c1 = check_complete c2" using same(1) check_complete_norm by metis
  then show ?thesis
    using s1 s2 same(2,3) st complete_reassembly_norm [OF same(1) st, of k 0] eqs(1)
    by (simp add: store_and_complete_def eqs Let_def norm_result_def)
qed

lemma get_or_create_norm:
  assumes "norm_state r = norm_state r'"
    and "get_or_create_context k tf tail ts t r = (co, r1)" and "get_or_create_context k tf tail ts t r' = (co', r1')"
  shows "map_option norm_ctx co = map_option norm_ctx co'" and "norm_state r1 = norm_state r1'"
proof -
  note eqs = norm_state_eqD [OF assms(1)]
  have mo: "map_option norm_ctx (map_of (rsm_contexts r) k) = map_option norm_ctx (map_of (rsm_contexts r') k)"
    using arg_cong [OF eqs(7), of "\<lambda>m. map_of m k"] by simp
  have len: "length (rsm_contexts r) = length (rsm_contexts r')"
    using arg_cong [OF eqs(7), of length] by simp
  have "map_option norm_ctx co = map_option norm_ctx co' \<and> norm_state r1 = norm_state r1'"
  proof (cases "map_of (rsm_contexts r) k")
    case None
    then have none': "map_of (rsm_contexts r') k = None" using mo by (cases "map_of (rsm_contexts r') k") auto
    show ?thesis
      using assms(2,3) None none' len eqs
      by (auto simp: get_or_create_context_def Let_def update_norm' intro!: norm_state_eqI split: if_splits)
  next
    case (Some c)
    then obtain c' where "map_of (rsm_contexts r') k = Some c'" using mo by (cases "map_of (rsm_contexts r') k") auto
    with Some show ?thesis using assms mo by (auto simp: get_or_create_context_def)
  qed
  then show "map_option norm_ctx co = map_option norm_ctx co'" and "norm_state r1 = norm_state r1'" by auto
qed

lemma process_fragment_norm:
  assumes "\<And>mx c st. add mx (fr_specific f) (fr_payload f) (fr_payload_size f) c st =
      store_fragment ref mx (fr_specific f) (fr_payload_size f) c st"
    and "\<And>mx c st. add' mx (fr_specific f) (fr_payload f) (fr_payload_size f) c st =
      store_fragment ref' mx (fr_specific f) (fr_payload_size f) c st"
    and "norm_ref ref = norm_ref ref'" and "norm_state r = norm_state r'"
  shows "norm_result (process_fragment add common f t r) = norm_result (process_fragment add' common f t r')"
proof -
  let ?k = "extract_key common (fr_specific f)"
  have ring: "rsm_frozen_keys_ring r = rsm_frozen_keys_ring r'" using assms(4) norm_state_frame by metis
  have sc: "norm_state (scanned ?k t r) = norm_state (scanned ?k t r')"
    using norm_state_eqD [OF assms(4)] by (intro norm_state_eqI) (simp_all add: scanned_def)
  obtain co r1 where g: "get_or_create_context ?k (total_frags (fr_specific f)) (tail_frag_payload_bytes (fr_specific f))
      (data_timestamp (fr_specific f)) t (scanned ?k t r) = (co, r1)" by fastforce
  obtain co' r1' where g': "get_or_create_context ?k (total_frags (fr_specific f)) (tail_frag_payload_bytes (fr_specific f))
      (data_timestamp (fr_specific f)) t (scanned ?k t r') = (co', r1')" by fastforce
  note gn = get_or_create_norm [OF sc g g']
  have late: "norm_state (r\<lparr>rsm_frozen_keys_ring := ring, rsm_stats := st\<rparr>) = norm_state (r'\<lparr>rsm_frozen_keys_ring := ring, rsm_stats := st\<rparr>)"
    for ring st
    using norm_state_eqD [OF assms(4)] by (intro norm_state_eqI) simp_all
  have stats: "rsm_stats r = rsm_stats r'" using assms(4) norm_state_frame by metis
  show ?thesis
  proof (cases "fst (is_key_frozen ?k t (rsm_frozen_keys_ring r'))")
    case True
    then show ?thesis
      using late by (simp add: process_fragment_eq [of add f ref, OF assms(1)] process_fragment_eq [of add' f ref', OF assms(2)]
          Let_def norm_result_def ring scanned_def stats)
  next
    case False
    show ?thesis
    proof (cases co)
      case None
      then have "co' = None" using gn(1) by (cases co') auto
      with None False gn(2) show ?thesis
        by (simp add: process_fragment_eq [of add f ref, OF assms(1)] process_fragment_eq [of add' f ref', OF assms(2)]
            Let_def ring g g' norm_result_def)
    next
      case (Some c)
      then obtain c' where c': "co' = Some c'" "norm_ctx c = norm_ctx c'" using gn(1) by (cases co') auto
      from store_and_complete_norm [OF assms(3) c'(2) gn(2), of ?k f] Some c' False show ?thesis
        by (simp add: process_fragment_eq [of add f ref, OF assms(1)] process_fragment_eq [of add' f ref', OF assms(2)]
            Let_def ring g g')
    qed
  qed
qed

lemma process_packet_paths:
  assumes "norm_state r = norm_state r'"
  shows "norm_result (process_packet_zero_copy p buf t r) = norm_result (process_packet p t r')"
proof -
  have cfg: "rsm_config r = rsm_config r'" using assms norm_state_frame by metis
  have stats: "rsm_stats r = rsm_stats r'" using assms norm_state_frame by metis
  have cnt: "norm_state (count_fragment r) = norm_state (count_fragment r')"
    using norm_state_eqD [OF assms] by (intro norm_state_eqI) (simp_all add: count_fragment_def)
  show ?thesis
  proof (cases "extract_fragment (rsm_config r') p")
    case None
    then show ?thesis using cfg cnt by (simp add: process_packet_dropped norm_result_def)
  next
    case (Some f)
    then show ?thesis
      using process_fragment_norm [of "add_fragment_zero_copy buf" f "pool_ref buf (fr_payload f) (fr_payload_size f)" add_fragment
          "heap_ref (fr_payload f) (fr_payload_size f)", OF _ _ norm_ref_pool_heap cnt] cfg
      by (simp add: process_packet_zero_copy_def process_packet_def add_fragment_def add_fragment_zero_copy_def Let_def)
  qed
qed

lemma zero_copy_runs:
  assumes "norm_state r = norm_state r'"
  shows "norm_result (run_packets_zero_copy pts r) = norm_result (run_packets_copying pts r')"
  using assms
proof (induction pts arbitrary: r r')
  case (Cons pt pts)
  obtain p buf t where pt: "pt = (p, buf, t)" by (cases pt) auto
  note step = process_packet_paths [OF Cons.prems, of p buf t]
  show ?case
  proof (cases "process_packet_zero_copy p buf t r")
    case (Inl e)
    then show ?thesis using step by (cases "process_packet p t r'") (auto simp: pt norm_result_def)
  next
    case (Inr x)
    then obtain r1 out r1' where 1: "process_packet_zero_copy p buf t r = Inr (r1, out)"
      "process_packet p t r' = Inr (r1', out)" and n: "norm_state r1 = norm_state r1'"
      using step by (cases "process_packet p t r'"; cases x) (auto simp: norm_result_def apfst_def map_prod_def)
    have swap: "norm_result (map_sum id (apsnd (append out)) y) = map_sum id (apsnd (append out)) (norm_result y)" for y
      by (cases y) (auto simp: norm_result_def)
    show ?thesis using 1 Cons.IH [OF n] by (simp add: pt swap)
  qed
qed (simp add: norm_result_def)

subsection \<open>Properties\<close>



end
