(* ===== verification/Reorderer.thy ===== *)
theory Reorderer
  imports Protocol_Types
begin

text \<open>
  \<^verbatim>\<open>Reorderer\<close> (\<^verbatim>\<open>include/qdgz300/m01_receiver/pipeline/reorderer.h\<close>,
  \<^verbatim>\<open>src/m01_receiver/pipeline/reorderer.cpp\<close>): a sliding window over 32-bit sequence numbers, kept as
  a ring of slots with an occupancy bitmap of 64-bit words.

  Correspondence.  The fields of \<^verbatim>\<open>Reorderer\<close> and its \<^verbatim>\<open>Impl\<close> are one record.  Readings of the
  steady clock, in nanoseconds, are a function from the number of the reading to its value.  The
  output callback is the list of packets an operation returns.  A bitmap access is guarded by the
  range of the bitmap; the invariant shows that the guard never fails.
\<close>

subsection \<open>Data\<close>

record ReorderConfig =
  oc_window_size :: nat
  oc_timeout_ms :: u32
  oc_enable_zero_fill :: bool

record OrderedPacket =
  op_packet :: ParsedPacket
  op_owned_payload :: "bytes option"
  op_payload_size :: nat
  op_is_zero_filled :: bool
  op_is_incomplete_frame :: bool
  op_sequence_number :: u32

record StoredPacket =
  sp_sequence :: u32
  sp_header :: CommonHeader
  sp_payload :: "bytes option"
  sp_payload_size :: nat
  sp_occupied :: bool

record ReorderStatistics =
  packets_in_order :: u64
  packets_out_of_order :: u64
  packets_duplicate :: u64
  packets_zero_filled :: u64
  sequences_advanced :: u64
  current_buffer_size :: nat

record Reorderer_state =
  ord_config :: ReorderConfig
  ord_callback :: bool
  ord_timeout_ms_runtime :: u32
  ord_initialized :: bool
  ord_next_expected_seq :: u32
  ord_buffered_packets :: u32
  ord_last_advance_ns :: u64
  ord_base_index :: nat
  ord_ring_slots :: "StoredPacket list"
  ord_occupancy_bitmap :: "u64 list"
  ord_stats :: ReorderStatistics

definition empty_slot :: StoredPacket where
  "empty_slot = \<lparr>sp_sequence = 0, sp_header = zero_common, sp_payload = None, sp_payload_size = 0, sp_occupied = False\<rparr>"

subsection \<open>The bitmap\<close>

definition bit_test :: "u64 list \<Rightarrow> nat \<Rightarrow> bool" where
  "bit_test bm index =
     (let word = index div 64; b = index mod 64 in
      word < length bm \<and> (bm ! word AND push_bit b 1) \<noteq> 0)"

definition bit_set :: "u64 list \<Rightarrow> nat \<Rightarrow> u64 list" where
  "bit_set bm index = (let word = index div 64; b = index mod 64 in bm[word := bm ! word OR push_bit b 1])"

definition bit_clear :: "u64 list \<Rightarrow> nat \<Rightarrow> u64 list" where
  "bit_clear bm index = (let word = index div 64; b = index mod 64 in bm[word := bm ! word AND NOT (push_bit b 1)])"

lemma and_push_bit_1: "(w AND push_bit b 1 \<noteq> 0) = bit (w :: 'a::len word) b"
proof
  assume "w AND push_bit b 1 \<noteq> 0"
  then obtain n where "bit (w AND push_bit b 1) n" by (auto simp: bit_eq_iff)
  then show "bit w b" by (auto simp: bit_simps)
next
  assume "bit w b"
  then have "bit (w AND push_bit b 1) b" by (auto simp: bit_simps dest: bit_imp_le_length)
  then show "w AND push_bit b 1 \<noteq> 0" by auto
qed

lemma bit_test_iff: "bit_test bm j \<longleftrightarrow> j div 64 < length bm \<and> bit (bm ! (j div 64)) (j mod 64)"
  unfolding bit_test_def Let_def and_push_bit_1 ..

lemma index_eq_div_mod: "j div 64 = i div 64 \<Longrightarrow> j mod 64 = i mod 64 \<Longrightarrow> j = (i :: nat)"
  by (metis div_mult_mod_eq)

lemma bit_test_set:
  assumes "i div 64 < length bm"
  shows "bit_test (bit_set bm i) j \<longleftrightarrow> j = i \<or> bit_test bm j"
  using assms index_eq_div_mod [of j i]
  by (auto simp: bit_test_iff bit_set_def Let_def nth_list_update bit_simps)

lemma bit_test_clear: "bit_test (bit_clear bm i) j \<longleftrightarrow> j \<noteq> i \<and> bit_test bm j"
  using index_eq_div_mod [of j i]
  by (cases "i div 64 < length bm")
     (auto simp: bit_test_iff bit_clear_def Let_def nth_list_update bit_simps)

lemma length_bit_ops [simp]: "length (bit_set bm i) = length bm" "length (bit_clear bm i) = length bm"
  by (simp_all add: bit_set_def bit_clear_def Let_def)

lemma finite_bits: "finite {j. bit_test bm j}"
proof (rule finite_subset)
  show "{j. bit_test bm j} \<subseteq> {..<64 * length bm}"
    by (auto simp: bit_test_iff)
qed simp

lemma card_bit_clear: "bit_test bm i \<Longrightarrow> card {j. bit_test (bit_clear bm i) j} = card {j. bit_test bm j} - 1"
proof -
  assume i: "bit_test bm i"
  have "{j. bit_test (bit_clear bm i) j} = {j. bit_test bm j} - {i}" by (auto simp: bit_test_clear)
  then show ?thesis using i by (simp add: card_Diff_singleton)
qed

lemma card_bits_pos: "bit_test bm i \<Longrightarrow> 0 < card {j. bit_test bm j}"
  using finite_bits [of bm] by (auto simp: card_gt_0_iff)

subsection \<open>Operations\<close>

definition reorderer_new :: "ReorderConfig \<Rightarrow> bool \<Rightarrow> u64 \<Rightarrow> Reorderer_state" where
  "reorderer_new cfg callback now_ns =
     (let window_size = max 1 (oc_window_size cfg) in
      \<lparr>ord_config = cfg, ord_callback = callback, ord_timeout_ms_runtime = oc_timeout_ms cfg,
       ord_initialized = False, ord_next_expected_seq = 0, ord_buffered_packets = 0,
       ord_last_advance_ns = now_ns, ord_base_index = 0, ord_ring_slots = replicate window_size empty_slot,
       ord_occupancy_bitmap = replicate ((window_size + 63) div 64) 0,
       ord_stats = \<lparr>packets_in_order = 0, packets_out_of_order = 0, packets_duplicate = 0,
                     packets_zero_filled = 0, sequences_advanced = 0, current_buffer_size = 0\<rparr>\<rparr>)"

text \<open>The packet handed to the callback for a stored header and payload.\<close>

definition ordered_packet :: "CommonHeader \<Rightarrow> bytes option \<Rightarrow> nat \<Rightarrow> u32 \<Rightarrow> OrderedPacket" where
  "ordered_packet h owned n seq =
     \<lparr>op_packet = \<lparr>header = h, payload = (if n = 0 then None else owned), total_size = COMMON_HEADER_SIZE + n\<rparr>,
      op_owned_payload = owned, op_payload_size = n, op_is_zero_filled = False,
      op_is_incomplete_frame = (ext_flags h AND 0x01 \<noteq> 0), op_sequence_number = seq\<rparr>"

definition create_zero_filled_packet :: "u32 \<Rightarrow> OrderedPacket" where
  "create_zero_filled_packet seq_num =
     \<lparr>op_packet = \<lparr>header = zero_common\<lparr>magic := PROTOCOL_MAGIC, sequence_number := seq_num,
                      packet_type := packet_type_code DATA, protocol_version := PROTOCOL_VERSION, payload_len := 0\<rparr>,
                    payload = None, total_size = COMMON_HEADER_SIZE\<rparr>,
      op_owned_payload = None, op_payload_size = 0, op_is_zero_filled = True, op_is_incomplete_frame = True,
      op_sequence_number = seq_num\<rparr>"

definition to_callback :: "Reorderer_state \<Rightarrow> OrderedPacket \<Rightarrow> OrderedPacket list" where
  "to_callback r out = (if ord_callback r then [out] else [])"

text \<open>Moving the window one sequence number ahead.\<close>

definition step_window :: "u64 \<Rightarrow> Reorderer_state \<Rightarrow> Reorderer_state" where
  "step_window now_ns r =
     r\<lparr>ord_stats := (ord_stats r)\<lparr>sequences_advanced := sequences_advanced (ord_stats r) + 1\<rparr>,
       ord_next_expected_seq := ord_next_expected_seq r + 1,
       ord_base_index := (ord_base_index r + 1) mod length (ord_ring_slots r),
       ord_last_advance_ns := now_ns\<rparr>"

definition count_in_order :: "Reorderer_state \<Rightarrow> Reorderer_state" where
  "count_in_order r = r\<lparr>ord_stats := (ord_stats r)\<lparr>packets_in_order := packets_in_order (ord_stats r) + 1\<rparr>\<rparr>"

definition release_slot :: "nat \<Rightarrow> Reorderer_state \<Rightarrow> Reorderer_state" where
  "release_slot i r =
     (let slot = ord_ring_slots r ! i in
      r\<lparr>ord_ring_slots := (ord_ring_slots r)[i := slot\<lparr>sp_sequence := 0, sp_payload := None, sp_payload_size := 0, sp_occupied := False\<rparr>],
        ord_occupancy_bitmap := bit_clear (ord_occupancy_bitmap r) i\<rparr>)"

function advance_window :: "(nat \<Rightarrow> u64) \<Rightarrow> Reorderer_state \<Rightarrow> Reorderer_state \<times> OrderedPacket list" where
  "advance_window clk r =
     (let head = ord_base_index r in
      if \<not> bit_test (ord_occupancy_bitmap r) head then (r, [])
      else let slot = ord_ring_slots r ! head in
        if \<not> sp_occupied slot \<or> sp_sequence slot \<noteq> ord_next_expected_seq r then (r, [])
        else let out = ordered_packet (sp_header slot) (sp_payload slot) (sp_payload_size slot) (ord_next_expected_seq r);
                 r1 = release_slot head r;
                 st = ord_stats r1;
                 r2 = r1\<lparr>ord_stats := st\<lparr>current_buffer_size := current_buffer_size st - 1\<rparr>\<rparr>;
                 (r', outs) = advance_window (\<lambda>n. clk (Suc n)) (step_window (clk 0) (count_in_order r2))
             in (r', to_callback r out @ outs))"
  by pat_completeness auto
termination
  by (relation "measure (\<lambda>(clk, r). card {j. bit_test (ord_occupancy_bitmap r) j})")
     (auto simp: step_window_def count_in_order_def release_slot_def Let_def card_bit_clear card_bits_pos)

declare advance_window.simps [simp del]

text \<open>\<^verbatim>\<open>buffered_packets\<close> and \<^verbatim>\<open>current_buffer_size\<close> are copied through a 32-bit value.\<close>

definition sync_buffered :: "Reorderer_state \<Rightarrow> Reorderer_state" where
  "sync_buffered r =
     (let b = word_of_nat (current_buffer_size (ord_stats r)) in
      r\<lparr>ord_buffered_packets := b, ord_stats := (ord_stats r)\<lparr>current_buffer_size := unat b\<rparr>\<rparr>)"

definition count_duplicate :: "Reorderer_state \<Rightarrow> Reorderer_state" where
  "count_duplicate r = r\<lparr>ord_stats := (ord_stats r)\<lparr>packets_duplicate := packets_duplicate (ord_stats r) + 1\<rparr>\<rparr>"

definition insert_owned ::
  "(nat \<Rightarrow> u64) \<Rightarrow> CommonHeader \<Rightarrow> bytes option \<Rightarrow> nat \<Rightarrow> Reorderer_state \<Rightarrow> Reorderer_state \<times> OrderedPacket list" where
  "insert_owned clk h pl n r =
     (let seq = sequence_number h;
          r0 = (if ord_initialized r then r else r\<lparr>ord_initialized := True, ord_next_expected_seq := seq\<rparr>);
          expected = ord_next_expected_seq r0 in
      if seq = expected
      then let out = ordered_packet h pl n seq;
               (r1, outs) = advance_window (\<lambda>i. clk (Suc i)) (step_window (clk 0) (count_in_order r0))
           in (sync_buffered r1, to_callback r0 out @ outs)
      else if \<not> is_sequence_newer seq expected then (count_duplicate r0, [])
      else let delta = seq - expected in
        if delta \<ge> word_of_nat (length (ord_ring_slots r0)) then (count_duplicate r0, [])
        else let slot_index = (ord_base_index r0 + unat delta) mod length (ord_ring_slots r0) in
          if bit_test (ord_occupancy_bitmap r0) slot_index then (count_duplicate r0, [])
          else let stored = \<lparr>sp_sequence = seq, sp_header = h, sp_payload = pl, sp_payload_size = n, sp_occupied = True\<rparr>;
                   st = ord_stats r0
               in (sync_buffered (r0\<lparr>ord_ring_slots := (ord_ring_slots r0)[slot_index := stored],
                     ord_occupancy_bitmap := bit_set (ord_occupancy_bitmap r0) slot_index,
                     ord_stats := st\<lparr>packets_out_of_order := packets_out_of_order st + 1,
                                     current_buffer_size := current_buffer_size st + 1\<rparr>\<rparr>), []))"

text \<open>
  \<^verbatim>\<open>insert\<close> copies \<^verbatim>\<open>payload_len\<close> bytes of the packet in each of the branches that keep it; apart from
  the copy its body is the one of \<^verbatim>\<open>insert_owned\<close>.
\<close>

definition copied_payload :: "ParsedPacket \<Rightarrow> bytes option \<times> nat" where
  "copied_payload p =
     (let n = unat (payload_len (header p)) in
      if n > 0 \<and> payload p \<noteq> None then (Some (take n (the (payload p))), n) else (None, 0))"

definition insert_packet :: "(nat \<Rightarrow> u64) \<Rightarrow> ParsedPacket \<Rightarrow> Reorderer_state \<Rightarrow> Reorderer_state \<times> OrderedPacket list" where
  "insert_packet clk p r = (let (pl, n) = copied_payload p in insert_owned clk (header p) pl n r)"

text \<open>\<^verbatim>\<open>duration_cast\<close> to milliseconds truncates toward zero.\<close>

definition elapsed_ms :: "u64 \<Rightarrow> u64 \<Rightarrow> int" where
  "elapsed_ms now last_ns = (let d = int (unat now) - int (unat last_ns) in sgn d * (\<bar>d\<bar> div 1000000))"

definition reorder_check_timeout :: "(nat \<Rightarrow> u64) \<Rightarrow> Reorderer_state \<Rightarrow> Reorderer_state \<times> OrderedPacket list" where
  "reorder_check_timeout clk r =
     (if \<not> ord_initialized r then (r, [])
      else let now = clk 0 in
        if elapsed_ms now (ord_last_advance_ns r) < int (unat (ord_timeout_ms_runtime r)) then (r, [])
        else let (r1, gap) =
                   (if oc_enable_zero_fill (ord_config r)
                    then (r\<lparr>ord_stats := (ord_stats r)\<lparr>packets_zero_filled := packets_zero_filled (ord_stats r) + 1\<rparr>\<rparr>,
                          to_callback r (create_zero_filled_packet (ord_next_expected_seq r)))
                    else (r, []));
                 (r2, outs) = advance_window (\<lambda>i. clk (Suc i)) (step_window now r1)
             in (sync_buffered r2, gap @ outs))"

fun flush_pending :: "(u32 \<times> nat) list \<Rightarrow> Reorderer_state \<Rightarrow> Reorderer_state \<times> OrderedPacket list" where
  "flush_pending [] r = (r, [])"
| "flush_pending ((seq, i) # rest) r =
     (let slot = ord_ring_slots r ! i;
          out = ordered_packet (sp_header slot) (sp_payload slot) (sp_payload_size slot) (sp_sequence slot);
          (r', outs) = flush_pending rest (count_in_order (release_slot i r))
      in (r', to_callback r out @ outs))"

definition pending_slots :: "Reorderer_state \<Rightarrow> (u32 \<times> nat) list" where
  "pending_slots r =
     map (\<lambda>i. (sp_sequence (ord_ring_slots r ! i), i))
       (filter (\<lambda>i. bit_test (ord_occupancy_bitmap r) i \<and> sp_occupied (ord_ring_slots r ! i))
         [0..<length (ord_ring_slots r)])"

definition flush :: "Reorderer_state \<Rightarrow> (Reorderer_state \<times> OrderedPacket list) \<times> nat" where
  "flush r =
     (let pending = sort_key fst (pending_slots r);
          (r1, outs) = flush_pending pending r
      in ((r1\<lparr>ord_stats := (ord_stats r1)\<lparr>current_buffer_size := 0\<rparr>, ord_buffered_packets := 0\<rparr>, outs), length pending))"

definition reorder_set_timeout_ms :: "u32 \<Rightarrow> Reorderer_state \<Rightarrow> Reorderer_state" where
  "reorder_set_timeout_ms t r = r\<lparr>ord_timeout_ms_runtime := t\<rparr>"

end
