(* ===== verification/Reorder_Refinement.thy ===== *)
theory Reorder_Refinement
  imports Reorderer
begin

text \<open>
  The specification of the reorderer, free of ring and bitmap: the next expected number and a map
  from the sequence numbers that wait in the window to their packets.  The lemmas show that the ring
  implements it: every operation of \<^verbatim>\<open>Reorderer\<close> commutes with the abstraction and emits the same packets.
\<close>

type_synonym item = "CommonHeader \<times> bytes option \<times> nat"
type_synonym window = "(u32 \<times> (u32 \<rightharpoonup> item)) option"

subsection \<open>Specification\<close>

definition item_out :: "item \<Rightarrow> u32 \<Rightarrow> OrderedPacket" where
  "item_out it s = (case it of (h, pl, n) \<Rightarrow> ordered_packet h pl n s)"

fun spec_drain :: "nat \<Rightarrow> u32 \<Rightarrow> (u32 \<rightharpoonup> item) \<Rightarrow> u32 \<times> (u32 \<rightharpoonup> item) \<times> OrderedPacket list" where
  "spec_drain 0 e m = (e, m, [])"
| "spec_drain (Suc k) e m =
     (case m e of
        None \<Rightarrow> (e, m, [])
      | Some it \<Rightarrow>
          (case spec_drain k (e + 1) (m(e := None)) of (e', m', outs) \<Rightarrow> (e', m', item_out it e # outs)))"

definition spec_insert :: "nat \<Rightarrow> item \<Rightarrow> window \<Rightarrow> window \<times> OrderedPacket list" where
  "spec_insert N it w =
     (let seq = sequence_number (fst it); (e, m) = (case w of None \<Rightarrow> (seq, Map.empty) | Some em \<Rightarrow> em) in
      if seq = e
      then case spec_drain N (e + 1) m of (e', m', outs) \<Rightarrow> (Some (e', m'), item_out it seq # outs)
      else if unat (seq - e) < N \<and> m seq = None then (Some (e, m(seq \<mapsto> it)), [])
      else (Some (e, m), []))"

definition spec_timeout :: "nat \<Rightarrow> bool \<Rightarrow> window \<Rightarrow> window \<times> OrderedPacket list" where
  "spec_timeout N zero_fill w =
     (case w of
        None \<Rightarrow> (None, [])
      | Some (e, m) \<Rightarrow>
          (case spec_drain N (e + 1) m of
             (e', m', outs) \<Rightarrow> (Some (e', m'), (if zero_fill then [create_zero_filled_packet e] else []) @ outs)))"

subsection \<open>Abstraction and invariant\<close>

definition slot_at :: "Reorderer_state \<Rightarrow> nat \<Rightarrow> nat" where
  "slot_at r d = (ord_base_index r + d) mod length (ord_ring_slots r)"

definition slot_item :: "StoredPacket \<Rightarrow> item" where
  "slot_item s = (sp_header s, sp_payload s, sp_payload_size s)"

definition pend :: "Reorderer_state \<Rightarrow> u32 \<rightharpoonup> item" where
  "pend r s =
     (let d = unat (s - ord_next_expected_seq r) in
      if d < length (ord_ring_slots r) \<and> bit_test (ord_occupancy_bitmap r) (slot_at r d)
      then Some (slot_item (ord_ring_slots r ! slot_at r d)) else None)"

definition window_of :: "Reorderer_state \<Rightarrow> window" where
  "window_of r = (if ord_initialized r then Some (ord_next_expected_seq r, pend r) else None)"

definition winv :: "Reorderer_state \<Rightarrow> bool" where
  "winv r \<longleftrightarrow>
     0 < length (ord_ring_slots r) \<and> length (ord_ring_slots r) \<le> 2 ^ 31 \<and>
     length (ord_occupancy_bitmap r) = (length (ord_ring_slots r) + 63) div 64 \<and>
     ord_base_index r < length (ord_ring_slots r) \<and>
     (\<forall>j. bit_test (ord_occupancy_bitmap r) j \<longrightarrow> j < length (ord_ring_slots r) \<and> sp_occupied (ord_ring_slots r ! j)) \<and>
     (\<forall>d < length (ord_ring_slots r). bit_test (ord_occupancy_bitmap r) (slot_at r d) \<longrightarrow>
        sp_sequence (ord_ring_slots r ! slot_at r d) = ord_next_expected_seq r + word_of_nat d) \<and>
     current_buffer_size (ord_stats r) = card {j. bit_test (ord_occupancy_bitmap r) j}"

definition base_free :: "Reorderer_state \<Rightarrow> bool" where
  "base_free r \<longleftrightarrow> \<not> bit_test (ord_occupancy_bitmap r) (ord_base_index r)"

definition reord_inv :: "Reorderer_state \<Rightarrow> bool" where
  "reord_inv r \<longleftrightarrow> winv r \<and> base_free r \<and>
     (\<not> ord_initialized r \<longrightarrow> (\<forall>j. \<not> bit_test (ord_occupancy_bitmap r) j)) \<and>
     ord_buffered_packets r = word_of_nat (current_buffer_size (ord_stats r))"

subsection \<open>Slots of the window\<close>

lemma slot_at_0 [simp]: "winv r \<Longrightarrow> slot_at r 0 = ord_base_index r"
  by (simp add: slot_at_def winv_def)

lemma slot_at_less: "winv r \<Longrightarrow> slot_at r d < length (ord_ring_slots r)"
  unfolding slot_at_def winv_def by (intro mod_less_divisor) blast

lemma slot_at_inject:
  "winv r \<Longrightarrow> a < length (ord_ring_slots r) \<Longrightarrow> b < length (ord_ring_slots r) \<Longrightarrow> slot_at r a = slot_at r b \<longleftrightarrow> a = b"
  unfolding slot_at_def winv_def by (intro mod_add_cancel_iff) auto

lemma slot_at_surj:
  assumes "winv r" and "j < length (ord_ring_slots r)"
  shows "\<exists>d < length (ord_ring_slots r). slot_at r d = j"
proof -
  let ?n = "length (ord_ring_slots r)" and ?b = "ord_base_index r"
  have b: "?b < ?n" using assms(1) by (simp add: winv_def)
  show ?thesis
  proof (cases "?b \<le> j")
    case True
    then show ?thesis using assms(2) by (intro exI [of _ "j - ?b"]) (auto simp: slot_at_def)
  next
    case False
    then show ?thesis using assms(2) b
      by (intro exI [of _ "j + ?n - ?b"]) (auto simp: slot_at_def)
  qed
qed

lemma slot_at_step:
  assumes "winv r"
  shows "slot_at (step_window t r) d = slot_at r (Suc d)"
  by (simp add: slot_at_def step_window_def mod_add_left_eq)

lemma slot_at_wrap: "winv r \<Longrightarrow> slot_at r (length (ord_ring_slots r)) = ord_base_index r"
  by (simp add: slot_at_def winv_def)

lemma step_window_frame [simp]:
  "ord_ring_slots (step_window t r) = ord_ring_slots r"
  "ord_occupancy_bitmap (step_window t r) = ord_occupancy_bitmap r"
  "ord_next_expected_seq (step_window t r) = ord_next_expected_seq r + 1"
  "current_buffer_size (ord_stats (step_window t r)) = current_buffer_size (ord_stats r)"
  "ord_callback (step_window t r) = ord_callback r" "ord_initialized (step_window t r) = ord_initialized r"
  "ord_config (step_window t r) = ord_config r"
  by (simp_all add: step_window_def)

lemma unat_minus_one:
  assumes "(x :: u32) \<noteq> 0"
  shows "unat (x - 1) = unat x - 1"
  using assms by (simp add: unat_sub word_le_nat_alt Suc_le_eq unat_gt_0)

lemma pend_step:
  assumes "winv r" and "base_free r"
  shows "pend (step_window t r) = pend r"
proof
  fix s
  let ?x = "s - ord_next_expected_seq r" and ?n = "length (ord_ring_slots r)"
  have n: "?n \<le> 2 ^ 31" using assms(1) by (simp add: winv_def)
  have shift: "s - (ord_next_expected_seq r + 1) = ?x - 1" by simp
  show "pend (step_window t r) s = pend r s"
  proof (cases "?x = 0")
    case True
    then have "unat (?x - 1) = 2 ^ 32 - 1" using unat_neg_word [of "1 :: u32"] by simp
    then show ?thesis
      using True assms n by (simp add: pend_def shift Let_def base_free_def)
  next
    case False
    then have u: "unat (?x - 1) = unat ?x - 1" "0 < unat ?x" by (simp_all add: unat_minus_one unat_gt_0)
    have "\<not> bit_test (ord_occupancy_bitmap r) (slot_at r ?n)"
      using assms by (simp add: slot_at_wrap base_free_def)
    then have "unat ?x - 1 < ?n \<and> bit_test (ord_occupancy_bitmap r) (slot_at r (unat ?x)) \<longleftrightarrow>
        unat ?x < ?n \<and> bit_test (ord_occupancy_bitmap r) (slot_at r (unat ?x))"
      using u(2) by (cases "unat ?x = ?n") auto
    then show ?thesis
      using u by (simp add: pend_def shift slot_at_step [OF assms(1)] Let_def)
  qed
qed

lemma winv_step:
  assumes "winv r" and "base_free r"
  shows "winv (step_window t r)"
proof -
  let ?n = "length (ord_ring_slots r)" and ?r = "step_window t r"
  have "sp_sequence (ord_ring_slots r ! slot_at ?r d) = ord_next_expected_seq r + 1 + word_of_nat d"
    if d: "d < ?n" and bit: "bit_test (ord_occupancy_bitmap r) (slot_at ?r d)" for d
  proof -
    have "Suc d \<noteq> ?n"
      using bit assms slot_at_wrap [OF assms(1)] by (auto simp: slot_at_step base_free_def)
    then have "Suc d < ?n" using d by simp
    then have "sp_sequence (ord_ring_slots r ! slot_at r (Suc d)) = ord_next_expected_seq r + word_of_nat (Suc d)"
      using bit assms(1) unfolding winv_def slot_at_step [OF assms(1)] by blast
    then show ?thesis by (simp add: slot_at_step [OF assms(1)] add.assoc)
  qed
  moreover have "ord_base_index ?r < ?n"
    using assms(1) by (simp add: step_window_def winv_def)
  ultimately show ?thesis using assms(1) by (simp add: winv_def)
qed

subsection \<open>Releasing and filling a slot\<close>

definition release_base :: "Reorderer_state \<Rightarrow> Reorderer_state" where
  "release_base r =
     (let r1 = release_slot (ord_base_index r) r; st = ord_stats r1
      in count_in_order (r1\<lparr>ord_stats := st\<lparr>current_buffer_size := current_buffer_size st - 1\<rparr>\<rparr>))"

lemma release_base_frame [simp]:
  "length (ord_ring_slots (release_base r)) = length (ord_ring_slots r)"
  "ord_occupancy_bitmap (release_base r) = bit_clear (ord_occupancy_bitmap r) (ord_base_index r)"
  "ord_next_expected_seq (release_base r) = ord_next_expected_seq r" "ord_base_index (release_base r) = ord_base_index r"
  "current_buffer_size (ord_stats (release_base r)) = current_buffer_size (ord_stats r) - 1"
  "ord_callback (release_base r) = ord_callback r" "ord_initialized (release_base r) = ord_initialized r"
  "ord_config (release_base r) = ord_config r"
  "j \<noteq> ord_base_index r \<Longrightarrow> ord_ring_slots (release_base r) ! j = ord_ring_slots r ! j"
  by (simp_all add: release_base_def release_slot_def count_in_order_def Let_def)

lemma slot_at_release [simp]: "slot_at (release_base r) d = slot_at r d"
  by (simp add: slot_at_def)

lemma release_base_ok:
  assumes "winv r" and "\<not> base_free r"
  shows "winv (release_base r)" and "base_free (release_base r)"
    and "pend (release_base r) = (pend r)(ord_next_expected_seq r := None)"
proof -
  have bit: "bit_test (ord_occupancy_bitmap r) (ord_base_index r)" using assms(2) by (simp add: base_free_def)
  show "winv (release_base r)"
    using assms(1) bit unfolding winv_def by (auto simp: bit_test_clear card_bit_clear)
  show "base_free (release_base r)" by (simp add: base_free_def bit_test_clear)
  show "pend (release_base r) = (pend r)(ord_next_expected_seq r := None)"
  proof
    fix s
    show "pend (release_base r) s = ((pend r)(ord_next_expected_seq r := None)) s"
    proof (cases "s = ord_next_expected_seq r")
      case True
      then show ?thesis using assms(1) by (simp add: pend_def Let_def bit_test_clear)
    next
      case False
      then have "0 < unat (s - ord_next_expected_seq r)" by (simp add: unat_gt_0)
      then have "slot_at r (unat (s - ord_next_expected_seq r)) \<noteq> ord_base_index r"
        if "unat (s - ord_next_expected_seq r) < length (ord_ring_slots r)"
        using slot_at_inject [OF assms(1) that, of 0] assms(1) that by (auto simp: winv_def)
      with False show ?thesis by (auto simp: pend_def Let_def bit_test_clear)
    qed
  qed
qed

lemma pend_base:
  assumes "winv r"
  shows "pend r (ord_next_expected_seq r) =
      (if base_free r then None else Some (slot_item (ord_ring_slots r ! ord_base_index r)))"
  using assms by (auto simp: pend_def base_free_def winv_def)

lemma advance_window_unfold:
  assumes "winv r"
  shows "advance_window clk r =
     (if base_free r then (r, [])
      else case advance_window (\<lambda>n. clk (Suc n)) (step_window (clk 0) (release_base r)) of
             (r', outs) \<Rightarrow>
               (r', to_callback r (item_out (slot_item (ord_ring_slots r ! ord_base_index r)) (ord_next_expected_seq r)) @ outs))"
proof (cases "base_free r")
  case True
  then show ?thesis by (simp add: advance_window.simps [of clk r] base_free_def)
next
  case False
  then have "bit_test (ord_occupancy_bitmap r) (slot_at r 0)" using assms by (simp add: base_free_def)
  then have "sp_occupied (ord_ring_slots r ! slot_at r 0)"
    and "sp_sequence (ord_ring_slots r ! slot_at r 0) = ord_next_expected_seq r + word_of_nat 0"
    using assms unfolding winv_def by blast+
  with False assms show ?thesis
    by (simp add: advance_window.simps [of clk r] base_free_def release_base_def slot_item_def item_out_def Let_def)
qed

lemma card_pending_bound:
  assumes "winv r" and "base_free r"
  shows "card {j. bit_test (ord_occupancy_bitmap r) j} < length (ord_ring_slots r)"
proof -
  have "{j. bit_test (ord_occupancy_bitmap r) j} \<subseteq> {..<length (ord_ring_slots r)} - {ord_base_index r}"
    using assms by (auto simp: winv_def base_free_def)
  from card_mono [OF _ this] assms(1) show ?thesis by (auto simp: winv_def card_Diff_singleton)
qed

text \<open>The loop of \<^verbatim>\<open>advance_window\<close> is the drain of the specification.\<close>

lemma advance_window_refines:
  assumes "winv r" and "card {j. bit_test (ord_occupancy_bitmap r) j} \<le> k"
  shows "\<exists>r' outs outs'. advance_window clk r = (r', outs) \<and> winv r' \<and> base_free r' \<and>
      spec_drain k (ord_next_expected_seq r) (pend r) = (ord_next_expected_seq r', pend r', outs') \<and>
      outs = (if ord_callback r then outs' else []) \<and> ord_callback r' = ord_callback r \<and>
      ord_initialized r' = ord_initialized r \<and> ord_config r' = ord_config r \<and>
      length (ord_ring_slots r') = length (ord_ring_slots r)"
  using assms
proof (induction k arbitrary: clk r)
  case 0
  then have "{j. bit_test (ord_occupancy_bitmap r) j} = {}" using finite_bits [of "ord_occupancy_bitmap r"] by simp
  then have "base_free r" by (auto simp: base_free_def)
  then show ?case using 0 by (simp add: advance_window_unfold)
next
  case (Suc k)
  show ?case
  proof (cases "base_free r")
    case True
    then show ?thesis using Suc.prems pend_base [OF Suc.prems(1)] by (simp add: advance_window_unfold)
  next
    case False
    let ?r = "step_window (clk 0) (release_base r)"
    note rel = release_base_ok [OF Suc.prems(1) False]
    have w: "winv ?r" by (rule winv_step [OF rel(1,2)])
    have bit: "bit_test (ord_occupancy_bitmap r) (ord_base_index r)" using False by (simp add: base_free_def)
    have "card {j. bit_test (ord_occupancy_bitmap ?r) j} \<le> k"
      using Suc.prems(2) card_bit_clear [OF bit] by simp
    from Suc.IH [OF w this, of "\<lambda>n. clk (Suc n)"]
    obtain r' outs outs' where IH: "advance_window (\<lambda>n. clk (Suc n)) ?r = (r', outs)" "winv r'" "base_free r'"
      "spec_drain k (ord_next_expected_seq r + 1) (pend ?r) = (ord_next_expected_seq r', pend r', outs')"
      "outs = (if ord_callback r then outs' else [])" "ord_callback r' = ord_callback r"
      "ord_initialized r' = ord_initialized r" "ord_config r' = ord_config r"
      "length (ord_ring_slots r') = length (ord_ring_slots r)" by auto
    have p: "pend ?r = (pend r)(ord_next_expected_seq r := None)" using pend_step [OF rel(1,2)] rel(3) by simp
    show ?thesis
      using IH pend_base [OF Suc.prems(1)] False
      by (simp add: advance_window_unfold [OF Suc.prems(1)] p to_callback_def)
  qed
qed

subsection \<open>The operations\<close>

lemma winv_cong:
  assumes "ord_ring_slots r' = ord_ring_slots r" "ord_occupancy_bitmap r' = ord_occupancy_bitmap r"
    "ord_next_expected_seq r' = ord_next_expected_seq r" "ord_base_index r' = ord_base_index r"
    "current_buffer_size (ord_stats r') = current_buffer_size (ord_stats r)"
  shows "winv r' = winv r" and "base_free r' = base_free r" and "pend r' = pend r"
  using assms by (simp_all add: winv_def base_free_def slot_at_def pend_def fun_eq_iff Let_def)

lemma count_in_order_frame [simp]:
  "winv (count_in_order r) = winv r" "base_free (count_in_order r) = base_free r" "pend (count_in_order r) = pend r"
  "ord_next_expected_seq (count_in_order r) = ord_next_expected_seq r" "ord_callback (count_in_order r) = ord_callback r"
  "ord_initialized (count_in_order r) = ord_initialized r" "ord_config (count_in_order r) = ord_config r"
  "ord_ring_slots (count_in_order r) = ord_ring_slots r" "ord_occupancy_bitmap (count_in_order r) = ord_occupancy_bitmap r"
  by (simp_all add: count_in_order_def winv_cong [of "count_in_order r" r, unfolded count_in_order_def])

lemma count_duplicate_frame [simp]:
  "winv (count_duplicate r) = winv r" "base_free (count_duplicate r) = base_free r" "pend (count_duplicate r) = pend r"
  "ord_next_expected_seq (count_duplicate r) = ord_next_expected_seq r" "ord_callback (count_duplicate r) = ord_callback r"
  "ord_initialized (count_duplicate r) = ord_initialized r" "ord_config (count_duplicate r) = ord_config r"
  "ord_ring_slots (count_duplicate r) = ord_ring_slots r" "ord_occupancy_bitmap (count_duplicate r) = ord_occupancy_bitmap r"
  "ord_buffered_packets (count_duplicate r) = ord_buffered_packets r"
  "current_buffer_size (ord_stats (count_duplicate r)) = current_buffer_size (ord_stats r)"
  by (simp_all add: count_duplicate_def winv_cong [of "count_duplicate r" r, unfolded count_duplicate_def])

lemma current_buffer_le: "winv r \<Longrightarrow> current_buffer_size (ord_stats r) < 2 ^ 32"
proof -
  assume w: "winv r"
  have "card {j. bit_test (ord_occupancy_bitmap r) j} \<le> card {..<length (ord_ring_slots r)}"
    using w by (intro card_mono) (auto simp: winv_def)
  then show ?thesis using w by (simp add: winv_def)
qed

lemma sync_buffered_eq:
  "winv r \<Longrightarrow> sync_buffered r = r\<lparr>ord_buffered_packets := word_of_nat (current_buffer_size (ord_stats r))\<rparr>"
  using current_buffer_le [of r] by (simp add: sync_buffered_def Let_def unat_of_nat take_bit_nat_eq_self)

lemma sync_buffered_ok:
  assumes "winv r" and "base_free r" and "ord_initialized r"
  shows "reord_inv (sync_buffered r)" and "window_of (sync_buffered r) = Some (ord_next_expected_seq r, pend r)"
    and "ord_callback (sync_buffered r) = ord_callback r" and "ord_config (sync_buffered r) = ord_config r"
    and "length (ord_ring_slots (sync_buffered r)) = length (ord_ring_slots r)"
  using assms winv_cong [of "sync_buffered r" r] by (simp_all add: sync_buffered_eq reord_inv_def window_of_def)

definition started :: "u32 \<Rightarrow> Reorderer_state \<Rightarrow> Reorderer_state" where
  "started seq r = (if ord_initialized r then r else r\<lparr>ord_initialized := True, ord_next_expected_seq := seq\<rparr>)"

lemma started_ok:
  assumes "reord_inv r"
  shows "winv (started seq r)" and "base_free (started seq r)" and "ord_initialized (started seq r)"
    and "(case window_of r of None \<Rightarrow> (seq, Map.empty) | Some em \<Rightarrow> em) = (ord_next_expected_seq (started seq r), pend (started seq r))"
    and "ord_callback (started seq r) = ord_callback r" and "ord_config (started seq r) = ord_config r"
    and "ord_ring_slots (started seq r) = ord_ring_slots r"
    and "ord_buffered_packets (started seq r) = word_of_nat (current_buffer_size (ord_stats (started seq r)))"
proof -
  have "\<not> ord_initialized r \<Longrightarrow> Collect (bit_test (ord_occupancy_bitmap r)) = {}"
    using assms by (auto simp: reord_inv_def)
  with assms show "winv (started seq r)" and "base_free (started seq r)" and "ord_initialized (started seq r)"
    and "(case window_of r of None \<Rightarrow> (seq, Map.empty) | Some em \<Rightarrow> em) = (ord_next_expected_seq (started seq r), pend (started seq r))"
    and "ord_callback (started seq r) = ord_callback r" and "ord_config (started seq r) = ord_config r"
    and "ord_ring_slots (started seq r) = ord_ring_slots r"
    and "ord_buffered_packets (started seq r) = word_of_nat (current_buffer_size (ord_stats (started seq r)))"
    by (auto simp: started_def reord_inv_def winv_def base_free_def slot_at_def window_of_def pend_def fun_eq_iff Let_def)
qed

lemma store_slot_ok:
  assumes w: "winv r" and free: "base_free r" and d: "0 < d" "d < length (ord_ring_slots r)"
    and bit: "\<not> bit_test (ord_occupancy_bitmap r) (slot_at r d)"
    and seq: "seq = ord_next_expected_seq r + word_of_nat d"
    and r': "r' = r\<lparr>ord_ring_slots := (ord_ring_slots r)[slot_at r d := \<lparr>sp_sequence = seq, sp_header = h, sp_payload = pl, sp_payload_size = n, sp_occupied = True\<rparr>],
                     ord_occupancy_bitmap := bit_set (ord_occupancy_bitmap r) (slot_at r d),
                     ord_stats := (ord_stats r)\<lparr>packets_out_of_order := packets_out_of_order (ord_stats r) + 1,
                                     current_buffer_size := current_buffer_size (ord_stats r) + 1\<rparr>\<rparr>"
  shows "winv r'" and "base_free r'" and "pend r' = (pend r)(seq \<mapsto> (h, pl, n))"
proof -
  let ?n = "length (ord_ring_slots r)" and ?i = "slot_at r d"
  have i: "?i < ?n" by (rule slot_at_less [OF w])
  have word: "?i div 64 < length (ord_occupancy_bitmap r)" using i w by (simp add: winv_def)
  have at: "slot_at r' = slot_at r" by (simp add: r' slot_at_def fun_eq_iff)
  have len: "length (ord_ring_slots r') = ?n" by (simp add: r')
  have test: "bit_test (ord_occupancy_bitmap r') j \<longleftrightarrow> j = ?i \<or> bit_test (ord_occupancy_bitmap r) j" for j
    by (simp add: r' bit_test_set [OF word])
  have slot: "ord_ring_slots r' ! j = (if j = ?i then \<lparr>sp_sequence = seq, sp_header = h, sp_payload = pl, sp_payload_size = n, sp_occupied = True\<rparr>
      else ord_ring_slots r ! j)" for j
    using i by (auto simp: r' nth_list_update)
  have "{j. bit_test (ord_occupancy_bitmap r') j} = insert ?i {j. bit_test (ord_occupancy_bitmap r) j}"
    by (auto simp: test)
  then have card: "card {j. bit_test (ord_occupancy_bitmap r') j} = Suc (card {j. bit_test (ord_occupancy_bitmap r) j})"
    using bit finite_bits by simp
  have nx: "ord_next_expected_seq r' = ord_next_expected_seq r" "ord_base_index r' = ord_base_index r"
    "current_buffer_size (ord_stats r') = Suc (current_buffer_size (ord_stats r))"
    "length (ord_occupancy_bitmap r') = length (ord_occupancy_bitmap r)" by (simp_all add: r')
  show "winv r'"
    unfolding winv_def len at nx test slot card using w i seq slot_at_inject [OF w _ d(2)]
    by (auto simp: winv_def)
  have base: "ord_base_index r \<noteq> ?i" using slot_at_inject [OF w _ d(2), of 0] w d(1) by (auto simp: winv_def)
  then show "base_free r'" using free by (simp add: base_free_def test nx)
  show "pend r' = (pend r)(seq \<mapsto> (h, pl, n))"
  proof
    fix s
    have "d < 2 ^ 32" using d(2) w by (simp add: winv_def)
    then have ud: "unat (seq - ord_next_expected_seq r) = d"
      by (simp add: seq unat_of_nat take_bit_nat_eq_self)
    have "unat (s - ord_next_expected_seq r) = d \<longleftrightarrow> s = seq"
      using ud by (metis diff_add_cancel word_unat_eq_iff)
    moreover have "slot_at r (unat (s - ord_next_expected_seq r)) = ?i \<longleftrightarrow> unat (s - ord_next_expected_seq r) = d"
      if "unat (s - ord_next_expected_seq r) < ?n"
      using slot_at_inject [OF w that d(2)] .
    ultimately show "pend r' s = ((pend r)(seq \<mapsto> (h, pl, n))) s"
      using d(2) by (auto simp: pend_def Let_def len at nx test slot slot_item_def)
  qed
qed

lemma insert_owned_refines:
  assumes "reord_inv r"
  shows "\<exists>r' outs. insert_owned clk h pl n r = (r', if ord_callback r then outs else []) \<and> reord_inv r' \<and>
      spec_insert (length (ord_ring_slots r)) (h, pl, n) (window_of r) = (window_of r', outs) \<and>
      ord_callback r' = ord_callback r \<and> ord_config r' = ord_config r \<and>
      length (ord_ring_slots r') = length (ord_ring_slots r)"
proof -
  let ?seq = "sequence_number h" and ?N = "length (ord_ring_slots r)"
  let ?r = "started (sequence_number h) r"
  note st = started_ok [OF assms, of ?seq]
  let ?e = "ord_next_expected_seq ?r"
  have N: "0 < ?N" "?N \<le> 2 ^ 31" using st(1,7) by (simp_all add: winv_def)
  have stop: "winv r' \<Longrightarrow> base_free r' \<Longrightarrow> ord_initialized r' \<Longrightarrow>
      ord_buffered_packets r' = word_of_nat (current_buffer_size (ord_stats r')) \<Longrightarrow>
      reord_inv r' \<and> window_of r' = Some (ord_next_expected_seq r', pend r')" for r'
    by (simp add: reord_inv_def window_of_def)
  have unf: "insert_owned clk h pl n r =
     (if ?seq = ?e
      then let (r1, outs) = advance_window (\<lambda>i. clk (Suc i)) (step_window (clk 0) (count_in_order ?r))
           in (sync_buffered r1, to_callback ?r (ordered_packet h pl n ?seq) @ outs)
      else if \<not> is_sequence_newer ?seq ?e \<or> ?seq - ?e \<ge> word_of_nat ?N \<or>
              bit_test (ord_occupancy_bitmap ?r) (slot_at ?r (unat (?seq - ?e)))
      then (count_duplicate ?r, [])
      else (sync_buffered (?r\<lparr>ord_ring_slots := (ord_ring_slots ?r)[slot_at ?r (unat (?seq - ?e)) := \<lparr>sp_sequence = ?seq, sp_header = h, sp_payload = pl, sp_payload_size = n, sp_occupied = True\<rparr>],
                     ord_occupancy_bitmap := bit_set (ord_occupancy_bitmap ?r) (slot_at ?r (unat (?seq - ?e))),
                     ord_stats := (ord_stats ?r)\<lparr>packets_out_of_order := packets_out_of_order (ord_stats ?r) + 1,
                                     current_buffer_size := current_buffer_size (ord_stats ?r) + 1\<rparr>\<rparr>), []))"
    using st(7) by (simp add: insert_owned_def started_def [symmetric] slot_at_def Let_def)
  show ?thesis
  proof (cases "?seq = ?e")
    case True
    let ?r1 = "step_window (clk 0) (count_in_order ?r)"
    have w: "winv ?r1" using st(1,2) by (intro winv_step) simp_all
    have p: "pend ?r1 = pend ?r" using st(1,2) pend_step [of "count_in_order ?r"] by simp
    have "card {j. bit_test (ord_occupancy_bitmap ?r1) j} \<le> ?N"
      using card_pending_bound [OF st(1,2)] st(7) by simp
    from advance_window_refines [OF w this, of "\<lambda>i. clk (Suc i)"] st(3,5,6,7)
    obtain r2 outs outs' where a: "advance_window (\<lambda>i. clk (Suc i)) ?r1 = (r2, outs)" "winv r2" "base_free r2"
      "spec_drain ?N (?e + 1) (pend ?r) = (ord_next_expected_seq r2, pend r2, outs')"
      "outs = (if ord_callback r then outs' else [])" "ord_callback r2 = ord_callback r" "ord_initialized r2"
      "ord_config r2 = ord_config r" "length (ord_ring_slots r2) = ?N" by (auto simp: p)
    show ?thesis
      using unf a True sync_buffered_ok [OF a(2,3,7)] st(4,5)
      by (intro exI [of _ "sync_buffered r2"] exI [of _ "ordered_packet h pl n ?seq # outs'"])
         (simp add: spec_insert_def item_out_def to_callback_def Let_def)
  next
    case False
    let ?d = "unat (?seq - ?e)"
    have d0: "0 < ?d" using False by (simp add: unat_gt_0)
    have Nw: "unat (word_of_nat ?N :: u32) = ?N" using N by (simp add: unat_of_nat take_bit_nat_eq_self)
    have cond: "(\<not> is_sequence_newer ?seq ?e \<or> ?seq - ?e \<ge> word_of_nat ?N \<or>
        bit_test (ord_occupancy_bitmap ?r) (slot_at ?r ?d)) \<longleftrightarrow> \<not> (?d < ?N \<and> pend ?r ?seq = None)"
      using d0 N Nw st(7)
      by (auto simp: is_sequence_newer_def Let_def pend_def slot_item_def word_le_nat_alt word_less_nat_alt)
    show ?thesis
    proof (cases "?d < ?N \<and> pend ?r ?seq = None")
      case True
      have bit: "\<not> bit_test (ord_occupancy_bitmap ?r) (slot_at ?r ?d)" using cond True by blast
      have seq: "?seq = ?e + word_of_nat ?d" by simp
      let ?r' = "?r\<lparr>ord_ring_slots := (ord_ring_slots ?r)[slot_at ?r ?d := \<lparr>sp_sequence = ?seq, sp_header = h, sp_payload = pl, sp_payload_size = n, sp_occupied = True\<rparr>],
                     ord_occupancy_bitmap := bit_set (ord_occupancy_bitmap ?r) (slot_at ?r ?d),
                     ord_stats := (ord_stats ?r)\<lparr>packets_out_of_order := packets_out_of_order (ord_stats ?r) + 1,
                                     current_buffer_size := current_buffer_size (ord_stats ?r) + 1\<rparr>\<rparr>"
      have dN: "?d < length (ord_ring_slots ?r)" using True st(7) by simp
      note ok = store_slot_ok [OF st(1,2) d0 dN bit seq refl, of h pl n]
      have init: "ord_initialized ?r'" using st(3) by simp
      show ?thesis
        using unf False True cond sync_buffered_ok [OF ok(1,2) init] ok(3) st(4,5,6,7)
        by (intro exI [of _ "sync_buffered ?r'"] exI [of _ "[]"]) (simp add: spec_insert_def Let_def)
    next
      case no: False
      then have "insert_owned clk h pl n r = (count_duplicate ?r, [])" using unf False cond by simp
      moreover have "spec_insert ?N (h, pl, n) (window_of r) = (Some (?e, pend ?r), [])"
        using no False st(4) by (auto simp: spec_insert_def Let_def)
      ultimately show ?thesis
        using stop [of "count_duplicate ?r"] st by simp
    qed
  qed
qed

definition timeout_due :: "u64 \<Rightarrow> Reorderer_state \<Rightarrow> bool" where
  "timeout_due now r \<longleftrightarrow> \<not> elapsed_ms now (ord_last_advance_ns r) < int (unat (ord_timeout_ms_runtime r))"

lemma check_timeout_refines:
  assumes "reord_inv r"
  shows "\<exists>r' outs. reorder_check_timeout clk r = (r', if ord_callback r then outs else []) \<and> reord_inv r' \<and>
      (if timeout_due (clk 0) r
       then spec_timeout (length (ord_ring_slots r)) (oc_enable_zero_fill (ord_config r)) (window_of r) = (window_of r', outs)
       else r' = r \<and> outs = []) \<and>
      ord_callback r' = ord_callback r \<and> ord_config r' = ord_config r \<and>
      length (ord_ring_slots r') = length (ord_ring_slots r)"
proof (cases "ord_initialized r \<and> timeout_due (clk 0) r")
  case False
  then show ?thesis
    using assms by (intro exI [of _ r] exI [of _ "[]"])
      (auto simp: reorder_check_timeout_def timeout_due_def window_of_def spec_timeout_def)
next
  case True
  let ?N = "length (ord_ring_slots r)" and ?zf = "oc_enable_zero_fill (ord_config r)"
  let ?r0 = "if ?zf then r\<lparr>ord_stats := (ord_stats r)\<lparr>packets_zero_filled := packets_zero_filled (ord_stats r) + 1\<rparr>\<rparr> else r"
  let ?r1 = "step_window (clk 0) ?r0"
  have w: "winv r" "base_free r" using assms by (simp_all add: reord_inv_def)
  have r0: "winv ?r0" "base_free ?r0" "pend ?r0 = pend r" "ord_next_expected_seq ?r0 = ord_next_expected_seq r"
    "ord_initialized ?r0" "ord_callback ?r0 = ord_callback r" "ord_config ?r0 = ord_config r"
    "ord_ring_slots ?r0 = ord_ring_slots r" "ord_occupancy_bitmap ?r0 = ord_occupancy_bitmap r"
    using w True winv_cong [of ?r0 r] by auto
  have w1: "winv ?r1" and p1: "pend ?r1 = pend r"
    using winv_step [OF r0(1,2)] pend_step [OF r0(1,2)] r0(3) by auto
  have "card {j. bit_test (ord_occupancy_bitmap ?r1) j} \<le> ?N"
    using card_pending_bound [OF w] r0(9) by simp
  from advance_window_refines [OF w1 this, of "\<lambda>i. clk (Suc i)"] r0
  obtain r2 outs outs' where a: "advance_window (\<lambda>i. clk (Suc i)) ?r1 = (r2, outs)" "winv r2" "base_free r2"
    "spec_drain ?N (ord_next_expected_seq r + 1) (pend r) = (ord_next_expected_seq r2, pend r2, outs')"
    "outs = (if ord_callback r then outs' else [])" "ord_callback r2 = ord_callback r" "ord_initialized r2"
    "ord_config r2 = ord_config r" "length (ord_ring_slots r2) = ?N" unfolding p1 by auto
  have "reorder_check_timeout clk r = (sync_buffered r2,
      (if ?zf then to_callback r (create_zero_filled_packet (ord_next_expected_seq r)) else []) @ outs)"
    using True a(1) by (cases ?zf) (simp_all add: reorder_check_timeout_def timeout_due_def Let_def)
  then show ?thesis
    using True a sync_buffered_ok [OF a(2,3,7)]
    by (intro exI [of _ "sync_buffered r2"]
          exI [of _ "(if ?zf then [create_zero_filled_packet (ord_next_expected_seq r)] else []) @ outs'"])
       (simp add: spec_timeout_def window_of_def to_callback_def)
qed

lemma reorderer_new_inv:
  assumes "oc_window_size cfg \<le> 2 ^ 31"
  shows "reord_inv (reorderer_new cfg cb t)" and "window_of (reorderer_new cfg cb t) = None"
proof -
  have zero: "\<not> bit_test (replicate m 0) j" for m j by (auto simp: bit_test_iff)
  then show "reord_inv (reorderer_new cfg cb t)"
    using assms by (auto simp: reord_inv_def winv_def base_free_def reorderer_new_def Let_def)
  show "window_of (reorderer_new cfg cb t) = None" by (simp add: window_of_def reorderer_new_def Let_def)
qed

end
