(* ===== verification/Reorder_Order.thy ===== *)
theory Reorder_Order
  imports Reorder_Refinement
begin

text \<open>
  What the reorderer delivers.  \<open>reorder_contract\<close> is the contract its clients rely on: each event
  acts on the window as the specification says.  Inside it the delivered sequence is characterised
  once; the ring implementation is its interpretation.
\<close>

text \<open>The events of the processing thread: a packet or a timeout check, with the clock readings it makes.\<close>

datatype event = Arrive "nat \<Rightarrow> u64" item | Tick "nat \<Rightarrow> u64"

fun step_reorderer :: "event \<Rightarrow> Reorderer_state \<Rightarrow> Reorderer_state \<times> OrderedPacket list" where
  "step_reorderer (Arrive clk (h, pl, n)) r = insert_owned clk h pl n r"
| "step_reorderer (Tick clk) r = reorder_check_timeout clk r"

fun run_events :: "(event \<Rightarrow> 's \<Rightarrow> 's \<times> OrderedPacket list) \<Rightarrow> event list \<Rightarrow> 's \<Rightarrow> 's \<times> OrderedPacket list" where
  "run_events step [] s = (s, [])"
| "run_events step (ev # evs) s =
     (case step ev s of (s1, out) \<Rightarrow> (case run_events step evs s1 of (s2, outs) \<Rightarrow> (s2, out @ outs)))"

fun arrived :: "event list \<Rightarrow> item list" where
  "arrived [] = []"
| "arrived (Arrive clk it # evs) = it # arrived evs"
| "arrived (Tick clk # evs) = arrived evs"

subsection \<open>Consecutive output\<close>

definition seqs_from :: "u32 \<Rightarrow> OrderedPacket list \<Rightarrow> bool" where
  "seqs_from e outs \<longleftrightarrow> map op_sequence_number outs = map (\<lambda>i. e + word_of_nat i) [0..<length outs]"

lemma seqs_from_Nil [simp]: "seqs_from e []"
  by (simp add: seqs_from_def)

lemma seqs_from_Cons: "seqs_from e (x # xs) \<longleftrightarrow> op_sequence_number x = e \<and> seqs_from (e + 1) xs"
  by (simp add: seqs_from_def map_upt_Suc add.assoc add.commute [of 1] del: upt_Suc)

lemma seqs_from_append: "seqs_from e (xs @ ys) \<longleftrightarrow> seqs_from e xs \<and> seqs_from (e + word_of_nat (length xs)) ys"
  by (induction xs arbitrary: e) (auto simp: seqs_from_Cons add.assoc add.commute [of 1])

text \<open>Where a delivered packet comes from.\<close>

definition from_items :: "item set \<Rightarrow> OrderedPacket \<Rightarrow> bool" where
  "from_items its out \<longleftrightarrow>
     out = create_zero_filled_packet (op_sequence_number out) \<or>
     (\<exists>it \<in> its. sequence_number (fst it) = op_sequence_number out \<and> out = item_out it (op_sequence_number out))"

definition keyed :: "(u32 \<rightharpoonup> item) \<Rightarrow> bool" where
  "keyed m \<longleftrightarrow> (\<forall>s it. m s = Some it \<longrightarrow> sequence_number (fst it) = s)"

lemma op_sequence_item_out [simp]: "op_sequence_number (item_out it s) = s"
  by (simp add: item_out_def ordered_packet_def split: prod.splits)

lemma op_sequence_zero_filled [simp]: "op_sequence_number (create_zero_filled_packet s) = s"
  by (simp add: create_zero_filled_packet_def)

lemma spec_drain_facts:
  "spec_drain k e m = (e', m', outs) \<Longrightarrow> keyed m \<Longrightarrow>
     e' = e + word_of_nat (length outs) \<and> seqs_from e outs \<and> keyed m' \<and> ran m' \<subseteq> ran m \<and>
     (\<forall>out \<in> set outs. from_items (ran m) out)"
proof (induction k arbitrary: e m e' m' outs)
  case (Suc k)
  show ?case
  proof (cases "m e")
    case None
    then show ?thesis using Suc.prems by auto
  next
    case (Some it)
    obtain e1 m1 outs1 where d: "spec_drain k (e + 1) (m(e := None)) = (e1, m1, outs1)" by (metis prod_cases3)
    with Suc.prems(1) Some have eq: "e' = e1" "m' = m1" "outs = item_out it e # outs1" by auto
    have k: "keyed (m(e := None))" using Suc.prems(2) by (auto simp: keyed_def)
    have sub: "ran (m(e := None)) \<subseteq> ran m" by (auto simp: ran_def)
    note IH = Suc.IH [OF d k]
    have "it \<in> ran m" "sequence_number (fst it) = e" using Some Suc.prems(2) unfolding keyed_def by (blast intro: ranI)+
    then have "from_items (ran m) (item_out it e)"
      unfolding from_items_def by (intro disjI2 bexI [of _ it]) simp_all
    moreover have "\<forall>out \<in> set outs1. from_items (ran m) out"
      using IH sub unfolding from_items_def by blast
    moreover have "ran m1 \<subseteq> ran m" using IH sub by blast
    ultimately show ?thesis
      using IH by (simp add: eq seqs_from_Cons add.assoc add.commute [of 1])
  qed
qed auto

lemma spec_insert_facts:
  assumes "spec_insert N it (Some (e, m)) = (w', outs)" and "keyed m"
  shows "\<exists>m'. w' = Some (e + word_of_nat (length outs), m') \<and> seqs_from e outs \<and> keyed m' \<and>
      ran m' \<subseteq> insert it (ran m) \<and> (\<forall>out \<in> set outs. from_items (insert it (ran m)) out)"
proof (cases "sequence_number (fst it) = e")
  case True
  obtain e1 m1 outs1 where d: "spec_drain N (e + 1) m = (e1, m1, outs1)" by (metis prod_cases3)
  from spec_drain_facts [OF d assms(2)] True assms(1) d show ?thesis
    by (auto simp: spec_insert_def Let_def seqs_from_Cons from_items_def add.assoc add.commute [of 1])
next
  case False
  then show ?thesis
    using assms by (auto simp: spec_insert_def Let_def keyed_def ran_def split: if_splits)
qed

lemma spec_timeout_facts:
  assumes "spec_timeout N True (Some (e, m)) = (w', outs)" and "keyed m"
  shows "\<exists>m'. w' = Some (e + word_of_nat (length outs), m') \<and> seqs_from e outs \<and> keyed m' \<and>
      ran m' \<subseteq> ran m \<and> (\<forall>out \<in> set outs. from_items (ran m) out)"
proof -
  obtain e1 m1 outs1 where d: "spec_drain N (e + 1) m = (e1, m1, outs1)" by (metis prod_cases3)
  from spec_drain_facts [OF d assms(2)] assms(1) d show ?thesis
    by (auto simp: spec_timeout_def seqs_from_Cons from_items_def add.assoc add.commute [of 1])
qed

subsection \<open>Arrivals in any order\<close>

definition due :: "(nat \<Rightarrow> item) \<Rightarrow> u32 \<Rightarrow> nat \<Rightarrow> nat set \<Rightarrow> nat \<Rightarrow> u32 \<rightharpoonup> item" where
  "due it e k S c s = (let i = unat (s - e) in if i < k \<and> i \<in> S \<and> c \<le> i then Some (it i) else None)"

lemma spec_drain_due:
  assumes "\<forall>x. c \<le> x \<and> x < c' \<longrightarrow> x \<in> S" and "c' \<notin> S" and "c \<le> c'" and "c' \<le> k" and "k < 2 ^ 32" and "c' - c < f"
  shows "spec_drain f (e + word_of_nat c) (due it e k S c) =
      (e + word_of_nat c', due it e k S c', map (\<lambda>i. item_out (it i) (e + word_of_nat i)) [c..<c'])"
  using assms
proof (induction f arbitrary: c)
  case (Suc f)
  have uc: "unat (word_of_nat c :: u32) = c" using Suc.prems by (simp add: unat_of_nat take_bit_nat_eq_self)
  show ?case
  proof (cases "c = c'")
    case True
    then show ?thesis using Suc.prems uc by (simp add: due_def Let_def)
  next
    case False
    then have c: "c < c'" "c \<in> S" using Suc.prems by auto
    have "(due it e k S c)(e + word_of_nat c := None) = due it e k S (Suc c)"
    proof
      fix s
      have "unat (s - e) = c \<longleftrightarrow> s = e + word_of_nat c"
        using Suc.prems by (intro unat_diff_eq_iff) simp
      then show "((due it e k S c)(e + word_of_nat c := None)) s = due it e k S (Suc c) s"
        by (cases "unat (s - e) = c") (simp_all add: due_def Let_def)
    qed
    moreover have "e + word_of_nat c + 1 = e + word_of_nat (Suc c)" by (simp add: add.assoc add.commute [of 1])
    moreover have "spec_drain f (e + word_of_nat (Suc c)) (due it e k S (Suc c)) =
        (e + word_of_nat c', due it e k S c', map (\<lambda>i. item_out (it i) (e + word_of_nat i)) [Suc c..<c'])"
      using Suc.prems c by (intro Suc.IH) auto
    moreover have "due it e k S c (e + word_of_nat c) = Some (it c)" using uc c Suc.prems by (simp add: due_def Let_def)
    ultimately show ?thesis using c by (simp add: upt_conv_Cons add.assoc add.commute [of 1])
  qed
qed simp

lemma spec_insert_due:
  assumes c: "\<forall>x < c. x \<in> S" "c \<notin> S" and S: "S \<subseteq> {..<k}" and i: "i < k" and k: "k \<le> N" "N \<le> 2 ^ 31"
    and seq: "sequence_number (fst (it i)) = e + word_of_nat i"
  shows "\<exists>c'. (\<forall>x < c'. x \<in> insert i S) \<and> c' \<notin> insert i S \<and> c \<le> c' \<and>
      spec_insert N (it i) (Some (e + word_of_nat c, due it e k S c)) =
        (Some (e + word_of_nat c', due it e k (insert i S) c'),
         map (\<lambda>j. item_out (it j) (e + word_of_nat j)) [c..<c'])"
proof -
  have ck: "c \<le> k" using c S by (meson lessThan_iff not_le_imp_less subsetD less_irrefl)
  have ui: "unat (word_of_nat i :: u32) = i" and uc: "unat (word_of_nat c :: u32) = c"
    using i k ck by (simp_all add: unat_of_nat take_bit_nat_eq_self)
  have iff: "(word_of_nat i :: u32) = word_of_nat c \<longleftrightarrow> i = c" using ui uc by metis
  show ?thesis
  proof (cases "i = c")
    case True
    let ?S = "insert i S"
    have "k \<notin> ?S" using S i by auto
    then have ex: "\<exists>x. x \<notin> ?S \<and> c \<le> x" using ck by blast
    define c' where "c' = (LEAST x. x \<notin> ?S \<and> c \<le> x)"
    have c': "c' \<notin> ?S" "c \<le> c'" using LeastI_ex [OF ex] by (simp_all add: c'_def)
    have least: "x \<in> ?S" if "c \<le> x" "x < c'" for x using not_less_Least that unfolding c'_def by blast
    have c'k: "c' \<le> k" unfolding c'_def by (rule Least_le) (use \<open>k \<notin> ?S\<close> ck in blast)
    have lt: "c < c'" using c' True by (cases "c = c'") auto
    have "due it e k S c = due it e k ?S (Suc c)"
      using True c(2) by (auto simp: due_def Let_def fun_eq_iff le_less)
    moreover have "spec_drain N (e + word_of_nat (Suc c)) (due it e k ?S (Suc c)) =
        (e + word_of_nat c', due it e k ?S c', map (\<lambda>i. item_out (it i) (e + word_of_nat i)) [Suc c..<c'])"
      by (rule spec_drain_due) (use least c' lt c'k k in auto)
    ultimately have "spec_insert N (it i) (Some (e + word_of_nat c, due it e k S c)) =
        (Some (e + word_of_nat c', due it e k ?S c'), map (\<lambda>j. item_out (it j) (e + word_of_nat j)) [c..<c'])"
      using seq True lt by (simp add: spec_insert_def Let_def upt_conv_Cons add.assoc add.commute [of 1])
    moreover have "\<forall>x < c'. x \<in> ?S" using least c(1) by (meson insertCI not_le_imp_less)
    ultimately show ?thesis using c' by blast
  next
    case False
    have diff: "e + word_of_nat i - (e + word_of_nat c) = (word_of_nat i - word_of_nat c :: u32)" by simp
    have old: "due it e k S c (e + word_of_nat i) = (if i \<in> S \<and> c \<le> i then Some (it i) else None)"
      using ui i by (simp add: due_def Let_def)
    have keep: "due it e k (insert i S) c = due it e k S c" if "i < c \<or> i \<in> S"
      using that by (auto simp: due_def Let_def fun_eq_iff insert_absorb)
    have new: "due it e k (insert i S) c = (due it e k S c)(e + word_of_nat i \<mapsto> it i)" if "c < i"
    proof
      fix s
      have "unat (s - e) = i \<longleftrightarrow> s = e + word_of_nat i" using i k by (intro unat_diff_eq_iff) simp
      then show "due it e k (insert i S) c s = ((due it e k S c)(e + word_of_nat i \<mapsto> it i)) s"
        using that i by (cases "unat (s - e) = i") (simp_all add: due_def Let_def)
    qed
    have dist: "unat (word_of_nat i - word_of_nat c :: u32) < N \<longleftrightarrow> c < i"
    proof (cases "c < i")
      case True
      then have "unat (word_of_nat i - word_of_nat c :: u32) = i - c"
        using ui uc by (simp add: unat_sub word_le_nat_alt)
      then show ?thesis using True i k by simp
    next
      case f: False
      then have "unat (word_of_nat c - word_of_nat i :: u32) = c - i"
        using ui uc by (simp add: unat_sub word_le_nat_alt)
      moreover have "(word_of_nat c - word_of_nat i :: u32) \<noteq> 0" using iff False by auto
      ultimately have "unat (word_of_nat i - word_of_nat c :: u32) + (c - i) = 2 ^ 32"
        using unat_neg_word [of "word_of_nat c - word_of_nat i :: u32"] by simp
      then show ?thesis using f ck k by simp
    qed
    have "spec_insert N (it i) (Some (e + word_of_nat c, due it e k S c)) =
        (Some (e + word_of_nat c, due it e k (insert i S) c), [])"
      using seq iff False old dist keep new
      by (cases "c < i"; cases "i \<in> S") (simp_all add: spec_insert_def Let_def diff insert_absorb)
    then show ?thesis using c False by (intro exI [of _ c]) auto
  qed
qed

subsection \<open>The contract\<close>

locale reorder_contract =
  fixes step :: "event \<Rightarrow> 's \<Rightarrow> 's \<times> OrderedPacket list"
    and win :: "'s \<Rightarrow> window"
    and wsize :: "'s \<Rightarrow> nat"
    and inv :: "'s \<Rightarrow> bool"
  assumes inv_step: "inv s \<Longrightarrow> inv (fst (step ev s))"
    and wsize_step: "inv s \<Longrightarrow> wsize (fst (step ev s)) = wsize s"
    and wsize_bound: "inv s \<Longrightarrow> wsize s \<le> 2 ^ 31"
    and arrive: "inv s \<Longrightarrow> spec_insert (wsize s) it (win s) = (win (fst (step (Arrive clk it) s)), snd (step (Arrive clk it) s))"
    and tick: "inv s \<Longrightarrow> step (Tick clk) s = (s, []) \<or>
        spec_timeout (wsize s) True (win s) = (win (fst (step (Tick clk) s)), snd (step (Tick clk) s))"
begin

lemma step_facts:
  assumes "inv s" and "win s = Some (e, m)" and "keyed m"
  shows "\<exists>m'. win (fst (step ev s)) = Some (e + word_of_nat (length (snd (step ev s))), m') \<and>
      seqs_from e (snd (step ev s)) \<and> keyed m' \<and> ran m' \<subseteq> set (arrived [ev]) \<union> ran m \<and>
      (\<forall>out \<in> set (snd (step ev s)). from_items (set (arrived [ev]) \<union> ran m) out)"
proof (cases ev)
  case (Arrive clk it)
  from spec_insert_facts [OF arrive [OF assms(1), of it clk, unfolded assms(2)] assms(3)] Arrive
  show ?thesis by simp
next
  case (Tick clk)
  from tick [OF assms(1), of clk] show ?thesis
  proof
    assume "step (Tick clk) s = (s, [])"
    then show ?thesis using Tick assms by simp
  next
    assume t: "spec_timeout (wsize s) True (win s) = (win (fst (step (Tick clk) s)), snd (step (Tick clk) s))"
    from spec_timeout_facts [OF t [unfolded assms(2)] assms(3)] Tick show ?thesis by simp
  qed
qed

lemma run_facts:
  assumes "inv s" and "win s = Some (e, m)" and "keyed m" and "run_events step evs s = (s', outs)"
  shows "\<exists>m'. inv s' \<and> win s' = Some (e + word_of_nat (length outs), m') \<and> seqs_from e outs \<and> keyed m' \<and>
      (\<forall>out \<in> set outs. from_items (set (arrived evs) \<union> ran m) out)"
  using assms
proof (induction evs arbitrary: s e m outs)
  case (Cons ev evs)
  obtain s1 out1 where s1: "step ev s = (s1, out1)" by fastforce
  obtain outs1 where r: "run_events step evs s1 = (s', outs1)" and outs: "outs = out1 @ outs1"
    using Cons.prems(4) s1 by (auto split: prod.splits)
  from step_facts [OF Cons.prems(1-3), of ev] s1 obtain m1 where m1: "win s1 = Some (e + word_of_nat (length out1), m1)"
    "seqs_from e out1" "keyed m1" "ran m1 \<subseteq> set (arrived [ev]) \<union> ran m"
    "\<forall>out \<in> set out1. from_items (set (arrived [ev]) \<union> ran m) out" by auto
  have inv1: "inv s1" using inv_step [OF Cons.prems(1), of ev] s1 by simp
  from Cons.IH [OF inv1 m1(1,3) r] obtain m' where m': "inv s'"
    "win s' = Some (e + word_of_nat (length out1) + word_of_nat (length outs1), m')"
    "seqs_from (e + word_of_nat (length out1)) outs1" "keyed m'"
    "\<forall>out \<in> set outs1. from_items (set (arrived evs) \<union> ran m1) out" by blast
  have mono: "from_items A out \<Longrightarrow> A \<subseteq> B \<Longrightarrow> from_items B out" for A B out
    by (auto simp: from_items_def)
  have sub: "set (arrived (ev # evs)) = set (arrived [ev]) \<union> set (arrived evs)" by (cases ev) auto
  have first: "set (arrived [ev]) \<union> ran m \<subseteq> set (arrived (ev # evs)) \<union> ran m"
    and rest: "set (arrived evs) \<union> ran m1 \<subseteq> set (arrived (ev # evs)) \<union> ran m" using m1(4) sub by blast+
  have "\<forall>out \<in> set outs. from_items (set (arrived (ev # evs)) \<union> ran m) out"
    using m1(5) m'(5) mono [OF _ first] mono [OF _ rest] by (auto simp: outs)
  then show ?case
    using m' m1(2) by (intro exI [of _ m']) (simp add: outs seqs_from_append add.assoc)
qed auto

lemma run_permuted:
  assumes "inv s" and "win s = Some (e + word_of_nat c, due it e k S c)" and "\<forall>x < c. x \<in> S" and "c \<notin> S"
    and "S \<subseteq> {..<k}" and "k \<le> wsize s" and "\<forall>(clk, i) \<in> set js. i < k"
    and "\<forall>i < k. sequence_number (fst (it i)) = e + word_of_nat i"
  shows "\<exists>s' c'. run_events step (map (\<lambda>(clk, i). Arrive clk (it i)) js) s =
        (s', map (\<lambda>j. item_out (it j) (e + word_of_nat j)) [c..<c']) \<and> inv s' \<and>
      win s' = Some (e + word_of_nat c', due it e k (S \<union> snd ` set js) c') \<and> c \<le> c' \<and>
      (\<forall>x < c'. x \<in> S \<union> snd ` set js) \<and> c' \<notin> S \<union> snd ` set js"
  using assms
proof (induction js arbitrary: s c S)
  case Nil
  then show ?case by (intro exI [of _ s] exI [of _ c]) simp
next
  case (Cons cj js)
  obtain clk i where cj: "cj = (clk, i)" by (cases cj)
  have i: "i < k" using Cons.prems(7) cj by simp
  from spec_insert_due [OF Cons.prems(3,4,5) i Cons.prems(6) wsize_bound [OF Cons.prems(1)], of it e] Cons.prems(8) i
  obtain c1 where c1: "\<forall>x < c1. x \<in> insert i S" "c1 \<notin> insert i S" "c \<le> c1"
    "spec_insert (wsize s) (it i) (Some (e + word_of_nat c, due it e k S c)) =
        (Some (e + word_of_nat c1, due it e k (insert i S) c1),
         map (\<lambda>j. item_out (it j) (e + word_of_nat j)) [c..<c1])" by blast
  obtain s1 out1 where s1: "step (Arrive clk (it i)) s = (s1, out1)" by fastforce
  with arrive [OF Cons.prems(1), of "it i" clk] Cons.prems(2) c1(4)
  have w1: "win s1 = Some (e + word_of_nat c1, due it e k (insert i S) c1)"
    and o1: "out1 = map (\<lambda>j. item_out (it j) (e + word_of_nat j)) [c..<c1]" by auto
  have inv1: "inv s1" and N1: "wsize s1 = wsize s"
    using inv_step [OF Cons.prems(1), of "Arrive clk (it i)"] wsize_step [OF Cons.prems(1), of "Arrive clk (it i)"] s1 by simp_all
  have "insert i S \<subseteq> {..<k}" "\<forall>(clk, i) \<in> set js. i < k" using Cons.prems(5,7) i by auto
  from Cons.IH [OF inv1 w1 c1(1,2) this(1) _ this(2) Cons.prems(8)] Cons.prems(6) N1
  obtain s' c' where IH: "run_events step (map (\<lambda>(clk, i). Arrive clk (it i)) js) s1 =
        (s', map (\<lambda>j. item_out (it j) (e + word_of_nat j)) [c1..<c'])" "inv s'"
      "win s' = Some (e + word_of_nat c', due it e k (insert i S \<union> snd ` set js) c')" "c1 \<le> c'"
      "\<forall>x < c'. x \<in> insert i S \<union> snd ` set js" "c' \<notin> insert i S \<union> snd ` set js" by auto
  have S: "insert i S \<union> snd ` set js = S \<union> snd ` set (cj # js)" by (auto simp: cj)
  have "[c..<c1] @ [c1..<c'] = [c..<c']" using c1(3) IH(4) by (metis le_Suc_ex upt_add_eq_append)
  then show ?case
    using IH c1(3) by (intro exI [of _ s'] exI [of _ c']) (simp add: cj s1 o1 S [unfolded cj] map_append [symmetric] del: map_append)
qed

end

text \<open>The contract holds of a ring reorderer with a callback and zero filling on.\<close>

definition filling :: "Reorderer_state \<Rightarrow> bool" where
  "filling r \<longleftrightarrow> reord_inv r \<and> ord_callback r \<and> oc_enable_zero_fill (ord_config r)"

lemma insert_filling:
  assumes "filling r"
  shows "filling (fst (insert_owned clk h pl n r))"
    and "length (ord_ring_slots (fst (insert_owned clk h pl n r))) = length (ord_ring_slots r)"
    and "spec_insert (length (ord_ring_slots r)) (h, pl, n) (window_of r) =
      (window_of (fst (insert_owned clk h pl n r)), snd (insert_owned clk h pl n r))"
  using insert_owned_refines [of r clk h pl n] assms by (auto simp: filling_def)

lemma timeout_filling:
  assumes "filling r"
  shows "filling (fst (reorder_check_timeout clk r))"
    and "length (ord_ring_slots (fst (reorder_check_timeout clk r))) = length (ord_ring_slots r)"
    and "reorder_check_timeout clk r = (r, []) \<or>
      spec_timeout (length (ord_ring_slots r)) True (window_of r) =
        (window_of (fst (reorder_check_timeout clk r)), snd (reorder_check_timeout clk r))"
  using check_timeout_refines [of r clk] assms by (auto simp: filling_def split: if_splits)

lemma filling_bound: "filling r \<Longrightarrow> length (ord_ring_slots r) \<le> 2 ^ 31"
  by (simp add: filling_def reord_inv_def winv_def)

interpretation ring_reorder: reorder_contract step_reorderer window_of "\<lambda>r. length (ord_ring_slots r)" filling
proof
  fix r ev
  assume r: "filling r"
  show "filling (fst (step_reorderer ev r))"
    and "length (ord_ring_slots (fst (step_reorderer ev r))) = length (ord_ring_slots r)"
    using insert_filling [OF r] timeout_filling [OF r] by (induction ev r rule: step_reorderer.induct) auto
  show "length (ord_ring_slots r) \<le> 2 ^ 31" using r by (rule filling_bound)
next
  fix r it clk
  assume r: "filling r"
  show "spec_insert (length (ord_ring_slots r)) it (window_of r) =
      (window_of (fst (step_reorderer (Arrive clk it) r)), snd (step_reorderer (Arrive clk it) r))"
    using insert_filling(3) [OF r] by (cases it) simp
  show "step_reorderer (Tick clk) r = (r, []) \<or>
      spec_timeout (length (ord_ring_slots r)) True (window_of r) =
        (window_of (fst (step_reorderer (Tick clk) r)), snd (step_reorderer (Tick clk) r))"
    using timeout_filling(3) [OF r] by simp
qed

subsection \<open>Properties\<close>

lemma keyed_empty: "keyed Map.empty"
  by (simp add: keyed_def)

lemma spec_insert_None: "spec_insert N it None = spec_insert N it (Some (sequence_number (fst it), Map.empty))"
  by (simp add: spec_insert_def)

lemma new_filling:
  assumes "oc_window_size cfg \<le> 2 ^ 31" and "oc_enable_zero_fill cfg"
  shows "filling (reorderer_new cfg True t)" and "window_of (reorderer_new cfg True t) = None"
    and "length (ord_ring_slots (reorderer_new cfg True t)) = max 1 (oc_window_size cfg)"
  using reorderer_new_inv [OF assms(1), of True t] assms(2)
  by (simp_all add: filling_def reorderer_new_def Let_def)

text \<open>
  C9: each entry point of the reorderer acts on the window of pending packets exactly as the
  specification says, whether or not a callback is installed, and keeps the invariant of ring, bitmap and
  counters; a timeout check before the deadline changes nothing.\<close>

theorem reorderer_refines:
  assumes "reord_inv r"
  shows "(\<exists>r' outs. insert_owned clk h pl n r = (r', if ord_callback r then outs else []) \<and> reord_inv r' \<and>
        spec_insert (length (ord_ring_slots r)) (h, pl, n) (window_of r) = (window_of r', outs)) \<and>
    (\<exists>r' outs. reorder_check_timeout clk r = (r', if ord_callback r then outs else []) \<and> reord_inv r' \<and>
        (if timeout_due (clk 0) r
         then spec_timeout (length (ord_ring_slots r)) (oc_enable_zero_fill (ord_config r)) (window_of r) = (window_of r', outs)
         else r' = r \<and> outs = []))"
  using insert_owned_refines [OF assms, of clk h pl n] check_timeout_refines [OF assms, of clk] by blast

definition sample_reorder :: ReorderConfig where
  "sample_reorder = \<lparr>oc_window_size = 8, oc_timeout_ms = 50, oc_enable_zero_fill = True\<rparr>"

lemma sample_reorder_simps [simp]:
  "oc_window_size sample_reorder = 8" "oc_timeout_ms sample_reorder = 50" "oc_enable_zero_fill sample_reorder"
  by (simp_all add: sample_reorder_def)

theorem reorderer_refines_witness:
  "\<exists>r' outs. insert_owned (\<lambda>_. 5) zero_common None 0 (reorderer_new sample_reorder True 0) = (r', outs) \<and> reord_inv r'"
proof -
  have "reord_inv (reorderer_new sample_reorder True 0)" by (intro reorderer_new_inv) simp
  from reorderer_refines [OF this, of "\<lambda>_. 5" zero_common None 0] show ?thesis by blast
qed

text \<open>
  C10: whatever packets and timeout checks follow the first packet, the delivered packets carry
  consecutive sequence numbers from the first one on, without gap or repetition and across the wrap-around
  of the 32-bit counter; each is a zero fill or a packet that arrived with that number, and the expected
  number is always the one after the last delivered.\<close>

theorem reorderer_gap_free:
  assumes "oc_window_size cfg \<le> 2 ^ 31" and "oc_enable_zero_fill cfg"
    and "run_events step_reorderer (Arrive clk it # evs) (reorderer_new cfg True t) = (r, outs)"
  shows "map op_sequence_number outs = map (\<lambda>i. sequence_number (fst it) + word_of_nat i) [0..<length outs] \<and>
    (\<forall>out \<in> set outs. out = create_zero_filled_packet (op_sequence_number out) \<or>
       (\<exists>x \<in> set (arrived (Arrive clk it # evs)). sequence_number (fst x) = op_sequence_number out \<and>
          out = (case x of (h, pl, n) \<Rightarrow> ordered_packet h pl n (op_sequence_number out)))) \<and>
    ord_next_expected_seq r = sequence_number (fst it) + word_of_nat (length outs) \<and> reord_inv r"
proof -
  let ?e = "sequence_number (fst it)"
  define r0 where "r0 = reorderer_new cfg True t"
  have new: "filling r0" "window_of r0 = None" using new_filling [OF assms(1,2)] by (simp_all add: r0_def)
  obtain r1 out1 where s1: "step_reorderer (Arrive clk it) r0 = (r1, out1)" by fastforce
  obtain outs1 where run: "run_events step_reorderer evs r1 = (r, outs1)" and outs: "outs = out1 @ outs1"
    using assms(3) s1 by (auto simp: r0_def split: prod.splits)
  have "spec_insert (length (ord_ring_slots r0)) it (Some (?e, Map.empty)) = (window_of r1, out1)"
    using ring_reorder.arrive [OF new(1), of it clk] s1 new(2) by (simp add: spec_insert_None [symmetric])
  from spec_insert_facts [OF this keyed_empty] obtain m1 where m1:
    "window_of r1 = Some (?e + word_of_nat (length out1), m1)" "seqs_from ?e out1" "keyed m1" "ran m1 \<subseteq> {it}"
    "\<forall>out \<in> set out1. from_items {it} out" by auto
  have "filling r1" using ring_reorder.inv_step [OF new(1), of "Arrive clk it"] s1 by simp
  from ring_reorder.run_facts [OF this m1(1,3) run] obtain m' where m': "filling r"
    "window_of r = Some (?e + word_of_nat (length out1) + word_of_nat (length outs1), m')"
    "seqs_from (?e + word_of_nat (length out1)) outs1"
    "\<forall>out \<in> set outs1. from_items (set (arrived evs) \<union> ran m1) out" by blast
  have "\<forall>out \<in> set outs. from_items (set (arrived (Arrive clk it # evs))) out"
    using m1(4,5) m'(4) unfolding outs from_items_def by auto
  moreover have "seqs_from ?e outs" using m1(2) m'(3) by (simp add: outs seqs_from_append)
  moreover have "ord_next_expected_seq r = ?e + word_of_nat (length outs)"
    using m'(2) by (simp add: window_of_def outs add.assoc split: if_splits)
  ultimately show ?thesis
    using m'(1) unfolding from_items_def seqs_from_def filling_def item_out_def by blast
qed

definition sample_item :: "u32 \<Rightarrow> item" where
  "sample_item s = (zero_common\<lparr>sequence_number := s\<rparr>, Some [0xAB], 1)"

lemma sequence_number_sample_item [simp]: "sequence_number (fst (sample_item s)) = s"
  by (simp add: sample_item_def)

theorem reorderer_gap_free_witness:
  "\<exists>r outs. run_events step_reorderer [Arrive (\<lambda>_. 5) (sample_item 0xFFFFFFFF), Arrive (\<lambda>_. 6) (sample_item 1),
       Tick (\<lambda>_. 100000000)] (reorderer_new sample_reorder True 0) = (r, outs) \<and>
     map op_sequence_number outs = map (\<lambda>i. 0xFFFFFFFF + word_of_nat i) [0..<length outs]"
proof -
  obtain r outs where run: "run_events step_reorderer [Arrive (\<lambda>_. 5) (sample_item 0xFFFFFFFF), Arrive (\<lambda>_. 6) (sample_item 1),
       Tick (\<lambda>_. 100000000)] (reorderer_new sample_reorder True 0) = (r, outs)" by fastforce
  have "map op_sequence_number outs = map (\<lambda>i. 0xFFFFFFFF + word_of_nat i) [0..<length outs]"
    using reorderer_gap_free [OF _ _ run] by simp
  with run show ?thesis by blast
qed

text \<open>
  C6: when packets \<open>0, \<dots>, k - 1\<close> of a stream, numbered from any 32-bit start and no more than the window
  holds, arrive with the first one first and the rest in any order, repeated any number of times, the
  reorderer delivers each exactly once, in order, with its own header and payload, and ends with an empty window.\<close>

theorem reorderer_sorts_arrivals:
  assumes "oc_window_size cfg \<le> 2 ^ 31" and "oc_enable_zero_fill cfg"
    and "0 < k" and "k \<le> max 1 (oc_window_size cfg)"
    and "\<forall>i < k. sequence_number (fst (it i)) = e + word_of_nat i"
    and "\<forall>(clk, i) \<in> set js. i < k" and "insert 0 (snd ` set js) = {..<k}"
  shows "\<exists>r. run_events step_reorderer (map (\<lambda>(clk, i). Arrive clk (it i)) ((clk0, 0) # js)) (reorderer_new cfg True t) =
      (r, map (\<lambda>i. case it i of (h, pl, n) \<Rightarrow> ordered_packet h pl n (e + word_of_nat i)) [0..<k]) \<and>
      window_of r = Some (e + word_of_nat k, Map.empty) \<and> reord_inv r"
proof -
  define r0 where "r0 = reorderer_new cfg True t"
  have new: "filling r0" "window_of r0 = None" "length (ord_ring_slots r0) = max 1 (oc_window_size cfg)"
    using new_filling [OF assms(1,2)] by (simp_all add: r0_def)
  obtain r1 out1 where s1: "step_reorderer (Arrive clk0 (it 0)) r0 = (r1, out1)" by fastforce
  have seq0: "sequence_number (fst (it 0)) = e" using assms(3,5) by auto
  have empty: "spec_drain n x Map.empty = (x, Map.empty, [])" for n x by (cases n) auto
  have w1: "window_of r1 = Some (e + 1, Map.empty)" and o1: "out1 = [item_out (it 0) e]"
    using ring_reorder.arrive [OF new(1), of "it 0" clk0] s1 new(2) seq0 by (simp_all add: spec_insert_def empty)
  have f1: "filling r1" and N1: "length (ord_ring_slots r1) = max 1 (oc_window_size cfg)"
    using ring_reorder.inv_step [OF new(1), of "Arrive clk0 (it 0)"]
      ring_reorder.wsize_step [OF new(1), of "Arrive clk0 (it 0)"] s1 new(3) by simp_all
  have due0: "due it e k {0} 1 = Map.empty" by (auto simp: due_def Let_def fun_eq_iff)
  have "window_of r1 = Some (e + word_of_nat 1, due it e k {0} 1)" by (simp only: w1 due0) simp
  from ring_reorder.run_permuted [OF f1 this _ _ _ _ assms(6,5)] assms(3,4) N1
  obtain r c' where run: "run_events step_reorderer (map (\<lambda>(clk, i). Arrive clk (it i)) js) r1 =
        (r, map (\<lambda>j. item_out (it j) (e + word_of_nat j)) [1..<c'])" "filling r"
      "window_of r = Some (e + word_of_nat c', due it e k ({0} \<union> snd ` set js) c')" "1 \<le> c'"
      "\<forall>x < c'. x \<in> {0} \<union> snd ` set js" "c' \<notin> {0} \<union> snd ` set js" by (auto simp: less_Suc_eq)
  have c': "c' = k" using run(5,6) assms(7) by (metis insert_is_Un lessThan_iff linorder_neqE_nat less_irrefl)
  have due_end: "due it e k ({0} \<union> snd ` set js) k = Map.empty" by (simp add: due_def Let_def fun_eq_iff)
  have outs: "out1 @ map (\<lambda>j. item_out (it j) (e + word_of_nat j)) [1..<k] = map (\<lambda>j. item_out (it j) (e + word_of_nat j)) [0..<k]"
    using assms(3) by (simp add: o1 upt_conv_Cons)
  show ?thesis
    using run s1 outs due_end c'
    by (intro exI [of _ r]) (simp add: r0_def [symmetric] item_out_def [abs_def] filling_def)
qed

theorem reorderer_sorts_arrivals_witness:
  "\<exists>r outs. run_events step_reorderer (map (\<lambda>(clk, i). Arrive clk (sample_item (0xFFFFFFFE + word_of_nat i)))
       [(\<lambda>_. 5, 0), (\<lambda>_. 6, 3), (\<lambda>_. 7, 1), (\<lambda>_. 8, 3), (\<lambda>_. 9, 2)]) (reorderer_new sample_reorder True 0) = (r, outs) \<and>
     map op_sequence_number outs = [0xFFFFFFFE, 0xFFFFFFFF, 0, 1] \<and> reord_inv r"
proof -
  let ?it = "\<lambda>i. sample_item (0xFFFFFFFE + word_of_nat i)"
  let ?js = "[(\<lambda>_ :: nat. 6 :: u64, 3), (\<lambda>_. 7, 1), (\<lambda>_. 8, 3), (\<lambda>_. 9, 2 :: nat)]"
  have small: "\<forall>(clk, i) \<in> set ?js. i < 4" by simp
  have all: "insert 0 (snd ` set ?js) = {..<4}" by auto
  obtain r where r: "run_events step_reorderer (map (\<lambda>(clk, i). Arrive clk (?it i)) ((\<lambda>_. 5, 0) # ?js))
        (reorderer_new sample_reorder True 0) =
      (r, map (\<lambda>i. case ?it i of (h, pl, n) \<Rightarrow> ordered_packet h pl n (0xFFFFFFFE + word_of_nat i)) [0..<4])" "reord_inv r"
    using reorderer_sorts_arrivals [OF _ _ _ _ _ small all, of sample_reorder ?it "0xFFFFFFFE" "\<lambda>_. 5" 0] by auto
  moreover have "[0..<4] = [0, 1, 2, 3 :: nat]" by (simp add: upt_rec)
  ultimately show ?thesis
    by (intro exI [of _ r] exI conjI) (assumption | simp add: sample_item_def ordered_packet_def)+
qed

end
