(* ===== verification/Reorder_Flush.thy ===== *)
theory Reorder_Flush
  imports Reorder_Order
begin

text \<open>
  \<^verbatim>\<open>Reorderer::flush\<close>: what the final sweep over the ring hands out, and in which order.
\<close>

definition slot_out :: "StoredPacket \<Rightarrow> OrderedPacket" where
  "slot_out s = ordered_packet (sp_header s) (sp_payload s) (sp_payload_size s) (sp_sequence s)"

lemma release_slot_frame [simp]:
  "ord_callback (release_slot i r) = ord_callback r" "ord_initialized (release_slot i r) = ord_initialized r"
  "ord_config (release_slot i r) = ord_config r" "ord_next_expected_seq (release_slot i r) = ord_next_expected_seq r"
  "ord_base_index (release_slot i r) = ord_base_index r" "length (ord_ring_slots (release_slot i r)) = length (ord_ring_slots r)"
  "ord_occupancy_bitmap (release_slot i r) = bit_clear (ord_occupancy_bitmap r) i"
  "j \<noteq> i \<Longrightarrow> ord_ring_slots (release_slot i r) ! j = ord_ring_slots r ! j"
  by (simp_all add: release_slot_def Let_def)

lemma count_in_order_base [simp]: "ord_base_index (count_in_order r) = ord_base_index r"
  by (simp add: count_in_order_def)

lemma flush_pending_facts:
  assumes "distinct (map snd ps)" and "flush_pending ps r = (r', outs)"
  shows "outs = concat (map (\<lambda>(s, i). to_callback r (slot_out (ord_ring_slots r ! i))) ps) \<and>
    (\<forall>j. bit_test (ord_occupancy_bitmap r') j \<longleftrightarrow> bit_test (ord_occupancy_bitmap r) j \<and> j \<notin> snd ` set ps) \<and>
    ord_callback r' = ord_callback r \<and> ord_initialized r' = ord_initialized r \<and> ord_config r' = ord_config r \<and>
    ord_next_expected_seq r' = ord_next_expected_seq r \<and> ord_base_index r' = ord_base_index r \<and>
    length (ord_ring_slots r') = length (ord_ring_slots r) \<and>
    length (ord_occupancy_bitmap r') = length (ord_occupancy_bitmap r)"
  using assms
proof (induction ps r arbitrary: r' outs rule: flush_pending.induct)
  case (2 s i rest r)
  let ?r = "count_in_order (release_slot i r)"
  obtain outs1 where f: "flush_pending rest ?r = (r', outs1)" and outs: "outs = to_callback r (slot_out (ord_ring_slots r ! i)) @ outs1"
    using 2(3) by (auto simp: Let_def slot_out_def split: prod.splits)
  have dist: "distinct (map snd rest)" "i \<notin> snd ` set rest" using 2(2) by auto
  note IH = 2(1) [OF refl refl dist(1) f]
  have same: "map (\<lambda>(s, j). to_callback ?r (slot_out (ord_ring_slots ?r ! j))) rest =
      map (\<lambda>(s, j). to_callback r (slot_out (ord_ring_slots r ! j))) rest"
    using dist(2) by (auto simp: to_callback_def image_iff)
  have "outs1 = concat (map (\<lambda>(s, j). to_callback r (slot_out (ord_ring_slots r ! j))) rest)"
    using conjunct1 [OF IH] unfolding same .
  then show ?case using IH by (auto simp: outs bit_test_clear)
qed simp

lemma pending_slots_facts:
  assumes "winv r"
  shows "distinct (map snd (pending_slots r))" and "distinct (map fst (pending_slots r))"
    and "snd ` set (pending_slots r) = {j. bit_test (ord_occupancy_bitmap r) j}"
    and "(s, j) \<in> set (pending_slots r) \<longleftrightarrow>
      unat (s - ord_next_expected_seq r) < length (ord_ring_slots r) \<and> j = slot_at r (unat (s - ord_next_expected_seq r)) \<and>
      bit_test (ord_occupancy_bitmap r) j"
proof -
  let ?n = "length (ord_ring_slots r)" and ?e = "ord_next_expected_seq r"
  show dist: "distinct (map snd (pending_slots r))" by (simp add: pending_slots_def comp_def)
  show bits: "snd ` set (pending_slots r) = {j. bit_test (ord_occupancy_bitmap r) j}"
    using assms by (force simp: pending_slots_def winv_def image_image)
  have mem: "(s, j) \<in> set (pending_slots r) \<longleftrightarrow> bit_test (ord_occupancy_bitmap r) j \<and> s = sp_sequence (ord_ring_slots r ! j)" for s j
    using assms by (auto simp: pending_slots_def winv_def)
  have seq: "sp_sequence (ord_ring_slots r ! slot_at r d) = ?e + word_of_nat d \<and>
      unat (sp_sequence (ord_ring_slots r ! slot_at r d) - ?e) = d"
    if "d < ?n" "bit_test (ord_occupancy_bitmap r) (slot_at r d)" for d
    using that assms unat_diff_eq_iff [of d "sp_sequence (ord_ring_slots r ! slot_at r d)" ?e] by (simp add: winv_def)
  show iff: "(s, j) \<in> set (pending_slots r) \<longleftrightarrow>
      unat (s - ?e) < ?n \<and> j = slot_at r (unat (s - ?e)) \<and> bit_test (ord_occupancy_bitmap r) j" for s j
  proof
    assume "(s, j) \<in> set (pending_slots r)"
    then have j: "bit_test (ord_occupancy_bitmap r) j" "s = sp_sequence (ord_ring_slots r ! j)" by (simp_all add: mem)
    moreover have "j < ?n" using j(1) assms by (simp add: winv_def)
    ultimately show "unat (s - ?e) < ?n \<and> j = slot_at r (unat (s - ?e)) \<and> bit_test (ord_occupancy_bitmap r) j"
      using slot_at_surj [OF assms] seq by metis
  next
    assume a: "unat (s - ?e) < ?n \<and> j = slot_at r (unat (s - ?e)) \<and> bit_test (ord_occupancy_bitmap r) j"
    then have "sp_sequence (ord_ring_slots r ! j) = ?e + word_of_nat (unat (s - ?e))" using seq by blast
    then have "s = sp_sequence (ord_ring_slots r ! j)" by simp
    then show "(s, j) \<in> set (pending_slots r)" using a unfolding mem by blast
  qed
  have "inj_on fst (set (pending_slots r))" using iff by (intro inj_onI) (metis prod.collapse)
  then show "distinct (map fst (pending_slots r))" using dist by (simp add: distinct_map)
qed

lemma pend_iff_pending:
  assumes "winv r"
  shows "pend r s = Some it \<longleftrightarrow> (\<exists>j. (s, j) \<in> set (pending_slots r) \<and> it = slot_item (ord_ring_slots r ! j))"
  using pending_slots_facts(4) [OF assms] by (auto simp: pend_def Let_def)

lemma slot_out_pending:
  assumes "(s, j) \<in> set (pending_slots r)"
  shows "slot_out (ord_ring_slots r ! j) = item_out (slot_item (ord_ring_slots r ! j)) s"
  using assms by (auto simp: pending_slots_def slot_out_def item_out_def slot_item_def)

lemma image_split_pairs: "(\<lambda>(x, y). f x y) ` A = {f x y |x y. (x, y) \<in> A}"
  by force

lemma no_bits_inv:
  assumes "\<forall>j. \<not> bit_test (ord_occupancy_bitmap r) j" and "0 < length (ord_ring_slots r)" "length (ord_ring_slots r) \<le> 2 ^ 31"
    "length (ord_occupancy_bitmap r) = (length (ord_ring_slots r) + 63) div 64" "ord_base_index r < length (ord_ring_slots r)"
    "current_buffer_size (ord_stats r) = 0" "ord_buffered_packets r = 0"
  shows "reord_inv r" and "pend r = Map.empty"
  using assms by (simp_all add: reord_inv_def winv_def base_free_def pend_def fun_eq_iff Let_def)

text \<open>
  a flush hands out each buffered packet exactly once, with its own header and payload, in the order of
  the raw sequence numbers, reports how many there were, leaves the window empty, and does not move the expected
  sequence number.\<close>

lemma flush_delivers_pending:
  assumes "reord_inv r" and "ord_callback r" and "flush r = ((r', outs), n)"
  shows "n = current_buffer_size (ord_stats r) \<and> length outs = n \<and> reord_inv r' \<and>
    window_of r' = map_option (\<lambda>(e, m). (e, Map.empty)) (window_of r) \<and>
    set outs = {item_out it s |s it. pend r s = Some it} \<and>
    distinct (map op_sequence_number outs) \<and> sorted (map op_sequence_number outs)"
proof -
  define ps where "ps = sort_key fst (pending_slots r)"
  have w: "winv r" using assms(1) by (simp add: reord_inv_def)
  note pf = pending_slots_facts [OF w]
  obtain r1 where f: "flush_pending ps r = (r1, outs)" and n: "n = length ps"
    and r': "r' = r1\<lparr>ord_stats := (ord_stats r1)\<lparr>current_buffer_size := 0\<rparr>, ord_buffered_packets := 0\<rparr>"
    using assms(3) by (auto simp: flush_def ps_def Let_def split: prod.splits)
  have set_ps: "set ps = set (pending_slots r)" by (simp add: ps_def)
  have dist: "distinct (map snd ps)" "distinct (map fst ps)" using pf(1,2) by (simp_all add: ps_def distinct_map)
  note ff = flush_pending_facts [OF dist(1) f]
  have "concat (map (\<lambda>(s, i). [slot_out (ord_ring_slots r ! i)]) xs) = map (\<lambda>(s, i). slot_out (ord_ring_slots r ! i)) xs" for xs :: "(u32 \<times> nat) list"
    by (induction xs) auto
  then have "outs = map (\<lambda>(s, i). slot_out (ord_ring_slots r ! i)) ps" using ff assms(2) by (simp add: to_callback_def)
  then have outs: "outs = map (\<lambda>(s, i). item_out (slot_item (ord_ring_slots r ! i)) s) ps"
    using slot_out_pending set_ps by auto
  then have seqs: "map op_sequence_number outs = map fst ps" by (simp add: comp_def split_def)
  have bits: "\<forall>j. \<not> bit_test (ord_occupancy_bitmap r1) j" using ff pf(3) set_ps by auto
  have "reord_inv r'" "pend r' = Map.empty" using ff w bits by (intro no_bits_inv; simp add: r' winv_def)+
  moreover have "n = card {j. bit_test (ord_occupancy_bitmap r) j}"
    using distinct_card [OF dist(1)] pf(3) set_ps by (simp add: n)
  then have "n = current_buffer_size (ord_stats r)" using w by (simp add: winv_def)
  moreover have "set outs = {item_out it s |s it. pend r s = Some it}"
    unfolding outs pend_iff_pending [OF w] set_map set_ps image_split_pairs by blast
  moreover have "window_of r' = map_option (\<lambda>(e, m). (e, Map.empty)) (window_of r)"
    using ff \<open>pend r' = Map.empty\<close> by (simp add: window_of_def r')
  moreover have "length outs = n" by (simp add: outs n)
  moreover have "sorted (map op_sequence_number outs)" unfolding seqs ps_def by simp
  ultimately show ?thesis using dist(2) seqs by simp
qed

definition flushed_state :: Reorderer_state where
  "flushed_state = fst (run_events step_reorderer [Arrive (\<lambda>_. 5) (sample_item 0xFFFFFFFC), Arrive (\<lambda>_. 6) (sample_item 0),
      Arrive (\<lambda>_. 7) (sample_item 0xFFFFFFFE)] (reorderer_new sample_reorder True 0))"

lemma flushed_inv: "filling flushed_state"
  unfolding flushed_state_def by (simp add: split_def ring_reorder.inv_step new_filling del: step_reorderer.simps)

lemma flushed_seqs: "map op_sequence_number (snd (fst (flush flushed_state))) = [0, 0xFFFFFFFE]"
  by code_simp

text \<open>
  across the wrap-around the order of a flush is not the stream order: with packet \<open>0xFFFFFFFD\<close> missing
  and \<open>0xFFFFFFFE\<close> and \<open>0\<close> buffered, the flush hands out \<open>0\<close> first although \<open>0\<close> is the newer one; the window still
  waits for \<open>0xFFFFFFFD\<close>, and a copy of the flushed packet \<open>0xFFFFFFFE\<close> is accepted and delivered a second time.\<close>

lemma flush_ignores_wraparound:
  "map op_sequence_number (snd (fst (flush flushed_state))) = [0, 0xFFFFFFFE] \<and>
   is_sequence_newer 0 0xFFFFFFFE \<and>
   ord_next_expected_seq (fst (fst (flush flushed_state))) = 0xFFFFFFFD \<and>
   map op_sequence_number (snd (run_events step_reorderer
     [Arrive (\<lambda>_. 8) (sample_item 0xFFFFFFFE), Arrive (\<lambda>_. 9) (sample_item 0xFFFFFFFD)] (fst (fst (flush flushed_state))))) =
     [0xFFFFFFFD, 0xFFFFFFFE]"
  by code_simp

end
