(* ===== verification/Delivery.thy ===== *)
theory Delivery
  imports Reorderer
begin

text \<open>
  The delivery back ends (\<^verbatim>\<open>include/qdgz300/m01_receiver/delivery/delivery_interface.h\<close>,
  \<^verbatim>\<open>src/m01_receiver/delivery/delivery_interface.cpp\<close>): a callback, a ring of records in shared memory, and a
  Unix-domain socket with reconnection.

  Correspondence.  The three classes keep one record of state each and share the statistics.  The
  mapped ring is its list of bytes, so \<^verbatim>\<open>ring_size\<close> is its length; head and tail are offsets below it.
  The process-shared mutex is held for the whole of a delivery, which makes it one step.  Results of
  system calls and clock readings are arguments.
\<close>

record DeliveryStatistics =
  delivered_packets :: u64
  delivery_errors :: u64
  bytes_delivered :: u64

definition zero_delivery_stats :: DeliveryStatistics where
  "zero_delivery_stats = \<lparr>delivered_packets = 0, delivery_errors = 0, bytes_delivered = 0\<rparr>"

definition count_error :: "DeliveryStatistics \<Rightarrow> DeliveryStatistics" where
  "count_error st = st\<lparr>delivery_errors := delivery_errors st + 1\<rparr>"

definition count_delivered :: "u64 \<Rightarrow> DeliveryStatistics \<Rightarrow> DeliveryStatistics" where
  "count_delivered n st = st\<lparr>delivered_packets := delivered_packets st + 1, bytes_delivered := bytes_delivered st + n\<rparr>"

subsection \<open>CallbackDelivery\<close>

record CallbackDelivery =
  cd_callback :: bool
  cd_stats :: DeliveryStatistics

definition callback_deliver :: "OrderedPacket \<Rightarrow> CallbackDelivery \<Rightarrow> CallbackDelivery \<times> OrderedPacket list \<times> bool" where
  "callback_deliver p d =
     (if \<not> cd_callback d then (d\<lparr>cd_stats := count_error (cd_stats d)\<rparr>, [], False)
      else (d\<lparr>cd_stats := count_delivered (ucast (payload_len (header (op_packet p)))) (cd_stats d)\<rparr>, [p], True))"

subsection \<open>SharedMemoryDelivery\<close>

definition kRecordMarker :: u32 where [const_defs]: "kRecordMarker = 0x52454344"
definition kWrapMarker :: u32 where [const_defs]: "kWrapMarker = 0x57524150"
definition RECORD_HEADER_SIZE :: nat where [const_defs]: "RECORD_HEADER_SIZE = 16"

record RecordHeader =
  rh_marker :: u32
  rh_payload_size :: u32
  rh_sequence_number :: u32
  rh_is_zero_filled :: u8

definition encode_record :: "RecordHeader \<Rightarrow> bytes" where
  "encode_record r =
     bytes_le 4 (rh_marker r) @ bytes_le 4 (rh_payload_size r) @ bytes_le 4 (rh_sequence_number r) @
     bytes_le 1 (rh_is_zero_filled r) @ [0, 0, 0]"

definition decode_record :: "bytes \<Rightarrow> RecordHeader" where
  "decode_record bs =
     \<lparr>rh_marker = field_le 0 4 bs, rh_payload_size = field_le 4 4 bs, rh_sequence_number = field_le 8 4 bs,
      rh_is_zero_filled = field_le 12 1 bs\<rparr>"

record SharedMemoryDelivery =
  sm_ready :: bool
  sm_head :: nat
  sm_tail :: nat
  sm_ring :: bytes
  sm_stats :: DeliveryStatistics

definition used_space :: "nat \<Rightarrow> nat \<Rightarrow> nat \<Rightarrow> nat" where
  "used_space head tail ring_size = (if head \<ge> tail then head - tail else ring_size - (tail - head))"

definition free_space :: "nat \<Rightarrow> nat \<Rightarrow> nat \<Rightarrow> nat" where
  "free_space head tail ring_size = ring_size - used_space head tail ring_size - 1"

text \<open>\<^verbatim>\<open>memcpy\<close> into the ring at an offset.\<close>

definition overwrite :: "nat \<Rightarrow> bytes \<Rightarrow> bytes \<Rightarrow> bytes" where
  "overwrite off src buf = take off buf @ src @ drop (off + length src) buf"

definition write_ring :: "nat \<Rightarrow> bytes \<Rightarrow> bytes \<Rightarrow> bytes" where
  "write_ring off src buf =
     (if src = [] then buf
      else if off + length src \<le> length buf then overwrite off src buf
      else let first = length buf - off in overwrite 0 (drop first src) (overwrite off (take first src) buf))"

definition read_ring :: "nat \<Rightarrow> nat \<Rightarrow> bytes \<Rightarrow> bytes" where
  "read_ring off nbytes buf =
     (if nbytes = 0 then []
      else if off + nbytes \<le> length buf then take nbytes (drop off buf)
      else let first = length buf - off in take first (drop off buf) @ take (nbytes - first) buf)"

definition drop_oldest_unlocked :: "SharedMemoryDelivery \<Rightarrow> SharedMemoryDelivery \<times> bool" where
  "drop_oldest_unlocked s =
     (if sm_head s = sm_tail s then (s, False)
      else let rec = decode_record (read_ring (sm_tail s) RECORD_HEADER_SIZE (sm_ring s)) in
        if rh_marker rec = kWrapMarker then (s\<lparr>sm_tail := 0\<rparr>, True)
        else if rh_marker rec \<noteq> kRecordMarker then (s\<lparr>sm_tail := sm_head s\<rparr>, False)
        else (s\<lparr>sm_tail := (sm_tail s + (RECORD_HEADER_SIZE + unat (rh_payload_size rec))) mod length (sm_ring s)\<rparr>, True))"

text \<open>The loop that makes room; \<open>None\<close> is a loop that does not return.\<close>

partial_function (option) shm_make_room :: "nat \<Rightarrow> SharedMemoryDelivery \<Rightarrow> (SharedMemoryDelivery \<times> bool) option" where
  "shm_make_room required s =
     (if free_space (sm_head s) (sm_tail s) (length (sm_ring s)) < required
      then (case drop_oldest_unlocked s of
              (s', ok) \<Rightarrow> if ok then shm_make_room required s' else Some (s', False))
      else Some (s, True))"

declare shm_make_room.simps [code]

definition shm_put :: "bytes \<Rightarrow> SharedMemoryDelivery \<Rightarrow> SharedMemoryDelivery" where
  "shm_put bs s =
     s\<lparr>sm_ring := write_ring (sm_head s) bs (sm_ring s), sm_head := (sm_head s + length bs) mod length (sm_ring s)\<rparr>"

definition shm_wrap :: "nat \<Rightarrow> SharedMemoryDelivery \<Rightarrow> SharedMemoryDelivery" where
  "shm_wrap required s =
     (if sm_head s + RECORD_HEADER_SIZE > length (sm_ring s) \<or> sm_head s + required > length (sm_ring s)
      then let wrap = encode_record \<lparr>rh_marker = kWrapMarker, rh_payload_size = 0, rh_sequence_number = 0, rh_is_zero_filled = 0\<rparr>
           in s\<lparr>sm_ring := write_ring (sm_head s) wrap (sm_ring s), sm_head := 0\<rparr>
      else s)"

definition shm_deliver :: "OrderedPacket \<Rightarrow> SharedMemoryDelivery \<Rightarrow> (SharedMemoryDelivery \<times> bool) option" where
  "shm_deliver p s =
     (if \<not> sm_ready s then Some (s\<lparr>sm_stats := count_error (sm_stats s)\<rparr>, False)
      else let payload_size = unat (payload_len (header (op_packet p)));
               required = RECORD_HEADER_SIZE + payload_size
           in if required \<ge> length (sm_ring s) then Some (s\<lparr>sm_stats := count_error (sm_stats s)\<rparr>, False)
              else case shm_make_room required s of
                  None \<Rightarrow> None
                | Some (s1, False) \<Rightarrow> Some (s1\<lparr>sm_stats := count_error (sm_stats s1)\<rparr>, False)
                | Some (s1, True) \<Rightarrow>
                    (let rec = \<lparr>rh_marker = kRecordMarker, rh_payload_size = word_of_nat payload_size,
                                rh_sequence_number = op_sequence_number p,
                                rh_is_zero_filled = (if op_is_zero_filled p then 1 else 0)\<rparr>;
                         s3 = shm_put (encode_record rec) (shm_wrap required s1);
                         s4 = (case payload (op_packet p) of
                                 Some pl \<Rightarrow> if payload_size > 0 then shm_put (take payload_size pl) s3 else s3
                               | None \<Rightarrow> s3)
                     in Some (s4\<lparr>sm_stats := count_delivered (word_of_nat payload_size) (sm_stats s4)\<rparr>, True)))"

subsection \<open>UnixSocketDelivery\<close>

record UnixSocketDelivery =
  us_socket_path :: string
  us_reconnect_interval_ms :: u32
  us_current_backoff_ms :: u32
  us_stats :: DeliveryStatistics
  us_sock_fd :: int
  us_next_reconnect :: "int option"

text \<open>Times are nanoseconds of the steady clock; no scheduled time is \<^verbatim>\<open>time_point::min()\<close>.\<close>

definition SUN_PATH_SIZE :: nat where [const_defs]: "SUN_PATH_SIZE = 108"

definition schedule_reconnect :: "int \<Rightarrow> UnixSocketDelivery \<Rightarrow> UnixSocketDelivery" where
  "schedule_reconnect now d =
     d\<lparr>us_next_reconnect := Some (now + int (unat (us_current_backoff_ms d)) * 1000000),
       us_current_backoff_ms := min (us_current_backoff_ms d * 2) 5000\<rparr>"

record connect_calls =
  cc_now :: int
  cc_later :: int
  cc_socket :: int
  cc_connect :: int

definition connect_with_backoff :: "connect_calls \<Rightarrow> UnixSocketDelivery \<Rightarrow> UnixSocketDelivery \<times> bool" where
  "connect_with_backoff cc d =
     (if us_socket_path d = [] then (d, False)
      else if (case us_next_reconnect d of None \<Rightarrow> False | Some t \<Rightarrow> cc_now cc < t) then (d, False)
      else if cc_socket cc < 0 then (schedule_reconnect (cc_later cc) (d\<lparr>us_sock_fd := cc_socket cc\<rparr>), False)
      else if length (us_socket_path d) \<ge> SUN_PATH_SIZE then (schedule_reconnect (cc_later cc) (d\<lparr>us_sock_fd := -1\<rparr>), False)
      else if cc_connect cc \<noteq> 0 then (schedule_reconnect (cc_later cc) (d\<lparr>us_sock_fd := -1\<rparr>), False)
      else (d\<lparr>us_sock_fd := cc_socket cc, us_current_backoff_ms := max (us_reconnect_interval_ms d) 1, us_next_reconnect := None\<rparr>, True))"

definition unix_socket_new :: "string \<Rightarrow> u32 \<Rightarrow> connect_calls \<Rightarrow> UnixSocketDelivery" where
  "unix_socket_new path interval cc =
     fst (connect_with_backoff cc
       \<lparr>us_socket_path = path, us_reconnect_interval_ms = max interval 1, us_current_backoff_ms = max interval 1,
        us_stats = zero_delivery_stats, us_sock_fd = -1, us_next_reconnect = None\<rparr>)"

definition wire_frame :: "OrderedPacket \<Rightarrow> bytes" where
  "wire_frame p =
     (let n = payload_len (header (op_packet p)) in
      bytes_le 4 (ucast n :: u32) @ bytes_le 4 (0 :: u32) @
      (case payload (op_packet p) of
         Some pl \<Rightarrow> take (unat n) pl
       | None \<Rightarrow> replicate (unat n) 0))"

datatype send_errno = EAGAIN | EPIPE | ECONNRESET | OTHER_ERRNO

text \<open>The second result is what was handed to \<^verbatim>\<open>send\<close>, if anything.\<close>

definition unix_deliver ::
  "connect_calls \<Rightarrow> (nat \<Rightarrow> int) \<Rightarrow> send_errno \<Rightarrow> int \<Rightarrow> OrderedPacket \<Rightarrow> UnixSocketDelivery \<Rightarrow>
     UnixSocketDelivery \<times> bytes option \<times> bool" where
  "unix_deliver cc sent errno now p d =
     (let (d1, connected) = (if us_sock_fd d < 0 then connect_with_backoff cc d else (d, True)) in
      if \<not> connected then (d1\<lparr>us_stats := count_error (us_stats d1)\<rparr>, None, False)
      else let wire = wire_frame p in
        if sent (length wire) \<noteq> int (length wire)
        then if errno = EPIPE \<or> errno = ECONNRESET
             then let d2 = schedule_reconnect now (d1\<lparr>us_sock_fd := -1\<rparr>)
                  in (d2\<lparr>us_stats := count_error (us_stats d2)\<rparr>, Some wire, False)
             else (d1\<lparr>us_stats := count_error (us_stats d1)\<rparr>, Some wire, False)
        else (d1\<lparr>us_stats := count_delivered (ucast (payload_len (header (op_packet p)))) (us_stats d1)\<rparr>, Some wire, True))"

definition unix_flush :: "UnixSocketDelivery \<Rightarrow> UnixSocketDelivery \<times> bytes option" where
  "unix_flush d =
     (if us_sock_fd d < 0 then (d, None)
      else (d\<lparr>us_sock_fd := -1\<rparr>, Some (bytes_le 4 (0 :: u32) @ bytes_le 4 (0xFFFFFFFF :: u32))))"

end
