(* ===== verification/Delivery_Ring.thy ===== *)
theory Delivery_Ring
  imports Delivery
begin

text \<open>
  The shared-memory ring.  \<open>layout\<close> says which records a reader that follows the markers from tail to head
  finds; a delivery that needs no wrap keeps the newest of them and appends its own.  Two concrete runs
  show what goes wrong at the wrap.
\<close>

subsection \<open>Record headers\<close>

lemma length_encode_record [simp]: "length (encode_record r) = RECORD_HEADER_SIZE"
  by (simp add: encode_record_def RECORD_HEADER_SIZE_def)

lemma decode_encode_record: "decode_record (encode_record r @ rest) = r"
  by (cases r) (simp add: encode_record_def decode_record_def field_le_def)

subsection \<open>Bytes of the ring\<close>

lemma length_overwrite: "off + length src \<le> length buf \<Longrightarrow> length (overwrite off src buf) = length buf"
  by (simp add: overwrite_def)

lemma nth_overwrite:
  "off + length src \<le> length buf \<Longrightarrow> i < length buf \<Longrightarrow>
     overwrite off src buf ! i = (if off \<le> i \<and> i < off + length src then src ! (i - off) else buf ! i)"
  by (auto simp: overwrite_def nth_append)

lemma slice_overwrite: "off + length src \<le> length buf \<Longrightarrow> take (length src) (drop off (overwrite off src buf)) = src"
  by (simp add: overwrite_def)

lemma slice_other:
  assumes "off + length src \<le> length buf" and "a + n \<le> length buf" and "a + n \<le> off \<or> off + length src \<le> a"
  shows "take n (drop a (overwrite off src buf)) = take n (drop a buf)"
  using assms by (intro nth_equalityI) (auto simp: nth_overwrite length_overwrite)

definition same_at :: "nat set \<Rightarrow> bytes \<Rightarrow> bytes \<Rightarrow> bool" where
  "same_at S buf buf' \<longleftrightarrow> length buf' = length buf \<and> (\<forall>i \<in> S. i < length buf \<longrightarrow> buf' ! i = buf ! i)"

lemma same_at_slice:
  assumes "same_at S buf buf'" and "a + n \<le> length buf" and "{a..<a + n} \<subseteq> S"
  shows "take n (drop a buf') = take n (drop a buf)"
proof (intro nth_equalityI)
  fix i assume "i < length (take n (drop a buf'))"
  then have i: "i < n" "a + i \<in> S" "a + i < length buf" using assms by (auto simp: same_at_def)
  then show "take n (drop a buf') ! i = take n (drop a buf) ! i" using assms by (simp add: same_at_def)
qed (use assms in \<open>simp add: same_at_def\<close>)

subsection \<open>The records between tail and head\<close>

type_synonym record_view = "u32 \<times> bool \<times> bytes"

definition record_at :: "bytes \<Rightarrow> nat \<Rightarrow> record_view \<Rightarrow> bool" where
  "record_at buf off r \<longleftrightarrow>
     (case r of (seq, z, pl) \<Rightarrow>
        off + RECORD_HEADER_SIZE + length pl \<le> length buf \<and> length pl < 2 ^ 32 \<and>
        take RECORD_HEADER_SIZE (drop off buf) =
          encode_record \<lparr>rh_marker = kRecordMarker, rh_payload_size = word_of_nat (length pl), rh_sequence_number = seq,
                         rh_is_zero_filled = (if z then 1 else 0)\<rparr> \<and>
        take (length pl) (drop (off + RECORD_HEADER_SIZE) buf) = pl)"

abbreviation record_length :: "record_view \<Rightarrow> nat" where
  "record_length r \<equiv> RECORD_HEADER_SIZE + length (snd (snd r))"

inductive layout :: "bytes \<Rightarrow> nat \<Rightarrow> nat \<Rightarrow> record_view list \<Rightarrow> bool" for buf :: bytes and head :: nat where
  layout_empty: "layout buf head head []"
| layout_record: "t \<noteq> head \<Longrightarrow> t < length buf \<Longrightarrow> record_at buf t r \<Longrightarrow> (t < head \<Longrightarrow> t + record_length r \<le> head) \<Longrightarrow>
    layout buf head ((t + record_length r) mod length buf) rs \<Longrightarrow> layout buf head t (r # rs)"
| layout_wrap: "head < t \<Longrightarrow> t + 4 \<le> length buf \<Longrightarrow> take 4 (drop t buf) = bytes_le 4 kWrapMarker \<Longrightarrow>
    layout buf head 0 rs \<Longrightarrow> layout buf head t rs"

definition live :: "nat \<Rightarrow> nat \<Rightarrow> nat set" where
  "live t head = (if t \<le> head then {t..<head} else {t..} \<union> {..<head})"

lemma layout_frame:
  assumes "layout buf head t rs" and "same_at (live t head) buf buf'" and "head < length buf"
  shows "layout buf' head t rs"
  using assms
proof (induction rule: layout.induct)
  case layout_empty
  show ?case by (rule layout.layout_empty)
next
  case (layout_record t r rs)
  obtain seq z pl where r: "r = (seq, z, pl)" by (cases r)
  have bound: "t + RECORD_HEADER_SIZE + length pl \<le> length buf" using layout_record(3) by (simp add: record_at_def r)
  have sub: "{t..<t + record_length r} \<subseteq> live t head"
    using layout_record(1,4) by (auto simp: live_def)
  have next_sub: "live ((t + record_length r) mod length buf) head \<subseteq> live t head"
  proof (cases "t < head")
    case True
    then have "t + record_length r \<le> head" by (rule layout_record(4))
    then show ?thesis using True layout_record.prems(2) by (auto simp: live_def)
  next
    case False
    then show ?thesis using bound layout_record(1) by (cases "t + record_length r = length buf") (auto simp: live_def r)
  qed
  have "same_at (live ((t + record_length r) mod length buf) head) buf buf'"
    using layout_record.prems(1) next_sub by (auto simp: same_at_def)
  note IH = layout_record.IH [OF this layout_record.prems(2)]
  have len: "length buf' = length buf" using layout_record.prems(1) by (simp add: same_at_def)
  have "take RECORD_HEADER_SIZE (drop t buf') = take RECORD_HEADER_SIZE (drop t buf)"
    and "take (length pl) (drop (t + RECORD_HEADER_SIZE) buf') = take (length pl) (drop (t + RECORD_HEADER_SIZE) buf)"
    using sub bound by (intro same_at_slice [OF layout_record.prems(1)]; force simp: r)+
  then have "record_at buf' t r" using layout_record(3) len by (simp add: record_at_def r)
  then show ?case using layout_record(1,2,4) IH len layout.layout_record [of t head buf' r rs] by simp
next
  case (layout_wrap t rs)
  have "same_at (live 0 head) buf buf'" using layout_wrap.prems(1) layout_wrap(1) by (auto simp: same_at_def live_def)
  note IH = layout_wrap.IH [OF this layout_wrap.prems(2)]
  have len: "length buf' = length buf" using layout_wrap.prems(1) by (simp add: same_at_def)
  have "take 4 (drop t buf') = take 4 (drop t buf)"
    using layout_wrap(1,2) by (intro same_at_slice [OF layout_wrap.prems(1)]) (auto simp: live_def)
  then show ?case using layout_wrap(1-3) IH len layout.layout_wrap [of head t buf' rs] by simp
qed

text \<open>Writing a record behind the head extends the layout by it.\<close>

lemma layout_append:
  assumes "layout buf head t rs" and "head < length buf" and "record_at buf head r"
    and "(head + record_length r) mod length buf = head'" and "t < length buf"
    and "t \<le> head \<longrightarrow> (head' = 0 \<longrightarrow> t \<noteq> 0)" and "head < t \<longrightarrow> head + record_length r < t"
  shows "layout buf head' t (rs @ [r])"
  using assms
proof (induction rule: layout.induct)
  case layout_empty
  have fits: "head + record_length r \<le> length buf" using layout_empty.prems(2) by (cases r) (simp add: record_at_def)
  have "0 < record_length r" by (simp add: RECORD_HEADER_SIZE_def)
  then have ne: "head \<noteq> head'" using layout_empty.prems fits by (cases "head + record_length r = length buf") auto
  have "head < head' \<Longrightarrow> head + record_length r \<le> head'"
    using layout_empty.prems(3) fits by (cases "head + record_length r = length buf") auto
  then show ?case
    using layout.layout_record [of head head' buf r "[]"] ne layout_empty.prems layout.layout_empty [of buf head'] by simp
next
  case (layout_record t r1 rs)
  have fits: "head + record_length r \<le> length buf" using layout_record.prems(2) by (cases r) (simp add: record_at_def)
  have fits1: "t + record_length r1 \<le> length buf" using layout_record(3) by (cases r1) (simp add: record_at_def)
  have head': "head' = (if head + record_length r = length buf then 0 else head + record_length r)"
    using layout_record.prems(3) fits by auto
  let ?t = "(t + record_length r1) mod length buf"
  have t': "?t = (if t + record_length r1 = length buf then 0 else t + record_length r1)" using fits1 by auto
  have pos: "16 \<le> record_length r1" "16 \<le> record_length r" by (simp_all add: RECORD_HEADER_SIZE_def)
  have buf0: "0 < length buf" using layout_record(2) by linarith
  have step1: "?t < length buf" using buf0 by simp
  have step2: "?t \<le> head \<longrightarrow> (head' = 0 \<longrightarrow> ?t \<noteq> 0)" "head < ?t \<longrightarrow> head + record_length r < ?t"
    using layout_record(1,2,4) layout_record.prems(1,4-6) pos fits fits1 unfolding head' t'
    by (cases "t < head"; cases "t + record_length r1 = length buf"; cases "head + record_length r = length buf"; force)+
  from layout_record.IH [OF layout_record.prems(1-3) step1 step2]
  have IH: "layout buf head' ?t (rs @ [r])" .
  have "t \<noteq> head'" "t < head' \<Longrightarrow> t + record_length r1 \<le> head'"
    using layout_record(1,2,4) layout_record.prems fits unfolding head' by (auto split: if_splits)
  then show ?case using layout.layout_record [of t head' buf r1 "rs @ [r]"] IH layout_record(2,3) by simp
next
  case (layout_wrap t rs)
  have fits: "head + record_length r \<le> length buf" using layout_wrap.prems(2) by (cases r) (simp add: record_at_def)
  have lt: "head + record_length r < t" "t < length buf" using layout_wrap(1) layout_wrap.prems by auto
  then have head': "head' = head + record_length r" using layout_wrap.prems(3) by auto
  have "layout buf head' 0 (rs @ [r])"
    using layout_wrap.IH [OF layout_wrap.prems(1-3)] lt head' by (force simp: RECORD_HEADER_SIZE_def)
  then show ?case using layout.layout_wrap [of head' t buf "rs @ [r]"] layout_wrap(2,3) lt head' by simp
qed

subsection \<open>Making room\<close>

lemma read_ring_header: "t + RECORD_HEADER_SIZE \<le> length buf \<Longrightarrow> read_ring t RECORD_HEADER_SIZE buf = take RECORD_HEADER_SIZE (drop t buf)"
  by (simp add: read_ring_def RECORD_HEADER_SIZE_def)

lemma drop_record:
  assumes "record_at (sm_ring s) (sm_tail s) r" and "sm_head s \<noteq> sm_tail s"
  shows "drop_oldest_unlocked s = (s\<lparr>sm_tail := (sm_tail s + record_length r) mod length (sm_ring s)\<rparr>, True)"
proof -
  obtain seq z pl where r: "r = (seq, z, pl)" by (cases r)
  have "read_ring (sm_tail s) RECORD_HEADER_SIZE (sm_ring s) =
      encode_record \<lparr>rh_marker = kRecordMarker, rh_payload_size = word_of_nat (length pl), rh_sequence_number = seq,
                     rh_is_zero_filled = (if z then 1 else 0)\<rparr>" and len: "length pl < 2 ^ 32"
    using assms(1) by (simp_all add: record_at_def r read_ring_header)
  then have "decode_record (read_ring (sm_tail s) RECORD_HEADER_SIZE (sm_ring s)) =
      \<lparr>rh_marker = kRecordMarker, rh_payload_size = word_of_nat (length pl), rh_sequence_number = seq,
       rh_is_zero_filled = (if z then 1 else 0)\<rparr>" using decode_encode_record [where rest = "[]"] by simp
  then show ?thesis
    using assms(2) len by (simp add: drop_oldest_unlocked_def Let_def r kRecordMarker_def kWrapMarker_def unat_of_nat take_bit_nat_eq_self)
qed

lemma drop_wrap_marker:
  assumes "take 4 (drop (sm_tail s) (sm_ring s)) = bytes_le 4 kWrapMarker" and "sm_tail s + 4 \<le> length (sm_ring s)"
    and "sm_head s \<noteq> sm_tail s"
  shows "drop_oldest_unlocked s = (s\<lparr>sm_tail := 0\<rparr>, True)"
proof -
  have "take 4 (read_ring (sm_tail s) RECORD_HEADER_SIZE (sm_ring s)) = take 4 (drop (sm_tail s) (sm_ring s))"
    using assms(2) by (simp add: read_ring_def RECORD_HEADER_SIZE_def Let_def min_def)
  then have "rh_marker (decode_record (read_ring (sm_tail s) RECORD_HEADER_SIZE (sm_ring s))) = kWrapMarker"
    using assms(1) by (simp add: decode_record_def field_le_def)
  then show ?thesis using assms(3) by (simp add: drop_oldest_unlocked_def Let_def)
qed

lemma make_room_layout:
  assumes "layout buf head t rs" and "sm_ring s = buf" "sm_head s = head" "sm_tail s = t"
    and "required < length buf" and "t < length buf"
  shows "\<exists>j t'. shm_make_room required s = Some (s\<lparr>sm_tail := t'\<rparr>, True) \<and> layout buf head t' (drop j rs) \<and>
    t' < length buf \<and> required \<le> free_space head t' (length buf)"
  using assms
proof (induction arbitrary: s rule: layout.induct)
  case layout_empty
  have "required \<le> free_space head head (length buf)" using layout_empty by (simp add: free_space_def used_space_def)
  then show ?case
    using layout_empty layout.layout_empty [of buf head]
    by (intro exI [of _ 0] exI [of _ head]) (subst shm_make_room.simps, simp)
next
  case (layout_record t r rs)
  show ?case
  proof (cases "free_space head t (length buf) < required")
    case True
    let ?s = "s\<lparr>sm_tail := (t + record_length r) mod length buf\<rparr>"
    have d: "drop_oldest_unlocked s = (?s, True)" using layout_record drop_record [of s r] by simp
    have "0 < length buf" using layout_record.hyps(2) by linarith
    then have "(t + record_length r) mod length buf < length buf" by simp
    from layout_record.IH [OF _ _ _ layout_record.prems(4) this, of ?s] layout_record.prems obtain j t' where
      "shm_make_room required ?s = Some (s\<lparr>sm_tail := t'\<rparr>, True)" "layout buf head t' (drop j rs)"
      "t' < length buf" "required \<le> free_space head t' (length buf)" by auto
    then show ?thesis
      using d True layout_record.prems by (intro exI [of _ "Suc j"] exI [of _ t']) (subst shm_make_room.simps, simp)
  next
    case False
    have "layout buf head t (r # rs)" using layout.layout_record [OF layout_record.hyps(1-5)] .
    then show ?thesis
      using False layout_record.prems by (intro exI [of _ 0] exI [of _ t]) (subst shm_make_room.simps, simp)
  qed
next
  case (layout_wrap t rs)
  show ?case
  proof (cases "free_space head t (length buf) < required")
    case True
    let ?s = "s\<lparr>sm_tail := 0\<rparr>"
    have d: "drop_oldest_unlocked s = (?s, True)" using layout_wrap drop_wrap_marker [of s] by simp
    have "0 < length buf" using layout_wrap.prems(5) by linarith
    from layout_wrap.IH [OF _ _ _ layout_wrap.prems(4) this, of ?s] layout_wrap.prems obtain j t' where
      "shm_make_room required ?s = Some (s\<lparr>sm_tail := t'\<rparr>, True)" "layout buf head t' (drop j rs)"
      "t' < length buf" "required \<le> free_space head t' (length buf)" by auto
    then show ?thesis
      using d True layout_wrap.prems by (intro exI [of _ j] exI [of _ t']) (subst shm_make_room.simps, simp)
  next
    case False
    have "layout buf head t rs" using layout.layout_wrap [OF layout_wrap.hyps(1-4)] .
    then show ?thesis
      using False layout_wrap.prems by (intro exI [of _ 0] exI [of _ t]) (subst shm_make_room.simps, simp)
  qed
qed

subsection \<open>Properties\<close>

definition record_of :: "OrderedPacket \<Rightarrow> record_view" where
  "record_of p = (op_sequence_number p, op_is_zero_filled p,
     take (unat (payload_len (header (op_packet p)))) (case payload (op_packet p) of None \<Rightarrow> [] | Some pl \<Rightarrow> pl))"

definition deliverable :: "OrderedPacket \<Rightarrow> bool" where
  "deliverable p \<longleftrightarrow>
     (case payload (op_packet p) of
        None \<Rightarrow> payload_len (header (op_packet p)) = 0
      | Some pl \<Rightarrow> unat (payload_len (header (op_packet p))) \<le> length pl)"

definition record_bytes :: "OrderedPacket \<Rightarrow> bytes" where
  "record_bytes p = (case record_of p of (seq, z, pl) \<Rightarrow>
     encode_record \<lparr>rh_marker = kRecordMarker, rh_payload_size = word_of_nat (length pl), rh_sequence_number = seq,
                    rh_is_zero_filled = (if z then 1 else 0)\<rparr> @ pl)"

lemma record_length_of: "deliverable p \<Longrightarrow> record_length (record_of p) = RECORD_HEADER_SIZE + unat (payload_len (header (op_packet p)))"
  by (auto simp: record_of_def deliverable_def split: option.splits)

lemma length_record_bytes: "length (record_bytes p) = record_length (record_of p)"
  by (simp add: record_bytes_def split: prod.splits)

lemma record_at_overwrite:
  assumes "head + record_length (record_of p) \<le> length buf"
  shows "record_at (overwrite head (record_bytes p) buf) head (record_of p)"
proof -
  obtain seq z pl where r: "record_of p = (seq, z, pl)" by (cases "record_of p")
  have "unat (payload_len (header (op_packet p))) < 2 ^ 16"
    using unsigned_less [of "payload_len (header (op_packet p))"] by simp
  moreover have "length pl \<le> unat (payload_len (header (op_packet p)))" using r by (auto simp: record_of_def)
  ultimately have pl: "length pl < 2 ^ 32" by simp
  have slice: "take (length (record_bytes p)) (drop head (overwrite head (record_bytes p) buf)) = record_bytes p"
    using assms length_record_bytes by (intro slice_overwrite) simp
  have len: "length (record_bytes p) = RECORD_HEADER_SIZE + length pl" using length_record_bytes [of p] r by simp
  have bytes: "take RECORD_HEADER_SIZE (record_bytes p) =
      encode_record \<lparr>rh_marker = kRecordMarker, rh_payload_size = word_of_nat (length pl), rh_sequence_number = seq,
                     rh_is_zero_filled = (if z then 1 else 0)\<rparr>" "drop RECORD_HEADER_SIZE (record_bytes p) = pl"
    by (simp_all add: record_bytes_def r)
  have "take RECORD_HEADER_SIZE (drop head (overwrite head (record_bytes p) buf)) = take RECORD_HEADER_SIZE (record_bytes p)"
    using arg_cong [OF slice, of "take RECORD_HEADER_SIZE"] len by simp
  moreover have "take (length pl) (drop (head + RECORD_HEADER_SIZE) (overwrite head (record_bytes p) buf)) = drop RECORD_HEADER_SIZE (record_bytes p)"
    using arg_cong [OF slice, of "drop RECORD_HEADER_SIZE"] len by (simp add: drop_take add.commute)
  ultimately show ?thesis
    using assms pl r len by (simp add: record_at_def bytes length_overwrite)
qed

text \<open>The two copies of header and payload are one.\<close>

lemma put_record:
  assumes "deliverable p" and "sm_head s + record_length (record_of p) \<le> length (sm_ring s)"
    and "record_of p = (seq, z, pl)"
    and "h = encode_record \<lparr>rh_marker = kRecordMarker, rh_payload_size = word_of_nat (length pl), rh_sequence_number = seq,
                            rh_is_zero_filled = (if z then 1 else 0)\<rparr>"
  shows "(if pl = [] then shm_put h s else shm_put pl (shm_put h s)) =
    s\<lparr>sm_ring := overwrite (sm_head s) (record_bytes p) (sm_ring s),
      sm_head := (sm_head s + record_length (record_of p)) mod length (sm_ring s)\<rparr>"
proof -
  have len: "length h = RECORD_HEADER_SIZE" "record_bytes p = h @ pl" "h \<noteq> []"
    using assms(4) length_encode_record by (auto simp: record_bytes_def assms(3) RECORD_HEADER_SIZE_def encode_record_def)
  have put: "shm_put h s = s\<lparr>sm_ring := overwrite (sm_head s) h (sm_ring s), sm_head := (sm_head s + RECORD_HEADER_SIZE) mod length (sm_ring s)\<rparr>"
    using assms(2,3) len by (simp add: shm_put_def write_ring_def)
  show ?thesis
  proof (cases "pl = []")
    case True
    then show ?thesis using put len assms(3) by simp
  next
    case False
    have fits: "sm_head s + RECORD_HEADER_SIZE + length pl \<le> length (sm_ring s)" using assms(2,3) by simp
    then have head1: "sm_head (shm_put h s) = sm_head s + RECORD_HEADER_SIZE"
      using put False by (cases pl) auto
    have ring1: "sm_ring (shm_put h s) = overwrite (sm_head s) h (sm_ring s)"
      "length (overwrite (sm_head s) h (sm_ring s)) = length (sm_ring s)" using put fits len by (simp_all add: length_overwrite)
    have "overwrite (sm_head s + RECORD_HEADER_SIZE) pl (overwrite (sm_head s) h (sm_ring s)) = overwrite (sm_head s) (h @ pl) (sm_ring s)"
      using fits len by (simp add: overwrite_def ac_simps)
    then have "shm_put pl (shm_put h s) =
        (shm_put h s)\<lparr>sm_ring := overwrite (sm_head s) (h @ pl) (sm_ring s), sm_head := (sm_head s + RECORD_HEADER_SIZE + length pl) mod length (sm_ring s)\<rparr>"
      using fits False by (simp add: shm_put_def [of pl] write_ring_def head1 ring1)
    then show ?thesis using False put len assms(3) by (simp add: add.assoc)
  qed
qed

text \<open>
  A delivery into the shared-memory ring that fits before its end returns and succeeds.  A reader that follows
  the markers then finds the newest of the records that were unread before, in order and unchanged, followed by the
  delivered packet's sequence number, fill flag and payload.
\<close>

lemma shm_deliver_appends:
  assumes "sm_ready s" and "layout (sm_ring s) (sm_head s) (sm_tail s) rs" and "deliverable p"
    and "sm_head s < length (sm_ring s)" "sm_tail s < length (sm_ring s)"
    and "sm_head s + record_length (record_of p) \<le> length (sm_ring s)" and "record_length (record_of p) < length (sm_ring s)"
  shows "\<exists>s' j. shm_deliver p s = Some (s', True) \<and>
    layout (sm_ring s') (sm_head s') (sm_tail s') (drop j rs @ [record_of p]) \<and>
    sm_head s' < length (sm_ring s') \<and> sm_tail s' < length (sm_ring s') \<and> length (sm_ring s') = length (sm_ring s) \<and>
    delivered_packets (sm_stats s') = delivered_packets (sm_stats s) + 1"
proof -
  let ?buf = "sm_ring s" and ?head = "sm_head s" and ?n = "record_length (record_of p)"
  let ?size = "unat (payload_len (header (op_packet p)))"
  obtain seq z pl where r: "record_of p = (seq, z, pl)" by (cases "record_of p")
  have n: "?n = RECORD_HEADER_SIZE + ?size" by (rule record_length_of [OF assms(3)])
  from make_room_layout [OF assms(2) refl refl refl, of ?n] assms(5,7) obtain j t where
    room: "shm_make_room ?n s = Some (s\<lparr>sm_tail := t\<rparr>, True)" "layout ?buf ?head t (drop j rs)" "t < length ?buf"
      "?n \<le> free_space ?head t (length ?buf)" by blast
  let ?s = "s\<lparr>sm_tail := t\<rparr>"
  let ?buf' = "overwrite ?head (record_bytes p) ?buf" and ?head' = "(?head + ?n) mod length ?buf"
  have zero: "?head' = ?head + ?n" "0 < ?n" if "t = 0"
    using that room(4) assms(4) by (simp_all add: free_space_def used_space_def RECORD_HEADER_SIZE_def)
  have gap: "?head < t \<longrightarrow> ?head + ?n < t" using room(3,4) assms(4,6) by (auto simp: free_space_def used_space_def)
  have first: "t \<le> ?head \<longrightarrow> (?head' = 0 \<longrightarrow> t \<noteq> 0)" using zero by (metis add_is_0 less_irrefl)
  have len': "length ?buf' = length ?buf" using assms(6) by (simp add: length_overwrite length_record_bytes)
  have "same_at (live t ?head) ?buf ?buf'"
    using gap assms(6) by (auto simp: same_at_def len' live_def nth_overwrite length_record_bytes)
  from layout_frame [OF room(2) this assms(4)] have "layout ?buf' ?head t (drop j rs)" .
  from layout_append [OF this _ record_at_overwrite [OF assms(6)], of ?head'] gap first room(3) assms(4) len'
  have lay: "layout ?buf' ?head' t (drop j rs @ [record_of p])" by simp
  have wrap: "shm_wrap ?n ?s = ?s" using assms(6) n by (simp add: shm_wrap_def)
  have pl: "length pl = ?size" "pl = take ?size (case payload (op_packet p) of None \<Rightarrow> [] | Some pl \<Rightarrow> pl)"
    "seq = op_sequence_number p" "z = op_is_zero_filled p" using n r by (auto simp: record_of_def)
  define h where "h = encode_record \<lparr>rh_marker = kRecordMarker, rh_payload_size = word_of_nat (length pl), rh_sequence_number = seq,
                            rh_is_zero_filled = (if z then 1 else 0)\<rparr>"
  have h: "encode_record \<lparr>rh_marker = kRecordMarker, rh_payload_size = word_of_nat ?size, rh_sequence_number = op_sequence_number p,
      rh_is_zero_filled = (if op_is_zero_filled p then 1 else 0)\<rparr> = h" by (simp only: h_def pl(1,3,4))
  have s4: "(case payload (op_packet p) of Some x \<Rightarrow> if ?size > 0 then shm_put (take ?size x) (shm_put h ?s) else shm_put h ?s | None \<Rightarrow> shm_put h ?s) =
      (if pl = [] then shm_put h ?s else shm_put pl (shm_put h ?s))"
    using assms(3) pl(1,2) by (auto simp: deliverable_def split: option.splits)
  have put: "(if pl = [] then shm_put h ?s else shm_put pl (shm_put h ?s)) = ?s\<lparr>sm_ring := ?buf', sm_head := ?head'\<rparr>"
    using put_record [OF assms(3), of ?s seq z pl h] assms(6) r h_def by simp
  let ?out = "?s\<lparr>sm_ring := ?buf', sm_head := ?head'\<rparr>"
  have "shm_deliver p s = Some (?out\<lparr>sm_stats := count_delivered (word_of_nat ?size) (sm_stats ?out)\<rparr>, True)"
    unfolding shm_deliver_def Let_def n [symmetric] h room(1) option.case prod.case bool.case wrap s4 put by (simp add: assms(1) not_le assms(7))
  moreover have "0 < length ?buf" using assms(4) by linarith
  then have "?head' < length ?buf" by simp
  ultimately show ?thesis
    using lay room(3) len'
    by (intro exI [of _ "?out\<lparr>sm_stats := count_delivered (word_of_nat ?size) (sm_stats ?out)\<rparr>"] exI [of _ j])
       (simp add: count_delivered_def)
qed

definition sample_ring :: "nat \<Rightarrow> SharedMemoryDelivery" where
  "sample_ring n = \<lparr>sm_ready = True, sm_head = 0, sm_tail = 0, sm_ring = replicate n 0, sm_stats = zero_delivery_stats\<rparr>"

definition sample_delivery :: "u32 \<Rightarrow> nat \<Rightarrow> OrderedPacket" where
  "sample_delivery seq n = ordered_packet (zero_common\<lparr>payload_len := word_of_nat n\<rparr>) (Some (replicate n 0xAB)) n seq"

text \<open>What a reader sees, following the markers as \<^verbatim>\<open>drop_oldest_unlocked\<close> does.\<close>

fun visible_sequences :: "nat \<Rightarrow> SharedMemoryDelivery \<Rightarrow> u32 list option" where
  "visible_sequences 0 s = None"
| "visible_sequences (Suc k) s =
     (if sm_head s = sm_tail s then Some []
      else let rec = decode_record (read_ring (sm_tail s) RECORD_HEADER_SIZE (sm_ring s)); (s', ok) = drop_oldest_unlocked s in
        if \<not> ok then None
        else if rh_marker rec = kWrapMarker then visible_sequences k s'
        else map_option (Cons (rh_sequence_number rec)) (visible_sequences k s'))"

definition shm_run :: "OrderedPacket list \<Rightarrow> SharedMemoryDelivery \<Rightarrow> SharedMemoryDelivery" where
  "shm_run ps s = fold (\<lambda>p s. case shm_deliver p s of None \<Rightarrow> s | Some (s', ok) \<Rightarrow> s') ps s"

text \<open>
  At the end of the ring a delivery can destroy unread records.  The free space is checked before the jump to
  offset 0 but not after it: in a ring of 100 bytes with one unread record of sequence number 2 at offsets 20 to 89, a
  delivery of 25 bytes passes the check (29 bytes are free), jumps to offset 0 and overwrites the marker of the unread
  record, after which a reader finds no valid record at all.
\<close>

lemma shm_wrap_overwrites_unread:
  "let s = (shm_run [sample_delivery 1 4, sample_delivery 2 54] (sample_ring 100))\<lparr>sm_tail := 20\<rparr>;
       s' = shm_run [sample_delivery 3 9] s
   in visible_sequences 9 s = Some [2] \<and> delivered_packets (sm_stats s') = delivered_packets (sm_stats s) + 1 \<and>
      visible_sequences 9 s' = None"
  by code_simp

end
