(* ===== verification/Delivery_Socket.thy ===== *)
theory Delivery_Socket
  imports Delivery
begin

text \<open>
  The Unix-domain socket back end: the exponential back-off of its reconnection and the framing of what it sends.
\<close>

subsection \<open>Back-off\<close>

lemma schedule_step:
  assumes "unat (us_current_backoff_ms d) = b" and "b \<le> 5000"
  shows "unat (us_current_backoff_ms (schedule_reconnect now d)) = min (2 * b) 5000"
proof -
  have "unat (us_current_backoff_ms d * 2) = 2 * b" using assms by (simp add: unat_word_ariths)
  then show ?thesis by (simp add: schedule_reconnect_def min_def word_le_nat_alt)
qed

lemma connect_failure:
  assumes "connect_with_backoff cc d = (d', False)" and "us_socket_path d \<noteq> []"
    and "case us_next_reconnect d of None \<Rightarrow> True | Some t \<Rightarrow> t \<le> cc_now cc"
  shows "us_current_backoff_ms d' = us_current_backoff_ms (schedule_reconnect (cc_later cc) d)"
    and "us_next_reconnect d' = us_next_reconnect (schedule_reconnect (cc_later cc) d)"
    and "us_socket_path d' = us_socket_path d" and "us_reconnect_interval_ms d' = us_reconnect_interval_ms d"
  using assms by (auto simp: connect_with_backoff_def schedule_reconnect_def split: option.splits if_splits)

text \<open>A run of connection attempts, each made when the previous back-off has elapsed and each failing.\<close>

inductive failing_attempts :: "UnixSocketDelivery \<Rightarrow> nat \<Rightarrow> UnixSocketDelivery \<Rightarrow> bool" where
  no_attempt: "failing_attempts d 0 d"
| attempt: "failing_attempts d n d1 \<Longrightarrow> (case us_next_reconnect d1 of None \<Rightarrow> True | Some t \<Rightarrow> t \<le> cc_now cc) \<Longrightarrow>
    connect_with_backoff cc d1 = (d2, False) \<Longrightarrow> failing_attempts d (Suc n) d2"

lemma failing_attempts_backoff:
  assumes "failing_attempts d n d'" and "us_socket_path d \<noteq> []" and "unat (us_current_backoff_ms d) = b" and "b \<le> 5000"
  shows "us_socket_path d' = us_socket_path d \<and> unat (us_current_backoff_ms d') = min (b * 2 ^ n) 5000"
  using assms
proof (induction rule: failing_attempts.induct)
  case (attempt d n d1 cc d2)
  then have path: "us_socket_path d1 \<noteq> []" and IH: "us_socket_path d1 = us_socket_path d" "unat (us_current_backoff_ms d1) = min (b * 2 ^ n) 5000"
    by simp_all
  note fail = connect_failure [OF attempt(3) path attempt(2)]
  have "unat (us_current_backoff_ms d2) = min (2 * min (b * 2 ^ n) 5000) 5000"
    unfolding fail(1) by (rule schedule_step [OF IH(2)]) simp
  then show ?case using fail(3) IH(1) by (simp add: min_def)
qed simp

text \<open>
  The reconnection delay doubles from the configured interval and is capped at five seconds.  After \<open>n\<close> failed
  attempts from an interval of 1 to 5000 milliseconds the delay is \<open>interval \<cdot> 2^n\<close> or 5000 milliseconds,
  whichever is less; and the attempt after that is not made before its delay has passed, since until then every call
  returns at once and changes nothing.
\<close>

lemma reconnect_backoff:
  assumes "failing_attempts d n d'" and "us_socket_path d \<noteq> []"
    and "us_current_backoff_ms d = interval" and "1 \<le> unat interval" "unat interval \<le> 5000"
    and "connect_with_backoff cc d' = (d'', False)" and "case us_next_reconnect d' of None \<Rightarrow> True | Some t \<Rightarrow> t \<le> cc_now cc"
  shows "unat (us_current_backoff_ms d') = min (unat interval * 2 ^ n) 5000 \<and>
    us_next_reconnect d'' = Some (cc_later cc + int (min (unat interval * 2 ^ n) 5000) * 1000000) \<and>
    (\<forall>cc'. cc_now cc' < cc_later cc + int (min (unat interval * 2 ^ n) 5000) * 1000000 \<longrightarrow>
       connect_with_backoff cc' d'' = (d'', False))"
proof -
  have b: "us_socket_path d' = us_socket_path d" "unat (us_current_backoff_ms d') = min (unat interval * 2 ^ n) 5000"
    using failing_attempts_backoff [OF assms(1,2)] assms(3,5) by auto
  have path: "us_socket_path d' \<noteq> []" using b(1) assms(2) by simp
  note fail = connect_failure [OF assms(6) path assms(7)]
  have t: "us_next_reconnect d'' = Some (cc_later cc + int (min (unat interval * 2 ^ n) 5000) * 1000000)"
    unfolding fail(2) schedule_reconnect_def b(2) [symmetric] by simp
  then have "connect_with_backoff cc' d'' = (d'', False)"
    if "cc_now cc' < cc_later cc + int (min (unat interval * 2 ^ n) 5000) * 1000000" for cc'
    using that path fail(3) by (simp add: connect_with_backoff_def)
  then show ?thesis using b(2) t by blast
qed

definition refused :: "int \<Rightarrow> connect_calls" where
  "refused now = \<lparr>cc_now = now, cc_later = now, cc_socket = 3, cc_connect = -1\<rparr>"

definition sample_socket :: UnixSocketDelivery where
  "sample_socket = \<lparr>us_socket_path = ''/tmp/s'', us_reconnect_interval_ms = 100, us_current_backoff_ms = 100,
     us_stats = zero_delivery_stats, us_sock_fd = -1, us_next_reconnect = None\<rparr>"

subsection \<open>Framing\<close>

text \<open>What the peer reads: the length word counts the bytes behind the eight-byte header.\<close>

lemma wire_frame_length_word:
  assumes "payload (op_packet p) = Some pl" and "unat (payload_len (header (op_packet p))) \<le> length pl"
  shows "unat (field_le 0 4 (wire_frame p) :: u32) + 8 = length (wire_frame p)"
proof -
  let ?n = "payload_len (header (op_packet p))"
  have "unat ?n < 2 ^ 16" using unsigned_less [of ?n] by simp
  then have "unat (ucast ?n :: u32) = unat ?n" by (simp add: unsigned_ucast_eq take_bit_nat_eq_self)
  then show ?thesis using assms by (simp add: wire_frame_def field_le_def Let_def)
qed

end
