(* ===== verification/Dispatcher.thy ===== *)
theory Dispatcher
  imports Packet_Validation
begin

text \<open>
  \<^verbatim>\<open>Dispatcher\<close> (\<^verbatim>\<open>include/qdgz300/m01_receiver/pipeline/dispatcher.h\<close>,
  \<^verbatim>\<open>src/m01_receiver/pipeline/dispatcher.cpp\<close>): routing by packet type, the heartbeat checks and
  statistics, and the two-priority queues.

  Correspondence.  The three installed handlers are flags of the state; the calls an operation makes
  to them are its second result, in order.  The reading of the system clock is an argument.  Updates
  of the metrics collector are not part of the state.
\<close>

subsection \<open>State\<close>

record DispatcherStatistics =
  data_packets :: u64
  heartbeat_packets :: u64
  dropped_packets :: u64

record HeartbeatStatistics =
  received_total :: u64
  loss_total :: u64
  last_seen_ms :: u64
  queue_priority_hits :: u64
  starved_total :: u64

record QueuedPacket =
  qp_type :: PacketType
  qp_header :: CommonHeader
  qp_payload :: bytes
  qp_total_size :: nat

record Dispatcher_state =
  dp_data_handler :: bool
  dp_zero_copy_data_handler :: bool
  dp_heartbeat_handler :: bool
  dp_stats :: DispatcherStatistics
  dp_heartbeat_stats :: HeartbeatStatistics
  dp_high_priority_queue :: "QueuedPacket list"
  dp_normal_queue :: "QueuedPacket list"
  dp_heartbeat_max_queue_depth :: nat
  dp_has_last_heartbeat_seq :: bool
  dp_last_heartbeat_seq :: u32

datatype handler_call =
    DataCall ParsedPacket
  | ZeroCopyCall ParsedPacket nat
  | HeartbeatCall ParsedPacket

definition dispatcher_new :: "bool \<Rightarrow> bool \<Rightarrow> Dispatcher_state" where
  "dispatcher_new data heartbeat =
     \<lparr>dp_data_handler = data, dp_zero_copy_data_handler = False, dp_heartbeat_handler = heartbeat,
      dp_stats = \<lparr>data_packets = 0, heartbeat_packets = 0, dropped_packets = 0\<rparr>,
      dp_heartbeat_stats = \<lparr>received_total = 0, loss_total = 0, last_seen_ms = 0, queue_priority_hits = 0, starved_total = 0\<rparr>,
      dp_high_priority_queue = [], dp_normal_queue = [], dp_heartbeat_max_queue_depth = 1000,
      dp_has_last_heartbeat_seq = False, dp_last_heartbeat_seq = 0\<rparr>"

definition set_heartbeat_max_queue_depth :: "nat \<Rightarrow> Dispatcher_state \<Rightarrow> Dispatcher_state" where
  "set_heartbeat_max_queue_depth depth d = d\<lparr>dp_heartbeat_max_queue_depth := (if depth = 0 then 1 else depth)\<rparr>"

definition set_zero_copy_data_handler :: "bool \<Rightarrow> Dispatcher_state \<Rightarrow> Dispatcher_state" where
  "set_zero_copy_data_handler present d = d\<lparr>dp_zero_copy_data_handler := present\<rparr>"

subsection \<open>Heartbeats\<close>

definition count_dropped :: "Dispatcher_state \<Rightarrow> Dispatcher_state" where
  "count_dropped d = d\<lparr>dp_stats := (dp_stats d)\<lparr>dropped_packets := dropped_packets (dp_stats d) + 1\<rparr>\<rparr>"

definition count_loss :: "u64 \<Rightarrow> Dispatcher_state \<Rightarrow> Dispatcher_state" where
  "count_loss n d = d\<lparr>dp_heartbeat_stats := (dp_heartbeat_stats d)\<lparr>loss_total := loss_total (dp_heartbeat_stats d) + n\<rparr>\<rparr>"

definition refuse_heartbeat :: "Dispatcher_state \<Rightarrow> Dispatcher_state" where
  "refuse_heartbeat d = count_dropped (count_loss 1 d)"

text \<open>The CRC word of the payload; zero means that the sender computed none.\<close>

definition heartbeat_crc_ok :: "bytes \<Rightarrow> bool" where
  "heartbeat_crc_ok pl =
     (let wire_crc = (field_le 44 4 pl :: u32) in
      if wire_crc \<noteq> 0 then wire_crc = crc32c (Some pl) 44 else True)"

definition accept_heartbeat :: "u64 \<Rightarrow> CommonHeader \<Rightarrow> Dispatcher_state \<Rightarrow> Dispatcher_state" where
  "accept_heartbeat now_ms h d =
     (let d1 = (if dp_has_last_heartbeat_seq d
                then let delta = sequence_number h - dp_last_heartbeat_seq d in
                  if delta > 1 \<and> delta < push_bit 31 1 then count_loss (ucast (delta - 1)) d else d
                else d);
          hs = dp_heartbeat_stats d1; st = dp_stats d1
      in d1\<lparr>dp_has_last_heartbeat_seq := True, dp_last_heartbeat_seq := sequence_number h,
            dp_heartbeat_stats := hs\<lparr>received_total := received_total hs + 1, last_seen_ms := now_ms\<rparr>,
            dp_stats := st\<lparr>heartbeat_packets := heartbeat_packets st + 1\<rparr>\<rparr>)"

definition dispatch_heartbeat_direct :: "u64 \<Rightarrow> ParsedPacket \<Rightarrow> Dispatcher_state \<Rightarrow> Dispatcher_state \<times> handler_call list" where
  "dispatch_heartbeat_direct now_ms p d =
     (case payload p of
        None \<Rightarrow> (refuse_heartbeat d, [])
      | Some pl \<Rightarrow>
          if unat (payload_len (header p)) < HEARTBEAT_PAYLOAD_SIZE then (refuse_heartbeat d, [])
          else if \<not> heartbeat_crc_ok pl then (refuse_heartbeat d, [])
          else (accept_heartbeat now_ms (header p) d, if dp_heartbeat_handler d then [HeartbeatCall p] else []))"

definition dispatch_heartbeat_packet :: "u64 \<Rightarrow> QueuedPacket \<Rightarrow> Dispatcher_state \<Rightarrow> Dispatcher_state \<times> handler_call list" where
  "dispatch_heartbeat_packet now_ms qp d =
     (if length (qp_payload qp) < HEARTBEAT_PAYLOAD_SIZE then (refuse_heartbeat d, [])
      else if \<not> heartbeat_crc_ok (qp_payload qp) then (refuse_heartbeat d, [])
      else (accept_heartbeat now_ms (qp_header qp) d,
            if dp_heartbeat_handler d
            then [HeartbeatCall \<lparr>header = qp_header qp, payload = Some (qp_payload qp), total_size = qp_total_size qp\<rparr>]
            else []))"

subsection \<open>Dispatch\<close>

definition handle_non_data_packet :: "PacketType \<Rightarrow> Dispatcher_state \<Rightarrow> Dispatcher_state" where
  "handle_non_data_packet t d = count_dropped d"

definition count_data :: "Dispatcher_state \<Rightarrow> Dispatcher_state" where
  "count_data d = d\<lparr>dp_stats := (dp_stats d)\<lparr>data_packets := data_packets (dp_stats d) + 1\<rparr>\<rparr>"

definition dispatch :: "u64 \<Rightarrow> ParsedPacket \<Rightarrow> Dispatcher_state \<Rightarrow> Dispatcher_state \<times> handler_call list" where
  "dispatch now_ms p d =
     (let t = get_packet_type (header p) in
      if t = DATA then (count_data d, if dp_data_handler d then [DataCall p] else [])
      else if t = HEARTBEAT then dispatch_heartbeat_direct now_ms p d
      else (handle_non_data_packet t d, []))"

text \<open>The overload that takes over the packet buffer, given by its handle.\<close>

definition dispatch_buffer :: "u64 \<Rightarrow> ParsedPacket \<Rightarrow> nat \<Rightarrow> Dispatcher_state \<Rightarrow> Dispatcher_state \<times> handler_call list" where
  "dispatch_buffer now_ms p buffer d =
     (let t = get_packet_type (header p) in
      if t = DATA
      then (count_data d,
            if dp_zero_copy_data_handler d then [ZeroCopyCall p buffer]
            else if dp_data_handler d then [DataCall p] else [])
      else if t = HEARTBEAT then dispatch_heartbeat_direct now_ms p d
      else (handle_non_data_packet t d, []))"

definition dispatch_with_priority :: "u64 \<Rightarrow> ParsedPacket \<Rightarrow> Dispatcher_state \<Rightarrow> Dispatcher_state \<times> handler_call list" where
  "dispatch_with_priority now_ms p d = dispatch now_ms p d"

fun dispatch_batch :: "u64 \<Rightarrow> ParsedPacket list \<Rightarrow> Dispatcher_state \<Rightarrow> Dispatcher_state \<times> handler_call list" where
  "dispatch_batch now_ms [] d = (d, [])"
| "dispatch_batch now_ms (p # ps) d =
     (let (d1, calls) = dispatch now_ms p d; (d2, calls') = dispatch_batch now_ms ps d1 in (d2, calls @ calls'))"

subsection \<open>The priority queues\<close>

text \<open>
  The loop that makes room for a heartbeat.  The configured depth is at least one, so it stops at the
  latest on the empty queue.
\<close>

fun make_room :: "nat \<Rightarrow> QueuedPacket list \<Rightarrow> QueuedPacket list \<times> nat" where
  "make_room depth [] = ([], 0)"
| "make_room depth (x # xs) =
     (if length (x # xs) \<ge> depth then let (ys, n) = make_room depth xs in (ys, Suc n) else (x # xs, 0))"

definition queue_packet :: "ParsedPacket \<Rightarrow> QueuedPacket" where
  "queue_packet p =
     (let n = unat (payload_len (header p)) in
      \<lparr>qp_type = get_packet_type (header p), qp_header = header p,
       qp_payload = (case payload p of Some bs \<Rightarrow> take n bs | None \<Rightarrow> replicate n 0), qp_total_size = total_size p\<rparr>)"

definition enqueue_packet :: "ParsedPacket \<Rightarrow> Dispatcher_state \<Rightarrow> Dispatcher_state" where
  "enqueue_packet p d =
     (let t = get_packet_type (header p) in
      if t \<noteq> DATA \<and> t \<noteq> HEARTBEAT then handle_non_data_packet t d
      else if t = HEARTBEAT
      then let (q, n) = make_room (dp_heartbeat_max_queue_depth d) (dp_high_priority_queue d);
               hs = dp_heartbeat_stats d; st = dp_stats d
           in d\<lparr>dp_high_priority_queue := q @ [queue_packet p],
                dp_heartbeat_stats := hs\<lparr>starved_total := starved_total hs + word_of_nat n\<rparr>,
                dp_stats := st\<lparr>dropped_packets := dropped_packets st + word_of_nat n\<rparr>\<rparr>
      else d\<lparr>dp_normal_queue := dp_normal_queue d @ [queue_packet p]\<rparr>)"

definition dispatch_queued_packet :: "u64 \<Rightarrow> QueuedPacket \<Rightarrow> Dispatcher_state \<Rightarrow> Dispatcher_state \<times> handler_call list" where
  "dispatch_queued_packet now_ms qp d =
     (if qp_type qp = DATA
      then (count_data d,
            if dp_data_handler d
            then [DataCall \<lparr>header = qp_header qp, payload = (if qp_payload qp = [] then None else Some (qp_payload qp)),
                            total_size = qp_total_size qp\<rparr>]
            else [])
      else if qp_type qp = HEARTBEAT then dispatch_heartbeat_packet now_ms qp d
      else (handle_non_data_packet (qp_type qp) d, []))"

lemmas dispatch_frame_defs = count_dropped_def count_loss_def count_data_def refuse_heartbeat_def
  accept_heartbeat_def handle_non_data_packet_def Let_def

lemma dispatch_queued_queues [simp]:
  "dp_high_priority_queue (fst (dispatch_queued_packet t qp d)) = dp_high_priority_queue d"
  "dp_normal_queue (fst (dispatch_queued_packet t qp d)) = dp_normal_queue d"
  by (simp_all add: dispatch_queued_packet_def dispatch_heartbeat_packet_def dispatch_frame_defs)

definition count_priority_hit :: "Dispatcher_state \<Rightarrow> Dispatcher_state" where
  "count_priority_hit d =
     d\<lparr>dp_heartbeat_stats := (dp_heartbeat_stats d)\<lparr>queue_priority_hits := queue_priority_hits (dp_heartbeat_stats d) + 1\<rparr>\<rparr>"

function drain_queues :: "(nat \<Rightarrow> u64) \<Rightarrow> Dispatcher_state \<Rightarrow> Dispatcher_state \<times> handler_call list" where
  "drain_queues clk d =
     (case dp_high_priority_queue d of
        qp # rest \<Rightarrow>
          (let d0 = (if dp_normal_queue d \<noteq> [] then count_priority_hit d else d);
               step = dispatch_queued_packet (clk 0) qp (d0\<lparr>dp_high_priority_queue := rest\<rparr>);
               more = drain_queues (\<lambda>n. clk (Suc n)) (fst step)
           in (fst more, snd step @ snd more))
      | [] \<Rightarrow>
          (case dp_normal_queue d of
             qp # rest \<Rightarrow>
               (let step = dispatch_queued_packet (clk 0) qp (d\<lparr>dp_normal_queue := rest\<rparr>);
                    more = drain_queues (\<lambda>n. clk (Suc n)) (fst step)
                in (fst more, snd step @ snd more))
           | [] \<Rightarrow> (d, [])))"
  by pat_completeness auto
termination
  by (relation "measure (\<lambda>(clk, d). length (dp_high_priority_queue d) + length (dp_normal_queue d))")
     (auto simp: count_priority_hit_def)

declare drain_queues.simps [simp del]

subsection \<open>Heartbeat accounting\<close>

text \<open>A heartbeat packet whose payload passes the checks of the dispatcher.\<close>

definition good_heartbeat :: "ParsedPacket \<Rightarrow> bool" where
  "good_heartbeat p \<longleftrightarrow> get_packet_type (header p) = HEARTBEAT \<and>
     (case payload p of None \<Rightarrow> False
      | Some pl \<Rightarrow> HEARTBEAT_PAYLOAD_SIZE \<le> unat (payload_len (header p)) \<and> heartbeat_crc_ok pl)"

lemma dispatch_good_heartbeat:
  "good_heartbeat p \<Longrightarrow> dispatch t p d =
     (accept_heartbeat t (header p) d, if dp_heartbeat_handler d then [HeartbeatCall p] else [])"
  by (auto simp: good_heartbeat_def dispatch_def dispatch_heartbeat_direct_def Let_def split: option.splits)

lemma verified_heartbeat_crc_ok: "verify_heartbeat_crc (Some pl) n \<Longrightarrow> heartbeat_crc_ok pl \<and> HEARTBEAT_PAYLOAD_SIZE \<le> n"
  by (auto simp: verify_heartbeat_crc_def heartbeat_crc_ok_def Let_def split: if_splits)

lemma accept_heartbeat_gap:
  assumes "dp_has_last_heartbeat_seq d" and "dp_last_heartbeat_seq d = word_of_nat a"
    and "sequence_number h = word_of_nat b" and "a < b" and "b - a < 2 ^ 31"
  shows "loss_total (dp_heartbeat_stats (accept_heartbeat t h d)) = loss_total (dp_heartbeat_stats d) + word_of_nat (b - a - 1)"
proof -
  have delta: "sequence_number h - dp_last_heartbeat_seq d = word_of_nat (b - a)"
    using assms by (simp add: of_nat_diff)
  have u: "unat (word_of_nat (b - a) :: u32) = b - a" using assms(5) by (simp add: unat_of_nat take_bit_nat_eq_self)
  have one: "(word_of_nat (b - a) :: u32) > 1 \<longleftrightarrow> 1 < b - a" by (simp add: word_less_nat_alt u)
  have lt: "(word_of_nat (b - a) :: u32) < push_bit 31 1" using assms(5) by (simp add: word_less_nat_alt u)
  show ?thesis
  proof (cases "1 < b - a")
    case True
    then have "unat (word_of_nat (b - a) - 1 :: u32) = b - a - 1" using u by (subst unat_minus_one) auto
    then have "(ucast (word_of_nat (b - a) - 1 :: u32) :: u64) = word_of_nat (b - a - 1)"
      using word_of_nat_unat_ucast [of "word_of_nat (b - a) - 1 :: u32", where 'b = 64] by simp
    then show ?thesis using True assms(1) delta one lt by (simp add: accept_heartbeat_def count_loss_def Let_def)
  next
    case False
    then have "b - a = 1" using assms(4) by simp
    then show ?thesis using assms(1) delta by (simp add: accept_heartbeat_def count_loss_def Let_def)
  qed
qed

lemma accept_heartbeat_fields [simp]:
  "dp_has_last_heartbeat_seq (accept_heartbeat t h d)"
  "dp_last_heartbeat_seq (accept_heartbeat t h d) = sequence_number h"
  "received_total (dp_heartbeat_stats (accept_heartbeat t h d)) = received_total (dp_heartbeat_stats d) + 1"
  "dropped_packets (dp_stats (accept_heartbeat t h d)) = dropped_packets (dp_stats d)"
  "heartbeat_packets (dp_stats (accept_heartbeat t h d)) = heartbeat_packets (dp_stats d) + 1"
  "data_packets (dp_stats (accept_heartbeat t h d)) = data_packets (dp_stats d)"
  "dp_heartbeat_handler (accept_heartbeat t h d) = dp_heartbeat_handler d"
  "dp_data_handler (accept_heartbeat t h d) = dp_data_handler d"
  by (simp_all add: dispatch_frame_defs)

lemma accept_heartbeat_first:
  "\<not> dp_has_last_heartbeat_seq d \<Longrightarrow> loss_total (dp_heartbeat_stats (accept_heartbeat t h d)) = loss_total (dp_heartbeat_stats d)"
  by (simp add: dispatch_frame_defs)

text \<open>Consecutive elements of a list of stream positions grow by less than half the sequence space.\<close>

fun forward_gaps :: "nat list \<Rightarrow> bool" where
  "forward_gaps (a # b # xs) = (a < b \<and> b - a < 2 ^ 31 \<and> forward_gaps (b # xs))"
| "forward_gaps _ = True"

lemma forward_gaps_last: "forward_gaps (a # xs) \<Longrightarrow> a + length xs \<le> last (a # xs)"
proof (induction xs arbitrary: a)
  case (Cons b xs)
  then have "a < b" "b + length xs \<le> last (b # xs)" by auto
  then show ?case by simp
qed simp

lemma fst_dispatch_batch_Cons [simp]: "fst (dispatch_batch t (p # ps) d) = fst (dispatch_batch t ps (fst (dispatch t p d)))"
  by (simp add: split_def Let_def)

declare dispatch_batch.simps(2) [simp del]

lemma heartbeat_run:
  assumes "list_all good_heartbeat ps" and "map (\<lambda>p. sequence_number (header p)) ps = map word_of_nat ns"
    and "dp_has_last_heartbeat_seq d" and "dp_last_heartbeat_seq d = word_of_nat a" and "forward_gaps (a # ns)"
  shows "loss_total (dp_heartbeat_stats (fst (dispatch_batch t ps d))) =
           loss_total (dp_heartbeat_stats d) + word_of_nat (last (a # ns) - a - length ps) \<and>
         received_total (dp_heartbeat_stats (fst (dispatch_batch t ps d))) = received_total (dp_heartbeat_stats d) + word_of_nat (length ps) \<and>
         dropped_packets (dp_stats (fst (dispatch_batch t ps d))) = dropped_packets (dp_stats d)"
  using assms
proof (induction ps arbitrary: ns a d)
  case (Cons p ps)
  obtain n ns' where ns: "ns = n # ns'" "sequence_number (header p) = word_of_nat n"
    "map (\<lambda>p. sequence_number (header p)) ps = map word_of_nat ns'" using Cons.prems(2) by (cases ns) auto
  let ?d = "accept_heartbeat t (header p) d"
  have gap: "a < n" "n - a < 2 ^ 31" "forward_gaps (n # ns')" using Cons.prems(5) ns(1) by auto
  have dp: "dispatch t p d = (?d, if dp_heartbeat_handler d then [HeartbeatCall p] else [])"
    using Cons.prems(1) by (simp add: dispatch_good_heartbeat)
  have IH: "loss_total (dp_heartbeat_stats (fst (dispatch_batch t ps ?d))) =
           loss_total (dp_heartbeat_stats ?d) + word_of_nat (last (n # ns') - n - length ps) \<and>
         received_total (dp_heartbeat_stats (fst (dispatch_batch t ps ?d))) = received_total (dp_heartbeat_stats ?d) + word_of_nat (length ps) \<and>
         dropped_packets (dp_stats (fst (dispatch_batch t ps ?d))) = dropped_packets (dp_stats ?d)"
    using Cons.prems(1) ns gap by (intro Cons.IH) auto
  have "length ns' = length ps" using ns(3) by (metis length_map)
  then have "n + length ps \<le> last (n # ns')" using forward_gaps_last [OF gap(3)] by simp
  then have "(n - a - 1) + (last (n # ns') - n - length ps) = last (a # ns) - a - length (p # ps)"
    using gap(1) ns(1) by simp
  then have "(word_of_nat (n - a - 1) :: u64) + word_of_nat (last (n # ns') - n - length ps) = word_of_nat (last (a # ns) - a - length (p # ps))"
    by (metis of_nat_add)
  then show ?case
    using IH accept_heartbeat_gap [OF Cons.prems(3,4) ns(2) gap(1,2), of t]
    by (simp add: dp add.assoc add.commute [of 1] del: last.simps)
qed simp

text \<open>
  The heartbeat loss counter is exact.  When heartbeats at stream positions \<open>n\<^sub>0 < n\<^sub>1 < \<dots>\<close> are dispatched, each at
  most half the sequence space after the one before and with the 32-bit sequence numbers wrapping as often as
  they like, the counter grows by the number of positions between the first and the last that did not arrive,
  all are counted as received, and none is counted as dropped.
\<close>

lemma heartbeat_loss_exact:
  assumes "list_all good_heartbeat (p # ps)" and "map (\<lambda>p. sequence_number (header p)) (p # ps) = map word_of_nat (n # ns)"
    and "forward_gaps (n # ns)" and "\<not> dp_has_last_heartbeat_seq d"
  shows "let d' = fst (dispatch_batch t (p # ps) d) in
    loss_total (dp_heartbeat_stats d') = loss_total (dp_heartbeat_stats d) + word_of_nat (last (n # ns) + 1 - n - length (p # ps)) \<and>
    received_total (dp_heartbeat_stats d') = received_total (dp_heartbeat_stats d) + word_of_nat (length (p # ps)) \<and>
    dropped_packets (dp_stats d') = dropped_packets (dp_stats d)"
proof -
  let ?d = "accept_heartbeat t (header p) d"
  have dp: "dispatch t p d = (?d, if dp_heartbeat_handler d then [HeartbeatCall p] else [])"
    using assms(1) by (simp add: dispatch_good_heartbeat)
  have "loss_total (dp_heartbeat_stats (fst (dispatch_batch t ps ?d))) =
           loss_total (dp_heartbeat_stats ?d) + word_of_nat (last (n # ns) - n - length ps) \<and>
         received_total (dp_heartbeat_stats (fst (dispatch_batch t ps ?d))) = received_total (dp_heartbeat_stats ?d) + word_of_nat (length ps) \<and>
         dropped_packets (dp_stats (fst (dispatch_batch t ps ?d))) = dropped_packets (dp_stats ?d)"
    using assms by (intro heartbeat_run) auto
  moreover have "last (n # ns) + 1 - n - length (p # ps) = last (n # ns) - n - length ps"
    using forward_gaps_last [OF assms(3)] by simp
  ultimately show ?thesis using assms(4) by (simp add: dp accept_heartbeat_first Let_def add.commute [of 1] del: last.simps)
qed

definition sample_heartbeat_packet :: "u32 \<Rightarrow> ParsedPacket" where
  "sample_heartbeat_packet seq = \<lparr>header = (sample_header 4 48)\<lparr>sequence_number := seq\<rparr>, payload = Some sample_heartbeat, total_size = 80\<rparr>"

lemma good_sample_heartbeat: "good_heartbeat (sample_heartbeat_packet seq)"
  using verified_heartbeat_crc_ok [OF verify_sample_heartbeat]
  by (simp add: good_heartbeat_def sample_heartbeat_packet_def sample_header_def zero_common_def get_packet_type_def packet_type_of_def const_defs)

subsection \<open>Draining in priority order\<close>

text \<open>The calls made for a queued packet depend on the installed handlers only.\<close>

definition same_handlers :: "Dispatcher_state \<Rightarrow> Dispatcher_state \<Rightarrow> bool" where
  "same_handlers d d' \<longleftrightarrow> dp_data_handler d' = dp_data_handler d \<and> dp_heartbeat_handler d' = dp_heartbeat_handler d"

lemma queued_calls_same:
  "same_handlers d d' \<Longrightarrow> snd (dispatch_queued_packet t qp d) = snd (dispatch_queued_packet t' qp d')"
  by (simp add: same_handlers_def dispatch_queued_packet_def dispatch_heartbeat_packet_def)

lemma queued_same_handlers: "same_handlers d (fst (dispatch_queued_packet t qp d))"
  by (simp add: same_handlers_def dispatch_queued_packet_def dispatch_heartbeat_packet_def dispatch_frame_defs)

lemma same_handlers_trans: "same_handlers a b \<Longrightarrow> same_handlers b c \<Longrightarrow> same_handlers a c"
  by (simp add: same_handlers_def)

lemma same_handlers_queues [simp]:
  "same_handlers a (b\<lparr>dp_high_priority_queue := q\<rparr>) = same_handlers a b"
  "same_handlers a (b\<lparr>dp_normal_queue := q\<rparr>) = same_handlers a b"
  "same_handlers a (count_priority_hit b) = same_handlers a b" "same_handlers a a"
  by (simp_all add: same_handlers_def count_priority_hit_def)

lemma count_priority_hit_queues [simp]:
  "dp_normal_queue (count_priority_hit d) = dp_normal_queue d" "dp_high_priority_queue (count_priority_hit d) = dp_high_priority_queue d"
  by (simp_all add: count_priority_hit_def)

lemma drain_facts:
  "same_handlers d0 d \<Longrightarrow>
     dp_high_priority_queue (fst (drain_queues clk d)) = [] \<and> dp_normal_queue (fst (drain_queues clk d)) = [] \<and>
     snd (drain_queues clk d) = concat (map (\<lambda>qp. snd (dispatch_queued_packet 0 qp d0)) (dp_high_priority_queue d @ dp_normal_queue d))"
proof (induction clk d rule: drain_queues.induct)
  case (1 clk d)
  show ?case
  proof (cases "dp_high_priority_queue d")
    case (Cons qp rest)
    let ?d0 = "if dp_normal_queue d \<noteq> [] then count_priority_hit d else d"
    let ?step = "dispatch_queued_packet (clk 0) qp (?d0\<lparr>dp_high_priority_queue := rest\<rparr>)"
    have s: "same_handlers d0 (?d0\<lparr>dp_high_priority_queue := rest\<rparr>)" using 1(3) by simp
    from 1(2) [OF Cons refl refl same_handlers_trans [OF s queued_same_handlers]] Cons
    show ?thesis
      by (subst (1 2 3) drain_queues.simps) (simp add: Let_def queued_calls_same [OF s, where t = 0, symmetric])
  next
    case Nil
    show ?thesis
    proof (cases "dp_normal_queue d")
      case inner: (Cons qp rest)
      have s: "same_handlers d0 (d\<lparr>dp_normal_queue := rest\<rparr>)" using 1(3) by simp
      from 1(1) [OF Nil inner refl same_handlers_trans [OF s queued_same_handlers]] Nil inner
      show ?thesis
        by (subst (1 2 3) drain_queues.simps) (simp add: Let_def queued_calls_same [OF s, where t = 0, symmetric])
    next
      case inner: Nil
      show ?thesis using Nil inner by (subst (1 2 3) drain_queues.simps) simp
    qed
  qed
qed

text \<open>A packet as the parser makes it, with a payload.\<close>

definition has_payload :: "ParsedPacket \<Rightarrow> bool" where
  "has_payload p \<longleftrightarrow> (case payload p of None \<Rightarrow> False | Some bs \<Rightarrow> bs \<noteq> [] \<and> length bs = unat (payload_len (header p)))"

lemma queued_is_direct: "has_payload p \<Longrightarrow> dispatch_queued_packet t (queue_packet p) d = dispatch t p d"
  by (cases p)
     (auto simp: has_payload_def queue_packet_def dispatch_queued_packet_def dispatch_def dispatch_heartbeat_packet_def
       dispatch_heartbeat_direct_def Let_def split: option.splits)

abbreviation of_type :: "PacketType \<Rightarrow> ParsedPacket \<Rightarrow> bool" where
  "of_type t p \<equiv> get_packet_type (header p) = t"

lemma make_room_free: "length q < depth \<Longrightarrow> make_room depth q = (q, 0)"
  by (cases q) auto

lemma make_room_bound: "0 < depth \<Longrightarrow> length (fst (make_room depth q)) < depth"
  by (induction depth q rule: make_room.induct) (auto simp: split_def Let_def)

lemma enqueue_run:
  assumes "length (dp_high_priority_queue d) + length (filter (of_type HEARTBEAT) ps) \<le> dp_heartbeat_max_queue_depth d"
  shows "let d' = foldl (\<lambda>d p. enqueue_packet p d) d ps in same_handlers d d' \<and>
    dp_high_priority_queue d' = dp_high_priority_queue d @ map queue_packet (filter (of_type HEARTBEAT) ps) \<and>
    dp_normal_queue d' = dp_normal_queue d @ map queue_packet (filter (of_type DATA) ps)"
  using assms
proof (induction ps arbitrary: d)
  case (Cons p ps)
  let ?d = "enqueue_packet p d"
  have step: "same_handlers d ?d" "dp_heartbeat_max_queue_depth ?d = dp_heartbeat_max_queue_depth d"
    "dp_high_priority_queue ?d = dp_high_priority_queue d @ (if of_type HEARTBEAT p then [queue_packet p] else [])"
    "dp_normal_queue ?d = dp_normal_queue d @ (if of_type DATA p then [queue_packet p] else [])"
    using Cons.prems
    by (auto simp: enqueue_packet_def make_room_free dispatch_frame_defs same_handlers_def)
  have "length (dp_high_priority_queue ?d) + length (filter (of_type HEARTBEAT) ps) \<le> dp_heartbeat_max_queue_depth ?d"
    using Cons.prems step by (simp split: if_splits)
  from Cons.IH [OF this] step same_handlers_trans [OF step(1)] show ?case by (auto simp: Let_def)
qed simp

lemma dispatch_same_handlers: "same_handlers d (fst (dispatch t p d))"
  by (simp add: same_handlers_def dispatch_def dispatch_heartbeat_direct_def dispatch_frame_defs split: option.splits)

lemma dispatch_calls_same: "same_handlers d d' \<Longrightarrow> snd (dispatch t p d) = snd (dispatch t' p d')"
  by (simp add: same_handlers_def dispatch_def dispatch_heartbeat_direct_def Let_def split: option.splits)

lemma snd_dispatch_batch: "snd (dispatch_batch t ps d) = concat (map (\<lambda>p. snd (dispatch t p d)) ps)"
proof (induction ps arbitrary: d)
  case (Cons p ps)
  have "(\<lambda>q. snd (dispatch t q (fst (dispatch t p d)))) = (\<lambda>q. snd (dispatch t q d))"
    using dispatch_calls_same [OF dispatch_same_handlers] by (metis (no_types))
  then show ?case by (simp add: dispatch_batch.simps(2) Cons split_def Let_def)
qed simp

text \<open>
  The queued path agrees with the direct one up to priority.  Enqueuing packets and draining the queues makes
  exactly the handler calls that dispatching the heartbeats first and the data packets after them, each kind in
  arrival order, makes directly; the drain loop ends with both queues empty.
\<close>

lemma queued_dispatch_priority:
  assumes "list_all has_payload ps" and "dp_high_priority_queue d = []" and "dp_normal_queue d = []"
    and "length (filter (of_type HEARTBEAT) ps) \<le> dp_heartbeat_max_queue_depth d"
  shows "let r = drain_queues clk (foldl (\<lambda>d p. enqueue_packet p d) d ps) in
    snd r = snd (dispatch_batch t (filter (of_type HEARTBEAT) ps @ filter (of_type DATA) ps) d) \<and>
    dp_high_priority_queue (fst r) = [] \<and> dp_normal_queue (fst r) = []"
proof -
  let ?d = "foldl (\<lambda>d p. enqueue_packet p d) d ps"
  let ?ps = "filter (of_type HEARTBEAT) ps @ filter (of_type DATA) ps"
  have q: "same_handlers d ?d" "dp_high_priority_queue ?d @ dp_normal_queue ?d = map queue_packet ?ps"
    using enqueue_run [of d ps] assms(2-4) by (simp_all add: Let_def)
  have "list_all has_payload ?ps" using assms(1) by (auto simp: list_all_iff)
  then have same: "map (\<lambda>p. snd (dispatch_queued_packet 0 (queue_packet p) d)) ?ps = map (\<lambda>p. snd (dispatch t p d)) ?ps"
    using dispatch_calls_same [of d d 0 _ t] by (auto simp: list_all_iff queued_is_direct)
  show ?thesis
    using drain_facts [OF q(1), of clk] unfolding q(2) snd_dispatch_batch map_map comp_def same Let_def by blast
qed

end
