(* ===== verification/Rx_Stage.thy ===== *)
theory Rx_Stage
  imports Spsc_Queue Dispatcher
begin

text \<open>
  \<^verbatim>\<open>RxStage\<close> (\<^verbatim>\<open>include/qdgz300/m01_receiver/pipeline/rx_stage.h\<close>, \<^verbatim>\<open>rx_envelope.h\<close>,
  \<^verbatim>\<open>src/m01_receiver/pipeline/rx_stage.cpp\<close>): the receive thread of one array face parses and
  validates each datagram and pushes an envelope into the ring, from which the processing thread
  rebuilds the packet (\<^verbatim>\<open>app_run.cpp\<close>).

  Correspondence.  A \<^verbatim>\<open>PacketBuffer\<close> is a handle and the bytes it owns, or nothing.  \<^verbatim>\<open>on_packet\<close>
  returns an option because the push loop may fail to return on an ill-formed ring.
\<close>

type_synonym PacketBuffer = "(nat \<times> bytes) option"

record ReceivedPacket =
  rp_data :: PacketBuffer
  rp_length :: nat
  rp_receive_timestamp_ns :: u64

record RxEnvelope =
  env_header :: CommonHeader
  env_array_id :: u8
  env_rx_timestamp_ns :: u64
  env_packet_length :: u32
  env_packet_data :: PacketBuffer

record RxStage =
  rx_array_id :: u8
  rx_validator :: Validator
  rx_queue :: "RxEnvelope SPSCQueue"
  rx_total :: u64
  rx_parse_ok :: u64
  rx_validate_ok :: u64
  rx_enqueued :: u64
  rx_queue_high_watermark :: nat

record RxStats =
  rs_rx_total :: u64
  rs_parse_ok :: u64
  rs_validate_ok :: u64
  rs_enqueued :: u64
  rs_queue_drops :: u64
  rs_queue_high_watermark :: nat

definition QUEUE_CAPACITY :: nat where [const_defs]: "QUEUE_CAPACITY = 65536"

definition empty_envelope :: RxEnvelope where
  "empty_envelope = \<lparr>env_header = zero_common, env_array_id = 0, env_rx_timestamp_ns = 0, env_packet_length = 0, env_packet_data = None\<rparr>"

definition rx_stage_new :: "u8 \<Rightarrow> u8 \<Rightarrow> RxStage" where
  "rx_stage_new array_id device_id =
     \<lparr>rx_array_id = array_id, rx_validator = \<lparr>local_device_id = device_id, scope = DATA_AND_HEARTBEAT\<rparr>,
      rx_queue = spsc_new (replicate QUEUE_CAPACITY empty_envelope), rx_total = 0, rx_parse_ok = 0,
      rx_validate_ok = 0, rx_enqueued = 0, rx_queue_high_watermark = 0\<rparr>"

definition fill_envelope :: "u8 \<Rightarrow> ReceivedPacket \<Rightarrow> ParsedPacket \<Rightarrow> RxEnvelope" where
  "fill_envelope array_id raw p =
     \<lparr>env_header = header p, env_array_id = array_id, env_rx_timestamp_ns = rp_receive_timestamp_ns raw,
      env_packet_length = word_of_nat (rp_length raw), env_packet_data = rp_data raw\<rparr>"

definition on_packet :: "ReceivedPacket \<Rightarrow> RxStage \<Rightarrow> RxStage option" where
  "on_packet raw s =
     (let s0 = s\<lparr>rx_total := rx_total s + 1\<rparr> in
      case parse (map_option snd (rp_data raw)) (rp_length raw) of
        None \<Rightarrow> Some s0
      | Some p \<Rightarrow>
          (let s1 = s0\<lparr>rx_parse_ok := rx_parse_ok s0 + 1\<rparr> in
           if validate (rx_validator s1) p \<noteq> VR_OK then Some s1
           else let s2 = s1\<lparr>rx_validate_ok := rx_validate_ok s1 + 1\<rparr> in
             case drop_oldest_push (rx_queue s2) (fill_envelope (rx_array_id s2) raw p) of
               None \<Rightarrow> None
             | Some (q, _) \<Rightarrow>
                 (let depth = spsc_size q
                  in Some (s2\<lparr>rx_queue := q, rx_enqueued := rx_enqueued s2 + 1,
                       rx_queue_high_watermark := (if depth > rx_queue_high_watermark s2 then depth else rx_queue_high_watermark s2)\<rparr>))))"

definition get_stats :: "RxStage \<Rightarrow> RxStats" where
  "get_stats s =
     \<lparr>rs_rx_total = rx_total s, rs_parse_ok = rx_parse_ok s, rs_validate_ok = rx_validate_ok s, rs_enqueued = rx_enqueued s,
      rs_queue_drops = sq_drop_count (rx_queue s), rs_queue_high_watermark = rx_queue_high_watermark s\<rparr>"

text \<open>The packet the processing thread rebuilds from an envelope.\<close>

definition envelope_packet :: "RxEnvelope \<Rightarrow> ParsedPacket" where
  "envelope_packet env =
     \<lparr>header = env_header env, payload = map_option (\<lambda>buf. drop COMMON_HEADER_SIZE (snd buf)) (env_packet_data env),
      total_size = unat (env_packet_length env)\<rparr>"

subsection \<open>Runs of the receive thread\<close>

fun run_rx :: "ReceivedPacket list \<Rightarrow> RxStage \<Rightarrow> RxStage option" where
  "run_rx [] s = Some s"
| "run_rx (raw # raws) s = (case on_packet raw s of None \<Rightarrow> None | Some s' \<Rightarrow> run_rx raws s')"

definition parses :: "ReceivedPacket \<Rightarrow> bool" where
  "parses raw \<longleftrightarrow> parse (map_option snd (rp_data raw)) (rp_length raw) \<noteq> None"

definition accepted :: "Validator \<Rightarrow> ReceivedPacket \<Rightarrow> bool" where
  "accepted v raw \<longleftrightarrow>
     (case parse (map_option snd (rp_data raw)) (rp_length raw) of None \<Rightarrow> False | Some p \<Rightarrow> validate v p = VR_OK)"

definition envelope_of :: "u8 \<Rightarrow> ReceivedPacket \<Rightarrow> RxEnvelope" where
  "envelope_of array_id raw = fill_envelope array_id raw (the (parse (map_option snd (rp_data raw)) (rp_length raw)))"

definition rx_inv :: "RxStage \<Rightarrow> bool" where
  "rx_inv s \<longleftrightarrow> spsc_inv (rx_queue s) \<and> length (sq_buffer (rx_queue s)) = QUEUE_CAPACITY \<and>
     length (spsc_contents (rx_queue s)) \<le> rx_queue_high_watermark s \<and> rx_queue_high_watermark s \<le> QUEUE_CAPACITY - 1"

lemma usable_rx: "rx_inv s \<Longrightarrow> usable_capacity (rx_queue s) = 65535"
  by (simp add: rx_inv_def usable_capacity_def QUEUE_CAPACITY_def)

lemma rx_stage_new_inv: "rx_inv (rx_stage_new a i)"
proof -
  have "spsc_inv (spsc_new (replicate QUEUE_CAPACITY empty_envelope))"
    by (rule spsc_new_inv [of _ 16]) (simp_all add: QUEUE_CAPACITY_def)
  then show ?thesis by (simp add: rx_inv_def rx_stage_new_def) (simp add: spsc_new_def)
qed

text \<open>The queue, counters and watermark after one datagram.\<close>

lemma on_packet_rejected:
  "\<not> accepted (rx_validator s) raw \<Longrightarrow>
     on_packet raw s = Some (s\<lparr>rx_total := rx_total s + 1, rx_parse_ok := rx_parse_ok s + (if parses raw then 1 else 0)\<rparr>)"
  by (auto simp: on_packet_def accepted_def parses_def Let_def split: option.splits)

lemma on_packet_accepted:
  assumes "rx_inv s" and "accepted (rx_validator s) raw"
  shows "\<exists>s'. on_packet raw s = Some s' \<and> rx_inv s' \<and> rx_validator s' = rx_validator s \<and> rx_array_id s' = rx_array_id s \<and>
    rx_queue s' = spsc_push (rx_queue s) (envelope_of (rx_array_id s) raw) \<and>
    rx_total s' = rx_total s + 1 \<and> rx_parse_ok s' = rx_parse_ok s + 1 \<and> parses raw \<and>
    rx_validate_ok s' = rx_validate_ok s + 1 \<and> rx_enqueued s' = rx_enqueued s + 1 \<and>
    rx_queue_high_watermark s' = max (rx_queue_high_watermark s) (length (spsc_contents (rx_queue s')))"
proof -
  let ?env = "envelope_of (rx_array_id s) raw"
  have q: "spsc_inv (rx_queue s)" using assms(1) by (simp add: rx_inv_def)
  obtain p where p: "parse (map_option snd (rp_data raw)) (rp_length raw) = Some p" "validate (rx_validator s) p = VR_OK"
    using assms(2) by (auto simp: accepted_def split: option.splits)
  then have env: "?env = fill_envelope (rx_array_id s) raw p" by (simp add: envelope_of_def)
  obtain q' direct where d: "drop_oldest_push (rx_queue s) ?env = Some (q', direct)" using drop_oldest_push_returns [OF q] .
  then have q': "q' = spsc_push (rx_queue s) ?env" by (simp add: spsc_push_def)
  have inv': "spsc_inv q'" and us: "usable_capacity q' = usable_capacity (rx_queue s)"
    using spsc.invar_push [OF q] spsc.usable_push [OF q] by (simp_all add: q')
  have bound: "length (spsc_contents q') \<le> 65535"
    using spsc.contents_bound [OF inv'] us usable_rx [OF assms(1)] by simp
  have len: "length (sq_buffer q') = QUEUE_CAPACITY"
    using us usable_rx [OF assms(1)] inv' by (simp add: usable_capacity_def QUEUE_CAPACITY_def spsc_inv_def)
  show ?thesis
    using p d assms(1) inv' len bound q' env
    by (simp add: on_packet_def Let_def parses_def spsc_size_contents rx_inv_def QUEUE_CAPACITY_def max_def)
qed

abbreviation rx_envelopes :: "RxStage \<Rightarrow> ReceivedPacket list \<Rightarrow> RxEnvelope list" where
  "rx_envelopes s raws \<equiv> map (envelope_of (rx_array_id s)) (filter (accepted (rx_validator s)) raws)"

lemma run_rx_facts:
  assumes "rx_inv s"
  shows "\<exists>s'. run_rx raws s = Some s' \<and> rx_inv s' \<and> rx_validator s' = rx_validator s \<and> rx_array_id s' = rx_array_id s \<and>
    rx_queue s' = spsc.push_all (rx_queue s) (rx_envelopes s raws) \<and>
    rx_total s' = rx_total s + word_of_nat (length raws) \<and>
    rx_parse_ok s' = rx_parse_ok s + word_of_nat (length (filter parses raws)) \<and>
    rx_validate_ok s' = rx_validate_ok s + word_of_nat (length (rx_envelopes s raws)) \<and>
    rx_enqueued s' = rx_enqueued s + word_of_nat (length (rx_envelopes s raws)) \<and>
    rx_queue_high_watermark s \<le> rx_queue_high_watermark s'"
  using assms
proof (induction raws arbitrary: s)
  case (Cons raw raws)
  show ?case
  proof (cases "accepted (rx_validator s) raw")
    case True
    from on_packet_accepted [OF Cons.prems True] obtain s1 where s1: "on_packet raw s = Some s1" "rx_inv s1"
      "rx_validator s1 = rx_validator s" "rx_array_id s1 = rx_array_id s"
      "rx_queue s1 = spsc_push (rx_queue s) (envelope_of (rx_array_id s) raw)"
      "rx_total s1 = rx_total s + 1" "rx_parse_ok s1 = rx_parse_ok s + 1" "parses raw"
      "rx_validate_ok s1 = rx_validate_ok s + 1" "rx_enqueued s1 = rx_enqueued s + 1"
      "rx_queue_high_watermark s \<le> rx_queue_high_watermark s1" by auto
    from Cons.IH [OF s1(2)] s1 True show ?thesis by (auto simp: add.assoc)
  next
    case False
    let ?s = "s\<lparr>rx_total := rx_total s + 1, rx_parse_ok := rx_parse_ok s + (if parses raw then 1 else 0)\<rparr>"
    have "rx_inv ?s" using Cons.prems by (simp add: rx_inv_def)
    from Cons.IH [OF this] show ?thesis using False by (auto simp: on_packet_rejected add.assoc)
  qed
qed simp

text \<open>
  The receive stage of an array face.  Whatever datagrams arrive, the stage returns from each and keeps its
  invariant; the ring then holds the newest 65535 envelopes of the accepted datagrams in arrival order, after
  what it held before; the drop counter has grown by exactly the number lost, the four other counters by the
  number received, parsed, validated and enqueued; and the watermark bounds the depth and never exceeds the capacity.
\<close>

lemma rx_stage_run:
  assumes "rx_inv s"
  shows "\<exists>s'. run_rx raws s = Some s' \<and> rx_inv s' \<and>
    (let everything = spsc_contents (rx_queue s) @ map (envelope_of (rx_array_id s)) (filter (accepted (rx_validator s)) raws);
         lost = length everything - 65535; n = word_of_nat (length (filter (accepted (rx_validator s)) raws))
     in spsc_contents (rx_queue s') = drop lost everything \<and>
        get_stats s' = \<lparr>rs_rx_total = rx_total s + word_of_nat (length raws),
          rs_parse_ok = rx_parse_ok s + word_of_nat (length (filter parses raws)),
          rs_validate_ok = rx_validate_ok s + n, rs_enqueued = rx_enqueued s + n,
          rs_queue_drops = sq_drop_count (rx_queue s) + word_of_nat lost, rs_queue_high_watermark = rx_queue_high_watermark s'\<rparr>) \<and>
    length (spsc_contents (rx_queue s')) \<le> rx_queue_high_watermark s' \<and> rx_queue_high_watermark s' \<le> 65535"
proof -
  from run_rx_facts [OF assms, of raws] obtain s' where s': "run_rx raws s = Some s'" "rx_inv s'"
    "rx_queue s' = spsc.push_all (rx_queue s) (rx_envelopes s raws)" "rx_total s' = rx_total s + word_of_nat (length raws)"
    "rx_parse_ok s' = rx_parse_ok s + word_of_nat (length (filter parses raws))"
    "rx_validate_ok s' = rx_validate_ok s + word_of_nat (length (rx_envelopes s raws))"
    "rx_enqueued s' = rx_enqueued s + word_of_nat (length (rx_envelopes s raws))" by blast
  have "spsc_inv (rx_queue s)" using assms by (simp add: rx_inv_def)
  from spsc.push_all_facts [OF this, of "rx_envelopes s raws"] usable_rx [OF assms] s'
  show ?thesis by (intro exI [of _ s']) (simp add: Let_def get_stats_def rx_inv_def QUEUE_CAPACITY_def)
qed

definition sample_received :: "bytes \<Rightarrow> ReceivedPacket" where
  "sample_received bs = \<lparr>rp_data = Some (0, bs), rp_length = length bs, rp_receive_timestamp_ns = 5\<rparr>"

subsection \<open>From the ring to the dispatcher\<close>

lemma envelope_packet_of:
  assumes "parse (map_option snd (rp_data raw)) (rp_length raw) = Some p"
  shows "envelope_packet (envelope_of a raw) = p"
proof -
  obtain b bs where raw: "rp_data raw = Some (b, bs)" using assms by (cases "rp_data raw") auto
  with assms have p: "p = \<lparr>header = decode_common bs, payload = Some (drop COMMON_HEADER_SIZE bs), total_size = rp_length raw\<rparr>"
    and n: "rp_length raw = COMMON_HEADER_SIZE + unat (payload_len (decode_common bs))"
    by (simp_all add: parse_Some_iff basic_validation_iff)
  have "unat (payload_len (decode_common bs)) < 2 ^ 16" using unsigned_less [of "payload_len (decode_common bs)"] by simp
  then have "rp_length raw < 2 ^ 32" using n by (simp add: COMMON_HEADER_SIZE_def)
  then have "unat (word_of_nat (rp_length raw) :: u32) = rp_length raw" by (simp add: unat_of_nat take_bit_nat_eq_self)
  then show ?thesis using assms raw p by (simp add: envelope_packet_def envelope_of_def fill_envelope_def)
qed

text \<open>
  C24: Nothing the receive stage accepted is lost at the dispatcher.  The packet the processing thread rebuilds from
  an envelope is the packet the validator saw, and the dispatcher hands it to exactly one handler, the data handler
  with the buffer or the heartbeat handler, without counting a dropped packet.
\<close>

theorem accepted_reaches_handler:
  assumes "accepted v raw" and "dp_zero_copy_data_handler d" and "dp_heartbeat_handler d"
  shows "\<exists>p. parse (map_option snd (rp_data raw)) (rp_length raw) = Some p \<and> envelope_packet (envelope_of a raw) = p \<and>
    snd (dispatch_buffer t (envelope_packet (envelope_of a raw)) buf d) =
      [if get_packet_type (header p) = DATA then ZeroCopyCall p buf else HeartbeatCall p] \<and>
    dropped_packets (dp_stats (fst (dispatch_buffer t (envelope_packet (envelope_of a raw)) buf d))) = dropped_packets (dp_stats d)"
proof -
  obtain p where p: "parse (map_option snd (rp_data raw)) (rp_length raw) = Some p" "validate v p = VR_OK"
    using assms(1) by (auto simp: accepted_def split: option.splits)
  note env = envelope_packet_of [OF p(1)]
  have pl: "payload p \<noteq> None" using p(1) by (cases "rp_data raw") (auto simp: parse_Some_iff)
  have t: "get_packet_type (header p) = DATA \<or>
      get_packet_type (header p) = HEARTBEAT \<and> verify_heartbeat_crc (payload p) (unat (payload_len (header p)))"
    using p(2) by (auto simp: validate_OK_iff)
  then show ?thesis
  proof (elim disjE conjE)
    assume "get_packet_type (header p) = DATA"
    then show ?thesis using p(1) env assms(2) by (simp add: dispatch_buffer_def Let_def count_data_def)
  next
    assume hb: "get_packet_type (header p) = HEARTBEAT" and crc: "verify_heartbeat_crc (payload p) (unat (payload_len (header p)))"
    have "dispatch_buffer t p buf d = dispatch t p d" using hb by (simp add: dispatch_buffer_def dispatch_def Let_def)
    moreover have "good_heartbeat p" using hb pl verified_heartbeat_crc_ok crc by (auto simp: good_heartbeat_def)
    ultimately show ?thesis using p(1) env hb assms(3) by (simp add: dispatch_good_heartbeat)
  qed
qed

theorem accepted_reaches_handler_witness:
  "snd (dispatch_buffer 9 (envelope_packet (envelope_of 1 (sample_received (sample_datagram 3 [7, 8])))) 0
       (set_zero_copy_data_handler True (dispatcher_new True True))) =
     [ZeroCopyCall \<lparr>header = sample_header 3 2, payload = Some [7, 8], total_size = 34\<rparr> 0]"
proof -
  let ?raw = "sample_received (sample_datagram 3 [7, 8])" and ?v = "\<lparr>local_device_id = 1, scope = DATA_AND_HEARTBEAT\<rparr>"
  let ?p = "\<lparr>header = sample_header 3 2, payload = Some [7, 8], total_size = 34\<rparr>"
  let ?d = "set_zero_copy_data_handler True (dispatcher_new True True)"
  have p: "parse (Some (sample_datagram 3 [7, 8])) (length (sample_datagram 3 [7, 8])) = Some ?p"
    using parse_sample [of "[7, 8]" 3] by (simp add: const_defs numeral_2_eq_2)
  have t: "get_packet_type (sample_header 3 2) = DATA"
    by (simp add: sample_header_def zero_common_def get_packet_type_def)
  have "validate ?v ?p = VR_OK"
    unfolding validate_parsed [OF p] by (simp add: t check_dest_id_def) (simp add: sample_header_def zero_common_def const_defs)
  then have acc: "accepted ?v ?raw" using p by (simp add: accepted_def sample_received_def)
  have "dp_zero_copy_data_handler ?d" "dp_heartbeat_handler ?d"
    by (simp_all add: set_zero_copy_data_handler_def dispatcher_new_def)
  from accepted_reaches_handler [OF acc this, of 1 9 0] obtain q where
    q: "parse (map_option snd (rp_data ?raw)) (rp_length ?raw) = Some q"
      "snd (dispatch_buffer 9 (envelope_packet (envelope_of 1 ?raw)) 0 ?d) =
        [if get_packet_type (header q) = DATA then ZeroCopyCall q 0 else HeartbeatCall q]" by blast
  have "q = ?p" using q(1) p by (simp add: sample_received_def)
  then show ?thesis using q(2) t by simp
qed

end
