(* ===== verification/Raw_Block.thy ===== *)
theory Raw_Block
  imports Spsc_Queue Reorder_Refinement
begin

text \<open>
  \<^verbatim>\<open>RawBlock\<close>, \<^verbatim>\<open>RawBlockAdapter\<close> and \<^verbatim>\<open>StubConsumer\<close> (\<^verbatim>\<open>include/qdgz300/m01_receiver/delivery/\<close>,
  \<^verbatim>\<open>src/m01_receiver/delivery/rawblock_adapter.cpp\<close>, \<^verbatim>\<open>stub_consumer.cpp\<close>): ordered packets become
  fixed-size blocks in a ring of 64 slots that a consumer thread drains.

  Correspondence.  A block is a value; the \<^verbatim>\<open>shared_ptr\<close> in the ring is an option.  Clock readings and
  the results of \<^verbatim>\<open>open\<close> and \<^verbatim>\<open>write\<close> are arguments; the output file is the list of bytes written.
  Log output has no effect on the state.
\<close>

subsection \<open>RawBlock\<close>

datatype RawBlockFlags = INCOMPLETE_FRAME | SNAPSHOT_PRESENT | HEARTBEAT_RELATED

fun flag_bits :: "RawBlockFlags \<Rightarrow> u32" where
  "flag_bits INCOMPLETE_FRAME = 0x01"
| "flag_bits SNAPSHOT_PRESENT = 0x02"
| "flag_bits HEARTBEAT_RELATED = 0x04"

definition RAW_BLOCK_PAYLOAD_SIZE :: nat where [const_defs]: "RAW_BLOCK_PAYLOAD_SIZE = 2 * 1024 * 1024"
definition RAWCPI_Q_CAPACITY :: nat where [const_defs]: "RAWCPI_Q_CAPACITY = 64"

record RawBlock =
  rb_ingest_ts :: u64
  rb_data_ts :: u64
  rb_array_id :: u8
  rb_cpi_seq :: u32
  rb_fragment_count :: u16
  rb_data_size :: u32
  rb_flags :: u32
  rb_payload :: bytes

definition has_flag :: "RawBlockFlags \<Rightarrow> RawBlock \<Rightarrow> bool" where
  "has_flag f b \<longleftrightarrow> rb_flags b AND flag_bits f \<noteq> 0"

definition set_flag :: "RawBlockFlags \<Rightarrow> RawBlock \<Rightarrow> RawBlock" where
  "set_flag f b = b\<lparr>rb_flags := rb_flags b OR flag_bits f\<rparr>"

definition clear_flag :: "RawBlockFlags \<Rightarrow> RawBlock \<Rightarrow> RawBlock" where
  "clear_flag f b = b\<lparr>rb_flags := rb_flags b AND NOT (flag_bits f)\<rparr>"

lemma flag_ops:
  "has_flag f (set_flag f b)" "\<not> has_flag f (clear_flag f b)"
  "g \<noteq> f \<Longrightarrow> has_flag g (set_flag f b) = has_flag g b" "g \<noteq> f \<Longrightarrow> has_flag g (clear_flag f b) = has_flag g b"
proof -
  have bits: "has_flag h c \<longleftrightarrow> bit (rb_flags c) (case h of INCOMPLETE_FRAME \<Rightarrow> 0 | SNAPSHOT_PRESENT \<Rightarrow> 1 | HEARTBEAT_RELATED \<Rightarrow> 2)" for h c
    using and_push_bit_1 [of "rb_flags c" 0] and_push_bit_1 [of "rb_flags c" 1] and_push_bit_1 [of "rb_flags c" 2]
    by (cases h) (simp_all add: has_flag_def)
  have one: "bit (flag_bits f) n \<longleftrightarrow> n = (case f of INCOMPLETE_FRAME \<Rightarrow> 0 | SNAPSHOT_PRESENT \<Rightarrow> 1 | HEARTBEAT_RELATED \<Rightarrow> 2)" for n
    using bit_push_bit_iff [of 1 "1 :: u32" n] bit_push_bit_iff [of 2 "1 :: u32" n]
    by (cases f) (auto simp: bit_1_iff)
  show "has_flag f (set_flag f b)" "\<not> has_flag f (clear_flag f b)"
    by (simp_all add: bits set_flag_def clear_flag_def bit_simps one split: RawBlockFlags.splits)
  show "g \<noteq> f \<Longrightarrow> has_flag g (set_flag f b) = has_flag g b" "g \<noteq> f \<Longrightarrow> has_flag g (clear_flag f b) = has_flag g b"
    by (cases g; cases f; simp add: bits set_flag_def clear_flag_def bit_simps one)+
qed

subsection \<open>RawBlockAdapter\<close>

definition kNanosecondsPerMillisecond :: u64 where [const_defs]: "kNanosecondsPerMillisecond = 1000000"

definition adapt_block :: "u8 \<Rightarrow> u64 \<Rightarrow> OrderedPacket \<Rightarrow> RawBlock" where
  "adapt_block array_id now_ns packet =
     (let copy_size = min (op_payload_size packet) RAW_BLOCK_PAYLOAD_SIZE;
          zeros = replicate RAW_BLOCK_PAYLOAD_SIZE 0;
          filled = (case op_owned_payload packet of
                      Some src \<Rightarrow> if copy_size > 0 then take copy_size src @ drop copy_size zeros else zeros
                    | None \<Rightarrow> zeros);
          block = \<lparr>rb_ingest_ts = now_ns, rb_data_ts = timestamp (header (op_packet packet)) * kNanosecondsPerMillisecond,
                   rb_array_id = array_id, rb_cpi_seq = op_sequence_number packet, rb_fragment_count = 1,
                   rb_data_size = word_of_nat (op_payload_size packet),
                   rb_flags = (if op_is_zero_filled packet \<or> op_is_incomplete_frame packet then flag_bits INCOMPLETE_FRAME else 0),
                   rb_payload = filled\<rparr>
      in if op_payload_size packet > RAW_BLOCK_PAYLOAD_SIZE
         then block\<lparr>rb_flags := rb_flags block OR flag_bits INCOMPLETE_FRAME, rb_data_size := word_of_nat RAW_BLOCK_PAYLOAD_SIZE\<rparr>
         else block)"

type_synonym RawBlockQueue = "RawBlock option SPSCQueue"

definition rawblock_queue_new :: RawBlockQueue where
  "rawblock_queue_new = spsc_new (replicate RAWCPI_Q_CAPACITY None)"

text \<open>The result is the new queue and the returned flag; the outer option is the push loop.\<close>

definition adapt_and_push :: "u8 \<Rightarrow> u64 \<Rightarrow> OrderedPacket \<Rightarrow> RawBlockQueue option \<Rightarrow> (RawBlockQueue option \<times> bool) option" where
  "adapt_and_push array_id now_ns packet queue =
     (case queue of
        None \<Rightarrow> Some (None, False)
      | Some q \<Rightarrow> map_option (apfst Some) (drop_oldest_push q (Some (adapt_block array_id now_ns packet))))"

definition dropped_count :: "RawBlockQueue option \<Rightarrow> u64" where
  "dropped_count queue = (case queue of None \<Rightarrow> 0 | Some q \<Rightarrow> sq_drop_count q)"

subsection \<open>StubConsumer\<close>

record StubConsumerConfig =
  scc_array_id :: u8
  scc_print_summary :: bool
  scc_write_to_file :: bool
  scc_output_file :: string
  scc_stats_interval_ms :: u64

record StubConsumerStatistics =
  ss_total_blocks :: u64
  ss_complete_frames :: u64
  ss_incomplete_frames :: u64
  ss_total_bytes :: u64
  ss_last_cpi_seq :: u64

record StubConsumer =
  sc_config :: StubConsumerConfig
  sc_queue :: "RawBlockQueue option"
  sc_stats :: StubConsumerStatistics
  sc_running :: bool
  sc_output_fd :: int
  sc_period_blocks :: u64
  sc_period_complete :: u64
  sc_period_incomplete :: u64
  sc_last_stats_time_ms :: u64
  sc_file :: bytes

definition stub_consumer_new :: "StubConsumerConfig \<Rightarrow> RawBlockQueue option \<Rightarrow> StubConsumer" where
  "stub_consumer_new cfg queue =
     \<lparr>sc_config = cfg, sc_queue = queue,
      sc_stats = \<lparr>ss_total_blocks = 0, ss_complete_frames = 0, ss_incomplete_frames = 0, ss_total_bytes = 0, ss_last_cpi_seq = 0\<rparr>,
      sc_running = False, sc_output_fd = -1, sc_period_blocks = 0, sc_period_complete = 0, sc_period_incomplete = 0,
      sc_last_stats_time_ms = 0, sc_file = []\<rparr>"

text \<open>\<^verbatim>\<open>open\<close> with \<^verbatim>\<open>O_TRUNC\<close> returns a descriptor, negative on failure.\<close>

definition open_output_file :: "int \<Rightarrow> StubConsumer \<Rightarrow> StubConsumer \<times> bool" where
  "open_output_file opened c =
     (if scc_output_file (sc_config c) = [] then (c, False)
      else if opened < 0 then (c\<lparr>sc_output_fd := opened\<rparr>, False)
      else (c\<lparr>sc_output_fd := opened, sc_file := []\<rparr>, True))"

definition close_output_file :: "StubConsumer \<Rightarrow> StubConsumer" where
  "close_output_file c = (if sc_output_fd c \<ge> 0 then c\<lparr>sc_output_fd := -1\<rparr> else c)"

definition stub_start :: "int \<Rightarrow> u64 \<Rightarrow> StubConsumer \<Rightarrow> StubConsumer \<times> bool" where
  "stub_start opened now_ms c =
     (if sc_running c then (c, True)
      else let c1 = c\<lparr>sc_running := True\<rparr>;
               (c2, ok) = (if scc_write_to_file (sc_config c1) then open_output_file opened c1 else (c1, True))
           in if \<not> ok then (c2\<lparr>sc_running := False\<rparr>, False) else (c2\<lparr>sc_last_stats_time_ms := now_ms\<rparr>, True))"

definition stub_stop :: "StubConsumer \<Rightarrow> StubConsumer" where
  "stub_stop c = (if \<not> sc_running c then c else close_output_file (c\<lparr>sc_running := False\<rparr>))"

text \<open>The packed header written before each payload, 31 bytes.\<close>

definition block_header_bytes :: "RawBlock \<Rightarrow> bytes" where
  "block_header_bytes b =
     bytes_le 8 (rb_ingest_ts b) @ bytes_le 8 (rb_data_ts b) @ bytes_le 1 (rb_array_id b) @ bytes_le 4 (rb_cpi_seq b) @
     bytes_le 2 (rb_fragment_count b) @ bytes_le 4 (rb_data_size b) @ bytes_le 4 (rb_flags b)"

text \<open>The argument \<open>wr\<close> gives the result of a \<^verbatim>\<open>write\<close> of a number of bytes.\<close>

definition write_block_to_file :: "(nat \<Rightarrow> int) \<Rightarrow> RawBlock \<Rightarrow> StubConsumer \<Rightarrow> StubConsumer" where
  "write_block_to_file wr b c =
     (let hb = block_header_bytes b; n = wr (length hb); c1 = c\<lparr>sc_file := sc_file c @ take (nat n) hb\<rparr> in
      if n \<noteq> int (length hb) then c1
      else if unat (rb_data_size b) > 0
      then let m = unat (rb_data_size b) in c1\<lparr>sc_file := sc_file c1 @ take (nat (wr m)) (take m (rb_payload b))\<rparr>
      else c1)"

definition process_block :: "(nat \<Rightarrow> int) \<Rightarrow> RawBlock \<Rightarrow> StubConsumer \<Rightarrow> StubConsumer" where
  "process_block wr b c =
     (let st = sc_stats c;
          st1 = st\<lparr>ss_total_blocks := ss_total_blocks st + 1, ss_total_bytes := ss_total_bytes st + ucast (rb_data_size b),
                   ss_last_cpi_seq := ucast (rb_cpi_seq b)\<rparr>;
          c1 = c\<lparr>sc_stats := st1, sc_period_blocks := sc_period_blocks c + 1\<rparr>;
          c2 = (if has_flag INCOMPLETE_FRAME b
                then c1\<lparr>sc_stats := st1\<lparr>ss_incomplete_frames := ss_incomplete_frames st1 + 1\<rparr>,
                        sc_period_incomplete := sc_period_incomplete c1 + 1\<rparr>
                else c1\<lparr>sc_stats := st1\<lparr>ss_complete_frames := ss_complete_frames st1 + 1\<rparr>,
                        sc_period_complete := sc_period_complete c1 + 1\<rparr>)
      in if scc_write_to_file (sc_config c2) \<and> sc_output_fd c2 \<ge> 0 then write_block_to_file wr b c2 else c2)"

definition print_statistics :: "StubConsumer \<Rightarrow> StubConsumer" where
  "print_statistics c =
     (if sc_period_blocks c = 0 then c
      else c\<lparr>sc_period_blocks := 0, sc_period_complete := 0, sc_period_incomplete := 0\<rparr>)"

text \<open>One iteration of the worker loop.\<close>

definition consumer_iteration :: "(nat \<Rightarrow> int) \<Rightarrow> u64 \<Rightarrow> StubConsumer \<Rightarrow> StubConsumer" where
  "consumer_iteration wr now c =
     (let c1 = (case sc_queue c of
                  None \<Rightarrow> c
                | Some q \<Rightarrow>
                    (case try_pop q of
                       None \<Rightarrow> c
                     | Some (block, q') \<Rightarrow>
                         (let c0 = c\<lparr>sc_queue := Some q'\<rparr> in
                          case block of None \<Rightarrow> c0 | Some b \<Rightarrow> process_block wr b c0)))
      in if now - sc_last_stats_time_ms c1 \<ge> scc_stats_interval_ms (sc_config c1)
         then (print_statistics c1)\<lparr>sc_last_stats_time_ms := now\<rparr>
         else c1)"

fun consumer_run :: "(nat \<Rightarrow> int) \<Rightarrow> u64 list \<Rightarrow> StubConsumer \<Rightarrow> StubConsumer" where
  "consumer_run wr [] c = print_statistics c"
| "consumer_run wr (now # clk) c = consumer_run wr clk (consumer_iteration wr now c)"

subsection \<open>Properties\<close>

text \<open>The payload pointer of an ordered packet designates at least \<^verbatim>\<open>payload_size\<close> bytes.\<close>

definition payload_ok :: "OrderedPacket \<Rightarrow> bool" where
  "payload_ok p \<longleftrightarrow> (case op_owned_payload p of None \<Rightarrow> op_payload_size p = 0 | Some src \<Rightarrow> op_payload_size p \<le> length src)"

lemma adapt_block_facts:
  assumes "payload_ok p"
  shows "unat (rb_data_size (adapt_block a t p)) = min (op_payload_size p) RAW_BLOCK_PAYLOAD_SIZE"
    and "take (unat (rb_data_size (adapt_block a t p))) (rb_payload (adapt_block a t p)) =
      (case op_owned_payload p of None \<Rightarrow> [] | Some src \<Rightarrow> take (min (op_payload_size p) RAW_BLOCK_PAYLOAD_SIZE) src)"
    and "length (rb_payload (adapt_block a t p)) = RAW_BLOCK_PAYLOAD_SIZE"
    and "has_flag INCOMPLETE_FRAME (adapt_block a t p) \<longleftrightarrow>
      op_is_zero_filled p \<or> op_is_incomplete_frame p \<or> RAW_BLOCK_PAYLOAD_SIZE < op_payload_size p"
proof -
  have small: "unat (word_of_nat n :: u32) = n" if "n \<le> RAW_BLOCK_PAYLOAD_SIZE" for n
    using that by (simp add: unat_of_nat take_bit_nat_eq_self RAW_BLOCK_PAYLOAD_SIZE_def)
  show size: "unat (rb_data_size (adapt_block a t p)) = min (op_payload_size p) RAW_BLOCK_PAYLOAD_SIZE"
    by (cases "op_payload_size p > RAW_BLOCK_PAYLOAD_SIZE") (simp_all add: adapt_block_def Let_def small min_def)
  show "length (rb_payload (adapt_block a t p)) = RAW_BLOCK_PAYLOAD_SIZE"
    using assms by (auto simp: adapt_block_def Let_def payload_ok_def split: option.splits)
  show "take (unat (rb_data_size (adapt_block a t p))) (rb_payload (adapt_block a t p)) =
      (case op_owned_payload p of None \<Rightarrow> [] | Some src \<Rightarrow> take (min (op_payload_size p) RAW_BLOCK_PAYLOAD_SIZE) src)"
    unfolding size using assms by (auto simp: adapt_block_def Let_def payload_ok_def min_def split: option.splits)
  show "has_flag INCOMPLETE_FRAME (adapt_block a t p) \<longleftrightarrow>
      op_is_zero_filled p \<or> op_is_incomplete_frame p \<or> RAW_BLOCK_PAYLOAD_SIZE < op_payload_size p"
    by (simp add: adapt_block_def Let_def has_flag_def)
qed

text \<open>
  The block of an ordered packet.  The push returns; the ring holds the newest blocks with the new one last and
  has counted the block it had to drop, if any; the new block has the packet's sequence number, exactly the packet's payload up to two
  mebibytes, zeros behind it, and the incomplete flag if and only if the packet is a zero fill, belongs to an incomplete frame
  or was truncated.
\<close>

lemma raw_block_pushed:
  assumes "spsc_inv q" and "payload_ok p"
  shows "\<exists>q' direct b. adapt_and_push a t p (Some q) = Some (Some q', direct) \<and> spsc_inv q' \<and>
    spsc_contents q' = (if length (spsc_contents q) < usable_capacity q then spsc_contents q else tl (spsc_contents q)) @ [Some b] \<and>
    dropped_count (Some q') = dropped_count (Some q) + (if length (spsc_contents q) < usable_capacity q then 0 else 1) \<and>
    rb_cpi_seq b = op_sequence_number p \<and> rb_array_id b = a \<and> length (rb_payload b) = RAW_BLOCK_PAYLOAD_SIZE \<and>
    unat (rb_data_size b) = min (op_payload_size p) RAW_BLOCK_PAYLOAD_SIZE \<and>
    take (unat (rb_data_size b)) (rb_payload b) = (case op_owned_payload p of None \<Rightarrow> [] | Some src \<Rightarrow> take (unat (rb_data_size b)) src) \<and>
    (has_flag INCOMPLETE_FRAME b \<longleftrightarrow> op_is_zero_filled p \<or> op_is_incomplete_frame p \<or> RAW_BLOCK_PAYLOAD_SIZE < op_payload_size p)"
proof -
  let ?b = "adapt_block a t p"
  obtain q' direct where d: "drop_oldest_push q (Some ?b) = Some (q', direct)" using drop_oldest_push_returns [OF assms(1)] .
  then have q': "q' = spsc_push q (Some ?b)" by (simp add: spsc_push_def)
  have "rb_cpi_seq ?b = op_sequence_number p" "rb_array_id ?b = a" by (simp_all add: adapt_block_def Let_def)
  with adapt_block_facts [OF assms(2), of a t] spsc_push_cases [OF assms(1), of "Some ?b"] d q' show ?thesis
    by (intro exI [of _ q'] exI [of _ direct] exI [of _ ?b]) (simp add: adapt_and_push_def dropped_count_def cong: option.case_cong)
qed

lemma rawblock_queue_new_inv: "spsc_inv rawblock_queue_new" "spsc_contents rawblock_queue_new = []"
  "usable_capacity rawblock_queue_new = 63"
proof -
  show "spsc_inv rawblock_queue_new"
    unfolding rawblock_queue_new_def by (rule spsc_new_inv [of _ 6]) (simp_all add: RAWCPI_Q_CAPACITY_def)
  show "spsc_contents rawblock_queue_new = []" by (simp add: rawblock_queue_new_def)
  show "usable_capacity rawblock_queue_new = 63"
    by (simp add: rawblock_queue_new_def usable_capacity_def spsc_new_def RAWCPI_Q_CAPACITY_def)
qed

subsection \<open>The consumer\<close>

definition block_record :: "RawBlock \<Rightarrow> bytes" where
  "block_record b = block_header_bytes b @ take (unat (rb_data_size b)) (rb_payload b)"

lemma length_block_header: "length (block_header_bytes b) = 31"
  by (simp add: block_header_bytes_def)

lemma process_block_fields:
  "sc_queue (process_block wr b c) = sc_queue c" "sc_config (process_block wr b c) = sc_config c"
  "sc_output_fd (process_block wr b c) = sc_output_fd c"
  "ss_total_blocks (sc_stats (process_block wr b c)) = ss_total_blocks (sc_stats c) + 1"
  "ss_complete_frames (sc_stats (process_block wr b c)) =
     ss_complete_frames (sc_stats c) + (if has_flag INCOMPLETE_FRAME b then 0 else 1)"
  "ss_incomplete_frames (sc_stats (process_block wr b c)) =
     ss_incomplete_frames (sc_stats c) + (if has_flag INCOMPLETE_FRAME b then 1 else 0)"
  by (simp_all add: process_block_def write_block_to_file_def Let_def)

lemma process_block_file:
  assumes "scc_write_to_file (sc_config c)" and "sc_output_fd c \<ge> 0"
  shows "sc_file (process_block int b c) = sc_file c @ block_record b"
  using assms by (simp add: process_block_def write_block_to_file_def Let_def block_record_def)

lemma consumer_iteration_fields:
  "sc_config (consumer_iteration wr now c) = sc_config c" "sc_output_fd (consumer_iteration wr now c) = sc_output_fd c"
  by (auto simp: consumer_iteration_def process_block_fields print_statistics_def Let_def split: option.splits)

lemma consumer_iteration_pop:
  assumes "sc_queue c = Some q" and "spsc_inv q" and "spsc_contents q = Some b # rest"
  shows "\<exists>q'. sc_queue (consumer_iteration wr now c) = Some q' \<and> spsc_inv q' \<and> spsc_contents q' = rest \<and>
    sc_stats (consumer_iteration wr now c) = sc_stats (process_block wr b c) \<and>
    sc_file (consumer_iteration wr now c) = sc_file (process_block wr b c)"
proof -
  obtain x q' where pop: "try_pop q = Some (x, q')" using try_pop_None_iff [OF assms(2)] assms(3) by (cases "try_pop q") auto
  then have q': "x = Some b" "spsc_contents q' = rest" "spsc_inv q'"
    using spsc.pop_head [OF assms(2) pop] spsc.invar_pop [OF assms(2) pop] assms(3) by auto
  have same: "sc_stats (process_block wr b (c\<lparr>sc_queue := Some q'\<rparr>)) = sc_stats (process_block wr b c)"
    "sc_file (process_block wr b (c\<lparr>sc_queue := Some q'\<rparr>)) = sc_file (process_block wr b c)"
    by (simp_all add: process_block_def write_block_to_file_def Let_def)
  show ?thesis
    using q' pop assms(1) same
    by (intro exI [of _ q']) (auto simp: consumer_iteration_def Let_def process_block_fields print_statistics_def)
qed

lemma consumer_iteration_idle:
  assumes "sc_queue c = Some q" and "spsc_inv q" and "spsc_contents q = []"
  shows "sc_queue (consumer_iteration wr now c) = Some q" "sc_stats (consumer_iteration wr now c) = sc_stats c"
    "sc_file (consumer_iteration wr now c) = sc_file c"
  using try_pop_None_iff [OF assms(2)] assms(1,3) by (simp_all add: consumer_iteration_def print_statistics_def Let_def)

text \<open>
  A consumer that makes at least as many iterations as there are blocks in its ring takes them all, oldest first:
  the ring is empty, every block is counted once as complete or incomplete according to its flag, and, when the file is open and
  writes succeed, the file grows by the header and the valid payload bytes of each block in order.
\<close>

lemma consumer_drains_ring:
  assumes "sc_queue c = Some q" and "spsc_inv q" and "spsc_contents q = map Some bs" and "length bs \<le> length clk"
    and "scc_write_to_file (sc_config c)" and "sc_output_fd c \<ge> 0"
  shows "\<exists>q'. sc_queue (consumer_run int clk c) = Some q' \<and> spsc_inv q' \<and> spsc_contents q' = [] \<and>
    sc_file (consumer_run int clk c) = sc_file c @ concat (map block_record bs) \<and>
    (let st = sc_stats (consumer_run int clk c) in
      ss_total_blocks st = ss_total_blocks (sc_stats c) + word_of_nat (length bs) \<and>
      ss_incomplete_frames st = ss_incomplete_frames (sc_stats c) + word_of_nat (length (filter (has_flag INCOMPLETE_FRAME) bs)) \<and>
      ss_complete_frames st = ss_complete_frames (sc_stats c) + word_of_nat (length (filter (\<lambda>b. \<not> has_flag INCOMPLETE_FRAME b) bs)))"
  using assms
proof (induction clk arbitrary: c q bs)
  case Nil
  then show ?case by (simp add: print_statistics_def)
next
  case (Cons now clk)
  note frame = consumer_iteration_fields [of int now c]
  show ?case
  proof (cases bs)
    case Nil
    note idle = consumer_iteration_idle [OF Cons.prems(1,2), of int now]
    from Cons.IH [of "consumer_iteration int now c" q "[]"] Cons.prems idle frame Nil show ?thesis by simp
  next
    case b: (Cons b bs')
    from consumer_iteration_pop [OF Cons.prems(1,2), of b "map Some bs'" int now] Cons.prems(3) b obtain q' where
      q': "sc_queue (consumer_iteration int now c) = Some q'" "spsc_inv q'" "spsc_contents q' = map Some bs'"
        "sc_stats (consumer_iteration int now c) = sc_stats (process_block int b c)"
        "sc_file (consumer_iteration int now c) = sc_file c @ block_record b"
      using process_block_file [OF Cons.prems(5,6)] by auto
    from Cons.IH [OF q'(1,2,3)] Cons.prems b frame q'(4,5) process_block_fields [of int b c] show ?thesis
      by (auto simp: Let_def add.assoc)
  qed
qed

definition sample_block :: "u32 \<Rightarrow> RawBlock" where
  "sample_block n = \<lparr>rb_ingest_ts = 1, rb_data_ts = 2, rb_array_id = 1, rb_cpi_seq = n, rb_fragment_count = 1,
     rb_data_size = 2, rb_flags = 0, rb_payload = [7, 8, 0]\<rparr>"

definition sample_consumer :: StubConsumer where
  "sample_consumer = (stub_consumer_new \<lparr>scc_array_id = 1, scc_print_summary = False, scc_write_to_file = True,
     scc_output_file = ''out'', scc_stats_interval_ms = 1000\<rparr>
     (Some (foldl spsc_push (spsc_new [None, None, None, None]) [Some (sample_block 4), Some (sample_block 5)])))\<lparr>sc_output_fd := 3\<rparr>"

end
