(* ===== verification/Face_Pipeline.thy ===== *)
theory Face_Pipeline
  imports Rx_Stage Raw_Block Reassembly_Paths Reorder_Order
begin

text \<open>
  The pipeline of one array face as \<^verbatim>\<open>app_init\<close> wires it (\<^verbatim>\<open>src/m01_receiver/app_init.cpp\<close>) and the threads of
  \<^verbatim>\<open>app_run\<close> drive it (\<^verbatim>\<open>src/m01_receiver/app_run.cpp\<close>): receive stage, ring, dispatcher, reassembler, reorderer, block
  adapter.

  Correspondence.  The callbacks that \<^verbatim>\<open>app_init\<close> installs become the composition of the components' operations: the
  calls a dispatcher step makes are handled by the reassembler, the frames it emits are inserted into the reorderer, the ordered
  packets that come out are pushed as blocks.  One event is a datagram on the receive thread, one iteration of the
  processing thread, or one timeout sweep of the main thread, each taken as one step.
\<close>

subsection \<open>State\<close>

record FacePipeline =
  fp_array_id :: u8
  fp_rx_stage :: RxStage
  fp_dispatcher :: Dispatcher_state
  fp_reassembler :: Reassembler_state
  fp_reorderer :: Reorderer_state
  fp_rawblock_queue :: "RawBlockQueue option"

datatype face_error = Reassembly_exception reasm_error | Push_never_returns

text \<open>Readings of the clocks during one step: dispatcher, reassembler, reorderer per inserted frame, adapter per block.\<close>

record clocks =
  ck_dispatch :: u64
  ck_reassemble :: u64
  ck_reorder :: "nat \<Rightarrow> nat \<Rightarrow> u64"
  ck_block :: "nat \<Rightarrow> u64"

definition face_pipeline_new :: "u8 \<Rightarrow> u8 \<Rightarrow> ReorderConfig \<Rightarrow> ReassemblerConfig \<Rightarrow> nat \<Rightarrow> bool \<Rightarrow> u64 \<Rightarrow> FacePipeline" where
  "face_pipeline_new array_id device_id ocfg rcfg heartbeat_depth consumer now_ns =
     \<lparr>fp_array_id = array_id, fp_rx_stage = rx_stage_new array_id device_id,
      fp_dispatcher = set_zero_copy_data_handler True (set_heartbeat_max_queue_depth heartbeat_depth (dispatcher_new True True)),
      fp_reassembler = reassembler_new rcfg True, fp_reorderer = reorderer_new ocfg True now_ns,
      fp_rawblock_queue = (if consumer then Some rawblock_queue_new else None)\<rparr>"

subsection \<open>The installed callbacks\<close>

text \<open>The frame callback of the reassembler.\<close>

definition frame_header :: "ReassembledFrame \<Rightarrow> CommonHeader" where
  "frame_header f =
     zero_common\<lparr>magic := PROTOCOL_MAGIC, protocol_version := PROTOCOL_VERSION, packet_type := packet_type_code DATA,
       source_id := rk_source_id (rf_key f), control_epoch := rk_control_epoch (rf_key f),
       sequence_number := rk_frame_counter (rf_key f), payload_len := word_of_nat (rf_total_size f),
       timestamp := rf_data_timestamp f, ext_flags := (if rf_is_complete f then 0 else 0x01)\<rparr>"

definition frame_item :: "ReassembledFrame \<Rightarrow> item" where
  "frame_item f = (frame_header f, Some (rf_data f), rf_total_size f)"

fun insert_frames :: "(nat \<Rightarrow> nat \<Rightarrow> u64) \<Rightarrow> ReassembledFrame list \<Rightarrow> Reorderer_state \<Rightarrow> Reorderer_state \<times> OrderedPacket list" where
  "insert_frames clk [] r = (r, [])"
| "insert_frames clk (f # fs) r =
     (case insert_owned (clk 0) (frame_header f) (Some (rf_data f)) (rf_total_size f) r of
        (r1, outs) \<Rightarrow> (case insert_frames (\<lambda>n. clk (Suc n)) fs r1 of (r2, outs') \<Rightarrow> (r2, outs @ outs')))"

text \<open>The output callback of the reorderer, as far as the block queue goes.\<close>

fun push_blocks :: "u8 \<Rightarrow> (nat \<Rightarrow> u64) \<Rightarrow> OrderedPacket list \<Rightarrow> RawBlockQueue option \<Rightarrow> RawBlockQueue option option" where
  "push_blocks a clk [] q = Some q"
| "push_blocks a clk (p # ps) q =
     (case adapt_and_push a (clk 0) p q of
        None \<Rightarrow> None
      | Some (q', direct) \<Rightarrow> push_blocks a (\<lambda>n. clk (Suc n)) ps q')"

definition emit_frames :: "clocks \<Rightarrow> ReassembledFrame list \<Rightarrow> FacePipeline \<Rightarrow> face_error + FacePipeline \<times> OrderedPacket list" where
  "emit_frames ck frames fp =
     (case insert_frames (ck_reorder ck) frames (fp_reorderer fp) of
        (r, outs) \<Rightarrow>
          (case push_blocks (fp_array_id fp) (ck_block ck) outs (fp_rawblock_queue fp) of
             None \<Rightarrow> Inl Push_never_returns
           | Some q \<Rightarrow> Inr (fp\<lparr>fp_reorderer := r, fp_rawblock_queue := q\<rparr>, outs)))"

text \<open>The two data handlers and the heartbeat handler of the dispatcher.\<close>

definition handle_call :: "clocks \<Rightarrow> handler_call \<Rightarrow> FacePipeline \<Rightarrow> face_error + FacePipeline \<times> OrderedPacket list" where
  "handle_call ck call fp =
     (case (case call of
              DataCall p \<Rightarrow> process_packet p (ck_reassemble ck) (fp_reassembler fp)
            | ZeroCopyCall p buf \<Rightarrow> process_packet_zero_copy p buf (ck_reassemble ck) (fp_reassembler fp)
            | HeartbeatCall p \<Rightarrow> Inr (fp_reassembler fp, [])) of
        Inl e \<Rightarrow> Inl (Reassembly_exception e)
      | Inr (r, frames) \<Rightarrow> emit_frames ck frames (fp\<lparr>fp_reassembler := r\<rparr>))"

fun handle_calls :: "clocks \<Rightarrow> handler_call list \<Rightarrow> FacePipeline \<Rightarrow> face_error + FacePipeline \<times> OrderedPacket list" where
  "handle_calls ck [] fp = Inr (fp, [])"
| "handle_calls ck (call # calls) fp =
     (case handle_call ck call fp of
        Inl e \<Rightarrow> Inl e
      | Inr (fp1, outs) \<Rightarrow>
          (case handle_calls ck calls fp1 of Inl e \<Rightarrow> Inl e | Inr (fp2, outs') \<Rightarrow> Inr (fp2, outs @ outs')))"

subsection \<open>The threads\<close>

text \<open>
  The body of the processing loop for an envelope, and for the copying drain at shutdown.  Every envelope in the ring owns
  its buffer; one without is skipped here.
\<close>

definition process_envelope :: "clocks \<Rightarrow> RxEnvelope \<Rightarrow> FacePipeline \<Rightarrow> face_error + FacePipeline \<times> OrderedPacket list" where
  "process_envelope ck env fp =
     (case env_packet_data env of
        None \<Rightarrow> Inr (fp, [])
      | Some (buf, _) \<Rightarrow>
          (case dispatch_buffer (ck_dispatch ck) (envelope_packet env) buf (fp_dispatcher fp) of
             (d, calls) \<Rightarrow> handle_calls ck calls (fp\<lparr>fp_dispatcher := d\<rparr>)))"

definition drain_envelope :: "clocks \<Rightarrow> RxEnvelope \<Rightarrow> FacePipeline \<Rightarrow> face_error + FacePipeline \<times> OrderedPacket list" where
  "drain_envelope ck env fp =
     (case dispatch (ck_dispatch ck) (envelope_packet env) (fp_dispatcher fp) of
        (d, calls) \<Rightarrow> handle_calls ck calls (fp\<lparr>fp_dispatcher := d\<rparr>))"

definition processing_iteration :: "clocks \<Rightarrow> FacePipeline \<Rightarrow> face_error + FacePipeline \<times> OrderedPacket list" where
  "processing_iteration ck fp =
     (case try_pop (rx_queue (fp_rx_stage fp)) of
        None \<Rightarrow> Inr (fp, [])
      | Some (env, q) \<Rightarrow> process_envelope ck env (fp\<lparr>fp_rx_stage := (fp_rx_stage fp)\<lparr>rx_queue := q\<rparr>\<rparr>))"

text \<open>The main thread's sweep over one face.\<close>

definition timeout_sweep :: "clocks \<Rightarrow> (nat \<Rightarrow> u64) \<Rightarrow> (nat \<Rightarrow> u64) \<Rightarrow> FacePipeline \<Rightarrow> face_error + FacePipeline \<times> OrderedPacket list" where
  "timeout_sweep ck rclk oclk fp =
     (case check_timeouts (ck_reassemble ck) rclk (fp_reassembler fp) of
        Inl e \<Rightarrow> Inl (Reassembly_exception e)
      | Inr (r, frames) \<Rightarrow>
          (case emit_frames ck frames (fp\<lparr>fp_reassembler := r\<rparr>) of
             Inl e \<Rightarrow> Inl e
           | Inr (fp1, outs) \<Rightarrow>
               (case reorder_check_timeout oclk (fp_reorderer fp1) of
                  (o1, outs1) \<Rightarrow>
                    (case push_blocks (fp_array_id fp1) (\<lambda>n. ck_block ck (n + length outs)) outs1 (fp_rawblock_queue fp1) of
                       None \<Rightarrow> Inl Push_never_returns
                     | Some q \<Rightarrow> Inr (fp1\<lparr>fp_reorderer := o1, fp_rawblock_queue := q\<rparr>, outs @ outs1)))))"

datatype face_event = Datagram ReceivedPacket | Iterate clocks | Sweep clocks "nat \<Rightarrow> u64" "nat \<Rightarrow> u64"

fun face_step :: "face_event \<Rightarrow> FacePipeline \<Rightarrow> face_error + FacePipeline \<times> OrderedPacket list" where
  "face_step (Datagram raw) fp =
     (case on_packet raw (fp_rx_stage fp) of
        None \<Rightarrow> Inl Push_never_returns
      | Some s \<Rightarrow> Inr (fp\<lparr>fp_rx_stage := s\<rparr>, []))"
| "face_step (Iterate ck) fp = processing_iteration ck fp"
| "face_step (Sweep ck rclk oclk) fp = timeout_sweep ck rclk oclk fp"

fun run_face :: "face_event list \<Rightarrow> FacePipeline \<Rightarrow> face_error + FacePipeline \<times> OrderedPacket list" where
  "run_face [] fp = Inr (fp, [])"
| "run_face (ev # evs) fp =
     (case face_step ev fp of
        Inl e \<Rightarrow> Inl e
      | Inr (fp1, outs) \<Rightarrow>
          (case run_face evs fp1 of Inl e \<Rightarrow> Inl e | Inr (fp2, outs') \<Rightarrow> Inr (fp2, outs @ outs')))"

text \<open>Shutdown: what the reassembler and the reorderer still hold is forced out.\<close>

definition shutdown_face :: "clocks \<Rightarrow> (nat \<Rightarrow> u64) \<Rightarrow> FacePipeline \<Rightarrow> face_error + FacePipeline \<times> OrderedPacket list" where
  "shutdown_face ck rclk fp =
     (case flush_all rclk (fp_reassembler fp) of
        Inl e \<Rightarrow> Inl (Reassembly_exception e)
      | Inr ((r, frames), forced_contexts) \<Rightarrow>
          (case emit_frames ck frames (fp\<lparr>fp_reassembler := r\<rparr>) of
             Inl e \<Rightarrow> Inl e
           | Inr (fp1, outs) \<Rightarrow>
               (case flush (fp_reorderer fp1) of
                  ((o1, outs1), drained_packets) \<Rightarrow>
                    (case push_blocks (fp_array_id fp1) (\<lambda>n. ck_block ck (n + length outs)) outs1 (fp_rawblock_queue fp1) of
                       None \<Rightarrow> Inl Push_never_returns
                     | Some q \<Rightarrow> Inr (fp1\<lparr>fp_reorderer := o1, fp_rawblock_queue := q\<rparr>, outs @ outs1)))))"

end
