(* ===== verification/Face_Safety.thy ===== *)
theory Face_Safety
  imports Face_Pipeline
begin

text \<open>
  The invariant of a face's pipeline: the invariants of its components, and every envelope in the ring holds a packet with its bytes.
  No interleaving of datagrams, processing iterations and timeout sweeps leaves it, raises an exception or hangs.
\<close>

definition env_ok :: "RxEnvelope \<Rightarrow> bool" where
  "env_ok env \<longleftrightarrow> env_packet_data env \<noteq> None \<and> packet_ok (envelope_packet env)"

definition block_queue_ok :: "RawBlockQueue option \<Rightarrow> bool" where
  "block_queue_ok q \<longleftrightarrow> (case q of None \<Rightarrow> True | Some q \<Rightarrow> spsc_inv q)"

definition face_inv :: "FacePipeline \<Rightarrow> bool" where
  "face_inv fp \<longleftrightarrow> rx_inv (fp_rx_stage fp) \<and> (\<forall>env \<in> set (spsc_contents (rx_queue (fp_rx_stage fp))). env_ok env) \<and>
     reasm_inv (fp_reassembler fp) \<and> reord_inv (fp_reorderer fp) \<and> block_queue_ok (fp_rawblock_queue fp)"

text \<open>A received datagram: the buffer holds at least the received length.\<close>

definition received_ok :: "ReceivedPacket \<Rightarrow> bool" where
  "received_ok raw \<longleftrightarrow> (case rp_data raw of None \<Rightarrow> True | Some (b, bs) \<Rightarrow> rp_length raw \<le> length bs)"

lemma parsed_packet_ok:
  assumes "received_ok raw" and "parse (map_option snd (rp_data raw)) (rp_length raw) = Some p"
  shows "packet_ok p" and "rp_data raw \<noteq> None"
  using assms by (auto simp: received_ok_def parse_Some_iff basic_validation_iff packet_ok_def split: option.splits)

lemma envelope_ok:
  assumes "received_ok raw" and "accepted v raw"
  shows "env_ok (envelope_of a raw)"
proof -
  obtain p where p: "parse (map_option snd (rp_data raw)) (rp_length raw) = Some p"
    using assms(2) by (auto simp: accepted_def split: option.splits)
  then have "env_packet_data (envelope_of a raw) = rp_data raw" by (simp add: envelope_of_def fill_envelope_def)
  then show ?thesis using parsed_packet_ok [OF assms(1) p] envelope_packet_of [OF p, of a] by (simp add: env_ok_def)
qed

subsection \<open>Totality of the parts\<close>

lemma process_packet_total:
  assumes "reasm_inv r" and "packet_ok p"
  shows "\<exists>r' out. process_packet p t r = Inr (r', out) \<and> reasm_inv r'"
    and "\<exists>r' out. process_packet_zero_copy p buf t r = Inr (r', out) \<and> reasm_inv r'"
  using process_packet_inv [OF assms] process_packet_dropped [of r p] assms(1)
  by (cases "extract_fragment (rsm_config r) p"; force)+

lemma insert_frames_inv:
  assumes "reord_inv r"
  shows "reord_inv (fst (insert_frames clk fs r))"
  using assms
proof (induction clk fs r rule: insert_frames.induct)
  case (2 clk f fs r)
  obtain r1 outs where i: "insert_owned (clk 0) (frame_header f) (Some (rf_data f)) (rf_total_size f) r = (r1, outs)" by fastforce
  then have "reord_inv r1"
    using insert_owned_refines [OF 2(2), of "clk 0" "frame_header f" "Some (rf_data f)" "rf_total_size f"] by auto
  from 2(1) [OF i [symmetric] this] i show ?case by (auto split: prod.splits)
qed simp

lemma push_blocks_total:
  assumes "block_queue_ok q"
  shows "\<exists>q'. push_blocks a clk ps q = Some q' \<and> block_queue_ok q'"
  using assms
proof (induction a clk ps q rule: push_blocks.induct)
  case (2 a clk p ps q)
  have "\<exists>q' direct. adapt_and_push a (clk 0) p q = Some (q', direct) \<and> block_queue_ok q'"
  proof (cases q)
    case None
    then show ?thesis by (intro exI [of _ None] exI [of _ False]) (simp add: adapt_and_push_def block_queue_ok_def)
  next
    case (Some r)
    then have inv: "spsc_inv r" using 2(2) by (simp add: block_queue_ok_def)
    obtain r' direct where d: "drop_oldest_push r (Some (adapt_block a (clk 0) p)) = Some (r', direct)"
      using drop_oldest_push_returns [OF inv] .
    moreover have "spsc_inv r'" using spsc.invar_push [OF inv, of "Some (adapt_block a (clk 0) p)"] d by (simp add: spsc_push_def)
    ultimately show ?thesis using Some by (simp add: adapt_and_push_def block_queue_ok_def)
  qed
  then obtain q' direct where q': "adapt_and_push a (clk 0) p q = Some (q', direct)" "block_queue_ok q'" by blast
  from 2(1) [OF q'(1) refl q'(2)] q'(1) show ?case by simp
qed simp

lemma emit_frames_total:
  assumes "face_inv fp"
  shows "\<exists>fp' outs. emit_frames ck frames fp = Inr (fp', outs) \<and> face_inv fp' \<and>
    fp_rx_stage fp' = fp_rx_stage fp \<and> fp_reassembler fp' = fp_reassembler fp \<and> fp_dispatcher fp' = fp_dispatcher fp"
proof -
  obtain r outs where i: "insert_frames (ck_reorder ck) frames (fp_reorderer fp) = (r, outs)" by fastforce
  have "reord_inv r" using insert_frames_inv [of "fp_reorderer fp" "ck_reorder ck" frames] assms i by (simp add: face_inv_def)
  moreover obtain q where "push_blocks (fp_array_id fp) (ck_block ck) outs (fp_rawblock_queue fp) = Some q" "block_queue_ok q"
    using push_blocks_total assms unfolding face_inv_def by blast
  ultimately show ?thesis using assms i by (simp add: emit_frames_def face_inv_def)
qed

lemma handle_call_total:
  assumes "face_inv fp" and "\<forall>p. call = DataCall p \<longrightarrow> packet_ok p" and "\<forall>p buf. call = ZeroCopyCall p buf \<longrightarrow> packet_ok p"
  shows "\<exists>fp' outs. handle_call ck call fp = Inr (fp', outs) \<and> face_inv fp' \<and> fp_rx_stage fp' = fp_rx_stage fp"
proof -
  have inv: "reasm_inv (fp_reassembler fp)" using assms(1) by (simp add: face_inv_def)
  obtain r frames where r: "(case call of
              DataCall p \<Rightarrow> process_packet p (ck_reassemble ck) (fp_reassembler fp)
            | ZeroCopyCall p buf \<Rightarrow> process_packet_zero_copy p buf (ck_reassemble ck) (fp_reassembler fp)
            | HeartbeatCall p \<Rightarrow> Inr (fp_reassembler fp, [])) = Inr (r, frames)" "reasm_inv r"
    using process_packet_total [OF inv] assms(2,3) inv by (cases call) (simp_all, blast+)
  have "face_inv (fp\<lparr>fp_reassembler := r\<rparr>)" using assms(1) r(2) by (simp add: face_inv_def)
  from emit_frames_total [OF this, of ck frames] r(1) show ?thesis by (auto simp: handle_call_def)
qed

lemma dispatch_buffer_calls:
  "snd (dispatch_buffer t p buf d) \<in> {[], [ZeroCopyCall p buf], [DataCall p], [HeartbeatCall p]}"
  by (simp add: dispatch_buffer_def dispatch_heartbeat_direct_def Let_def split: option.splits)

lemma process_envelope_total:
  assumes "face_inv fp" and "env_ok env"
  shows "\<exists>fp' outs. process_envelope ck env fp = Inr (fp', outs) \<and> face_inv fp' \<and> fp_rx_stage fp' = fp_rx_stage fp"
proof -
  obtain buf bs where b: "env_packet_data env = Some (buf, bs)" using assms(2) by (auto simp: env_ok_def)
  obtain d calls where d: "dispatch_buffer (ck_dispatch ck) (envelope_packet env) buf (fp_dispatcher fp) = (d, calls)" by fastforce
  let ?fp = "fp\<lparr>fp_dispatcher := d\<rparr>"
  have inv: "face_inv ?fp" using assms(1) by (simp add: face_inv_def)
  have ok: "packet_ok (envelope_packet env)" using assms(2) by (simp add: env_ok_def)
  have one: "\<exists>fp' outs. handle_calls ck [c] ?fp = Inr (fp', outs) \<and> face_inv fp' \<and> fp_rx_stage fp' = fp_rx_stage fp"
    if "c \<in> {ZeroCopyCall (envelope_packet env) buf, DataCall (envelope_packet env), HeartbeatCall (envelope_packet env)}" for c
    using handle_call_total [OF inv, of c ck] that ok by auto
  have "calls \<in> {[], [ZeroCopyCall (envelope_packet env) buf], [DataCall (envelope_packet env)], [HeartbeatCall (envelope_packet env)]}"
    using dispatch_buffer_calls [of "ck_dispatch ck" "envelope_packet env" buf "fp_dispatcher fp"] d by simp
  then show ?thesis using one inv b d by (auto simp: process_envelope_def simp del: handle_calls.simps(2))
qed

subsection \<open>Steps\<close>

lemma set_tl_subset: "set (tl xs) \<subseteq> set xs"
  by (cases xs) auto

lemma datagram_total:
  assumes "face_inv fp" and "received_ok raw"
  shows "\<exists>fp'. face_step (Datagram raw) fp = Inr (fp', []) \<and> face_inv fp'"
proof (cases "accepted (rx_validator (fp_rx_stage fp)) raw")
  case True
  have inv: "rx_inv (fp_rx_stage fp)" using assms(1) by (simp add: face_inv_def)
  then have q: "spsc_inv (rx_queue (fp_rx_stage fp))" by (simp add: rx_inv_def)
  from on_packet_accepted [OF inv True] obtain s' where s': "on_packet raw (fp_rx_stage fp) = Some s'" "rx_inv s'"
    "rx_queue s' = spsc_push (rx_queue (fp_rx_stage fp)) (envelope_of (rx_array_id (fp_rx_stage fp)) raw)" by blast
  have "set (spsc_contents (rx_queue s')) \<subseteq> insert (envelope_of (rx_array_id (fp_rx_stage fp)) raw) (set (spsc_contents (rx_queue (fp_rx_stage fp))))"
    unfolding s'(3) spsc.contents_push [OF q] using set_tl_subset [of "spsc_contents (rx_queue (fp_rx_stage fp))"] by auto
  then show ?thesis using s'(1,2) assms(1) envelope_ok [OF assms(2) True] by (auto simp: face_inv_def)
next
  case False
  then show ?thesis using assms(1) by (simp add: on_packet_rejected face_inv_def rx_inv_def)
qed

lemma iteration_total:
  assumes "face_inv fp"
  shows "\<exists>fp' outs. face_step (Iterate ck) fp = Inr (fp', outs) \<and> face_inv fp'"
proof (cases "try_pop (rx_queue (fp_rx_stage fp))")
  case None
  then show ?thesis using assms by (simp add: processing_iteration_def)
next
  case (Some x)
  then obtain env q where pop: "try_pop (rx_queue (fp_rx_stage fp)) = Some (env, q)" by (cases x) auto
  have inv: "spsc_inv (rx_queue (fp_rx_stage fp))" using assms by (simp add: face_inv_def rx_inv_def)
  note head = spsc.pop_head [OF inv pop] and q = spsc.invar_pop [OF inv pop] and frame = spsc.pop_frame [OF inv pop]
  let ?fp = "fp\<lparr>fp_rx_stage := (fp_rx_stage fp)\<lparr>rx_queue := q\<rparr>\<rparr>"
  have "length (sq_buffer q) = length (sq_buffer (rx_queue (fp_rx_stage fp)))"
    using frame q inv unfolding usable_capacity_def spsc_inv_def by linarith
  then have "face_inv ?fp" using assms q head by (simp add: face_inv_def rx_inv_def)
  moreover have "env_ok env" using assms head by (simp add: face_inv_def)
  ultimately show ?thesis using process_envelope_total [of ?fp env ck] pop by (auto simp: processing_iteration_def)
qed

lemma sweep_total:
  assumes "face_inv fp"
  shows "\<exists>fp' outs. face_step (Sweep ck rclk oclk) fp = Inr (fp', outs) \<and> face_inv fp'"
proof -
  have "reasm_inv (fp_reassembler fp)" using assms by (simp add: face_inv_def)
  from check_timeouts_eq [OF this, of "ck_reassemble ck" rclk] obtain r frames where
    r: "check_timeouts (ck_reassemble ck) rclk (fp_reassembler fp) = Inr (r, frames)" "reasm_inv r" by blast
  have "face_inv (fp\<lparr>fp_reassembler := r\<rparr>)" using assms r(2) by (simp add: face_inv_def)
  from emit_frames_total [OF this, of ck frames] obtain fp1 outs where
    fp1: "emit_frames ck frames (fp\<lparr>fp_reassembler := r\<rparr>) = Inr (fp1, outs)" "face_inv fp1" by blast
  obtain o1 outs1 where o1: "reorder_check_timeout oclk (fp_reorderer fp1) = (o1, outs1)" by fastforce
  have "reord_inv o1" using check_timeout_refines [of "fp_reorderer fp1" oclk] fp1(2) o1 by (auto simp: face_inv_def)
  moreover obtain q where "push_blocks (fp_array_id fp1) (\<lambda>n. ck_block ck (n + length outs)) outs1 (fp_rawblock_queue fp1) = Some q"
    "block_queue_ok q" using push_blocks_total fp1(2) unfolding face_inv_def by blast
  ultimately show ?thesis using r(1) fp1 o1 by (simp add: timeout_sweep_def face_inv_def)
qed

lemma face_pipeline_new_inv:
  assumes "oc_window_size ocfg \<le> 2 ^ 31" and "rc_max_total_frags rcfg \<le> 1024"
  shows "face_inv (face_pipeline_new a i ocfg rcfg n consumer t)"
proof -
  have "spsc_contents (rx_queue (rx_stage_new a i)) = []" by (simp add: rx_stage_new_def)
  then show ?thesis
    using assms rx_stage_new_inv [of a i] reassembler_new_inv [of rcfg True] reorderer_new_inv [of ocfg True t] rawblock_queue_new_inv(1)
    by (simp add: face_inv_def face_pipeline_new_def block_queue_ok_def)
qed

lemma run_face_total:
  assumes "face_inv fp" and "\<forall>raw. Datagram raw \<in> set evs \<longrightarrow> received_ok raw"
  shows "\<exists>fp' outs. run_face evs fp = Inr (fp', outs) \<and> face_inv fp'"
  using assms
proof (induction evs arbitrary: fp)
  case (Cons ev evs)
  obtain fp1 outs where s: "face_step ev fp = Inr (fp1, outs)" "face_inv fp1"
    using datagram_total [OF Cons.prems(1)] iteration_total [OF Cons.prems(1)] sweep_total [OF Cons.prems(1)] Cons.prems(2)
    by (cases ev) (simp_all, blast+)
  from Cons.IH [OF s(2)] Cons.prems(2) s(1) show ?case by auto
qed simp


definition sample_clocks :: clocks where
  "sample_clocks = \<lparr>ck_dispatch = 5, ck_reassemble = 5, ck_reorder = (\<lambda>_ _. 5), ck_block = (\<lambda>_. 5)\<rparr>"


end
