(* ===== verification/Face_Delivery.thy ===== *)
theory Face_Delivery
  imports Face_Safety
begin

text \<open>
  From datagrams to blocks: a frame whose fragments arrive in any order, under any interleaving of the receive and the
  processing thread, leaves the pipeline as one ordered packet and one block with its samples.
\<close>

subsection \<open>The ring between the threads\<close>

text \<open>Processing a list of envelopes, without the ring.\<close>

fun run_envelopes :: "(RxEnvelope \<times> clocks) list \<Rightarrow> FacePipeline \<Rightarrow> face_error + FacePipeline \<times> OrderedPacket list" where
  "run_envelopes [] fp = Inr (fp, [])"
| "run_envelopes ((env, ck) # es) fp =
     (case process_envelope ck env fp of
        Inl e \<Rightarrow> Inl e
      | Inr (fp1, outs) \<Rightarrow>
          (case run_envelopes es fp1 of Inl e \<Rightarrow> Inl e | Inr (fp2, outs') \<Rightarrow> Inr (fp2, outs @ outs')))"

definition on_stage :: "RxStage \<Rightarrow> 'e + FacePipeline \<times> 'o \<Rightarrow> 'e + FacePipeline \<times> 'o" where
  "on_stage s = map_sum id (apfst (\<lambda>fp. fp\<lparr>fp_rx_stage := s\<rparr>))"

lemma on_stage_simps [simp]:
  "on_stage s (Inl e) = Inl e" "on_stage s (Inr (fp, outs)) = Inr (fp\<lparr>fp_rx_stage := s\<rparr>, outs)"
  by (simp_all add: on_stage_def)

lemma emit_frames_stage: "emit_frames ck frames (fp\<lparr>fp_rx_stage := s\<rparr>) = on_stage s (emit_frames ck frames fp)"
  by (simp add: emit_frames_def split: prod.splits option.splits)

lemma handle_call_stage: "handle_call ck call (fp\<lparr>fp_rx_stage := s\<rparr>) = on_stage s (handle_call ck call fp)"
proof -
  have swap: "fp\<lparr>fp_rx_stage := s, fp_reassembler := r\<rparr> = fp\<lparr>fp_reassembler := r, fp_rx_stage := s\<rparr>" for r by simp
  show ?thesis by (cases call) (simp_all add: handle_call_def swap emit_frames_stage split: sum.splits prod.splits)
qed

lemma handle_calls_stage: "handle_calls ck calls (fp\<lparr>fp_rx_stage := s\<rparr>) = on_stage s (handle_calls ck calls fp)"
  by (induction ck calls fp rule: handle_calls.induct) (auto simp: handle_call_stage split: sum.splits prod.splits)

lemma process_envelope_stage: "process_envelope ck env (fp\<lparr>fp_rx_stage := s\<rparr>) = on_stage s (process_envelope ck env fp)"
proof -
  have swap: "fp\<lparr>fp_rx_stage := s, fp_dispatcher := d\<rparr> = fp\<lparr>fp_dispatcher := d, fp_rx_stage := s\<rparr>" for d by simp
  show ?thesis by (simp add: process_envelope_def swap handle_calls_stage split: option.splits prod.splits)
qed

lemma run_envelopes_stage: "run_envelopes es (fp\<lparr>fp_rx_stage := s\<rparr>) = on_stage s (run_envelopes es fp)"
  by (induction es fp rule: run_envelopes.induct) (auto simp: process_envelope_stage split: sum.splits prod.splits)

lemma run_envelopes_append:
  "run_envelopes (xs @ ys) fp =
     (case run_envelopes xs fp of
        Inl e \<Rightarrow> Inl e
      | Inr (fp1, outs) \<Rightarrow> (case run_envelopes ys fp1 of Inl e \<Rightarrow> Inl e | Inr (fp2, outs') \<Rightarrow> Inr (fp2, outs @ outs')))"
  by (induction xs fp rule: run_envelopes.induct) (auto split: sum.splits prod.splits)

fun datagrams :: "face_event list \<Rightarrow> ReceivedPacket list" where
  "datagrams [] = []"
| "datagrams (Datagram raw # evs) = raw # datagrams evs"
| "datagrams (_ # evs) = datagrams evs"

definition no_sweep :: "face_event list \<Rightarrow> bool" where
  "no_sweep evs \<longleftrightarrow> (\<forall>ev \<in> set evs. case ev of Sweep _ _ _ \<Rightarrow> False | _ \<Rightarrow> True)"

abbreviation ring_of :: "FacePipeline \<Rightarrow> RxEnvelope list" where
  "ring_of fp \<equiv> spsc_contents (rx_queue (fp_rx_stage fp))"

text \<open>
  What the processing thread has processed is a prefix of the old contents of the ring followed by the envelopes of the
  accepted datagrams; the rest is still in the ring.
\<close>

lemma run_face_fifo:
  assumes "face_inv fp" and "no_sweep evs" and "\<forall>raw. Datagram raw \<in> set evs \<longrightarrow> received_ok raw"
    and "length (ring_of fp) + length (datagrams evs) \<le> 65535"
    and "all = ring_of fp @ rx_envelopes (fp_rx_stage fp) (datagrams evs)"
  shows "\<exists>fp' outs cks fp''. run_face evs fp = Inr (fp', outs) \<and> face_inv fp' \<and> length cks \<le> length all \<and>
    ring_of fp' = drop (length cks) all \<and> run_envelopes (zip (take (length cks) all) cks) fp = Inr (fp'', outs) \<and>
    fp' = fp''\<lparr>fp_rx_stage := fp_rx_stage fp'\<rparr> \<and>
    rx_validator (fp_rx_stage fp') = rx_validator (fp_rx_stage fp) \<and> rx_array_id (fp_rx_stage fp') = rx_array_id (fp_rx_stage fp)"
  using assms
proof (induction evs arbitrary: fp all)
  case Nil
  then show ?case by (intro exI [of _ fp] exI [of _ "[]"] exI [of _ fp]) simp
next
  case (Cons ev evs)
  have sweep: "no_sweep evs" using Cons.prems(2) by (simp add: no_sweep_def)
  show ?case
  proof (cases ev)
    case (Datagram raw)
    let ?s = "fp_rx_stage fp"
    have rx: "rx_inv ?s" and q: "spsc_inv (rx_queue ?s)" using Cons.prems(1) by (simp_all add: face_inv_def rx_inv_def)
    obtain s1 where s1: "on_packet raw ?s = Some s1" "rx_validator s1 = rx_validator ?s" "rx_array_id s1 = rx_array_id ?s"
      "spsc_contents (rx_queue s1) = ring_of fp @ rx_envelopes ?s [raw]"
    proof (cases "accepted (rx_validator ?s) raw")
      case True
      from on_packet_accepted [OF rx True] obtain s1 where "on_packet raw ?s = Some s1" "rx_validator s1 = rx_validator ?s"
        "rx_array_id s1 = rx_array_id ?s" "rx_queue s1 = spsc_push (rx_queue ?s) (envelope_of (rx_array_id ?s) raw)" by blast
      then show thesis
        using that [of s1] True spsc.contents_push [OF q] usable_rx [OF rx] Cons.prems(4) Datagram by simp
    next
      case False
      then show thesis using that on_packet_rejected [OF False] by simp
    qed
    let ?fp = "fp\<lparr>fp_rx_stage := s1\<rparr>"
    have step: "face_step ev fp = Inr (?fp, [])" using s1(1) Datagram by simp
    have inv: "face_inv ?fp" using datagram_total [OF Cons.prems(1), of raw] Cons.prems(3) step Datagram by auto
    have all: "all = ring_of ?fp @ rx_envelopes (fp_rx_stage ?fp) (datagrams evs)"
      using Cons.prems(5) s1 Datagram by simp
    have len: "length (ring_of ?fp) + length (datagrams evs) \<le> 65535"
      using Cons.prems(4) s1(4) Datagram by (simp split: if_splits)
    from Cons.IH [OF inv sweep _ len all] Cons.prems(3) obtain fp' outs cks fp'' where IH:
      "run_face evs ?fp = Inr (fp', outs)" "face_inv fp'" "length cks \<le> length all" "ring_of fp' = drop (length cks) all"
      "run_envelopes (zip (take (length cks) all) cks) ?fp = Inr (fp'', outs)" "fp' = fp''\<lparr>fp_rx_stage := fp_rx_stage fp'\<rparr>"
      "rx_validator (fp_rx_stage fp') = rx_validator s1" "rx_array_id (fp_rx_stage fp') = rx_array_id s1" by auto
    from IH(5) obtain g where g: "run_envelopes (zip (take (length cks) all) cks) fp = Inr (g, outs)" "fp'' = g\<lparr>fp_rx_stage := s1\<rparr>"
      by (cases "run_envelopes (zip (take (length cks) all) cks) fp") (auto simp: run_envelopes_stage)
    then have "fp' = g\<lparr>fp_rx_stage := fp_rx_stage fp'\<rparr>" using IH(6) by simp
    then show ?thesis using step IH g s1(2,3) by (intro exI [of _ fp'] exI [of _ outs] exI [of _ cks] exI [of _ g]) simp
  next
    case (Iterate ck)
    show ?thesis
    proof (cases "try_pop (rx_queue (fp_rx_stage fp))")
      case None
      then have "face_step ev fp = Inr (fp, [])" using Iterate by (simp add: processing_iteration_def)
      then have run: "run_face (ev # evs) fp = run_face evs fp" by (simp split: sum.splits prod.splits)
      have dg: "datagrams (ev # evs) = datagrams evs" using Iterate by simp
      show ?thesis
        unfolding run by (rule Cons.IH [OF Cons.prems(1) sweep _ Cons.prems(4,5) [unfolded dg]]) (use Cons.prems(3) in simp)
    next
      case (Some x)
      then obtain env q where pop: "try_pop (rx_queue (fp_rx_stage fp)) = Some (env, q)" by (cases x) auto
      have qi: "spsc_inv (rx_queue (fp_rx_stage fp))" using Cons.prems(1) by (simp add: face_inv_def rx_inv_def)
      note head = spsc.pop_head [OF qi pop]
      let ?s = "(fp_rx_stage fp)\<lparr>rx_queue := q\<rparr>"
      obtain fp1 outs1 where step: "face_step ev fp = Inr (fp1, outs1)" "face_inv fp1"
        using iteration_total [OF Cons.prems(1), of ck] Iterate by auto
      have pe: "process_envelope ck env (fp\<lparr>fp_rx_stage := ?s\<rparr>) = Inr (fp1, outs1)"
        using step(1) pop Iterate by (simp add: processing_iteration_def)
      then obtain g1 where g1: "process_envelope ck env fp = Inr (g1, outs1)" "fp1 = g1\<lparr>fp_rx_stage := ?s\<rparr>"
        by (cases "process_envelope ck env fp") (auto simp: process_envelope_stage)
      have stage: "fp_rx_stage fp1 = ?s" using g1(2) by simp
      have all: "all = env # (ring_of fp1 @ rx_envelopes (fp_rx_stage fp1) (datagrams evs))"
        using Cons.prems(5) head stage Iterate by simp
      have len: "length (ring_of fp1) + length (datagrams evs) \<le> 65535" using Cons.prems(4) head stage Iterate by simp
      from Cons.IH [OF step(2) sweep _ len refl] Cons.prems(3) obtain fp' outs cks fp'' where IH:
        "run_face evs fp1 = Inr (fp', outs)" "face_inv fp'" "length cks \<le> length (tl all)" "ring_of fp' = drop (length cks) (tl all)"
        "run_envelopes (zip (take (length cks) (tl all)) cks) fp1 = Inr (fp'', outs)" "fp' = fp''\<lparr>fp_rx_stage := fp_rx_stage fp'\<rparr>"
        "rx_validator (fp_rx_stage fp') = rx_validator (fp_rx_stage fp)" "rx_array_id (fp_rx_stage fp') = rx_array_id (fp_rx_stage fp)"
        using all stage by auto
      from IH(5) obtain g where g: "run_envelopes (zip (take (length cks) (tl all)) cks) g1 = Inr (g, outs)" "fp'' = g\<lparr>fp_rx_stage := ?s\<rparr>"
        unfolding g1(2) by (cases "run_envelopes (zip (take (length cks) (tl all)) cks) g1") (auto simp: run_envelopes_stage)
      have "fp' = g\<lparr>fp_rx_stage := fp_rx_stage fp'\<rparr>" using IH(6) g(2) by simp
      moreover have "run_envelopes (zip (take (length (ck # cks)) all) (ck # cks)) fp = Inr (g, outs1 @ outs)"
        using g1(1) g(1) all by simp
      moreover have "all = env # tl all" using all by simp
      ultimately show ?thesis
        using step(1) IH(1-4,7,8)
        by (intro exI [of _ fp'] exI [of _ "outs1 @ outs"] exI [of _ "ck # cks"] exI [of _ g]) (cases all; simp)
    qed
  next
    case (Sweep ck rclk oclk)
    then show ?thesis using Cons.prems(2) by (simp add: no_sweep_def)
  qed
qed

subsection \<open>Runs of data packets\<close>

lemma insert_frames_cong: "(\<And>n. n < length fs \<Longrightarrow> clk n = clk' n) \<Longrightarrow> insert_frames clk fs r = insert_frames clk' fs r"
proof (induction fs arbitrary: clk clk' r)
  case (Cons f fs)
  have "clk 0 = clk' 0" using Cons.prems [of 0] by simp
  moreover have "insert_frames (\<lambda>n. clk (Suc n)) fs r1 = insert_frames (\<lambda>n. clk' (Suc n)) fs r1" for r1
    by (rule Cons.IH) (simp add: Cons.prems)
  ultimately show ?case by simp
qed simp

lemma insert_frames_append:
  "insert_frames clk (xs @ ys) r =
     (case insert_frames clk xs r of
        (r1, outs1) \<Rightarrow> (case insert_frames (\<lambda>n. clk (n + length xs)) ys r1 of (r2, outs2) \<Rightarrow> (r2, outs1 @ outs2)))"
  by (induction clk xs r rule: insert_frames.induct) (auto split: prod.splits)

lemma insert_frames_join:
  assumes "insert_frames clk1 xs r = (r1, outs1)" and "insert_frames clk2 ys r1 = (r2, outs2)"
  shows "\<exists>clk. insert_frames clk (xs @ ys) r = (r2, outs1 @ outs2)"
proof -
  let ?clk = "\<lambda>n. if n < length xs then clk1 n else clk2 (n - length xs)"
  have "insert_frames ?clk xs r = insert_frames clk1 xs r" by (rule insert_frames_cong) simp
  then show ?thesis using assms by (intro exI [of _ ?clk]) (simp add: insert_frames_append)
qed

lemma push_blocks_cong: "(\<And>n. n < length ps \<Longrightarrow> clk n = clk' n) \<Longrightarrow> push_blocks a clk ps q = push_blocks a clk' ps q"
proof (induction ps arbitrary: clk clk' q)
  case (Cons p ps)
  have "clk 0 = clk' 0" using Cons.prems [of 0] by simp
  moreover have "push_blocks a (\<lambda>n. clk (Suc n)) ps q1 = push_blocks a (\<lambda>n. clk' (Suc n)) ps q1" for q1
    by (rule Cons.IH) (simp add: Cons.prems)
  ultimately show ?case by (simp split: option.splits)
qed simp

lemma push_blocks_append:
  "push_blocks a clk (xs @ ys) q =
     (case push_blocks a clk xs q of None \<Rightarrow> None | Some q1 \<Rightarrow> push_blocks a (\<lambda>n. clk (n + length xs)) ys q1)"
  by (induction a clk xs q rule: push_blocks.induct) (auto split: option.splits)

lemma push_blocks_join:
  assumes "push_blocks a clk1 xs q = Some q1" and "push_blocks a clk2 ys q1 = Some q2"
  shows "\<exists>clk. push_blocks a clk (xs @ ys) q = Some q2"
proof -
  let ?clk = "\<lambda>n. if n < length xs then clk1 n else clk2 (n - length xs)"
  have "push_blocks a ?clk xs q = push_blocks a clk1 xs q" by (rule push_blocks_cong) simp
  then show ?thesis using assms by (intro exI [of _ ?clk]) (simp add: push_blocks_append)
qed

definition data_envelope :: "RxEnvelope \<Rightarrow> bool" where
  "data_envelope env \<longleftrightarrow> env_packet_data env \<noteq> None \<and> get_packet_type (env_header env) = DATA"

abbreviation fragment_call :: "RxEnvelope \<times> clocks \<Rightarrow> ParsedPacket \<times> nat \<times> u64" where
  "fragment_call e \<equiv> (envelope_packet (fst e), fst (the (env_packet_data (fst e))), ck_reassemble (snd e))"

lemma data_envelope_step:
  assumes "data_envelope env" and "dp_zero_copy_data_handler (fp_dispatcher fp)"
  shows "process_envelope ck env fp =
    (case process_packet_zero_copy (envelope_packet env) (fst (the (env_packet_data env))) (ck_reassemble ck) (fp_reassembler fp) of
       Inl e \<Rightarrow> Inl (Reassembly_exception e)
     | Inr (r, frames) \<Rightarrow> emit_frames ck frames (fp\<lparr>fp_dispatcher := count_data (fp_dispatcher fp), fp_reassembler := r\<rparr>))"
proof -
  have "get_packet_type (header (envelope_packet env)) = DATA" using assms(1) by (simp add: envelope_packet_def data_envelope_def)
  then have "dispatch_buffer t (envelope_packet env) buf (fp_dispatcher fp) =
      (count_data (fp_dispatcher fp), [ZeroCopyCall (envelope_packet env) buf])" for t buf
    using assms(2) by (simp add: dispatch_buffer_def Let_def)
  moreover obtain buf bs where "env_packet_data env = Some (buf, bs)" using assms(1) by (auto simp: data_envelope_def)
  ultimately show ?thesis
    by (simp add: process_envelope_def handle_call_def split: sum.splits prod.splits)
qed

lemma emit_frames_Inr:
  assumes "emit_frames ck frames fp = Inr (fp', outs)"
  shows "insert_frames (ck_reorder ck) frames (fp_reorderer fp) = (fp_reorderer fp', outs)"
    and "push_blocks (fp_array_id fp) (ck_block ck) outs (fp_rawblock_queue fp) = Some (fp_rawblock_queue fp')"
    and "fp_array_id fp' = fp_array_id fp" "fp_dispatcher fp' = fp_dispatcher fp" "fp_reassembler fp' = fp_reassembler fp"
  using assms by (auto simp: emit_frames_def split: prod.splits option.splits)

lemma data_run:
  assumes "\<forall>(env, ck) \<in> set es. data_envelope env" and "dp_zero_copy_data_handler (fp_dispatcher fp)"
    and "run_packets_zero_copy (map fragment_call es) (fp_reassembler fp) = Inr (r', frames)"
    and "run_envelopes es fp = Inr (fp', outs)"
  shows "fp_reassembler fp' = r' \<and> (\<exists>clk. insert_frames clk frames (fp_reorderer fp) = (fp_reorderer fp', outs)) \<and>
    (\<exists>clk. push_blocks (fp_array_id fp) clk outs (fp_rawblock_queue fp) = Some (fp_rawblock_queue fp'))"
  using assms
proof (induction es arbitrary: fp frames outs)
  case (Cons e es)
  obtain env ck where e: "e = (env, ck)" by (cases e)
  obtain r1 frames1 where r1: "process_packet_zero_copy (envelope_packet env) (fst (the (env_packet_data env))) (ck_reassemble ck)
      (fp_reassembler fp) = Inr (r1, frames1)" using Cons.prems(3) e by (auto split: sum.splits prod.splits)
  then obtain frames2 where r2: "run_packets_zero_copy (map fragment_call es) r1 = Inr (r', frames2)" "frames = frames1 @ frames2"
    using Cons.prems(3) e by (cases "run_packets_zero_copy (map fragment_call es) r1") auto
  let ?fp = "fp\<lparr>fp_dispatcher := count_data (fp_dispatcher fp), fp_reassembler := r1\<rparr>"
  have step: "process_envelope ck env fp = emit_frames ck frames1 ?fp"
    using data_envelope_step [of env fp ck] Cons.prems(1,2) e r1 by simp
  obtain fp1 outs1 outs2 where o: "emit_frames ck frames1 ?fp = Inr (fp1, outs1)" "run_envelopes es fp1 = Inr (fp', outs2)"
    "outs = outs1 @ outs2" using Cons.prems(4) step e by (auto split: sum.splits prod.splits)
  note f = emit_frames_Inr [OF o(1)]
  have h: "dp_zero_copy_data_handler (fp_dispatcher fp1)" using f(4) Cons.prems(2) by (simp add: count_data_def)
  have "run_packets_zero_copy (map fragment_call es) (fp_reassembler fp1) = Inr (r', frames2)" using r2(1) f(5) by simp
  from Cons.IH [OF _ h this o(2)] Cons.prems(1) obtain clk2 bclk2 where IH: "fp_reassembler fp' = r'"
    "insert_frames clk2 frames2 (fp_reorderer fp1) = (fp_reorderer fp', outs2)"
    "push_blocks (fp_array_id fp1) bclk2 outs2 (fp_rawblock_queue fp1) = Some (fp_rawblock_queue fp')" by auto
  have "insert_frames (ck_reorder ck) frames1 (fp_reorderer fp) = (fp_reorderer fp1, outs1)"
    "push_blocks (fp_array_id fp) (ck_block ck) outs1 (fp_rawblock_queue fp) = Some (fp_rawblock_queue fp1)" using f by simp_all
  moreover have "fp_array_id fp1 = fp_array_id fp" using f(3) by simp
  ultimately show ?case
    using insert_frames_join [OF _ IH(2), of "ck_reorder ck" frames1 "fp_reorderer fp" outs1] IH(1)
      push_blocks_join [OF _ IH(3), of "ck_block ck" outs1 "fp_rawblock_queue fp"]
    by (simp add: r2(2) o(3))
qed auto

end
