(* ===== verification/Face_Frame.thy ===== *)
theory Face_Frame
  imports Face_Delivery
begin

text \<open>
  One frame through the whole pipeline of a face: the datagrams of its fragments, in any order and any interleaving with
  the processing thread, come out as one ordered packet and one block with the samples of the frame.
\<close>

subsection \<open>Emptying the ring\<close>

lemma iteration_ring:
  assumes "face_inv fp" and "face_step (Iterate ck) fp = Inr (fp', outs)"
  shows "ring_of fp' = tl (ring_of fp)"
proof (cases "try_pop (rx_queue (fp_rx_stage fp))")
  case None
  moreover have "spsc_inv (rx_queue (fp_rx_stage fp))" using assms(1) by (simp add: face_inv_def rx_inv_def)
  ultimately have "ring_of fp = []" using try_pop_None_iff by blast
  then show ?thesis using assms(2) None by (simp add: processing_iteration_def)
next
  case (Some x)
  then obtain env q where pop: "try_pop (rx_queue (fp_rx_stage fp)) = Some (env, q)" by (cases x) auto
  have inv: "spsc_inv (rx_queue (fp_rx_stage fp))" using assms(1) by (simp add: face_inv_def rx_inv_def)
  let ?s = "(fp_rx_stage fp)\<lparr>rx_queue := q\<rparr>"
  have "process_envelope ck env (fp\<lparr>fp_rx_stage := ?s\<rparr>) = Inr (fp', outs)" using assms(2) pop by (simp add: processing_iteration_def)
  then have "fp_rx_stage fp' = ?s" by (cases "process_envelope ck env fp") (auto simp: process_envelope_stage)
  then show ?thesis using spsc.pop_head [OF inv pop] by simp
qed

lemma iterations_ring:
  assumes "face_inv fp" and "run_face (map Iterate cks) fp = Inr (fp', outs)"
  shows "ring_of fp' = drop (length cks) (ring_of fp)"
  using assms
proof (induction cks arbitrary: fp outs)
  case (Cons ck cks)
  obtain fp1 outs1 where 1: "face_step (Iterate ck) fp = Inr (fp1, outs1)" "face_inv fp1"
    using iteration_total [OF Cons.prems(1)] by blast
  then obtain outs2 where "run_face (map Iterate cks) fp1 = Inr (fp', outs2)"
    using Cons.prems(2) by (cases "run_face (map Iterate cks) fp1") auto
  from Cons.IH [OF 1(2) this] iteration_ring [OF Cons.prems(1) 1(1)] show ?case by (simp add: drop_Suc)
qed simp

lemma run_face_append:
  "run_face (xs @ ys) fp =
     (case run_face xs fp of
        Inl e \<Rightarrow> Inl e
      | Inr (fp1, outs) \<Rightarrow> (case run_face ys fp1 of Inl e \<Rightarrow> Inl e | Inr (fp2, outs') \<Rightarrow> Inr (fp2, outs @ outs')))"
  by (induction xs fp rule: run_face.induct) (auto split: sum.splits prod.splits)

lemma datagrams_append [simp]: "datagrams (xs @ ys) = datagrams xs @ datagrams ys"
  by (induction xs rule: datagrams.induct) auto

lemma datagrams_iterate [simp]: "datagrams (map Iterate cks) = []"
  by (induction cks) auto

text \<open>Enough iterations at the end: every accepted datagram has been processed, in arrival order.\<close>

lemma run_face_drained:
  assumes "face_inv fp" and "ring_of fp = []" and "no_sweep evs" and "\<forall>raw. Datagram raw \<in> set evs \<longrightarrow> received_ok raw"
    and "length (datagrams evs) \<le> 65535" and "length (datagrams evs) \<le> length cks"
  shows "\<exists>fp' outs cs fp''. run_face (evs @ map Iterate cks) fp = Inr (fp', outs) \<and> face_inv fp' \<and> ring_of fp' = [] \<and>
    length cs = length (rx_envelopes (fp_rx_stage fp) (datagrams evs)) \<and>
    run_envelopes (zip (rx_envelopes (fp_rx_stage fp) (datagrams evs)) cs) fp = Inr (fp'', outs) \<and>
    fp' = fp''\<lparr>fp_rx_stage := fp_rx_stage fp'\<rparr>"
proof -
  let ?all = "rx_envelopes (fp_rx_stage fp) (datagrams evs)"
  have ns: "no_sweep (evs @ map Iterate cks)" using assms(3) by (auto simp: no_sweep_def)
  from run_face_fifo [OF assms(1) ns _ _ refl] assms(2,4,5) obtain fp' outs cs fp'' where f:
    "run_face (evs @ map Iterate cks) fp = Inr (fp', outs)" "face_inv fp'" "length cs \<le> length ?all" "ring_of fp' = drop (length cs) ?all"
    "run_envelopes (zip (take (length cs) ?all) cs) fp = Inr (fp'', outs)" "fp' = fp''\<lparr>fp_rx_stage := fp_rx_stage fp'\<rparr>"
    by auto
  from run_face_fifo [OF assms(1,3,4) _ refl] assms(2,5) obtain fp1 outs1 cs1 where
    g: "run_face evs fp = Inr (fp1, outs1)" "face_inv fp1" "ring_of fp1 = drop (length (cs1 :: clocks list)) ?all" by (simp, blast)
  then obtain outs2 where "run_face (map Iterate cks) fp1 = Inr (fp', outs2)"
    using f(1) by (cases "run_face (map Iterate cks) fp1") (auto simp: run_face_append)
  from iterations_ring [OF g(2) this] g(3) have "ring_of fp' = []"
    using assms(6) length_filter_le [of "accepted (rx_validator (fp_rx_stage fp))" "datagrams evs"] by simp
  moreover have "length cs = length ?all" using calculation f(3,4) by simp
  ultimately show ?thesis using f by (intro exI [of _ fp'] exI [of _ outs] exI [of _ cs] exI [of _ fp'']) simp
qed

subsection \<open>The datagrams of a frame\<close>

definition fragment_received :: "frame_spec \<Rightarrow> nat \<Rightarrow> ReceivedPacket \<Rightarrow> bool" where
  "fragment_received F i raw \<longleftrightarrow>
     map_option snd (rp_data raw) = Some (fragment_datagram F i) \<and> rp_length raw = length (fragment_datagram F i)"

lemma fragment_received_facts:
  assumes "fs_sendable F" and "i < length (fs_payloads F)" and "fragment_received F i raw" and "scope v = DATA_AND_HEARTBEAT"
  shows "accepted v raw" and "received_ok raw"
    and "envelope_packet (envelope_of a raw) = fragment_packet F i" and "data_envelope (envelope_of a raw)"
proof -
  have p: "parse (map_option snd (rp_data raw)) (rp_length raw) = Some (fragment_packet F i)"
    using parse_fragment_datagram [OF assms(1,2)] assms(3) by (auto simp: fragment_received_def)
  have t: "get_packet_type (fragment_common F i) = DATA"
    by (simp add: fragment_common_def sample_header_def zero_common_def get_packet_type_def)
  have "validate v (fragment_packet F i) = VR_OK"
    using p payload_len_fragment_common [OF assms(1,2)] t
    by (simp add: validate_OK_iff fragment_packet_def check_dest_id_def)
      (simp add: fragment_common_def sample_header_def is_valid_magic_def is_valid_version_def const_defs)
  then show "accepted v raw" using p by (simp add: accepted_def)
  show "received_ok raw" using assms(3) by (cases "rp_data raw") (auto simp: fragment_received_def received_ok_def)
  show env: "envelope_packet (envelope_of a raw) = fragment_packet F i" by (rule envelope_packet_of [OF p])
  have "env_packet_data (envelope_of a raw) \<noteq> None"
    using p assms(3) by (cases "rp_data raw") (auto simp: envelope_of_def fill_envelope_def fragment_received_def)
  moreover have "env_header (envelope_of a raw) = fragment_common F i"
    using p by (simp add: envelope_of_def fill_envelope_def fragment_packet_def)
  ultimately show "data_envelope (envelope_of a raw)" using t by (simp add: data_envelope_def)
qed


subsection \<open>The frame of the datagrams\<close>

lemma run_packets_copying_eq: "run_packets_copying pts r = run_packets (map (\<lambda>(p, b, t). (p, t)) pts) r"
  by (induction pts r rule: run_packets_copying.induct) (auto split: sum.splits prod.splits)

lemma run_packets_keys:
  assumes "reasm_inv r" and "\<forall>(p, t) \<in> set pts. packet_ok p \<and> fragment_key (rsm_config r) p = Some k"
    and "run_packets pts r = Inr (r', outs)"
  shows "\<forall>frame \<in> set outs. rf_key frame = k"
  using assms
proof (induction pts arbitrary: r outs)
  case (Cons pt pts)
  obtain p t where pt: "pt = (p, t)" by (cases pt)
  then obtain f where f: "extract_fragment (rsm_config r) p = Some f" "extract_key (header p) (fr_specific f) = k" "packet_ok p"
    using Cons.prems(2) by (auto simp: fragment_key_def)
  from process_packet_inv(1) [OF Cons.prems(1) f(3,1), of t] f(2) obtain r1 out where
    r1: "process_packet p t r = Inr (r1, out)" "reasm_inv r1" "touches_only k r r1 out" by blast
  then obtain outs' where o: "run_packets pts r1 = Inr (r', outs')" "outs = out @ outs'"
    using Cons.prems(3) pt by (cases "run_packets pts r1") auto
  have "\<forall>frame \<in> set outs'. rf_key frame = k"
    by (rule Cons.IH [OF r1(2) _ o(1)]) (use Cons.prems(2) r1(3) in \<open>auto simp: touches_only_def\<close>)
  then show ?case using r1(3) o(2) by (auto simp: touches_only_def)
qed simp

lemma fragments_zero_copy:
  assumes "rc_max_total_frags cfg \<le> 1024" and "0 < rc_max_contexts cfg" and "fs_wf cfg F" and "fs_sendable F"
    and "map fst its = js @ [j]" and "j \<notin> set js" and "set (js @ [j]) = {..<length (fs_payloads F)}"
  shows "\<exists>r'. run_packets_zero_copy (map (\<lambda>(i, b, t). (fragment_packet F i, b, t)) its) (reassembler_new cfg True) = Inr (r', [fs_frame F])"
proof -
  let ?r = "reassembler_new cfg True" and ?its = "map (\<lambda>(i, b, t). (i, t)) its"
  let ?pts = "map (apfst (fragment_packet F)) ?its"
  have cfg: "rsm_config ?r = cfg" "rsm_callback ?r" "rsm_contexts ?r = []" by (simp_all add: reassembler_new_def)
  have inv: "reasm_inv ?r" using reassembler_new_inv [OF assms(1)] .
  have fst_its: "map fst ?its = js @ [j]" using assms(5) by (simp add: comp_def split_def)
  have idx: "\<forall>(i, t) \<in> set ?its. i < length (fs_payloads F)"
  proof -
    have "fst ` set ?its = {..<length (fs_payloads F)}" using fst_its assms(7) by (metis list.set_map)
    then show ?thesis by (force simp: image_iff)
  qed
  note pf = packets_for_fragments [OF assms(3,4) idx]
  have keys: "packet_ok p \<and> fragment_key cfg p = Some (fs_key F)" if "(p, t) \<in> set ?pts" for p t
  proof -
    from that have "(p, t) \<in> apfst (fragment_packet F) ` set ?its" by (simp only: list.set_map)
    then obtain x where x: "(p, t) = apfst (fragment_packet F) x" "x \<in> set ?its" by blast
    then obtain i where i: "p = fragment_packet F i" "(i, t) \<in> set ?its" by (cases x) simp
    then have "i < length (fs_payloads F)" using idx by auto
    then show ?thesis
      using i(1) packet_ok_fragment_packet [OF assms(4)] carries_key [OF carries_fragment_packet [OF assms(3,4)]] by simp
  qed
  obtain p t pts where c: "?pts = (p, t) # pts" using fst_its by (cases ?pts) auto
  have key: "fragment_key cfg p = Some (fs_key F)" using keys [of p t] unfolding c by simp
  have "\<exists>r' outs. run_packets ((p, t) # pts) ?r = Inr (r', outs) \<and> reasm_inv r' \<and> map_of (rsm_contexts r') (fs_key F) = None \<and>
      filter (\<lambda>frame. rf_key frame = fs_key F) outs = (if rsm_callback ?r then [fs_frame F] else [])"
    by (rule frame_from_fragments [where js = js and j = j])
       (use inv assms cfg key_live_new pf [unfolded c] key fst_its in simp_all)
  then obtain r' outs where run: "run_packets ?pts ?r = Inr (r', outs)" "filter (\<lambda>frame. rf_key frame = fs_key F) outs = [fs_frame F]"
    using cfg(2) c by auto
  have "\<forall>frame \<in> set outs. rf_key frame = fs_key F"
    by (rule run_packets_keys [OF inv _ run(1)]) (simp only: cfg(1) Ball_def split_paired_All prod.case, use keys in blast)
  then have "outs = [fs_frame F]" using run(2) by (simp add: filter_id_conv)
  then have cp: "run_packets_copying (map (\<lambda>(i, b, t). (fragment_packet F i, b, t)) its) ?r = Inr (r', [fs_frame F])"
    using run(1) by (simp add: run_packets_copying_eq comp_def split_def apfst_def map_prod_def)
  from zero_copy_runs [OF refl, of "map (\<lambda>(i, b, t). (fragment_packet F i, b, t)) its" ?r] cp show ?thesis
    by (cases "run_packets_zero_copy (map (\<lambda>(i, b, t). (fragment_packet F i, b, t)) its) ?r") (auto simp: norm_result_def)
qed

text \<open>The first frame into an empty reorderer leaves it at once.\<close>

lemma spec_drain_empty [simp]: "spec_drain n e Map.empty = (e, Map.empty, [])"
  by (cases n) simp_all

lemma first_frame_delivered:
  assumes "oc_window_size ocfg \<le> 2 ^ 31" and "insert_frames clk [f] (reorderer_new ocfg True t) = (r, outs)"
  shows "outs = [item_out (frame_item f) (rk_frame_counter (rf_key f))]"
proof -
  let ?r = "reorderer_new ocfg True t"
  have cb: "ord_callback ?r" by (simp add: reorderer_new_def Let_def)
  from insert_owned_refines [OF reorderer_new_inv(1) [OF assms(1)], of "clk 0" "frame_header f" "Some (rf_data f)" "rf_total_size f" True t]
  obtain r' outs' where i: "insert_owned (clk 0) (frame_header f) (Some (rf_data f)) (rf_total_size f) ?r = (r', outs')"
    "spec_insert (length (ord_ring_slots ?r)) (frame_item f) None = (window_of r', outs')"
    using cb reorderer_new_inv(2) [OF assms(1), of True t] by (auto simp: frame_item_def)
  have "sequence_number (frame_header f) = rk_frame_counter (rf_key f)" by (simp add: frame_header_def)
  then have "outs' = [item_out (frame_item f) (rk_frame_counter (rf_key f))]"
    using i(2) by (simp add: spec_insert_def frame_item_def Let_def)
  then show ?thesis using assms(2) i(1) by simp
qed


subsection \<open>Properties\<close>

abbreviation frame_packet :: "frame_spec \<Rightarrow> OrderedPacket" where
  "frame_packet F \<equiv> item_out (frame_item (fs_frame F)) (rk_frame_counter (fs_key F))"

lemma frame_packet_fields:
  "payload_ok (frame_packet F)" "op_sequence_number (frame_packet F) = rk_frame_counter (fs_key F)"
  "op_owned_payload (frame_packet F) = Some (concat (fs_payloads F))" "op_payload_size (frame_packet F) = length (concat (fs_payloads F))"
  "timestamp (header (op_packet (frame_packet F))) = fs_timestamp F" "\<not> op_is_incomplete_frame (frame_packet F)"
  "\<not> op_is_zero_filled (frame_packet F)"
  by (simp_all add: payload_ok_def item_out_def frame_item_def ordered_packet_def fs_frame_def frame_header_def)

lemma first_block:
  assumes "length (concat (fs_payloads F)) \<le> RAW_BLOCK_PAYLOAD_SIZE"
    and "push_blocks a clk [frame_packet F] (Some rawblock_queue_new) = Some q0"
  shows "\<exists>q b. q0 = Some q \<and> spsc_contents q = [Some b] \<and> rb_cpi_seq b = rk_frame_counter (fs_key F) \<and> rb_array_id b = a \<and>
    take (unat (rb_data_size b)) (rb_payload b) = concat (fs_payloads F) \<and> \<not> has_flag INCOMPLETE_FRAME b"
proof -
  let ?b = "adapt_block a (clk 0) (frame_packet F)"
  have qi: "spsc_inv rawblock_queue_new" "length (spsc_contents rawblock_queue_new) < usable_capacity rawblock_queue_new"
    using rawblock_queue_new_inv by simp_all
  obtain q direct where q: "drop_oldest_push rawblock_queue_new (Some ?b) = Some (q, direct)" using drop_oldest_push_returns [OF qi(1)] .
  then have "q = spsc_push rawblock_queue_new (Some ?b)" by (simp add: spsc_push_def)
  then have "spsc_contents q = [Some ?b]" using spsc_push_cases [OF qi(1), of "Some ?b"] qi(2) rawblock_queue_new_inv(2) by simp
  moreover have "q0 = Some q" using assms(2) q by (simp add: adapt_and_push_def)
  moreover have "rb_cpi_seq ?b = rk_frame_counter (fs_key F)" "rb_array_id ?b = a"
    using frame_packet_fields(2) [of F] by (simp_all add: adapt_block_def Let_def)
  moreover note facts = adapt_block_facts [OF frame_packet_fields(1) [of F], of a "clk 0"]
  moreover have "take (unat (rb_data_size ?b)) (rb_payload ?b) = concat (fs_payloads F)" "\<not> has_flag INCOMPLETE_FRAME ?b"
    using facts(2,4) assms(1) unfolding frame_packet_fields(3,4) by (simp_all add: frame_packet_fields(6,7))
  ultimately show ?thesis by blast
qed

lemma fragments_received:
  assumes "fs_sendable F" and "scope v = DATA_AND_HEARTBEAT" and "list_all2 (fragment_received F) is raws" and "set is = {..<length (fs_payloads F)}"
  shows "filter (accepted v) raws = raws" and "raw \<in> set raws \<Longrightarrow> received_ok raw"
    and "\<forall>(env, ck) \<in> set (zip (map (envelope_of a) raws) cs). data_envelope env"
    and "length cs = length raws \<Longrightarrow> map fragment_call (zip (map (envelope_of a) raws) cs) =
      map (\<lambda>(i, b, t). (fragment_packet F i, b, t))
        (zip is (zip (map (\<lambda>raw. fst (the (env_packet_data (envelope_of a raw)))) raws) (map ck_reassemble cs)))"
proof -
  have len: "length is = length raws" using assms(3) by (rule list_all2_lengthD)
  have at: "fragment_received F (is ! k) (raws ! k)" "is ! k < length (fs_payloads F)" if "k < length raws" for k
    using list_all2_nthD2 [OF assms(3) that] nth_mem [of k "is"] that len assms(4) by (simp_all only: lessThan_iff)
  have frag: "\<exists>i < length (fs_payloads F). fragment_received F i raw" if "raw \<in> set raws" for raw
    using that at by (metis in_set_conv_nth)
  note ff = fragment_received_facts [OF assms(1) _ _ assms(2)]
  show "filter (accepted v) raws = raws" using frag ff(1) by (force simp: filter_id_conv)
  show "received_ok raw" if "raw \<in> set raws" using frag [OF that] ff(2) by blast
  show "\<forall>(env, ck) \<in> set (zip (map (envelope_of a) raws) cs). data_envelope env" using frag ff(4) by (fastforce dest: set_zip_leftD)
  let ?es = "zip (map (envelope_of a) raws) cs"
  let ?its = "zip is (zip (map (\<lambda>raw. fst (the (env_packet_data (envelope_of a raw)))) raws) (map ck_reassemble cs))"
  show "map fragment_call ?es = map (\<lambda>(i, b, t). (fragment_packet F i, b, t)) ?its" if "length cs = length raws"
  proof (rule nth_equalityI)
    fix k assume "k < length (map fragment_call ?es)"
    then have k: "k < length raws" by simp
    show "map fragment_call ?es ! k = map (\<lambda>(i, b, t). (fragment_packet F i, b, t)) ?its ! k"
      using ff(3) [OF at(2,1) [OF k], of a] k len that by simp
  qed (use len that in simp)
qed

text \<open>
  C2: One frame through a whole face.  The datagrams of the fragments of a frame reach the socket of a new pipeline in any order,
  repeated at will before the last missing one, while the processing thread takes envelopes from the ring whenever it likes and
  afterwards makes at least as many iterations as there were datagrams.  Then the run succeeds and empties the ring; exactly
  one packet leaves the reorderer, carrying the frame counter, the time stamp and the concatenated samples of the fragments and not
  marked incomplete or zero filled; and the block queue holds exactly one block, with the frame counter and these samples.
\<close>

theorem frame_end_to_end:
  assumes "oc_window_size ocfg \<le> 2 ^ 31" and "rc_max_total_frags rcfg \<le> 1024" and "0 < rc_max_contexts rcfg"
    and "fs_wf rcfg F" and "fs_sendable F" and "length (concat (fs_payloads F)) \<le> RAW_BLOCK_PAYLOAD_SIZE"
    and "no_sweep evs" and "list_all2 (fragment_received F) (js @ [j]) (datagrams evs)" and "j \<notin> set js"
    and "set (js @ [j]) = {..<length (fs_payloads F)}"
    and "length (datagrams evs) \<le> 65535" and "length (datagrams evs) \<le> length cks"
  shows "\<exists>fp p q b. run_face (evs @ map Iterate cks) (face_pipeline_new a i ocfg rcfg n True t) = Inr (fp, [p]) \<and>
    ring_of fp = [] \<and> op_sequence_number p = rk_frame_counter (fs_key F) \<and> op_owned_payload p = Some (concat (fs_payloads F)) \<and>
    timestamp (header (op_packet p)) = fs_timestamp F \<and> \<not> op_is_incomplete_frame p \<and> \<not> op_is_zero_filled p \<and>
    fp_rawblock_queue fp = Some q \<and> spsc_contents q = [Some b] \<and> rb_cpi_seq b = rk_frame_counter (fs_key F) \<and> rb_array_id b = a \<and>
    take (unat (rb_data_size b)) (rb_payload b) = concat (fs_payloads F) \<and> \<not> has_flag INCOMPLETE_FRAME b"
proof -
  let ?fp = "face_pipeline_new a i ocfg rcfg n True t" and ?raws = "datagrams evs"
  let ?s = "fp_rx_stage ?fp"
  have scope: "scope (rx_validator ?s) = DATA_AND_HEARTBEAT" and new: "ring_of ?fp = []" "rx_array_id ?s = a"
    by (simp_all add: face_pipeline_new_def rx_stage_new_def)
  note fr = fragments_received [OF assms(5) scope assms(8,10)]
  have dg: "Datagram raw \<in> set es \<Longrightarrow> raw \<in> set (datagrams es)" for raw es by (induction es rule: datagrams.induct) auto
  have ok: "\<forall>raw. Datagram raw \<in> set evs \<longrightarrow> received_ok raw" using fr(2) dg by blast
  from run_face_drained [OF face_pipeline_new_inv [OF assms(1,2)] new(1) assms(7) ok assms(11,12), unfolded fr(1) new(2) length_map]
  obtain fp outs cs fp'' where run: "run_face (evs @ map Iterate cks) ?fp = Inr (fp, outs)" "ring_of fp = []"
    "length cs = length ?raws" "run_envelopes (zip (map (envelope_of a) ?raws) cs) ?fp = Inr (fp'', outs)"
    "fp = fp''\<lparr>fp_rx_stage := fp_rx_stage fp\<rparr>" by blast
  let ?es = "zip (map (envelope_of a) ?raws) cs"
  let ?its = "zip (js @ [j]) (zip (map (\<lambda>raw. fst (the (env_packet_data (envelope_of a raw)))) ?raws) (map ck_reassemble cs))"
  have "map fst ?its = js @ [j]" using list_all2_lengthD [OF assms(8)] run(3) by simp
  from fragments_zero_copy [OF assms(2-5) this assms(9,10)] obtain r' where
    zc: "run_packets_zero_copy (map (\<lambda>(i, b, t). (fragment_packet F i, b, t)) ?its) (reassembler_new rcfg True) = Inr (r', [fs_frame F])"
    by blast
  have h: "dp_zero_copy_data_handler (fp_dispatcher ?fp)" by (simp add: face_pipeline_new_def set_zero_copy_data_handler_def)
  have "run_packets_zero_copy (map fragment_call ?es) (fp_reassembler ?fp) = Inr (r', [fs_frame F])"
    unfolding fr(4) [OF run(3)] using zc by (simp add: face_pipeline_new_def)
  from data_run [OF fr(3) h this run(4)] obtain clk bclk where
    ins: "insert_frames clk [fs_frame F] (reorderer_new ocfg True t) = (fp_reorderer fp'', outs)" and
    push: "push_blocks a bclk outs (Some rawblock_queue_new) = Some (fp_rawblock_queue fp'')"
    by (auto simp: face_pipeline_new_def)
  have outs: "outs = [frame_packet F]" using first_frame_delivered [OF assms(1) ins] by (simp add: fs_frame_def)
  have eq: "fp_rawblock_queue fp = fp_rawblock_queue fp''" by (subst run(5)) simp
  from first_block [OF assms(6) push [unfolded outs]] obtain q b where q: "fp_rawblock_queue fp = Some q" "spsc_contents q = [Some b]"
    "rb_cpi_seq b = rk_frame_counter (fs_key F)" "rb_array_id b = a"
    "take (unat (rb_data_size b)) (rb_payload b) = concat (fs_payloads F)" "\<not> has_flag INCOMPLETE_FRAME b"
    unfolding eq by blast
  show ?thesis
    by (rule exI [of _ fp], rule exI [of _ "frame_packet F"], rule exI [of _ q], rule exI [of _ b])
       (use run(1,2) outs q frame_packet_fields in simp)
qed


definition sample_fragment :: "nat \<Rightarrow> ReceivedPacket" where
  "sample_fragment i = sample_received (fragment_datagram sample_frame i)"

theorem frame_end_to_end_witness:
  "\<exists>fp p. run_face ([Datagram (sample_fragment 2), Datagram (sample_fragment 2), Iterate sample_clocks, Datagram (sample_fragment 0),
       Datagram (sample_fragment 1)] @ map Iterate (replicate 4 sample_clocks))
     (face_pipeline_new 1 1 sample_reorder sample_config 10 True 0) = Inr (fp, [p]) \<and>
     op_owned_payload p = Some [10, 11, 12, 13, 14]"
proof -
  let ?evs = "[Datagram (sample_fragment 2), Datagram (sample_fragment 2), Iterate sample_clocks, Datagram (sample_fragment 0),
    Datagram (sample_fragment 1)]"
  have "fragment_received sample_frame i (sample_fragment i)" for i
    by (simp add: fragment_received_def sample_fragment_def sample_received_def)
  moreover have "concat (fs_payloads sample_frame) = [10, 11, 12, 13, 14]" by (simp add: sample_frame_def)
  moreover have "no_sweep ?evs" by (simp add: no_sweep_def)
  ultimately show ?thesis
    using frame_end_to_end [of sample_reorder sample_config sample_frame ?evs "[2, 2, 0]" 1 "replicate 4 sample_clocks" 1 1 10 0]
      sample_frame_ok
    by (force simp: sample_config_def const_defs)
qed

end
