(* ===== verification/Error_Codes.thy ===== *)
theory Error_Codes
  imports Prelude
begin

text \<open>
  The error codes (\<^verbatim>\<open>include/qdgz300/common/error_codes.h\<close>) with their numeric values and printed names.
\<close>

datatype ErrorCode =
    OK
  | RECV_SOCKET_INIT_FAILED
  | RECV_BIND_FAILED
  | RECV_AFFINITY_MISMATCH
  | RECV_MAGIC_MISMATCH
  | RECV_VERSION_MISMATCH
  | RECV_PACKET_TYPE_UNKNOWN
  | RECV_PAYLOAD_LEN_MISMATCH
  | RECV_SOURCE_ID_INVALID
  | RECV_CRC_FAILED
  | RECV_REASM_TIMEOUT
  | RECV_REASM_OVERSIZE
  | RECV_REASM_TOTALFRAGS_EXCEED
  | RECV_LATE_FRAGMENT
  | RECV_DUPLICATE_FRAGMENT
  | RECV_QUEUE_FULL
  | RECV_MEMORY_POOL_EXHAUSTED
  | GPU_STREAM_INIT_FAILED
  | GPU_H2D_FAILED
  | GPU_KERNEL_LAUNCH_FAILED
  | GPU_D2H_FAILED
  | GPU_COMPUTE_TIMEOUT
  | GPU_COMPUTE_TIMEOUT_PERSISTENT
  | GPU_PINNED_ALLOC_FAILED
  | TRACK_ASSOCIATION_FAILED
  | TRACK_ID_OVERFLOW
  | FUSION_HANDOVER_FAILED
  | GW_TCP_BIND_FAILED
  | GW_TCP_ACCEPT_FAILED
  | GW_HANDSHAKE_FAILED
  | GW_SERIALIZE_FAILED
  | GW_TRUNCATED
  | GW_UDP_SEND_FAILED
  | GW_OUTPUT_QUEUE_FULL
  | ORC_INVALID_TRANSITION
  | ORC_TRANSITION_TOO_FAST
  | ORC_COMMAND_BRIDGE_TIMEOUT
  | ORC_COMMAND_BRIDGE_MAX_RETRY
  | ORC_EVENT_THROTTLED
  | CFG_VALIDATION_FAILED
  | CFG_FROZEN_PARAM_MODIFIED
  | CFG_SNAPSHOT_VERSION_CONFLICT
  | TIME_SYNC_LOST
  | TIME_HOLDOVER_EXPIRED
  | HEALTH_BOOT_CHECK_FAILED
  | HEALTH_WARMUP_TIMEOUT
  | HEALTH_RUNTIME_ANOMALY
  | MEMORY_POOL_EXHAUSTED
  | QUEUE_OVERFLOW_PERSISTENT
  | INPUT_SENSOR_MISSING
  | REASM_TIMEOUT_VIOLATION

fun error_value :: "ErrorCode \<Rightarrow> u32" where
  "error_value OK = 0"
| "error_value RECV_SOCKET_INIT_FAILED = 1001"
| "error_value RECV_BIND_FAILED = 1002"
| "error_value RECV_AFFINITY_MISMATCH = 1003"
| "error_value RECV_MAGIC_MISMATCH = 1010"
| "error_value RECV_VERSION_MISMATCH = 1011"
| "error_value RECV_PACKET_TYPE_UNKNOWN = 1012"
| "error_value RECV_PAYLOAD_LEN_MISMATCH = 1013"
| "error_value RECV_SOURCE_ID_INVALID = 1014"
| "error_value RECV_CRC_FAILED = 1020"
| "error_value RECV_REASM_TIMEOUT = 1030"
| "error_value RECV_REASM_OVERSIZE = 1031"
| "error_value RECV_REASM_TOTALFRAGS_EXCEED = 1032"
| "error_value RECV_LATE_FRAGMENT = 1033"
| "error_value RECV_DUPLICATE_FRAGMENT = 1034"
| "error_value RECV_QUEUE_FULL = 1040"
| "error_value RECV_MEMORY_POOL_EXHAUSTED = 1050"
| "error_value GPU_STREAM_INIT_FAILED = 2001"
| "error_value GPU_H2D_FAILED = 2010"
| "error_value GPU_KERNEL_LAUNCH_FAILED = 2011"
| "error_value GPU_D2H_FAILED = 2012"
| "error_value GPU_COMPUTE_TIMEOUT = 2020"
| "error_value GPU_COMPUTE_TIMEOUT_PERSISTENT = 2021"
| "error_value GPU_PINNED_ALLOC_FAILED = 2030"
| "error_value TRACK_ASSOCIATION_FAILED = 3001"
| "error_value TRACK_ID_OVERFLOW = 3010"
| "error_value FUSION_HANDOVER_FAILED = 3020"
| "error_value GW_TCP_BIND_FAILED = 4001"
| "error_value GW_TCP_ACCEPT_FAILED = 4002"
| "error_value GW_HANDSHAKE_FAILED = 4010"
| "error_value GW_SERIALIZE_FAILED = 4020"
| "error_value GW_TRUNCATED = 4021"
| "error_value GW_UDP_SEND_FAILED = 4030"
| "error_value GW_OUTPUT_QUEUE_FULL = 4040"
| "error_value ORC_INVALID_TRANSITION = 5001"
| "error_value ORC_TRANSITION_TOO_FAST = 5002"
| "error_value ORC_COMMAND_BRIDGE_TIMEOUT = 5010"
| "error_value ORC_COMMAND_BRIDGE_MAX_RETRY = 5011"
| "error_value ORC_EVENT_THROTTLED = 5020"
| "error_value CFG_VALIDATION_FAILED = 6001"
| "error_value CFG_FROZEN_PARAM_MODIFIED = 6002"
| "error_value CFG_SNAPSHOT_VERSION_CONFLICT = 6010"
| "error_value TIME_SYNC_LOST = 7001"
| "error_value TIME_HOLDOVER_EXPIRED = 7002"
| "error_value HEALTH_BOOT_CHECK_FAILED = 8001"
| "error_value HEALTH_WARMUP_TIMEOUT = 8002"
| "error_value HEALTH_RUNTIME_ANOMALY = 8010"
| "error_value MEMORY_POOL_EXHAUSTED = 9001"
| "error_value QUEUE_OVERFLOW_PERSISTENT = 9002"
| "error_value INPUT_SENSOR_MISSING = 9003"
| "error_value REASM_TIMEOUT_VIOLATION = 9004"

fun error_name :: "ErrorCode \<Rightarrow> string" where
  "error_name OK = ''OK''"
| "error_name RECV_SOCKET_INIT_FAILED = ''RECV_SOCKET_INIT_FAILED''"
| "error_name RECV_BIND_FAILED = ''RECV_BIND_FAILED''"
| "error_name RECV_AFFINITY_MISMATCH = ''RECV_AFFINITY_MISMATCH''"
| "error_name RECV_MAGIC_MISMATCH = ''RECV_MAGIC_MISMATCH''"
| "error_name RECV_VERSION_MISMATCH = ''RECV_VERSION_MISMATCH''"
| "error_name RECV_PACKET_TYPE_UNKNOWN = ''RECV_PACKET_TYPE_UNKNOWN''"
| "error_name RECV_PAYLOAD_LEN_MISMATCH = ''RECV_PAYLOAD_LEN_MISMATCH''"
| "error_name RECV_SOURCE_ID_INVALID = ''RECV_SOURCE_ID_INVALID''"
| "error_name RECV_CRC_FAILED = ''RECV_CRC_FAILED''"
| "error_name RECV_REASM_TIMEOUT = ''RECV_REASM_TIMEOUT''"
| "error_name RECV_REASM_OVERSIZE = ''RECV_REASM_OVERSIZE''"
| "error_name RECV_REASM_TOTALFRAGS_EXCEED = ''RECV_REASM_TOTALFRAGS_EXCEED''"
| "error_name RECV_LATE_FRAGMENT = ''RECV_LATE_FRAGMENT''"
| "error_name RECV_DUPLICATE_FRAGMENT = ''RECV_DUPLICATE_FRAGMENT''"
| "error_name RECV_QUEUE_FULL = ''RECV_QUEUE_FULL''"
| "error_name RECV_MEMORY_POOL_EXHAUSTED = ''RECV_MEMORY_POOL_EXHAUSTED''"
| "error_name GPU_STREAM_INIT_FAILED = ''GPU_STREAM_INIT_FAILED''"
| "error_name GPU_H2D_FAILED = ''GPU_H2D_FAILED''"
| "error_name GPU_KERNEL_LAUNCH_FAILED = ''GPU_KERNEL_LAUNCH_FAILED''"
| "error_name GPU_D2H_FAILED = ''GPU_D2H_FAILED''"
| "error_name GPU_COMPUTE_TIMEOUT = ''GPU_COMPUTE_TIMEOUT''"
| "error_name GPU_COMPUTE_TIMEOUT_PERSISTENT = ''GPU_COMPUTE_TIMEOUT_PERSISTENT''"
| "error_name GPU_PINNED_ALLOC_FAILED = ''GPU_PINNED_ALLOC_FAILED''"
| "error_name TRACK_ASSOCIATION_FAILED = ''TRACK_ASSOCIATION_FAILED''"
| "error_name TRACK_ID_OVERFLOW = ''TRACK_ID_OVERFLOW''"
| "error_name FUSION_HANDOVER_FAILED = ''FUSION_HANDOVER_FAILED''"
| "error_name GW_TCP_BIND_FAILED = ''GW_TCP_BIND_FAILED''"
| "error_name GW_TCP_ACCEPT_FAILED = ''GW_TCP_ACCEPT_FAILED''"
| "error_name GW_HANDSHAKE_FAILED = ''GW_HANDSHAKE_FAILED''"
| "error_name GW_SERIALIZE_FAILED = ''GW_SERIALIZE_FAILED''"
| "error_name GW_TRUNCATED = ''GW_TRUNCATED''"
| "error_name GW_UDP_SEND_FAILED = ''GW_UDP_SEND_FAILED''"
| "error_name GW_OUTPUT_QUEUE_FULL = ''GW_OUTPUT_QUEUE_FULL''"
| "error_name ORC_INVALID_TRANSITION = ''ORC_INVALID_TRANSITION''"
| "error_name ORC_TRANSITION_TOO_FAST = ''ORC_TRANSITION_TOO_FAST''"
| "error_name ORC_COMMAND_BRIDGE_TIMEOUT = ''ORC_COMMAND_BRIDGE_TIMEOUT''"
| "error_name ORC_COMMAND_BRIDGE_MAX_RETRY = ''ORC_COMMAND_BRIDGE_MAX_RETRY''"
| "error_name ORC_EVENT_THROTTLED = ''ORC_EVENT_THROTTLED''"
| "error_name CFG_VALIDATION_FAILED = ''CFG_VALIDATION_FAILED''"
| "error_name CFG_FROZEN_PARAM_MODIFIED = ''CFG_FROZEN_PARAM_MODIFIED''"
| "error_name CFG_SNAPSHOT_VERSION_CONFLICT = ''CFG_SNAPSHOT_VERSION_CONFLICT''"
| "error_name TIME_SYNC_LOST = ''TIME_SYNC_LOST''"
| "error_name TIME_HOLDOVER_EXPIRED = ''TIME_HOLDOVER_EXPIRED''"
| "error_name HEALTH_BOOT_CHECK_FAILED = ''HEALTH_BOOT_CHECK_FAILED''"
| "error_name HEALTH_WARMUP_TIMEOUT = ''HEALTH_WARMUP_TIMEOUT''"
| "error_name HEALTH_RUNTIME_ANOMALY = ''HEALTH_RUNTIME_ANOMALY''"
| "error_name MEMORY_POOL_EXHAUSTED = ''MEMORY_POOL_EXHAUSTED''"
| "error_name QUEUE_OVERFLOW_PERSISTENT = ''QUEUE_OVERFLOW_PERSISTENT''"
| "error_name INPUT_SENSOR_MISSING = ''INPUT_SENSOR_MISSING''"
| "error_name REASM_TIMEOUT_VIOLATION = ''REASM_TIMEOUT_VIOLATION''"

definition all_error_codes :: "ErrorCode list" where
  "all_error_codes =
     [OK, RECV_SOCKET_INIT_FAILED, RECV_BIND_FAILED, RECV_AFFINITY_MISMATCH, RECV_MAGIC_MISMATCH,
      RECV_VERSION_MISMATCH, RECV_PACKET_TYPE_UNKNOWN, RECV_PAYLOAD_LEN_MISMATCH, RECV_SOURCE_ID_INVALID,
      RECV_CRC_FAILED, RECV_REASM_TIMEOUT, RECV_REASM_OVERSIZE, RECV_REASM_TOTALFRAGS_EXCEED, RECV_LATE_FRAGMENT,
      RECV_DUPLICATE_FRAGMENT, RECV_QUEUE_FULL, RECV_MEMORY_POOL_EXHAUSTED, GPU_STREAM_INIT_FAILED, GPU_H2D_FAILED,
      GPU_KERNEL_LAUNCH_FAILED, GPU_D2H_FAILED, GPU_COMPUTE_TIMEOUT, GPU_COMPUTE_TIMEOUT_PERSISTENT,
      GPU_PINNED_ALLOC_FAILED, TRACK_ASSOCIATION_FAILED, TRACK_ID_OVERFLOW, FUSION_HANDOVER_FAILED,
      GW_TCP_BIND_FAILED, GW_TCP_ACCEPT_FAILED, GW_HANDSHAKE_FAILED, GW_SERIALIZE_FAILED, GW_TRUNCATED,
      GW_UDP_SEND_FAILED, GW_OUTPUT_QUEUE_FULL, ORC_INVALID_TRANSITION, ORC_TRANSITION_TOO_FAST,
      ORC_COMMAND_BRIDGE_TIMEOUT, ORC_COMMAND_BRIDGE_MAX_RETRY, ORC_EVENT_THROTTLED, CFG_VALIDATION_FAILED,
      CFG_FROZEN_PARAM_MODIFIED, CFG_SNAPSHOT_VERSION_CONFLICT, TIME_SYNC_LOST, TIME_HOLDOVER_EXPIRED,
      HEALTH_BOOT_CHECK_FAILED, HEALTH_WARMUP_TIMEOUT, HEALTH_RUNTIME_ANOMALY, MEMORY_POOL_EXHAUSTED,
      QUEUE_OVERFLOW_PERSISTENT, INPUT_SENSOR_MISSING, REASM_TIMEOUT_VIOLATION]"

lemma all_error_codes_complete: "e \<in> set all_error_codes"
  by (cases e) (simp_all add: all_error_codes_def)

text \<open>Distinct codes have distinct values and distinct names, so a logged value or name identifies the error.\<close>

lemma error_value_eq_iff: "error_value a = error_value b \<longleftrightarrow> a = b"
proof -
  have "successively (<) (map error_value all_error_codes)" by (simp add: all_error_codes_def)
  then have "distinct (map error_value all_error_codes)"
    using successively_conv_sorted_wrt [of "(<)" "map error_value all_error_codes"] by (simp add: strict_sorted_iff transp_on_less)
  then show ?thesis using all_error_codes_complete [of a] all_error_codes_complete [of b]
    by (metis distinct_map inj_on_eq_iff)
qed

lemma error_name_eq_iff: "error_name a = error_name b \<longleftrightarrow> a = b"
proof -
  have "distinct (map error_name all_error_codes)" by (simp add: all_error_codes_def)
  then show ?thesis using all_error_codes_complete [of a] all_error_codes_complete [of b]
    by (metis distinct_map inj_on_eq_iff)
qed

end
