(* ===== verification/Control.thy ===== *)
theory Control
  imports Protocol_Types Error_Codes
begin

text \<open>
  The control plane (\<^verbatim>\<open>src/common/system_state.cpp\<close>, \<^verbatim>\<open>src/control/\<close>): the table of system states, the state machine, the
  event dispatcher, the orchestrator with its command bridge, the runtime monitor and the boot checks.

  Correspondence.  Callbacks, event handlers and the modules' start and stop functions are known to these classes as function
  objects only; a registered one is a number or a name, and each call of one is an entry of the list of actions an operation
  returns.  What the modules' start functions and the boot checks answer is an argument.
\<close>

subsection \<open>System states\<close>

datatype SystemState = Init | Standby | Running | Degraded | Fault

datatype EventDomain =
  BootHealth | Warmup | TrackDataGap | GpuTimeout | QueueOverflow | TimeSyncLoss | SensorMissing | MemoryExhausted | ManualCommand | Recovery

datatype Severity = SEV_3 | SEV_2 | SEV_1

fun state_name :: "SystemState \<Rightarrow> string" where
  "state_name Init = ''Init''"
| "state_name Standby = ''Standby''"
| "state_name Running = ''Running''"
| "state_name Degraded = ''Degraded''"
| "state_name Fault = ''Fault''"

record StateTransition =
  st_from :: SystemState
  st_event :: EventDomain
  st_severity :: Severity
  st_to :: SystemState

definition rule :: "SystemState \<Rightarrow> EventDomain \<Rightarrow> Severity \<Rightarrow> SystemState \<Rightarrow> StateTransition" where
  "rule a e s b = \<lparr>st_from = a, st_event = e, st_severity = s, st_to = b\<rparr>"

definition TRANSITION_TABLE :: "StateTransition list" where
  "TRANSITION_TABLE =
     [rule Init BootHealth SEV_3 Standby,
      rule Init BootHealth SEV_1 Fault,
      rule Standby Warmup SEV_3 Running,
      rule Running TrackDataGap SEV_2 Degraded,
      rule Running GpuTimeout SEV_2 Degraded,
      rule Running QueueOverflow SEV_2 Degraded,
      rule Running TimeSyncLoss SEV_2 Degraded,
      rule Running SensorMissing SEV_2 Degraded,
      rule Running MemoryExhausted SEV_1 Fault,
      rule Running ManualCommand SEV_3 Fault,
      rule Degraded Recovery SEV_3 Running,
      rule Degraded TrackDataGap SEV_1 Fault,
      rule Degraded SensorMissing SEV_1 Fault,
      rule Degraded MemoryExhausted SEV_1 Fault,
      rule Degraded ManualCommand SEV_3 Fault,
      rule Fault ManualCommand SEV_3 Init,
      rule Fault ManualCommand SEV_3 Standby]"

definition is_transition_allowed :: "SystemState \<Rightarrow> SystemState \<Rightarrow> bool" where
  "is_transition_allowed from to =
     (if to = Fault then True else list_ex (\<lambda>t. st_from t = from \<and> st_to t = to) TRANSITION_TABLE)"

subsection \<open>Events and actions\<close>

datatype Event_Type = Command | StateChange | ModuleHealth | MetricAlert | ConfigUpdate

record Event =
  ev_type :: Event_Type
  ev_payload :: string

datatype control_action =
    StartModule string
  | StopModule string
  | HandleEvent nat Event
  | Notify nat SystemState SystemState string

type_synonym EventDispatcher = "(Event_Type \<times> nat) list"

definition subscribe :: "Event_Type \<Rightarrow> nat \<Rightarrow> EventDispatcher \<Rightarrow> EventDispatcher" where
  "subscribe t handler ed = ed @ [(t, handler)]"

definition publish :: "Event \<Rightarrow> EventDispatcher \<Rightarrow> control_action list" where
  "publish ev ed = [HandleEvent h ev. (t, h) \<leftarrow> ed, t = ev_type ev]"

subsection \<open>State machine\<close>

record StateMachine =
  fsm_current :: SystemState
  fsm_callbacks :: "nat list"

definition state_machine_new :: StateMachine where
  "state_machine_new = \<lparr>fsm_current = Init, fsm_callbacks = []\<rparr>"

definition on_transition :: "nat \<Rightarrow> StateMachine \<Rightarrow> StateMachine" where
  "on_transition callback fsm = fsm\<lparr>fsm_callbacks := fsm_callbacks fsm @ [callback]\<rparr>"

definition transition :: "SystemState \<Rightarrow> string \<Rightarrow> StateMachine \<Rightarrow> (StateMachine \<times> control_action list) \<times> bool" where
  "transition target reason fsm =
     (if \<not> is_transition_allowed (fsm_current fsm) target then ((fsm, []), False)
      else ((fsm\<lparr>fsm_current := target\<rparr>, map (\<lambda>cb. Notify cb (fsm_current fsm) target reason) (fsm_callbacks fsm)), True))"

subsection \<open>Orchestrator\<close>

record ModuleHandle =
  mh_name :: string
  mh_start :: bool
  mh_stop :: bool

record Orchestrator =
  orc_fsm :: StateMachine
  orc_events :: EventDispatcher
  orc_modules :: "ModuleHandle list"

definition register_module :: "ModuleHandle \<Rightarrow> Orchestrator \<Rightarrow> Orchestrator" where
  "register_module handle orc = orc\<lparr>orc_modules := orc_modules orc @ [handle]\<rparr>"

definition fsm_step :: "SystemState \<Rightarrow> string \<Rightarrow> control_action list \<Rightarrow> Orchestrator \<Rightarrow> (Orchestrator \<times> control_action list) \<times> bool" where
  "fsm_step target reason acts orc =
     (case transition target reason (orc_fsm orc) of ((fsm, calls), ok) \<Rightarrow> ((orc\<lparr>orc_fsm := fsm\<rparr>, acts @ calls), ok))"

definition boot :: "Orchestrator \<Rightarrow> (Orchestrator \<times> control_action list) \<times> bool" where
  "boot orc =
     fsm_step Standby ''boot completed'' (publish \<lparr>ev_type = StateChange, ev_payload = ''boot''\<rparr> (orc_events orc)) orc"

text \<open>Starting the modules in order up to the first that fails.\<close>

fun start_modules :: "(string \<Rightarrow> bool) \<Rightarrow> ModuleHandle list \<Rightarrow> control_action list \<times> bool" where
  "start_modules starts [] = ([], True)"
| "start_modules starts (m # ms) =
     (if mh_start m
      then if starts (mh_name m) then apfst ((#) (StartModule (mh_name m))) (start_modules starts ms)
           else ([StartModule (mh_name m)], False)
      else start_modules starts ms)"

definition start :: "(string \<Rightarrow> bool) \<Rightarrow> Orchestrator \<Rightarrow> (Orchestrator \<times> control_action list) \<times> bool" where
  "start starts orc =
     (case start_modules starts (orc_modules orc) of
        (acts, False) \<Rightarrow> ((orc, acts), False)
      | (acts, True) \<Rightarrow>
          fsm_step Running ''start command''
            (acts @ publish \<lparr>ev_type = Command, ev_payload = ''start''\<rparr> (orc_events orc)) orc)"

definition stop_modules :: "ModuleHandle list \<Rightarrow> control_action list" where
  "stop_modules ms = [StopModule (mh_name m). m \<leftarrow> rev ms, mh_stop m]"

definition stop :: "Orchestrator \<Rightarrow> Orchestrator \<times> control_action list" where
  "stop orc =
     fst (fsm_step Standby ''stop command''
       (stop_modules (orc_modules orc) @ publish \<lparr>ev_type = Command, ev_payload = ''stop''\<rparr> (orc_events orc)) orc)"

definition reset :: "Orchestrator \<Rightarrow> (Orchestrator \<times> control_action list) \<times> bool" where
  "reset orc = (case stop orc of (orc1, acts) \<Rightarrow> fsm_step Init ''reset command'' acts orc1)"

subsection \<open>Command bridge\<close>

record CommandAck =
  ack_success :: bool
  ack_error_code :: ErrorCode
  ack_message :: string

definition ack_of :: "string \<Rightarrow> string \<Rightarrow> bool \<Rightarrow> CommandAck" where
  "ack_of yes no ok =
     (if ok then \<lparr>ack_success = True, ack_error_code = OK, ack_message = yes\<rparr>
      else \<lparr>ack_success = False, ack_error_code = ORC_INVALID_TRANSITION, ack_message = no\<rparr>)"

definition handle_command :: "(string \<Rightarrow> bool) \<Rightarrow> string \<Rightarrow> Orchestrator \<Rightarrow> (Orchestrator \<times> control_action list) \<times> CommandAck" where
  "handle_command starts command orc =
     (if command = ''START'' then apsnd (ack_of ''started'' ''start rejected'') (start starts orc)
      else if command = ''STOP''
      then (stop orc, \<lparr>ack_success = True, ack_error_code = OK, ack_message = ''stopped''\<rparr>)
      else if command = ''RESET'' then apsnd (ack_of ''reset'' ''reset rejected'') (reset orc)
      else if command = ''QUERY_STATE''
      then ((orc, []), \<lparr>ack_success = True, ack_error_code = OK, ack_message = ''query accepted''\<rparr>)
      else ((orc, []), \<lparr>ack_success = False, ack_error_code = ORC_EVENT_THROTTLED, ack_message = ''unsupported command''\<rparr>))"

subsection \<open>Runtime monitor and boot checks\<close>

definition T1_DEGRADED_MS :: u32 where [const_defs]: "T1_DEGRADED_MS = 500"
definition T2_FAULT_MS :: u32 where [const_defs]: "T2_FAULT_MS = 2000"

record RuntimeMonitor =
  rm_healthy :: bool
  rm_unhealthy_ms :: u32

definition runtime_monitor_new :: RuntimeMonitor where
  "runtime_monitor_new = \<lparr>rm_healthy = True, rm_unhealthy_ms = 0\<rparr>"

definition report_health :: "bool \<Rightarrow> u32 \<Rightarrow> RuntimeMonitor \<Rightarrow> RuntimeMonitor" where
  "report_health healthy unhealthy_ms m = m\<lparr>rm_healthy := healthy, rm_unhealthy_ms := unhealthy_ms\<rparr>"

definition tick :: "RuntimeMonitor \<Rightarrow> StateMachine \<Rightarrow> StateMachine \<times> control_action list" where
  "tick m fsm =
     (if rm_healthy m
      then if fsm_current fsm = Degraded then fst (transition Running ''runtime recovered'' fsm) else (fsm, [])
      else if rm_unhealthy_ms m \<ge> T2_FAULT_MS then fst (transition Fault ''runtime unhealthy beyond fault threshold'' fsm)
      else if rm_unhealthy_ms m \<ge> T1_DEGRADED_MS \<and> fsm_current fsm = Running
      then fst (transition Degraded ''runtime unhealthy beyond degraded threshold'' fsm)
      else (fsm, []))"

record CheckResult =
  cr_name :: string
  cr_passed :: bool
  cr_detail :: string

record BootChecker =
  bc_checks :: "nat list"
  bc_all_passed :: bool

definition add_check :: "nat \<Rightarrow> BootChecker \<Rightarrow> BootChecker" where
  "add_check check bc = bc\<lparr>bc_checks := bc_checks bc @ [check]\<rparr>"

definition run_all :: "(nat \<Rightarrow> CheckResult) \<Rightarrow> BootChecker \<Rightarrow> BootChecker \<times> CheckResult list" where
  "run_all result bc =
     foldl (\<lambda>(bc, results) check.
        (bc\<lparr>bc_all_passed := bc_all_passed bc \<and> cr_passed (result check)\<rparr>, results @ [result check]))
       (bc\<lparr>bc_all_passed := True\<rparr>, []) (bc_checks bc)"


subsection \<open>Runs of the control plane\<close>

record control_system =
  cs_orc :: Orchestrator
  cs_monitor :: RuntimeMonitor

datatype control_input = Boot | Operator "string \<Rightarrow> bool" string | Report bool u32 | Tick

fun control_step :: "control_input \<Rightarrow> control_system \<Rightarrow> control_system \<times> control_action list" where
  "control_step Boot s = apfst (\<lambda>orc. s\<lparr>cs_orc := orc\<rparr>) (fst (boot (cs_orc s)))"
| "control_step (Operator starts command) s = apfst (\<lambda>orc. s\<lparr>cs_orc := orc\<rparr>) (fst (handle_command starts command (cs_orc s)))"
| "control_step (Report healthy ms) s = (s\<lparr>cs_monitor := report_health healthy ms (cs_monitor s)\<rparr>, [])"
| "control_step Tick s =
     apfst (\<lambda>fsm. s\<lparr>cs_orc := (cs_orc s)\<lparr>orc_fsm := fsm\<rparr>\<rparr>) (tick (cs_monitor s) (orc_fsm (cs_orc s)))"

inductive control_run :: "control_system \<Rightarrow> control_system \<Rightarrow> control_action list \<Rightarrow> bool" for s :: control_system where
  run_start: "control_run s s []"
| run_step: "control_run s s1 acts \<Longrightarrow> control_step i s1 = (s2, acts2) \<Longrightarrow> control_run s s2 (acts @ acts2)"

abbreviation current_state :: "control_system \<Rightarrow> SystemState" where
  "current_state s \<equiv> fsm_current (orc_fsm (cs_orc s))"

abbreviation callbacks :: "control_system \<Rightarrow> nat list" where
  "callbacks s \<equiv> fsm_callbacks (orc_fsm (cs_orc s))"

text \<open>The transitions a registered callback was told of.\<close>

fun seen_by :: "nat \<Rightarrow> control_action list \<Rightarrow> (SystemState \<times> SystemState) list" where
  "seen_by cb [] = []"
| "seen_by cb (Notify c a b reason # acts) = (if c = cb then (a, b) # seen_by cb acts else seen_by cb acts)"
| "seen_by cb (_ # acts) = seen_by cb acts"

definition system_edges :: "(SystemState \<times> SystemState) set" where
  "system_edges = {(Init, Standby), (Fault, Standby), (Standby, Running), (Degraded, Running), (Running, Degraded)} \<union> UNIV \<times> {Fault}"

fun path :: "SystemState \<Rightarrow> (SystemState \<times> SystemState) list \<Rightarrow> SystemState \<Rightarrow> bool" where
  "path a [] b \<longleftrightarrow> a = b"
| "path a ((x, y) # es) b \<longleftrightarrow> x = a \<and> (x, y) \<in> system_edges \<and> path y es b"

lemma path_append: "path a (es @ es') c \<longleftrightarrow> (\<exists>b. path a es b \<and> path b es' c)"
  by (induction a es c rule: path.induct) auto

lemma seen_by_append [simp]: "seen_by cb (xs @ ys) = seen_by cb xs @ seen_by cb ys"
  by (induction cb xs rule: seen_by.induct) auto

lemma seen_by_notify:
  "seen_by cb (map (\<lambda>c. Notify c a b reason) cbs) = replicate (count_list cbs cb) (a, b)"
  by (induction cbs) auto

lemma seen_by_quiet:
  assumes "\<forall>act \<in> set acts. case act of Notify _ _ _ _ \<Rightarrow> False | _ \<Rightarrow> True"
  shows "seen_by cb acts = []"
  using assms by (induction cb acts rule: seen_by.induct) auto

lemma publish_quiet [simp]: "seen_by cb (publish ev ed) = []"
  by (rule seen_by_quiet) (auto simp: publish_def)

lemma stop_modules_quiet [simp]: "seen_by cb (stop_modules ms) = []"
  by (rule seen_by_quiet) (auto simp: stop_modules_def)

lemma start_modules_quiet: "start_modules starts ms = (acts, ok) \<Longrightarrow> seen_by cb acts = []"
  by (induction starts ms arbitrary: acts ok rule: start_modules.induct)
     (auto simp: apfst_def map_prod_def split: if_splits prod.splits)

lemma allowed_iff:
  "is_transition_allowed a b \<longleftrightarrow>
     b = Fault \<or> (a, b) \<in> {(Init, Standby), (Standby, Running), (Running, Degraded), (Degraded, Running), (Fault, Init), (Fault, Standby)}"
  by (cases a; cases b) (simp_all add: is_transition_allowed_def TRANSITION_TABLE_def rule_def)

text \<open>What one attempt does: the callbacks stay, and a callback registered once sees the edge taken, if one is.\<close>

lemma transition_path:
  assumes "transition target reason fsm = ((fsm', acts), ok)" and "count_list (fsm_callbacks fsm) cb = 1"
    and "target = Init \<longrightarrow> fsm_current fsm \<noteq> Fault"
  shows "path (fsm_current fsm) (seen_by cb acts) (fsm_current fsm')" and "fsm_callbacks fsm' = fsm_callbacks fsm"
    and "ok \<longleftrightarrow> is_transition_allowed (fsm_current fsm) target" and "fsm_current fsm' = (if ok then target else fsm_current fsm)"
  using assms by (auto simp: transition_def seen_by_notify system_edges_def allowed_iff split: if_splits)

lemma fsm_step_path:
  assumes "fsm_step target reason acts orc = ((orc', acts'), ok)" and "count_list (fsm_callbacks (orc_fsm orc)) cb = 1"
    and "target = Init \<longrightarrow> fsm_current (orc_fsm orc) \<noteq> Fault"
  shows "\<exists>calls. acts' = acts @ calls \<and> path (fsm_current (orc_fsm orc)) (seen_by cb calls) (fsm_current (orc_fsm orc')) \<and>
    fsm_callbacks (orc_fsm orc') = fsm_callbacks (orc_fsm orc) \<and>
    ok = is_transition_allowed (fsm_current (orc_fsm orc)) target \<and>
    fsm_current (orc_fsm orc') = (if ok then target else fsm_current (orc_fsm orc))"
proof -
  obtain fsm calls ok' where t: "transition target reason (orc_fsm orc) = ((fsm, calls), ok')" by (metis prod.collapse)
  from transition_path [OF t assms(2,3)] t assms(1) show ?thesis by (auto simp: fsm_step_def)
qed


lemma stop_path:
  assumes "stop orc = (orc', acts)" and "count_list (fsm_callbacks (orc_fsm orc)) cb = 1"
  shows "path (fsm_current (orc_fsm orc)) (seen_by cb acts) (fsm_current (orc_fsm orc'))"
    and "fsm_callbacks (orc_fsm orc') = fsm_callbacks (orc_fsm orc)"
    and "fsm_current (orc_fsm orc') = (if fsm_current (orc_fsm orc) \<in> {Init, Fault} then Standby else fsm_current (orc_fsm orc))"
proof -
  obtain ok where "fsm_step Standby ''stop command'' (stop_modules (orc_modules orc) @
      publish \<lparr>ev_type = Command, ev_payload = ''stop''\<rparr> (orc_events orc)) orc = ((orc', acts), ok)"
    using assms(1) unfolding stop_def by (metis prod.collapse)
  from fsm_step_path [OF this assms(2)]
  show "path (fsm_current (orc_fsm orc)) (seen_by cb acts) (fsm_current (orc_fsm orc'))"
    "fsm_callbacks (orc_fsm orc') = fsm_callbacks (orc_fsm orc)"
    "fsm_current (orc_fsm orc') = (if fsm_current (orc_fsm orc) \<in> {Init, Fault} then Standby else fsm_current (orc_fsm orc))"
    by (auto simp: allowed_iff)
qed

lemma reset_path:
  assumes "reset orc = ((orc', acts), ok)" and "count_list (fsm_callbacks (orc_fsm orc)) cb = 1"
  shows "path (fsm_current (orc_fsm orc)) (seen_by cb acts) (fsm_current (orc_fsm orc'))"
    and "fsm_callbacks (orc_fsm orc') = fsm_callbacks (orc_fsm orc)"
proof -
  obtain orc1 acts1 where s: "stop orc = (orc1, acts1)" by fastforce
  note p = stop_path [OF s assms(2)]
  have "fsm_step Init ''reset command'' acts1 orc1 = ((orc', acts), ok)" using assms(1) s by (simp add: reset_def)
  from fsm_step_path [OF this, of cb] p assms(2)
  show "path (fsm_current (orc_fsm orc)) (seen_by cb acts) (fsm_current (orc_fsm orc'))"
    "fsm_callbacks (orc_fsm orc') = fsm_callbacks (orc_fsm orc)"
    by (auto simp: path_append split: if_splits)
qed

lemma start_path:
  assumes "start starts orc = ((orc', acts), ok)" and "count_list (fsm_callbacks (orc_fsm orc)) cb = 1"
  shows "path (fsm_current (orc_fsm orc)) (seen_by cb acts) (fsm_current (orc_fsm orc'))"
    and "fsm_callbacks (orc_fsm orc') = fsm_callbacks (orc_fsm orc)"
proof -
  obtain acts1 all_ok where m: "start_modules starts (orc_modules orc) = (acts1, all_ok)" by fastforce
  note quiet = start_modules_quiet [OF m]
  have "path (fsm_current (orc_fsm orc)) (seen_by cb acts) (fsm_current (orc_fsm orc')) \<and>
    fsm_callbacks (orc_fsm orc') = fsm_callbacks (orc_fsm orc)"
  proof (cases all_ok)
    case True
    then have "fsm_step Running ''start command'' (acts1 @ publish \<lparr>ev_type = Command, ev_payload = ''start''\<rparr> (orc_events orc)) orc =
        ((orc', acts), ok)" using assms(1) m by (simp add: start_def)
    from fsm_step_path [OF this assms(2)] quiet show ?thesis by auto
  next
    case False
    then show ?thesis using assms(1) m quiet by (simp add: start_def)
  qed
  then show "path (fsm_current (orc_fsm orc)) (seen_by cb acts) (fsm_current (orc_fsm orc'))"
    "fsm_callbacks (orc_fsm orc') = fsm_callbacks (orc_fsm orc)" by simp_all
qed

lemma boot_path:
  assumes "boot orc = ((orc', acts), ok)" and "count_list (fsm_callbacks (orc_fsm orc)) cb = 1"
  shows "path (fsm_current (orc_fsm orc)) (seen_by cb acts) (fsm_current (orc_fsm orc'))"
    and "fsm_callbacks (orc_fsm orc') = fsm_callbacks (orc_fsm orc)"
  using fsm_step_path [OF assms(1) [unfolded boot_def] assms(2)] by auto

lemma tick_path:
  assumes "tick m fsm = (fsm', acts)" and "count_list (fsm_callbacks fsm) cb = 1"
  shows "path (fsm_current fsm) (seen_by cb acts) (fsm_current fsm')" and "fsm_callbacks fsm' = fsm_callbacks fsm"
proof -
  have "fsm' = fsm \<and> acts = [] \<or> (\<exists>target reason ok. target \<noteq> Init \<and> transition target reason fsm = ((fsm', acts), ok))"
    using assms(1) unfolding tick_def by (metis SystemState.distinct(1-7) prod.collapse prod.inject)
  then show "path (fsm_current fsm) (seen_by cb acts) (fsm_current fsm')" and "fsm_callbacks fsm' = fsm_callbacks fsm"
    using transition_path [OF _ assms(2)] by auto
qed

lemma command_path:
  assumes "handle_command starts command orc = ((orc', acts), ack)" and "count_list (fsm_callbacks (orc_fsm orc)) cb = 1"
  shows "path (fsm_current (orc_fsm orc)) (seen_by cb acts) (fsm_current (orc_fsm orc')) \<and>
    fsm_callbacks (orc_fsm orc') = fsm_callbacks (orc_fsm orc)"
proof -
  obtain os as oks where 1: "start starts orc = ((os, as), oks)" by (metis prod.collapse)
  obtain ot at where 2: "stop orc = (ot, at)" by fastforce
  obtain or ar okr where 3: "reset orc = ((or, ar), okr)" by (metis prod.collapse)
  show ?thesis
    using assms(1) start_path [OF 1 assms(2)] stop_path [OF 2 assms(2)] reset_path [OF 3 assms(2)] 1 2 3
    by (auto simp: handle_command_def split: if_splits)
qed

lemma control_step_path:
  assumes "control_step i s = (s', acts)" and "count_list (callbacks s) cb = 1"
  shows "path (current_state s) (seen_by cb acts) (current_state s') \<and> callbacks s' = callbacks s"
proof (cases i)
  case Boot
  obtain orc' acts' ok where "boot (cs_orc s) = ((orc', acts'), ok)" by (metis prod.collapse)
  with boot_path [OF this assms(2)] assms(1) Boot show ?thesis by auto
next
  case (Operator starts command)
  obtain orc' acts' ack where "handle_command starts command (cs_orc s) = ((orc', acts'), ack)" by (metis prod.collapse)
  with command_path [OF this assms(2)] assms(1) Operator show ?thesis by auto
next
  case (Report healthy ms)
  then show ?thesis using assms(1) by auto
next
  case Tick
  obtain fsm' acts' where "tick (cs_monitor s) (orc_fsm (cs_orc s)) = (fsm', acts')" by fastforce
  with tick_path [OF this assms(2)] assms(1) Tick show ?thesis by auto
qed

subsection \<open>Properties\<close>

text \<open>
  C22: The control plane moves along the edges of the state diagram only.  Whatever the operator commands, the health
  reports, the monitor's ticks and the modules' answers, a callback registered once is told of exactly the edges taken: they form an
  unbroken path from the state at the beginning to the current one, each of them boot or return to standby, start, degradation,
  recovery or a fall into the fault state.  The system never enters the initial state again.
\<close>

theorem control_path_legal:
  assumes "control_run s s' acts" and "count_list (callbacks s) cb = 1"
  shows "path (current_state s) (seen_by cb acts) (current_state s') \<and> (\<forall>(a, b) \<in> set (seen_by cb acts). b \<noteq> Init)"
proof -
  have p: "path (current_state s) (seen_by cb acts) (current_state s') \<and> callbacks s' = callbacks s"
    using assms(1)
  proof induction
    case (run_step s1 acts i s2 acts2)
    then show ?case using control_step_path [OF run_step.hyps(2)] assms(2) by (auto simp: path_append)
  qed simp
  have "path a es b \<Longrightarrow> \<forall>(a, b) \<in> set es. b \<noteq> Init" for a es b
    by (induction a es b rule: path.induct) (auto simp: system_edges_def)
  with p show ?thesis by blast
qed


definition sample_control :: control_system where
  "sample_control = \<lparr>cs_orc = \<lparr>orc_fsm = on_transition 7 state_machine_new, orc_events = subscribe Command 3 [],
       orc_modules = [\<lparr>mh_name = ''rx'', mh_start = True, mh_stop = True\<rparr>]\<rparr>, cs_monitor = runtime_monitor_new\<rparr>"

lemma control_run_steps:
  "control_run s (fst (foldl (\<lambda>(s, acts) i. (fst (control_step i s), acts @ snd (control_step i s))) (s, []) is))
     (snd (foldl (\<lambda>(s, acts) i. (fst (control_step i s), acts @ snd (control_step i s))) (s, []) is))"
  by (induction "is" rule: rev_induct) (auto simp: split_def intro: run_start run_step)

theorem control_path_legal_witness:
  "\<exists>s' acts. control_run sample_control s' acts \<and> current_state s' = Fault \<and>
     path Init (seen_by 7 acts) Fault \<and> seen_by 7 acts = [(Init, Standby), (Standby, Running), (Running, Degraded), (Degraded, Fault)]"
proof -
  let ?is = "[Boot, Operator (\<lambda>_. True) ''START'', Report False 600, Tick, Operator (\<lambda>_. True) ''STOP'', Report False 2500, Tick]"
  let ?r = "foldl (\<lambda>(s, acts) i. (fst (control_step i s), acts @ snd (control_step i s))) (sample_control, []) ?is"
  note run = control_run_steps [of sample_control ?is]
  have "count_list (callbacks sample_control) 7 = 1" by code_simp
  from control_path_legal [OF run this] have p: "path (current_state sample_control) (seen_by 7 (snd ?r)) (current_state (fst ?r))" by blast
  have "current_state sample_control = Init" "current_state (fst ?r) = Fault"
    "seen_by 7 (snd ?r) = [(Init, Standby), (Standby, Running), (Running, Degraded), (Degraded, Fault)]"
    by code_simp+
  with p run show ?thesis by (intro exI [of _ "fst ?r"] exI [of _ "snd ?r"]) simp
qed

text \<open>A health report and the tick that follows it, repeated.\<close>

fun monitor_run :: "(bool \<times> u32) list \<Rightarrow> RuntimeMonitor \<Rightarrow> StateMachine \<Rightarrow> RuntimeMonitor \<times> StateMachine" where
  "monitor_run [] m fsm = (m, fsm)"
| "monitor_run ((healthy, ms) # reports) m fsm =
     (let m' = report_health healthy ms m in monitor_run reports m' (fst (tick m' fsm)))"

definition beyond :: "u32 \<Rightarrow> bool \<times> u32 \<Rightarrow> bool" where
  "beyond limit report \<longleftrightarrow> \<not> fst report \<and> limit \<le> snd report"

lemma monitor_run_append:
  "monitor_run (xs @ ys) m fsm = (case monitor_run xs m fsm of (m1, fsm1) \<Rightarrow> monitor_run ys m1 fsm1)"
  by (induction xs m fsm rule: monitor_run.induct) (auto simp: Let_def)

lemma tick_state:
  "fsm_current (fst (tick (report_health healthy ms m) fsm)) =
     (if beyond T2_FAULT_MS (healthy, ms) then Fault
      else if beyond T1_DEGRADED_MS (healthy, ms) \<and> fsm_current fsm = Running then Degraded
      else if healthy \<and> fsm_current fsm = Degraded then Running else fsm_current fsm)"
  by (auto simp: tick_def report_health_def beyond_def transition_def allowed_iff)

text \<open>
  The runtime monitor escalates and recovers as its thresholds say.  From the running state, after any history of
  health reports with a tick after each, the system is in the fault state if and only if some report was unhealthy for two seconds or more;
  otherwise it is degraded if and only if a report of half a second or more has come since the last healthy one; otherwise it
  runs.  So a fault is final for the monitor, and a degradation ends with the first healthy report.
\<close>

lemma monitor_escalation:
  assumes "fsm_current fsm = Running"
  shows "fsm_current (snd (monitor_run reports m fsm)) =
    (if list_ex (beyond T2_FAULT_MS) reports then Fault
     else if list_ex (beyond T1_DEGRADED_MS) (takeWhile (\<lambda>r. \<not> fst r) (rev reports)) then Degraded else Running)"
proof (induction reports rule: rev_induct)
  case Nil
  then show ?case using assms by simp
next
  case (snoc r reports)
  obtain healthy ms where r: "r = (healthy, ms)" by (cases r)
  obtain m1 fsm1 where m1: "monitor_run reports m fsm = (m1, fsm1)" by fastforce
  have later: "\<not> beyond T2_FAULT_MS (healthy, ms) \<or> \<not> healthy" by (simp add: beyond_def)
  show ?case
    using snoc m1 later by (auto simp: monitor_run_append Let_def r tick_state beyond_def)
qed

text \<open>
  Two commands do not do what they answer or what the table foresees.  \<^verbatim>\<open>STOP\<close> always answers success, but the
  table has no way from the running or the degraded state to standby, so the state stays where it was.  \<^verbatim>\<open>RESET\<close> is
  rejected in every state: the stop it performs first leaves the fault state, the only one from which the table allows to reach the
  initial state.
\<close>

lemma stop_and_reset_ineffective:
  "ack_success (snd (handle_command starts ''STOP'' orc)) \<and>
   fsm_current (orc_fsm (fst (fst (handle_command starts ''STOP'' orc)))) =
     (if fsm_current (orc_fsm orc) \<in> {Init, Fault} then Standby else fsm_current (orc_fsm orc)) \<and>
   \<not> ack_success (snd (handle_command starts ''RESET'' orc)) \<and>
   fsm_current (orc_fsm (fst (fst (handle_command starts ''RESET'' orc)))) =
     (if fsm_current (orc_fsm orc) \<in> {Init, Fault} then Standby else fsm_current (orc_fsm orc))"
proof -
  have stop: "fsm_current (orc_fsm (fst (stop orc))) =
      (if fsm_current (orc_fsm orc) \<in> {Init, Fault} then Standby else fsm_current (orc_fsm orc))"
    by (auto simp: stop_def fsm_step_def transition_def allowed_iff)
  obtain orc1 acts where s: "stop orc = (orc1, acts)" by fastforce
  have "fsm_current (orc_fsm orc1) \<noteq> Fault" using stop s by (auto split: if_splits)
  then have "transition Init ''reset command'' (orc_fsm orc1) = ((orc_fsm orc1, []), False)"
    by (simp add: transition_def allowed_iff)
  then have "reset orc = ((orc1, acts), False)" using s by (simp add: reset_def fsm_step_def)
  then show ?thesis using stop s by (simp add: handle_command_def ack_of_def)
qed

lemma run_all_result:
  "run_all result bc = (bc\<lparr>bc_all_passed := list_all (cr_passed \<circ> result) (bc_checks bc)\<rparr>, map result (bc_checks bc))"
proof -
  have "foldl (\<lambda>(bc, results) check. (bc\<lparr>bc_all_passed := bc_all_passed bc \<and> cr_passed (result check)\<rparr>, results @ [result check])) (bc, rs) cs =
      (bc\<lparr>bc_all_passed := bc_all_passed bc \<and> list_all (cr_passed \<circ> result) cs\<rparr>, rs @ map result cs)" for bc :: BootChecker and rs cs
    by (induction cs arbitrary: bc rs) (simp_all add: conj_assoc)
  then show ?thesis by (simp add: run_all_def)
qed

end
