(* ===== verification/Packet_Pool.thy ===== *)
theory Packet_Pool
  imports Prelude
begin

text \<open>
  The two buffer pools of the data plane: \<^verbatim>\<open>PacketPool\<close> (\<^verbatim>\<open>src/m01_receiver/network/packet_pool.cpp\<close>), which falls back to the heap
  when it is exhausted, and \<^verbatim>\<open>NUMAPool\<close> (\<^verbatim>\<open>include/qdgz300/common/memory_pool.h\<close>), which does not.

  Correspondence.  Both thread a free list through an array of nodes; a node is its index, the \<^verbatim>\<open>next\<close> pointers are a list, a
  null pointer is \<open>None\<close>.  Addresses are natural numbers.  The storage the constructors obtain and the answers of
  \<^verbatim>\<open>operator new\<close> are arguments; the heap is the list of live fallback blocks, each with the word in front of its buffer.  A
  deallocation that would touch memory the pool does not own returns \<open>None\<close>.  This theory takes each operation as one step; the
  compare-and-swap loops are the subject of the next one.
\<close>

subsection \<open>Free lists\<close>

fun chain :: "nat option list \<Rightarrow> nat option \<Rightarrow> nat list \<Rightarrow> bool" where
  "chain nx h [] \<longleftrightarrow> h = None"
| "chain nx h (i # is) \<longleftrightarrow> h = Some i \<and> i < length nx \<and> chain nx (nx ! i) is"

fun follow :: "nat \<Rightarrow> nat option list \<Rightarrow> nat option \<Rightarrow> nat list" where
  "follow (Suc n) nx (Some i) = i # follow n nx (nx ! i)"
| "follow _ nx _ = []"

lemma chain_update [simp]: "i \<notin> set is \<Longrightarrow> chain (nx[i := v]) h is \<longleftrightarrow> chain nx h is"
  by (induction "is" arbitrary: h) auto

lemma chain_bounds: "chain nx h is \<Longrightarrow> set is \<subseteq> {..<length nx}"
  by (induction "is" arbitrary: h) auto

lemma chain_follow: "chain nx h is \<Longrightarrow> length is \<le> n \<Longrightarrow> follow n nx h = is"
proof (induction "is" arbitrary: h n)
  case (Cons i "is")
  then obtain m where "n = Suc m" by (cases n) auto
  with Cons show ?case by simp
qed simp

lemma chain_length:
  assumes "chain nx h is" and "distinct is"
  shows "length is \<le> length nx"
  using card_mono [OF _ chain_bounds [OF assms(1)]] assms(2) by (simp add: distinct_card)

definition free_list :: "nat option list \<Rightarrow> nat option \<Rightarrow> nat list" where
  "free_list nx h = follow (length nx) nx h"

definition list_ok :: "nat option list \<Rightarrow> nat option \<Rightarrow> bool" where
  "list_ok nx h \<longleftrightarrow> chain nx h (free_list nx h) \<and> distinct (free_list nx h)"

lemma list_okI: "chain nx h is \<Longrightarrow> distinct is \<Longrightarrow> list_ok nx h \<and> free_list nx h = is"
  using chain_follow [OF _ chain_length] by (simp add: list_ok_def free_list_def)

lemma list_ok_pop:
  assumes "list_ok nx h" and "free_list nx h = i # is"
  shows "h = Some i" "i < length nx" "list_ok nx (nx ! i)" "free_list nx (nx ! i) = is"
proof -
  have c: "chain nx h (i # is)" "distinct (i # is)" using assms by (simp_all add: list_ok_def)
  then show "h = Some i" "i < length nx" by simp_all
  show "list_ok nx (nx ! i)" "free_list nx (nx ! i) = is" using list_okI [of nx "nx ! i" "is"] c by simp_all
qed

lemma list_ok_empty: "list_ok nx h \<Longrightarrow> free_list nx h = [] \<longleftrightarrow> h = None"
  by (cases "free_list nx h") (auto simp: list_ok_def free_list_def)

lemma list_ok_push:
  assumes "list_ok nx h" and "i < length nx" and "i \<notin> set (free_list nx h)"
  shows "list_ok (nx[i := h]) (Some i)" "free_list (nx[i := h]) (Some i) = i # free_list nx h"
  using list_okI [of "nx[i := h]" "Some i" "i # free_list nx h"] assms by (simp_all add: list_ok_def)

lemma chain_upt:
  "a \<le> n \<Longrightarrow> chain (map (\<lambda>i. if i + 1 < n then Some (i + 1) else None) [0..<n]) (if a < n then Some a else None) [a..<n]"
proof (induction "n - a" arbitrary: a)
  case (Suc k)
  then have a: "a < n" by simp
  have "chain (map (\<lambda>i. if i + 1 < n then Some (i + 1) else None) [0..<n]) (if Suc a < n then Some (Suc a) else None) [Suc a..<n]"
    using Suc.hyps(2) a by (intro Suc.hyps(1)) simp_all
  with a show ?case by (cases "Suc a < n") (simp_all add: upt_conv_Cons [OF a])
qed simp

lemma chain_downto:
  "n \<le> m \<Longrightarrow> chain (map (\<lambda>i. if i = 0 then None else Some (i - 1)) [0..<m]) (if n = 0 then None else Some (n - 1)) (rev [0..<n])"
proof (induction n)
  case (Suc n)
  then show ?case by (cases n) simp_all
qed simp


subsection \<open>PacketPool\<close>

record PacketPool =
  pp_packet_size :: nat
  pp_pool_size :: nat
  pp_nodes_next :: "nat option list"
  pp_free_head :: "nat option"
  pp_pool_begin :: nat
  pp_pool_end :: nat
  pp_heap :: "(nat \<times> u32) list"
  pp_total_size :: u64
  pp_available :: u64
  pp_allocated :: u64
  pp_alloc_count :: u64
  pp_dealloc_count :: u64
  pp_fallback_alloc :: u64

definition FALLBACK_HEADER_SIZE :: nat where "FALLBACK_HEADER_SIZE = 4"
definition kFallbackMagic :: u32 where "kFallbackMagic = 0xFACC0DE1"

definition packet_pool_new :: "nat \<Rightarrow> nat \<Rightarrow> nat option \<Rightarrow> PacketPool" where
  "packet_pool_new packet_size pool_size storage =
     (let empty = \<lparr>pp_packet_size = packet_size, pp_pool_size = pool_size, pp_nodes_next = [], pp_free_head = None, pp_pool_begin = 0,
                   pp_pool_end = 0, pp_heap = [], pp_total_size = 0, pp_available = 0, pp_allocated = 0, pp_alloc_count = 0,
                   pp_dealloc_count = 0, pp_fallback_alloc = 0\<rparr>
      in if packet_size = 0 \<or> pool_size = 0 then empty
         else case storage of
             None \<Rightarrow> empty
           | Some base \<Rightarrow>
               empty\<lparr>pp_nodes_next := map (\<lambda>i. if i + 1 < pool_size then Some (i + 1) else None) [0..<pool_size],
                     pp_free_head := Some 0, pp_pool_begin := base, pp_pool_end := base + packet_size * pool_size,
                     pp_total_size := word_of_nat pool_size, pp_available := word_of_nat pool_size\<rparr>)"

definition node_buffer :: "PacketPool \<Rightarrow> nat \<Rightarrow> nat" where
  "node_buffer p i = pp_pool_begin p + i * pp_packet_size p"

definition pp_allocate :: "((nat \<times> u32) list \<Rightarrow> nat option) \<Rightarrow> PacketPool \<Rightarrow> PacketPool \<times> nat option" where
  "pp_allocate nothrow_new p =
     (let p1 = p\<lparr>pp_alloc_count := pp_alloc_count p + 1\<rparr> in
      case pp_free_head p1 of
        Some head \<Rightarrow>
          (p1\<lparr>pp_free_head := pp_nodes_next p1 ! head, pp_available := pp_available p1 - 1, pp_allocated := pp_allocated p1 + 1\<rparr>,
           Some (node_buffer p1 head))
      | None \<Rightarrow>
          (let p2 = p1\<lparr>pp_fallback_alloc := pp_fallback_alloc p1 + 1\<rparr> in
           case nothrow_new (pp_heap p2) of
             None \<Rightarrow> (p2, None)
           | Some raw \<Rightarrow> (p2\<lparr>pp_heap := (raw, kFallbackMagic) # pp_heap p2\<rparr>, Some (raw + FALLBACK_HEADER_SIZE))))"

definition pp_deallocate :: "nat option \<Rightarrow> PacketPool \<Rightarrow> PacketPool option" where
  "pp_deallocate buffer p =
     (case buffer of
        None \<Rightarrow> Some p
      | Some addr \<Rightarrow>
          (let p1 = p\<lparr>pp_dealloc_count := pp_dealloc_count p + 1\<rparr> in
           if addr \<ge> pp_pool_begin p1 \<and> addr < pp_pool_end p1
           then let offset = addr - pp_pool_begin p1 in
             if pp_packet_size p1 = 0 \<or> offset mod pp_packet_size p1 \<noteq> 0 then Some p1
             else let index = offset div pp_packet_size p1 in
               if index \<ge> length (pp_nodes_next p1) then Some p1
               else Some (p1\<lparr>pp_nodes_next := (pp_nodes_next p1)[index := pp_free_head p1], pp_free_head := Some index,
                             pp_available := pp_available p1 + 1, pp_allocated := pp_allocated p1 - 1\<rparr>)
           else if addr < FALLBACK_HEADER_SIZE then None
           else case map_of (pp_heap p1) (addr - FALLBACK_HEADER_SIZE) of
               None \<Rightarrow> None
             | Some magic \<Rightarrow>
                 if magic = kFallbackMagic then Some (p1\<lparr>pp_heap := AList.delete (addr - FALLBACK_HEADER_SIZE) (pp_heap p1)\<rparr>)
                 else None))"

record PoolStatistics =
  ps_total_size :: u64
  ps_available :: u64
  ps_allocated :: u64
  ps_alloc_count :: u64
  ps_dealloc_count :: u64
  ps_fallback_alloc :: u64

definition pp_get_statistics :: "PacketPool \<Rightarrow> PoolStatistics" where
  "pp_get_statistics p =
     \<lparr>ps_total_size = pp_total_size p, ps_available = pp_available p, ps_allocated = pp_allocated p, ps_alloc_count = pp_alloc_count p,
      ps_dealloc_count = pp_dealloc_count p, ps_fallback_alloc = pp_fallback_alloc p\<rparr>"

subsection \<open>NUMAPool\<close>

record NUMAPool =
  np_slot_size :: nat
  np_raw_memory :: "nat option"
  np_raw_size :: nat
  np_total_count :: nat
  np_next :: "nat option list"
  np_free_head :: "nat option"
  np_available :: u64

text \<open>The size of a slot, \<^verbatim>\<open>sizeof(T)\<close> rounded up to its alignment, is an argument of the constructor.\<close>

definition numa_pool_new :: "nat \<Rightarrow> nat \<Rightarrow> nat option \<Rightarrow> NUMAPool" where
  "numa_pool_new slot count memory =
     (let p = \<lparr>np_slot_size = slot, np_raw_memory = None, np_raw_size = slot * count, np_total_count = count, np_next = [],
               np_free_head = None, np_available = 0\<rparr>
      in if slot * count = 0 then p
         else case memory of
             None \<Rightarrow> p\<lparr>np_total_count := 0\<rparr>
           | Some base \<Rightarrow>
               p\<lparr>np_raw_memory := Some base, np_next := map (\<lambda>i. if i = 0 then None else Some (i - 1)) [0..<count],
                 np_free_head := Some (count - 1), np_available := word_of_nat count\<rparr>)"

definition slot_address :: "NUMAPool \<Rightarrow> nat \<Rightarrow> nat" where
  "slot_address p i = the (np_raw_memory p) + i * np_slot_size p"

definition np_allocate :: "NUMAPool \<Rightarrow> NUMAPool \<times> nat option" where
  "np_allocate p =
     (case np_free_head p of
        None \<Rightarrow> (p, None)
      | Some head \<Rightarrow>
          (p\<lparr>np_free_head := np_next p ! head, np_available := np_available p - 1\<rparr>, Some (slot_address p head)))"

definition np_owns :: "nat \<Rightarrow> NUMAPool \<Rightarrow> bool" where
  "np_owns addr p \<longleftrightarrow> (let base = (case np_raw_memory p of None \<Rightarrow> 0 | Some b \<Rightarrow> b) in addr \<ge> base \<and> addr < base + np_raw_size p)"

definition np_deallocate :: "nat option \<Rightarrow> NUMAPool \<Rightarrow> NUMAPool option" where
  "np_deallocate ptr p =
     (case ptr of
        None \<Rightarrow> Some p
      | Some addr \<Rightarrow>
          (case np_raw_memory p of
             None \<Rightarrow> None
           | Some base \<Rightarrow>
               if addr < base \<or> (addr - base) mod np_slot_size p \<noteq> 0 \<or> (addr - base) div np_slot_size p \<ge> length (np_next p) then None
               else let i = (addr - base) div np_slot_size p in
                 Some (p\<lparr>np_next := (np_next p)[i := np_free_head p], np_free_head := Some i, np_available := np_available p + 1\<rparr>)))"

subsection \<open>The contract of a pool\<close>

datatype 'b pool_op = Take | Give 'b

text \<open>A client that gives back only what it holds.\<close>

fun client_run :: "('p \<Rightarrow> 'p \<times> 'b option) \<Rightarrow> ('b \<Rightarrow> 'p \<Rightarrow> 'p option) \<Rightarrow> 'b pool_op list \<Rightarrow> 'p \<Rightarrow> 'b list \<Rightarrow> ('p \<times> 'b list) option" where
  "client_run al de [] p held = Some (p, held)"
| "client_run al de (Take # ops) p held =
     (case al p of (p', None) \<Rightarrow> client_run al de ops p' held | (p', Some b) \<Rightarrow> client_run al de ops p' (b # held))"
| "client_run al de (Give b # ops) p held =
     (if b \<in> set held
      then (case de b p of None \<Rightarrow> None | Some p' \<Rightarrow> client_run al de ops p' (remove1 b held))
      else client_run al de ops p held)"

text \<open>
  What a pool promises: buffers are either free, in the order in which they will be handed out, or in use; \<open>others\<close> are the live
  buffers from elsewhere.
\<close>

locale buffer_pool =
  fixes al :: "'p \<Rightarrow> 'p \<times> 'b option" and de :: "'b \<Rightarrow> 'p \<Rightarrow> 'p option" and ok :: "'p \<Rightarrow> bool"
    and free :: "'p \<Rightarrow> 'b list" and buffers :: "'p \<Rightarrow> 'b set" and others :: "'p \<Rightarrow> 'b set"
  assumes free_ok: "ok p \<Longrightarrow> distinct (free p) \<and> set (free p) \<subseteq> buffers p \<and> buffers p \<inter> others p = {}"
    and al_free: "ok p \<Longrightarrow> free p = b # bs \<Longrightarrow>
      \<exists>p'. al p = (p', Some b) \<and> ok p' \<and> free p' = bs \<and> buffers p' = buffers p \<and> others p' = others p"
    and al_empty: "ok p \<Longrightarrow> free p = [] \<Longrightarrow>
      \<exists>p' r. al p = (p', r) \<and> ok p' \<and> free p' = [] \<and> buffers p' = buffers p \<and>
        (case r of None \<Rightarrow> others p' = others p | Some b \<Rightarrow> b \<notin> others p \<and> others p' = insert b (others p))"
    and de_free: "ok p \<Longrightarrow> b \<in> buffers p \<Longrightarrow> b \<notin> set (free p) \<Longrightarrow>
      \<exists>p'. de b p = Some p' \<and> ok p' \<and> free p' = b # free p \<and> buffers p' = buffers p \<and> others p' = others p"
    and de_other: "ok p \<Longrightarrow> b \<in> others p \<Longrightarrow>
      \<exists>p'. de b p = Some p' \<and> ok p' \<and> free p' = free p \<and> buffers p' = buffers p \<and> others p' = others p - {b}"
begin

lemma client_ok:
  assumes "ok p" and "distinct held" and "set held = (buffers p - set (free p)) \<union> others p"
  shows "\<exists>p' held'. client_run al de ops p held = Some (p', held') \<and> ok p' \<and> distinct held' \<and>
    set held' = (buffers p' - set (free p')) \<union> others p' \<and> buffers p' = buffers p"
  using assms
proof (induction ops arbitrary: p held)
  case (Cons op ops)
  note fo = free_ok [OF Cons.prems(1)]
  show ?case
  proof (cases op)
    case Take
    show ?thesis
    proof (cases "free p")
      case Nil
      from al_empty [OF Cons.prems(1) Nil] obtain p' r where p': "al p = (p', r)" "ok p'" "free p' = []" "buffers p' = buffers p"
        "case r of None \<Rightarrow> others p' = others p | Some b \<Rightarrow> b \<notin> others p \<and> others p' = insert b (others p)" by blast
      show ?thesis
      proof (cases r)
        case None
        then show ?thesis using Cons.IH [OF p'(2) Cons.prems(2)] Cons.prems(3) p' Nil Take by simp
      next
        case (Some b)
        have "b \<notin> buffers p" using free_ok [OF p'(2)] p'(4,5) Some by auto
        then show ?thesis using Cons.IH [OF p'(2), of "b # held"] Cons.prems(2,3) p' Nil Take Some by auto
      qed
    next
      case (Cons b bs)
      from al_free [OF Cons.prems(1) Cons] obtain p' where p': "al p = (p', Some b)" "ok p'" "free p' = bs" "buffers p' = buffers p"
        "others p' = others p" by blast
      have b: "b \<notin> set bs" "b \<in> buffers p" "b \<notin> others p" using fo Cons by auto
      have "set (b # held) = (buffers p' - set (free p')) \<union> others p'" using Cons.prems(3) p' b Cons by auto
      moreover have "distinct (b # held)" using Cons.prems(2,3) b Cons by simp
      ultimately show ?thesis using Cons.IH [OF p'(2)] p' Take by simp
    qed
  next
    case (Give b)
    show ?thesis
    proof (cases "b \<in> set held")
      case True
      have held: "set (remove1 b held) = set held - {b}" "distinct (remove1 b held)" using Cons.prems(2) by simp_all
      show ?thesis
      proof (cases "b \<in> others p")
        case other: True
        from de_other [OF Cons.prems(1) other] obtain p' where p': "de b p = Some p'" "ok p'" "free p' = free p"
          "buffers p' = buffers p" "others p' = others p - {b}" by blast
        have "b \<notin> buffers p" using fo other by blast
        then show ?thesis using Cons.IH [OF p'(2) held(2)] held(1) Cons.prems(3) p' Give True by auto
      next
        case False
        with True Cons.prems(3) have "b \<in> buffers p" "b \<notin> set (free p)" by auto
        from de_free [OF Cons.prems(1) this] obtain p' where p': "de b p = Some p'" "ok p'" "free p' = b # free p"
          "buffers p' = buffers p" "others p' = others p" by blast
        then show ?thesis using Cons.IH [OF p'(2) held(2)] held(1) Cons.prems(3) False Give True by auto
      qed
    next
      case False
      then show ?thesis using Cons.IH [OF Cons.prems] Give by simp
    qed
  qed
qed simp

end


subsection \<open>PacketPool keeps the contract\<close>

definition heap_ok :: "nat \<Rightarrow> nat \<Rightarrow> (nat \<times> u32) list \<Rightarrow> bool" where
  "heap_ok b e heap \<longleftrightarrow> distinct (map fst heap) \<and> (\<forall>(raw, magic) \<in> set heap.
     magic = kFallbackMagic \<and> \<not> (b \<le> raw + FALLBACK_HEADER_SIZE \<and> raw + FALLBACK_HEADER_SIZE < e))"

definition pp_ok :: "nat \<Rightarrow> nat \<Rightarrow> PacketPool \<Rightarrow> bool" where
  "pp_ok b e p \<longleftrightarrow>
     list_ok (pp_nodes_next p) (pp_free_head p) \<and> 0 < pp_packet_size p \<and> pp_pool_begin p = b \<and> pp_pool_end p = e \<and>
     b + pp_packet_size p * length (pp_nodes_next p) = e \<and> heap_ok b e (pp_heap p) \<and>
     pp_available p = word_of_nat (length (free_list (pp_nodes_next p) (pp_free_head p))) \<and>
     pp_allocated p = word_of_nat (length (pp_nodes_next p)) - pp_available p"

definition pp_free :: "PacketPool \<Rightarrow> nat list" where
  "pp_free p = map (node_buffer p) (free_list (pp_nodes_next p) (pp_free_head p))"

definition pp_buffers :: "PacketPool \<Rightarrow> nat set" where
  "pp_buffers p = node_buffer p ` {..<length (pp_nodes_next p)}"

definition pp_fallback :: "PacketPool \<Rightarrow> nat set" where
  "pp_fallback p = (\<lambda>block. fst block + FALLBACK_HEADER_SIZE) ` set (pp_heap p)"

text \<open>What \<^verbatim>\<open>operator new\<close> returns is neither live already nor inside the pool's storage.\<close>

definition new_ok :: "nat \<Rightarrow> nat \<Rightarrow> ((nat \<times> u32) list \<Rightarrow> nat option) \<Rightarrow> bool" where
  "new_ok b e nw \<longleftrightarrow> (\<forall>heap raw. nw heap = Some raw \<longrightarrow>
     raw \<notin> fst ` set heap \<and> \<not> (b \<le> raw + FALLBACK_HEADER_SIZE \<and> raw + FALLBACK_HEADER_SIZE < e))"

definition checked_new :: "nat \<Rightarrow> nat \<Rightarrow> ((nat \<times> u32) list \<Rightarrow> nat option) \<Rightarrow> (nat \<times> u32) list \<Rightarrow> nat option" where
  "checked_new b e nw heap =
     (case nw heap of
        None \<Rightarrow> None
      | Some raw \<Rightarrow>
          if raw \<in> fst ` set heap \<or> (b \<le> raw + FALLBACK_HEADER_SIZE \<and> raw + FALLBACK_HEADER_SIZE < e) then None else Some raw)"

lemma checked_new_id: "new_ok b e nw \<Longrightarrow> checked_new b e nw = nw"
  by (intro ext) (auto simp: checked_new_def new_ok_def split: option.splits)

lemma node_buffer_index:
  assumes "0 < pp_packet_size p" and "i < length (pp_nodes_next p)"
  shows "node_buffer p i \<ge> pp_pool_begin p" "node_buffer p i < pp_pool_begin p + pp_packet_size p * length (pp_nodes_next p)"
    and "(node_buffer p i - pp_pool_begin p) mod pp_packet_size p = 0" "(node_buffer p i - pp_pool_begin p) div pp_packet_size p = i"
  using assms by (simp_all add: node_buffer_def mult.commute)

lemma node_buffer_inject: "0 < pp_packet_size p \<Longrightarrow> node_buffer p i = node_buffer p j \<longleftrightarrow> i = j"
  by (simp add: node_buffer_def)

lemma pp_parts_ok:
  assumes "pp_ok b e p"
  shows "distinct (pp_free p) \<and> set (pp_free p) \<subseteq> pp_buffers p \<and> pp_buffers p \<inter> pp_fallback p = {}"
proof -
  have c: "chain (pp_nodes_next p) (pp_free_head p) (free_list (pp_nodes_next p) (pp_free_head p))"
    "distinct (free_list (pp_nodes_next p) (pp_free_head p))" and s: "0 < pp_packet_size p"
    using assms by (auto simp: pp_ok_def list_ok_def)
  have "distinct (pp_free p)" using c(2) s by (simp add: pp_free_def distinct_map inj_on_def node_buffer_inject)
  moreover have "set (pp_free p) \<subseteq> pp_buffers p" using chain_bounds [OF c(1)] by (auto simp: pp_free_def pp_buffers_def)
  moreover have "pp_buffers p \<inter> pp_fallback p = {}"
    using node_buffer_index(1,2) [OF s] assms unfolding pp_buffers_def pp_fallback_def pp_ok_def heap_ok_def by fastforce
  ultimately show ?thesis by blast
qed

lemma pp_fields_same:
  "pp_free p' = pp_free p" "pp_buffers p' = pp_buffers p"
  if "pp_packet_size p' = pp_packet_size p" "pp_pool_begin p' = pp_pool_begin p" "pp_nodes_next p' = pp_nodes_next p" "pp_free_head p' = pp_free_head p"
  using that by (simp_all add: pp_free_def pp_buffers_def node_buffer_def)

lemma pp_allocate_free:
  assumes "pp_ok b e p" and "pp_free p = x # xs"
  shows "\<exists>p'. pp_allocate nw p = (p', Some x) \<and> pp_ok b e p' \<and> pp_free p' = xs \<and> pp_buffers p' = pp_buffers p \<and> pp_fallback p' = pp_fallback p"
proof -
  obtain i "is" where i: "free_list (pp_nodes_next p) (pp_free_head p) = i # is" "x = node_buffer p i" "xs = map (node_buffer p) is"
    using assms(2) by (auto simp: pp_free_def)
  have l: "list_ok (pp_nodes_next p) (pp_free_head p)" using assms(1) by (simp add: pp_ok_def)
  note pop = list_ok_pop [OF l i(1)]
  let ?p = "p\<lparr>pp_alloc_count := pp_alloc_count p + 1, pp_free_head := pp_nodes_next p ! i, pp_available := pp_available p - 1,
    pp_allocated := pp_allocated p + 1\<rparr>"
  have "pp_allocate nw p = (?p, Some x)" using pop(1) i(2) by (simp add: pp_allocate_def Let_def node_buffer_def)
  moreover have "pp_ok b e ?p" using assms(1) pop i(1) by (simp add: pp_ok_def)
  moreover have "pp_free ?p = xs" using pop(4) i(3) by (simp add: pp_free_def node_buffer_def)
  ultimately show ?thesis by (intro exI [of _ ?p]) (simp add: pp_buffers_def pp_fallback_def node_buffer_def)
qed

lemma pp_allocate_empty:
  assumes "pp_ok b e p" and "pp_free p = []"
  shows "\<exists>p' r. pp_allocate (checked_new b e nw) p = (p', r) \<and> pp_ok b e p' \<and> pp_free p' = [] \<and> pp_buffers p' = pp_buffers p \<and>
    (case r of None \<Rightarrow> pp_fallback p' = pp_fallback p | Some x \<Rightarrow> x \<notin> pp_fallback p \<and> pp_fallback p' = insert x (pp_fallback p))"
proof -
  have "pp_free_head p = None" using assms list_ok_empty by (auto simp: pp_ok_def pp_free_def)
  then show ?thesis
    using assms
    by (cases "checked_new b e nw (pp_heap p)")
       (auto simp: pp_allocate_def Let_def pp_ok_def pp_free_def pp_buffers_def pp_fallback_def node_buffer_def checked_new_def heap_ok_def
          image_iff split: option.splits if_splits)
qed

lemma pp_deallocate_free:
  assumes "pp_ok b e p" and "x \<in> pp_buffers p" and "x \<notin> set (pp_free p)"
  shows "\<exists>p'. pp_deallocate (Some x) p = Some p' \<and> pp_ok b e p' \<and> pp_free p' = x # pp_free p \<and> pp_buffers p' = pp_buffers p \<and>
    pp_fallback p' = pp_fallback p"
proof -
  obtain i where i: "x = node_buffer p i" "i < length (pp_nodes_next p)" using assms(2) by (auto simp: pp_buffers_def)
  have s: "0 < pp_packet_size p" and l: "list_ok (pp_nodes_next p) (pp_free_head p)" and r: "pp_pool_begin p = b" "pp_pool_end p = e"
    "b + pp_packet_size p * length (pp_nodes_next p) = e" using assms(1) by (simp_all add: pp_ok_def)
  note idx = node_buffer_index [OF s i(2)]
  have "i \<notin> set (free_list (pp_nodes_next p) (pp_free_head p))" using assms(3) i(1) by (auto simp: pp_free_def)
  note push = list_ok_push [OF l i(2) this]
  let ?p = "p\<lparr>pp_dealloc_count := pp_dealloc_count p + 1, pp_nodes_next := (pp_nodes_next p)[i := pp_free_head p],
    pp_free_head := Some i, pp_available := pp_available p + 1, pp_allocated := pp_allocated p - 1\<rparr>"
  have "pp_deallocate (Some x) p = Some ?p" using idx s r i by (simp add: pp_deallocate_def Let_def)
  moreover have "pp_ok b e ?p" using assms(1) push by (simp add: pp_ok_def)
  moreover have "pp_free ?p = x # pp_free p" using push(2) i(1) by (simp add: pp_free_def node_buffer_def)
  ultimately show ?thesis by (intro exI [of _ ?p]) (simp add: pp_buffers_def pp_fallback_def node_buffer_def)
qed

lemma pp_deallocate_other:
  assumes "pp_ok b e p" and "x \<in> pp_fallback p"
  shows "\<exists>p'. pp_deallocate (Some x) p = Some p' \<and> pp_ok b e p' \<and> pp_free p' = pp_free p \<and> pp_buffers p' = pp_buffers p \<and>
    pp_fallback p' = pp_fallback p - {x}"
proof -
  obtain raw magic where r: "(raw, magic) \<in> set (pp_heap p)" "x = raw + FALLBACK_HEADER_SIZE"
    using assms(2) by (auto simp: pp_fallback_def)
  have ok: "distinct (map fst (pp_heap p))" "magic = kFallbackMagic" "\<not> (pp_pool_begin p \<le> x \<and> x < pp_pool_end p)"
    using assms(1) r by (auto simp: pp_ok_def heap_ok_def)
  have m: "map_of (pp_heap p) raw = Some kFallbackMagic" using r(1) ok(1,2) by simp
  let ?p = "p\<lparr>pp_dealloc_count := pp_dealloc_count p + 1, pp_heap := AList.delete raw (pp_heap p)\<rparr>"
  have "pp_deallocate (Some x) p = Some ?p" using ok(3) m r(2) by (auto simp: pp_deallocate_def Let_def)
  moreover have sub: "set (AList.delete raw (pp_heap p)) = {block \<in> set (pp_heap p). fst block \<noteq> raw}"
    by (auto simp: AList.delete_eq)
  have "heap_ok b e (AList.delete raw (pp_heap p))"
    using assms(1) sub by (auto simp: pp_ok_def heap_ok_def distinct_delete)
  then have "pp_ok b e ?p" using assms(1) by (simp add: pp_ok_def)
  moreover have "pp_fallback ?p = pp_fallback p - {x}" unfolding pp_fallback_def using sub r(2) by auto
  ultimately show ?thesis using pp_fields_same [of ?p p] by (intro exI [of _ ?p]) simp
qed

interpretation packet_pool: buffer_pool "pp_allocate (checked_new b e nw)" "\<lambda>x. pp_deallocate (Some x)" "pp_ok b e" pp_free pp_buffers pp_fallback
  for b e nw
  by unfold_locales (fact pp_parts_ok pp_allocate_free pp_allocate_empty pp_deallocate_free pp_deallocate_other)+


subsection \<open>NUMAPool keeps the contract\<close>

definition np_ok :: "NUMAPool \<Rightarrow> bool" where
  "np_ok p \<longleftrightarrow> list_ok (np_next p) (np_free_head p) \<and> 0 < np_slot_size p \<and> np_raw_memory p \<noteq> None \<and>
     np_available p = word_of_nat (length (free_list (np_next p) (np_free_head p)))"

definition np_free :: "NUMAPool \<Rightarrow> nat list" where
  "np_free p = map (slot_address p) (free_list (np_next p) (np_free_head p))"

definition np_buffers :: "NUMAPool \<Rightarrow> nat set" where
  "np_buffers p = slot_address p ` {..<length (np_next p)}"

lemma slot_address_inject: "0 < np_slot_size p \<Longrightarrow> slot_address p i = slot_address p j \<longleftrightarrow> i = j"
  by (simp add: slot_address_def)

lemma np_parts_ok: "np_ok p \<Longrightarrow> distinct (np_free p) \<and> set (np_free p) \<subseteq> np_buffers p \<and> np_buffers p \<inter> {} = {}"
  using chain_bounds
  by (fastforce simp: np_ok_def list_ok_def np_free_def np_buffers_def distinct_map inj_on_def slot_address_inject)

lemma np_allocate_free:
  assumes "np_ok p" and "np_free p = x # xs"
  shows "\<exists>p'. np_allocate p = (p', Some x) \<and> np_ok p' \<and> np_free p' = xs \<and> np_buffers p' = np_buffers p \<and> {} = {}"
proof -
  obtain i "is" where i: "free_list (np_next p) (np_free_head p) = i # is" "x = slot_address p i" "xs = map (slot_address p) is"
    using assms(2) by (auto simp: np_free_def)
  have l: "list_ok (np_next p) (np_free_head p)" using assms(1) by (simp add: np_ok_def)
  note pop = list_ok_pop [OF l i(1)]
  let ?p = "p\<lparr>np_free_head := np_next p ! i, np_available := np_available p - 1\<rparr>"
  have "np_allocate p = (?p, Some x)" using pop(1) i(2) by (simp add: np_allocate_def)
  moreover have "np_ok ?p" using assms(1) pop i(1) by (simp add: np_ok_def)
  moreover have "np_free ?p = xs" using pop(4) i(3) by (simp add: np_free_def slot_address_def)
  ultimately show ?thesis by (simp add: np_buffers_def slot_address_def)
qed

lemma np_allocate_empty:
  assumes "np_ok p" and "np_free p = []"
  shows "np_allocate p = (p, None)"
  using assms list_ok_empty by (auto simp: np_ok_def np_free_def np_allocate_def)

lemma np_deallocate_free:
  assumes "np_ok p" and "x \<in> np_buffers p" and "x \<notin> set (np_free p)"
  shows "\<exists>p'. np_deallocate (Some x) p = Some p' \<and> np_ok p' \<and> np_free p' = x # np_free p \<and> np_buffers p' = np_buffers p \<and> {} = {}"
proof -
  obtain i base where i: "x = base + i * np_slot_size p" "i < length (np_next p)" "np_raw_memory p = Some base"
    using assms(1,2) by (auto simp: np_buffers_def np_ok_def slot_address_def)
  have s: "0 < np_slot_size p" and l: "list_ok (np_next p) (np_free_head p)" using assms(1) by (simp_all add: np_ok_def)
  have "i \<notin> set (free_list (np_next p) (np_free_head p))" using assms(3) i by (auto simp: np_free_def slot_address_def)
  note push = list_ok_push [OF l i(2) this]
  let ?p = "p\<lparr>np_next := (np_next p)[i := np_free_head p], np_free_head := Some i, np_available := np_available p + 1\<rparr>"
  have "np_deallocate (Some x) p = Some ?p" using i s by (simp add: np_deallocate_def Let_def)
  moreover have "np_ok ?p" using assms(1) push by (simp add: np_ok_def)
  moreover have "np_free ?p = x # np_free p" using push(2) i by (simp add: np_free_def slot_address_def)
  ultimately show ?thesis by (simp add: np_buffers_def slot_address_def)
qed

interpretation numa_pool: buffer_pool np_allocate "\<lambda>x. np_deallocate (Some x)" np_ok np_free np_buffers "\<lambda>_. {}"
  by unfold_locales (use np_parts_ok np_allocate_free np_allocate_empty np_deallocate_free in \<open>force+\<close>)

subsection \<open>Properties\<close>

abbreviation in_pool :: "nat \<Rightarrow> nat \<Rightarrow> nat \<Rightarrow> nat \<Rightarrow> bool" where
  "in_pool base packet_size pool_size x \<equiv> base \<le> x \<and> x < base + packet_size * pool_size"

lemma packet_pool_new_ok:
  assumes "0 < packet_size" and "0 < pool_size"
  shows "pp_ok base (base + packet_size * pool_size) (packet_pool_new packet_size pool_size (Some base))"
    and "pp_buffers (packet_pool_new packet_size pool_size (Some base)) = set (pp_free (packet_pool_new packet_size pool_size (Some base)))"
    and "pp_fallback (packet_pool_new packet_size pool_size (Some base)) = {}"
proof -
  let ?nx = "map (\<lambda>i. if i + 1 < pool_size then Some (i + 1) else None) [0..<pool_size]"
  have l: "list_ok ?nx (Some 0)" "free_list ?nx (Some 0) = [0..<pool_size]"
    using list_okI [of ?nx "Some 0" "[0..<pool_size]"] chain_upt [of 0 pool_size] assms(2) by simp_all
  show "pp_ok base (base + packet_size * pool_size) (packet_pool_new packet_size pool_size (Some base))"
    using assms l by (simp add: pp_ok_def packet_pool_new_def heap_ok_def)
  show "pp_buffers (packet_pool_new packet_size pool_size (Some base)) = set (pp_free (packet_pool_new packet_size pool_size (Some base)))"
    using assms l by (simp add: pp_buffers_def pp_free_def packet_pool_new_def lessThan_atLeast0)
  show "pp_fallback (packet_pool_new packet_size pool_size (Some base)) = {}" using assms by (simp add: pp_fallback_def packet_pool_new_def)
qed


lemma pp_counts:
  assumes "pp_ok base e p" and "length (pp_nodes_next p) < 2 ^ 64" and "distinct held"
    and "set held = (pp_buffers p - set (pp_free p)) \<union> pp_fallback p"
  shows "unat (pp_available p) + length (filter (\<lambda>x. base \<le> x \<and> x < e) held) = length (pp_nodes_next p)"
    and "unat (pp_allocated p) = length (filter (\<lambda>x. base \<le> x \<and> x < e) held)"
    and "length (pp_heap p) + length (filter (\<lambda>x. base \<le> x \<and> x < e) held) = length held"
    and "set (filter (\<lambda>x. base \<le> x \<and> x < e) held) = pp_buffers p - set (pp_free p)"
proof -
  let ?n = "length (pp_nodes_next p)" and ?pool = "filter (\<lambda>x. base \<le> x \<and> x < e) held"
  have s: "0 < pp_packet_size p" and b: "pp_pool_begin p = base" "base + pp_packet_size p * ?n = e" and h: "heap_ok base e (pp_heap p)"
    and av: "pp_available p = word_of_nat (length (pp_free p))" "pp_allocated p = word_of_nat ?n - pp_available p"
    using assms(1) by (simp_all add: pp_ok_def pp_free_def)
  note parts = pp_parts_ok [OF assms(1)]
  have "x \<in> pp_buffers p \<Longrightarrow> base \<le> x \<and> x < e" for x using node_buffer_index(1,2) [OF s] b by (auto simp: pp_buffers_def)
  moreover have "x \<in> pp_fallback p \<Longrightarrow> \<not> (base \<le> x \<and> x < e)" for x using h by (fastforce simp: pp_fallback_def heap_ok_def)
  ultimately show pool: "set ?pool = pp_buffers p - set (pp_free p)" using assms(4) by auto
  have "card (pp_buffers p) = ?n" using s by (simp add: pp_buffers_def card_image inj_on_def node_buffer_inject)
  moreover have "length ?pool = card (pp_buffers p - set (pp_free p))" using pool assms(3) by (metis distinct_card distinct_filter)
  ultimately have len: "length ?pool + length (pp_free p) = ?n"
    using parts card_Diff_subset [of "set (pp_free p)" "pp_buffers p"] card_mono [of "pp_buffers p" "set (pp_free p)"]
    by (simp add: distinct_card pp_buffers_def)
  then have u: "unat (word_of_nat (length (pp_free p)) :: u64) = length (pp_free p)" "unat (word_of_nat ?n :: u64) = ?n"
    using assms(2) by (simp_all add: unat_of_nat take_bit_nat_eq_self)
  then show "unat (pp_available p) + length ?pool = ?n" using len av(1) by simp
  have "word_of_nat ?n - word_of_nat (length (pp_free p)) = (word_of_nat (length ?pool) :: u64)" using len by (metis add_diff_cancel_right' of_nat_add)
  then show "unat (pp_allocated p) = length ?pool" using av len assms(2) by (simp add: unat_of_nat take_bit_nat_eq_self)
  have "distinct (map (\<lambda>block. fst block + FALLBACK_HEADER_SIZE) (pp_heap p))"
    using h by (simp add: heap_ok_def distinct_map inj_on_def)
  then have "card (pp_fallback p) = length (pp_heap p)" unfolding pp_fallback_def by (metis distinct_card length_map list.set_map)
  moreover have "card (set held) = card (pp_buffers p - set (pp_free p)) + card (pp_fallback p)"
    unfolding assms(4) using parts by (intro card_Un_disjoint) (auto simp: pp_buffers_def pp_fallback_def)
  ultimately show "length (pp_heap p) + length ?pool = length held"
    using pool assms(3) by (metis add.commute distinct_card distinct_filter)
qed

text \<open>
  C23: The packet pool never hands out memory twice and its counters are exact.  A client takes buffers and gives back, in any
  order, buffers it holds; the pool falls back to the heap whenever it is empty.  Then no deallocation is faulty, all
  buffers held are different, those from the pool do not overlap, the available and the allocated count are the numbers of free and of
  held pool buffers, and exactly the held heap buffers are still live.
\<close>

theorem packet_pool_exact:
  assumes "0 < packet_size" and "0 < pool_size" and "pool_size < 2 ^ 64" and "new_ok base (base + packet_size * pool_size) nothrow_new"
  shows "\<exists>p held. client_run (pp_allocate nothrow_new) (\<lambda>x. pp_deallocate (Some x)) ops
      (packet_pool_new packet_size pool_size (Some base)) [] = Some (p, held) \<and> distinct held \<and>
    (let pool = filter (in_pool base packet_size pool_size) held in
      unat (ps_available (pp_get_statistics p)) + length pool = pool_size \<and> unat (ps_allocated (pp_get_statistics p)) = length pool \<and>
      length (pp_heap p) + length pool = length held \<and> (\<forall>x \<in> set pool. \<forall>y \<in> set pool. x < y \<longrightarrow> x + packet_size \<le> y))"
proof -
  let ?p = "packet_pool_new packet_size pool_size (Some base)" and ?e = "base + packet_size * pool_size"
  note new = packet_pool_new_ok [OF assms(1,2), of base]
  from packet_pool.client_ok [OF new(1), of "[]" nothrow_new ops] new(2,3) obtain p held where
    r: "client_run (pp_allocate nothrow_new) (\<lambda>x. pp_deallocate (Some x)) ops ?p [] = Some (p, held)" "pp_ok base ?e p" "distinct held"
      "set held = (pp_buffers p - set (pp_free p)) \<union> pp_fallback p" "pp_buffers p = pp_buffers ?p"
    unfolding checked_new_id [OF assms(4)] by auto
  have "card (pp_buffers q) = length (pp_nodes_next q)" if "pp_ok base ?e q" for q
    using that by (simp add: pp_buffers_def card_image inj_on_def node_buffer_inject pp_ok_def)
  from this [OF r(2)] this [OF new(1)] r(5) have n: "length (pp_nodes_next p) = pool_size"
    using assms(1,2) by (simp add: packet_pool_new_def)
  note counts = pp_counts [OF r(2) _ r(3,4)]
  have "x + packet_size \<le> y" if xy: "x \<in> pp_buffers ?p" "y \<in> pp_buffers ?p" "x < y" for x y
  proof -
    obtain i j where "x = base + i * packet_size" "y = base + j * packet_size"
      using xy(1,2) assms(1,2) by (auto simp: pp_buffers_def node_buffer_def packet_pool_new_def)
    moreover from this xy(3) have "Suc i * packet_size \<le> j * packet_size" by (intro mult_le_mono1) auto
    ultimately show ?thesis by simp
  qed
  then show ?thesis using r(1,3) counts n assms(3) r(5) by (intro exI [of _ p] exI [of _ held]) (simp add: Let_def pp_get_statistics_def)
qed

definition sample_new :: "(nat \<times> u32) list \<Rightarrow> nat option" where
  "sample_new heap = Some (1000 + sum_list (map fst heap))"

theorem packet_pool_exact_witness:
  "\<exists>p held. client_run (pp_allocate sample_new) (\<lambda>x. pp_deallocate (Some x)) [Take, Take, Take, Give 100, Take, Give 1004]
      (packet_pool_new 64 2 (Some 100)) [] = Some (p, held) \<and> held = [100, 164] \<and> pp_heap p = []"
proof -
  have "raw \<notin> fst ` set heap \<and> \<not> (100 \<le> raw + FALLBACK_HEADER_SIZE \<and> raw + FALLBACK_HEADER_SIZE < 100 + 64 * 2)"
    if "sample_new heap = Some raw" for heap raw
  proof -
    have "a \<le> sum_list (map fst heap)" if "a \<in> fst ` set heap" for a using member_le_sum_list [of a "map fst heap"] that by simp
    with that show ?thesis by (force simp: sample_new_def)
  qed
  then have "new_ok 100 (100 + 64 * 2) sample_new" by (simp add: new_ok_def)
  from packet_pool_exact [of 64 2 100 sample_new "[Take, Take, Take, Give 100, Take, Give 1004]"] this
  obtain p held where r: "client_run (pp_allocate sample_new) (\<lambda>x. pp_deallocate (Some x)) [Take, Take, Take, Give 100, Take, Give 1004]
      (packet_pool_new 64 2 (Some 100)) [] = Some (p, held)" by auto
  moreover have "map_option (\<lambda>(p, held). (held, pp_heap p)) (client_run (pp_allocate sample_new) (\<lambda>x. pp_deallocate (Some x))
      [Take, Take, Take, Give 100, Take, Give 1004] (packet_pool_new 64 2 (Some 100)) []) = Some ([100, 164], [])"
    by code_simp
  ultimately show ?thesis by simp
qed

text \<open>The same for \<^verbatim>\<open>NUMAPool\<close>, which has no fallback: the client holds exactly what is not free.\<close>

lemma numa_pool_exact:
  assumes "0 < slot" and "0 < count"
  shows "\<exists>p held. client_run np_allocate (\<lambda>x. np_deallocate (Some x)) ops (numa_pool_new slot count (Some base)) [] = Some (p, held) \<and>
    np_ok p \<and> distinct held \<and> set held = np_buffers p - set (np_free p) \<and> np_buffers p = (\<lambda>i. base + i * slot) ` {..<count}"
proof -
  let ?p = "numa_pool_new slot count (Some base)" and ?nx = "map (\<lambda>i. if i = 0 then None else Some (i - 1)) [0..<count]"
  have l: "list_ok ?nx (Some (count - 1))" "free_list ?nx (Some (count - 1)) = rev [0..<count]"
    using list_okI [of ?nx "Some (count - 1)" "rev [0..<count]"] chain_downto [of count count] assms(2) by simp_all
  have ok: "np_ok ?p" and b: "np_buffers ?p = (\<lambda>i. base + i * slot) ` {..<count}"
    using assms l by (simp_all add: np_ok_def numa_pool_new_def np_buffers_def slot_address_def)
  have "set (np_free ?p) = np_buffers ?p"
    using assms l by (simp add: np_free_def np_buffers_def numa_pool_new_def lessThan_atLeast0)
  then show ?thesis using numa_pool.client_ok [OF ok, of "[]" ops] b by auto
qed

end
