(* ===== verification/Pool_Concurrency.thy ===== *)
theory Pool_Concurrency
  imports Packet_Pool
begin

text \<open>
  The compare-and-swap loops of the free list (\<^verbatim>\<open>PacketPool::allocate\<close>, \<^verbatim>\<open>PacketPool::deallocate\<close> and the same code in
  \<^verbatim>\<open>NUMAPool\<close>) under arbitrary interleavings of any number of threads.  An action is one access to shared memory; atomics are
  sequentially consistent.  A node that was handed out is in the list \<open>held\<close> until some thread starts to give it back: envelopes
  carry buffers from the receive to the processing thread.

  With one allocating thread, which is how \<^verbatim>\<open>ArrayFaceReceiver\<close> uses its pool, the list stays a list of free nodes.  With two,
  a node can be taken, returned and still be at the head when a sleeping thread installs its stale successor.
\<close>

datatype pool_pc =
    Idle
  | ALoaded nat                    \<comment> \<open>head loaded, not null\<close>
  | ARead nat "nat option"         \<comment> \<open>head and its successor as read\<close>
  | FLoaded nat "nat option"       \<comment> \<open>node to return, head as loaded\<close>
  | FLinked nat "nat option"       \<comment> \<open>successor of the node written\<close>

record pool_race =
  pr_head :: "nat option"
  pr_next :: "nat option list"
  pr_pc :: "nat \<Rightarrow> pool_pc"
  pr_held :: "nat list"

datatype pool_action = LoadHead | ReadNext | PopOk | PopFail | StartFree nat | Link | PushOk | PushFail

definition allocating :: "pool_action \<Rightarrow> bool" where
  "allocating a \<longleftrightarrow> a \<in> {LoadHead, ReadNext, PopOk, PopFail}"

definition reload :: "nat option \<Rightarrow> pool_pc" where
  "reload head = (case head of None \<Rightarrow> Idle | Some h \<Rightarrow> ALoaded h)"

definition pool_act :: "nat \<Rightarrow> pool_action \<Rightarrow> pool_race \<Rightarrow> pool_race option" where
  "pool_act t a s =
     (let goto = (\<lambda>pc s. Some (s\<lparr>pr_pc := (pr_pc s)(t := pc)\<rparr>)) in
      case (a, pr_pc s t) of
        (LoadHead, Idle) \<Rightarrow> goto (reload (pr_head s)) s
      | (ReadNext, ALoaded h) \<Rightarrow> goto (ARead h (pr_next s ! h)) s
      | (PopOk, ARead h n) \<Rightarrow>
          if pr_head s = Some h then goto Idle (s\<lparr>pr_head := n, pr_held := h # pr_held s\<rparr>) else None
      | (PopFail, ARead h n) \<Rightarrow> goto (reload (pr_head s)) s
      | (StartFree n, Idle) \<Rightarrow>
          if n \<in> set (pr_held s) then goto (FLoaded n (pr_head s)) (s\<lparr>pr_held := remove1 n (pr_held s)\<rparr>) else None
      | (Link, FLoaded n h) \<Rightarrow> goto (FLinked n h) (s\<lparr>pr_next := (pr_next s)[n := h]\<rparr>)
      | (PushOk, FLinked n h) \<Rightarrow> if pr_head s = h then goto Idle (s\<lparr>pr_head := Some n\<rparr>) else None
      | (PushFail, FLinked n h) \<Rightarrow> goto (FLoaded n (pr_head s)) s
      | _ \<Rightarrow> None)"

inductive pool_step :: "nat set \<Rightarrow> pool_race \<Rightarrow> pool_race \<Rightarrow> bool" for allocators where
  pool_step: "pool_act t a s = Some s' \<Longrightarrow> allocating a \<longrightarrow> t \<in> allocators \<Longrightarrow> pool_step allocators s s'"

definition pool_start :: "nat \<Rightarrow> pool_race" where
  "pool_start n =
     \<lparr>pr_head = (if 0 < n then Some 0 else None), pr_next = map (\<lambda>i. if i + 1 < n then Some (i + 1) else None) [0..<n],
      pr_pc = (\<lambda>_. Idle), pr_held = []\<rparr>"

inductive pool_reachable :: "nat set \<Rightarrow> nat \<Rightarrow> pool_race \<Rightarrow> bool" for allocators n where
  pool_start: "pool_reachable allocators n (pool_start n)"
| pool_next: "pool_reachable allocators n s \<Longrightarrow> pool_step allocators s s' \<Longrightarrow> pool_reachable allocators n s'"

subsection \<open>One allocating thread\<close>

fun freeing :: "pool_pc \<Rightarrow> nat option" where
  "freeing (FLoaded n h) = Some n"
| "freeing (FLinked n h) = Some n"
| "freeing _ = None"

fun pc_ok :: "nat \<Rightarrow> nat list \<Rightarrow> nat option list \<Rightarrow> nat \<Rightarrow> pool_pc \<Rightarrow> bool" where
  "pc_ok a xs nx t (ALoaded h) \<longleftrightarrow> t = a \<and> h \<in> set xs"
| "pc_ok a xs nx t (ARead h n) \<longleftrightarrow> t = a \<and> h \<in> set xs \<and> n = nx ! h"
| "pc_ok a xs nx t (FLinked n h) \<longleftrightarrow> nx ! n = h"
| "pc_ok a xs nx t _ \<longleftrightarrow> True"

definition owned :: "(nat \<Rightarrow> pool_pc) \<Rightarrow> nat set" where
  "owned pcs = {n. \<exists>t. freeing (pcs t) = Some n}"

definition one_owner :: "(nat \<Rightarrow> pool_pc) \<Rightarrow> bool" where
  "one_owner pcs \<longleftrightarrow> (\<forall>t u n. freeing (pcs t) = Some n \<longrightarrow> freeing (pcs u) = Some n \<longrightarrow> t = u)"

text \<open>Every node is in the free list, being returned by one thread, or held, and only one of these, once.\<close>

definition pool_inv :: "nat \<Rightarrow> nat list \<Rightarrow> pool_race \<Rightarrow> bool" where
  "pool_inv a xs s \<longleftrightarrow>
     chain (pr_next s) (pr_head s) xs \<and> distinct (xs @ pr_held s) \<and> owned (pr_pc s) \<inter> set (xs @ pr_held s) = {} \<and>
     owned (pr_pc s) \<union> set (xs @ pr_held s) = {..<length (pr_next s)} \<and> one_owner (pr_pc s) \<and>
     (\<forall>t. pc_ok a xs (pr_next s) t (pr_pc s t))"

lemma owned_same: "freeing pc = freeing (pcs t) \<Longrightarrow> owned (pcs(t := pc)) = owned pcs \<and> one_owner (pcs(t := pc)) = one_owner pcs"
proof -
  assume "freeing pc = freeing (pcs t)"
  then have "freeing ((pcs(t := pc)) u) = freeing (pcs u)" for u by simp
  then show ?thesis unfolding owned_def one_owner_def by presburger
qed

lemma owned_update: "n \<in> owned (pcs(t := pc)) \<longleftrightarrow> freeing pc = Some n \<or> (\<exists>u. u \<noteq> t \<and> freeing (pcs u) = Some n)"
  by (auto simp: owned_def)

lemma owned_iff: "n \<in> owned pcs \<longleftrightarrow> freeing (pcs t) = Some n \<or> (\<exists>u. u \<noteq> t \<and> freeing (pcs u) = Some n)"
  by (auto simp: owned_def)

lemma owned_take: "freeing (pcs t) = None \<Longrightarrow> freeing pc = Some n \<Longrightarrow> owned (pcs(t := pc)) = insert n (owned pcs)"
  by (auto simp: owned_update owned_iff [of _ pcs t])

lemma one_owner_take:
  "freeing (pcs t) = None \<Longrightarrow> freeing pc = Some n \<Longrightarrow> n \<notin> owned pcs \<Longrightarrow> one_owner pcs \<Longrightarrow> one_owner (pcs(t := pc))"
  by (auto simp: owned_iff [of _ pcs t] one_owner_def)

lemma owned_drop:
  "freeing (pcs t) = Some n \<Longrightarrow> freeing pc = None \<Longrightarrow> one_owner pcs \<Longrightarrow> owned (pcs(t := pc)) = owned pcs - {n} \<and> one_owner (pcs(t := pc))"
  by (auto simp: owned_update owned_iff [of _ pcs t] one_owner_def)

lemma reload_ok: "chain nx h xs \<Longrightarrow> pc_ok a xs nx a (reload h) \<and> freeing (reload h) = None"
  by (cases xs) (auto simp: reload_def)

lemma pool_invD:
  assumes "pool_inv a xs s"
  shows "chain (pr_next s) (pr_head s) xs" "distinct (xs @ pr_held s)" "owned (pr_pc s) \<inter> set (xs @ pr_held s) = {}"
    "owned (pr_pc s) \<union> set (xs @ pr_held s) = {..<length (pr_next s)}" "one_owner (pr_pc s)"
    "\<forall>u. pc_ok a xs (pr_next s) u (pr_pc s u)"
  using assms by (simp_all add: pool_inv_def)

lemma pool_inv_quiet:
  assumes "pool_inv a xs s" and "freeing pc = freeing (pr_pc s t)" and "pc_ok a xs (pr_next s) t pc"
  shows "pool_inv a xs (s\<lparr>pr_pc := (pr_pc s)(t := pc)\<rparr>)"
  using pool_invD [OF assms(1)] owned_same [of pc "pr_pc s" t] assms(2,3) by (simp add: pool_inv_def)

lemma pool_alloc_inv:
  assumes "pool_inv a xs s" and "pool_act t act s = Some s'" and "allocating act" and "t = a"
  shows "\<exists>xs'. pool_inv a xs' s'"
proof -
  note inv = pool_invD [OF assms(1)] and quiet = pool_inv_quiet [OF assms(1), where t = t]
  show ?thesis
  proof (cases act)
    case LoadHead
    then have "t = a" "pr_pc s t = Idle" "s' = s\<lparr>pr_pc := (pr_pc s)(t := reload (pr_head s))\<rparr>"
      using assms(2,4) by (auto simp: pool_act_def Let_def split: pool_pc.splits)
    then show ?thesis using quiet [of "reload (pr_head s)"] reload_ok [OF inv(1), of a] by auto
  next
    case ReadNext
    then obtain h where "pr_pc s t = ALoaded h" "s' = s\<lparr>pr_pc := (pr_pc s)(t := ARead h (pr_next s ! h))\<rparr>"
      using assms(2) by (auto simp: pool_act_def Let_def split: pool_pc.splits)
    then show ?thesis using quiet [of "ARead h (pr_next s ! h)"] inv(6) by (metis freeing.simps(4,5) pc_ok.simps(1,2))
  next
    case PopOk
    then obtain h n where pc: "pr_pc s t = ARead h n" "pr_head s = Some h"
      "s' = s\<lparr>pr_head := n, pr_held := h # pr_held s, pr_pc := (pr_pc s)(t := Idle)\<rparr>"
      using assms(2) by (auto simp: pool_act_def Let_def split: pool_pc.splits if_splits)
    obtain xs' where xs: "xs = h # xs'" using inv(1) pc(2) by (cases xs) auto
    have n: "n = pr_next s ! h" using inv(6) pc(1) by (metis pc_ok.simps(2))
    have ta: "t = a" using assms(4) by simp
    have others: "pc_ok a xs' (pr_next s) u (pr_pc s u)" if "u \<noteq> t" for u
      using inv(6) that ta by (cases "pr_pc s u") (metis pc_ok.simps)+
    have "pool_inv a xs' s'"
      using inv xs n others owned_same [of Idle "pr_pc s" t] pc unfolding pool_inv_def by auto
    then show ?thesis by blast
  next
    case PopFail
    then obtain h n where "pr_pc s t = ARead h n" "t = a" "s' = s\<lparr>pr_pc := (pr_pc s)(t := reload (pr_head s))\<rparr>"
      using assms(2,4) by (auto simp: pool_act_def Let_def split: pool_pc.splits)
    then show ?thesis using quiet [of "reload (pr_head s)"] reload_ok [OF inv(1), of a] by auto
  qed (use assms(3) in \<open>simp_all add: allocating_def\<close>)
qed

lemma pool_free_inv:
  assumes "pool_inv a xs s" and "pool_act t act s = Some s'" and "\<not> allocating act"
  shows "\<exists>xs'. pool_inv a xs' s'"
proof -
  note inv = pool_invD [OF assms(1)] and quiet = pool_inv_quiet [OF assms(1), where t = t]
  show ?thesis
  proof (cases act)
    case (StartFree n)
    then have pc: "pr_pc s t = Idle" "n \<in> set (pr_held s)"
      "s' = s\<lparr>pr_held := remove1 n (pr_held s), pr_pc := (pr_pc s)(t := FLoaded n (pr_head s))\<rparr>"
      using assms(2) by (auto simp: pool_act_def Let_def split: pool_pc.splits if_splits)
    have "n \<notin> owned (pr_pc s)" using inv(3) pc(2) by auto
    with owned_take [of "pr_pc s" t "FLoaded n (pr_head s)" n] one_owner_take [of "pr_pc s" t "FLoaded n (pr_head s)" n] pc inv have "pool_inv a xs s'"
      unfolding pool_inv_def by (auto simp: distinct_remove1)
    then show ?thesis by blast
  next
    case Link
    then obtain n h where pc: "pr_pc s t = FLoaded n h"
      "s' = s\<lparr>pr_next := (pr_next s)[n := h], pr_pc := (pr_pc s)(t := FLinked n h)\<rparr>"
      using assms(2) by (auto simp: pool_act_def Let_def split: pool_pc.splits)
    have n: "n \<in> owned (pr_pc s)" using pc(1) by (auto simp: owned_def intro: exI [of _ t])
    then have "n \<notin> set xs" "n < length (pr_next s)" using inv(3,4) by auto
    moreover have "pc_ok a xs ((pr_next s)[n := h]) u (pr_pc s u)" if "u \<noteq> t" for u
    proof -
      have "freeing (pr_pc s u) \<noteq> Some n" using inv(5) pc(1) that by (metis freeing.simps(1) one_owner_def)
      with inv(6) \<open>n \<notin> set xs\<close> show ?thesis by (cases "pr_pc s u") (metis pc_ok.simps nth_list_update_neq freeing.simps(2))+
    qed
    ultimately have "pool_inv a xs s'"
      using inv owned_same [of "FLinked n h" "pr_pc s" t] pc unfolding pool_inv_def by auto
    then show ?thesis by blast
  next
    case PushOk
    then obtain n h where pc: "pr_pc s t = FLinked n h" "pr_head s = h" "s' = s\<lparr>pr_head := Some n, pr_pc := (pr_pc s)(t := Idle)\<rparr>"
      using assms(2) by (auto simp: pool_act_def Let_def split: pool_pc.splits if_splits)
    have n: "n \<in> owned (pr_pc s)" using pc(1) by (auto simp: owned_def intro: exI [of _ t])
    then have n': "n \<notin> set (xs @ pr_held s)" "n < length (pr_next s)" "pr_next s ! n = h"
      using inv(3,4,6) pc(1) by (auto simp: disjoint_iff) (metis pc_ok.simps(3))
    have others: "pc_ok a (n # xs) (pr_next s) u (pr_pc s u)" for u using inv(6) by (cases "pr_pc s u") (metis pc_ok.simps list.set_intros(2))+
    have "pool_inv a (n # xs) s'"
      using inv n n' others owned_drop [of "pr_pc s" t n Idle] pc unfolding pool_inv_def by auto
    then show ?thesis by blast
  next
    case PushFail
    then obtain n h where "pr_pc s t = FLinked n h" "s' = s\<lparr>pr_pc := (pr_pc s)(t := FLoaded n (pr_head s))\<rparr>"
      using assms(2) by (auto simp: pool_act_def Let_def split: pool_pc.splits)
    then show ?thesis using quiet [of "FLoaded n (pr_head s)"] by auto
  qed (use assms(3) in \<open>simp_all add: allocating_def\<close>)
qed

subsection \<open>Properties\<close>

text \<open>
  C12: The free list is safe with one allocating thread and any number of threads that return buffers.  However their accesses
  interleave, each of the \<open>n\<close> buffers is at every moment in the free list, on its way back in the hands of one thread, or held exactly
  once; the links from the head run through exactly the free ones.
\<close>

theorem pool_single_allocator:
  assumes "pool_reachable {a} n s"
  shows "\<exists>xs. chain (pr_next s) (pr_head s) xs \<and> distinct (xs @ pr_held s) \<and> owned (pr_pc s) \<inter> set (xs @ pr_held s) = {} \<and>
    owned (pr_pc s) \<union> set (xs @ pr_held s) = {..<n} \<and> one_owner (pr_pc s)"
proof -
  have "(\<exists>xs. pool_inv a xs s) \<and> length (pr_next s) = n"
    using assms
  proof induction
    case pool_start
    have "chain (pr_next (pool_start n)) (pr_head (pool_start n)) [0..<n]" using chain_upt [of 0 n] by (simp add: pool_start_def)
    then have "pool_inv a [0..<n] (pool_start n)" by (auto simp: pool_inv_def pool_start_def owned_def one_owner_def)
    then show ?case by (auto simp: pool_start_def)
  next
    case (pool_next s s')
    then obtain t act where step: "pool_act t act s = Some s'" "allocating act \<longrightarrow> t = a" by (auto elim: pool_step.cases)
    then have "length (pr_next s') = length (pr_next s)"
      by (auto simp: pool_act_def Let_def split: pool_action.splits pool_pc.splits if_splits)
    moreover have "\<exists>xs. pool_inv a xs s'"
      using pool_next.IH pool_alloc_inv [OF _ step(1)] pool_free_inv [OF _ step(1)] step(2) by (cases "allocating act") blast+
    ultimately show ?case using pool_next.IH by simp
  qed
  then show ?thesis using pool_invD by metis
qed

fun pool_acts :: "(nat \<times> pool_action) list \<Rightarrow> pool_race \<Rightarrow> pool_race option" where
  "pool_acts [] s = Some s"
| "pool_acts ((t, a) # as) s = (case pool_act t a s of None \<Rightarrow> None | Some s' \<Rightarrow> pool_acts as s')"

lemma pool_acts_reachable:
  assumes "pool_reachable A n s" and "pool_acts as s = Some s'" and "\<forall>(t, a) \<in> set as. allocating a \<longrightarrow> t \<in> A"
  shows "pool_reachable A n s'"
  using assms
proof (induction "as" s rule: pool_acts.induct)
  case (2 t a "as" s)
  then obtain s1 where "pool_act t a s = Some s1" "pool_acts as s1 = Some s'" by (auto split: option.splits)
  with 2 show ?case using pool_next [OF 2(2) pool_step, of t a s1] by auto
qed simp

theorem pool_single_allocator_witness:
  "\<exists>s xs. pool_reachable {0} 3 s \<and> pr_held s = [1] \<and> chain (pr_next s) (pr_head s) xs \<and> owned (pr_pc s) \<union> set (xs @ [1]) = {..<3}"
proof -
  let ?as = "[(0, LoadHead), (0, ReadNext), (0, PopOk), (0, LoadHead), (0, ReadNext), (1, StartFree 0), (0, PopOk), (1, Link), (1, PushFail),
    (1, Link), (1, PushOk)]"
  have held: "map_option pr_held (pool_acts ?as (pool_start 3)) = Some [1]" by code_simp
  then obtain s where s: "pool_acts ?as (pool_start 3) = Some s" "pr_held s = [1]" by auto
  have "pool_reachable {0} 3 s"
    by (rule pool_acts_reachable [OF pool_reachable.pool_start s(1)]) (simp add: allocating_def)
  with pool_single_allocator [OF this] s(2) show ?thesis by auto
qed

text \<open>
  With two allocating threads the list is not safe.  Thread 0 reads node 0 at the head and its successor, node 1; thread 1 takes
  nodes 0 and 1 and returns node 0; thread 0's compare-and-swap finds node 0 at the head again and installs node 1, which is in
  use, as the new head; the next allocation hands node 1 out a second time.
\<close>

lemma pool_two_allocators_aba:
  "\<exists>s. pool_reachable {0, 1} 3 s \<and> \<not> distinct (pr_held s)"
proof -
  let ?take = "[(1, LoadHead), (1, ReadNext), (1, PopOk)]"
  let ?as = "[(0, LoadHead), (0, ReadNext)] @ ?take @ ?take @ [(1, StartFree 0), (1, Link), (1, PushOk), (0, PopOk)] @ ?take"
  have "map_option pr_held (pool_acts ?as (pool_start 3)) = Some [1, 0, 1]" by code_simp
  then obtain s where s: "pool_acts ?as (pool_start 3) = Some s" "pr_held s = [1, 0, 1]" by auto
  have "pool_reachable {0, 1} 3 s"
    by (rule pool_acts_reachable [OF pool_reachable.pool_start s(1)]) (simp add: allocating_def)
  then show ?thesis using s(2) by (intro exI [of _ s]) simp
qed

end
