(* ===== verification/Floating.thy ===== *)
theory Floating
  imports Prelude
begin

text \<open>
  IEEE 754 numbers as the signal and data processing uses them.  A \<^verbatim>\<open>double\<close> or \<^verbatim>\<open>float\<close> is its bit pattern.  Comparison,
  \<^verbatim>\<open>fabs\<close> and the constants are those of the standard; a comparison with a NaN is false.  The rounded arithmetic and the
  functions of \<^verbatim>\<open><cmath>\<close>, which the language leaves to the platform, are the fields of the record \<open>fpu\<close>, an argument of
  every definition that computes.  Expressions are taken as written, one rounding per operation.

  The locale \<open>float_order\<close> is what the components rely on: a strict weak order on the numbers that are not NaN.  Both widths
  are interpretations of it.
\<close>

type_synonym f64 = u64
type_synonym f32 = u32

definition f64_nan :: "f64 \<Rightarrow> bool" where
  "f64_nan x \<longleftrightarrow> 0x7FF0000000000000 < x AND 0x7FFFFFFFFFFFFFFF"

definition f32_nan :: "f32 \<Rightarrow> bool" where
  "f32_nan x \<longleftrightarrow> 0x7F800000 < x AND 0x7FFFFFFF"

text \<open>The rank of a number: its magnitude with the sign, so that both zeros are equal.\<close>

definition f64_rank :: "f64 \<Rightarrow> int" where
  "f64_rank x = (let m = uint (x AND 0x7FFFFFFFFFFFFFFF) in if bit x 63 then - m else m)"

definition f32_rank :: "f32 \<Rightarrow> int" where
  "f32_rank x = (let m = uint (x AND 0x7FFFFFFF) in if bit x 31 then - m else m)"

definition f64_lt :: "f64 \<Rightarrow> f64 \<Rightarrow> bool" where
  "f64_lt x y \<longleftrightarrow> \<not> f64_nan x \<and> \<not> f64_nan y \<and> f64_rank x < f64_rank y"

definition f64_le :: "f64 \<Rightarrow> f64 \<Rightarrow> bool" where
  "f64_le x y \<longleftrightarrow> \<not> f64_nan x \<and> \<not> f64_nan y \<and> f64_rank x \<le> f64_rank y"

definition f32_lt :: "f32 \<Rightarrow> f32 \<Rightarrow> bool" where
  "f32_lt x y \<longleftrightarrow> \<not> f32_nan x \<and> \<not> f32_nan y \<and> f32_rank x < f32_rank y"

definition f32_le :: "f32 \<Rightarrow> f32 \<Rightarrow> bool" where
  "f32_le x y \<longleftrightarrow> \<not> f32_nan x \<and> \<not> f32_nan y \<and> f32_rank x \<le> f32_rank y"

definition f64_fabs :: "f64 \<Rightarrow> f64" where
  "f64_fabs x = x AND 0x7FFFFFFFFFFFFFFF"

definition DBL_MAX :: f64 where
  "DBL_MAX = 0x7FEFFFFFFFFFFFFF"

record fpu =
  d_add :: "f64 \<Rightarrow> f64 \<Rightarrow> f64"
  d_sub :: "f64 \<Rightarrow> f64 \<Rightarrow> f64"
  d_mul :: "f64 \<Rightarrow> f64 \<Rightarrow> f64"
  d_div :: "f64 \<Rightarrow> f64 \<Rightarrow> f64"
  d_sqrt :: "f64 \<Rightarrow> f64"
  d_sin :: "f64 \<Rightarrow> f64"
  d_cos :: "f64 \<Rightarrow> f64"
  d_atan2 :: "f64 \<Rightarrow> f64 \<Rightarrow> f64"
  d_of_size :: "u64 \<Rightarrow> f64"
  s_add :: "f32 \<Rightarrow> f32 \<Rightarrow> f32"
  s_mul :: "f32 \<Rightarrow> f32 \<Rightarrow> f32"
  s_div :: "f32 \<Rightarrow> f32 \<Rightarrow> f32"
  s_sqrt :: "f32 \<Rightarrow> f32"
  s_log10 :: "f32 \<Rightarrow> f32"
  s_of_u32 :: "u32 \<Rightarrow> f32"

text \<open>\<^verbatim>\<open>std::sqrt(x * x + y * y + z * z)\<close>.\<close>

definition d_norm3 :: "fpu \<Rightarrow> f64 \<Rightarrow> f64 \<Rightarrow> f64 \<Rightarrow> f64" where
  "d_norm3 fp x y z = d_sqrt fp (d_add fp (d_add fp (d_mul fp x x) (d_mul fp y y)) (d_mul fp z z))"


subsection \<open>The order of the numbers\<close>

locale float_order =
  fixes lt :: "'f \<Rightarrow> 'f \<Rightarrow> bool" and le :: "'f \<Rightarrow> 'f \<Rightarrow> bool" and nan :: "'f \<Rightarrow> bool"
  assumes lt_number: "lt x y \<Longrightarrow> \<not> nan x \<and> \<not> nan y"
    and lt_irrefl: "\<not> lt x x"
    and lt_split: "lt x z \<Longrightarrow> \<not> nan y \<Longrightarrow> lt x y \<or> lt y z"
    and lt_asym: "lt x y \<Longrightarrow> \<not> lt y x"
    and le_iff: "le x y \<longleftrightarrow> \<not> nan x \<and> \<not> nan y \<and> \<not> lt y x"
begin

lemma lt_trans: "lt x y \<Longrightarrow> lt y z \<Longrightarrow> lt x z"
  using lt_split [of x y z] lt_split [of y z x] lt_asym lt_number by blast

lemma le_lt_trans: "le x y \<Longrightarrow> lt y z \<Longrightarrow> lt x z"
  using lt_split [of y z x] by (auto simp: le_iff)

lemma lt_le_trans: "lt x y \<Longrightarrow> le y z \<Longrightarrow> lt x z"
  using lt_split [of x y z] by (auto simp: le_iff)

lemma le_trans: "le x y \<Longrightarrow> le y z \<Longrightarrow> le x z"
  using lt_split [of z x y] by (auto simp: le_iff)

lemma le_refl: "\<not> nan x \<Longrightarrow> le x x"
  by (simp add: le_iff lt_irrefl)

lemma lt_imp_le: "lt x y \<Longrightarrow> le x y"
  using lt_number lt_asym by (auto simp: le_iff)

text \<open>Scanning for the least value below a start value: the first of the least candidates wins, NaN never does.\<close>

lemma fold_least:
  assumes "fold (\<lambda>i (bd, bi). if skip i then (bd, bi) else if lt (f i) bd then (f i, i) else (bd, bi)) xs (d0, i0) = (bd, bi)"
    and "\<not> nan d0"
  shows "\<not> nan bd \<and> \<not> lt d0 bd \<and> (\<forall>i \<in> set xs. \<not> skip i \<longrightarrow> \<not> lt (f i) bd) \<and>
    ((bd, bi) = (d0, i0) \<or> (bi \<in> set xs \<and> \<not> skip bi \<and> bd = f bi \<and> lt bd d0))"
  using assms
proof (induction xs arbitrary: d0 i0)
  case Nil
  then show ?case by (simp add: lt_irrefl)
next
  case (Cons x xs)
  show ?case
  proof (cases "\<not> skip x \<and> lt (f x) d0")
    case True
    then have "\<not> nan (f x)" using lt_number by blast
    with True Cons.prems have "\<not> nan bd \<and> \<not> lt (f x) bd \<and> (\<forall>i \<in> set xs. \<not> skip i \<longrightarrow> \<not> lt (f i) bd) \<and>
        ((bd, bi) = (f x, x) \<or> (bi \<in> set xs \<and> \<not> skip bi \<and> bd = f bi \<and> lt bd (f x)))"
      by (intro Cons.IH) auto
    moreover from this have "lt bd d0" using True lt_trans by auto
    ultimately show ?thesis using True lt_asym by auto
  next
    case False
    with Cons.prems have IH: "\<not> nan bd \<and> \<not> lt d0 bd \<and> (\<forall>i \<in> set xs. \<not> skip i \<longrightarrow> \<not> lt (f i) bd) \<and>
        ((bd, bi) = (d0, i0) \<or> (bi \<in> set xs \<and> \<not> skip bi \<and> bd = f bi \<and> lt bd d0))"
      by (intro Cons.IH) (auto split: if_splits)
    moreover have "\<not> lt (f x) bd" if "\<not> skip x"
      using IH False that lt_split [of "f x" bd d0] Cons.prems(2) by blast
    ultimately show ?thesis by auto
  qed
qed

end

interpretation f64o: float_order f64_lt f64_le f64_nan
  by unfold_locales (auto simp: f64_lt_def f64_le_def)

interpretation f32o: float_order f32_lt f32_le f32_nan
  by unfold_locales (auto simp: f32_lt_def f32_le_def)

lemma DBL_MAX_number [simp]: "\<not> f64_nan DBL_MAX"
  by (simp add: f64_nan_def DBL_MAX_def)

text \<open>An arithmetic for examples: bit patterns as numbers, all angles zero.\<close>

definition sample_fpu :: fpu where
  "sample_fpu = \<lparr>d_add = (+), d_sub = (\<lambda>a b. if b \<le> a then a - b else b - a), d_mul = (*), d_div = (\<lambda>a b. 0), d_sqrt = id, d_sin = (\<lambda>a. 0),
     d_cos = (\<lambda>a. 1), d_atan2 = (\<lambda>a b. 0), d_of_size = id, s_add = (+), s_mul = (*), s_div = (\<lambda>a b. a), s_sqrt = id, s_log10 = id,
     s_of_u32 = id\<rparr>"

end
