(* ===== verification/Track_Types.thy ===== *)
theory Track_Types
  imports Floating
begin

text \<open>
  The structures that signal processing, data processing and gateway exchange (\<^verbatim>\<open>include/qdgz300/common/types.h\<close>): plots, batches of
  plots, tracks and track frames.  A pointer to an array is the list of its elements, \<open>None\<close> for \<^verbatim>\<open>nullptr\<close> where the code tests it.
\<close>

record Plot =
  pl_range_m :: f64
  pl_azimuth_deg :: f64
  pl_elevation_deg :: f64
  pl_doppler_mps :: f64
  pl_snr_db :: f32
  pl_amplitude :: f32
  pl_beam_id :: u16
  pl_array_id :: u8
  pl_reserved :: u8

record PlotBatch =
  pb_data_ts :: u64
  pb_process_ts :: u64
  pb_array_id :: u8
  pb_cpi_seq :: u32
  pb_plot_count :: u16
  pb_flags :: u32
  pb_plots :: "Plot list option"

record Track =
  track_id :: u64
  pos_x :: f64
  pos_y :: f64
  pos_z :: f64
  vel_x :: f64
  vel_y :: f64
  vel_z :: f64
  heading_deg :: f64
  confidence :: f32
  lifecycle_state :: u8
  source_array_id :: u8
  handover_flag :: bool
  handover_from :: u8
  coast_frames :: u32
  create_ts :: u64
  update_ts :: u64

record TrackFrame =
  frame_seq :: u64
  data_timestamp_ns :: u64
  backend_instance_id :: u64
  clock_domain :: u8
  coverage_mask :: u8
  track_count :: u16
  system_quality_flags :: u32
  is_truncated :: bool
  dropped_count :: u16
  tracks :: "Track list"

datatype TrackLifecycle = TENTATIVE | CONFIRMED | COASTING | LOST | DELETED

fun lifecycle_code :: "TrackLifecycle \<Rightarrow> u8" where
  "lifecycle_code TENTATIVE = 0"
| "lifecycle_code CONFIRMED = 1"
| "lifecycle_code COASTING = 2"
| "lifecycle_code LOST = 3"
| "lifecycle_code DELETED = 4"

lemma lifecycle_code_inj [simp]: "lifecycle_code a = lifecycle_code b \<longleftrightarrow> a = b"
  by (cases a; cases b) simp_all

end
