(* ===== verification/Tracking.thy ===== *)
theory Tracking
  imports Track_Types "HOL-Library.Sublist"
begin

text \<open>
  The filter and the association of plots with tracks (\<^verbatim>\<open>src/m03_data_proc/kalman_filter.cpp\<close>, \<^verbatim>\<open>plot_associator.cpp\<close>).

  Correspondence.  A \<^verbatim>\<open>size_t\<close> index is a \<open>nat\<close>; the set \<^verbatim>\<open>used_plots\<close> is the list of its elements; \<^verbatim>\<open>associate\<close> returns the
  associations with the new value of \<^verbatim>\<open>unassociated_plots_\<close>.

  Shown: the association is the greedy nearest-plot assignment of the relation \<open>greedy\<close>, from which it is one to one and
  covers every plot it could.
\<close>

subsection \<open>KalmanFilter\<close>

record KalmanFilter =
  kf_initialized :: bool
  kf_x :: f64
  kf_y :: f64
  kf_z :: f64
  kf_vx :: f64
  kf_vy :: f64
  kf_vz :: f64

definition kalman_new :: KalmanFilter where
  "kalman_new = \<lparr>kf_initialized = False, kf_x = 0, kf_y = 0, kf_z = 0, kf_vx = 0, kf_vy = 0, kf_vz = 0\<rparr>"

definition kf_init :: "f64 \<Rightarrow> f64 \<Rightarrow> f64 \<Rightarrow> KalmanFilter \<Rightarrow> KalmanFilter" where
  "kf_init x y z k = k\<lparr>kf_initialized := True, kf_x := x, kf_y := y, kf_z := z, kf_vx := 0, kf_vy := 0, kf_vz := 0\<rparr>"

definition kf_predict :: "fpu \<Rightarrow> f64 \<Rightarrow> KalmanFilter \<Rightarrow> KalmanFilter" where
  "kf_predict fp dt k =
     (if \<not> kf_initialized k then k
      else k\<lparr>kf_x := d_add fp (kf_x k) (d_mul fp (kf_vx k) dt), kf_y := d_add fp (kf_y k) (d_mul fp (kf_vy k) dt),
             kf_z := d_add fp (kf_z k) (d_mul fp (kf_vz k) dt)\<rparr>)"

definition POSITION_GAIN :: f64 where "POSITION_GAIN = 0x3FE3333333333333"
definition VELOCITY_GAIN :: f64 where "VELOCITY_GAIN = 0x3FD999999999999A"

definition kf_update :: "fpu \<Rightarrow> f64 \<Rightarrow> f64 \<Rightarrow> f64 \<Rightarrow> KalmanFilter \<Rightarrow> KalmanFilter" where
  "kf_update fp ox oy oz k =
     (if \<not> kf_initialized k then kf_init ox oy oz k
      else let dx = d_sub fp ox (kf_x k); dy = d_sub fp oy (kf_y k); dz = d_sub fp oz (kf_z k)
           in k\<lparr>kf_x := d_add fp (kf_x k) (d_mul fp POSITION_GAIN dx), kf_y := d_add fp (kf_y k) (d_mul fp POSITION_GAIN dy),
                kf_z := d_add fp (kf_z k) (d_mul fp POSITION_GAIN dz), kf_vx := d_add fp (kf_vx k) (d_mul fp VELOCITY_GAIN dx),
                kf_vy := d_add fp (kf_vy k) (d_mul fp VELOCITY_GAIN dy), kf_vz := d_add fp (kf_vz k) (d_mul fp VELOCITY_GAIN dz)\<rparr>)"

definition K_PI :: f64 where "K_PI = 0x400921FB54442D18"
definition F180 :: f64 where "F180 = 0x4066800000000000"

definition kf_heading_deg :: "fpu \<Rightarrow> KalmanFilter \<Rightarrow> f64" where
  "kf_heading_deg fp k = d_div fp (d_mul fp (d_atan2 fp (kf_vy k) (kf_vx k)) F180) K_PI"


subsection \<open>PlotAssociator\<close>

record TrackPrediction =
  tp_track_id :: u64
  tp_x :: f64
  tp_y :: f64
  tp_z :: f64

record Association =
  as_track_id :: u64
  as_plot_index :: nat
  as_distance :: f64

definition plot_to_cartesian :: "fpu \<Rightarrow> Plot \<Rightarrow> f64 \<times> f64 \<times> f64" where
  "plot_to_cartesian fp plot =
     (let az = d_div fp (d_mul fp (pl_azimuth_deg plot) K_PI) F180;
          el = d_div fp (d_mul fp (pl_elevation_deg plot) K_PI) F180;
          cos_el = d_cos fp el
      in (d_mul fp (d_mul fp (pl_range_m plot) cos_el) (d_cos fp az), d_mul fp (d_mul fp (pl_range_m plot) cos_el) (d_sin fp az),
          d_mul fp (pl_range_m plot) (d_sin fp el)))"

definition plot_distance :: "fpu \<Rightarrow> TrackPrediction \<Rightarrow> Plot \<Rightarrow> f64" where
  "plot_distance fp pr plot =
     (case plot_to_cartesian fp plot of (x, y, z) \<Rightarrow> d_norm3 fp (d_sub fp x (tp_x pr)) (d_sub fp y (tp_y pr)) (d_sub fp z (tp_z pr)))"

definition best_plot :: "fpu \<Rightarrow> Plot list \<Rightarrow> nat list \<Rightarrow> TrackPrediction \<Rightarrow> f64 \<times> nat" where
  "best_plot fp plots used_plots pr =
     fold (\<lambda>i (best_distance, best).
         if i \<in> set used_plots then (best_distance, best)
         else if f64_lt (plot_distance fp pr (plots ! i)) best_distance then (plot_distance fp pr (plots ! i), i)
         else (best_distance, best))
       [0..<length plots] (DBL_MAX, length plots)"

definition associate_step ::
  "fpu \<Rightarrow> Plot list \<Rightarrow> f64 \<Rightarrow> TrackPrediction \<Rightarrow> Association list \<times> nat list \<Rightarrow> Association list \<times> nat list" where
  "associate_step fp plots gate pr = (\<lambda>(associations, used_plots).
     case best_plot fp plots used_plots pr of (best_distance, best) \<Rightarrow>
       if best < length plots \<and> f64_le best_distance gate
       then (associations @ [\<lparr>as_track_id = tp_track_id pr, as_plot_index = best, as_distance = best_distance\<rparr>], used_plots @ [best])
       else (associations, used_plots))"

definition associate :: "fpu \<Rightarrow> TrackPrediction list \<Rightarrow> Plot list \<Rightarrow> f64 \<Rightarrow> Association list \<times> nat list" where
  "associate fp predictions plots gate =
     (case fold (associate_step fp plots gate) predictions ([], []) of (associations, used_plots) \<Rightarrow>
        (associations, filter (\<lambda>i. i \<notin> set used_plots) [0..<length plots]))"


subsection \<open>The greedy assignment\<close>

text \<open>
  What the association is meant to be: each prediction in turn takes a nearest plot among those still free, if one is within the
  gate, and none otherwise.
\<close>

definition in_gate :: "f64 \<Rightarrow> f64 \<Rightarrow> bool" where
  "in_gate gate d \<longleftrightarrow> f64_le d gate \<and> f64_lt d DBL_MAX"

definition nearest_free :: "fpu \<Rightarrow> Plot list \<Rightarrow> f64 \<Rightarrow> nat set \<Rightarrow> TrackPrediction \<Rightarrow> nat \<Rightarrow> bool" where
  "nearest_free fp plots gate used pr i \<longleftrightarrow>
     i < length plots \<and> i \<notin> used \<and> in_gate gate (plot_distance fp pr (plots ! i)) \<and>
     (\<forall>j < length plots. j \<notin> used \<longrightarrow> \<not> f64_lt (plot_distance fp pr (plots ! j)) (plot_distance fp pr (plots ! i)))"

inductive greedy :: "fpu \<Rightarrow> Plot list \<Rightarrow> f64 \<Rightarrow> nat set \<Rightarrow> TrackPrediction list \<Rightarrow> Association list \<Rightarrow> bool"
  for fp plots gate where
  Done: "greedy fp plots gate used [] []"
| Take: "nearest_free fp plots gate used pr i \<Longrightarrow> greedy fp plots gate (insert i used) prs asc \<Longrightarrow>
     greedy fp plots gate used (pr # prs)
       (\<lparr>as_track_id = tp_track_id pr, as_plot_index = i, as_distance = plot_distance fp pr (plots ! i)\<rparr> # asc)"
| Skip: "\<forall>i < length plots. i \<notin> used \<longrightarrow> \<not> in_gate gate (plot_distance fp pr (plots ! i)) \<Longrightarrow> greedy fp plots gate used prs asc \<Longrightarrow>
     greedy fp plots gate used (pr # prs) asc"

inductive_cases greedy_NilE: "greedy fp plots gate used [] asc"
inductive_cases greedy_ConsE: "greedy fp plots gate used (pr # prs) asc"

lemma best_plot_found:
  assumes "best_plot fp plots used pr = (d, i)" and "i < length plots" and "f64_le d gate"
  shows "nearest_free fp plots gate (set used) pr i \<and> d = plot_distance fp pr (plots ! i)"
  using f64o.fold_least [OF assms(1) [unfolded best_plot_def] DBL_MAX_number] assms(2,3)
  by (auto simp: nearest_free_def in_gate_def)

lemma best_plot_none:
  assumes "best_plot fp plots used pr = (d, i)" and "\<not> (i < length plots \<and> f64_le d gate)" and "j < length plots" and "j \<notin> set used"
  shows "\<not> in_gate gate (plot_distance fp pr (plots ! j))"
proof
  let ?f = "\<lambda>j. plot_distance fp pr (plots ! j)"
  assume g: "in_gate gate (?f j)"
  from f64o.fold_least [OF assms(1) [unfolded best_plot_def] DBL_MAX_number] assms(3,4)
  have l: "\<not> f64_lt (?f j) d" "(d, i) = (DBL_MAX, length plots) \<or> i < length plots" "\<not> f64_nan d" by auto
  then have "i < length plots" using g by (auto simp: in_gate_def)
  moreover have "f64_le d (?f j)" using l(1,3) g by (auto simp: f64o.le_iff in_gate_def)
  then have "f64_le d gate" using g f64o.le_trans in_gate_def by blast
  ultimately show False using assms(2) by blast
qed

lemma greedy_step:
  assumes "associate_step fp plots gate pr (acc, used) = (acc', used')" and "greedy fp plots gate (set used') prs rest"
  shows "\<exists>asc. acc' = acc @ asc \<and> set used' = set used \<union> set (map as_plot_index asc) \<and> greedy fp plots gate (set used) (pr # prs) (asc @ rest)"
proof -
  obtain d i where b: "best_plot fp plots used pr = (d, i)" by fastforce
  show ?thesis
  proof (cases "i < length plots \<and> f64_le d gate")
    case True
    with best_plot_found [OF b] have "nearest_free fp plots gate (set used) pr i" "d = plot_distance fp pr (plots ! i)" by blast+
    then show ?thesis using assms b True by (auto simp: associate_step_def intro!: greedy.Take)
  next
    case False
    with best_plot_none [OF b] have "\<forall>j < length plots. j \<notin> set used \<longrightarrow> \<not> in_gate gate (plot_distance fp pr (plots ! j))" by blast
    then show ?thesis using assms b False by (auto simp: associate_step_def intro!: greedy.Skip)
  qed
qed

lemma greedy_fold:
  assumes "fold (associate_step fp plots gate) prs (acc, used) = (acc', used')"
  shows "\<exists>asc. acc' = acc @ asc \<and> set used' = set used \<union> set (map as_plot_index asc) \<and> greedy fp plots gate (set used) prs asc"
  using assms
proof (induction prs arbitrary: acc used)
  case Nil
  then show ?case by (auto intro: greedy.Done)
next
  case (Cons pr prs)
  obtain acc1 used1 where s: "associate_step fp plots gate pr (acc, used) = (acc1, used1)" by fastforce
  with Cons obtain asc where a: "acc' = acc1 @ asc" "set used' = set used1 \<union> set (map as_plot_index asc)"
      "greedy fp plots gate (set used1) prs asc" by fastforce
  from greedy_step [OF s a(3)] obtain asc1 where "acc1 = acc @ asc1" "set used1 = set used \<union> set (map as_plot_index asc1)"
      "greedy fp plots gate (set used) (pr # prs) (asc1 @ asc)" by blast
  then show ?case using a(1,2) by (intro exI [of _ "asc1 @ asc"]) auto
qed

lemma associate_greedy:
  assumes "associate fp prs plots gate = (asc, rest)"
  shows "greedy fp plots gate {} prs asc" "rest = filter (\<lambda>i. i \<notin> set (map as_plot_index asc)) [0..<length plots]"
proof -
  obtain acc used where f: "fold (associate_step fp plots gate) prs ([], []) = (acc, used)" by fastforce
  with greedy_fold [OF f] show "greedy fp plots gate {} prs asc" "rest = filter (\<lambda>i. i \<notin> set (map as_plot_index asc)) [0..<length plots]"
    using assms by (auto simp: associate_def)
qed

lemma greedy_indices:
  "greedy fp plots gate used prs asc \<Longrightarrow>
     distinct (map as_plot_index asc) \<and> set (map as_plot_index asc) \<subseteq> {..<length plots} - used \<and>
     subseq (map as_track_id asc) (map tp_track_id prs) \<and> (\<forall>a \<in> set asc. in_gate gate (as_distance a))"
  by (induction rule: greedy.induct) (auto simp: nearest_free_def)

lemmas associate_indices = associate_greedy(1) [THEN greedy_indices, simplified]

lemma associate_partition:
  assumes "associate fp prs plots gate = (asc, rest)"
  shows "distinct (map as_plot_index asc @ rest)" "set (map as_plot_index asc @ rest) = {..<length plots}" "length asc + length rest = length plots"
proof -
  show d: "distinct (map as_plot_index asc @ rest)" and s: "set (map as_plot_index asc @ rest) = {..<length plots}"
    using associate_indices [OF assms] associate_greedy(2) [OF assms] by auto
  from distinct_card [OF d] show "length asc + length rest = length plots" by (simp only: s) simp
qed


subsection \<open>Properties\<close>

text \<open>
  C21: Association is one to one and greedy.  Each prediction in turn takes a nearest of the plots not yet taken when one lies within
  the gate, and none otherwise; no plot goes to two tracks, each distance is within the gate, and the reported unassociated plots
  are exactly the others, in order, so that every plot is accounted for once.
\<close>

theorem association_greedy:
  assumes "associate fp predictions plots gate = (asc, rest)"
  shows "greedy fp plots gate {} predictions asc \<and> distinct (map as_plot_index asc) \<and>
    subseq (map as_track_id asc) (map tp_track_id predictions) \<and> (\<forall>a \<in> set asc. f64_le (as_distance a) gate) \<and>
    rest = filter (\<lambda>i. i \<notin> as_plot_index ` set asc) [0..<length plots] \<and> length asc + length rest = length plots"
  using associate_greedy [OF assms] associate_indices [OF assms] associate_partition(3) [OF assms] by (auto simp: in_gate_def)

definition sample_plot :: "f64 \<Rightarrow> Plot" where
  "sample_plot r = \<lparr>pl_range_m = r, pl_azimuth_deg = 0, pl_elevation_deg = 0, pl_doppler_mps = 0, pl_snr_db = 0, pl_amplitude = 0,
     pl_beam_id = 0, pl_array_id = 1, pl_reserved = 0\<rparr>"

lemma sample_association:
  "associate sample_fpu [\<lparr>tp_track_id = 1, tp_x = 100, tp_y = 0, tp_z = 0\<rparr>, \<lparr>tp_track_id = 2, tp_x = 105, tp_y = 0, tp_z = 0\<rparr>]
       [sample_plot 103, sample_plot 101, sample_plot 200] 20 =
     ([\<lparr>as_track_id = 1, as_plot_index = 1, as_distance = 1\<rparr>, \<lparr>as_track_id = 2, as_plot_index = 0, as_distance = 4\<rparr>], [2])"
  by code_simp

theorem association_greedy_witness:
  "greedy sample_fpu [sample_plot 103, sample_plot 101, sample_plot 200] 20 {}
     [\<lparr>tp_track_id = 1, tp_x = 100, tp_y = 0, tp_z = 0\<rparr>, \<lparr>tp_track_id = 2, tp_x = 105, tp_y = 0, tp_z = 0\<rparr>]
     [\<lparr>as_track_id = 1, as_plot_index = 1, as_distance = 1\<rparr>, \<lparr>as_track_id = 2, as_plot_index = 0, as_distance = 4\<rparr>]"
  using association_greedy [OF sample_association] by blast

end
