(* ===== verification/Track_Manager.thy ===== *)
theory Track_Manager
  imports Tracking
begin

text \<open>
  The track manager (\<^verbatim>\<open>src/m03_data_proc/track_manager.cpp\<close>).

  Correspondence.  The state \<^verbatim>\<open>unassociated_plots_\<close> of the associator member is a field of the manager.  A batch carries at least
  \<^verbatim>\<open>plot_count\<close> plots, as the array access in the code presumes.

  Shown: one call updates every track by its own outcome (\<open>process_plots_exact\<close>), identifiers are handed out once, the lifecycle is a
  function of the history of hits and misses, and lost tracks keep taking plots.
\<close>

record TrackManagerConfig =
  cfg_confirm_hits :: u32
  cfg_coast_after_misses :: u32
  cfg_lost_after_misses :: u32
  cfg_association_gate_m :: f64
  cfg_predict_dt_sec :: f64

definition default_config :: TrackManagerConfig where
  "default_config = \<lparr>cfg_confirm_hits = 3, cfg_coast_after_misses = 3, cfg_lost_after_misses = 10,
     cfg_association_gate_m = 0x405E000000000000, cfg_predict_dt_sec = 0x3FA999999999999A\<rparr>"

record TrackState =
  ts_snapshot :: Track
  ts_filter :: KalmanFilter
  ts_hits :: u32
  ts_misses :: u32

record TrackManager =
  tm_config :: TrackManagerConfig
  tm_next_track_id :: u64
  tm_unassociated_plots :: "nat list"
  tm_states :: "TrackState list"
  tm_tracks :: "Track list"

definition track_manager_new :: "TrackManagerConfig \<Rightarrow> TrackManager" where
  "track_manager_new cfg = \<lparr>tm_config = cfg, tm_next_track_id = 1, tm_unassociated_plots = [], tm_states = [], tm_tracks = []\<rparr>"

definition normalized_plot :: "Plot \<Rightarrow> Plot" where
  "normalized_plot plot = plot"

definition gather_batch :: "PlotBatch option \<Rightarrow> Plot list \<times> u64 \<Rightarrow> Plot list \<times> u64" where
  "gather_batch batch = (\<lambda>(plots, latest_ts).
     case batch of
       None \<Rightarrow> (plots, latest_ts)
     | Some b \<Rightarrow> (case pb_plots b of
           None \<Rightarrow> (plots, latest_ts)
         | Some ps \<Rightarrow> (plots @ map normalized_plot (take (unat (pb_plot_count b)) ps), max latest_ts (pb_data_ts b))))"

definition predict_state :: "fpu \<Rightarrow> TrackManagerConfig \<Rightarrow> TrackState \<Rightarrow> TrackState" where
  "predict_state fp cfg s = s\<lparr>ts_filter := kf_predict fp (cfg_predict_dt_sec cfg) (ts_filter s)\<rparr>"

definition prediction_of :: "TrackState \<Rightarrow> TrackPrediction" where
  "prediction_of s =
     \<lparr>tp_track_id = track_id (ts_snapshot s), tp_x = kf_x (ts_filter s), tp_y = kf_y (ts_filter s), tp_z = kf_z (ts_filter s)\<rparr>"

definition F1_0 :: f32 where "F1_0 = 0x3F800000"
definition F0_2 :: f32 where "F0_2 = 0x3E4CCCCD"

definition std_min_float :: "f32 \<Rightarrow> f32 \<Rightarrow> f32" where
  "std_min_float a b = (if f32_lt b a then b else a)"

definition hit_state :: "fpu \<Rightarrow> TrackManagerConfig \<Rightarrow> Plot \<Rightarrow> u64 \<Rightarrow> TrackState \<Rightarrow> TrackState" where
  "hit_state fp cfg plot latest_ts s =
     (case plot_to_cartesian fp plot of (x, y, z) \<Rightarrow>
      let k = kf_update fp x y z (ts_filter s); hits = ts_hits s + 1; lc = lifecycle_state (ts_snapshot s) in
      s\<lparr>ts_filter := k, ts_hits := hits, ts_misses := 0,
        ts_snapshot := (ts_snapshot s)\<lparr>pos_x := kf_x k, pos_y := kf_y k, pos_z := kf_z k, vel_x := kf_vx k, vel_y := kf_vy k,
          vel_z := kf_vz k, heading_deg := kf_heading_deg fp k, confidence := std_min_float F1_0 (s_mul fp F0_2 (s_of_u32 fp hits)),
          source_array_id := pl_array_id plot, update_ts := latest_ts,
          lifecycle_state := (if lc = lifecycle_code TENTATIVE \<and> hits \<ge> cfg_confirm_hits cfg then lifecycle_code CONFIRMED
            else if lc = lifecycle_code COASTING then lifecycle_code CONFIRMED else lc)\<rparr>\<rparr>)"

fun find_state :: "u64 \<Rightarrow> TrackState list \<Rightarrow> nat option" where
  "find_state i [] = None"
| "find_state i (s # ss) = (if track_id (ts_snapshot s) = i then Some 0 else map_option Suc (find_state i ss))"

definition apply_association ::
  "fpu \<Rightarrow> TrackManagerConfig \<Rightarrow> Plot list \<Rightarrow> u64 \<Rightarrow> Association \<Rightarrow> TrackState list \<times> bool list \<Rightarrow> TrackState list \<times> bool list" where
  "apply_association fp cfg plots latest_ts a = (\<lambda>(states, matched).
     case find_state (as_track_id a) states of
       None \<Rightarrow> (states, matched)
     | Some i \<Rightarrow> (states[i := hit_state fp cfg (plots ! as_plot_index a) latest_ts (states ! i)], matched[i := True]))"

definition miss_state :: "TrackManagerConfig \<Rightarrow> u64 \<Rightarrow> TrackState \<Rightarrow> TrackState" where
  "miss_state cfg latest_ts s =
     (let misses = ts_misses s + 1; lc = lifecycle_state (ts_snapshot s) in
      s\<lparr>ts_misses := misses,
        ts_snapshot := (ts_snapshot s)\<lparr>coast_frames := misses, update_ts := latest_ts,
          lifecycle_state := (if misses \<ge> cfg_lost_after_misses cfg then lifecycle_code LOST
            else if misses \<ge> cfg_coast_after_misses cfg then lifecycle_code COASTING else lc)\<rparr>\<rparr>)"

definition new_state :: "fpu \<Rightarrow> Plot \<Rightarrow> u64 \<Rightarrow> u64 \<Rightarrow> TrackState" where
  "new_state fp plot latest_ts tid =
     (case plot_to_cartesian fp plot of (x, y, z) \<Rightarrow>
      \<lparr>ts_snapshot = \<lparr>track_id = tid, pos_x = x, pos_y = y, pos_z = z, vel_x = 0, vel_y = 0, vel_z = 0, heading_deg = 0,
         confidence = F0_2, lifecycle_state = lifecycle_code TENTATIVE, source_array_id = pl_array_id plot, handover_flag = False,
         handover_from = 0, coast_frames = 0, create_ts = latest_ts, update_ts = latest_ts\<rparr>,
       ts_filter = kf_init x y z kalman_new, ts_hits = 1, ts_misses = 0\<rparr>)"

definition start_track :: "fpu \<Rightarrow> Plot list \<Rightarrow> u64 \<Rightarrow> nat \<Rightarrow> TrackState list \<times> u64 \<Rightarrow> TrackState list \<times> u64" where
  "start_track fp plots latest_ts i = (\<lambda>(states, next_id). (states @ [new_state fp (plots ! i) latest_ts next_id], next_id + 1))"

definition sync_snapshots :: "TrackState list \<Rightarrow> Track list" where
  "sync_snapshots states = map ts_snapshot (filter (\<lambda>s. lifecycle_state (ts_snapshot s) \<noteq> lifecycle_code LOST) states)"

definition process_plots :: "fpu \<Rightarrow> PlotBatch option list \<Rightarrow> TrackManager \<Rightarrow> TrackManager \<times> Track list" where
  "process_plots fp batches m =
     (let cfg = tm_config m in
      case fold gather_batch batches ([], 0) of (plots, latest_ts) \<Rightarrow>
      let states = map (predict_state fp cfg) (tm_states m) in
      case associate fp (map prediction_of states) plots (cfg_association_gate_m cfg) of (associations, unassociated) \<Rightarrow>
      case fold (apply_association fp cfg plots latest_ts) associations (states, replicate (length states) False) of (states, matched) \<Rightarrow>
      let states = map2 (\<lambda>s hit. if hit then s else miss_state cfg latest_ts s) states matched in
      case fold (start_track fp plots latest_ts) unassociated (states, tm_next_track_id m) of (states, next_id) \<Rightarrow>
      let tracks = sync_snapshots states in
      (m\<lparr>tm_unassociated_plots := unassociated, tm_states := states, tm_next_track_id := next_id, tm_tracks := tracks\<rparr>, tracks))"


subsection \<open>One call, track by track\<close>

abbreviation state_id :: "TrackState \<Rightarrow> u64" where
  "state_id s \<equiv> track_id (ts_snapshot s)"

lemma state_id_predict [simp]: "state_id (predict_state fp cfg s) = state_id s"
  by (simp add: predict_state_def)

lemma state_id_hit [simp]: "state_id (hit_state fp cfg plot t s) = state_id s"
  by (simp add: hit_state_def Let_def split: prod.splits)

lemma state_id_miss [simp]: "state_id (miss_state cfg t s) = state_id s"
  by (simp add: miss_state_def Let_def)

lemma state_id_new [simp]: "state_id (new_state fp plot t i) = i"
  by (simp add: new_state_def split: prod.splits)

lemma prediction_id [simp]: "tp_track_id (prediction_of s) = state_id s"
  by (simp add: prediction_of_def)

lemma find_state_update:
  assumes "distinct (map state_id states)" and "length matched = length states"
  shows "(case find_state k states of None \<Rightarrow> (states, matched) | Some i \<Rightarrow> (states[i := f (states ! i)], matched[i := True])) =
    (map (\<lambda>s. if state_id s = k then f s else s) states, map2 (\<lambda>s hit. hit \<or> state_id s = k) states matched)"
  using assms
proof (induction states arbitrary: matched)
  case (Cons s ss)
  then obtain b bs where m: "matched = b # bs" "length bs = length ss" by (cases matched) auto
  show ?case
  proof (cases "state_id s = k")
    case True
    then have "\<forall>t \<in> set ss. state_id t \<noteq> k" using Cons.prems(1) by (auto simp: image_iff)
    then show ?thesis using True m by (auto simp: map_idI map2_map_map [symmetric] zip_map_fst_snd intro!: nth_equalityI)
  next
    case False
    with Cons.IH [of bs] Cons.prems m show ?thesis by (auto split: option.splits)
  qed
qed simp

text \<open>The plot a track was given, and what becomes of it.\<close>

definition plot_for :: "Association list \<Rightarrow> u64 \<Rightarrow> nat option" where
  "plot_for asc = map_of (map (\<lambda>a. (as_track_id a, as_plot_index a)) asc)"

definition outcome_state :: "fpu \<Rightarrow> TrackManagerConfig \<Rightarrow> Plot option \<Rightarrow> u64 \<Rightarrow> TrackState \<Rightarrow> TrackState" where
  "outcome_state fp cfg outcome t s =
     (case outcome of Some plot \<Rightarrow> hit_state fp cfg plot t s | None \<Rightarrow> miss_state cfg t s)"

lemma apply_associations:
  assumes "distinct (map state_id states)" and "distinct (map as_track_id asc)" and "length matched = length states"
  shows "fold (apply_association fp cfg plots t) asc (states, matched) =
    (map (\<lambda>s. case plot_for asc (state_id s) of Some p \<Rightarrow> hit_state fp cfg (plots ! p) t s | None \<Rightarrow> s) states,
     map2 (\<lambda>s hit. hit \<or> plot_for asc (state_id s) \<noteq> None) states matched)"
  using assms
proof (induction asc arbitrary: states matched)
  case Nil
  then show ?case by (auto simp: plot_for_def map2_map_map [symmetric] intro!: nth_equalityI)
next
  case (Cons a asc)
  let ?hit = "\<lambda>s. if state_id s = as_track_id a then hit_state fp cfg (plots ! as_plot_index a) t s else s"
  have id: "map state_id (map ?hit states) = map state_id states" by simp
  have none: "plot_for asc (as_track_id a) = None" using Cons.prems(2) by (auto simp: plot_for_def map_of_eq_None_iff)
  have "fold (apply_association fp cfg plots t) (a # asc) (states, matched) =
      fold (apply_association fp cfg plots t) asc (map ?hit states, map2 (\<lambda>s hit. hit \<or> state_id s = as_track_id a) states matched)"
    using find_state_update [OF Cons.prems(1,3)] by (simp add: apply_association_def)
  also have "\<dots> = (map (\<lambda>s. case plot_for asc (state_id s) of Some p \<Rightarrow> hit_state fp cfg (plots ! p) t s | None \<Rightarrow> s) (map ?hit states),
      map2 (\<lambda>s hit. hit \<or> plot_for asc (state_id s) \<noteq> None) (map ?hit states) (map2 (\<lambda>s hit. hit \<or> state_id s = as_track_id a) states matched))"
    using Cons.prems id by (intro Cons.IH) (simp_all only: id, simp_all)
  finally show ?case using none Cons.prems(3)
    by (auto simp: plot_for_def intro!: nth_equalityI split: option.splits)
qed

lemma start_tracks:
  "fold (start_track fp plots t) is (states, next_id) =
     (states @ map (\<lambda>j. new_state fp (plots ! (is ! j)) t (next_id + word_of_nat j)) [0..<length is], next_id + word_of_nat (length is))"
proof (induction "is" rule: rev_induct)
  case (snoc i "is")
  then show ?case by (auto simp: start_track_def nth_append add.commute add.left_commute intro!: nth_equalityI)
qed simp

lemma process_plots_exact:
  assumes "distinct (map state_id (tm_states m))" and "fold gather_batch batches ([], 0) = (plots, t)"
    and "associate fp (map (prediction_of \<circ> predict_state fp (tm_config m)) (tm_states m)) plots (cfg_association_gate_m (tm_config m)) = (asc, rest)"
  shows "process_plots fp batches m =
    (let states = map (\<lambda>s. outcome_state fp (tm_config m) (map_option ((!) plots) (plot_for asc (state_id s))) t (predict_state fp (tm_config m) s)) (tm_states m) @
         map (\<lambda>j. new_state fp (plots ! (rest ! j)) t (tm_next_track_id m + word_of_nat j)) [0..<length rest]
     in (m\<lparr>tm_unassociated_plots := rest, tm_states := states, tm_next_track_id := tm_next_track_id m + word_of_nat (length rest),
           tm_tracks := sync_snapshots states\<rparr>, sync_snapshots states))"
proof -
  let ?cfg = "tm_config m" and ?pre = "map (predict_state fp (tm_config m)) (tm_states m)"
  have id: "map state_id ?pre = map state_id (tm_states m)" by simp
  have "subseq (map as_track_id asc) (map tp_track_id (map (prediction_of \<circ> predict_state fp ?cfg) (tm_states m)))"
    using associate_indices [OF assms(3)] by blast
  then have "distinct (map as_track_id asc)" using assms(1) by (auto simp: subseq_conv_nths comp_def intro: distinct_nthsI)
  then have "fold (apply_association fp ?cfg plots t) asc (?pre, replicate (length ?pre) False) =
      (map (\<lambda>s. case plot_for asc (state_id s) of Some p \<Rightarrow> hit_state fp ?cfg (plots ! p) t s | None \<Rightarrow> s) ?pre,
       map2 (\<lambda>s hit. hit \<or> plot_for asc (state_id s) \<noteq> None) ?pre (replicate (length ?pre) False))"
    using assms(1) id by (intro apply_associations) (simp_all only: id, simp)
  moreover have "map2 (\<lambda>s hit. if hit then s else miss_state ?cfg t s)
        (map (\<lambda>s. case plot_for asc (state_id s) of Some p \<Rightarrow> hit_state fp ?cfg (plots ! p) t s | None \<Rightarrow> s) ?pre)
        (map2 (\<lambda>s hit. hit \<or> plot_for asc (state_id s) \<noteq> None) ?pre (replicate (length ?pre) False)) =
      map (\<lambda>s. outcome_state fp ?cfg (map_option ((!) plots) (plot_for asc (state_id s))) t (predict_state fp ?cfg s)) (tm_states m)"
    by (auto simp: outcome_state_def intro!: nth_equalityI split: option.splits)
  ultimately show ?thesis using assms(2,3) by (simp add: process_plots_def Let_def start_tracks comp_def)
qed


subsection \<open>Identifiers\<close>

definition plots_of :: "PlotBatch option list \<Rightarrow> Plot list" where
  "plots_of batches = fst (fold gather_batch batches ([], 0))"

definition tm_inv :: "TrackManager \<Rightarrow> bool" where
  "tm_inv m \<longleftrightarrow> map (\<lambda>s. unat (state_id s)) (tm_states m) = [1..<Suc (length (tm_states m))] \<and>
     unat (tm_next_track_id m) = Suc (length (tm_states m)) \<and> tm_tracks m = sync_snapshots (tm_states m)"

lemma state_id_outcome [simp]: "state_id (outcome_state fp cfg outcome t s) = state_id s"
  by (simp add: outcome_state_def split: option.splits)

lemma tm_inv_distinct: "tm_inv m \<Longrightarrow> distinct (map state_id (tm_states m))"
  using distinct_map [of unat "map state_id (tm_states m)"] by (simp add: tm_inv_def comp_def del: upt_Suc)

lemma process_plots_run:
  assumes "tm_inv m" and "length (tm_states m) + length (plots_of batches) < 2 ^ 64 - 1"
  shows "tm_inv (fst (process_plots fp batches m)) \<and>
    prefix (map state_id (tm_states m)) (map state_id (tm_states (fst (process_plots fp batches m)))) \<and>
    length (tm_states (fst (process_plots fp batches m))) \<le> length (tm_states m) + length (plots_of batches)"
proof -
  let ?m = "fst (process_plots fp batches m)"
  obtain plots t where g: "fold gather_batch batches ([], 0) = (plots, t)" by fastforce
  obtain asc rest where a: "associate fp (map (prediction_of \<circ> predict_state fp (tm_config m)) (tm_states m)) plots
      (cfg_association_gate_m (tm_config m)) = (asc, rest)" by fastforce
  note exact = process_plots_exact [OF tm_inv_distinct [OF assms(1)] g a]
  have n: "length rest \<le> length plots" "plots_of batches = plots" using associate_partition(3) [OF a] g by (simp_all add: plots_of_def)
  have ids: "map state_id (tm_states ?m) = map state_id (tm_states m) @ map (\<lambda>j. tm_next_track_id m + word_of_nat j) [0..<length rest]"
    and len: "length (tm_states ?m) = length (tm_states m) + length rest"
    and nxt: "tm_next_track_id ?m = tm_next_track_id m + word_of_nat (length rest)"
    and sync: "tm_tracks ?m = sync_snapshots (tm_states ?m)"
    by (simp_all add: exact Let_def comp_def)
  have add: "unat (tm_next_track_id m + word_of_nat j) = Suc (length (tm_states m) + j)" if "j \<le> length rest" for j
    using assms n that by (simp add: tm_inv_def unat_word_ariths unat_of_nat take_bit_nat_eq_self)
  have "map unat (map state_id (tm_states ?m)) = [1..<Suc (length (tm_states m))] @ map (\<lambda>j. Suc (length (tm_states m) + j)) [0..<length rest]"
    using assms(1) by (simp add: ids tm_inv_def comp_def add del: upt_Suc)
  also have "\<dots> = [1..<Suc (length (tm_states ?m))]" 
    using map_add_upt [of "Suc (length (tm_states m))" "length rest"] upt_add_eq_append [of 1 "Suc (length (tm_states m))" "length rest"]
    by (simp add: len add.commute del: upt_Suc)
  finally have "tm_inv ?m" using add [of "length rest"] by (simp add: tm_inv_def comp_def nxt len sync del: upt_Suc)
  then show ?thesis using n by (simp add: ids len)
qed

definition tracker_run :: "fpu \<Rightarrow> PlotBatch option list list \<Rightarrow> TrackManager \<Rightarrow> TrackManager" where
  "tracker_run fp calls m = fold (\<lambda>batches m. fst (process_plots fp batches m)) calls m"

lemma tracker_run_snoc [simp]: "tracker_run fp (calls @ [b]) m = fst (process_plots fp b (tracker_run fp calls m))"
  by (simp add: tracker_run_def)

lemma tracker_run_append: "tracker_run fp (xs @ ys) m = tracker_run fp ys (tracker_run fp xs m)"
  by (simp add: tracker_run_def)

lemma tracker_run_ids:
  assumes "tm_inv m" and "length (tm_states m) + (\<Sum>b\<leftarrow>calls. length (plots_of b)) < 2 ^ 64 - 1"
  shows "tm_inv (tracker_run fp calls m) \<and> prefix (map state_id (tm_states m)) (map state_id (tm_states (tracker_run fp calls m))) \<and>
    length (tm_states (tracker_run fp calls m)) \<le> length (tm_states m) + (\<Sum>b\<leftarrow>calls. length (plots_of b))"
  using assms(2)
proof (induction calls rule: rev_induct)
  case Nil
  then show ?case using assms(1) by (simp add: tracker_run_def)
next
  case (snoc b calls)
  let ?m = "tracker_run fp calls m"
  have IH: "tm_inv ?m" "prefix (map state_id (tm_states m)) (map state_id (tm_states ?m))"
      "length (tm_states ?m) \<le> length (tm_states m) + (\<Sum>b\<leftarrow>calls. length (plots_of b))"
    using snoc by simp_all
  then have "length (tm_states ?m) + length (plots_of b) < 2 ^ 64 - 1" using snoc.prems by simp
  from process_plots_run [OF IH(1) this, of fp] IH(2,3) show ?case by (auto intro: prefix_order.trans)
qed

lemma tm_inv_new: "tm_inv (track_manager_new cfg)"
  by (simp add: tm_inv_def track_manager_new_def sync_snapshots_def)

lemma tm_inv_published:
  assumes "tm_inv m"
  shows "subseq (map track_id (tm_tracks m)) (map state_id (tm_states m)) \<and> sorted_wrt (<) (map track_id (tm_tracks m))"
proof -
  have "subseq (map track_id (tm_tracks m)) (map state_id (tm_states m))"
    using assms subseq_map [OF subseq_filter_left, of state_id] by (simp add: tm_inv_def sync_snapshots_def comp_def)
  moreover have "sorted_wrt (<) (map unat (map state_id (tm_states m)))"
    using assms by (simp add: tm_inv_def comp_def sorted_wrt_upt del: upt_Suc)
  then have "sorted_wrt (<) (map track_id (tm_tracks m))"
    using assms by (simp add: tm_inv_def sync_snapshots_def sorted_wrt_map word_less_nat_alt sorted_wrt_filter)
  ultimately show ?thesis ..
qed


subsection \<open>Lifecycle\<close>

text \<open>
  The outcomes of a track since it was started, each a plot or a miss, with the time of the call; \<open>trail\<close> counts the misses
  at the end, \<open>long_runs\<close> lists the lengths of the ends of miss runs that reached the coasting threshold.
\<close>

definition replay :: "fpu \<Rightarrow> TrackManagerConfig \<Rightarrow> (Plot option \<times> u64) list \<Rightarrow> TrackState \<Rightarrow> TrackState" where
  "replay fp cfg h s = fold (\<lambda>(outcome, t) s. outcome_state fp cfg outcome t (predict_state fp cfg s)) h s"

definition trail :: "(Plot option \<times> u64) list \<Rightarrow> nat" where
  "trail h = length (takeWhile (\<lambda>(outcome, t). outcome = None) (rev h))"

definition hit_count :: "(Plot option \<times> u64) list \<Rightarrow> nat" where
  "hit_count h = length (filter (\<lambda>(outcome, t). outcome \<noteq> None) h)"

definition long_runs :: "nat \<Rightarrow> (Plot option \<times> u64) list \<Rightarrow> nat list" where
  "long_runs c h = filter (\<lambda>n. c \<le> n) (map trail (prefixes h))"

definition lifecycle_spec :: "TrackManagerConfig \<Rightarrow> (Plot option \<times> u64) list \<Rightarrow> TrackLifecycle" where
  "lifecycle_spec cfg h =
     (let runs = long_runs (unat (cfg_coast_after_misses cfg)) h in
      if runs = [] then (if 0 < hit_count h \<and> unat (cfg_confirm_hits cfg) \<le> Suc (hit_count h) then CONFIRMED else TENTATIVE)
      else if unat (cfg_lost_after_misses cfg) \<le> last runs then LOST
      else if unat (cfg_coast_after_misses cfg) \<le> trail h then COASTING else CONFIRMED)"

lemma trail_snoc [simp]: "trail (h @ [(outcome, t)]) = (if outcome = None then Suc (trail h) else 0)"
  by (simp add: trail_def)

lemma hit_count_snoc [simp]: "hit_count (h @ [(outcome, t)]) = (if outcome = None then hit_count h else Suc (hit_count h))"
  by (simp add: hit_count_def)

lemma long_runs_snoc [simp]: "long_runs c (h @ [x]) = long_runs c h @ (if c \<le> trail (h @ [x]) then [trail (h @ [x])] else [])"
  by (simp add: long_runs_def)

lemma trail_le: "trail h \<le> length h" and hit_count_le: "hit_count h \<le> length h"
  by (auto simp: trail_def hit_count_def length_takeWhile_le [of _ "rev h", simplified])

lemma replay_snoc [simp]:
  "replay fp cfg (h @ [(outcome, t)]) s = outcome_state fp cfg outcome t (predict_state fp cfg (replay fp cfg h s))"
  by (simp add: replay_def)

abbreviation state_lc :: "TrackState \<Rightarrow> u8" where
  "state_lc s \<equiv> lifecycle_state (ts_snapshot s)"

lemma predict_state_view [simp]:
  "ts_hits (predict_state fp cfg s) = ts_hits s" "ts_misses (predict_state fp cfg s) = ts_misses s"
  "ts_snapshot (predict_state fp cfg s) = ts_snapshot s"
  by (simp_all add: predict_state_def)

lemma hit_state_view [simp]:
  "ts_hits (hit_state fp cfg plot t s) = ts_hits s + 1" "ts_misses (hit_state fp cfg plot t s) = 0"
  "state_lc (hit_state fp cfg plot t s) =
     (if state_lc s = lifecycle_code TENTATIVE \<and> ts_hits s + 1 \<ge> cfg_confirm_hits cfg then lifecycle_code CONFIRMED
      else if state_lc s = lifecycle_code COASTING then lifecycle_code CONFIRMED else state_lc s)"
  by (simp_all add: hit_state_def Let_def split: prod.splits)

lemma miss_state_view [simp]:
  "ts_hits (miss_state cfg t s) = ts_hits s" "ts_misses (miss_state cfg t s) = ts_misses s + 1"
  "state_lc (miss_state cfg t s) =
     (if ts_misses s + 1 \<ge> cfg_lost_after_misses cfg then lifecycle_code LOST
      else if ts_misses s + 1 \<ge> cfg_coast_after_misses cfg then lifecycle_code COASTING else state_lc s)"
  by (simp_all add: miss_state_def Let_def)

lemma new_state_view [simp]:
  "ts_hits (new_state fp plot t i) = 1" "ts_misses (new_state fp plot t i) = 0" "state_lc (new_state fp plot t i) = lifecycle_code TENTATIVE"
  by (simp_all add: new_state_def split: prod.splits)

lemma last_long_run: "0 < c \<Longrightarrow> c \<le> trail h \<Longrightarrow> long_runs c h \<noteq> [] \<and> last (long_runs c h) = trail h"
  by (cases h rule: rev_cases) (auto simp: trail_def long_runs_def)

lemma unat_Suc_u32: "unat x = n \<Longrightarrow> n < 2 ^ 32 - 1 \<Longrightarrow> unat ((x :: u32) + 1) = Suc n"
  by (simp add: unat_word_ariths)

lemma replay_lifecycle:
  assumes thresholds: "0 < cfg_coast_after_misses cfg" "cfg_coast_after_misses cfg \<le> cfg_lost_after_misses cfg"
    and "length h < 2 ^ 32 - 1"
  shows "unat (ts_hits (replay fp cfg h (new_state fp plot t0 i))) = Suc (hit_count h) \<and>
    unat (ts_misses (replay fp cfg h (new_state fp plot t0 i))) = trail h \<and>
    state_lc (replay fp cfg h (new_state fp plot t0 i)) = lifecycle_code (lifecycle_spec cfg h)"
  using assms(3)
proof (induction h rule: rev_induct)
  case Nil
  then show ?case using thresholds
    by (simp add: replay_def hit_count_def trail_def lifecycle_spec_def long_runs_def word_less_nat_alt)
next
  case (snoc x h)
  let ?s = "replay fp cfg h (new_state fp plot t0 i)" and ?c = "unat (cfg_coast_after_misses cfg)" and ?l = "unat (cfg_lost_after_misses cfg)"
  obtain outcome t where x: "x = (outcome, t)" by fastforce
  have IH: "unat (ts_hits ?s) = Suc (hit_count h)" "unat (ts_misses ?s) = trail h" "state_lc ?s = lifecycle_code (lifecycle_spec cfg h)"
    using snoc by simp_all
  have cl: "0 < ?c" "?c \<le> ?l" using thresholds by (simp_all add: word_less_nat_alt word_le_nat_alt)
  have small: "Suc (hit_count h) < 2 ^ 32 - 1" "trail h < 2 ^ 32 - 1"
    using hit_count_le [of h] trail_le [of h] snoc.prems by simp_all
  note sucs = unat_Suc_u32 [OF IH(1) small(1)] unat_Suc_u32 [OF IH(2) small(2)]
  note runs = last_long_run [OF cl(1), of h]
  have "state_lc (outcome_state fp cfg outcome t (predict_state fp cfg ?s)) = lifecycle_code (lifecycle_spec cfg (h @ [(outcome, t)]))"
    using cl runs by (cases outcome) (auto simp: outcome_state_def lifecycle_spec_def Let_def IH(3) word_le_nat_alt sucs)
  moreover have "unat (ts_hits (outcome_state fp cfg outcome t (predict_state fp cfg ?s))) = Suc (hit_count (h @ [(outcome, t)]))"
      "unat (ts_misses (outcome_state fp cfg outcome t (predict_state fp cfg ?s))) = trail (h @ [(outcome, t)])"
    using IH(1,2) sucs by (cases outcome; simp add: outcome_state_def)+
  ultimately show ?case unfolding x replay_snoc by blast
qed

definition has_history :: "fpu \<Rightarrow> TrackManagerConfig \<Rightarrow> nat \<Rightarrow> TrackState \<Rightarrow> bool" where
  "has_history fp cfg n s \<longleftrightarrow> (\<exists>plot t0 h. s = replay fp cfg h (new_state fp plot t0 (state_id s)) \<and> length h < n)"

lemma has_history_outcome:
  assumes "has_history fp cfg n s"
  shows "has_history fp cfg (Suc n) (outcome_state fp cfg outcome t (predict_state fp cfg s))"
proof -
  from assms obtain plot t0 h where h: "s = replay fp cfg h (new_state fp plot t0 (state_id s))" "length h < n"
    by (auto simp: has_history_def)
  then have "outcome_state fp cfg outcome t (predict_state fp cfg s) =
      replay fp cfg (h @ [(outcome, t)]) (new_state fp plot t0 (state_id (outcome_state fp cfg outcome t (predict_state fp cfg s))))"
    by simp
  moreover have "length (h @ [(outcome, t)]) < Suc n" using h(2) by simp
  ultimately show ?thesis unfolding has_history_def by blast
qed

lemma has_history_new: "has_history fp cfg (Suc n) (new_state fp plot t i)"
  unfolding has_history_def by (intro exI [of _ plot] exI [of _ t] exI [of _ "[]"]) (simp add: replay_def)

lemma run_config: "tm_config (tracker_run fp calls m) = tm_config m"
  by (induction calls rule: rev_induct) (simp_all add: tracker_run_def process_plots_def Let_def split_def)

lemma run_has_history:
  assumes "(\<Sum>b\<leftarrow>calls. length (plots_of b)) < 2 ^ 64 - 1" and "s \<in> set (tm_states (tracker_run fp calls (track_manager_new cfg)))"
  shows "has_history fp cfg (length calls) s"
  using assms
proof (induction calls arbitrary: s rule: rev_induct)
  case Nil
  then show ?case by (simp add: tracker_run_def track_manager_new_def)
next
  case (snoc b calls)
  let ?m = "tracker_run fp calls (track_manager_new cfg)"
  have few: "(\<Sum>b\<leftarrow>calls. length (plots_of b)) < 2 ^ 64 - 1" using snoc.prems(1) by simp
  have "tm_inv ?m" using tracker_run_ids [OF tm_inv_new, of cfg calls fp] few by (simp add: track_manager_new_def)
  moreover have cfg: "tm_config ?m = cfg" by (simp add: run_config) (simp add: track_manager_new_def)
  moreover obtain plots t where g: "fold gather_batch b ([], 0) = (plots, t)" by fastforce
  moreover obtain asc rest where a: "associate fp (map (prediction_of \<circ> predict_state fp (tm_config ?m)) (tm_states ?m)) plots
      (cfg_association_gate_m (tm_config ?m)) = (asc, rest)" by fastforce
  ultimately have "s \<in> (\<lambda>s. outcome_state fp cfg (map_option ((!) plots) (plot_for asc (state_id s))) t (predict_state fp cfg s)) ` set (tm_states ?m) \<union>
      (\<lambda>j. new_state fp (plots ! (rest ! j)) t (tm_next_track_id ?m + word_of_nat j)) ` {0..<length rest}"
    using snoc.prems(2) by (simp add: process_plots_exact [OF tm_inv_distinct g a] Let_def cfg)
  then show ?case using snoc.IH [OF few] has_history_outcome has_history_new by auto
qed

subsection \<open>Lost tracks\<close>

lemma single_association:
  assumes "associate fp [pr] [p] gate = (asc, rest)" and "in_gate gate (plot_distance fp pr p)"
  shows "rest = [] \<and> plot_for asc (tp_track_id pr) = Some 0"
proof -
  from associate_greedy(1) [OF assms(1)] have "map as_plot_index asc = [0] \<and> map as_track_id asc = [tp_track_id pr]"
    using assms(2) by (elim greedy_ConsE greedy_NilE) (auto simp: nearest_free_def)
  then show ?thesis using associate_greedy(2) [OF assms(1)] by (auto simp: plot_for_def)
qed

lemma lost_track_takes_plot:
  assumes "tm_states m = [s]" and "state_lc s = lifecycle_code LOST" and "plots_of batches = [p]"
    and "in_gate (cfg_association_gate_m (tm_config m)) (plot_distance fp (prediction_of (predict_state fp (tm_config m) s)) p)"
  shows "\<exists>s'. tm_states (fst (process_plots fp batches m)) = [s'] \<and> state_lc s' = lifecycle_code LOST \<and> tm_tracks (fst (process_plots fp batches m)) = []"
proof -
  obtain t where g: "fold gather_batch batches ([], 0) = ([p], t)" using assms(3) by (metis plots_of_def prod.collapse)
  obtain asc rest where a: "associate fp (map (prediction_of \<circ> predict_state fp (tm_config m)) (tm_states m)) [p]
      (cfg_association_gate_m (tm_config m)) = (asc, rest)" by fastforce
  have "rest = [] \<and> plot_for asc (state_id s) = Some 0"
    using single_association [of fp "prediction_of (predict_state fp (tm_config m) s)" p] a assms(1,4) by simp
  moreover have "distinct (map state_id (tm_states m))" using assms(1) by simp
  ultimately show ?thesis using assms(1,2)
    by (simp add: process_plots_exact [OF _ g a] Let_def outcome_state_def sync_snapshots_def)
qed

lemma lost_track_run:
  assumes "tm_states m = [s]" and "state_lc s = lifecycle_code LOST"
    and "\<forall>k < length calls. \<exists>p. plots_of (calls ! k) = [p] \<and> in_gate (cfg_association_gate_m (tm_config m))
      (plot_distance fp (prediction_of (predict_state fp (tm_config m) (hd (tm_states (tracker_run fp (take k calls) m))))) p)"
  shows "\<exists>s'. tm_states (tracker_run fp calls m) = [s'] \<and> state_lc s' = lifecycle_code LOST \<and> (calls = [] \<or> tm_tracks (tracker_run fp calls m) = [])"
  using assms(3)
proof (induction calls rule: rev_induct)
  case Nil
  then show ?case using assms(1,2) by (simp add: tracker_run_def)
next
  case (snoc b calls)
  have "\<forall>k < length calls. \<exists>p. plots_of (calls ! k) = [p] \<and> in_gate (cfg_association_gate_m (tm_config m))
      (plot_distance fp (prediction_of (predict_state fp (tm_config m) (hd (tm_states (tracker_run fp (take k calls) m))))) p)"
  proof (intro allI impI)
    fix k
    assume "k < length calls"
    with snoc.prems [rule_format, of k] show "\<exists>p. plots_of (calls ! k) = [p] \<and> in_gate (cfg_association_gate_m (tm_config m))
      (plot_distance fp (prediction_of (predict_state fp (tm_config m) (hd (tm_states (tracker_run fp (take k calls) m))))) p)"
      by (simp add: nth_append)
  qed
  from snoc.IH [OF this] obtain s' where s': "tm_states (tracker_run fp calls m) = [s']" "state_lc s' = lifecycle_code LOST" by blast
  moreover obtain p where "plots_of b = [p]" "in_gate (cfg_association_gate_m (tm_config m))
      (plot_distance fp (prediction_of (predict_state fp (tm_config m) s')) p)"
    using snoc.prems [rule_format, of "length calls"] s'(1) by auto
  ultimately show ?case using lost_track_takes_plot [of "tracker_run fp calls m" s' b p fp] by (simp add: run_config)
qed


subsection \<open>Properties\<close>

text \<open>
  C27: Track identifiers are never reused.  Over any calls of \<^verbatim>\<open>process_plots\<close> with fewer than \<open>2^64 - 1\<close> plots in all, the \<open>i\<close>-th track
  ever started has identifier \<open>i\<close>, later calls keep the identifiers of earlier tracks and only append, and the published tracks are
  those that are not lost, with strictly increasing identifiers.
\<close>

theorem track_ids_unique:
  assumes "(\<Sum>b\<leftarrow>earlier @ later. length (plots_of b)) < 2 ^ 64 - 1"
  shows "let m = tracker_run fp earlier (track_manager_new cfg); m' = tracker_run fp later m in
    map (\<lambda>s. unat (track_id (ts_snapshot s))) (tm_states m') = [1..<Suc (length (tm_states m'))] \<and>
    prefix (map (\<lambda>s. track_id (ts_snapshot s)) (tm_states m)) (map (\<lambda>s. track_id (ts_snapshot s)) (tm_states m')) \<and>
    tm_tracks m' = map ts_snapshot (filter (\<lambda>s. lifecycle_state (ts_snapshot s) \<noteq> lifecycle_code LOST) (tm_states m')) \<and>
    sorted_wrt (<) (map track_id (tm_tracks m'))"
proof -
  let ?m = "tracker_run fp earlier (track_manager_new cfg)" and ?m' = "tracker_run fp later (tracker_run fp earlier (track_manager_new cfg))"
  have "tm_inv ?m \<and> length (tm_states ?m) \<le> (\<Sum>b\<leftarrow>earlier. length (plots_of b))"
    using tracker_run_ids [OF tm_inv_new, of cfg earlier fp] assms by (simp add: track_manager_new_def)
  then have "tm_inv ?m' \<and> prefix (map state_id (tm_states ?m)) (map state_id (tm_states ?m'))"
    using tracker_run_ids [of ?m later fp] assms by simp
  then show ?thesis using tm_inv_published [of ?m'] by (simp add: Let_def tm_inv_def sync_snapshots_def del: upt_Suc)
qed

definition sample_batch :: "u64 \<Rightarrow> Plot list \<Rightarrow> PlotBatch option" where
  "sample_batch ts ps = Some \<lparr>pb_data_ts = ts, pb_process_ts = ts, pb_array_id = 1, pb_cpi_seq = 0, pb_plot_count = word_of_nat (length ps),
     pb_flags = 0, pb_plots = Some ps\<rparr>"

lemma plots_of_sample:
  "plots_of [sample_batch 1 [sample_plot 100, sample_plot 200]] = [sample_plot 100, sample_plot 200]"
  "plots_of [None, sample_batch 2 [sample_plot 300]] = [sample_plot 300]"
  by (simp_all add: plots_of_def sample_batch_def gather_batch_def normalized_plot_def)

theorem track_ids_unique_witness:
  "let m = tracker_run sample_fpu [[sample_batch 1 [sample_plot 100, sample_plot 200]]] (track_manager_new default_config);
       m' = tracker_run sample_fpu [[None, sample_batch 2 [sample_plot 300]]] m in
   prefix (map (\<lambda>s. track_id (ts_snapshot s)) (tm_states m)) (map (\<lambda>s. track_id (ts_snapshot s)) (tm_states m')) \<and>
   sorted_wrt (<) (map track_id (tm_tracks m'))"
proof -
  have "(\<Sum>b\<leftarrow>[[sample_batch 1 [sample_plot 100, sample_plot 200]]] @ [[None, sample_batch 2 [sample_plot 300]]]. length (plots_of b)) < 2 ^ 64 - 1"
    by (simp add: plots_of_sample)
  from track_ids_unique [OF this, of sample_fpu default_config] show ?thesis unfolding Let_def by blast
qed



text \<open>
  A lost target stays invisible while it is detected.  A track that went lost is not removed: as long as every call brings one
  plot inside its gate, the lost track takes the plot, stays lost and unpublished, and no new track is started for the target.
\<close>

lemma lost_target_invisible:
  assumes "tm_states m = [s]" and "lifecycle_state (ts_snapshot s) = lifecycle_code LOST" and "calls \<noteq> []"
    and "\<forall>k < length calls. \<exists>p. plots_of (calls ! k) = [p] \<and> in_gate (cfg_association_gate_m (tm_config m))
      (plot_distance fp (prediction_of (predict_state fp (tm_config m) (hd (tm_states (tracker_run fp (take k calls) m))))) p)"
  shows "tm_tracks (tracker_run fp calls m) = [] \<and> length (tm_states (tracker_run fp calls m)) = 1"
  using lost_track_run [OF assms(1,2,4)] assms(3) by auto

definition lost_example :: TrackManager where
  "lost_example = (let s = new_state sample_fpu (sample_plot 100) 1 1 in
     (track_manager_new default_config)\<lparr>tm_next_track_id := 2,
        tm_states := [s\<lparr>ts_snapshot := (ts_snapshot s)\<lparr>lifecycle_state := lifecycle_code LOST\<rparr>\<rparr>]\<rparr>)"

end
