(* ===== verification/Gateway.thy ===== *)
theory Gateway
  imports Track_Types Protocol_Types "HOL-Library.Multiset"
begin

text \<open>
  The gateway to the displays (\<^verbatim>\<open>src/m04_gateway/\<close>): the serializer of track frames, the output throttle, the session manager, the
  UDP sender and the TCP command entry.

  Correspondence.  \<^verbatim>\<open>Track\<close> is copied as its 96-byte image on the 64-bit target, whose four padding bytes are an argument of
  the encoding; a \<^verbatim>\<open>bool\<close> read from a byte is its comparison with 0.  The array \<^verbatim>\<open>tracks\<close> points to is a list.  An exception is the left value of a sum.
\<close>

subsection \<open>TrackDataSerializer\<close>

definition bool_byte :: "bool \<Rightarrow> u8" where
  "bool_byte b = (if b then 1 else 0)"

definition TRACK_SIZE :: nat where [const_defs]: "TRACK_SIZE = 96"
definition TRACK_FRAME_HEADER_SIZE :: nat where [const_defs]: "TRACK_FRAME_HEADER_SIZE = 35"

definition encode_track :: "bytes \<Rightarrow> Track \<Rightarrow> bytes" where
  "encode_track pad t =
     bytes_le 8 (track_id t) @ bytes_le 8 (pos_x t) @ bytes_le 8 (pos_y t) @ bytes_le 8 (pos_z t) @ bytes_le 8 (vel_x t) @
     bytes_le 8 (vel_y t) @ bytes_le 8 (vel_z t) @ bytes_le 8 (heading_deg t) @ bytes_le 4 (confidence t) @
     bytes_le 1 (lifecycle_state t) @ bytes_le 1 (source_array_id t) @ bytes_le 1 (bool_byte (handover_flag t)) @
     bytes_le 1 (handover_from t) @ bytes_le 4 (coast_frames t) @ pad @ bytes_le 8 (create_ts t) @ bytes_le 8 (update_ts t)"

definition decode_track :: "bytes \<Rightarrow> Track" where
  "decode_track bs =
     \<lparr>track_id = field_le 0 8 bs, pos_x = field_le 8 8 bs, pos_y = field_le 16 8 bs, pos_z = field_le 24 8 bs,
      vel_x = field_le 32 8 bs, vel_y = field_le 40 8 bs, vel_z = field_le 48 8 bs, heading_deg = field_le 56 8 bs,
      confidence = field_le 64 4 bs, lifecycle_state = field_le 68 1 bs, source_array_id = field_le 69 1 bs,
      handover_flag = ((field_le 70 1 bs :: u8) \<noteq> 0), handover_from = field_le 71 1 bs, coast_frames = field_le 72 4 bs,
      create_ts = field_le 80 8 bs, update_ts = field_le 88 8 bs\<rparr>"

definition serialize_header :: "TrackFrame \<Rightarrow> bytes" where
  "serialize_header f =
     bytes_le 8 (frame_seq f) @ bytes_le 8 (data_timestamp_ns f) @ bytes_le 8 (backend_instance_id f) @ bytes_le 1 (clock_domain f) @
     bytes_le 1 (coverage_mask f) @ bytes_le 2 (track_count f) @ bytes_le 4 (system_quality_flags f) @
     bytes_le 1 (bool_byte (is_truncated f)) @ bytes_le 2 (dropped_count f)"

definition serialize :: "bytes \<Rightarrow> TrackFrame \<Rightarrow> bytes" where
  "serialize pad f = serialize_header f @ concat (map (encode_track pad) (take (unat (track_count f)) (tracks f)))"

datatype serializer_error = Buffer_underflow

definition read_bytes :: "nat \<Rightarrow> (bytes \<Rightarrow> 'a) \<Rightarrow> bytes \<Rightarrow> nat \<Rightarrow> ('a \<Rightarrow> nat \<Rightarrow> serializer_error + 'b) \<Rightarrow> serializer_error + 'b" where
  "read_bytes nbytes value data offset cont =
     (if offset + nbytes > length data then Inl Buffer_underflow
      else cont (value (take nbytes (drop offset data))) (offset + nbytes))"

fun read_tracks :: "nat \<Rightarrow> bytes \<Rightarrow> nat \<Rightarrow> serializer_error + Track list" where
  "read_tracks 0 data offset = Inr []"
| "read_tracks (Suc n) data offset =
     read_bytes TRACK_SIZE decode_track data offset (\<lambda>t offset. map_sum id ((#) t) (read_tracks n data offset))"

definition deserialize :: "bytes \<Rightarrow> serializer_error + TrackFrame" where
  "deserialize data =
     read_bytes 8 word_le data 0 (\<lambda>seq offset.
     read_bytes 8 word_le data offset (\<lambda>ts offset.
     read_bytes 8 word_le data offset (\<lambda>inst offset.
     read_bytes 1 word_le data offset (\<lambda>clock offset.
     read_bytes 1 word_le data offset (\<lambda>mask offset.
     read_bytes 2 word_le data offset (\<lambda>count offset.
     read_bytes 4 word_le data offset (\<lambda>flags offset.
     read_bytes 1 (\<lambda>bs. (word_le bs :: u8) \<noteq> 0) data offset (\<lambda>truncated offset.
     read_bytes 2 word_le data offset (\<lambda>dropped offset.
       map_sum id (\<lambda>ts'. \<lparr>frame_seq = seq, data_timestamp_ns = ts, backend_instance_id = inst, clock_domain = clock,
           coverage_mask = mask, track_count = count, system_quality_flags = flags, is_truncated = truncated,
           dropped_count = dropped, tracks = ts'\<rparr>)
         (if count > 0 then read_tracks (unat count) data offset else Inr []))))))))))"

subsection \<open>OutputThrottle\<close>

record OutputThrottle =
  min_frame_gap_ms :: u32
  last_frame_seq :: u64

definition should_send :: "u64 \<Rightarrow> OutputThrottle \<Rightarrow> OutputThrottle \<times> bool" where
  "should_send seq t =
     (if last_frame_seq t = 0 then (t\<lparr>last_frame_seq := seq\<rparr>, True)
      else if seq \<le> last_frame_seq t then (t, False)
      else if min_frame_gap_ms t > 0 \<and> seq - last_frame_seq t < 1 then (t, False)
      else (t\<lparr>last_frame_seq := seq\<rparr>, True))"

text \<open>
  \<open>std_sort\<close> is \<^verbatim>\<open>std::sort\<close>, which leaves the order of equal elements open and needs a strict weak order: the theorem on it
  assumes its contract for tracks whose confidence is a number.
\<close>

definition greater_confidence :: "Track \<Rightarrow> Track \<Rightarrow> bool" where
  "greater_confidence lhs rhs = f32_lt (confidence rhs) (confidence lhs)"

definition truncate_frame ::
  "((Track \<Rightarrow> Track \<Rightarrow> bool) \<Rightarrow> Track list \<Rightarrow> Track list) \<Rightarrow> TrackFrame \<Rightarrow> nat \<Rightarrow> TrackFrame" where
  "truncate_frame std_sort frame max_tracks =
     (let given = take (unat (track_count frame)) (tracks frame) in
      if unat (track_count frame) \<le> max_tracks then frame\<lparr>tracks := given\<rparr>
      else let sorted = std_sort greater_confidence given
           in frame\<lparr>tracks := take max_tracks sorted, track_count := word_of_nat max_tracks, is_truncated := True,
                    dropped_count := word_of_nat (unat (track_count frame) - max_tracks)\<rparr>)"

subsection \<open>HmiSessionManager\<close>

record HmiSession =
  hs_session_id :: u64
  hs_peer_name :: string
  hs_last_pong_ns :: u64
  hs_alive :: bool

type_synonym HmiSessionManager = "(u64 \<times> HmiSession) list"

definition session_upsert :: "u64 \<Rightarrow> string \<Rightarrow> u64 \<Rightarrow> HmiSessionManager \<Rightarrow> HmiSessionManager" where
  "session_upsert sid peer now_ns ss =
     AList.update sid \<lparr>hs_session_id = sid, hs_peer_name = peer, hs_last_pong_ns = now_ns, hs_alive = True\<rparr> ss"

definition mark_pong :: "u64 \<Rightarrow> u64 \<Rightarrow> HmiSessionManager \<Rightarrow> HmiSessionManager" where
  "mark_pong sid now_ns ss =
     (case map_of ss sid of
        None \<Rightarrow> ss
      | Some s \<Rightarrow> AList.update sid (s\<lparr>hs_last_pong_ns := now_ns, hs_alive := True\<rparr>) ss)"

definition sweep_timeouts :: "u64 \<Rightarrow> u64 \<Rightarrow> HmiSessionManager \<Rightarrow> HmiSessionManager" where
  "sweep_timeouts now_ns timeout_ns ss =
     map (\<lambda>(sid, s). (sid, if hs_last_pong_ns s + timeout_ns < now_ns then s\<lparr>hs_alive := False\<rparr> else s)) ss"

definition alive_count :: "HmiSessionManager \<Rightarrow> nat" where
  "alive_count ss = length (filter (\<lambda>(sid, s). hs_alive s) ss)"

subsection \<open>UdpSender and TcpServer\<close>

record UdpSender =
  udp_port :: u16
  last_payload :: bytes

definition send_frame :: "bytes \<Rightarrow> TrackFrame \<Rightarrow> UdpSender \<Rightarrow> UdpSender \<times> bool" where
  "send_frame pad f u = (let u' = u\<lparr>last_payload := serialize pad f\<rparr> in (u', last_payload u' \<noteq> []))"

record TcpCommandAck =
  ack_success :: bool
  ack_error_code :: u32
  ack_error_message :: string

record TcpServer =
  tcp_port :: u16
  tcp_handler :: "(string \<Rightarrow> TcpCommandAck) option"
  tcp_running :: bool

definition tcp_server_new :: "u16 \<Rightarrow> TcpServer" where
  "tcp_server_new port = \<lparr>tcp_port = port, tcp_handler = None, tcp_running = False\<rparr>"

definition tcp_start :: "TcpServer \<Rightarrow> TcpServer" where
  "tcp_start s = s\<lparr>tcp_running := True\<rparr>"

definition tcp_stop :: "TcpServer \<Rightarrow> TcpServer" where
  "tcp_stop s = s\<lparr>tcp_running := False\<rparr>"

definition set_command_handler :: "(string \<Rightarrow> TcpCommandAck) option \<Rightarrow> TcpServer \<Rightarrow> TcpServer" where
  "set_command_handler h s = s\<lparr>tcp_handler := h\<rparr>"

definition handle_command_for_test :: "string \<Rightarrow> TcpServer \<Rightarrow> TcpCommandAck" where
  "handle_command_for_test cmd s =
     (case tcp_handler s of
        None \<Rightarrow> \<lparr>ack_success = False, ack_error_code = 1, ack_error_message = ''command handler not configured''\<rparr>
      | Some h \<Rightarrow> h cmd)"

subsection \<open>Layout\<close>

lemma length_encode_track [simp]: "length pad = 4 \<Longrightarrow> length (encode_track pad t) = TRACK_SIZE"
  by (simp add: encode_track_def TRACK_SIZE_def)

lemma length_serialize_header [simp]: "length (serialize_header f) = TRACK_FRAME_HEADER_SIZE"
  by (simp add: serialize_header_def TRACK_FRAME_HEADER_SIZE_def)

lemma bool_byte_iff [simp]: "bool_byte b \<noteq> 0 \<longleftrightarrow> b"
  by (simp add: bool_byte_def)

lemma decode_encode_track: "length pad = 4 \<Longrightarrow> decode_track (encode_track pad t) = t"
  by (cases t) (simp add: decode_track_def encode_track_def field_le_def bool_byte_def)

lemma read_bytes_at:
  assumes "length pre = offset" and "length bs = n"
  shows "read_bytes n value (pre @ bs @ post) offset cont = cont (value bs) (offset + n)"
  using assms by (auto simp: read_bytes_def)

lemma read_tracks_encoded:
  assumes "length pad = 4" and "length pre = offset"
  shows "read_tracks (length ts) (pre @ concat (map (encode_track pad) ts) @ post) offset = Inr ts"
  using assms(2)
proof (induction ts arbitrary: pre offset)
  case (Cons t ts)
  let ?rest = "concat (map (encode_track pad) ts) @ post"
  have "read_tracks (length ts) ((pre @ encode_track pad t) @ ?rest) (offset + TRACK_SIZE) = Inr ts"
    using Cons.prems assms(1) by (intro Cons.IH) simp
  then show ?case
    using read_bytes_at [OF Cons.prems length_encode_track [OF assms(1)], of decode_track t ?rest
        "\<lambda>t' offset. map_sum id ((#) t') (read_tracks (length ts) (pre @ encode_track pad t @ ?rest) offset)"]
    by (simp add: decode_encode_track assms(1))
qed simp

text \<open>The header fields at their offsets; a buffer shorter than the header, or than the announced tracks, is an underflow.\<close>

definition header_of :: "bytes \<Rightarrow> TrackFrame" where
  "header_of bs =
     \<lparr>frame_seq = field_le 0 8 bs, data_timestamp_ns = field_le 8 8 bs, backend_instance_id = field_le 16 8 bs,
      clock_domain = field_le 24 1 bs, coverage_mask = field_le 25 1 bs, track_count = field_le 26 2 bs,
      system_quality_flags = field_le 28 4 bs, is_truncated = ((field_le 32 1 bs :: u8) \<noteq> 0), dropped_count = field_le 33 2 bs, tracks = []\<rparr>"

lemma read_tracks_Inl:
  "offset \<le> length data \<Longrightarrow> length data < offset + n * TRACK_SIZE \<Longrightarrow> read_tracks n data offset = Inl Buffer_underflow"
  by (induction n arbitrary: offset) (auto simp: read_bytes_def)

lemma deserialize_eq:
  "deserialize data =
     (if length data < TRACK_FRAME_HEADER_SIZE then Inl Buffer_underflow
      else map_sum id (\<lambda>ts. (header_of data)\<lparr>tracks := ts\<rparr>)
        (read_tracks (unat (track_count (header_of data))) data TRACK_FRAME_HEADER_SIZE))"
  by (auto simp: deserialize_def read_bytes_def header_of_def field_le_def TRACK_FRAME_HEADER_SIZE_def word_gt_0 add.commute
      intro!: arg_cong [where f = "\<lambda>f. map_sum id f _"])

lemma sorted_wrt_take_drop: "sorted_wrt P xs \<Longrightarrow> x \<in> set (take m xs) \<Longrightarrow> y \<in> set (drop m xs) \<Longrightarrow> P x y"
  using sorted_wrt_append [of P "take m xs" "drop m xs"] by simp

lemma header_of_serialize: "header_of (serialize_header f @ post) = f\<lparr>tracks := []\<rparr>"
  by (cases f) (simp add: header_of_def serialize_header_def field_le_def bool_byte_def)

lemma deserialize_serialize:
  assumes "length pad = 4" and "unat (track_count f) \<le> length (tracks f)"
  shows "deserialize (serialize pad f @ post) = Inr (f\<lparr>tracks := take (unat (track_count f)) (tracks f)\<rparr>)"
proof -
  let ?ts = "take (unat (track_count f)) (tracks f)"
  let ?body = "concat (map (encode_track pad) ?ts)"
  have "read_tracks (unat (track_count f)) (serialize_header f @ ?body @ post) TRACK_FRAME_HEADER_SIZE = Inr ?ts"
    using read_tracks_encoded [OF assms(1), of "serialize_header f" TRACK_FRAME_HEADER_SIZE ?ts post] assms(2) by simp
  then show ?thesis using header_of_serialize [of f "?body @ post"] by (simp add: deserialize_eq serialize_def)
qed

lemma length_serialize:
  "length pad = 4 \<Longrightarrow> unat (track_count f) \<le> length (tracks f) \<Longrightarrow>
     length (serialize pad f) = TRACK_FRAME_HEADER_SIZE + unat (track_count f) * TRACK_SIZE"
  by (simp add: serialize_def length_concat comp_def sum_list_triv)

lemma deserialize_prefix:
  assumes "length pad = 4" and "unat (track_count f) \<le> length (tracks f)" and k: "k < length (serialize pad f)"
  shows "deserialize (take k (serialize pad f)) = Inl Buffer_underflow"
proof (cases "k < TRACK_FRAME_HEADER_SIZE")
  case True
  then have "length (take k (serialize pad f)) < TRACK_FRAME_HEADER_SIZE" by simp
  then show ?thesis unfolding deserialize_eq by (rule if_P)
next
  case False
  let ?body = "concat (map (encode_track pad) (take (unat (track_count f)) (tracks f)))"
  have t: "take k (serialize pad f) = serialize_header f @ take (k - TRACK_FRAME_HEADER_SIZE) ?body"
    using False by (simp add: serialize_def)
  have "read_tracks (unat (track_count f)) (take k (serialize pad f)) TRACK_FRAME_HEADER_SIZE = Inl Buffer_underflow"
    using False k length_serialize [OF assms(1,2)] by (intro read_tracks_Inl) simp_all
  then show ?thesis using header_of_serialize [of f "take (k - TRACK_FRAME_HEADER_SIZE) ?body"] False k by (simp add: deserialize_eq t)
qed


subsection \<open>Properties\<close>

text \<open>
  C37: Track frames survive the wire.  A serialized frame, whatever its padding bytes and whatever follows it in the buffer, is read
  back with all its fields, bit for bit, and exactly its announced tracks; a buffer that ends anywhere before the end of
  the frame raises the underflow exception instead of yielding a frame.
\<close>

theorem track_frame_roundtrip:
  assumes "length pad = 4" and "unat (track_count f) \<le> length (tracks f)"
  shows "deserialize (serialize pad f @ post) = Inr (f\<lparr>tracks := take (unat (track_count f)) (tracks f)\<rparr>) \<and>
    (\<forall>k < length (serialize pad f). deserialize (take k (serialize pad f)) = Inl Buffer_underflow)"
  using deserialize_serialize [OF assms] deserialize_prefix [OF assms] by blast

definition sample_track :: "u64 \<Rightarrow> f32 \<Rightarrow> Track" where
  "sample_track i c = \<lparr>track_id = i, pos_x = 1, pos_y = 2, pos_z = 3, vel_x = 4, vel_y = 5, vel_z = 6, heading_deg = 7, confidence = c,
     lifecycle_state = 1, source_array_id = 2, handover_flag = True, handover_from = 1, coast_frames = 0, create_ts = 8, update_ts = 9\<rparr>"

definition sample_track_frame :: "Track list \<Rightarrow> TrackFrame" where
  "sample_track_frame ts = \<lparr>frame_seq = 5, data_timestamp_ns = 6, backend_instance_id = 1, clock_domain = 0, coverage_mask = 7,
     track_count = word_of_nat (length ts), system_quality_flags = 0, is_truncated = False, dropped_count = 0, tracks = ts\<rparr>"

theorem track_frame_roundtrip_witness:
  "deserialize (serialize [9, 9, 9, 9] (sample_track_frame [sample_track 1 3, sample_track 2 4])) =
     Inr (sample_track_frame [sample_track 1 3, sample_track 2 4])"
proof -
  let ?f = "sample_track_frame [sample_track 1 3, sample_track 2 4]"
  have "unat (track_count ?f) = 2" "tracks ?f = [sample_track 1 3, sample_track 2 4]" by (simp_all add: sample_track_frame_def)
  then show ?thesis using track_frame_roundtrip [of "[9, 9, 9, 9]" ?f "[]"] by simp
qed

text \<open>
  Truncation keeps the best tracks.  With at most \<open>m\<close> tracks the frame is copied unchanged.  Otherwise exactly \<open>m\<close> of its tracks
  remain, each once, no dropped track has a greater confidence than a kept one, the count is \<open>m\<close>, the dropped count is
  exact and the frame is marked.  Assumed are confidences that are numbers and, of the sort, only its contract.
\<close>

lemma truncation_keeps_best:
  assumes std_sort: "\<And>xs. \<forall>t \<in> set xs. \<not> f32_nan (confidence t) \<Longrightarrow>
      mset (std_sort greater_confidence xs) = mset xs \<and> sorted_wrt (\<lambda>a b. \<not> greater_confidence b a) (std_sort greater_confidence xs)"
    and number: "\<forall>t \<in> set (tracks f). \<not> f32_nan (confidence t)"
    and count: "unat (track_count f) = length (tracks f)"
  shows "if length (tracks f) \<le> m then truncate_frame std_sort f m = f
    else \<exists>dropped. let g = truncate_frame std_sort f m in
      mset (tracks g) + mset dropped = mset (tracks f) \<and> length (tracks g) = m \<and>
      (\<forall>t \<in> set (tracks g). \<forall>d \<in> set dropped. \<not> greater_confidence d t) \<and>
      unat (track_count g) = m \<and> unat (dropped_count g) = length dropped \<and> is_truncated g \<and> frame_seq g = frame_seq f"
proof (cases "length (tracks f) \<le> m")
  case True
  then show ?thesis using count by (simp add: truncate_frame_def)
next
  case False
  let ?s = "std_sort greater_confidence (tracks f)"
  have len: "length ?s = length (tracks f)" using std_sort [OF number] by (metis size_mset)
  have small: "length (tracks f) < 2 ^ 16" using count unsigned_less [of "track_count f", where ?'a = nat] by simp
  let ?g = "truncate_frame std_sort f m"
  have fields: "tracks ?g = take m ?s" "track_count ?g = word_of_nat m" "is_truncated ?g = True" "frame_seq ?g = frame_seq f"
    "dropped_count ?g = word_of_nat (length (tracks f) - m)"
    using False count by (simp_all add: truncate_frame_def Let_def del: of_nat_diff)
  have u16: "unat (word_of_nat n :: u16) = n" if "n < 2 ^ 16" for n
    using that by (simp add: unat_of_nat take_bit_nat_eq_self)
  have "mset (take m ?s) + mset (drop m ?s) = mset (tracks f)"
    using std_sort [OF number] mset_append [of "take m ?s" "drop m ?s"] by simp
  moreover have "\<forall>t \<in> set (take m ?s). \<forall>d \<in> set (drop m ?s). \<not> greater_confidence d t"
    using sorted_wrt_take_drop [OF conjunct2 [OF std_sort [OF number]]] by blast
  moreover have "unat (word_of_nat m :: u16) = m" "unat (word_of_nat (length (tracks f) - m) :: u16) = length (tracks f) - m"
    using u16 [of m] u16 [of "length (tracks f) - m"] False small by linarith+
  moreover have "length (take m ?s) = m" "length (drop m ?s) = length (tracks f) - m" using False len by simp_all
  ultimately show ?thesis unfolding Let_def if_not_P [OF False]
    by (intro exI [of _ "drop m ?s"] conjI) (simp_all only: fields)
qed


definition sample_sort :: "(Track \<Rightarrow> Track \<Rightarrow> bool) \<Rightarrow> Track list \<Rightarrow> Track list" where
  "sample_sort gt ts = rev (sort_key (\<lambda>t. f32_rank (confidence t)) ts)"

subsection \<open>Throttling\<close>

fun sent_frames :: "u64 list \<Rightarrow> OutputThrottle \<Rightarrow> u64 list" where
  "sent_frames [] t = []"
| "sent_frames (seq # seqs) t = (case should_send seq t of (t', ok) \<Rightarrow> (if ok then (#) seq else id) (sent_frames seqs t'))"

text \<open>The running maxima of a sequence.\<close>

fun new_maxima :: "u64 \<Rightarrow> u64 list \<Rightarrow> u64 list" where
  "new_maxima m [] = []"
| "new_maxima m (x # xs) = (if m < x then x # new_maxima x xs else new_maxima m xs)"

lemma new_maxima_strict: "sorted_wrt (<) (new_maxima m xs) \<and> (\<forall>x \<in> set (new_maxima m xs). m < x)"
proof (induction m xs rule: new_maxima.induct)
  case (2 m x xs)
  then show ?case using order.strict_trans [of m x] by (cases "m < x") auto
qed simp

text \<open>With numbers from 1 on exactly the running maxima are sent, whatever the configured gap.\<close>

lemma sent_frames_eq:
  assumes "0 \<notin> set seqs"
  shows "sent_frames seqs t = new_maxima (last_frame_seq t) seqs"
  using assms
proof (induction seqs arbitrary: t)
  case (Cons seq seqs)
  have "\<not> seq - last_frame_seq t < 1" if "last_frame_seq t < seq" using that by (auto simp: word_less_nat_alt unat_sub order_less_imp_le word_le_nat_alt)
  moreover have "last_frame_seq t < seq" if "last_frame_seq t = 0" using that Cons.prems by (simp add: word_gt_0)
  ultimately have "should_send seq t = (if last_frame_seq t < seq then (t\<lparr>last_frame_seq := seq\<rparr>, True) else (t, False))"
    by (auto simp: should_send_def not_less)
  then show ?case using Cons by simp
qed simp

corollary sent_frames_strict: "0 \<notin> set seqs \<Longrightarrow> sorted_wrt (<) (sent_frames seqs t)"
  using new_maxima_strict by (simp add: sent_frames_eq)

subsection \<open>Sessions\<close>

datatype session_op = Upsert u64 string u64 | Pong u64 u64

fun session_step :: "session_op \<Rightarrow> HmiSessionManager \<Rightarrow> HmiSessionManager" where
  "session_step (Upsert sid peer now) ss = session_upsert sid peer now ss"
| "session_step (Pong sid now) ss = mark_pong sid now ss"

text \<open>The last sign of life of a session in a history; a pong before the first upsert does not count.\<close>

fun last_seen :: "u64 \<Rightarrow> session_op list \<Rightarrow> u64 option \<Rightarrow> u64 option" where
  "last_seen sid [] seen = seen"
| "last_seen sid (Upsert i peer now # ops) seen = last_seen sid ops (if i = sid then Some now else seen)"
| "last_seen sid (Pong i now # ops) seen = last_seen sid ops (if i = sid \<and> seen \<noteq> None then Some now else seen)"

definition session_view :: "HmiSessionManager \<Rightarrow> u64 \<Rightarrow> (u64 \<times> bool) option" where
  "session_view ss sid = map_option (\<lambda>s. (hs_last_pong_ns s, hs_alive s)) (map_of ss sid)"

lemma session_step_distinct: "distinct (map fst ss) \<Longrightarrow> distinct (map fst (session_step op ss))"
  by (cases op) (auto simp: session_upsert_def mark_pong_def distinct_update split: option.splits)

lemma session_run_view:
  assumes "session_view ss sid = map_option (\<lambda>t. (t, True)) seen"
  shows "session_view (fold session_step ops ss) sid = map_option (\<lambda>t. (t, True)) (last_seen sid ops seen)"
  using assms
proof (induction sid ops seen arbitrary: ss rule: last_seen.induct)
  case (2 sid i peer now ops seen)
  then show ?case by (simp add: session_view_def session_upsert_def update_conv')
next
  case (3 sid i now ops seen)
  have "session_view (mark_pong i now ss) sid = map_option (\<lambda>t. (t, True)) (if i = sid \<and> seen \<noteq> None then Some now else seen)"
    using 3(2) by (cases seen) (auto simp: session_view_def mark_pong_def update_conv' split: option.splits)
  then show ?case using 3(1) by simp
qed simp

lemma session_run_distinct: "distinct (map fst ss) \<Longrightarrow> distinct (map fst (fold session_step ops ss))"
  by (induction ops arbitrary: ss) (simp_all add: session_step_distinct)

lemma sweep_view:
  "session_view (sweep_timeouts now timeout ss) sid =
     map_option (\<lambda>(t, alive). (t, alive \<and> \<not> t + timeout < now)) (session_view ss sid)"
  by (induction ss) (auto simp: session_view_def sweep_timeouts_def split: if_splits)

lemma alive_count_eq:
  assumes "distinct (map fst ss)"
  shows "alive_count ss = card {sid. \<exists>t. session_view ss sid = Some (t, True)}"
proof -
  have "{sid. \<exists>t. session_view ss sid = Some (t, True)} = fst ` set (filter (\<lambda>(sid, s). hs_alive s) ss)"
    using assms by (auto simp: session_view_def image_iff dest: map_of_SomeD intro: rev_bexI)
  moreover have "distinct (map fst (filter (\<lambda>(sid, s). hs_alive s) ss))" using assms by (rule distinct_map_filter)
  ultimately show ?thesis by (metis alive_count_def distinct_card length_map list.set_map)
qed

text \<open>
  Session timeouts.  After any history of registrations and pongs and one sweep, the number of live sessions is the
  number of sessions whose last sign of life is at most the timeout ago (with the sum of time and timeout below \<open>2^64\<close>); pongs of sessions
  that were never registered do not count.
\<close>

lemma session_timeouts_exact:
  assumes "\<forall>sid t. last_seen sid ops None = Some t \<longrightarrow> unat t + unat timeout < 2 ^ 64"
  shows "alive_count (sweep_timeouts now timeout (fold session_step ops [])) =
    card {sid. \<exists>t. last_seen sid ops None = Some t \<and> unat now \<le> unat t + unat timeout}"
proof -
  let ?ss = "fold session_step ops []"
  have v: "session_view ?ss sid = map_option (\<lambda>t. (t, True)) (last_seen sid ops None)" for sid
    by (rule session_run_view) (simp add: session_view_def)
  have "distinct (map fst (sweep_timeouts now timeout ?ss))"
    using session_run_distinct [of "[]" ops] by (simp add: sweep_timeouts_def comp_def split_def)
  then have "alive_count (sweep_timeouts now timeout ?ss) = card {sid. \<exists>t. session_view (sweep_timeouts now timeout ?ss) sid = Some (t, True)}"
    by (rule alive_count_eq)
  also have "{sid. \<exists>t. session_view (sweep_timeouts now timeout ?ss) sid = Some (t, True)} =
      {sid. \<exists>t. last_seen sid ops None = Some t \<and> unat now \<le> unat t + unat timeout}"
    using assms by (auto simp: sweep_view v not_less word_le_nat_alt unat_word_ariths)
  finally show ?thesis .
qed

end
