(* ===== verification/Track_Output.thy ===== *)
theory Track_Output
  imports Track_Manager Fusion Gateway
begin

text \<open>
  From data processing to the displays: the frame built from the tracks, sent by the UDP sender and read by the serializer's reader.
\<close>



end
