(* ===== verification/Signal_Proc.thy ===== *)
theory Signal_Proc
  imports Track_Types Spsc_Queue Error_Codes Protocol_Types
begin

text \<open>
  Signal processing (\<^verbatim>\<open>src/m02_signal_proc/\<close>) in the build without a GPU: stream pool, pinned buffers, the pipeline with its
  in-flight slots and the dispatcher between the block queues and the plot queues.

  Correspondence.  \<open>CpiBlock\<close> is \<^verbatim>\<open>qdgz300::RawBlock\<close>; a pointer is an option, a time point its nanoseconds.  The memory at an address
  is not modelled, so releasing has no effect but on the pointer.  The answers of the allocator and the clock are the fields of
  \<open>submit_env\<close>.  Counters are 64-bit words.  \<^verbatim>\<open>next_slot_\<close> is never used and left out, and
  so is the timeout mark \<^verbatim>\<open>handle_timeout\<close> sets on a batch whose only pointer it then clears.
\<close>

definition GPU_STREAM_COUNT :: nat where [const_defs]: "GPU_STREAM_COUNT = 3"
definition GPU_INFLIGHT_MAX :: nat where [const_defs]: "GPU_INFLIGHT_MAX = 2"
definition T_GPU_MAX_MS :: int where "T_GPU_MAX_MS = 50"
definition PLOTS_Q_CAPACITY :: nat where [const_defs]: "PLOTS_Q_CAPACITY = 256"

definition FLAG_INCOMPLETE_FRAME :: u32 where "FLAG_INCOMPLETE_FRAME = 1"

record CpiBlock =
  cb_ingest_ts :: u64
  cb_data_ts :: u64
  cb_array_id :: u8
  cb_cpi_seq :: u32
  cb_fragment_count :: u16
  cb_data_size :: u32
  cb_flags :: u32
  cb_snapshot :: ExecutionSnapshot
  cb_payload :: "bytes option"

subsection \<open>CudaStreamPool and PinnedBufferPool\<close>

record CudaStreamPool =
  csp_streams :: "u64 list"
  csp_events :: "u64 list"

definition stream_pool_init :: "CudaStreamPool \<Rightarrow> CudaStreamPool" where
  "stream_pool_init p = p\<lparr>csp_streams := replicate GPU_STREAM_COUNT 0, csp_events := replicate GPU_STREAM_COUNT 0\<rparr>"

definition get_stream :: "u8 \<Rightarrow> CudaStreamPool \<Rightarrow> u64" where
  "get_stream i p = (if GPU_STREAM_COUNT \<le> unat i then 0 else csp_streams p ! unat i)"

definition get_event :: "u8 \<Rightarrow> CudaStreamPool \<Rightarrow> u64" where
  "get_event i p = (if GPU_STREAM_COUNT \<le> unat i then 0 else csp_events p ! unat i)"

definition stream_pool_destroy :: "CudaStreamPool \<Rightarrow> CudaStreamPool" where
  "stream_pool_destroy p = p\<lparr>csp_streams := replicate GPU_STREAM_COUNT 0, csp_events := replicate GPU_STREAM_COUNT 0\<rparr>"

definition kBufferAlignment :: u64 where "kBufferAlignment = 64"

definition align_up :: "u64 \<Rightarrow> u64 \<Rightarrow> u64" where
  "align_up v alignment = ((v + alignment - 1) div alignment) * alignment"

record PinnedBufferPool =
  pin_h2d_buffers :: u64
  pin_d2h_buffers :: u64
  pin_cpi_size :: u64
  pin_stream_count :: u8
  pin_pingpong_depth :: u8

definition pinned_destroy :: "PinnedBufferPool \<Rightarrow> PinnedBufferPool" where
  "pinned_destroy p = p\<lparr>pin_h2d_buffers := 0, pin_d2h_buffers := 0, pin_cpi_size := 0, pin_stream_count := 0, pin_pingpong_depth := 0\<rparr>"

text \<open>The size asked of \<^verbatim>\<open>aligned_alloc\<close>, whose two answers are arguments, 0 for \<^verbatim>\<open>nullptr\<close>.\<close>

definition pinned_alloc_size :: "u64 \<Rightarrow> u8 \<Rightarrow> u8 \<Rightarrow> u64" where
  "pinned_alloc_size cpi_size stream_count pingpong_depth = align_up (cpi_size * ucast stream_count * ucast pingpong_depth) kBufferAlignment"

definition pinned_init :: "u64 \<Rightarrow> u64 \<Rightarrow> u64 \<Rightarrow> u8 \<Rightarrow> u8 \<Rightarrow> PinnedBufferPool \<Rightarrow> PinnedBufferPool" where
  "pinned_init h2d d2h cpi_size stream_count pingpong_depth p =
     (pinned_destroy p)\<lparr>pin_cpi_size := cpi_size, pin_stream_count := stream_count, pin_pingpong_depth := pingpong_depth,
        pin_h2d_buffers := h2d, pin_d2h_buffers := d2h\<rparr>"

definition buffer_offset :: "u8 \<Rightarrow> u8 \<Rightarrow> PinnedBufferPool \<Rightarrow> u64" where
  "buffer_offset stream_id slot p = (ucast stream_id * ucast (pin_pingpong_depth p) + ucast slot) * pin_cpi_size p"

definition get_h2d_buffer :: "u8 \<Rightarrow> u8 \<Rightarrow> PinnedBufferPool \<Rightarrow> u64" where
  "get_h2d_buffer stream_id slot p =
     (if pin_h2d_buffers p = 0 \<or> stream_id \<ge> pin_stream_count p \<or> slot \<ge> pin_pingpong_depth p then 0
      else pin_h2d_buffers p + buffer_offset stream_id slot p)"

definition get_d2h_buffer :: "u8 \<Rightarrow> u8 \<Rightarrow> PinnedBufferPool \<Rightarrow> u64" where
  "get_d2h_buffer stream_id slot p =
     (if pin_d2h_buffers p = 0 \<or> stream_id \<ge> pin_stream_count p \<or> slot \<ge> pin_pingpong_depth p then 0
      else pin_d2h_buffers p + buffer_offset stream_id slot p)"

subsection \<open>GpuPipeline\<close>

definition kAmplitudeThreshold :: f32 where "kAmplitudeThreshold = 0x42C80000"
definition F20 :: f32 where "F20 = 0x41A00000"
definition kMaxPlotsPerCpi :: nat where [const_defs]: "kMaxPlotsPerCpi = 512"

record InflightSlot =
  sl_input :: "CpiBlock option"
  sl_output :: "PlotBatch option"
  sl_occupied :: bool
  sl_completed :: bool
  sl_submit_time :: int

type_synonym GpuPipeline = "InflightSlot list list"

definition free_slot :: InflightSlot where
  "free_slot = \<lparr>sl_input = None, sl_output = None, sl_occupied = False, sl_completed = False, sl_submit_time = 0\<rparr>"

definition gpu_pipeline_new :: GpuPipeline where
  "gpu_pipeline_new = replicate GPU_STREAM_COUNT (replicate GPU_INFLIGHT_MAX free_slot)"

definition find_free_slot :: "nat \<Rightarrow> GpuPipeline \<Rightarrow> nat option" where
  "find_free_slot stream_id gp =
     (if GPU_STREAM_COUNT \<le> stream_id then None else List.find (\<lambda>s. \<not> sl_occupied (gp ! stream_id ! s)) [0..<GPU_INFLIGHT_MAX])"

definition num_samples :: "CpiBlock \<Rightarrow> nat" where
  "num_samples block = (if cb_payload block \<noteq> None \<and> 8 \<le> unat (cb_data_size block) then unat (cb_data_size block) div 8 else 0)"

definition iq_sample :: "CpiBlock \<Rightarrow> nat \<Rightarrow> f32" where
  "iq_sample block k = field_le (4 * k) 4 (case cb_payload block of Some bs \<Rightarrow> bs | None \<Rightarrow> [])"

definition amplitude_at :: "fpu \<Rightarrow> CpiBlock \<Rightarrow> nat \<Rightarrow> f32" where
  "amplitude_at fp block i =
     (let i_sample = iq_sample block (2 * i); q_sample = iq_sample block (2 * i + 1)
      in s_sqrt fp (s_add fp (s_mul fp i_sample i_sample) (s_mul fp q_sample q_sample)))"

definition plot_at :: "fpu \<Rightarrow> CpiBlock \<Rightarrow> nat \<Rightarrow> Plot" where
  "plot_at fp block i =
     (let amplitude = amplitude_at fp block i in
      \<lparr>pl_range_m = d_of_size fp (word_of_nat i), pl_azimuth_deg = 0, pl_elevation_deg = 0, pl_doppler_mps = 0,
       pl_snr_db = s_mul fp F20 (s_log10 fp (s_div fp amplitude kAmplitudeThreshold)), pl_amplitude = amplitude, pl_beam_id = 0,
       pl_array_id = cb_array_id block, pl_reserved = 0\<rparr>)"

function detect_loop :: "fpu \<Rightarrow> CpiBlock \<Rightarrow> nat \<Rightarrow> Plot list \<Rightarrow> Plot list" where
  "detect_loop fp block i detected =
     (if i < num_samples block \<and> length detected < kMaxPlotsPerCpi
      then if f32_le (amplitude_at fp block i) kAmplitudeThreshold then detect_loop fp block (Suc i) detected
           else detect_loop fp block (Suc i) (detected @ [plot_at fp block i])
      else detected)"
  by pat_completeness auto
termination
  by (relation "measure (\<lambda>(fp, block, i, detected). num_samples block - i)") auto

declare detect_loop.simps [simp del]

record submit_env =
  se_batch_ok :: bool
  se_plots_ok :: bool
  se_process_ts :: u64
  se_now :: int

definition batch_of :: "fpu \<Rightarrow> u64 \<Rightarrow> CpiBlock \<Rightarrow> PlotBatch" where
  "batch_of fp process_ts block =
     (let detected = detect_loop fp block 0 [] in
      \<lparr>pb_data_ts = cb_data_ts block, pb_process_ts = process_ts, pb_array_id = cb_array_id block, pb_cpi_seq = cb_cpi_seq block,
       pb_plot_count = word_of_nat (length detected),
       pb_flags = (if cb_flags block AND FLAG_INCOMPLETE_FRAME \<noteq> 0 then FLAG_INCOMPLETE_FRAME else 0),
       pb_plots = (if detected = [] then None else Some detected)\<rparr>)"

definition submit_cpi :: "fpu \<Rightarrow> submit_env \<Rightarrow> CpiBlock option \<Rightarrow> nat \<Rightarrow> GpuPipeline \<Rightarrow> GpuPipeline \<times> ErrorCode" where
  "submit_cpi fp env block stream_id gp =
     (case block of
        None \<Rightarrow> (gp, GPU_H2D_FAILED)
      | Some b \<Rightarrow>
         if GPU_STREAM_COUNT \<le> stream_id then (gp, GPU_H2D_FAILED)
         else case find_free_slot stream_id gp of
           None \<Rightarrow> (gp, GPU_H2D_FAILED)
         | Some s \<Rightarrow>
            if \<not> se_batch_ok env then (gp, GPU_H2D_FAILED)
            else if detect_loop fp b 0 [] \<noteq> [] \<and> \<not> se_plots_ok env then (gp, GPU_H2D_FAILED)
            else (gp[stream_id := (gp ! stream_id)[s := \<lparr>sl_input = Some b, sl_output = Some (batch_of fp (se_process_ts env) b),
                    sl_occupied = True, sl_completed = True, sl_submit_time = se_now env\<rparr>]], OK))"

text \<open>Arguments and results: is \<^verbatim>\<open>result\<close> given, the returned flag and the value stored through \<^verbatim>\<open>result\<close>.\<close>

definition poll_completion :: "bool \<Rightarrow> nat \<Rightarrow> GpuPipeline \<Rightarrow> GpuPipeline \<times> bool \<times> PlotBatch option" where
  "poll_completion given stream_id gp =
     (if \<not> given then (gp, False, None)
      else if GPU_STREAM_COUNT \<le> stream_id then (gp, False, None)
      else case List.find (\<lambda>s. sl_occupied (gp ! stream_id ! s) \<and> sl_completed (gp ! stream_id ! s)) [0..<GPU_INFLIGHT_MAX] of
        None \<Rightarrow> (gp, False, None)
      | Some s \<Rightarrow> (gp[stream_id := (gp ! stream_id)[s := free_slot]], True, sl_output (gp ! stream_id ! s)))"

definition gpu_elapsed_ms :: "int \<Rightarrow> int \<Rightarrow> int" where
  "gpu_elapsed_ms now t = sgn (now - t) * (\<bar>now - t\<bar> div 1000000)"

definition handle_timeout :: "int \<Rightarrow> nat \<Rightarrow> GpuPipeline \<Rightarrow> GpuPipeline" where
  "handle_timeout now stream_id gp =
     (if GPU_STREAM_COUNT \<le> stream_id then gp
      else gp[stream_id := map (\<lambda>slot. if sl_occupied slot \<and> gpu_elapsed_ms now (sl_submit_time slot) > T_GPU_MAX_MS then free_slot else slot) (gp ! stream_id)])"

definition inflight_count :: "nat \<Rightarrow> GpuPipeline \<Rightarrow> nat" where
  "inflight_count stream_id gp = (if GPU_STREAM_COUNT \<le> stream_id then 0 else length (filter sl_occupied (gp ! stream_id)))"

definition has_timeout :: "int \<Rightarrow> nat \<Rightarrow> GpuPipeline \<Rightarrow> bool" where
  "has_timeout now stream_id gp \<longleftrightarrow>
     stream_id < GPU_STREAM_COUNT \<and>
     list_ex (\<lambda>slot. sl_occupied slot \<and> \<not> sl_completed slot \<and> gpu_elapsed_ms now (sl_submit_time slot) > T_GPU_MAX_MS) (gp ! stream_id)"

subsection \<open>GpuDispatcher\<close>

record SignalProcMetrics =
  gpu_frames_submitted :: u64
  gpu_frames_completed :: u64
  gpu_timeout_total :: u64
  gpu_inflight_gauge :: int
  gpu_queue_depth :: int

record GpuDispatcher =
  gd_rawcpi_qs :: "CpiBlock option SPSCQueue list"
  gd_plots_qs :: "PlotBatch option SPSCQueue list"
  gd_pipeline :: GpuPipeline
  gd_metrics :: SignalProcMetrics
  gd_rr_index :: nat

definition publish_result :: "nat \<Rightarrow> GpuDispatcher \<Rightarrow> GpuDispatcher option" where
  "publish_result q d =
     (case poll_completion True q (gd_pipeline d) of (gp, done_flag, result) \<Rightarrow>
      let d = d\<lparr>gd_pipeline := gp\<rparr> in
      if done_flag \<and> result \<noteq> None then
        (case drop_oldest_push (gd_plots_qs d ! q) result of
           None \<Rightarrow> None
         | Some (pq, _) \<Rightarrow> Some (d\<lparr>gd_plots_qs := (gd_plots_qs d)[q := pq],
               gd_metrics := (gd_metrics d)\<lparr>gpu_frames_completed := gpu_frames_completed (gd_metrics d) + 1\<rparr>\<rparr>))
      else Some d)"

definition drop_timed_out :: "int \<Rightarrow> nat \<Rightarrow> GpuDispatcher \<Rightarrow> GpuDispatcher" where
  "drop_timed_out now q d =
     (let before = inflight_count q (gd_pipeline d); gp = handle_timeout now q (gd_pipeline d); after = inflight_count q gp;
          m = (if after < before then (gd_metrics d)\<lparr>gpu_timeout_total := gpu_timeout_total (gd_metrics d) + word_of_nat (before - after)\<rparr>
               else gd_metrics d)
      in d\<lparr>gd_pipeline := gp,
           gd_metrics := m\<lparr>gpu_inflight_gauge := int after, gpu_queue_depth := int (spsc_size (gd_rawcpi_qs d ! q))\<rparr>\<rparr>)"

definition submit_next :: "fpu \<Rightarrow> submit_env \<Rightarrow> nat \<Rightarrow> GpuDispatcher \<Rightarrow> GpuDispatcher" where
  "submit_next fp env q d =
     (if GPU_INFLIGHT_MAX \<le> inflight_count q (gd_pipeline d) then d
      else case try_pop (gd_rawcpi_qs d ! q) of
        None \<Rightarrow> d
      | Some (block, rq) \<Rightarrow>
         let d = d\<lparr>gd_rawcpi_qs := (gd_rawcpi_qs d)[q := rq]\<rparr> in
         (case submit_cpi fp env block q (gd_pipeline d) of (gp, ec) \<Rightarrow>
            if ec = OK then d\<lparr>gd_pipeline := gp, gd_metrics := (gd_metrics d)\<lparr>gpu_frames_submitted := gpu_frames_submitted (gd_metrics d) + 1,
                gpu_inflight_gauge := int (inflight_count q gp), gpu_queue_depth := int (spsc_size rq)\<rparr>\<rparr>
            else d\<lparr>gd_pipeline := gp\<rparr>))"

text \<open>One pass over a stream; the clock is read by \<^verbatim>\<open>handle_timeout\<close> and by \<^verbatim>\<open>submit_cpi\<close>.\<close>

definition serve_stream :: "fpu \<Rightarrow> int \<times> submit_env \<Rightarrow> nat \<Rightarrow> GpuDispatcher \<Rightarrow> GpuDispatcher option" where
  "serve_stream fp env q d = map_option (\<lambda>d. submit_next fp (snd env) q (drop_timed_out (fst env) q d)) (publish_result q d)"

fun serve_streams :: "fpu \<Rightarrow> (nat \<Rightarrow> int \<times> submit_env) \<Rightarrow> nat list \<Rightarrow> GpuDispatcher \<Rightarrow> GpuDispatcher option" where
  "serve_streams fp env [] d = Some d"
| "serve_streams fp env (q # qs) d = (case serve_stream fp (env q) q d of None \<Rightarrow> None | Some d \<Rightarrow> serve_streams fp env qs d)"

text \<open>One iteration of \<^verbatim>\<open>run\<close>; the answers of the environment are given per stream.\<close>

definition run_iteration :: "fpu \<Rightarrow> (nat \<Rightarrow> int \<times> submit_env) \<Rightarrow> GpuDispatcher \<Rightarrow> GpuDispatcher option" where
  "run_iteration fp env d =
     map_option (\<lambda>d. d\<lparr>gd_rr_index := (gd_rr_index d + 1) mod GPU_STREAM_COUNT\<rparr>)
       (serve_streams fp env (map (\<lambda>i. (gd_rr_index d + i) mod GPU_STREAM_COUNT) [0..<GPU_STREAM_COUNT]) d)"


subsection \<open>Detection\<close>

lemma detect_loop_eq:
  assumes "length detected \<le> kMaxPlotsPerCpi"
  shows "detect_loop fp block i detected =
    take kMaxPlotsPerCpi (detected @ map (plot_at fp block) (filter (\<lambda>i. \<not> f32_le (amplitude_at fp block i) kAmplitudeThreshold) [i..<num_samples block]))"
  using assms
proof (induction fp block i detected rule: detect_loop.induct)
  case (1 fp block i detected)
  show ?case
  proof (cases "i < num_samples block \<and> length detected < kMaxPlotsPerCpi")
    case True
    with 1 show ?thesis by (subst detect_loop.simps) (simp add: upt_conv_Cons)
  next
    case False
    with 1(3) show ?thesis by (subst detect_loop.simps) auto
  qed
qed

lemma length_detected: "length (detect_loop fp block 0 []) \<le> kMaxPlotsPerCpi"
  by (simp add: detect_loop_eq)


subsection \<open>The dispatcher, stream by stream\<close>

definition stream_inv :: "InflightSlot list \<Rightarrow> bool" where
  "stream_inv slots \<longleftrightarrow> (\<exists>s0 s1. slots = [s0, s1] \<and> \<not> sl_occupied s1 \<and> (sl_occupied s0 \<longrightarrow> sl_completed s0 \<and> sl_output s0 \<noteq> None))"

definition pending :: "nat \<Rightarrow> GpuDispatcher \<Rightarrow> PlotBatch option list" where
  "pending q d = (let s = hd (gd_pipeline d ! q) in if sl_occupied s then [sl_output s] else [])"

definition dispatcher_inv :: "GpuDispatcher \<Rightarrow> bool" where
  "dispatcher_inv d \<longleftrightarrow>
     length (gd_pipeline d) = GPU_STREAM_COUNT \<and> length (gd_rawcpi_qs d) = GPU_STREAM_COUNT \<and> length (gd_plots_qs d) = GPU_STREAM_COUNT \<and>
     (\<forall>q < GPU_STREAM_COUNT. stream_inv (gd_pipeline d ! q) \<and> spsc_inv (gd_rawcpi_qs d ! q) \<and> spsc_inv (gd_plots_qs d ! q))"

text \<open>What becomes of a block taken from the queue: nothing if the pointer is null or memory is short, else one batch.\<close>

definition accepted :: "fpu \<Rightarrow> submit_env \<Rightarrow> CpiBlock option \<Rightarrow> PlotBatch option list" where
  "accepted fp env block =
     (case block of
        None \<Rightarrow> []
      | Some b \<Rightarrow> if se_batch_ok env \<and> (detect_loop fp b 0 [] = [] \<or> se_plots_ok env) then [Some (batch_of fp (se_process_ts env) b)] else [])"

lemma find_slots: "List.find P [0..<GPU_INFLIGHT_MAX] = (if P 0 then Some 0 else if P 1 then Some 1 else None)"
  by (simp add: GPU_INFLIGHT_MAX_def upt_conv_Cons numeral_2_eq_2)

lemma publish_result_stream:
  assumes "dispatcher_inv d" and q: "q < GPU_STREAM_COUNT"
  shows "\<exists>slots. publish_result q d = Some (d\<lparr>gd_pipeline := (gd_pipeline d)[q := slots],
      gd_plots_qs := (gd_plots_qs d)[q := spsc.push_all (gd_plots_qs d ! q) (pending q d)],
      gd_metrics := (gd_metrics d)\<lparr>gpu_frames_completed := gpu_frames_completed (gd_metrics d) + word_of_nat (length (pending q d))\<rparr>\<rparr>) \<and>
    length slots = 2 \<and> filter sl_occupied slots = []"
proof -
  from assms obtain s0 s1 where s: "gd_pipeline d ! q = [s0, s1]" "\<not> sl_occupied s1" "sl_occupied s0 \<longrightarrow> sl_completed s0 \<and> sl_output s0 \<noteq> None"
    by (auto simp: dispatcher_inv_def stream_inv_def)
  show ?thesis
  proof (cases "sl_occupied s0")
    case True
    from assms have "spsc_inv (gd_plots_qs d ! q)" by (simp add: dispatcher_inv_def)
    from drop_oldest_push_returns [OF this, of "sl_output s0"] obtain pq direct where
      p: "drop_oldest_push (gd_plots_qs d ! q) (sl_output s0) = Some (pq, direct)" by blast
    then have "spsc.push_all (gd_plots_qs d ! q) (pending q d) = pq" using True s by (simp add: pending_def Let_def spsc_push_def)
    then show ?thesis using True s p q
      by (intro exI [of _ "[free_slot, s1]"]) (simp add: publish_result_def poll_completion_def find_slots pending_def Let_def free_slot_def)
  next
    case False
    have "(gd_pipeline d)[q := [s0, s1]] = gd_pipeline d" using s(1) by (metis list_update_id)
    then show ?thesis using False s q
      by (intro exI [of _ "[s0, s1]"]) (simp add: publish_result_def poll_completion_def find_slots pending_def Let_def)
  qed
qed

lemma idle_stream:
  assumes "q < GPU_STREAM_COUNT" and "length gp = GPU_STREAM_COUNT" and "length (gp ! q) = 2" and "filter sl_occupied (gp ! q) = []"
  shows "handle_timeout now q gp = gp" "inflight_count q gp = 0" "find_free_slot q gp = Some 0"
proof -
  have "map (\<lambda>slot. if sl_occupied slot \<and> gpu_elapsed_ms now (sl_submit_time slot) > T_GPU_MAX_MS then free_slot else slot) (gp ! q) = gp ! q"
    using assms(4) by (auto simp: filter_empty_conv intro!: map_idI)
  then show "handle_timeout now q gp = gp" using assms(1) by (simp add: handle_timeout_def)
  show "inflight_count q gp = 0" "find_free_slot q gp = Some 0"
    using assms by (auto simp: inflight_count_def find_free_slot_def find_slots filter_empty_conv)
qed

lemma submit_next_idle:
  assumes "q < GPU_STREAM_COUNT" and "length (gd_pipeline d) = GPU_STREAM_COUNT" and "length (gd_pipeline d ! q) = 2"
    and "filter sl_occupied (gd_pipeline d ! q) = []" and "spsc_inv (gd_rawcpi_qs d ! q)" and "length (gd_rawcpi_qs d) = GPU_STREAM_COUNT"
  shows "\<exists>rq slots gauge depth. submit_next fp env q d = d\<lparr>gd_rawcpi_qs := (gd_rawcpi_qs d)[q := rq], gd_pipeline := (gd_pipeline d)[q := slots],
      gd_metrics := (gd_metrics d)\<lparr>gpu_frames_submitted := gpu_frames_submitted (gd_metrics d) +
        word_of_nat (length (if sl_occupied (hd slots) then [sl_output (hd slots)] else [])), gpu_inflight_gauge := gauge, gpu_queue_depth := depth\<rparr>\<rparr> \<and>
    spsc_inv rq \<and> spsc_contents rq = tl (spsc_contents (gd_rawcpi_qs d ! q)) \<and> stream_inv slots \<and>
    (if sl_occupied (hd slots) then [sl_output (hd slots)] else []) =
      (case spsc_contents (gd_rawcpi_qs d ! q) of [] \<Rightarrow> [] | b # bs \<Rightarrow> accepted fp env b)"
proof -
  note idle = idle_stream [OF assms(1-4)]
  obtain s0 s1 where s: "gd_pipeline d ! q = [s0, s1]" "\<not> sl_occupied s0" "\<not> sl_occupied s1"
    using assms(3,4) by (auto simp: numeral_2_eq_2 length_Suc_conv filter_empty_conv)
  have same: "(gd_pipeline d)[q := [s0, s1]] = gd_pipeline d" "(gd_rawcpi_qs d)[q := gd_rawcpi_qs d ! q] = gd_rawcpi_qs d"
    using s(1) by (metis list_update_id) simp
  show ?thesis
  proof (cases "try_pop (gd_rawcpi_qs d ! q)")
    case None
    then have "spsc_contents (gd_rawcpi_qs d ! q) = []" using spsc.pop_empty [OF assms(5)] by blast
    then have "submit_next fp env q d = d\<lparr>gd_rawcpi_qs := (gd_rawcpi_qs d)[q := gd_rawcpi_qs d ! q], gd_pipeline := (gd_pipeline d)[q := [s0, s1]],
        gd_metrics := (gd_metrics d)\<lparr>gpu_frames_submitted := gpu_frames_submitted (gd_metrics d) +
          word_of_nat (length (if sl_occupied (hd [s0, s1]) then [sl_output (hd [s0, s1])] else [])),
          gpu_inflight_gauge := gpu_inflight_gauge (gd_metrics d), gpu_queue_depth := gpu_queue_depth (gd_metrics d)\<rparr>\<rparr>"
      using None s idle(2) same by (simp add: submit_next_def GPU_INFLIGHT_MAX_def)
    then show ?thesis using s \<open>spsc_contents (gd_rawcpi_qs d ! q) = []\<close> assms(5)
      by (intro exI conjI) (assumption | simp add: stream_inv_def)+
  next
    case (Some r)
    then obtain b rq where r: "try_pop (gd_rawcpi_qs d ! q) = Some (b, rq)" by (cases r) auto
    have c: "spsc_contents (gd_rawcpi_qs d ! q) = b # spsc_contents rq" "spsc_inv rq"
      using spsc.pop_head [OF assms(5) r] spsc.invar_pop [OF assms(5) r] by blast+
    define slots where "slots = (case accepted fp env b of [] \<Rightarrow> [s0, s1] | out # _ \<Rightarrow>
      [\<lparr>sl_input = b, sl_output = out, sl_occupied = True, sl_completed = True, sl_submit_time = se_now env\<rparr>, s1])"
    have sub: "submit_cpi fp env b q (gd_pipeline d) = ((gd_pipeline d)[q := slots], if accepted fp env b = [] then GPU_H2D_FAILED else OK)"
      using s idle(3) same(1) assms(1) by (auto simp: submit_cpi_def accepted_def slots_def split: option.splits)
    have slots: "stream_inv slots" "(if sl_occupied (hd slots) then [sl_output (hd slots)] else []) = accepted fp env b"
      using s by (auto simp: slots_def stream_inv_def accepted_def split: option.splits)
    note slots
    moreover have "accepted fp env b \<noteq> [] \<Longrightarrow> length (accepted fp env b) = 1" by (auto simp: accepted_def split: option.splits)
    ultimately have "submit_next fp env q d = d\<lparr>gd_rawcpi_qs := (gd_rawcpi_qs d)[q := rq], gd_pipeline := (gd_pipeline d)[q := slots],
        gd_metrics := (gd_metrics d)\<lparr>gpu_frames_submitted := gpu_frames_submitted (gd_metrics d) +
          word_of_nat (length (if sl_occupied (hd slots) then [sl_output (hd slots)] else [])),
          gpu_inflight_gauge := (if accepted fp env b = [] then gpu_inflight_gauge (gd_metrics d) else int (inflight_count q ((gd_pipeline d)[q := slots]))),
          gpu_queue_depth := (if accepted fp env b = [] then gpu_queue_depth (gd_metrics d) else int (spsc_size rq))\<rparr>\<rparr>"
      using r sub idle(2) by (simp add: submit_next_def GPU_INFLIGHT_MAX_def Let_def)
    then show ?thesis using c slots by (intro exI conjI) (assumption | simp)+
  qed
qed

lemma serve_stream_effect:
  assumes inv: "dispatcher_inv d" and q: "q < GPU_STREAM_COUNT"
  shows "\<exists>d'. serve_stream fp env q d = Some d' \<and> dispatcher_inv d' \<and> gd_rr_index d' = gd_rr_index d \<and>
    spsc_contents (gd_rawcpi_qs d' ! q) = tl (spsc_contents (gd_rawcpi_qs d ! q)) \<and>
    gd_plots_qs d' ! q = spsc.push_all (gd_plots_qs d ! q) (pending q d) \<and>
    pending q d' = (case spsc_contents (gd_rawcpi_qs d ! q) of [] \<Rightarrow> [] | b # bs \<Rightarrow> accepted fp (snd env) b) \<and>
    (\<forall>p < GPU_STREAM_COUNT. p \<noteq> q \<longrightarrow> gd_rawcpi_qs d' ! p = gd_rawcpi_qs d ! p \<and> gd_plots_qs d' ! p = gd_plots_qs d ! p \<and> pending p d' = pending p d) \<and>
    gpu_timeout_total (gd_metrics d') = gpu_timeout_total (gd_metrics d) \<and>
    gpu_frames_completed (gd_metrics d') = gpu_frames_completed (gd_metrics d) + word_of_nat (length (pending q d)) \<and>
    gpu_frames_submitted (gd_metrics d') = gpu_frames_submitted (gd_metrics d) + word_of_nat (length (pending q d'))"
proof -
  from publish_result_stream [OF assms] obtain slots where
    p: "publish_result q d = Some (d\<lparr>gd_pipeline := (gd_pipeline d)[q := slots],
      gd_plots_qs := (gd_plots_qs d)[q := spsc.push_all (gd_plots_qs d ! q) (pending q d)],
      gd_metrics := (gd_metrics d)\<lparr>gpu_frames_completed := gpu_frames_completed (gd_metrics d) + word_of_nat (length (pending q d))\<rparr>\<rparr>)" (is "_ = Some ?d1")
    and slots: "length slots = 2" "filter sl_occupied slots = []" by blast
  have len: "length (gd_pipeline d) = GPU_STREAM_COUNT" "length (gd_rawcpi_qs d) = GPU_STREAM_COUNT" "length (gd_plots_qs d) = GPU_STREAM_COUNT"
    using inv by (simp_all add: dispatcher_inv_def)
  have idle1: "handle_timeout (fst env) q (gd_pipeline ?d1) = gd_pipeline ?d1" "inflight_count q (gd_pipeline ?d1) = 0"
    using idle_stream [of q "gd_pipeline ?d1"] q len slots by simp_all
  define d2 where "d2 = drop_timed_out (fst env) q ?d1"
  have d2: "gd_pipeline d2 = (gd_pipeline d)[q := slots]" "gd_rawcpi_qs d2 = gd_rawcpi_qs d" "gd_rr_index d2 = gd_rr_index d"
    "gd_plots_qs d2 = (gd_plots_qs d)[q := spsc.push_all (gd_plots_qs d ! q) (pending q d)]"
    "gpu_timeout_total (gd_metrics d2) = gpu_timeout_total (gd_metrics d)" "gpu_frames_submitted (gd_metrics d2) = gpu_frames_submitted (gd_metrics d)"
    "gpu_frames_completed (gd_metrics d2) = gpu_frames_completed (gd_metrics d) + word_of_nat (length (pending q d))"
    using idle1 by (simp_all add: d2_def drop_timed_out_def Let_def)
  have rq: "spsc_inv (gd_rawcpi_qs d ! q)" using inv q by (simp add: dispatcher_inv_def)
  have "\<exists>rq slots' gauge depth. submit_next fp (snd env) q d2 = d2\<lparr>gd_rawcpi_qs := (gd_rawcpi_qs d2)[q := rq], gd_pipeline := (gd_pipeline d2)[q := slots'],
      gd_metrics := (gd_metrics d2)\<lparr>gpu_frames_submitted := gpu_frames_submitted (gd_metrics d2) +
        word_of_nat (length (if sl_occupied (hd slots') then [sl_output (hd slots')] else [])), gpu_inflight_gauge := gauge, gpu_queue_depth := depth\<rparr>\<rparr> \<and>
    spsc_inv rq \<and> spsc_contents rq = tl (spsc_contents (gd_rawcpi_qs d2 ! q)) \<and> stream_inv slots' \<and>
    (if sl_occupied (hd slots') then [sl_output (hd slots')] else []) =
      (case spsc_contents (gd_rawcpi_qs d2 ! q) of [] \<Rightarrow> [] | b # bs \<Rightarrow> accepted fp (snd env) b)"
    using q len slots rq d2(1,2) by (intro submit_next_idle) simp_all
  then obtain rq slots' gauge depth where s: "submit_next fp (snd env) q d2 = d2\<lparr>gd_rawcpi_qs := (gd_rawcpi_qs d)[q := rq], gd_pipeline := (gd_pipeline d)[q := slots'],
      gd_metrics := (gd_metrics d2)\<lparr>gpu_frames_submitted := gpu_frames_submitted (gd_metrics d) +
        word_of_nat (length (if sl_occupied (hd slots') then [sl_output (hd slots')] else [])), gpu_inflight_gauge := gauge, gpu_queue_depth := depth\<rparr>\<rparr>"
    "spsc_inv rq" "spsc_contents rq = tl (spsc_contents (gd_rawcpi_qs d ! q))" "stream_inv slots'"
    "(if sl_occupied (hd slots') then [sl_output (hd slots')] else []) =
      (case spsc_contents (gd_rawcpi_qs d ! q) of [] \<Rightarrow> [] | b # bs \<Rightarrow> accepted fp (snd env) b)" by (auto simp: d2)
  let ?d' = "submit_next fp (snd env) q d2"
  have pend: "pending q ?d' = (if sl_occupied (hd slots') then [sl_output (hd slots')] else [])"
    using q len by (simp add: s(1) pending_def Let_def)
  have "dispatcher_inv ?d'"
    using inv q len s(2,4) spsc.push_all_facts [of "gd_plots_qs d ! q" "pending q d"] by (auto simp: s(1) d2 dispatcher_inv_def nth_list_update)
  moreover have "serve_stream fp env q d = Some ?d'" by (simp add: serve_stream_def p d2_def)
  ultimately show ?thesis using q len s(3,5) pend
    by (intro exI [of _ ?d']) (simp add: s(1) d2 pending_def Let_def)
qed

definition served :: "fpu \<Rightarrow> submit_env \<Rightarrow> nat \<Rightarrow> GpuDispatcher \<Rightarrow> GpuDispatcher \<Rightarrow> bool" where
  "served fp env q d d' \<longleftrightarrow>
     spsc_contents (gd_rawcpi_qs d' ! q) = tl (spsc_contents (gd_rawcpi_qs d ! q)) \<and>
     gd_plots_qs d' ! q = spsc.push_all (gd_plots_qs d ! q) (pending q d) \<and>
     pending q d' = (case spsc_contents (gd_rawcpi_qs d ! q) of [] \<Rightarrow> [] | b # bs \<Rightarrow> accepted fp env b)"

definition untouched :: "nat \<Rightarrow> GpuDispatcher \<Rightarrow> GpuDispatcher \<Rightarrow> bool" where
  "untouched q d d' \<longleftrightarrow> gd_rawcpi_qs d' ! q = gd_rawcpi_qs d ! q \<and> gd_plots_qs d' ! q = gd_plots_qs d ! q \<and> pending q d' = pending q d"

definition balance :: "GpuDispatcher \<Rightarrow> u64" where
  "balance d = gpu_frames_submitted (gd_metrics d) - gpu_frames_completed (gd_metrics d) - word_of_nat (\<Sum>q < GPU_STREAM_COUNT. length (pending q d))"

lemma balance_serve:
  assumes q: "q < GPU_STREAM_COUNT" and "\<forall>p < GPU_STREAM_COUNT. p \<noteq> q \<longrightarrow> pending p d' = pending p d"
    and "gpu_frames_completed (gd_metrics d') = gpu_frames_completed (gd_metrics d) + word_of_nat (length (pending q d))"
    and "gpu_frames_submitted (gd_metrics d') = gpu_frames_submitted (gd_metrics d) + word_of_nat (length (pending q d'))"
  shows "balance d' = balance d"
proof -
  have split: "(\<Sum>p < GPU_STREAM_COUNT. length (pending p x)) = length (pending q x) + (\<Sum>p \<in> {..<GPU_STREAM_COUNT} - {q}. length (pending p x))" for x
    using q by (intro sum.remove) auto
  have "(\<Sum>p \<in> {..<GPU_STREAM_COUNT} - {q}. length (pending p d')) = (\<Sum>p \<in> {..<GPU_STREAM_COUNT} - {q}. length (pending p d))"
    using assms(2) by (intro sum.cong) auto
  then show ?thesis using assms(3,4) by (simp add: balance_def split)
qed

lemma serve_streams_effect:
  assumes "dispatcher_inv d" and "distinct qs" and "set qs \<subseteq> {..<GPU_STREAM_COUNT}"
  shows "\<exists>d'. serve_streams fp env qs d = Some d' \<and> dispatcher_inv d' \<and> gd_rr_index d' = gd_rr_index d \<and>
    gpu_timeout_total (gd_metrics d') = gpu_timeout_total (gd_metrics d) \<and> balance d' = balance d \<and>
    (\<forall>q < GPU_STREAM_COUNT. if q \<in> set qs then served fp (snd (env q)) q d d' else untouched q d d')"
  using assms
proof (induction qs arbitrary: d)
  case Nil
  then show ?case by (simp add: untouched_def)
next
  case (Cons q qs)
  then have q: "q < GPU_STREAM_COUNT" "q \<notin> set qs" by auto
  from serve_stream_effect [OF Cons.prems(1) q(1), of fp "env q"] obtain d1 where
    d1: "serve_stream fp (env q) q d = Some d1" "dispatcher_inv d1" "gd_rr_index d1 = gd_rr_index d" "served fp (snd (env q)) q d d1"
      "gpu_timeout_total (gd_metrics d1) = gpu_timeout_total (gd_metrics d)" "\<forall>p < GPU_STREAM_COUNT. p \<noteq> q \<longrightarrow> untouched p d d1"
      "gpu_frames_completed (gd_metrics d1) = gpu_frames_completed (gd_metrics d) + word_of_nat (length (pending q d))"
      "gpu_frames_submitted (gd_metrics d1) = gpu_frames_submitted (gd_metrics d) + word_of_nat (length (pending q d1))"
    unfolding served_def untouched_def by blast
  have b: "balance d1 = balance d" using d1(6-8) q(1) by (intro balance_serve [of q]) (simp_all add: untouched_def)
  from Cons.IH [OF d1(2)] Cons.prems obtain d' where d': "serve_streams fp env qs d1 = Some d'" "dispatcher_inv d'" "gd_rr_index d' = gd_rr_index d1"
      "gpu_timeout_total (gd_metrics d') = gpu_timeout_total (gd_metrics d1)" "balance d' = balance d1"
      "\<forall>p < GPU_STREAM_COUNT. if p \<in> set qs then served fp (snd (env p)) p d1 d' else untouched p d1 d'" by auto
  have "if p \<in> set (q # qs) then served fp (snd (env p)) p d d' else untouched p d d'" if "p < GPU_STREAM_COUNT" for p
    using d1(4,6) d'(6) [rule_format, OF that] q that by (auto simp: served_def untouched_def split: if_splits)
  then show ?case using d1(1,3,5) b d'(1-5) by auto
qed

lemma rotation: "distinct (map (\<lambda>i. (r + i) mod GPU_STREAM_COUNT) [0..<GPU_STREAM_COUNT]) \<and>
    set (map (\<lambda>i. (r + i) mod GPU_STREAM_COUNT) [0..<GPU_STREAM_COUNT]) = {..<GPU_STREAM_COUNT}"
proof -
  have list: "map (\<lambda>i. (r + i) mod GPU_STREAM_COUNT) [0..<GPU_STREAM_COUNT] = [r mod 3, (r mod 3 + 1) mod 3, (r mod 3 + 2) mod 3]"
    using mod_add_left_eq [of r 3 1] mod_add_left_eq [of r 3 2] by (simp add: GPU_STREAM_COUNT_def upt_rec [of _ 3])
  have "r mod 3 < 3" by simp
  then consider "r mod 3 = 0" | "r mod 3 = 1" | "r mod 3 = 2" by linarith
  then show ?thesis unfolding list by cases (auto simp: GPU_STREAM_COUNT_def)
qed

lemma run_iteration_effect:
  assumes "dispatcher_inv d"
  shows "\<exists>d'. run_iteration fp env d = Some d' \<and> dispatcher_inv d' \<and> gpu_timeout_total (gd_metrics d') = gpu_timeout_total (gd_metrics d) \<and>
    balance d' = balance d \<and> (\<forall>q < GPU_STREAM_COUNT. served fp (snd (env q)) q d d')"
proof -
  let ?qs = "map (\<lambda>i. (gd_rr_index d + i) mod GPU_STREAM_COUNT) [0..<GPU_STREAM_COUNT]"
  have qs: "distinct ?qs" "set ?qs = {..<GPU_STREAM_COUNT}" using rotation by blast+
  from serve_streams_effect [OF assms qs(1) eq_refl [OF qs(2)], of fp env] qs(2) show ?thesis
    by (auto simp: run_iteration_def dispatcher_inv_def balance_def served_def pending_def)
qed

fun run_iterations :: "fpu \<Rightarrow> (nat \<Rightarrow> int \<times> submit_env) list \<Rightarrow> GpuDispatcher \<Rightarrow> GpuDispatcher option" where
  "run_iterations fp [] d = Some d"
| "run_iterations fp (e # es) d = (case run_iteration fp e d of None \<Rightarrow> None | Some d \<Rightarrow> run_iterations fp es d)"

text \<open>The batches of the blocks taken in successive iterations.\<close>

definition batches_for :: "fpu \<Rightarrow> (nat \<Rightarrow> int \<times> submit_env) list \<Rightarrow> nat \<Rightarrow> CpiBlock option list \<Rightarrow> PlotBatch option list" where
  "batches_for fp es q blocks = concat (map2 (\<lambda>e block. accepted fp (snd (e q)) block) es blocks)"

lemma run_iterations_effect:
  assumes "dispatcher_inv d"
  shows "\<exists>d'. run_iterations fp es d = Some d' \<and> dispatcher_inv d' \<and> gpu_timeout_total (gd_metrics d') = gpu_timeout_total (gd_metrics d) \<and>
    balance d' = balance d \<and>
    (\<forall>q < GPU_STREAM_COUNT. spsc_contents (gd_rawcpi_qs d' ! q) = drop (length es) (spsc_contents (gd_rawcpi_qs d ! q)) \<and>
      (\<exists>out. out @ pending q d' = pending q d @ batches_for fp es q (spsc_contents (gd_rawcpi_qs d ! q)) \<and>
        gd_plots_qs d' ! q = spsc.push_all (gd_plots_qs d ! q) out) \<and>
      (length (spsc_contents (gd_rawcpi_qs d ! q)) < length es \<longrightarrow> pending q d' = []))"
  using assms
proof (induction es arbitrary: d)
  case Nil
  then show ?case by (auto simp: batches_for_def)
next
  case (Cons e es)
  from run_iteration_effect [OF Cons.prems, of fp e] obtain d1 where
    d1: "run_iteration fp e d = Some d1" "dispatcher_inv d1" "gpu_timeout_total (gd_metrics d1) = gpu_timeout_total (gd_metrics d)"
      "balance d1 = balance d" "\<forall>q < GPU_STREAM_COUNT. served fp (snd (e q)) q d d1" by blast
  from Cons.IH [OF d1(2)] obtain d' where
    d': "run_iterations fp es d1 = Some d'" "dispatcher_inv d'" "gpu_timeout_total (gd_metrics d') = gpu_timeout_total (gd_metrics d1)" "balance d' = balance d1"
      and each: "\<forall>q < GPU_STREAM_COUNT. spsc_contents (gd_rawcpi_qs d' ! q) = drop (length es) (spsc_contents (gd_rawcpi_qs d1 ! q)) \<and>
      (\<exists>out. out @ pending q d' = pending q d1 @ batches_for fp es q (spsc_contents (gd_rawcpi_qs d1 ! q)) \<and>
        gd_plots_qs d' ! q = spsc.push_all (gd_plots_qs d1 ! q) out) \<and>
      (length (spsc_contents (gd_rawcpi_qs d1 ! q)) < length es \<longrightarrow> pending q d' = [])" by blast
  have "spsc_contents (gd_rawcpi_qs d' ! q) = drop (length (e # es)) (spsc_contents (gd_rawcpi_qs d ! q)) \<and>
      (\<exists>out. out @ pending q d' = pending q d @ batches_for fp (e # es) q (spsc_contents (gd_rawcpi_qs d ! q)) \<and>
        gd_plots_qs d' ! q = spsc.push_all (gd_plots_qs d ! q) out) \<and>
      (length (spsc_contents (gd_rawcpi_qs d ! q)) < length (e # es) \<longrightarrow> pending q d' = [])" if q: "q < GPU_STREAM_COUNT" for q
  proof -
    from each [rule_format, OF q] obtain out where out: "spsc_contents (gd_rawcpi_qs d' ! q) = drop (length es) (spsc_contents (gd_rawcpi_qs d1 ! q))"
        "out @ pending q d' = pending q d1 @ batches_for fp es q (spsc_contents (gd_rawcpi_qs d1 ! q))"
        "gd_plots_qs d' ! q = spsc.push_all (gd_plots_qs d1 ! q) out" "length (spsc_contents (gd_rawcpi_qs d1 ! q)) < length es \<longrightarrow> pending q d' = []" by blast
    from d1(5) q have s: "served fp (snd (e q)) q d d1" by blast
    have "(pending q d @ out) @ pending q d' = pending q d @ batches_for fp (e # es) q (spsc_contents (gd_rawcpi_qs d ! q))"
      using s out(2) by (cases "spsc_contents (gd_rawcpi_qs d ! q)") (auto simp: served_def batches_for_def)
    moreover have "gd_plots_qs d' ! q = spsc.push_all (gd_plots_qs d ! q) (pending q d @ out)"
      using s out(3) by (simp add: served_def spsc.push_all_append)
    moreover have "length (spsc_contents (gd_rawcpi_qs d ! q)) < length (e # es) \<longrightarrow> pending q d' = []"
      using s out(2,4) by (cases "spsc_contents (gd_rawcpi_qs d ! q)"; cases es) (auto simp: served_def batches_for_def)
    moreover have "spsc_contents (gd_rawcpi_qs d' ! q) = drop (length (e # es)) (spsc_contents (gd_rawcpi_qs d ! q))"
      using s out(1) by (simp add: served_def drop_Suc)
    ultimately show ?thesis by blast
  qed
  then show ?case using d1(1,3,4) d' by auto
qed


subsection \<open>Buffers\<close>

lemma unat_ucast_u8: "unat (ucast (x :: u8) :: u64) = unat x"
  by transfer (simp add: take_bit_int_less_exp take_bit_take_bit)

lemma buffer_index_bound:
  assumes "s < (n::nat)" and "k < depth"
  shows "s * depth + k < n * depth"
proof -
  have "s * depth + k < Suc s * depth" using assms(2) by simp
  also have "\<dots> \<le> n * depth" using assms(1) by (intro mult_le_mono1) simp
  finally show ?thesis .
qed

lemma buffer_index_inj:
  assumes "k < depth" and "k' < depth" and "s * depth + k = s' * depth + (k' :: nat)"
  shows "s = s' \<and> k = k'"
proof -
  have "(s * depth + k) div depth = s" "(s' * depth + k') div depth = s'" using assms(1,2) by simp_all
  with assms(3) have "s = s'" by simp
  with assms(3) show ?thesis by simp
qed

definition pinned_fits :: "u64 \<Rightarrow> u64 \<Rightarrow> u8 \<Rightarrow> u8 \<Rightarrow> bool" where
  "pinned_fits h2d cpi_size stream_count depth \<longleftrightarrow>
     h2d \<noteq> 0 \<and> unat cpi_size * unat stream_count * unat depth + 64 \<le> 2 ^ 64 \<and>
     unat h2d + unat (pinned_alloc_size cpi_size stream_count depth) \<le> 2 ^ 64"

lemma unat_pinned_alloc_size:
  assumes "unat cpi_size * unat stream_count * unat depth + 64 \<le> 2 ^ 64"
  shows "unat cpi_size * (unat stream_count * unat depth) \<le> unat (pinned_alloc_size cpi_size stream_count depth)"
proof -
  let ?n = "unat cpi_size * unat stream_count * unat depth"
  have le: "unat cpi_size * unat stream_count \<le> ?n \<or> depth = 0" by (auto simp: Suc_le_eq unat_gt_0)
  show ?thesis
  proof (cases "depth = 0")
    case False
    with le have "unat cpi_size * unat stream_count \<le> ?n" by blast
    then have "unat cpi_size * unat stream_count < 2 ^ 64" using assms by linarith
    then have n: "unat (cpi_size * ucast stream_count * ucast depth) = ?n"
      using assms by (simp add: unat_word_ariths unat_ucast_u8)
    then have "unat (cpi_size * ucast stream_count * ucast depth + 64 - 1) = ?n + 63"
      using assms by (simp add: unat_word_ariths add.commute [of _ 63])
    moreover have "(?n + 63) div 64 * 64 < 2 ^ 64" using assms div_times_less_eq_dividend [of "?n + 63" 64] by linarith
    ultimately have "unat (pinned_alloc_size cpi_size stream_count depth) = (?n + 63) div 64 * 64"
      by (simp add: pinned_alloc_size_def align_up_def kBufferAlignment_def unat_word_ariths unat_div)
    then show ?thesis by (simp add: mult.assoc)
  qed simp
qed

lemma h2d_buffer_offset:
  assumes "pinned_fits h2d cpi_size stream_count depth" and "s < stream_count" and "k < depth"
  shows "unat (get_h2d_buffer s k (pinned_init h2d d2h cpi_size stream_count depth p)) = unat h2d + (unat s * unat depth + unat k) * unat cpi_size"
    and "unat h2d + (unat s * unat depth + unat k) * unat cpi_size + unat cpi_size \<le> unat h2d + unat (pinned_alloc_size cpi_size stream_count depth)"
proof -
  let ?i = "unat s * unat depth + unat k"
  have small: "unat cpi_size * unat stream_count * unat depth + 64 \<le> 2 ^ 64" using assms(1) by (simp add: pinned_fits_def)
  have i: "?i < unat stream_count * unat depth" using assms(2,3) by (intro buffer_index_bound) (simp_all add: word_less_nat_alt)
  have "Suc ?i * unat cpi_size \<le> unat stream_count * unat depth * unat cpi_size" using i by (intro mult_le_mono1) simp
  also have "\<dots> \<le> unat (pinned_alloc_size cpi_size stream_count depth)"
    using unat_pinned_alloc_size [OF small] by (simp add: mult.commute mult.left_commute)
  finally show "unat h2d + ?i * unat cpi_size + unat cpi_size \<le> unat h2d + unat (pinned_alloc_size cpi_size stream_count depth)" by simp
  with assms(1) have bound: "unat h2d + ?i * unat cpi_size + unat cpi_size \<le> 2 ^ 64" by (simp add: pinned_fits_def)
  have range: "\<not> stream_count \<le> s" "\<not> depth \<le> k" "h2d \<noteq> 0" using assms by (auto simp: pinned_fits_def)
  show "unat (get_h2d_buffer s k (pinned_init h2d d2h cpi_size stream_count depth p)) = unat h2d + ?i * unat cpi_size"
  proof (cases "cpi_size = 0")
    case True
    then show ?thesis using range by (simp add: get_h2d_buffer_def pinned_init_def pinned_destroy_def buffer_offset_def)
  next
    case False
    then have c: "0 < unat cpi_size" by (simp add: unat_gt_0)
    have b: "unat s < 2 ^ 8" "unat depth < 2 ^ 8" "unat k < 2 ^ 8" using unsigned_less [of s, where ?'a = nat] unsigned_less [of depth, where ?'a = nat] unsigned_less [of k, where ?'a = nat] by simp_all
    then have "unat s * unat depth < 2 ^ 16" using mult_strict_mono' [of "unat s" "2 ^ 8" "unat depth" "2 ^ 8"] by simp
    then have ui: "unat (ucast s * ucast depth + ucast k :: u64) = ?i"
      using b by (simp add: unat_word_ariths unat_ucast_u8)
    have uo: "unat ((ucast s * ucast depth + ucast k) * cpi_size :: u64) = ?i * unat cpi_size"
      using bound c by (simp add: unat_word_ariths(2) ui)
    show ?thesis using range bound c
      by (simp add: get_h2d_buffer_def pinned_init_def pinned_destroy_def buffer_offset_def unat_word_ariths(1) uo)
  qed
qed


subsection \<open>Properties\<close>

text \<open>
  Pinned buffers lie inside the allocation and do not overlap.  When the product of the sizes and the allocation fit into the address
  space, the host-to-device buffers of a stream and slot in range are inside the allocated block, and those of different
  streams or slots are disjoint.
\<close>

lemma pinned_buffers_disjoint:
  assumes "pinned_fits h2d cpi_size stream_count depth" and "s < stream_count" "k < depth" and "s' < stream_count" "k' < depth"
  shows "let p = pinned_init h2d d2h cpi_size stream_count depth p0; a = unat (get_h2d_buffer s k p); b = unat (get_h2d_buffer s' k' p) in
    unat h2d \<le> a \<and> a + unat cpi_size \<le> unat h2d + unat (pinned_alloc_size cpi_size stream_count depth) \<and>
    ((s, k) \<noteq> (s', k') \<longrightarrow> a + unat cpi_size \<le> b \<or> b + unat cpi_size \<le> a)"
proof -
  let ?i = "unat s * unat depth + unat k" and ?j = "unat s' * unat depth + unat k'"
  note a = h2d_buffer_offset [OF assms(1-3)] and b = h2d_buffer_offset [OF assms(1,4,5)]
  have "?i \<noteq> ?j" if "(s, k) \<noteq> (s', k')"
    using buffer_index_inj [of "unat k" "unat depth" "unat k'" "unat s" "unat s'"] assms(3,5) that
    by (auto simp: word_less_nat_alt word_unat_eq_iff)
  then have "(s, k) \<noteq> (s', k') \<longrightarrow> ?i < ?j \<or> ?j < ?i" by (meson linorder_neqE_nat)
  moreover have step: "i * unat cpi_size + unat cpi_size \<le> j * unat cpi_size" if "i < j" for i j :: nat
    using that mult_le_mono1 [of "Suc i" j "unat cpi_size"] by simp
  ultimately have "(s, k) \<noteq> (s', k') \<longrightarrow> ?i * unat cpi_size + unat cpi_size \<le> ?j * unat cpi_size \<or> ?j * unat cpi_size + unat cpi_size \<le> ?i * unat cpi_size"
    using step by blast
  then show ?thesis unfolding Let_def a(1) b(1) using a(2) by (intro conjI) simp_all
qed

text \<open>
  The batch of a block.  Whatever the samples and the arithmetic, the batch lists the plots of the samples whose amplitude is not at most
  the threshold (NaN included), in range order, the first 512 of them; its count is the number of plots listed, its identity is the block's, and of
  the block's flags exactly the incomplete mark is passed on.
\<close>

lemma batch_contents:
  "let hits = filter (\<lambda>i. \<not> f32_le (amplitude_at fp b i) kAmplitudeThreshold) [0..<num_samples b]; r = batch_of fp t b in
     (case pb_plots r of None \<Rightarrow> [] | Some ps \<Rightarrow> ps) = map (plot_at fp b) (take 512 hits) \<and> unat (pb_plot_count r) = min 512 (length hits) \<and>
     (pb_plots r = None \<longleftrightarrow> hits = []) \<and> pb_cpi_seq r = cb_cpi_seq b \<and> pb_array_id r = cb_array_id b \<and> pb_data_ts r = cb_data_ts b \<and>
     pb_flags r = (if bit (cb_flags b) 0 then 1 else 0)"
proof -
  let ?hits = "filter (\<lambda>i. \<not> f32_le (amplitude_at fp b i) kAmplitudeThreshold) [0..<num_samples b]"
  have d: "detect_loop fp b 0 [] = map (plot_at fp b) (take 512 ?hits)" by (simp add: detect_loop_eq kMaxPlotsPerCpi_def take_map)
  have n: "unat (word_of_nat (min 512 n) :: u16) = min 512 n" for n
    by (simp add: unat_of_nat take_bit_nat_eq_self)
  have "cb_flags b AND 1 \<noteq> 0 \<longleftrightarrow> bit (cb_flags b) 0" by (simp add: and_one_eq bit_0 odd_iff_mod_2_eq_one)
  then show ?thesis using n [of "length ?hits"] by (simp add: batch_of_def Let_def d FLAG_INCOMPLETE_FRAME_def min.commute)
qed

text \<open>
  C13: The dispatcher turns every block into one batch, in order.  From a state with at most one finished batch waiting per stream, any
  number of iterations returns, whatever the clock: no result times out; on each stream the blocks at the front of its queue are taken
  one per iteration, the batches of those accepted reach the plot queue in that order after the batch waiting before (newest kept
  if it overflows), and only the last one may still wait, none once an iteration found the queue empty; the frames submitted
  minus those completed are those waiting.
\<close>

theorem dispatcher_in_order:
  assumes "dispatcher_inv d"
  shows "\<exists>d'. run_iterations fp es d = Some d' \<and> dispatcher_inv d' \<and> gpu_timeout_total (gd_metrics d') = gpu_timeout_total (gd_metrics d) \<and>
    balance d' = balance d \<and>
    (\<forall>q < 3. spsc_contents (gd_rawcpi_qs d' ! q) = drop (length es) (spsc_contents (gd_rawcpi_qs d ! q)) \<and>
      (\<exists>out. out @ pending q d' = pending q d @ batches_for fp es q (spsc_contents (gd_rawcpi_qs d ! q)) \<and>
        (let all = spsc_contents (gd_plots_qs d ! q) @ out in
         spsc_contents (gd_plots_qs d' ! q) = drop (length all - usable_capacity (gd_plots_qs d ! q)) all)) \<and>
      (length (spsc_contents (gd_rawcpi_qs d ! q)) < length es \<longrightarrow> pending q d' = []))"
proof -
  from run_iterations_effect [OF assms, of fp es] obtain d' where
    d': "run_iterations fp es d = Some d'" "dispatcher_inv d'" "gpu_timeout_total (gd_metrics d') = gpu_timeout_total (gd_metrics d)" "balance d' = balance d"
    and q: "\<forall>q < 3. spsc_contents (gd_rawcpi_qs d' ! q) = drop (length es) (spsc_contents (gd_rawcpi_qs d ! q)) \<and>
      (\<exists>out. out @ pending q d' = pending q d @ batches_for fp es q (spsc_contents (gd_rawcpi_qs d ! q)) \<and>
        gd_plots_qs d' ! q = spsc.push_all (gd_plots_qs d ! q) out) \<and>
      (length (spsc_contents (gd_rawcpi_qs d ! q)) < length es \<longrightarrow> pending q d' = [])" by (auto simp: GPU_STREAM_COUNT_def)
  have inv: "spsc_inv (gd_plots_qs d ! q)" if "q < 3" for q using assms that by (simp add: dispatcher_inv_def GPU_STREAM_COUNT_def)
  show ?thesis using d' q spsc.push_all_facts [OF inv] unfolding Let_def by (intro exI [of _ d']) metis
qed

definition empty_snapshot :: ExecutionSnapshot where
  "empty_snapshot = \<lparr>azimuth_angle = 0, elevation_angle = 0, work_freq_index = 0, snap_reserved = 0, mgc_gain = 0, signal_bandwidth = 0, pulse_width = 0,
     pulse_period = 0, accumulation_count = 0, tilt_sensor_x = 0, tilt_sensor_y = 0, heading_angle = 0, bds_longitude = 0, bds_latitude = 0, bds_altitude = 0\<rparr>"

definition sample_block :: "u32 \<Rightarrow> CpiBlock" where
  "sample_block n = \<lparr>cb_ingest_ts = 1, cb_data_ts = 2, cb_array_id = 1, cb_cpi_seq = n, cb_fragment_count = 1, cb_data_size = 0, cb_flags = 0,
     cb_snapshot = empty_snapshot, cb_payload = None\<rparr>"

definition sample_dispatcher :: GpuDispatcher where
  "sample_dispatcher = \<lparr>gd_rawcpi_qs = replicate 3 (spsc_push (spsc_new (replicate 64 None)) (Some (sample_block 7))),
     gd_plots_qs = replicate 3 (spsc_new (replicate PLOTS_Q_CAPACITY None)), gd_pipeline = gpu_pipeline_new,
     gd_metrics = \<lparr>gpu_frames_submitted = 0, gpu_frames_completed = 0, gpu_timeout_total = 0, gpu_inflight_gauge = 0, gpu_queue_depth = 0\<rparr>, gd_rr_index = 0\<rparr>"

lemma sample_dispatcher_inv: "dispatcher_inv sample_dispatcher"
proof -
  have "spsc_inv (spsc_new (replicate 64 (None :: CpiBlock option)))" "spsc_inv (spsc_new (replicate PLOTS_Q_CAPACITY (None :: PlotBatch option)))"
    using spsc_new_inv [of "replicate 64 (None :: CpiBlock option)" 6] spsc_new_inv [of "replicate PLOTS_Q_CAPACITY (None :: PlotBatch option)" 8]
    by (simp_all add: PLOTS_Q_CAPACITY_def)
  then show ?thesis
    by (simp add: dispatcher_inv_def sample_dispatcher_def GPU_STREAM_COUNT_def gpu_pipeline_new_def GPU_INFLIGHT_MAX_def stream_inv_def free_slot_def
        numeral_2_eq_2 spsc.invar_push)
qed

theorem dispatcher_in_order_witness:
  "\<exists>d'. run_iterations sample_fpu [\<lambda>q. (0, \<lparr>se_batch_ok = True, se_plots_ok = True, se_process_ts = 9, se_now = 5\<rparr>), \<lambda>q. (90000000, \<lparr>se_batch_ok = True,
     se_plots_ok = True, se_process_ts = 9, se_now = 5\<rparr>)] sample_dispatcher = Some d' \<and> gpu_timeout_total (gd_metrics d') = 0"
  using dispatcher_in_order [OF sample_dispatcher_inv, of sample_fpu "[\<lambda>q. (0, \<lparr>se_batch_ok = True, se_plots_ok = True, se_process_ts = 9, se_now = 5\<rparr>),
      \<lambda>q. (90000000, \<lparr>se_batch_ok = True, se_plots_ok = True, se_process_ts = 9, se_now = 5\<rparr>)]"]
  by (fastforce simp: sample_dispatcher_def)

end
