(* ===== verification/Pcap_Writer.thy ===== *)
theory Pcap_Writer
  imports Prelude
begin

text \<open>
  The packet capture (\<^verbatim>\<open>src/m01_receiver/capture/pcap_writer.cpp\<close>): receive threads hand packets to a bounded queue, one writer
  thread appends them to spool files that are rotated by size, renamed when complete and limited in number.

  Correspondence.  \<open>pw_disk\<close> is the contents of the files; the answers of \<^verbatim>\<open>mkdir\<close>, \<^verbatim>\<open>open\<close>, \<^verbatim>\<open>write\<close>, \<^verbatim>\<open>rename\<close> and the clock are the fields
  of \<open>pcap_io\<close>, an argument.  The writer thread takes one step per section under the mutex: take a packet, write it.  Every
  other operation is one section.  \<open>None\<close> is a call of \<^verbatim>\<open>std::terminate\<close>.  Thread affinity has no effect on the state.
\<close>

definition kPcapMagic :: u32 where "kPcapMagic = 0xA1B2C3D4"
definition kPcapVersionMajor :: u16 where "kPcapVersionMajor = 2"
definition kPcapVersionMinor :: u16 where "kPcapVersionMinor = 4"
definition kPcapSnapLen :: u32 where "kPcapSnapLen = 65535"
definition kPcapLinkTypeUser0 :: u32 where "kPcapLinkTypeUser0 = 147"
definition kPcapGlobalHeaderSize :: nat where "kPcapGlobalHeaderSize = 24"
definition kPcapRecordHeaderSize :: nat where "kPcapRecordHeaderSize = 16"
definition kPacketTypeOffset :: nat where "kPacketTypeOffset = 18"
definition kSourceIdOffset :: nat where "kSourceIdOffset = 20"
definition kBytesPerMb :: u64 where "kBytesPerMb = 1024 * 1024"

record PcapWriterConfig =
  pc_enabled :: bool
  pc_spool_dir :: string
  pc_max_file_size_mb :: u64
  pc_max_files :: nat
  pc_pending_queue_capacity :: nat
  pc_filter_packet_types :: "u8 list"
  pc_filter_source_ids :: "u8 list"

type_synonym PendingPacket = "u64 \<times> bytes"

datatype writer_pc = WStopped | WWait | WHave PendingPacket

record PcapWriter =
  pw_config :: PcapWriterConfig
  pw_open :: bool
  pw_file_size :: u64
  pw_pending :: "PendingPacket list"
  pw_packets_written :: u64
  pw_enqueued_packets :: u64
  pw_dropped_queue_full :: u64
  pw_write_errors :: u64
  pw_rotated_files :: u64
  pw_recording :: bool
  pw_accepting :: bool
  pw_file_index :: nat
  pw_pending_record_size :: u64
  pw_recent_files :: "string list"
  pw_temp_path :: string
  pw_sealed_path :: string
  pw_last_sealed :: string
  pw_thread :: writer_pc
  pw_joinable :: bool
  pw_disk :: "string \<Rightarrow> bytes option"

record pcap_io =
  io_mkdir :: "string \<Rightarrow> bool"
  io_now_us :: u64
  io_open_ok :: bool
  io_header_good :: bool
  io_write_good :: bool
  io_bytes_written :: nat
  io_rename_ok :: bool
  io_final_rename_ok :: bool

definition pcap_writer_new :: "PcapWriterConfig \<Rightarrow> (string \<Rightarrow> bytes option) \<Rightarrow> PcapWriter" where
  "pcap_writer_new cfg disk = \<lparr>pw_config = cfg, pw_open = False, pw_file_size = 0, pw_pending = [], pw_packets_written = 0,
     pw_enqueued_packets = 0, pw_dropped_queue_full = 0, pw_write_errors = 0, pw_rotated_files = 0, pw_recording = False,
     pw_accepting = False, pw_file_index = 0, pw_pending_record_size = 0, pw_recent_files = [], pw_temp_path = [], pw_sealed_path = [],
     pw_last_sealed = [], pw_thread = WStopped, pw_joinable = False, pw_disk = disk\<rparr>"

subsection \<open>Paths\<close>

definition create_directory_if_missing :: "(string \<Rightarrow> bool) \<Rightarrow> string \<Rightarrow> bool" where
  "create_directory_if_missing mkdir path = (if path = [] then False else mkdir path)"

function ensure_loop :: "(string \<Rightarrow> bool) \<Rightarrow> string \<Rightarrow> string \<Rightarrow> nat \<Rightarrow> bool" where
  "ensure_loop mkdir normalized current index =
     (if index < length normalized then
        let part = takeWhile (\<lambda>c. c \<noteq> CHR ''/'') (drop index normalized);
            current' = (if part = [] then current
                        else (if current \<noteq> [] \<and> last current \<noteq> CHR ''/'' then current @ ''/'' else current) @ part)
        in if part \<noteq> [] \<and> \<not> create_directory_if_missing mkdir current' then False
           else if index + length part = length normalized then True
           else ensure_loop mkdir normalized current' (index + length part + 1)
      else True)"
  by pat_completeness auto
termination
  by (relation "measure (\<lambda>(mkdir, normalized, current, index). length normalized - index)") auto

declare ensure_loop.simps [simp del]

definition ensure_directories :: "(string \<Rightarrow> bool) \<Rightarrow> string \<Rightarrow> bool" where
  "ensure_directories mkdir dir =
     (if dir = [] then False
      else let normalized = map (\<lambda>c. if c = CHR ''/'' \<or> c = CHR 0x5C then CHR ''/'' else c) dir
           in if hd normalized = CHR ''/'' then ensure_loop mkdir normalized ''/'' 1 else ensure_loop mkdir normalized [] 0)"

definition join_path :: "string \<Rightarrow> string \<Rightarrow> string" where
  "join_path dir file =
     (if dir = [] then file
      else if last dir = CHR ''/'' \<or> last dir = CHR 0x5C then dir @ file
      else dir @ ''/'' @ file)"

text \<open>\<^verbatim>\<open>std::to_string\<close> of an unsigned integer.\<close>

fun to_string :: "nat \<Rightarrow> string" where
  "to_string n = (if n < 10 then [char_of (48 + n)] else to_string (n div 10) @ [char_of (48 + n mod 10)])"

declare to_string.simps [simp del]

definition spool_base_name :: "u64 \<Rightarrow> nat \<Rightarrow> string" where
  "spool_base_name now_us index = ''receiver_spool_'' @ to_string (unat now_us) @ ''_'' @ to_string index"

subsection \<open>Files\<close>

definition pcap_global_header :: bytes where
  "pcap_global_header = bytes_le 4 kPcapMagic @ bytes_le 2 kPcapVersionMajor @ bytes_le 2 kPcapVersionMinor @ bytes_le 4 (0 :: u32) @
     bytes_le 4 (0 :: u32) @ bytes_le 4 kPcapSnapLen @ bytes_le 4 kPcapLinkTypeUser0"

definition pcap_record_header :: "u32 \<Rightarrow> u32 \<Rightarrow> u32 \<Rightarrow> u32 \<Rightarrow> bytes" where
  "pcap_record_header ts_sec ts_usec incl_len orig_len =
     bytes_le 4 ts_sec @ bytes_le 4 ts_usec @ bytes_le 4 incl_len @ bytes_le 4 orig_len"

definition open_new_file :: "pcap_io \<Rightarrow> PcapWriter \<Rightarrow> PcapWriter \<times> bool" where
  "open_new_file io w =
     (if \<not> ensure_directories (io_mkdir io) (pc_spool_dir (pw_config w)) then (w, False)
      else let base = spool_base_name (io_now_us io) (pw_file_index w);
               temp = join_path (pc_spool_dir (pw_config w)) (base @ ''.pcap.part'');
               w = w\<lparr>pw_file_index := pw_file_index w + 1,
                     pw_sealed_path := join_path (pc_spool_dir (pw_config w)) (base @ ''.pcap''), pw_temp_path := temp\<rparr>
           in if \<not> io_open_ok io then (w\<lparr>pw_temp_path := [], pw_sealed_path := []\<rparr>, False)
              else if \<not> io_header_good io
              then (w\<lparr>pw_temp_path := [], pw_sealed_path := [], pw_file_size := word_of_nat kPcapGlobalHeaderSize,
                      pw_disk := (pw_disk w)(temp := None)\<rparr>, False)
              else (w\<lparr>pw_open := True, pw_file_size := word_of_nat kPcapGlobalHeaderSize,
                      pw_disk := (pw_disk w)(temp \<mapsto> pcap_global_header)\<rparr>, True))"

definition keep_count :: "PcapWriter \<Rightarrow> nat" where
  "keep_count w = max 1 (pc_max_files (pw_config w))"

function prune_files :: "nat \<Rightarrow> string list \<Rightarrow> (string \<Rightarrow> bytes option) \<Rightarrow> string list \<times> (string \<Rightarrow> bytes option)" where
  "prune_files keep recent disk =
     (if length recent > keep then prune_files keep (tl recent) (disk(hd recent := None)) else (recent, disk))"
  by pat_completeness auto
termination
  by (relation "measure (\<lambda>(keep, recent, disk). length recent)") auto

declare prune_files.simps [simp del]

text \<open>\<^verbatim>\<open>rename\<close> moves the contents, replacing a file of the new name.\<close>

definition seal_current_file :: "bool \<Rightarrow> PcapWriter \<Rightarrow> PcapWriter \<times> bool" where
  "seal_current_file rename_ok w =
     (let w = w\<lparr>pw_open := False\<rparr>; temp = pw_temp_path w; sealed = pw_sealed_path w in
      if temp = [] \<or> sealed = [] then (w\<lparr>pw_temp_path := [], pw_sealed_path := []\<rparr>, True)
      else if \<not> rename_ok then (w, False)
      else case prune_files (keep_count w) (pw_recent_files w @ [sealed]) ((pw_disk w)(temp := None, sealed := pw_disk w temp)) of
        (recent, disk) \<Rightarrow>
          (w\<lparr>pw_recent_files := recent, pw_last_sealed := sealed, pw_disk := disk, pw_temp_path := [], pw_sealed_path := [],
             pw_file_size := 0\<rparr>, True))"

definition mark_write_error :: "PcapWriter \<Rightarrow> PcapWriter" where
  "mark_write_error w = w\<lparr>pw_write_errors := pw_write_errors w + 1, pw_accepting := False, pw_recording := False, pw_open := False\<rparr>"

definition max_file_size_bytes :: "PcapWriter \<Rightarrow> u64" where
  "max_file_size_bytes w = pc_max_file_size_mb (pw_config w) * kBytesPerMb"

definition rotate_file_if_needed :: "pcap_io \<Rightarrow> PcapWriter \<Rightarrow> PcapWriter" where
  "rotate_file_if_needed io w =
     (if \<not> pw_open w then w
      else if pw_file_size w + pw_pending_record_size w \<le> max_file_size_bytes w then w
      else case seal_current_file (io_rename_ok io) w of (w, sealed) \<Rightarrow>
        if \<not> sealed then mark_write_error w
        else let w = w\<lparr>pw_rotated_files := pw_rotated_files w + 1\<rparr> in
          case open_new_file io w of (w, opened) \<Rightarrow> if opened then w else mark_write_error w)"

subsection \<open>Producers\<close>

definition passes_filters :: "bytes \<Rightarrow> PcapWriter \<Rightarrow> bool" where
  "passes_filters raw w =
     (let types = pc_filter_packet_types (pw_config w); sources = pc_filter_source_ids (pw_config w) in
      (types = [] \<or> kPacketTypeOffset < length raw \<and> raw ! kPacketTypeOffset \<in> set types) \<and>
      (sources = [] \<or> kSourceIdOffset < length raw \<and> raw ! kSourceIdOffset \<in> set sources))"

definition write_packet :: "bytes option \<Rightarrow> u64 \<Rightarrow> PcapWriter \<Rightarrow> PcapWriter" where
  "write_packet raw ts w =
     (if \<not> pw_accepting w then w
      else case raw of
        None \<Rightarrow> w
      | Some bs \<Rightarrow>
         if bs = [] then w
         else if \<not> passes_filters bs w then w
         else if max 1 (pc_pending_queue_capacity (pw_config w)) \<le> length (pw_pending w)
         then w\<lparr>pw_dropped_queue_full := pw_dropped_queue_full w + 1\<rparr>
         else w\<lparr>pw_pending := pw_pending w @ [(ts, bs)], pw_enqueued_packets := pw_enqueued_packets w + 1\<rparr>)"

subsection \<open>The writer thread\<close>

definition finish_writer :: "pcap_io \<Rightarrow> PcapWriter \<Rightarrow> PcapWriter" where
  "finish_writer io w = (fst (seal_current_file (io_final_rename_ok io) w))\<lparr>pw_recording := False, pw_thread := WStopped\<rparr>"

definition pcap_record_bytes :: "PendingPacket \<Rightarrow> bytes" where
  "pcap_record_bytes = (\<lambda>(ts, bs). pcap_record_header (ucast (ts div 1000000)) (ucast (ts mod 1000000)) (word_of_nat (length bs)) (word_of_nat (length bs)) @ bs)"

definition append_disk :: "string \<Rightarrow> bytes \<Rightarrow> (string \<Rightarrow> bytes option) \<Rightarrow> string \<Rightarrow> bytes option" where
  "append_disk path bs disk = disk(path \<mapsto> (case disk path of Some old \<Rightarrow> old | None \<Rightarrow> []) @ bs)"

definition write_one :: "pcap_io \<Rightarrow> PendingPacket \<Rightarrow> PcapWriter \<Rightarrow> PcapWriter" where
  "write_one io packet w =
     (if \<not> pw_open w then finish_writer io (mark_write_error w)
      else let w = rotate_file_if_needed io (w\<lparr>pw_pending_record_size := word_of_nat (kPcapRecordHeaderSize + length (snd packet))\<rparr>) in
        if \<not> pw_open w then finish_writer io w
        else if \<not> io_write_good io
        then finish_writer io (mark_write_error (w\<lparr>pw_disk := append_disk (pw_temp_path w) (take (io_bytes_written io) (pcap_record_bytes packet)) (pw_disk w)\<rparr>))
        else w\<lparr>pw_disk := append_disk (pw_temp_path w) (pcap_record_bytes packet) (pw_disk w),
               pw_file_size := pw_file_size w + pw_pending_record_size w, pw_packets_written := pw_packets_written w + 1,
               pw_pending_record_size := 0, pw_thread := WWait\<rparr>)"

definition writer_step :: "pcap_io \<Rightarrow> PcapWriter \<Rightarrow> PcapWriter" where
  "writer_step io w =
     (case pw_thread w of
        WStopped \<Rightarrow> w
      | WWait \<Rightarrow>
         (case pw_pending w of
            [] \<Rightarrow> if pw_accepting w then w else finish_writer io w
          | p # ps \<Rightarrow> w\<lparr>pw_pending := ps, pw_thread := WHave p\<rparr>)
      | WHave p \<Rightarrow> write_one io p w)"

subsection \<open>Start and stop\<close>

text \<open>Assigning to a joinable \<^verbatim>\<open>std::thread\<close> terminates the program.\<close>

definition pcap_start :: "pcap_io \<Rightarrow> PcapWriter \<Rightarrow> (PcapWriter \<times> bool) option" where
  "pcap_start io w =
     (if \<not> pc_enabled (pw_config w) then Some (w, False)
      else if pw_recording w then Some (w, True)
      else case open_new_file io w of (w, opened) \<Rightarrow>
        if \<not> opened then Some (w, False)
        else if pw_joinable w then None
        else Some (w\<lparr>pw_pending := [], pw_packets_written := 0, pw_enqueued_packets := 0, pw_dropped_queue_full := 0, pw_write_errors := 0,
                     pw_rotated_files := 0, pw_accepting := True, pw_recording := True, pw_thread := WWait, pw_joinable := True\<rparr>, True))"

text \<open>\<^verbatim>\<open>join\<close> lets the thread run to its end: its steps with the answers \<open>ios\<close>, at most \<open>n\<close> of them.\<close>

fun writer_run :: "nat \<Rightarrow> (nat \<Rightarrow> pcap_io) \<Rightarrow> PcapWriter \<Rightarrow> PcapWriter" where
  "writer_run 0 ios w = w"
| "writer_run (Suc n) ios w = writer_run n ios (writer_step (ios n) w)"

definition pcap_stop :: "(nat \<Rightarrow> pcap_io) \<Rightarrow> bool \<Rightarrow> PcapWriter \<Rightarrow> PcapWriter" where
  "pcap_stop ios rename_ok w =
     (let w = w\<lparr>pw_accepting := False\<rparr>;
          w = (if pw_joinable w then (writer_run (2 * length (pw_pending w) + 2) ios w)\<lparr>pw_joinable := False\<rparr> else w);
          w = fst (seal_current_file rename_ok w)
      in w\<lparr>pw_pending := [], pw_recording := False\<rparr>)"


subsection \<open>File names\<close>

fun number_of :: "string \<Rightarrow> nat \<Rightarrow> nat" where
  "number_of [] acc = acc"
| "number_of (c # cs) acc = number_of cs (10 * acc + (of_char c - 48))"

lemma number_of_append: "number_of (xs @ ys) acc = number_of ys (number_of xs acc)"
  by (induction xs arbitrary: acc) simp_all

lemma of_char_digit: "d < 10 \<Longrightarrow> (of_char (char_of (48 + d) :: char) :: nat) = 48 + d"
  by (simp add: of_char_of)

lemma number_of_to_string: "number_of (to_string n) 0 = n"
proof (induction n rule: to_string.induct)
  case (1 n)
  show ?case
  proof (cases "n < 10")
    case True
    then show ?thesis by (subst to_string.simps) (simp add: of_char_digit)
  next
    case False
    with 1 show ?thesis by (subst to_string.simps) (simp add: number_of_append of_char_digit)
  qed
qed

lemma to_string_inj: "to_string m = to_string n \<Longrightarrow> m = n"
  by (metis number_of_to_string)

lemma to_string_digits: "c \<in> set (to_string n) \<Longrightarrow> (48 :: nat) \<le> of_char c \<and> of_char c < (58 :: nat)"
proof (induction n rule: to_string.induct)
  case (1 n)
  show ?case
  proof (cases "n < 10")
    case True
    with 1(2) show ?thesis by (subst (asm) to_string.simps) (auto simp: of_char_digit)
  next
    case False
    have "c \<in> set (to_string (n div 10)) \<or> c = char_of (48 + n mod 10)"
      using 1(2) False to_string.simps [of n] by auto
    then show ?thesis using 1(1) [OF False] of_char_digit [of "n mod 10"] by auto
  qed
qed

lemma split_last_inj: "c \<notin> set ys \<Longrightarrow> c \<notin> set ys' \<Longrightarrow> xs @ c # ys = xs' @ c # ys' \<Longrightarrow> ys = ys'"
proof -
  assume a: "c \<notin> set ys" "c \<notin> set ys'" "xs @ c # ys = xs' @ c # ys'"
  have "takeWhile (\<lambda>x. x \<noteq> c) (rev (zs @ c # us)) = rev us" if "c \<notin> set us" for zs us
  proof -
    have "takeWhile (\<lambda>x. x \<noteq> c) (rev us @ c # rev zs) = rev us @ takeWhile (\<lambda>x. x \<noteq> c) (c # rev zs)"
      using that by (intro takeWhile_append2) auto
    then show ?thesis by simp
  qed
  with a show ?thesis by (metis rev_rev_ident)
qed

definition sealed_name :: "string \<Rightarrow> u64 \<Rightarrow> nat \<Rightarrow> string" where
  "sealed_name dir t i = join_path dir (spool_base_name t i @ ''.pcap'')"

definition part_name :: "string \<Rightarrow> u64 \<Rightarrow> nat \<Rightarrow> string" where
  "part_name dir t i = join_path dir (spool_base_name t i @ ''.pcap.part'')"

lemma join_path_inj: "join_path dir a = join_path dir b \<longleftrightarrow> a = b"
  by (simp add: join_path_def)

lemma last_join_path: "f \<noteq> [] \<Longrightarrow> last (join_path dir f) = last f"
  by (simp add: join_path_def)

lemma underscore_not_digit: "CHR ''_'' \<notin> set (to_string n)"
  using to_string_digits [of "CHR ''_''" n] by auto

lemma sealed_name_inj: "sealed_name dir t i = sealed_name dir t' i' \<Longrightarrow> i = i'"
proof -
  assume "sealed_name dir t i = sealed_name dir t' i'"
  then have "(''receiver_spool_'' @ to_string (unat t)) @ CHR ''_'' # to_string i = (''receiver_spool_'' @ to_string (unat t')) @ CHR ''_'' # to_string i'"
    by (simp add: sealed_name_def join_path_inj spool_base_name_def)
  from split_last_inj [OF underscore_not_digit underscore_not_digit this] show ?thesis by (rule to_string_inj)
qed

lemma part_neq_sealed: "part_name dir t i \<noteq> sealed_name dir t' i'"
proof
  assume "part_name dir t i = sealed_name dir t' i'"
  then have "last (part_name dir t i) = last (sealed_name dir t' i')" by simp
  then show False by (simp add: part_name_def sealed_name_def last_join_path)
qed

lemma names_not_empty [simp]: "part_name dir t i \<noteq> []" "sealed_name dir t i \<noteq> []"
  by (auto simp: part_name_def sealed_name_def join_path_def)

lemma prune_files_eq:
  "prune_files keep recent disk =
     (drop (length recent - keep) recent, \<lambda>p. if p \<in> set (take (length recent - keep) recent) then None else disk p)"
proof (induction keep recent disk rule: prune_files.induct)
  case (1 keep recent disk)
  show ?case
  proof (cases "keep < length recent")
    case True
    then obtain r rs where r: "recent = r # rs" by (cases recent) auto
    then have "length recent - keep = Suc (length rs - keep)" using True by simp
    moreover have "(\<lambda>p. if p \<in> set (take (length rs - keep) rs) then None else (disk(r := None)) p) =
        (\<lambda>p. if p \<in> set (r # take (length rs - keep) rs) then None else disk p)" by auto
    moreover have "prune_files keep rs (disk(r := None)) =
        (drop (length rs - keep) rs, \<lambda>p. if p \<in> set (take (length rs - keep) rs) then None else (disk(r := None)) p)"
      using 1 [OF True] by (simp only: r list.sel)
    ultimately show ?thesis using True r by (subst prune_files.simps) simp
  next
    case False
    then show ?thesis by (subst prune_files.simps) simp
  qed
qed


subsection \<open>What the files hold\<close>

text \<open>
  The state of a recording without I/O errors: \<open>all\<close> are the sealed files with their packets, of which the last ones are kept,
  \<open>cur\<close> the packets of the open file, and the accepted packets are those of the files, the one in the hands of the thread and the queue.
\<close>

definition encode_file :: "PendingPacket list \<Rightarrow> bytes" where
  "encode_file ps = pcap_global_header @ concat (map pcap_record_bytes ps)"

definition inflight :: "PcapWriter \<Rightarrow> PendingPacket list" where
  "inflight w = (case pw_thread w of WHave p \<Rightarrow> [p] | _ \<Rightarrow> [])"

definition kept :: "PcapWriter \<Rightarrow> 'a list \<Rightarrow> 'a list" where
  "kept w xs = drop (length xs - keep_count w) xs"

definition sealed_inv :: "PcapWriter \<Rightarrow> nat \<Rightarrow> (string \<times> PendingPacket list) list \<Rightarrow> bool" where
  "sealed_inv w n all \<longleftrightarrow>
     pw_recent_files w = map fst (kept w all) \<and> distinct (map fst all) \<and>
     (\<forall>(p, ps) \<in> set all. \<exists>t i. p = sealed_name (pc_spool_dir (pw_config w)) t i \<and> i < n) \<and>
     (\<forall>(p, ps) \<in> set (kept w all). pw_disk w p = Some (encode_file ps))"

definition file_inv :: "PcapWriter \<Rightarrow> (string \<times> PendingPacket list) list \<Rightarrow> PendingPacket list \<Rightarrow> bool" where
  "file_inv w all cur \<longleftrightarrow>
     pw_open w \<and> sealed_inv w (pw_file_index w - 1) all \<and> 0 < pw_file_index w \<and>
     (\<exists>t. pw_temp_path w = part_name (pc_spool_dir (pw_config w)) t (pw_file_index w - 1) \<and>
          pw_sealed_path w = sealed_name (pc_spool_dir (pw_config w)) t (pw_file_index w - 1)) \<and>
     pw_disk w (pw_temp_path w) = Some (encode_file cur)"

definition io_ok :: "PcapWriterConfig \<Rightarrow> pcap_io \<Rightarrow> bool" where
  "io_ok cfg io \<longleftrightarrow> ensure_directories (io_mkdir io) (pc_spool_dir cfg) \<and> io_open_ok io \<and> io_header_good io \<and> io_write_good io \<and>
     io_rename_ok io \<and> io_final_rename_ok io"

lemma keep_count_pos: "0 < keep_count w"
  by (simp add: keep_count_def)

lemma kept_snoc: "drop (length (kept w xs @ [x]) - keep_count w) (kept w xs @ [x]) = kept w (xs @ [x])"
proof (cases "length xs < keep_count w")
  case True
  then show ?thesis by (simp add: kept_def)
next
  case False
  then have "length (kept w xs) = keep_count w" by (simp add: kept_def)
  moreover have "length xs - keep_count w < length xs" using False keep_count_pos [of w] by simp
  ultimately show ?thesis using False keep_count_pos [of w]
    by (simp add: kept_def Suc_diff_le drop_Suc tl_append tl_drop)
qed

lemma kept_subset: "set (kept w xs) \<subseteq> set xs"
  by (simp add: kept_def set_drop_subset)

lemma map_kept: "map f (kept w xs) = kept w (map f xs)"
  by (simp add: kept_def drop_map)

lemma kept_cong: "pw_config w' = pw_config w \<Longrightarrow> kept w' xs = kept w xs"
  by (simp add: kept_def keep_count_def)

lemma seal_file_inv:
  assumes inv: "file_inv w all cur"
  defines "w' \<equiv> fst (seal_current_file True w)"
  shows "snd (seal_current_file True w)" "sealed_inv w' (pw_file_index w) (all @ [(pw_sealed_path w, cur)])"
    "pw_config w' = pw_config w" "pw_thread w' = pw_thread w" "pw_pending w' = pw_pending w" "pw_file_index w' = pw_file_index w"
    "pw_rotated_files w' = pw_rotated_files w" "pw_accepting w' = pw_accepting w" "pw_temp_path w' = []" "\<not> pw_open w'"
    "pw_enqueued_packets w' = pw_enqueued_packets w" "pw_dropped_queue_full w' = pw_dropped_queue_full w"
proof -
  let ?dir = "pc_spool_dir (pw_config w)" and ?n = "pw_file_index w - 1" and ?all = "all @ [(pw_sealed_path w, cur)]"
  let ?disk = "(pw_disk w)(pw_temp_path w := None, pw_sealed_path w := pw_disk w (pw_temp_path w))"
  let ?cut = "length (pw_recent_files w @ [pw_sealed_path w]) - keep_count w"
  from inv obtain t where t: "pw_temp_path w = part_name ?dir t ?n" "pw_sealed_path w = sealed_name ?dir t ?n"
    and s: "sealed_inv w ?n all" and pos: "0 < pw_file_index w" and cur: "pw_disk w (pw_temp_path w) = Some (encode_file cur)"
    by (auto simp: file_inv_def)
  have r: "pw_recent_files w = map fst (kept w all)" using s by (simp add: sealed_inv_def)
  have ne: "pw_temp_path w \<noteq> []" "pw_sealed_path w \<noteq> []" by (simp_all add: t)
  have w': "seal_current_file True w = (w\<lparr>pw_open := False, pw_recent_files := drop ?cut (pw_recent_files w @ [pw_sealed_path w]),
      pw_last_sealed := pw_sealed_path w, pw_disk := (\<lambda>p. if p \<in> set (take ?cut (pw_recent_files w @ [pw_sealed_path w])) then None else ?disk p),
      pw_temp_path := [], pw_sealed_path := [], pw_file_size := 0\<rparr>, True)"
    using ne by (simp add: seal_current_file_def Let_def prune_files_eq keep_count_def)
  show "snd (seal_current_file True w)" "pw_config w' = pw_config w" "pw_thread w' = pw_thread w" "pw_pending w' = pw_pending w"
    "pw_file_index w' = pw_file_index w" "pw_rotated_files w' = pw_rotated_files w" "pw_accepting w' = pw_accepting w" "pw_temp_path w' = []" "\<not> pw_open w'"
    "pw_enqueued_packets w' = pw_enqueued_packets w" "pw_dropped_queue_full w' = pw_dropped_queue_full w"
    by (simp_all add: w'_def w')
  have names: "\<forall>(p, ps) \<in> set all. p \<noteq> pw_temp_path w \<and> p \<noteq> pw_sealed_path w"
    using s t part_neq_sealed [of ?dir] sealed_name_inj [of ?dir] by (fastforce simp: sealed_inv_def)
  have d: "distinct (map fst ?all)" using s names by (auto simp: sealed_inv_def)
  have k: "kept w' xs = kept w xs" for xs :: "'b list" by (rule kept_cong) (simp add: w'_def w')
  have "pw_recent_files w' = drop ?cut (kept w (map fst all) @ [pw_sealed_path w])" by (simp add: w'_def w' r map_kept)
  also have "\<dots> = map fst (kept w ?all)"
    using kept_snoc [of w "map fst all" "pw_sealed_path w"] by (simp add: r map_kept)
  finally have recent: "pw_recent_files w' = map fst (kept w' ?all)" by (simp only: k)
  have kd: "distinct (map fst (kept w all @ [(pw_sealed_path w, cur)]))"
    using d kept_subset [of w all] by (auto simp: kept_def drop_map [symmetric] distinct_drop dest: in_set_dropD)
  have disk: "pw_disk w' p = Some (encode_file ps)" if "(p, ps) \<in> set (kept w' ?all)" for p ps
  proof -
    have in_kept: "(p, ps) \<in> set (drop ?cut (kept w all @ [(pw_sealed_path w, cur)]))"
      using that kept_snoc [of w all "(pw_sealed_path w, cur)"] by (simp add: k r)
    then have "p \<in> set (drop ?cut (map fst (kept w all @ [(pw_sealed_path w, cur)])))"
      using imageI [OF in_kept, of fst] unfolding drop_map list.set_map fst_conv by blast
    moreover have "set (take ?cut (map fst (kept w all @ [(pw_sealed_path w, cur)]))) \<inter> set (drop ?cut (map fst (kept w all @ [(pw_sealed_path w, cur)]))) = {}"
      using kd by (intro set_take_disj_set_drop_if_distinct) simp_all
    ultimately have "p \<notin> set (take ?cut (pw_recent_files w @ [pw_sealed_path w]))" by (auto simp: r)
    moreover have "?disk p = Some (encode_file ps)"
      using in_set_dropD [OF in_kept] s names kept_subset [of w all] cur by (auto simp: sealed_inv_def)
    ultimately show ?thesis by (simp add: w'_def w')
  qed
  have "\<forall>(p, ps) \<in> set ?all. \<exists>t i. p = sealed_name ?dir t i \<and> i < pw_file_index w"
    using s t pos by (fastforce simp: sealed_inv_def)
  then show "sealed_inv w' (pw_file_index w) ?all"
    using recent d disk by (auto simp: sealed_inv_def w'_def w' k)
qed

lemma open_file_inv:
  assumes s: "sealed_inv w (pw_file_index w) all" and io: "io_ok (pw_config w) io"
  defines "w' \<equiv> fst (open_new_file io w)"
  shows "snd (open_new_file io w)" "file_inv w' all []" "pw_config w' = pw_config w" "pw_thread w' = pw_thread w" "pw_pending w' = pw_pending w"
    "pw_rotated_files w' = pw_rotated_files w" "pw_accepting w' = pw_accepting w" "pw_pending_record_size w' = pw_pending_record_size w"
    "pw_enqueued_packets w' = pw_enqueued_packets w" "pw_dropped_queue_full w' = pw_dropped_queue_full w" "pw_joinable w' = pw_joinable w"
proof -
  let ?dir = "pc_spool_dir (pw_config w)" and ?i = "pw_file_index w" and ?t = "io_now_us io"
  have w': "open_new_file io w = (w\<lparr>pw_file_index := ?i + 1, pw_sealed_path := sealed_name ?dir ?t ?i, pw_temp_path := part_name ?dir ?t ?i,
      pw_open := True, pw_file_size := word_of_nat kPcapGlobalHeaderSize, pw_disk := (pw_disk w)(part_name ?dir ?t ?i \<mapsto> pcap_global_header)\<rparr>, True)"
    using io by (simp add: open_new_file_def io_ok_def Let_def sealed_name_def part_name_def)
  show "snd (open_new_file io w)" "pw_config w' = pw_config w" "pw_thread w' = pw_thread w" "pw_pending w' = pw_pending w"
    "pw_rotated_files w' = pw_rotated_files w" "pw_accepting w' = pw_accepting w" "pw_pending_record_size w' = pw_pending_record_size w"
    "pw_enqueued_packets w' = pw_enqueued_packets w" "pw_dropped_queue_full w' = pw_dropped_queue_full w" "pw_joinable w' = pw_joinable w"
    by (simp_all add: w'_def w')
  have k: "kept w' all = kept w all" by (rule kept_cong) (simp add: w'_def w')
  have "\<forall>(p, ps) \<in> set (kept w all). p \<noteq> part_name ?dir ?t ?i"
    using s kept_subset [of w all] part_neq_sealed [of ?dir ?t ?i] by (fastforce simp: sealed_inv_def)
  with s have "sealed_inv w' ?i all" unfolding sealed_inv_def k by (auto simp: w'_def w')
  then show "file_inv w' all []" by (auto simp: file_inv_def w'_def w' encode_file_def)
qed

lemma file_inv_update:
  assumes "file_inv w all cur"
  shows "file_inv (w\<lparr>pw_pending_record_size := n\<rparr>) all cur" "file_inv (w\<lparr>pw_pending := ps\<rparr>) all cur" "file_inv (w\<lparr>pw_thread := pc\<rparr>) all cur"
    "file_inv (w\<lparr>pw_accepting := a\<rparr>) all cur" "file_inv (w\<lparr>pw_enqueued_packets := e\<rparr>) all cur" "file_inv (w\<lparr>pw_dropped_queue_full := e\<rparr>) all cur"
    "file_inv (w\<lparr>pw_joinable := j\<rparr>) all cur"
  using assms by (simp_all add: file_inv_def sealed_inv_def kept_def keep_count_def)

text \<open>What a step of the thread leaves alone besides the files.\<close>

definition same_queue :: "PcapWriter \<Rightarrow> PcapWriter \<Rightarrow> bool" where
  "same_queue w w' \<longleftrightarrow> pw_config w' = pw_config w \<and> pw_accepting w' = pw_accepting w \<and> pw_pending w' = pw_pending w \<and>
     pw_enqueued_packets w' = pw_enqueued_packets w \<and> pw_dropped_queue_full w' = pw_dropped_queue_full w"

lemma rotate_extends:
  assumes inv: "file_inv w (old @ new) cur" and io: "io_ok (pw_config w) io"
  defines "w' \<equiv> rotate_file_if_needed io w"
  shows "\<exists>new' cur'. file_inv w' (old @ new') cur' \<and> concat (map snd new') @ cur' = concat (map snd new) @ cur \<and>
    pw_rotated_files w' + word_of_nat (length new) = pw_rotated_files w + word_of_nat (length new') \<and> same_queue w w'"
proof (cases "pw_file_size w + pw_pending_record_size w \<le> max_file_size_bytes w")
  case True
  then show ?thesis using inv by (intro exI [of _ new] exI [of _ cur]) (simp add: w'_def rotate_file_if_needed_def same_queue_def)
next
  case False
  have rn: "io_rename_ok io" and op: "pw_open w" using io inv by (simp_all add: io_ok_def file_inv_def)
  obtain w1 where w1: "seal_current_file True w = (w1, True)" using seal_file_inv(1) [OF inv] by (metis prod.collapse)
  note seal = seal_file_inv [OF inv, unfolded w1 fst_conv]
  let ?all = "old @ new @ [(pw_sealed_path w, cur)]" and ?w2 = "w1\<lparr>pw_rotated_files := pw_rotated_files w1 + 1\<rparr>"
  have s2: "sealed_inv ?w2 (pw_file_index ?w2) ?all" using seal(2,6) by (simp add: sealed_inv_def kept_def keep_count_def)
  have io2: "io_ok (pw_config ?w2) io" using io seal(3) by simp
  obtain w3 where w3: "open_new_file io ?w2 = (w3, True)" using open_file_inv(1) [OF s2 io2] by (metis prod.collapse)
  note opened = open_file_inv [OF s2 io2, unfolded w3 fst_conv]
  have "w' = w3" using False op rn w1 w3 by (simp add: w'_def rotate_file_if_needed_def)
  then show ?thesis using opened seal by (intro exI [of _ "new @ [(pw_sealed_path w, cur)]"] exI [of _ "[]"]) (simp add: same_queue_def)
qed

lemma append_inv:
  assumes inv: "file_inv w all cur"
  shows "file_inv (w\<lparr>pw_disk := append_disk (pw_temp_path w) (pcap_record_bytes p) (pw_disk w), pw_file_size := n, pw_packets_written := k,
      pw_pending_record_size := r, pw_thread := pc\<rparr>) all (cur @ [p])"
proof -
  obtain t where t: "pw_temp_path w = part_name (pc_spool_dir (pw_config w)) t (pw_file_index w - 1)" using inv by (auto simp: file_inv_def)
  have "\<forall>(q, ps) \<in> set (kept w all). q \<noteq> pw_temp_path w"
    using inv kept_subset [of w all] part_neq_sealed [of "pc_spool_dir (pw_config w)" t] by (fastforce simp: file_inv_def sealed_inv_def t)
  then show ?thesis using inv
    by (auto simp: file_inv_def sealed_inv_def kept_def keep_count_def append_disk_def encode_file_def)
qed

end
