(* ===== verification/Pcap_Capture.thy ===== *)
theory Pcap_Capture
  imports Pcap_Writer
begin

text \<open>
  A recording session of the packet capture: the packets that the producers hand over interleaved with the steps of the writer thread,
  from \<^verbatim>\<open>start()\<close> to \<^verbatim>\<open>stop()\<close>.  Without I/O errors every accepted packet is in exactly one file, in order.
\<close>

datatype pcap_event = Packet "bytes option" u64 | Thread pcap_io

primrec pcap_event_step :: "pcap_event \<Rightarrow> PcapWriter \<Rightarrow> PcapWriter" where
  "pcap_event_step (Packet raw ts) w = write_packet raw ts w"
| "pcap_event_step (Thread io) w = writer_step io w"

fun pcap_session :: "pcap_event list \<Rightarrow> PcapWriter \<Rightarrow> PcapWriter" where
  "pcap_session [] w = w"
| "pcap_session (e # es) w = pcap_session es (pcap_event_step e w)"

text \<open>The packets that entered the queue.\<close>

definition entered :: "pcap_event \<Rightarrow> PcapWriter \<Rightarrow> PendingPacket list" where
  "entered e w =
     (case e of
        Packet (Some bs) ts \<Rightarrow>
          if pw_accepting w \<and> bs \<noteq> [] \<and> passes_filters bs w \<and> length (pw_pending w) < max 1 (pc_pending_queue_capacity (pw_config w))
          then [(ts, bs)] else []
      | _ \<Rightarrow> [])"

fun accepted :: "pcap_event list \<Rightarrow> PcapWriter \<Rightarrow> PendingPacket list" where
  "accepted [] w = []"
| "accepted (e # es) w = entered e w @ accepted es (pcap_event_step e w)"

definition event_ok :: "PcapWriterConfig \<Rightarrow> pcap_event \<Rightarrow> bool" where
  "event_ok cfg e = (case e of Packet raw ts \<Rightarrow> True | Thread io \<Rightarrow> io_ok cfg io)"

definition rec_inv :: "PcapWriter \<Rightarrow> (string \<times> PendingPacket list) list \<Rightarrow> (string \<times> PendingPacket list) list \<Rightarrow> PendingPacket list \<Rightarrow>
    PendingPacket list \<Rightarrow> bool" where
  "rec_inv w old new cur acc \<longleftrightarrow>
     file_inv w (old @ new) cur \<and> pw_thread w \<noteq> WStopped \<and> pw_rotated_files w = word_of_nat (length new) \<and>
     acc = concat (map snd new) @ cur @ inflight w @ pw_pending w"

subsection \<open>The steps of a recording\<close>

lemma write_packet_cases:
  "write_packet raw ts w = w \<and> entered (Packet raw ts) w = [] \<or>
   write_packet raw ts w = w\<lparr>pw_dropped_queue_full := pw_dropped_queue_full w + 1\<rparr> \<and> entered (Packet raw ts) w = [] \<or>
   (\<exists>bs. raw = Some bs \<and> entered (Packet raw ts) w = [(ts, bs)] \<and> bs \<noteq> [] \<and>
      write_packet raw ts w = w\<lparr>pw_pending := pw_pending w @ [(ts, bs)], pw_enqueued_packets := pw_enqueued_packets w + 1\<rparr>)"
  by (cases raw) (auto simp: write_packet_def entered_def not_le)

lemma write_packet_inv:
  assumes "rec_inv w old new cur acc"
  shows "rec_inv (write_packet raw ts w) old new cur (acc @ entered (Packet raw ts) w)"
  using assms write_packet_cases [of raw ts w]
  by (elim disjE exE conjE) (auto simp: rec_inv_def inflight_def file_inv_update)

lemma write_one_inv:
  assumes inv: "rec_inv w old new cur acc" and io: "io_ok (pw_config w) io" and p: "pw_thread w = WHave p"
  shows "\<exists>new' cur'. rec_inv (write_one io p w) old new' cur' acc \<and> same_queue w (write_one io p w) \<and> pw_thread (write_one io p w) = WWait"
proof -
  let ?w = "w\<lparr>pw_pending_record_size := word_of_nat (kPcapRecordHeaderSize + length (snd p))\<rparr>"
  let ?r = "rotate_file_if_needed io ?w"
  have f: "file_inv ?w (old @ new) cur" using inv by (simp add: rec_inv_def file_inv_update)
  have io': "io_ok (pw_config ?w) io" using io by simp
  have op: "pw_open w" "io_write_good io" using inv io by (simp_all add: rec_inv_def file_inv_def io_ok_def)
  obtain new' cur' where r: "file_inv ?r (old @ new') cur'" "concat (map snd new') @ cur' = concat (map snd new) @ cur"
      "pw_rotated_files ?r + word_of_nat (length new) = pw_rotated_files ?w + word_of_nat (length new')" "same_queue ?w ?r"
    using rotate_extends [OF f io'] by blast
  have "pw_open ?r" using r(1) by (simp add: file_inv_def)
  then have w1: "write_one io p w = ?r\<lparr>pw_disk := append_disk (pw_temp_path ?r) (pcap_record_bytes p) (pw_disk ?r),
      pw_file_size := pw_file_size ?r + pw_pending_record_size ?r, pw_packets_written := pw_packets_written ?r + 1,
      pw_pending_record_size := 0, pw_thread := WWait\<rparr>"
    using op by (simp add: write_one_def Let_def)
  have "file_inv (write_one io p w) (old @ new') (cur' @ [p])" unfolding w1 by (rule append_inv [OF r(1)])
  moreover have "same_queue w (write_one io p w)" using r(4) by (simp add: same_queue_def w1)
  moreover have "pw_rotated_files (write_one io p w) = word_of_nat (length new')" using r(3) inv by (simp add: w1 rec_inv_def)
  moreover have "acc = concat (map snd new') @ (cur' @ [p]) @ pw_pending w"
    using inv p r(2) [symmetric] by (simp add: rec_inv_def inflight_def flip: append_assoc)
  ultimately show ?thesis
    by (intro exI [of _ new'] exI [of _ "cur' @ [p]"]) (auto simp: rec_inv_def inflight_def same_queue_def w1)
qed

lemma writer_step_inv:
  assumes inv: "rec_inv w old new cur acc" and io: "io_ok (pw_config w) io" and busy: "pw_accepting w \<or> pw_pending w \<noteq> [] \<or> inflight w \<noteq> []"
  shows "\<exists>new' cur'. rec_inv (writer_step io w) old new' cur' acc"
proof (cases "pw_thread w")
  case WStopped
  then show ?thesis using inv by (simp add: rec_inv_def)
next
  case WWait
  show ?thesis
  proof (cases "pw_pending w")
    case Nil
    then show ?thesis using inv busy WWait by (auto simp: writer_step_def inflight_def)
  next
    case (Cons p ps)
    then have "rec_inv (writer_step io w) old new cur acc"
      using inv WWait by (simp add: writer_step_def rec_inv_def inflight_def file_inv_update)
    then show ?thesis by blast
  qed
next
  case (WHave p)
  then show ?thesis using write_one_inv [OF inv io WHave] by (auto simp: writer_step_def)
qed

lemma writer_step_queue:
  assumes inv: "rec_inv w old new cur acc" and io: "io_ok (pw_config w) io" and busy: "pw_accepting w \<or> pw_pending w \<noteq> [] \<or> inflight w \<noteq> []"
  shows "pw_config (writer_step io w) = pw_config w" "pw_accepting (writer_step io w) = pw_accepting w"
proof -
  have "pw_config (writer_step io w) = pw_config w \<and> pw_accepting (writer_step io w) = pw_accepting w"
  proof (cases "pw_thread w")
    case (WHave p)
    then show ?thesis using write_one_inv [OF inv io WHave] by (auto simp: writer_step_def same_queue_def)
  qed (use busy in \<open>auto simp: writer_step_def inflight_def split: list.splits\<close>)
  then show "pw_config (writer_step io w) = pw_config w" "pw_accepting (writer_step io w) = pw_accepting w" by simp_all
qed

lemma writer_step_config: "pw_config (write_packet raw ts w) = pw_config w" "pw_accepting (write_packet raw ts w) = pw_accepting w"
  "pw_joinable (write_packet raw ts w) = pw_joinable w"
  using write_packet_cases [of raw ts w] by auto

lemma session_inv:
  assumes "rec_inv w old new cur acc" "pw_accepting w" "\<forall>e \<in> set es. event_ok (pw_config w) e"
  shows "\<exists>new' cur'. rec_inv (pcap_session es w) old new' cur' (acc @ accepted es w) \<and> pw_config (pcap_session es w) = pw_config w \<and>
    pw_accepting (pcap_session es w)"
  using assms
proof (induction es arbitrary: w new cur acc)
  case (Cons e es)
  have "\<exists>new' cur'. rec_inv (pcap_event_step e w) old new' cur' (acc @ entered e w)"
  proof (cases e)
    case (Packet raw ts)
    then show ?thesis using write_packet_inv [OF Cons.prems(1)] by auto
  next
    case (Thread io)
    then show ?thesis using writer_step_inv [OF Cons.prems(1)] Cons.prems(2,3) by (auto simp: entered_def event_ok_def)
  qed
  moreover have "pw_config (pcap_event_step e w) = pw_config w \<and> pw_accepting (pcap_event_step e w)"
  proof (cases e)
    case (Thread io)
    then show ?thesis using Cons.prems writer_step_queue [OF Cons.prems(1)] by (auto simp: event_ok_def)
  qed (use Cons.prems in \<open>auto simp: writer_step_config\<close>)
  ultimately show ?case using Cons.IH [of "pcap_event_step e w"] Cons.prems(3) by fastforce
qed auto

subsection \<open>The end of a recording\<close>


definition steps_left :: "PcapWriter \<Rightarrow> nat" where
  "steps_left w = (case pw_thread w of WStopped \<Rightarrow> 0 | WWait \<Rightarrow> 2 * length (pw_pending w) + 1 | WHave p \<Rightarrow> 2 * length (pw_pending w) + 2)"

lemma seal_same: "pw_pending (fst (seal_current_file ok w)) = pw_pending w" "pw_accepting (fst (seal_current_file ok w)) = pw_accepting w"
  "pw_joinable (fst (seal_current_file ok w)) = pw_joinable w"
  by (simp_all add: seal_current_file_def Let_def split: prod.splits)

lemma seal_config: "pw_config (fst (seal_current_file ok w)) = pw_config w"
  by (simp add: seal_current_file_def Let_def split: prod.splits)

lemma rotate_same: "pw_pending (rotate_file_if_needed io w) = pw_pending w" "pw_accepting (rotate_file_if_needed io w) \<Longrightarrow> pw_accepting w"
  "pw_joinable (rotate_file_if_needed io w) = pw_joinable w"
  by (auto simp: rotate_file_if_needed_def seal_current_file_def open_new_file_def mark_write_error_def Let_def split: if_splits prod.splits)

lemma write_one_same:
  "pw_pending (write_one io p w) = pw_pending w" "pw_accepting (write_one io p w) \<Longrightarrow> pw_accepting w"
  "pw_thread (write_one io p w) \<in> {WStopped, WWait}" "pw_joinable (write_one io p w) = pw_joinable w"
  using rotate_same [of io "w\<lparr>pw_pending_record_size := word_of_nat (kPcapRecordHeaderSize + length (snd p))\<rparr>"]
  by (auto simp: write_one_def finish_writer_def mark_write_error_def Let_def seal_same split: if_splits)

lemma writer_step_joinable: "pw_joinable (writer_step io w) = pw_joinable w"
  by (simp add: writer_step_def write_one_same finish_writer_def seal_same split: writer_pc.splits list.splits)

text \<open>Once no packets are accepted the thread ends, whatever the file system answers.\<close>

lemma writer_step_progress:
  assumes "\<not> pw_accepting w" "pw_thread w \<noteq> WStopped"
  shows "\<not> pw_accepting (writer_step io w)" "steps_left (writer_step io w) < steps_left w"
proof -
  have "\<not> pw_accepting (writer_step io w) \<and> steps_left (writer_step io w) < steps_left w"
  proof (cases "pw_thread w")
    case (WHave p)
    then show ?thesis using assms write_one_same [of io p w] by (auto simp: writer_step_def steps_left_def)
  qed (use assms in \<open>auto simp: writer_step_def steps_left_def finish_writer_def seal_same split: list.splits\<close>)
  then show "\<not> pw_accepting (writer_step io w)" "steps_left (writer_step io w) < steps_left w" by simp_all
qed

lemma writer_run_stopped: "pw_thread w = WStopped \<Longrightarrow> writer_run n ios w = w"
  by (induction n arbitrary: w) (simp_all add: writer_step_def)

lemma writer_run_ends: "\<not> pw_accepting w \<Longrightarrow> steps_left w \<le> n \<Longrightarrow> pw_thread (writer_run n ios w) = WStopped"
proof (induction n arbitrary: w)
  case 0
  then show ?case by (simp add: steps_left_def split: writer_pc.splits)
next
  case (Suc n)
  show ?case
  proof (cases "pw_thread w = WStopped")
    case True
    then show ?thesis by (simp add: writer_run_stopped writer_step_def)
  next
    case False
    then show ?thesis using Suc writer_step_progress [of w "ios n"] by simp
  qed
qed

lemma finish_inv:
  assumes inv: "rec_inv w old new cur acc" and io: "io_ok (pw_config w) io" and idle: "inflight w = []" "pw_pending w = []"
  shows "\<exists>new'. sealed_inv (finish_writer io w) (pw_file_index (finish_writer io w)) (old @ new') \<and> concat (map snd new') = acc \<and>
    pw_temp_path (finish_writer io w) = [] \<and> pw_config (finish_writer io w) = pw_config w \<and> pw_thread (finish_writer io w) = WStopped"
proof -
  have f: "file_inv w (old @ new) cur" using inv by (simp add: rec_inv_def)
  let ?new = "new @ [(pw_sealed_path w, cur)]"
  have ok: "io_final_rename_ok io" using io by (simp add: io_ok_def)
  note seal = seal_file_inv [OF f]
  have "sealed_inv (finish_writer io w) (pw_file_index (finish_writer io w)) (old @ ?new)"
    using seal(2,6) ok by (simp add: finish_writer_def sealed_inv_def kept_def keep_count_def)
  then show ?thesis using seal ok inv idle by (intro exI [of _ ?new]) (simp add: finish_writer_def rec_inv_def)
qed

lemma writer_run_drains:
  assumes "rec_inv w old new cur acc" "\<not> pw_accepting w" "\<forall>n. io_ok (pw_config w) (ios n)" "steps_left w \<le> n"
  shows "\<exists>new'. sealed_inv (writer_run n ios w) (pw_file_index (writer_run n ios w)) (old @ new') \<and> concat (map snd new') = acc \<and>
    pw_temp_path (writer_run n ios w) = [] \<and> pw_config (writer_run n ios w) = pw_config w"
  using assms
proof (induction n arbitrary: w new cur)
  case 0
  then show ?case by (auto simp: rec_inv_def steps_left_def split: writer_pc.splits)
next
  case (Suc n)
  have live: "pw_thread w \<noteq> WStopped" and io: "io_ok (pw_config w) (ios n)" using Suc.prems by (simp_all add: rec_inv_def)
  note progress = writer_step_progress [OF Suc.prems(2) live, of "ios n"]
  show ?case
  proof (cases "inflight w = [] \<and> pw_pending w = []")
    case True
    then have fin: "writer_step (ios n) w = finish_writer (ios n) w"
      using live Suc.prems(2) by (auto simp: writer_step_def inflight_def split: writer_pc.splits)
    then show ?thesis using finish_inv [OF Suc.prems(1) io] True by (auto simp: fin writer_run_stopped)
  next
    case False
    obtain new' cur' where inv': "rec_inv (writer_step (ios n) w) old new' cur' acc"
      using writer_step_inv [OF Suc.prems(1) io] False by blast
    moreover have "pw_config (writer_step (ios n) w) = pw_config w" using writer_step_queue [OF Suc.prems(1) io] False by blast
    ultimately show ?thesis using Suc.IH [OF inv'] progress Suc.prems(3,4) by simp
  qed
qed

text \<open>\<^verbatim>\<open>stop()\<close> returns: the bound on the steps of the thread in the model is never reached with the thread still running.\<close>

lemma stop_joins:
  assumes "pw_joinable w"
  shows "pw_thread (writer_run (2 * length (pw_pending w) + 2) ios (w\<lparr>pw_accepting := False\<rparr>)) = WStopped"
  by (rule writer_run_ends) (auto simp: steps_left_def split: writer_pc.splits)

lemma start_inv:
  assumes s: "sealed_inv w (pw_file_index w) old" and io: "io_ok (pw_config w) io" and en: "pc_enabled (pw_config w)"
    and idle: "\<not> pw_recording w" "\<not> pw_joinable w"
  shows "\<exists>w'. pcap_start io w = Some (w', True) \<and> rec_inv w' old [] [] [] \<and> pw_config w' = pw_config w \<and> pw_accepting w' \<and> pw_joinable w'"
proof -
  obtain w1 where w1: "open_new_file io w = (w1, True)" using open_file_inv(1) [OF s io] by (metis prod.collapse)
  note opened = open_file_inv [OF s io, unfolded w1 fst_conv]
  show ?thesis using opened idle en by (auto simp: pcap_start_def w1 rec_inv_def inflight_def file_inv_def sealed_inv_def kept_def keep_count_def)
qed

lemma session_joinable: "pw_joinable (pcap_session es w) = pw_joinable w"
proof (induction es arbitrary: w)
  case (Cons e es)
  have "pw_joinable (pcap_event_step e w) = pw_joinable w"
    by (cases e) (simp_all add: writer_step_config writer_step_joinable)
  then show ?case by (simp add: Cons.IH)
qed simp

lemma stop_inv:
  assumes inv: "rec_inv w old new cur acc" and ios: "\<forall>n. io_ok (pw_config w) (ios n)" and j: "pw_joinable w"
  shows "\<exists>new'. sealed_inv (pcap_stop ios ok w) (pw_file_index (pcap_stop ios ok w)) (old @ new') \<and> concat (map snd new') = acc \<and>
    pw_config (pcap_stop ios ok w) = pw_config w \<and> \<not> pw_recording (pcap_stop ios ok w) \<and> \<not> pw_joinable (pcap_stop ios ok w)"
proof -
  let ?w = "w\<lparr>pw_accepting := False\<rparr>" and ?n = "2 * length (pw_pending w) + 2"
  let ?r = "writer_run ?n ios ?w"
  have "rec_inv ?w old new cur acc" using inv by (simp add: rec_inv_def file_inv_update inflight_def)
  moreover have "steps_left ?w \<le> ?n" by (auto simp: steps_left_def split: writer_pc.splits)
  ultimately obtain new' where r: "sealed_inv ?r (pw_file_index ?r) (old @ new')" "concat (map snd new') = acc" "pw_temp_path ?r = []"
      "pw_config ?r = pw_config w"
    using writer_run_drains [of ?w old new cur acc ios ?n] ios by auto
  have e: "pcap_stop ios ok w = ?r\<lparr>pw_joinable := False, pw_open := False, pw_temp_path := [], pw_sealed_path := [], pw_pending := [], pw_recording := False\<rparr>"
    using j r(3) by (simp add: pcap_stop_def Let_def seal_current_file_def)
  show ?thesis unfolding e using r by (intro exI [of _ new']) (simp add: sealed_inv_def kept_def keep_count_def)
qed

lemma recording_session:
  assumes s: "sealed_inv w (pw_file_index w) old" and en: "pc_enabled (pw_config w)" and idle: "\<not> pw_recording w" "\<not> pw_joinable w"
    and io: "io_ok (pw_config w) io" and es: "\<forall>e \<in> set es. event_ok (pw_config w) e" and ios: "\<forall>n. io_ok (pw_config w) (ios n)"
  obtains w0 new where "pcap_start io w = Some (w0, True)" "concat (map snd new) = accepted es w0"
    "sealed_inv (pcap_stop ios ok (pcap_session es w0)) (pw_file_index (pcap_stop ios ok (pcap_session es w0))) (old @ new)"
    "pw_config (pcap_stop ios ok (pcap_session es w0)) = pw_config w"
    "\<not> pw_recording (pcap_stop ios ok (pcap_session es w0))" "\<not> pw_joinable (pcap_stop ios ok (pcap_session es w0))"
proof -
  obtain w0 where w0: "pcap_start io w = Some (w0, True)" "rec_inv w0 old [] [] []" "pw_config w0 = pw_config w" "pw_accepting w0" "pw_joinable w0"
    using start_inv [OF s io en idle] by blast
  obtain new cur where r: "rec_inv (pcap_session es w0) old new cur (accepted es w0)" "pw_config (pcap_session es w0) = pw_config w"
    using session_inv [OF w0(2,4), of es] es w0(3) by auto
  show ?thesis using stop_inv [OF r(1), of ios ok] ios r(2) w0(1,5) that by (auto simp: session_joinable)
qed

end
