(* ===== verification/Pcap_Reader.thy ===== *)
theory Pcap_Reader
  imports Pcap_Capture Floating
begin

text \<open>
  The readers of capture files and the replay tool (\<^verbatim>\<open>tools/pcap_replay.cpp\<close>; \<^verbatim>\<open>tools/pcap_analyze.cpp\<close> holds the same readers).

  Correspondence.  An \<^verbatim>\<open>ifstream\<close> is the list of the bytes still to be read; a \<^verbatim>\<open>runtime_error\<close> is a value of \<open>pcap_error\<close>.  Double
  arithmetic is the argument \<open>fpu\<close>; \<^verbatim>\<open>sendto\<close> answers by its argument \<open>send_ok\<close>, indexed by the number of the call, and the payloads handed
  to it are recorded.  The pauses between packets and the printed rates have no effect on the state.
\<close>

datatype pcap_error = truncated_record_header | invalid_record_lengths | truncated_packet_payload

record PcapFormat =
  little_endian :: bool
  timestamp_nanoseconds :: bool
  snaplen :: u32
  network :: u32

record PcapRecord =
  ts_sec :: u32
  ts_frac :: u32
  rec_payload :: bytes

definition epoch_seconds :: "fpu \<Rightarrow> bool \<Rightarrow> PcapRecord \<Rightarrow> f64" where
  "epoch_seconds F ns r =
     (let divisor = (if ns then 0x41CDCD6500000000 else 0x412E848000000000)
      in d_add F (d_of_size F (ucast (ts_sec r))) (d_div F (d_of_size F (ucast (ts_frac r))) divisor))"

definition read_u16 :: "bytes \<Rightarrow> nat \<Rightarrow> bool \<Rightarrow> u16" where
  "read_u16 bs off le =
     (if le then ucast (bs ! off) OR push_bit 8 (ucast (bs ! (off + 1)))
      else push_bit 8 (ucast (bs ! off)) OR ucast (bs ! (off + 1)))"

definition read_u32 :: "bytes \<Rightarrow> nat \<Rightarrow> bool \<Rightarrow> u32" where
  "read_u32 bs off le =
     (if le then ucast (bs ! off) OR push_bit 8 (ucast (bs ! (off + 1))) OR push_bit 16 (ucast (bs ! (off + 2))) OR push_bit 24 (ucast (bs ! (off + 3)))
      else push_bit 24 (ucast (bs ! off)) OR push_bit 16 (ucast (bs ! (off + 1))) OR push_bit 8 (ucast (bs ! (off + 2))) OR ucast (bs ! (off + 3)))"

definition read_global_header :: "bytes \<Rightarrow> (PcapFormat \<times> bytes) option" where
  "read_global_header ifs =
     (if length ifs < 24 then None
      else let header = take 24 ifs; magic_le = read_u32 header 0 True; magic_be = read_u32 header 0 False;
               kind = (if magic_le = 0xA1B2C3D4 then Some (True, False)
                       else if magic_le = 0xA1B23C4D then Some (True, True)
                       else if magic_be = 0xA1B2C3D4 then Some (False, False)
                       else if magic_be = 0xA1B23C4D then Some (False, True)
                       else None)
           in case kind of
                None \<Rightarrow> None
              | Some (le, ns) \<Rightarrow>
                 if read_u16 header 4 le \<noteq> 2 \<or> read_u16 header 6 le \<noteq> 4 then None
                 else Some (\<lparr>little_endian = le, timestamp_nanoseconds = ns, snaplen = read_u32 header 16 le, network = read_u32 header 20 le\<rparr>,
                            drop 24 ifs))"

text \<open>The result is the record with the rest of the stream, nothing at the end of the file, or the error thrown.\<close>

definition read_record :: "bytes \<Rightarrow> PcapFormat \<Rightarrow> pcap_error + (PcapRecord \<times> bytes) option" where
  "read_record ifs fmt =
     (if ifs = [] then Inr None
      else if length ifs < 16 then Inl truncated_record_header
      else let raw = take 16 ifs; u32_raw = (\<lambda>off. read_u32 raw off (little_endian fmt)); incl_len = u32_raw 8; orig_len = u32_raw 12 in
        if incl_len = 0 \<or> orig_len = 0 \<or> incl_len > snaplen fmt \<or> incl_len > orig_len then Inl invalid_record_lengths
        else let body = take (unat incl_len) (drop 16 ifs) in
          if length body \<noteq> unat incl_len then Inl truncated_packet_payload
          else Inr (Some (\<lparr>ts_sec = u32_raw 0, ts_frac = u32_raw 4, rec_payload = body\<rparr>, drop (16 + unat incl_len) ifs)))"

lemma read_record_shorter: "read_record ifs fmt = Inr (Some (r, rest)) \<Longrightarrow> length rest < length ifs"
  by (auto simp: read_record_def Let_def split: if_splits)

subsection \<open>Replay\<close>

record ReplayOptions =
  ro_pcap_file :: string
  ro_target_ip :: string
  ro_target_port :: u16
  ro_speed :: f64
  ro_loop :: bool
  ro_count :: "u64 option"
  ro_start_time_epoch :: "f64 option"
  ro_end_time_epoch :: "f64 option"

record ReplayStats =
  sent_packets :: u64
  sent_bytes :: u64
  file_packets :: u64
  filtered_packets :: u64

definition zero_replay_stats :: ReplayStats where
  "zero_replay_stats = \<lparr>sent_packets = 0, sent_bytes = 0, file_packets = 0, filtered_packets = 0\<rparr>"

definition replay_should_send :: "ReplayOptions \<Rightarrow> f64 \<Rightarrow> bool" where
  "replay_should_send opt epoch =
     (if (case ro_start_time_epoch opt of Some t \<Rightarrow> f64_lt epoch t | None \<Rightarrow> False) then False
      else if (case ro_end_time_epoch opt of Some t \<Rightarrow> f64_lt t epoch | None \<Rightarrow> False) then False
      else True)"

text \<open>One packet of the file: the statistics and the payloads handed to \<^verbatim>\<open>sendto\<close> so far.\<close>

definition replay_record :: "fpu \<Rightarrow> ReplayOptions \<Rightarrow> (nat \<Rightarrow> bool) \<Rightarrow> PcapFormat \<Rightarrow> PcapRecord \<Rightarrow> ReplayStats \<times> bytes list \<Rightarrow> ReplayStats \<times> bytes list" where
  "replay_record F opt send_ok fmt r = (\<lambda>(stats, sends).
     let stats = stats\<lparr>file_packets := file_packets stats + 1\<rparr> in
     if \<not> replay_should_send opt (epoch_seconds F (timestamp_nanoseconds fmt) r)
     then (stats\<lparr>filtered_packets := filtered_packets stats + 1\<rparr>, sends)
     else if \<not> send_ok (length sends) then (stats, sends @ [rec_payload r])
     else (stats\<lparr>sent_packets := sent_packets stats + 1, sent_bytes := sent_bytes stats + word_of_nat (length (rec_payload r))\<rparr>,
           sends @ [rec_payload r]))"

function replay_loop :: "fpu \<Rightarrow> ReplayOptions \<Rightarrow> (nat \<Rightarrow> bool) \<Rightarrow> PcapFormat \<Rightarrow> bytes \<Rightarrow> ReplayStats \<times> bytes list \<Rightarrow>
    (pcap_error \<times> bytes list) + (ReplayStats \<times> bytes list)" where
  "replay_loop F opt send_ok fmt ifs st =
     (case read_record ifs fmt of
        Inl e \<Rightarrow> Inl (e, snd st)
      | Inr None \<Rightarrow> Inr st
      | Inr (Some (r, rest)) \<Rightarrow> replay_loop F opt send_ok fmt rest (replay_record F opt send_ok fmt r st))"
  by pat_completeness auto
termination
  by (relation "measure (\<lambda>(F, opt, send_ok, fmt, ifs, st). length ifs)") (auto dest: read_record_shorter)

declare replay_loop.simps [simp del]

text \<open>\<open>Inr None\<close> is the result \<^verbatim>\<open>false\<close>: the file cannot be opened or has another format.\<close>

definition replay_once :: "fpu \<Rightarrow> ReplayOptions \<Rightarrow> (nat \<Rightarrow> bool) \<Rightarrow> bytes option \<Rightarrow> (pcap_error \<times> bytes list) + (ReplayStats \<times> bytes list) option" where
  "replay_once F opt send_ok file =
     (case file of
        None \<Rightarrow> Inr None
      | Some bs \<Rightarrow>
         (case read_global_header bs of
            None \<Rightarrow> Inr None
          | Some (fmt, rest) \<Rightarrow> map_sum id Some (replay_loop F opt send_ok fmt rest (zero_replay_stats, []))))"

text \<open>\<^verbatim>\<open>main\<close> has no handler: an error ends in \<^verbatim>\<open>std::terminate\<close>.  The passes are those of the file at each iteration.\<close>

datatype replay_exit = Exit nat "ReplayStats option" | Terminated pcap_error

definition iterations_target :: "ReplayOptions \<Rightarrow> u64" where
  "iterations_target opt = (case ro_count opt of Some n \<Rightarrow> n | None \<Rightarrow> if ro_loop opt then 0 else 1)"

definition add_stats :: "ReplayStats \<Rightarrow> ReplayStats \<Rightarrow> ReplayStats" where
  "add_stats acc pass = acc\<lparr>sent_packets := sent_packets acc + sent_packets pass, sent_bytes := sent_bytes acc + sent_bytes pass,
     file_packets := file_packets acc + file_packets pass, filtered_packets := filtered_packets acc + filtered_packets pass\<rparr>"

partial_function (option) replay_iterations :: "fpu \<Rightarrow> ReplayOptions \<Rightarrow> (u64 \<Rightarrow> nat \<Rightarrow> bool) \<Rightarrow> (u64 \<Rightarrow> bytes option) \<Rightarrow> u64 \<Rightarrow> ReplayStats \<Rightarrow>
    replay_exit option" where
  "replay_iterations F opt send_ok file iteration acc =
     (if iterations_target opt = 0 \<or> iteration < iterations_target opt then
        (case replay_once F opt (send_ok iteration) (file iteration) of
           Inl (e, sends) \<Rightarrow> Some (Terminated e)
         | Inr None \<Rightarrow> Some (Exit 1 None)
         | Inr (Some (pass, sends)) \<Rightarrow>
             let acc = add_stats acc pass in
             if \<not> ro_loop opt \<and> ro_count opt = None then Some (Exit 0 (Some acc))
             else replay_iterations F opt send_ok file (iteration + 1) acc)
      else Some (Exit 0 (Some acc)))"

subsection \<open>Reading what was written\<close>

definition captured_record :: "PendingPacket \<Rightarrow> PcapRecord" where
  "captured_record p = \<lparr>ts_sec = ucast (fst p div 1000000), ts_frac = ucast (fst p mod 1000000), rec_payload = snd p\<rparr>"

definition capture_format :: PcapFormat where
  "capture_format = \<lparr>little_endian = True, timestamp_nanoseconds = False, snaplen = kPcapSnapLen, network = kPcapLinkTypeUser0\<rparr>"

lemma take4_nth: "off + 4 \<le> length bs \<Longrightarrow> take 4 (drop off bs) = [bs ! off, bs ! (off + 1), bs ! (off + 2), bs ! (off + 3)]"
  by (auto simp: numeral_eq_Suc take_Suc_conv_app_nth)

lemma take2_nth: "off + 2 \<le> length bs \<Longrightarrow> take 2 (drop off bs) = [bs ! off, bs ! (off + 1)]"
  by (auto simp: numeral_eq_Suc take_Suc_conv_app_nth)

lemma read_u32_le: "off + 4 \<le> length bs \<Longrightarrow> read_u32 bs off True = field_le off 4 bs"
  by (simp add: read_u32_def field_le_def take4_nth push_bit_or or.assoc push_bit_push_bit)

lemma read_u16_le: "off + 2 \<le> length bs \<Longrightarrow> read_u16 bs off True = field_le off 2 bs"
  by (simp add: read_u16_def field_le_def take2_nth)

lemma length_global_header [simp]: "length pcap_global_header = 24"
  by (simp add: pcap_global_header_def)

lemma read_captured_header: "read_global_header (pcap_global_header @ rest) = Some (capture_format, rest)"
proof -
  have h: "take 24 (pcap_global_header @ rest) = pcap_global_header" by simp
  have "read_u32 pcap_global_header 0 True = kPcapMagic" "read_u16 pcap_global_header 4 True = kPcapVersionMajor"
    "read_u16 pcap_global_header 6 True = kPcapVersionMinor" "read_u32 pcap_global_header 16 True = kPcapSnapLen"
    "read_u32 pcap_global_header 20 True = kPcapLinkTypeUser0"
    by (simp_all add: read_u32_le read_u16_le) (simp_all add: field_le_def pcap_global_header_def)
  then show ?thesis
    by (simp add: read_global_header_def h capture_format_def kPcapMagic_def kPcapVersionMajor_def kPcapVersionMinor_def)
qed

lemma length_record_header [simp]: "length (pcap_record_header a b c d) = 16"
  by (simp add: pcap_record_header_def)

lemma record_header_fields:
  "read_u32 (pcap_record_header a b c d) 0 True = a" "read_u32 (pcap_record_header a b c d) 4 True = b"
  "read_u32 (pcap_record_header a b c d) 8 True = c" "read_u32 (pcap_record_header a b c d) 12 True = d"
  by (simp_all add: read_u32_le) (simp_all add: field_le_def pcap_record_header_def)

definition readable :: "PendingPacket \<Rightarrow> bool" where
  "readable p \<longleftrightarrow> snd p \<noteq> [] \<and> length (snd p) \<le> 65535"

lemma read_captured_record:
  assumes "readable p"
  shows "read_record (pcap_record_bytes p @ rest) capture_format = Inr (Some (captured_record p, rest))"
proof -
  obtain ts bs where p: "p = (ts, bs)" by (cases p)
  let ?n = "word_of_nat (length bs) :: u32"
  let ?h = "pcap_record_header (ucast (ts div 1000000)) (ucast (ts mod 1000000)) ?n ?n"
  have len: "0 < length bs" "length bs \<le> 65535" using assms p by (auto simp: readable_def)
  have un: "unat ?n = length bs" using len by (simp add: unat_of_nat)
  have n0: "?n \<noteq> 0" using un len by (metis unat_0 less_irrefl)
  have le: "\<not> kPcapSnapLen < ?n" using un len by (simp add: word_less_nat_alt kPcapSnapLen_def)
  have e: "pcap_record_bytes p @ rest = ?h @ bs @ rest" by (simp add: p pcap_record_bytes_def)
  have "take 16 (?h @ bs @ rest) = ?h" "drop 16 (?h @ bs @ rest) = bs @ rest" by simp_all
  then show ?thesis unfolding e using n0 le un len
    by (simp add: read_record_def Let_def capture_format_def record_header_fields captured_record_def p)
qed

lemma replay_captured_records:
  assumes "\<forall>p \<in> set ps. readable p"
  shows "replay_loop F opt send_ok capture_format (concat (map pcap_record_bytes ps)) st = Inr (fold (\<lambda>p. replay_record F opt send_ok capture_format (captured_record p)) ps st)"
  using assms
proof (induction ps arbitrary: st)
  case Nil
  then show ?case by (subst replay_loop.simps) (simp add: read_record_def)
next
  case (Cons p ps)
  then show ?case by (subst replay_loop.simps) (simp add: read_captured_record)
qed

lemma replay_captured_file:
  assumes "\<forall>p \<in> set ps. readable p"
  shows "replay_once F opt send_ok (Some (encode_file ps)) =
    Inr (Some (fold (\<lambda>p. replay_record F opt send_ok capture_format (captured_record p)) ps (zero_replay_stats, [])))"
  using assms by (simp add: replay_once_def encode_file_def read_captured_header replay_captured_records)

text \<open>The time of a packet as the tools compute it, from the microseconds given to the writer.\<close>

definition epoch_of_us :: "fpu \<Rightarrow> u64 \<Rightarrow> f64" where
  "epoch_of_us F ts = d_add F (d_of_size F (ts div 1000000)) (d_div F (d_of_size F (ts mod 1000000)) 0x412E848000000000)"

definition representable_time :: "PendingPacket \<Rightarrow> bool" where
  "representable_time p \<longleftrightarrow> fst p < 4294967296000000"

lemma ucast_back:
  assumes "unat (x :: u64) < 4294967296"
  shows "ucast (ucast x :: u32) = x"
proof (rule word_unat_eq_iff [THEN iffD2])
  have "unat (ucast x :: u32) = unat x" using assms by (simp add: unsigned_ucast_eq take_bit_eq_mod)
  then show "unat (ucast (ucast x :: u32) :: u64) = unat x" using assms by (simp add: unsigned_ucast_eq take_bit_eq_mod unat_mod)
qed

lemma captured_epoch:
  assumes "representable_time p"
  shows "epoch_seconds F False (captured_record p) = epoch_of_us F (fst p)"
proof -
  have "unat (fst p) < 4294967296000000" using assms by (simp add: word_less_nat_alt representable_time_def)
  then have "unat (fst p div 1000000) < 4294967296" "unat (fst p mod 1000000) < 4294967296"
    by (auto simp: unat_div unat_mod less_mult_imp_div_less intro: less_trans [OF mod_less_divisor])
  then show ?thesis by (simp add: epoch_seconds_def captured_record_def epoch_of_us_def ucast_back)
qed

definition in_window :: "fpu \<Rightarrow> ReplayOptions \<Rightarrow> PendingPacket \<Rightarrow> bool" where
  "in_window F opt p = replay_should_send opt (epoch_of_us F (fst p))"

text \<open>The statistics and the datagrams of a pass over a file that holds the packets \<open>ps\<close>.\<close>

definition pass_result :: "fpu \<Rightarrow> ReplayOptions \<Rightarrow> PendingPacket list \<Rightarrow> ReplayStats \<times> bytes list" where
  "pass_result F opt ps =
     (let out = filter (in_window F opt) ps in
      (\<lparr>sent_packets = word_of_nat (length out), sent_bytes = word_of_nat (sum_list (map (length \<circ> snd) out)),
        file_packets = word_of_nat (length ps), filtered_packets = word_of_nat (length (filter (\<lambda>p. \<not> in_window F opt p) ps))\<rparr>, map snd out))"

lemma replay_records_result:
  assumes "\<forall>p \<in> set ps. representable_time p" "\<forall>n. send_ok n"
  shows "fold (\<lambda>p. replay_record F opt send_ok capture_format (captured_record p)) ps (zero_replay_stats, []) = pass_result F opt ps"
  using assms
proof (induction ps rule: rev_induct)
  case Nil
  then show ?case by (simp add: pass_result_def zero_replay_stats_def)
next
  case (snoc p ps)
  then have "epoch_seconds F False (captured_record p) = epoch_of_us F (fst p)" by (simp add: captured_epoch)
  then show ?case using snoc
    by (simp add: replay_record_def pass_result_def in_window_def capture_format_def Let_def) (simp add: captured_record_def)
qed

lemma pass_over_captured_file:
  assumes "\<forall>p \<in> set ps. readable p \<and> representable_time p" "\<forall>n. send_ok n"
  shows "replay_once F opt send_ok (Some (encode_file ps)) = Inr (Some (pass_result F opt ps))"
  using assms by (simp add: replay_captured_file replay_records_result)

subsection \<open>Properties\<close>

lemma accepted_not_empty: "p \<in> set (accepted es w) \<Longrightarrow> snd p \<noteq> []"
  by (induction es w rule: accepted.induct) (auto simp: entered_def split: pcap_event.splits option.splits if_splits)

lemma new_writer_sealed: "sealed_inv (pcap_writer_new cfg disk) (pw_file_index (pcap_writer_new cfg disk)) []"
  by (simp add: sealed_inv_def pcap_writer_new_def kept_def)

text \<open>
  C18: Capture and replay: without I/O errors a recording (\<^verbatim>\<open>start()\<close>, any interleaving of packets and steps of the writer thread, \<^verbatim>\<open>stop()\<close>)
  distributes the accepted packets over the files in order, each packet in exactly one file; the newest \<^verbatim>\<open>max_files\<close> of them (at least one)
  are kept, and a replay of every kept file succeeds and sends exactly its packets whose time lies in the window asked for, unchanged and in order.
\<close>

theorem capture_replay_roundtrip:
  assumes "pc_enabled cfg" "io_ok cfg io" "\<forall>e \<in> set es. event_ok cfg e" "\<forall>n. io_ok cfg (ios n)" "\<forall>n. send_ok n"
    and start: "pcap_start io (pcap_writer_new cfg disk) = Some (w0, started)"
    and packets: "\<forall>p \<in> set (accepted es w0). length (snd p) \<le> 65535 \<and> fst p < 4294967296000000"
  shows "started \<and> (\<exists>files. concat files = accepted es w0 \<and>
    map (\<lambda>path. replay_once F opt send_ok (pw_disk (pcap_stop ios ok (pcap_session es w0)) path)) (pw_recent_files (pcap_stop ios ok (pcap_session es w0))) =
    map (\<lambda>ps. Inr (Some (pass_result F opt ps))) (drop (length files - max 1 (pc_max_files cfg)) files))"
proof -
  let ?w = "pcap_writer_new cfg disk"
  have c: "pw_config ?w = cfg" "\<not> pw_recording ?w" "\<not> pw_joinable ?w" by (simp_all add: pcap_writer_new_def)
  have pre: "pc_enabled (pw_config ?w)" "io_ok (pw_config ?w) io" "\<forall>e \<in> set es. event_ok (pw_config ?w) e" "\<forall>n. io_ok (pw_config ?w) (ios n)"
    using assms(1-4) by (simp_all add: c)
  obtain w' new where n: "pcap_start io ?w = Some (w', True)" "concat (map snd new) = accepted es w'"
      "sealed_inv (pcap_stop ios ok (pcap_session es w')) (pw_file_index (pcap_stop ios ok (pcap_session es w'))) ([] @ new)"
      "pw_config (pcap_stop ios ok (pcap_session es w')) = pw_config ?w"
    by (rule recording_session [OF new_writer_sealed pre(1) c(2,3) pre(2-4)]) (rule that, assumption+)
  let ?s = "pcap_stop ios ok (pcap_session es w0)"
  have w0: "w' = w0" "started" using n(1) start by auto
  have k: "kept ?s xs = drop (length xs - max 1 (pc_max_files cfg)) xs" for xs :: "'z list"
    using n(4) w0 by (simp add: kept_def keep_count_def c)
  have pass: "replay_once F opt send_ok (pw_disk ?s path) = Inr (Some (pass_result F opt ps))" if "(path, ps) \<in> set (kept ?s new)" for path ps
  proof -
    have "(path, ps) \<in> set new" using that kept_subset [of ?s new] by blast
    then have "set ps \<subseteq> set (concat (map snd new))" by force
    then have "set ps \<subseteq> set (accepted es w0)" using n(2) w0 by simp
    then have "\<forall>p \<in> set ps. readable p \<and> representable_time p"
      using packets accepted_not_empty by (fastforce simp: readable_def representable_time_def)
    moreover have "pw_disk ?s path = Some (encode_file ps)" using n(3) w0 that by (auto simp: sealed_inv_def)
    ultimately show ?thesis using assms(5) by (simp add: pass_over_captured_file)
  qed
  have "pw_recent_files ?s = map fst (kept ?s new)" using n(3) w0 by (simp add: sealed_inv_def)
  then have "map (\<lambda>path. replay_once F opt send_ok (pw_disk ?s path)) (pw_recent_files ?s) = map (\<lambda>ps. Inr (Some (pass_result F opt ps))) (map snd (kept ?s new))"
    using pass by (auto simp: map_eq_conv)
  then show ?thesis using n(2) w0 by (intro conjI exI [of _ "map snd new"]) (simp_all add: k drop_map)
qed

definition sample_capture_config :: "u64 \<Rightarrow> PcapWriterConfig" where
  "sample_capture_config mb = \<lparr>pc_enabled = True, pc_spool_dir = ''spool'', pc_max_file_size_mb = mb, pc_max_files = 2, pc_pending_queue_capacity = 4,
     pc_filter_packet_types = [], pc_filter_source_ids = []\<rparr>"

definition sample_io :: pcap_io where
  "sample_io = \<lparr>io_mkdir = (\<lambda>path. True), io_now_us = 1000, io_open_ok = True, io_header_good = True, io_write_good = True,
     io_bytes_written = 0, io_rename_ok = True, io_final_rename_ok = True\<rparr>"

definition sample_replay_options :: ReplayOptions where
  "sample_replay_options = \<lparr>ro_pcap_file = ''a.pcap'', ro_target_ip = ''127.0.0.1'', ro_target_port = 9999, ro_speed = 0, ro_loop = False,
     ro_count = None, ro_start_time_epoch = None, ro_end_time_epoch = None\<rparr>"

definition sample_events :: "pcap_event list" where
  "sample_events = [Packet (Some [7, 8]) 2000005, Thread sample_io, Packet (Some []) 6, Packet (Some [9]) 3000000, Thread sample_io]"

lemma ensure_loop_succeeds: "(\<And>path. mkdir path) \<Longrightarrow> ensure_loop mkdir normalized current index"
  by (induction mkdir normalized current index rule: ensure_loop.induct)
    (subst ensure_loop.simps, auto simp: Let_def create_directory_if_missing_def)

lemma sample_io_ok: "io_ok (sample_capture_config mb) sample_io"
  by (simp add: io_ok_def sample_io_def sample_capture_config_def ensure_directories_def ensure_loop_succeeds)

definition sample_started :: "u64 \<Rightarrow> PcapWriter" where
  "sample_started mb = fst (the (pcap_start sample_io (pcap_writer_new (sample_capture_config mb) (\<lambda>path. None))))"

lemma sample_start:
  "pcap_start sample_io (pcap_writer_new (sample_capture_config mb) (\<lambda>path. None)) = Some (sample_started mb, True)"
  "accepted sample_events (sample_started mb) = [(2000005, [7, 8]), (3000000, [9])]"
proof -
  let ?w = "pcap_writer_new (sample_capture_config mb) (\<lambda>path. None)"
  have "\<exists>w'. pcap_start sample_io ?w = Some (w', True) \<and> rec_inv w' [] [] [] [] \<and> pw_config w' = pw_config ?w \<and> pw_accepting w' \<and> pw_joinable w'"
    by (rule start_inv [OF new_writer_sealed]) (simp_all add: pcap_writer_new_def sample_io_ok, simp add: sample_capture_config_def)
  then obtain w' where w': "pcap_start sample_io ?w = Some (w', True)" "rec_inv w' [] [] [] []" "pw_config w' = sample_capture_config mb" "pw_accepting w'"
    by (auto simp: pcap_writer_new_def)
  then show start: "pcap_start sample_io ?w = Some (sample_started mb, True)" by (simp add: sample_started_def)
  have s: "sample_started mb = w'" using w'(1) by (simp add: sample_started_def)
  have t: "pw_pending w' = []" "pw_thread w' = WWait" using w'(2) by (auto simp: rec_inv_def inflight_def split: writer_pc.splits)
  show "accepted sample_events (sample_started mb) = [(2000005, [7, 8]), (3000000, [9])]"
    using w'(3,4) t by (simp add: s sample_events_def entered_def write_packet_def writer_step_def passes_filters_def sample_capture_config_def)
qed

theorem capture_replay_roundtrip_witness:
  "\<exists>files. concat files = [(2000005, [7, 8]), (3000000, [9])] \<and>
    map (\<lambda>path. replay_once sample_fpu sample_replay_options (\<lambda>n. True)
           (pw_disk (pcap_stop (\<lambda>n. sample_io) True (pcap_session sample_events (sample_started 0))) path))
      (pw_recent_files (pcap_stop (\<lambda>n. sample_io) True (pcap_session sample_events (sample_started 0)))) =
    map (\<lambda>ps. Inr (Some (pass_result sample_fpu sample_replay_options ps))) (drop (length files - 2) files)"
proof -
  have c: "pc_enabled (sample_capture_config 0)" "max 1 (pc_max_files (sample_capture_config 0)) = 2" by (simp_all add: sample_capture_config_def)
  have e: "\<forall>e \<in> set sample_events. event_ok (sample_capture_config 0) e" by (simp add: sample_events_def event_ok_def sample_io_ok)
  have p: "\<forall>p \<in> set (accepted sample_events (sample_started 0)). length (snd p) \<le> 65535 \<and> fst p < 4294967296000000"
    by (simp add: sample_start(2))
  show ?thesis
    using capture_replay_roundtrip [OF c(1) sample_io_ok e _ _ sample_start(1) p, of "\<lambda>n. sample_io" "\<lambda>n. True" sample_fpu sample_replay_options True] sample_io_ok
    by (simp only: c(2) sample_start(2)) blast
qed

subsection \<open>Damaged files\<close>

lemma replay_loop_append:
  assumes "\<forall>p \<in> set ps. readable p"
  shows "replay_loop F opt send_ok capture_format (concat (map pcap_record_bytes ps) @ rest) st =
    replay_loop F opt send_ok capture_format rest (fold (\<lambda>p. replay_record F opt send_ok capture_format (captured_record p)) ps st)"
  using assms
proof (induction ps arbitrary: st)
  case (Cons p ps)
  then show ?case by (subst replay_loop.simps) (simp add: read_captured_record)
qed simp

lemma read_partial_record:
  assumes "readable p" "0 < k" "k < length (pcap_record_bytes p)"
  shows "read_record (take k (pcap_record_bytes p)) capture_format = Inl (if k < 16 then truncated_record_header else truncated_packet_payload)"
proof -
  obtain ts bs where p: "p = (ts, bs)" by (cases p)
  let ?n = "word_of_nat (length bs) :: u32"
  let ?h = "pcap_record_header (ucast (ts div 1000000)) (ucast (ts mod 1000000)) ?n ?n"
  have len: "0 < length bs" "length bs \<le> 65535" using assms p by (auto simp: readable_def)
  have un: "unat ?n = length bs" using len by (simp add: unat_of_nat)
  have n0: "?n \<noteq> 0" using un len by (metis unat_0 less_irrefl)
  have le: "\<not> kPcapSnapLen < ?n" using un len by (simp add: word_less_nat_alt kPcapSnapLen_def)
  have e: "pcap_record_bytes p = ?h @ bs" by (simp add: p pcap_record_bytes_def)
  show ?thesis
  proof (cases "k < 16")
    case True
    then show ?thesis using assms(2,3) by (auto simp: read_record_def e dest: arg_cong [where f = length])
  next
    case False
    then have "take 16 (take k (pcap_record_bytes p)) = ?h" "drop 16 (take k (pcap_record_bytes p)) = take (k - 16) bs" "length (take k (pcap_record_bytes p)) = k"
      using assms(3) by (simp_all add: e)
    moreover have "k - 16 < length bs" using assms(3) False by (simp add: e)
    ultimately show ?thesis using False n0 le un
      by (auto simp: read_record_def Let_def capture_format_def record_header_fields)
  qed
qed

text \<open>
  A file whose last record is incomplete (a recording that ended with a write error) is not readable to the end: the replay sends the
  complete packets and then throws, and \<^verbatim>\<open>main\<close> does not catch the exception.
\<close>

lemma partial_record_throws:
  assumes "\<forall>q \<in> set ps. readable q \<and> representable_time q" "readable p" "0 < k" "k < length (pcap_record_bytes p)" "\<forall>n. send_ok n"
  shows "replay_once F opt send_ok (Some (encode_file ps @ take k (pcap_record_bytes p))) =
      Inl (if k < 16 then truncated_record_header else truncated_packet_payload, snd (pass_result F opt ps)) \<and>
    replay_iterations F opt (\<lambda>i. send_ok) (\<lambda>i. Some (encode_file ps @ take k (pcap_record_bytes p))) 0 zero_replay_stats =
      Some (Terminated (if k < 16 then truncated_record_header else truncated_packet_payload))"
proof -
  have "replay_loop F opt send_ok capture_format (take k (pcap_record_bytes p)) st =
      Inl (if k < 16 then truncated_record_header else truncated_packet_payload, snd st)" for st
    by (subst replay_loop.simps) (simp add: read_partial_record [OF assms(2-4)])
  then have once: "replay_once F opt send_ok (Some (encode_file ps @ take k (pcap_record_bytes p))) =
      Inl (if k < 16 then truncated_record_header else truncated_packet_payload, snd (pass_result F opt ps))"
    using assms(1,5) by (simp add: replay_once_def encode_file_def read_captured_header replay_loop_append replay_records_result)
  have "iterations_target opt = 0 \<or> 0 < iterations_target opt" by (metis word_gt_0)
  then show ?thesis by (subst replay_iterations.simps) (simp add: once)
qed

subsection \<open>Restarting\<close>

text \<open>
  A write error ends the recording and its thread, but the thread object stays joinable: \<^verbatim>\<open>start()\<close> without a \<^verbatim>\<open>stop()\<close> before it opens a
  file and then assigns to the joinable thread, which terminates the program; after \<^verbatim>\<open>stop()\<close> it starts a new recording.
\<close>

lemma restart_after_write_error:
  assumes inv: "rec_inv w old new cur acc" "pw_thread w = WHave p" "pw_joinable w" "pc_enabled (pw_config w)"
    and err: "\<not> io_write_good io" "pw_file_size w + word_of_nat (kPcapRecordHeaderSize + length (snd p)) \<le> max_file_size_bytes w" "io_final_rename_ok io"
    and io': "io_ok (pw_config w) io'"
  shows "\<not> pw_recording (writer_step io w) \<and> pw_thread (writer_step io w) = WStopped \<and> pcap_start io' (writer_step io w) = None \<and>
    (\<exists>w'. pcap_start io' (pcap_stop ios ok (writer_step io w)) = Some (w', True))"
proof -
  let ?w = "w\<lparr>pw_pending_record_size := word_of_nat (kPcapRecordHeaderSize + length (snd p)),
      pw_disk := append_disk (pw_temp_path w) (take (io_bytes_written io) (pcap_record_bytes p)) (pw_disk w)\<rparr>"
  have f: "file_inv w (old @ new) cur" using inv(1) by (simp add: rec_inv_def)
  have rot: "rotate_file_if_needed io (w\<lparr>pw_pending_record_size := word_of_nat (kPcapRecordHeaderSize + length (snd p))\<rparr>) =
      w\<lparr>pw_pending_record_size := word_of_nat (kPcapRecordHeaderSize + length (snd p))\<rparr>"
    using err(2) by (simp add: rotate_file_if_needed_def max_file_size_bytes_def del: of_nat_add)
  have step: "writer_step io w = finish_writer io (mark_write_error ?w)"
    using inv(2) f err(1) by (simp add: writer_step_def write_one_def rot Let_def file_inv_def del: of_nat_add)
  have s: "pw_config (writer_step io w) = pw_config w" "\<not> pw_recording (writer_step io w)" "pw_thread (writer_step io w) = WStopped"
      "pw_joinable (writer_step io w)" "\<not> pw_accepting (writer_step io w)"
    using inv(3) by (simp_all add: step finish_writer_def seal_same mark_write_error_def seal_config)
  have opened: "snd (open_new_file io' v)" "pw_joinable (fst (open_new_file io' v)) = pw_joinable v" if "pw_config v = pw_config w" for v
    using io' that by (simp_all add: open_new_file_def io_ok_def Let_def)
  have "pcap_start io' (writer_step io w) = None"
    using opened [OF s(1)] s inv(4) by (simp add: pcap_start_def case_prod_beta)
  moreover have stop: "pw_config (pcap_stop ios ok (writer_step io w)) = pw_config w" "\<not> pw_recording (pcap_stop ios ok (writer_step io w))"
      "\<not> pw_joinable (pcap_stop ios ok (writer_step io w))"
    using s writer_run_stopped [of "(writer_step io w)\<lparr>pw_accepting := False\<rparr>"]
    by (simp_all add: pcap_stop_def Let_def seal_same seal_config del: writer_run.simps add_2_eq_Suc')
  moreover have "\<exists>w'. pcap_start io' (pcap_stop ios ok (writer_step io w)) = Some (w', True)"
    using opened [OF stop(1)] stop inv(4) by (simp add: pcap_start_def case_prod_beta)
  ultimately show ?thesis using s by simp
qed

lemma sample_recording:
  "rec_inv (writer_step sample_io (write_packet (Some [7]) 5 (sample_started 1))) [] [] [] [(5, [7])]"
  "pw_thread (writer_step sample_io (write_packet (Some [7]) 5 (sample_started 1))) = WHave (5, [7])"
  "pw_joinable (writer_step sample_io (write_packet (Some [7]) 5 (sample_started 1)))"
  "pw_config (writer_step sample_io (write_packet (Some [7]) 5 (sample_started 1))) = sample_capture_config 1"
  "pw_file_size (writer_step sample_io (write_packet (Some [7]) 5 (sample_started 1))) = 24"
proof -
  let ?w = "pcap_writer_new (sample_capture_config 1) (\<lambda>path. None)"
  have "\<exists>w'. pcap_start sample_io ?w = Some (w', True) \<and> rec_inv w' [] [] [] [] \<and> pw_config w' = pw_config ?w \<and> pw_accepting w' \<and> pw_joinable w'"
    by (rule start_inv [OF new_writer_sealed]) (simp_all add: pcap_writer_new_def sample_io_ok, simp add: sample_capture_config_def)
  then have w: "rec_inv (sample_started 1) [] [] [] []" "pw_config (sample_started 1) = sample_capture_config 1" "pw_accepting (sample_started 1)"
      "pw_joinable (sample_started 1)" using sample_start(1) [of 1] by (auto simp: pcap_writer_new_def)
  have d: "ensure_directories (io_mkdir sample_io) (pc_spool_dir (sample_capture_config 1))" using sample_io_ok by (simp add: io_ok_def)
  have size: "pw_file_size (sample_started 1) = 24"
    using d by (simp add: sample_started_def pcap_start_def open_new_file_def Let_def pcap_writer_new_def sample_io_def kPcapGlobalHeaderSize_def,
      simp add: sample_capture_config_def)
  have t: "pw_pending (sample_started 1) = []" "pw_thread (sample_started 1) = WWait" using w(1) by (auto simp: rec_inv_def inflight_def split: writer_pc.splits)
  have e: "writer_step sample_io (write_packet (Some [7]) 5 (sample_started 1)) =
      (sample_started 1)\<lparr>pw_enqueued_packets := pw_enqueued_packets (sample_started 1) + 1, pw_pending := [], pw_thread := WHave (5, [7])\<rparr>"
    using w t by (simp add: writer_step_def write_packet_def passes_filters_def sample_capture_config_def)
  show "rec_inv (writer_step sample_io (write_packet (Some [7]) 5 (sample_started 1))) [] [] [] [(5, [7])]"
    "pw_thread (writer_step sample_io (write_packet (Some [7]) 5 (sample_started 1))) = WHave (5, [7])"
    "pw_joinable (writer_step sample_io (write_packet (Some [7]) 5 (sample_started 1)))"
    "pw_config (writer_step sample_io (write_packet (Some [7]) 5 (sample_started 1))) = sample_capture_config 1"
    "pw_file_size (writer_step sample_io (write_packet (Some [7]) 5 (sample_started 1))) = 24"
    using w t size by (simp_all add: e rec_inv_def inflight_def file_inv_update)
qed

end
