(* ===== verification/Pcap_Analyze.thy ===== *)
theory Pcap_Analyze
  imports Pcap_Reader Packet_Validation
begin

text \<open>
  The analysis of capture files (\<^verbatim>\<open>tools/pcap_analyze.cpp\<close>): packets, bytes and sources per type, sequence gaps and the delays between packets,
  reported as JSON.

  Correspondence.  A \<^verbatim>\<open>std::map\<close> with string keys is the list of its entries in key order.  Double arithmetic is the argument \<open>fpu\<close>, with the
  conversion to \<^verbatim>\<open>size_t\<close> and the fixed six-digit format as further arguments.  The readers are those of \<^verbatim>\<open>Pcap_Reader\<close>.
\<close>

record TypeCounter =
  tc_packets :: u64
  tc_bytes :: u64

record DelayStats =
  ds_min :: f64
  ds_max :: f64
  ds_mean :: f64
  ds_p50 :: f64
  ds_p99 :: f64

record Report =
  rp_file :: string
  rp_total_packets :: u64
  rp_total_bytes :: u64
  rp_duration_seconds :: f64
  rp_packet_types :: "(string \<times> u64) list"
  rp_packet_type_bytes :: "(string \<times> u64) list"
  rp_source_ids :: "(string \<times> u64) list"
  rp_sequence_gaps :: u64
  rp_sequence_wraparounds :: u64
  rp_invalid_packets :: u64
  rp_inter_packet_delay_ms :: DelayStats

definition zero_delay_stats :: DelayStats where
  "zero_delay_stats = \<lparr>ds_min = 0, ds_max = 0, ds_mean = 0, ds_p50 = 0, ds_p99 = 0\<rparr>"

definition empty_report :: Report where
  "empty_report = \<lparr>rp_file = [], rp_total_packets = 0, rp_total_bytes = 0, rp_duration_seconds = 0, rp_packet_types = [], rp_packet_type_bytes = [],
     rp_source_ids = [], rp_sequence_gaps = 0, rp_sequence_wraparounds = 0, rp_invalid_packets = 0, rp_inter_packet_delay_ms = zero_delay_stats\<rparr>"

subsection \<open>Ordered maps with string keys\<close>

fun str_less :: "string \<Rightarrow> string \<Rightarrow> bool" where
  "str_less xs [] = False"
| "str_less [] (y # ys) = True"
| "str_less (x # xs) (y # ys) = (if x = y then str_less xs ys else (of_char x :: nat) < of_char y)"

text \<open>\<^verbatim>\<open>f(m[k])\<close>: the entry is created with the value \<open>d\<close> when it is missing.\<close>

fun om_adjust :: "string \<Rightarrow> ('v \<Rightarrow> 'v) \<Rightarrow> 'v \<Rightarrow> (string \<times> 'v) list \<Rightarrow> (string \<times> 'v) list" where
  "om_adjust k f d [] = [(k, f d)]"
| "om_adjust k f d ((k', v) # m) =
     (if k = k' then (k, f v) # m else if str_less k k' then (k, f d) # (k', v) # m else (k', v) # om_adjust k f d m)"

subsection \<open>Labels\<close>

definition hex_digit :: "nat \<Rightarrow> char" where
  "hex_digit d = (if d < 10 then char_of (48 + d) else char_of (55 + d))"

definition hex2 :: "u8 \<Rightarrow> string" where
  "hex2 b = [hex_digit (unat b div 16), hex_digit (unat b mod 16)]"

definition packet_type_label :: "u8 \<Rightarrow> string" where
  "packet_type_label t =
     (case packet_type_of t of
        CONTROL \<Rightarrow> ''CONTROL(0x01)''
      | ACK \<Rightarrow> ''ACK(0x02)''
      | DATA \<Rightarrow> ''DATA(0x03)''
      | HEARTBEAT \<Rightarrow> ''HEARTBEAT(0x04)''
      | RMA \<Rightarrow> ''RMA(0xFF)''
      | OTHER_TYPE b \<Rightarrow> ''UNKNOWN(0x'' @ hex2 t @ '')'')"

definition source_id_label :: "u8 \<Rightarrow> string" where
  "source_id_label s = ''0x'' @ hex2 s"

subsection \<open>Delays\<close>

definition percentile_sorted :: "fpu \<Rightarrow> (f64 \<Rightarrow> nat) \<Rightarrow> f64 list \<Rightarrow> f64 \<Rightarrow> f64" where
  "percentile_sorted F to_size srt p =
     (if srt = [] then 0
      else let pos = d_mul F p (d_of_size F (word_of_nat (length srt - 1)));
               idx = to_size pos;
               nxt = min (idx + 1) (length srt - 1);
               frac = d_sub F pos (d_of_size F (word_of_nat idx))
           in d_add F (d_mul F (srt ! idx) (d_sub F 0x3FF0000000000000 frac)) (d_mul F (srt ! nxt) frac))"

text \<open>\<^verbatim>\<open>std::sort\<close> orders by the value of the doubles.\<close>

definition compute_delay_stats :: "fpu \<Rightarrow> (f64 \<Rightarrow> nat) \<Rightarrow> f64 list \<Rightarrow> DelayStats" where
  "compute_delay_stats F to_size delays =
     (if delays = [] then zero_delay_stats
      else let srt = sort_key f64_rank delays in
        \<lparr>ds_min = hd srt, ds_max = last srt,
         ds_mean = d_div F (fold (\<lambda>v s. d_add F s v) srt 0) (d_of_size F (word_of_nat (length srt))),
         ds_p50 = percentile_sorted F to_size srt 0x3FE0000000000000,
         ds_p99 = percentile_sorted F to_size srt 0x3FEFAE147AE147AE\<rparr>)"

subsection \<open>The analysis\<close>

record analysis =
  an_report :: Report
  an_first_ts :: "f64 option"
  an_last_ts :: "f64 option"
  an_prev_ts :: "f64 option"
  an_prev_seq :: "u32 option"
  an_type_counters :: "(string \<times> TypeCounter) list"
  an_delays_ms :: "f64 list"

definition empty_analysis :: "Report \<Rightarrow> analysis" where
  "empty_analysis r = \<lparr>an_report = r, an_first_ts = None, an_last_ts = None, an_prev_ts = None, an_prev_seq = None, an_type_counters = [], an_delays_ms = []\<rparr>"

definition analyze_times :: "fpu \<Rightarrow> f64 \<Rightarrow> analysis \<Rightarrow> analysis" where
  "analyze_times F ts a =
     a\<lparr>an_first_ts := (case an_first_ts a of None \<Rightarrow> Some ts | t \<Rightarrow> t),
       an_delays_ms := (case an_prev_ts a of None \<Rightarrow> an_delays_ms a | Some prev \<Rightarrow> an_delays_ms a @ [d_mul F (d_sub F ts prev) 0x408F400000000000]),
       an_prev_ts := Some ts, an_last_ts := Some ts\<rparr>"

definition analyze_sequence :: "u32 option \<Rightarrow> u32 \<Rightarrow> Report \<Rightarrow> Report" where
  "analyze_sequence prev_seq seq r =
     (case prev_seq of
        None \<Rightarrow> r
      | Some prev \<Rightarrow>
         if prev > seq
         then if prev - seq > 0x80000000 then r\<lparr>rp_sequence_wraparounds := rp_sequence_wraparounds r + 1\<rparr> else r
         else if seq - prev > 1 then r\<lparr>rp_sequence_gaps := rp_sequence_gaps r + 1\<rparr> else r)"

definition analyze_record :: "fpu \<Rightarrow> PcapFormat \<Rightarrow> PcapRecord \<Rightarrow> analysis \<Rightarrow> analysis" where
  "analyze_record F fmt rcd a =
     (let a = analyze_times F (epoch_seconds F (timestamp_nanoseconds fmt) rcd) a;
          n = word_of_nat (length (rec_payload rcd));
          r = (an_report a)\<lparr>rp_total_packets := rp_total_packets (an_report a) + 1, rp_total_bytes := rp_total_bytes (an_report a) + n\<rparr>
      in case parse (Some (rec_payload rcd)) (length (rec_payload rcd)) of
           None \<Rightarrow> a\<lparr>an_report := r\<lparr>rp_invalid_packets := rp_invalid_packets r + 1\<rparr>\<rparr>
         | Some parsed \<Rightarrow>
             let h = header parsed;
                 r = r\<lparr>rp_source_ids := om_adjust (source_id_label (source_id h)) (\<lambda>v. v + 1) 0 (rp_source_ids r)\<rparr>
             in a\<lparr>an_type_counters := om_adjust (packet_type_label (packet_type h))
                    (\<lambda>c. c\<lparr>tc_packets := tc_packets c + 1, tc_bytes := tc_bytes c + n\<rparr>) \<lparr>tc_packets = 0, tc_bytes = 0\<rparr> (an_type_counters a),
                  an_report := analyze_sequence (an_prev_seq a) (sequence_number h) r,
                  an_prev_seq := Some (sequence_number h)\<rparr>)"

function analyze_loop :: "fpu \<Rightarrow> PcapFormat \<Rightarrow> bytes \<Rightarrow> analysis \<Rightarrow> pcap_error + analysis" where
  "analyze_loop F fmt ifs a =
     (case read_record ifs fmt of
        Inl e \<Rightarrow> Inl e
      | Inr None \<Rightarrow> Inr a
      | Inr (Some (rcd, rest)) \<Rightarrow> analyze_loop F fmt rest (analyze_record F fmt rcd a))"
  by pat_completeness auto
termination
  by (relation "measure (\<lambda>(F, fmt, ifs, a). length ifs)") (auto dest: read_record_shorter)

declare analyze_loop.simps [simp del]

definition finish_report :: "fpu \<Rightarrow> (f64 \<Rightarrow> nat) \<Rightarrow> string \<Rightarrow> analysis \<Rightarrow> Report" where
  "finish_report F to_size path a =
     (let r = an_report a in
      r\<lparr>rp_packet_types := fold (\<lambda>(k, v). om_adjust k (\<lambda>x. tc_packets v) 0) (an_type_counters a) (rp_packet_types r),
        rp_packet_type_bytes := fold (\<lambda>(k, v). om_adjust k (\<lambda>x. tc_bytes v) 0) (an_type_counters a) (rp_packet_type_bytes r),
        rp_duration_seconds := (case (an_first_ts a, an_last_ts a) of
           (Some t0, Some t1) \<Rightarrow> if f64_le t0 t1 then d_sub F t1 t0 else rp_duration_seconds r
         | _ \<Rightarrow> rp_duration_seconds r),
        rp_inter_packet_delay_ms := compute_delay_stats F to_size (an_delays_ms a),
        rp_file := path\<rparr>)"

text \<open>\<open>Inr None\<close> is the result \<^verbatim>\<open>false\<close>.\<close>

definition analyze_file :: "fpu \<Rightarrow> (f64 \<Rightarrow> nat) \<Rightarrow> string \<Rightarrow> bytes option \<Rightarrow> pcap_error + Report option" where
  "analyze_file F to_size path content =
     (case content of
        None \<Rightarrow> Inr None
      | Some bs \<Rightarrow>
         (case read_global_header bs of
            None \<Rightarrow> Inr None
          | Some (fmt, rest) \<Rightarrow> map_sum id (\<lambda>a. Some (finish_report F to_size path a)) (analyze_loop F fmt rest (empty_analysis empty_report))))"

subsection \<open>JSON\<close>

fun escape_json :: "string \<Rightarrow> string" where
  "escape_json [] = []"
| "escape_json (c # s) =
     (if c = CHR 0x5C then [CHR 0x5C, CHR 0x5C]
      else if c = CHR 0x22 then [CHR 0x5C, CHR 0x22]
      else if c = CHR 0x0A then [CHR 0x5C, CHR ''n'']
      else if c = CHR 0x0D then [CHR 0x5C, CHR ''r'']
      else if c = CHR 0x09 then [CHR 0x5C, CHR ''t'']
      else [c]) @ escape_json s"

fun json_entries :: "nat \<Rightarrow> (string \<times> u64) list \<Rightarrow> string" where
  "json_entries indent [] = []"
| "json_entries indent ((k, v) # m) =
     replicate indent (CHR '' '') @ [CHR 0x22] @ escape_json k @ [CHR 0x22] @ '': '' @ to_string (unat v) @ (if m = [] then [] else '','') @ [CHR 0x0A] @
     json_entries indent m"

definition append_json_map :: "(string \<times> u64) list \<Rightarrow> nat \<Rightarrow> string" where
  "append_json_map m indent =
     ''{'' @ (if m = [] then [] else [CHR 0x0A]) @ json_entries indent m @ (if m = [] then [] else replicate (indent - 2) (CHR '' '')) @ ''}''"

definition json_key :: "nat \<Rightarrow> string \<Rightarrow> string" where
  "json_key indent k = replicate indent (CHR '' '') @ [CHR 0x22] @ k @ [CHR 0x22] @ '': ''"

definition comma_nl :: string where "comma_nl = [CHR '','', CHR 0x0A]"

definition build_json :: "(f64 \<Rightarrow> string) \<Rightarrow> Report \<Rightarrow> string" where
  "build_json fixed6 r =
     [CHR ''{'', CHR 0x0A] @
     json_key 2 ''file'' @ [CHR 0x22] @ escape_json (rp_file r) @ [CHR 0x22] @ comma_nl @
     json_key 2 ''total_packets'' @ to_string (unat (rp_total_packets r)) @ comma_nl @
     json_key 2 ''total_bytes'' @ to_string (unat (rp_total_bytes r)) @ comma_nl @
     json_key 2 ''duration_seconds'' @ fixed6 (rp_duration_seconds r) @ comma_nl @
     json_key 2 ''packet_types'' @ append_json_map (rp_packet_types r) 4 @ comma_nl @
     json_key 2 ''packet_type_bytes'' @ append_json_map (rp_packet_type_bytes r) 4 @ comma_nl @
     json_key 2 ''source_ids'' @ append_json_map (rp_source_ids r) 4 @ comma_nl @
     json_key 2 ''sequence_gaps'' @ to_string (unat (rp_sequence_gaps r)) @ comma_nl @
     json_key 2 ''sequence_wraparounds'' @ to_string (unat (rp_sequence_wraparounds r)) @ comma_nl @
     json_key 2 ''invalid_packets'' @ to_string (unat (rp_invalid_packets r)) @ comma_nl @
     json_key 2 ''inter_packet_delay_ms'' @ [CHR ''{'', CHR 0x0A] @
     json_key 4 ''min'' @ fixed6 (ds_min (rp_inter_packet_delay_ms r)) @ comma_nl @
     json_key 4 ''max'' @ fixed6 (ds_max (rp_inter_packet_delay_ms r)) @ comma_nl @
     json_key 4 ''mean'' @ fixed6 (ds_mean (rp_inter_packet_delay_ms r)) @ comma_nl @
     json_key 4 ''p50'' @ fixed6 (ds_p50 (rp_inter_packet_delay_ms r)) @ comma_nl @
     json_key 4 ''p99'' @ fixed6 (ds_p99 (rp_inter_packet_delay_ms r)) @ [CHR 0x0A] @
     ''  }'' @ [CHR 0x0A] @ ''}'' @ [CHR 0x0A]"

subsection \<open>Facts on ordered maps\<close>

lemma str_less_irrefl [simp]: "\<not> str_less x x"
  by (induction x) auto

lemma str_less_trans: "str_less x y \<Longrightarrow> str_less y z \<Longrightarrow> str_less x z"
proof (induction x y arbitrary: z rule: str_less.induct)
  case (3 x xs y ys)
  then show ?case by (cases z) (auto split: if_splits)
qed (auto elim: str_less.elims)

lemma str_less_total: "str_less x y \<or> x = y \<or> str_less y x"
proof (induction x y rule: str_less.induct)
  case (1 xs)
  then show ?case by (cases xs) auto
next
  case (3 x xs y ys)
  then show ?case by (auto simp: not_less_iff_gr_or_eq)
qed auto

definition om_wf :: "(string \<times> 'v) list \<Rightarrow> bool" where
  "om_wf m \<longleftrightarrow> sorted_wrt str_less (map fst m)"

lemma om_adjust_keys: "fst ` set (om_adjust k f d m) = insert k (fst ` set m)"
  by (induction k f d m rule: om_adjust.induct) auto

lemma om_wf_adjust: "om_wf m \<Longrightarrow> om_wf (om_adjust k f d m)"
proof (induction k f d m rule: om_adjust.induct)
  case (2 k f d k' v m)
  have "\<forall>q \<in> fst ` set (om_adjust k f d m). str_less k' q" if "k \<noteq> k'" "\<not> str_less k k'"
    using 2(2) that str_less_total [of k k'] by (auto simp: om_adjust_keys om_wf_def)
  then show ?case using 2 str_less_trans [of k k'] by (auto simp: om_wf_def)
qed (simp add: om_wf_def)

lemma om_wf_missing: "om_wf ((k', v) # m) \<Longrightarrow> str_less k k' \<Longrightarrow> map_of m k = None"
  using str_less_trans [of k k'] by (fastforce simp: om_wf_def map_of_eq_None_iff)

lemma map_of_om_adjust:
  "om_wf m \<Longrightarrow> map_of (om_adjust k f d m) = (map_of m)(k \<mapsto> f (case map_of m k of Some v \<Rightarrow> v | None \<Rightarrow> d))"
proof (induction k f d m rule: om_adjust.induct)
  case (2 k f d k' v m)
  show ?case
  proof (cases "k = k' \<or> str_less k k'")
    case True
    then show ?thesis using om_wf_missing [OF 2(2), of k] by (auto simp: fun_eq_iff)
  next
    case False
    then show ?thesis using 2 by (auto simp: fun_eq_iff om_wf_def)
  qed
qed simp

lemma fold_om_set:
  assumes "distinct (map fst cs)" "om_wf m"
  shows "map_of (fold (\<lambda>(k, v). om_adjust k (\<lambda>x. g v) d) cs m) k = (case map_of cs k of Some v \<Rightarrow> Some (g v) | None \<Rightarrow> map_of m k)"
  using assms
proof (induction cs arbitrary: m)
  case (Cons c cs)
  obtain k0 v0 where c: "c = (k0, v0)" by (cases c)
  have "map_of cs k0 = None" using Cons.prems(1) c by (simp add: map_of_eq_None_iff)
  then show ?case using Cons by (simp add: c om_wf_adjust map_of_om_adjust split: option.splits)
qed simp

lemma om_wf_distinct: "om_wf m \<Longrightarrow> distinct (map fst m)"
  unfolding om_wf_def by (induction m) auto

subsection \<open>Labels are unambiguous\<close>

lemma hex_digit_inj: "a < 16 \<Longrightarrow> b < 16 \<Longrightarrow> hex_digit a = hex_digit b \<Longrightarrow> a = b"
proof -
  assume *: "a < 16" "b < 16" "hex_digit a = hex_digit b"
  have e: "of_char (hex_digit d) = (if d < 10 then 48 + d else 55 + d)" if "d < 16" for d
    using that by (simp add: hex_digit_def of_char_of)
  have "of_char (hex_digit a) = (of_char (hex_digit b) :: nat)" using *(3) by simp
  then show ?thesis using *(1,2) by (simp add: e split: if_splits)
qed

lemma hex2_inj: "hex2 a = hex2 b \<Longrightarrow> a = b"
proof -
  assume *: "hex2 a = hex2 b"
  have "unat x div 16 < 16" for x :: u8 using unsigned_less [of x, where 'a = nat] by simp
  then have "unat a div 16 = unat b div 16" "unat a mod 16 = unat b mod 16"
    using * hex_digit_inj [of "unat a div 16" "unat b div 16"] hex_digit_inj [of "unat a mod 16" "unat b mod 16"] by (auto simp: hex2_def)
  then have "unat a = unat b" by (metis div_mult_mod_eq)
  then show ?thesis by (rule word_unat_eq_iff [THEN iffD2])
qed

lemma source_id_label_inj: "source_id_label a = source_id_label b \<Longrightarrow> a = b"
  by (auto simp: source_id_label_def dest: hex2_inj)

lemma packet_type_label_inj: "packet_type_label a = packet_type_label b \<Longrightarrow> a = b"
  by (auto simp: packet_type_label_def packet_type_of_def dest: hex2_inj split: if_splits)

subsection \<open>Escaping\<close>

text \<open>The reading of a JSON string literal, for the escapes the tool writes.\<close>

fun unescape_json :: "string \<Rightarrow> string" where
  "unescape_json [] = []"
| "unescape_json [c] = [c]"
| "unescape_json (c # e # s) =
     (if c = CHR 0x5C
      then (if e = CHR ''n'' then CHR 0x0A else if e = CHR ''r'' then CHR 0x0D else if e = CHR ''t'' then CHR 0x09 else e) # unescape_json s
      else c # unescape_json (e # s))"

lemma unescape_cons: "c \<noteq> CHR 0x5C \<Longrightarrow> unescape_json (c # s) = c # unescape_json s"
  by (cases s) simp_all

lemma unescape_escape: "unescape_json (escape_json s) = s"
  by (induction s) (simp_all add: unescape_cons)

lemma escaped_quotes: "c \<in> set (escape_json s) \<Longrightarrow> c \<noteq> CHR 0x0A \<and> c \<noteq> CHR 0x0D \<and> c \<noteq> CHR 0x09"
  by (induction s) (auto split: if_splits)

subsection \<open>What the report says\<close>

text \<open>The headers of the packets that parse, with the lengths of the packets.\<close>

definition parsed_headers :: "PcapRecord list \<Rightarrow> (CommonHeader \<times> nat) list" where
  "parsed_headers rs = List.map_filter
     (\<lambda>r. map_option (\<lambda>p. (header p, length (rec_payload r))) (parse (Some (rec_payload r)) (length (rec_payload r)))) rs"

definition counted :: "nat \<Rightarrow> u64 option" where
  "counted n = (if n = 0 then None else Some (word_of_nat n))"

definition seq_gap :: "u32 \<Rightarrow> u32 \<Rightarrow> bool" where
  "seq_gap prev seq \<longleftrightarrow> prev \<le> seq \<and> 1 < seq - prev"

definition seq_wrap :: "u32 \<Rightarrow> u32 \<Rightarrow> bool" where
  "seq_wrap prev seq \<longleftrightarrow> seq < prev \<and> 0x80000000 < prev - seq"

definition consecutive :: "(u32 \<Rightarrow> u32 \<Rightarrow> bool) \<Rightarrow> (CommonHeader \<times> nat) list \<Rightarrow> u64" where
  "consecutive P hs = (let seqs = map (sequence_number \<circ> fst) hs in word_of_nat (length (filter (\<lambda>(a, b). P a b) (zip seqs (tl seqs)))))"

lemma parsed_headers_snoc:
  "parsed_headers (rs @ [r]) = parsed_headers rs @ (case parse (Some (rec_payload r)) (length (rec_payload r)) of
     None \<Rightarrow> [] | Some p \<Rightarrow> [(header p, length (rec_payload r))])"
  by (simp add: parsed_headers_def map_filter_def split: option.splits)

lemma zip_tl_snoc: "xs \<noteq> [] \<Longrightarrow> zip (xs @ [x]) (tl (xs @ [x])) = zip xs (tl xs) @ [(last xs, x)]"
proof (induction xs)
  case (Cons a xs)
  then show ?case by (cases xs) auto
qed simp

lemma consecutive_snoc:
  "consecutive P (hs @ [h]) = consecutive P hs + (if hs \<noteq> [] \<and> P (sequence_number (fst (last hs))) (sequence_number (fst h)) then 1 else 0)"
proof (cases "hs = []")
  case False
  then show ?thesis using zip_tl_snoc [of "map (sequence_number \<circ> fst) hs" "(sequence_number \<circ> fst) h"]
    by (simp add: consecutive_def Let_def last_map)
qed (simp add: consecutive_def)

definition counts_ok :: "PcapRecord list \<Rightarrow> analysis \<Rightarrow> bool" where
  "counts_ok rs a \<longleftrightarrow>
     (let r = an_report a; hs = parsed_headers rs in
      rp_total_packets r = word_of_nat (length rs) \<and> rp_total_bytes r = word_of_nat (sum_list (map (length \<circ> rec_payload) rs)) \<and>
      rp_invalid_packets r + word_of_nat (length hs) = word_of_nat (length rs) \<and>
      an_prev_seq a = (if hs = [] then None else Some (sequence_number (fst (last hs)))) \<and>
      rp_sequence_gaps r = consecutive seq_gap hs \<and> rp_sequence_wraparounds r = consecutive seq_wrap hs \<and>
      rp_packet_types r = [] \<and> rp_packet_type_bytes r = [])"

definition maps_ok :: "PcapRecord list \<Rightarrow> analysis \<Rightarrow> bool" where
  "maps_ok rs a \<longleftrightarrow>
     (let hs = parsed_headers rs in
      om_wf (an_type_counters a) \<and> om_wf (rp_source_ids (an_report a)) \<and>
      (\<forall>t. map_option tc_packets (map_of (an_type_counters a) (packet_type_label t)) = counted (length (filter (\<lambda>(h, n). packet_type h = t) hs))) \<and>
      (\<forall>s. map_of (rp_source_ids (an_report a)) (source_id_label s) = counted (length (filter (\<lambda>(h, n). source_id h = s) hs))))"

lemma counts_ok_step:
  assumes "counts_ok rs a"
  shows "counts_ok (rs @ [r]) (analyze_record F fmt r a)"
proof (cases "parse (Some (rec_payload r)) (length (rec_payload r))")
  case None
  then show ?thesis using assms
    by (simp add: counts_ok_def analyze_record_def analyze_times_def parsed_headers_snoc Let_def algebra_simps)
next
  case (Some p)
  have *: "seq_gap b c \<longleftrightarrow> \<not> c < b \<and> 1 < c - b" "seq_wrap b c \<longleftrightarrow> c < b \<and> 0x80000000 < b - c" for b c
    by (auto simp: seq_gap_def seq_wrap_def)
  show ?thesis using assms Some
    by (auto simp: counts_ok_def analyze_record_def analyze_times_def analyze_sequence_def parsed_headers_snoc consecutive_snoc Let_def * algebra_simps)
qed

lemma counted_default:
  "map_option tc_packets c = counted n \<Longrightarrow> tc_packets (case c of Some v \<Rightarrow> v | None \<Rightarrow> \<lparr>tc_packets = 0, tc_bytes = b\<rparr>) = word_of_nat n"
  "v = counted n \<Longrightarrow> (case v of Some v \<Rightarrow> v | None \<Rightarrow> 0) = (word_of_nat n :: u64)"
  by (auto simp: counted_def split: if_splits)

lemma counted_Suc: "counted (Suc n) = Some (word_of_nat n + 1)"
  by (simp add: counted_def add.commute)

lemma maps_ok_step:
  assumes "maps_ok rs a"
  shows "maps_ok (rs @ [r]) (analyze_record F fmt r a)"
proof (cases "parse (Some (rec_payload r)) (length (rec_payload r))")
  case None
  then show ?thesis using assms
    by (simp add: maps_ok_def analyze_record_def analyze_times_def parsed_headers_snoc Let_def)
next
  case (Some p)
  have s: "rp_source_ids (analyze_sequence q c x) = rp_source_ids x" for q c x by (simp add: analyze_sequence_def split: option.splits)
  have ne: "packet_type_label a = packet_type_label b \<longleftrightarrow> a = b" "source_id_label a = source_id_label b \<longleftrightarrow> a = b" for a b
    using packet_type_label_inj source_id_label_inj by blast+
  have wf: "om_wf (an_type_counters a)" "om_wf (rp_source_ids (an_report a))"
    and t: "map_option tc_packets (map_of (an_type_counters a) (packet_type_label t)) = counted (length (filter (\<lambda>(h, n). packet_type h = t) (parsed_headers rs)))"
    and i: "map_of (rp_source_ids (an_report a)) (source_id_label t) = counted (length (filter (\<lambda>(h, n). source_id h = t) (parsed_headers rs)))" for t
    using assms by (simp_all add: maps_ok_def Let_def)
  show ?thesis
    by (simp add: maps_ok_def analyze_record_def analyze_times_def parsed_headers_snoc Let_def Some s om_wf_adjust map_of_om_adjust wf ne t i
        counted_default(1) [OF t] counted_default(2) [OF refl] counted_Suc)
qed

lemma analyze_captured_records:
  assumes "\<forall>p \<in> set ps. readable p"
  shows "analyze_loop F capture_format (concat (map pcap_record_bytes ps)) a = Inr (fold (analyze_record F capture_format) (map captured_record ps) a)"
  using assms
proof (induction ps arbitrary: a)
  case Nil
  then show ?case by (subst analyze_loop.simps) (simp add: read_record_def)
next
  case (Cons p ps)
  then show ?case by (subst analyze_loop.simps) (simp add: read_captured_record)
qed

lemma analysis_ok: "counts_ok rs (fold (analyze_record F fmt) rs (empty_analysis empty_report)) \<and> maps_ok rs (fold (analyze_record F fmt) rs (empty_analysis empty_report))"
proof (induction rs rule: rev_induct)
  case Nil
  show ?case
    by (simp add: counts_ok_def maps_ok_def empty_analysis_def empty_report_def parsed_headers_def map_filter_def consecutive_def counted_def om_wf_def)
next
  case (snoc r rs)
  then show ?case by (simp add: counts_ok_step maps_ok_step)
qed

text \<open>
  C32: The report on a captured file is exact: it counts all packets and bytes, splits the packets into those the receiver's parser accepts and
  the invalid ones, gives for each packet type and for each source the number of accepted packets (no entry for none), and counts the pairs
  of consecutive accepted packets whose sequence number jumps forward, and those that wrap around.
\<close>

theorem analysis_report_exact:
  assumes "\<forall>p \<in> set ps. readable p"
  defines "hs \<equiv> parsed_headers (map captured_record ps)"
  shows "\<exists>r. analyze_file F to_size path (Some (encode_file ps)) = Inr (Some r) \<and>
    rp_total_packets r = word_of_nat (length ps) \<and> rp_total_bytes r = word_of_nat (sum_list (map (length \<circ> snd) ps)) \<and>
    rp_invalid_packets r + word_of_nat (length hs) = rp_total_packets r \<and>
    (\<forall>t. map_of (rp_packet_types r) (packet_type_label t) = counted (length (filter (\<lambda>(h, n). packet_type h = t) hs))) \<and>
    (\<forall>s. map_of (rp_source_ids r) (source_id_label s) = counted (length (filter (\<lambda>(h, n). source_id h = s) hs))) \<and>
    rp_sequence_gaps r = consecutive seq_gap hs \<and> rp_sequence_wraparounds r = consecutive seq_wrap hs"
proof -
  let ?a = "fold (analyze_record F capture_format) (map captured_record ps) (empty_analysis empty_report)"
  let ?r = "finish_report F to_size path ?a"
  have result: "analyze_file F to_size path (Some (encode_file ps)) = Inr (Some ?r)"
    using assms(1) by (simp add: analyze_file_def encode_file_def read_captured_header analyze_captured_records)
  have c: "counts_ok (map captured_record ps) ?a" and m: "maps_ok (map captured_record ps) ?a" using analysis_ok by blast+
  have bytes: "length \<circ> rec_payload \<circ> captured_record = length \<circ> snd" by (auto simp: captured_record_def fun_eq_iff)
  have "om_wf (an_type_counters ?a)" "an_report ?a = an_report ?a" "rp_packet_types (an_report ?a) = []"
    using c m by (simp_all add: counts_ok_def maps_ok_def Let_def)
  then have types: "map_of (rp_packet_types ?r) k = map_option tc_packets (map_of (an_type_counters ?a) k)" for k
    using fold_om_set [OF om_wf_distinct, of "an_type_counters ?a" "[]" tc_packets 0 k]
    by (simp add: finish_report_def Let_def om_wf_def split: option.splits)
  show ?thesis
    using c m by (intro exI [of _ ?r] conjI result) (simp_all add: types counts_ok_def maps_ok_def hs_def Let_def bytes, simp_all add: finish_report_def Let_def bytes)
qed

theorem analysis_report_exact_witness:
  "\<exists>r. analyze_file sample_fpu (\<lambda>x. 0) ''a.pcap'' (Some (encode_file [(5, sample_datagram 3 [1]), (6, [1, 2]), (7, sample_datagram 3 [])])) = Inr (Some r) \<and>
     rp_total_packets r = 3 \<and> map_of (rp_packet_types r) ''DATA(0x03)'' = Some 2 \<and> rp_invalid_packets r = 1"
proof -
  let ?ps = "[(5, sample_datagram 3 [1]), (6, [1, 2]), (7, sample_datagram 3 [])] :: PendingPacket list"
  have len: "length (sample_datagram t pl) = 32 + length pl" for t pl by (simp add: sample_datagram_def sample_header_def wf_common_def zero_common_def length_encode_common)
  have "sample_datagram t pl \<noteq> []" for t pl using len [of t pl] by force
  then have rd: "\<forall>p \<in> set ?ps. readable p" by (simp add: readable_def len)
  have p1: "parse (Some (sample_datagram 3 pl)) (length (sample_datagram 3 pl)) =
      Some \<lparr>header = sample_header 3 (length pl), payload = Some pl, total_size = 32 + length pl\<rparr>" if "length pl \<le> 1" for pl
    using that by (intro parse_sample) (simp add: const_defs)
  have p2: "parse (Some [1, 2]) (Suc (Suc 0)) = None" by (simp add: parse_def const_defs)
  have hs: "parsed_headers (map captured_record ?ps) = [(sample_header 3 1, 33), (sample_header 3 0, 32)]"
    using p1 [of "[1]"] p1 [of "[]"] p2 by (simp add: parsed_headers_def map_filter_def captured_record_def len)
  have lab: "packet_type_label 3 = ''DATA(0x03)''" by (simp add: packet_type_label_def packet_type_of_def)
  obtain r where r: "analyze_file sample_fpu (\<lambda>x. 0) ''a.pcap'' (Some (encode_file ?ps)) = Inr (Some r)" "rp_total_packets r = word_of_nat (length ?ps)"
      "rp_invalid_packets r + word_of_nat (length (parsed_headers (map captured_record ?ps))) = rp_total_packets r"
      "map_of (rp_packet_types r) (packet_type_label 3) = counted (length (filter (\<lambda>(h, n). packet_type h = 3) (parsed_headers (map captured_record ?ps))))"
    using analysis_report_exact [OF rd, of sample_fpu "\<lambda>x. 0" "''a.pcap''"] by blast
  have "rp_invalid_packets r = 1" using r(2,3) unfolding hs by (simp add: eq_diff_eq [symmetric])
  then show ?thesis using r(1,2,4) unfolding hs lab by (auto simp: sample_header_def counted_def)
qed

end
