(* ===== verification/Packet_Generator.thy ===== *)
theory Packet_Generator
  imports Packet_Validation Floating "HOL-Library.Sublist" "HOL-Library.Multiset"
begin

text \<open>
  The packet generator of the FPGA emulator (\<^verbatim>\<open>tools/fpga_emulator/packet_generator.cpp\<close>): single data packets, the fragments of a CPI,
  heartbeats, and the simulated loss and reordering.

  Correspondence.  The clock and the random numbers are arguments: \<open>clock\<close> by the number of the reading within a call, \<open>draw\<close> the
  values of \<^verbatim>\<open>drop_dist_\<close>, \<open>pick k lo hi\<close> the \<open>k\<close>-th value of \<^verbatim>\<open>uniform_int_distribution(lo, hi)\<close>.  \<open>None\<close> is a write beyond the
  end of the packet.
\<close>

record GeneratorConfig =
  gc_source_id :: u8
  gc_dest_id :: u8
  gc_cpi_frags :: u16
  gc_frag_payload_bytes :: nat
  gc_drop_rate :: f64
  gc_reorder_depth :: nat

record PacketGenerator =
  pg_config :: GeneratorConfig
  pg_next_sequence :: u32
  pg_next_frame_counter :: u32
  pg_next_cpi_count :: u32
  pg_cpi_since_heartbeat :: u32

definition default_generator_config :: GeneratorConfig where
  "default_generator_config = \<lparr>gc_source_id = 0x11, gc_dest_id = 0x01, gc_cpi_frags = 128, gc_frag_payload_bytes = 1400, gc_drop_rate = 0,
     gc_reorder_depth = 0\<rparr>"

definition generator_new :: "GeneratorConfig \<Rightarrow> PacketGenerator" where
  "generator_new cfg = \<lparr>pg_config = cfg, pg_next_sequence = 1, pg_next_frame_counter = 1, pg_next_cpi_count = 1, pg_cpi_since_heartbeat = 0\<rparr>"

definition generator_legacy :: "nat \<Rightarrow> PacketGenerator" where
  "generator_legacy payload_bytes = generator_new (default_generator_config\<lparr>gc_source_id := 0x11, gc_dest_id := 0x01, gc_cpi_frags := 1,
     gc_frag_payload_bytes := (if payload_bytes < DATA_SPECIFIC_HEADER_SIZE then DATA_SPECIFIC_HEADER_SIZE else payload_bytes)\<rparr>)"

definition common_header_for :: "u64 \<Rightarrow> u16 \<Rightarrow> u8 \<Rightarrow> PacketGenerator \<Rightarrow> CommonHeader" where
  "common_header_for now plen ptype g = zero_common\<lparr>magic := PROTOCOL_MAGIC, sequence_number := pg_next_sequence g, timestamp := now,
     payload_len := plen, packet_type := ptype, protocol_version := PROTOCOL_VERSION, source_id := gc_source_id (pg_config g),
     dest_id := gc_dest_id (pg_config g), control_epoch := 1\<rparr>"

definition next_sequence :: "PacketGenerator \<Rightarrow> PacketGenerator" where
  "next_sequence g = g\<lparr>pg_next_sequence := pg_next_sequence g + 1\<rparr>"

definition append_crc32c :: "bytes \<Rightarrow> bytes" where
  "append_crc32c packet = packet @ bytes_le 4 (crc32c (Some packet) (length packet))"

definition zero_specific :: DataSpecificHeader where
  "zero_specific = \<lparr>frame_counter = 0, cpi_count = 0, pulse_index = 0, sample_offset = 0, sample_count = 0, data_timestamp = 0, health_summary = 0,
     reserved_health = 0, beam_id = 0, frag_index = 0, total_frags = 0, tail_frag_payload_bytes = 0\<rparr>"

subsection \<open>Single data packets\<close>

definition make_data_packet :: "(nat \<Rightarrow> u64) \<Rightarrow> PacketGenerator \<Rightarrow> (bytes \<times> PacketGenerator) option" where
  "make_data_packet clock g =
     (let n = gc_frag_payload_bytes (pg_config g);
          h = common_header_for (clock 0) (word_of_nat n) 0x03 g;
          s = set_channel_mask_data_type_compat 0x0001 0x00
                (zero_specific\<lparr>frame_counter := pg_next_frame_counter g, cpi_count := pg_next_frame_counter g, pulse_index := 0, sample_offset := 0,
                   sample_count := 256, data_timestamp := clock 1, health_summary := 0, beam_id := 1, frag_index := 0, total_frags := 1,
                   tail_frag_payload_bytes := word_of_nat n - word_of_nat DATA_SPECIFIC_HEADER_SIZE\<rparr>);
          g = (next_sequence g)\<lparr>pg_next_frame_counter := pg_next_frame_counter g + 1\<rparr>
      in if n < DATA_SPECIFIC_HEADER_SIZE then None
         else Some (encode_common h @ encode_specific s @
                map (\<lambda>i. ucast (word_of_nat i AND 0xFF :: u64)) [COMMON_HEADER_SIZE + DATA_SPECIFIC_HEADER_SIZE..<COMMON_HEADER_SIZE + n], g))"

subsection \<open>The fragments of a CPI\<close>

definition cpi_snapshot :: "u32 \<Rightarrow> ExecutionSnapshot" where
  "cpi_snapshot cpi = zero_snapshot\<lparr>work_freq_index := 1, azimuth_angle := ucast (cpi mod 3600)\<rparr>"

definition cpi_packet :: "u64 \<Rightarrow> u64 \<Rightarrow> u32 \<Rightarrow> u32 \<Rightarrow> u16 \<Rightarrow> PacketGenerator \<Rightarrow> bytes" where
  "cpi_packet now data_ts frame cpi frag_idx g =
     (let total = gc_cpi_frags (pg_config g);
          is_tail = (unat frag_idx + 1 = unat total);
          body_bytes = gc_frag_payload_bytes (pg_config g);
          snapshot_size = (if is_tail then EXECUTION_SNAPSHOT_SIZE else 0);
          plen = word_of_nat (DATA_SPECIFIC_HEADER_SIZE + snapshot_size + body_bytes);
          s = set_channel_mask_data_type_compat 0x0001 0x00
                (zero_specific\<lparr>frame_counter := frame, cpi_count := cpi, pulse_index := 0, sample_offset := ucast frag_idx * 256, sample_count := 256,
                   data_timestamp := data_ts, health_summary := 0, beam_id := 1, frag_index := frag_idx, total_frags := total,
                   tail_frag_payload_bytes := word_of_nat body_bytes\<rparr>)
      in append_crc32c (encode_common (common_header_for now plen 0x03 g) @ encode_specific s @
           (if is_tail then encode_snapshot (cpi_snapshot cpi) else []) @
           map (\<lambda>i. ucast ((ucast (cpi + ucast frag_idx) + word_of_nat i) AND 0xFF :: u64)) [0..<body_bytes]))"

fun cpi_loop :: "(nat \<Rightarrow> u64) \<Rightarrow> u64 \<Rightarrow> u32 \<Rightarrow> u32 \<Rightarrow> nat list \<Rightarrow> PacketGenerator \<Rightarrow> bytes list \<times> PacketGenerator" where
  "cpi_loop clock data_ts frame cpi [] g = ([], g)"
| "cpi_loop clock data_ts frame cpi (i # is) g =
     (case cpi_loop clock data_ts frame cpi is (next_sequence g) of (ps, g') \<Rightarrow> (cpi_packet (clock (i + 1)) data_ts frame cpi (word_of_nat i) g # ps, g'))"

definition make_cpi_packets :: "(nat \<Rightarrow> u64) \<Rightarrow> PacketGenerator \<Rightarrow> bytes list \<times> PacketGenerator" where
  "make_cpi_packets clock g =
     (case cpi_loop clock (clock 0) (pg_next_frame_counter g) (pg_next_cpi_count g) [0..<unat (gc_cpi_frags (pg_config g))]
             (g\<lparr>pg_next_frame_counter := pg_next_frame_counter g + 1, pg_next_cpi_count := pg_next_cpi_count g + 1\<rparr>) of
        (ps, g') \<Rightarrow> (ps, g'\<lparr>pg_cpi_since_heartbeat := pg_cpi_since_heartbeat g' + 1\<rparr>))"

subsection \<open>Heartbeats\<close>

text \<open>The bytes of a \<^verbatim>\<open>HeartbeatPayload\<close> before its checksum.\<close>

definition heartbeat_body :: bytes where
  "heartbeat_body = bytes_le 4 (1 :: u32) @ bytes_le 4 (0 :: u32) @ bytes_le 2 (45 :: u16) @ bytes_le 1 (1 :: u8) @ replicate 33 0"

definition make_heartbeat_packet :: "(nat \<Rightarrow> u64) \<Rightarrow> PacketGenerator \<Rightarrow> bytes \<times> PacketGenerator" where
  "make_heartbeat_packet clock g =
     (encode_common (common_header_for (clock 0) (word_of_nat HEARTBEAT_PAYLOAD_SIZE) 0x04 g) @
        heartbeat_body @ bytes_le 4 (crc32c (Some heartbeat_body) (HEARTBEAT_PAYLOAD_SIZE - 4)),
      (next_sequence g)\<lparr>pg_cpi_since_heartbeat := 0\<rparr>)"

subsection \<open>Impairments\<close>

fun drop_packets :: "(nat \<Rightarrow> f64) \<Rightarrow> f64 \<Rightarrow> nat \<Rightarrow> bytes list \<Rightarrow> bytes list" where
  "drop_packets draw rate k [] = []"
| "drop_packets draw rate k (p # ps) = (if f64_le rate (draw k) then [p] else []) @ drop_packets draw rate (k + 1) ps"

definition swap_at :: "nat \<Rightarrow> nat \<Rightarrow> 'a list \<Rightarrow> 'a list" where
  "swap_at i j xs = (if i \<noteq> j then xs[i := xs ! j, j := xs ! i] else xs)"

fun reorder_loop :: "(nat \<Rightarrow> nat \<Rightarrow> nat \<Rightarrow> nat) \<Rightarrow> nat \<Rightarrow> nat list \<Rightarrow> 'a list \<Rightarrow> 'a list" where
  "reorder_loop pick depth [] xs = xs"
| "reorder_loop pick depth (i # is) xs = reorder_loop pick depth is (swap_at i (pick i i (min (i + depth) (length xs) - 1)) xs)"

definition apply_impairments :: "(nat \<Rightarrow> f64) \<Rightarrow> (nat \<Rightarrow> nat \<Rightarrow> nat \<Rightarrow> nat) \<Rightarrow> GeneratorConfig \<Rightarrow> bytes list \<Rightarrow> bytes list" where
  "apply_impairments draw pick cfg packets =
     (let ps = (if f64_lt 0 (gc_drop_rate cfg) then drop_packets draw (gc_drop_rate cfg) 0 packets else packets)
      in if gc_reorder_depth cfg > 1 \<and> length ps > 1 then reorder_loop pick (gc_reorder_depth cfg) [0..<length ps] ps else ps)"

subsection \<open>What the receiver makes of the packets\<close>

lemma generated_header:
  "wf_common (common_header_for now n t g)" "is_valid_magic (common_header_for now n t g)" "is_valid_version (common_header_for now n t g)"
  "payload_len (common_header_for now n t g) = n" "packet_type (common_header_for now n t g) = t" "dest_id (common_header_for now n t g) = gc_dest_id (pg_config g)"
  "sequence_number (common_header_for now n t g) = pg_next_sequence g"
  by (simp_all add: common_header_for_def wf_common_def zero_common_def is_valid_magic_def is_valid_version_def get_major_version_def const_defs)

lemma length_generated_header [simp]: "length (encode_common (common_header_for now n t g)) = 32"
  by (rule length_encode_common [OF generated_header(1)])

lemma length_heartbeat_body [simp]: "length heartbeat_body = 44"
  by (simp add: heartbeat_body_def)

lemma generated_parses:
  assumes "length pl \<le> MAX_PAYLOAD_SIZE"
  shows "parse (Some (encode_common (common_header_for now (word_of_nat (length pl)) t g) @ pl)) (32 + length pl) =
    Some \<lparr>header = common_header_for now (word_of_nat (length pl)) t g, payload = Some pl, total_size = 32 + length pl\<rparr>"
proof -
  have "unat (word_of_nat (length pl) :: u16) = length pl" using assms by (simp add: unat_of_nat take_bit_nat_eq_self const_defs)
  then show ?thesis using parse_encoded [OF generated_header(1-3), of now "word_of_nat (length pl)" t g pl] assms
    by (simp add: generated_header const_defs)
qed

lemma generated_validates:
  assumes "length pl \<le> MAX_PAYLOAD_SIZE" "check_dest_id v (gc_dest_id (pg_config g))"
    and "t = 0x03 \<or> t = 0x04 \<and> scope v = DATA_AND_HEARTBEAT \<and> verify_heartbeat_crc (Some pl) (length pl)"
  shows "validate v \<lparr>header = common_header_for now (word_of_nat (length pl)) t g, payload = Some pl, total_size = 32 + length pl\<rparr> = VR_OK"
proof -
  have "unat (word_of_nat (length pl) :: u16) = length pl" using assms(1) by (simp add: unat_of_nat take_bit_nat_eq_self const_defs)
  then show ?thesis using assms(2,3)
    by (subst validate_parsed [OF generated_parses [OF assms(1)]])
      (auto simp: generated_header get_packet_type_def packet_type_of_def)
qed

lemma heartbeat_crc_verifies: "verify_heartbeat_crc (Some (heartbeat_body @ bytes_le 4 (crc32c (Some heartbeat_body) 44))) 48"
  by (simp add: verify_heartbeat_crc_def field_le_def crc32c_def const_defs)

text \<open>The payload of a data packet: its specific header and the pattern behind it.\<close>

definition data_specific :: "(nat \<Rightarrow> u64) \<Rightarrow> PacketGenerator \<Rightarrow> DataSpecificHeader" where
  "data_specific clock g = set_channel_mask_data_type_compat 0x0001 0x00
     (zero_specific\<lparr>frame_counter := pg_next_frame_counter g, cpi_count := pg_next_frame_counter g, pulse_index := 0, sample_offset := 0,
        sample_count := 256, data_timestamp := clock 1, health_summary := 0, beam_id := 1, frag_index := 0, total_frags := 1,
        tail_frag_payload_bytes := word_of_nat (gc_frag_payload_bytes (pg_config g)) - word_of_nat DATA_SPECIFIC_HEADER_SIZE\<rparr>)"

lemma data_specific_fields:
  "frame_counter (data_specific clock g) = pg_next_frame_counter g" "is_single_fragment (data_specific clock g)" "is_tail_fragment (data_specific clock g)"
  by (simp_all add: data_specific_def set_channel_mask_data_type_compat_def Let_def is_single_fragment_def is_tail_fragment_def)

lemma make_data_packet_shape:
  assumes "DATA_SPECIFIC_HEADER_SIZE \<le> gc_frag_payload_bytes (pg_config g)"
  obtains pl g' where "make_data_packet clock g = Some (encode_common (common_header_for (clock 0) (word_of_nat (length pl)) 0x03 g) @ pl, g')"
    "length pl = gc_frag_payload_bytes (pg_config g)" "decode_specific pl = data_specific clock g" "pg_next_sequence g' = pg_next_sequence g + 1"
proof -
  let ?n = "gc_frag_payload_bytes (pg_config g)"
  let ?pl = "encode_specific (data_specific clock g) @ map (\<lambda>i. ucast (word_of_nat i AND 0xFF :: u64)) [72..<32 + ?n] :: bytes"
  have n: "length ?pl = ?n" using assms by (simp add: const_defs)
  show ?thesis
  proof (rule that)
    show "make_data_packet clock g = Some (encode_common (common_header_for (clock 0) (word_of_nat (length ?pl)) 0x03 g) @ ?pl,
        (next_sequence g)\<lparr>pg_next_frame_counter := pg_next_frame_counter g + 1\<rparr>)"
      unfolding n using assms by (simp add: make_data_packet_def Let_def data_specific_def const_defs)
  qed (use n in \<open>simp_all add: next_sequence_def decode_encode_specific\<close>)
qed

text \<open>
  The receiver accepts what the generator produces for it: a data packet (payload from 40 bytes up to the maximum) parses, is valid for
  every receiver the destination fits and holds exactly the intended single fragment; a heartbeat is valid for every such
  receiver that takes heartbeats; both carry the generator's sequence number.
\<close>

lemma generated_packets_accepted:
  assumes size: "DATA_SPECIFIC_HEADER_SIZE \<le> gc_frag_payload_bytes (pg_config g)" "gc_frag_payload_bytes (pg_config g) \<le> MAX_PAYLOAD_SIZE"
    and dest: "check_dest_id v (gc_dest_id (pg_config g))" and sc: "scope v = DATA_AND_HEARTBEAT"
  shows "(\<exists>pkt g' p pl. make_data_packet clock g = Some (pkt, g') \<and> parse (Some pkt) (length pkt) = Some p \<and> validate v p = VR_OK \<and>
      payload p = Some pl \<and> is_single_fragment (decode_specific pl) \<and> is_tail_fragment (decode_specific pl) \<and>
      frame_counter (decode_specific pl) = pg_next_frame_counter g \<and> sequence_number (header p) = pg_next_sequence g \<and>
      pg_next_sequence g' = pg_next_sequence g + 1) \<and>
    (\<exists>p. parse (Some (fst (make_heartbeat_packet clock g))) (length (fst (make_heartbeat_packet clock g))) = Some p \<and>
      validate v p = VR_OK \<and> get_packet_type (header p) = HEARTBEAT \<and> sequence_number (header p) = pg_next_sequence g)"
proof (rule conjI)
  obtain pl g' where d: "make_data_packet clock g = Some (encode_common (common_header_for (clock 0) (word_of_nat (length pl)) 0x03 g) @ pl, g')"
      "length pl = gc_frag_payload_bytes (pg_config g)" "decode_specific pl = data_specific clock g" "pg_next_sequence g' = pg_next_sequence g + 1"
    by (rule make_data_packet_shape [OF size(1), of clock])
  let ?h = "common_header_for (clock 0) (word_of_nat (length pl)) 0x03 g"
  have n: "length pl \<le> MAX_PAYLOAD_SIZE" using d(2) size(2) by simp
  have "validate v \<lparr>header = ?h, payload = Some pl, total_size = 32 + length pl\<rparr> = VR_OK" by (rule generated_validates [OF n dest]) simp
  then show "\<exists>pkt g' p pl. make_data_packet clock g = Some (pkt, g') \<and> parse (Some pkt) (length pkt) = Some p \<and> validate v p = VR_OK \<and>
      payload p = Some pl \<and> is_single_fragment (decode_specific pl) \<and> is_tail_fragment (decode_specific pl) \<and>
      frame_counter (decode_specific pl) = pg_next_frame_counter g \<and> sequence_number (header p) = pg_next_sequence g \<and>
      pg_next_sequence g' = pg_next_sequence g + 1"
    using generated_parses [OF n, of "clock 0" 3 g] d
    by (intro exI [of _ "encode_common ?h @ pl"] exI [of _ g'] exI [of _ "\<lparr>header = ?h, payload = Some pl, total_size = 32 + length pl\<rparr>"] exI [of _ pl])
      (simp add: data_specific_fields generated_header)
next
  let ?pl = "heartbeat_body @ bytes_le 4 (crc32c (Some heartbeat_body) 44)"
  have n: "length ?pl = 48" "length ?pl \<le> MAX_PAYLOAD_SIZE" by (simp_all add: const_defs)
  let ?h = "common_header_for (clock 0) (word_of_nat (length ?pl)) 0x04 g"
  have "validate v \<lparr>header = ?h, payload = Some ?pl, total_size = 32 + length ?pl\<rparr> = VR_OK"
    by (rule generated_validates [OF n(2) dest]) (simp add: sc heartbeat_crc_verifies)
  then show "\<exists>p. parse (Some (fst (make_heartbeat_packet clock g))) (length (fst (make_heartbeat_packet clock g))) = Some p \<and>
      validate v p = VR_OK \<and> get_packet_type (header p) = HEARTBEAT \<and> sequence_number (header p) = pg_next_sequence g"
    using generated_parses [OF n(2), of "clock 0" 4 g]
    by (intro exI [of _ "\<lparr>header = ?h, payload = Some ?pl, total_size = 32 + length ?pl\<rparr>"])
      (simp add: make_heartbeat_packet_def HEARTBEAT_PAYLOAD_SIZE_def get_packet_type_def packet_type_of_def generated_header)
qed

subsection \<open>CPI packets\<close>

definition cpi_payload :: "u64 \<Rightarrow> u32 \<Rightarrow> u32 \<Rightarrow> u16 \<Rightarrow> PacketGenerator \<Rightarrow> bytes" where
  "cpi_payload data_ts frame cpi frag_idx g =
     encode_specific (set_channel_mask_data_type_compat 0x0001 0x00
       (zero_specific\<lparr>frame_counter := frame, cpi_count := cpi, pulse_index := 0, sample_offset := ucast frag_idx * 256, sample_count := 256,
          data_timestamp := data_ts, health_summary := 0, beam_id := 1, frag_index := frag_idx, total_frags := gc_cpi_frags (pg_config g),
          tail_frag_payload_bytes := word_of_nat (gc_frag_payload_bytes (pg_config g))\<rparr>)) @
     (if unat frag_idx + 1 = unat (gc_cpi_frags (pg_config g)) then encode_snapshot (cpi_snapshot cpi) else []) @
     map (\<lambda>i. ucast ((ucast (cpi + ucast frag_idx) + word_of_nat i) AND 0xFF :: u64)) [0..<gc_frag_payload_bytes (pg_config g)]"

lemma length_cpi_payload:
  "length (cpi_payload data_ts frame cpi frag_idx g) =
     DATA_SPECIFIC_HEADER_SIZE + (if unat frag_idx + 1 = unat (gc_cpi_frags (pg_config g)) then EXECUTION_SNAPSHOT_SIZE else 0) + gc_frag_payload_bytes (pg_config g)"
  by (simp add: cpi_payload_def const_defs len_simps)

lemma cpi_packet_eq:
  "cpi_packet now data_ts frame cpi frag_idx g =
     append_crc32c (encode_common (common_header_for now (word_of_nat (length (cpi_payload data_ts frame cpi frag_idx g))) 0x03 g) @
       cpi_payload data_ts frame cpi frag_idx g)"
  unfolding length_cpi_payload by (simp add: cpi_packet_def Let_def cpi_payload_def)

lemma cpi_packet_refused: "parse (Some (cpi_packet now data_ts frame cpi frag_idx g)) (length (cpi_packet now data_ts frame cpi frag_idx g)) = None"
proof -
  let ?pl = "cpi_payload data_ts frame cpi frag_idx g"
  let ?n = "word_of_nat (length ?pl) :: u16"
  have d: "decode_common (cpi_packet now data_ts frame cpi frag_idx g) = common_header_for now ?n 0x03 g"
    by (simp add: cpi_packet_eq append_crc32c_def decode_encode_common generated_header)
  have "unat ?n \<le> length ?pl" by (simp add: unat_of_nat take_bit_eq_mod)
  then have "\<not> basic_validation (common_header_for now ?n 0x03 g) (length (cpi_packet now data_ts frame cpi frag_idx g))"
    by (simp add: basic_validation_iff generated_header cpi_packet_eq append_crc32c_def const_defs)
  then show ?thesis by (simp add: parse_def d)
qed

lemma cpi_loop_packets:
  "length (fst (cpi_loop clock data_ts frame cpi is g)) = length is \<and>
   pg_config (snd (cpi_loop clock data_ts frame cpi is g)) = pg_config g \<and>
   (\<forall>p \<in> set (fst (cpi_loop clock data_ts frame cpi is g)). \<exists>now i g'. p = cpi_packet now data_ts frame cpi i g' \<and> pg_config g' = pg_config g)"
proof (induction "is" arbitrary: g)
  case (Cons i "is")
  have "pg_config (next_sequence g) = pg_config g" by (simp add: next_sequence_def)
  then show ?case using Cons [of "next_sequence g"] by (auto simp: case_prod_beta)
qed simp

lemma cpi_packets_shape:
  "length (fst (make_cpi_packets clock g)) = unat (gc_cpi_frags (pg_config g))"
  "p \<in> set (fst (make_cpi_packets clock g)) \<Longrightarrow>
     \<exists>now i g'. p = cpi_packet now (clock 0) (pg_next_frame_counter g) (pg_next_cpi_count g) i g' \<and> pg_config g' = pg_config g"
  using cpi_loop_packets [of clock "clock 0" "pg_next_frame_counter g" "pg_next_cpi_count g" "[0..<unat (gc_cpi_frags (pg_config g))]"
      "g\<lparr>pg_next_frame_counter := pg_next_frame_counter g + 1, pg_next_cpi_count := pg_next_cpi_count g + 1\<rparr>"]
  by (simp_all add: make_cpi_packets_def case_prod_beta)

text \<open>
  C26: The receiver refuses every packet of a generated CPI, because of the four bytes of checksum the generator appends behind the announced
  payload: the parser demands the exact length.  Without these bytes every one of the packets (of a size the protocol allows) is
  accepted as a valid data packet.
\<close>

theorem cpi_packets_refused:
  "length (fst (make_cpi_packets clock g)) = unat (gc_cpi_frags (pg_config g)) \<and>
   list_all (\<lambda>p. parse (Some p) (length p) = None) (fst (make_cpi_packets clock g)) \<and>
   (DATA_SPECIFIC_HEADER_SIZE + EXECUTION_SNAPSHOT_SIZE + gc_frag_payload_bytes (pg_config g) \<le> MAX_PAYLOAD_SIZE \<and> check_dest_id v (gc_dest_id (pg_config g)) \<longrightarrow>
    list_all (\<lambda>p. \<exists>q. parse (Some (take (length p - 4) p)) (length p - 4) = Some q \<and> validate v q = VR_OK) (fst (make_cpi_packets clock g)))"
proof (intro conjI impI)
  show "length (fst (make_cpi_packets clock g)) = unat (gc_cpi_frags (pg_config g))" by (rule cpi_packets_shape)
  show "list_all (\<lambda>p. parse (Some p) (length p) = None) (fst (make_cpi_packets clock g))"
    using cpi_packets_shape(2) [of _ clock g] cpi_packet_refused by (fastforce simp: list_all_iff)
next
  assume *: "DATA_SPECIFIC_HEADER_SIZE + EXECUTION_SNAPSHOT_SIZE + gc_frag_payload_bytes (pg_config g) \<le> MAX_PAYLOAD_SIZE \<and> check_dest_id v (gc_dest_id (pg_config g))"
  show "list_all (\<lambda>p. \<exists>q. parse (Some (take (length p - 4) p)) (length p - 4) = Some q \<and> validate v q = VR_OK) (fst (make_cpi_packets clock g))"
    unfolding list_all_iff
  proof
    fix p assume "p \<in> set (fst (make_cpi_packets clock g))"
    then obtain now i g' where p: "p = cpi_packet now (clock 0) (pg_next_frame_counter g) (pg_next_cpi_count g) i g'" and g': "pg_config g' = pg_config g"
      using cpi_packets_shape(2) [of p clock g] by blast
    let ?pl = "cpi_payload (clock 0) (pg_next_frame_counter g) (pg_next_cpi_count g) i g'"
    let ?h = "common_header_for now (word_of_nat (length ?pl)) 0x03 g'"
    have n: "length ?pl \<le> MAX_PAYLOAD_SIZE" using * by (simp add: length_cpi_payload g' split: if_splits)
    have "take (length p - 4) p = encode_common ?h @ ?pl" "length p - 4 = 32 + length ?pl" by (simp_all add: p cpi_packet_eq append_crc32c_def)
    then show "\<exists>q. parse (Some (take (length p - 4) p)) (length p - 4) = Some q \<and> validate v q = VR_OK"
      using generated_parses [OF n, of now 3 g'] generated_validates [OF n, of v g' 3 now] * g' by simp
  qed
qed

theorem cpi_packets_refused_witness:
  "list_all (\<lambda>p. parse (Some p) (length p) = None) (fst (make_cpi_packets (\<lambda>k. 0) (generator_new default_generator_config))) \<and>
   list_all (\<lambda>p. \<exists>q. parse (Some (take (length p - 4) p)) (length p - 4) = Some q \<and> validate \<lparr>local_device_id = 1, scope = DATA_PLANE_ONLY\<rparr> q = VR_OK)
     (fst (make_cpi_packets (\<lambda>k. 0) (generator_new default_generator_config)))"
  using cpi_packets_refused [of "\<lambda>k. 0" "generator_new default_generator_config" "\<lparr>local_device_id = 1, scope = DATA_PLANE_ONLY\<rparr>"]
  by (simp add: default_generator_config_def generator_new_def check_dest_id_def const_defs)

subsection \<open>Loss and reordering\<close>

lemma drop_packets_subseq: "subseq (drop_packets draw rate k ps) ps"
  by (induction draw rate k ps rule: drop_packets.induct) auto

lemma swap_at_map: "i < length xs \<Longrightarrow> j < length xs \<Longrightarrow> swap_at i j (map f xs) = map f (swap_at i j xs)"
  by (simp add: swap_at_def map_update)

lemma length_swap_at [simp]: "length (swap_at i j xs) = length xs"
  by (simp add: swap_at_def)

lemma mset_swap_at: "i < length xs \<Longrightarrow> j < length xs \<Longrightarrow> mset (swap_at i j xs) = mset xs"
  by (simp add: swap_at_def mset_swap)

lemma swap_at_nth: "i < length xs \<Longrightarrow> j < length xs \<Longrightarrow> k < length xs \<Longrightarrow> swap_at i j xs ! k = (if k = i then xs ! j else if k = j then xs ! i else xs ! k)"
  by (auto simp: swap_at_def nth_list_update)

definition uniform_choice :: "(nat \<Rightarrow> nat \<Rightarrow> nat \<Rightarrow> nat) \<Rightarrow> bool" where
  "uniform_choice pick \<longleftrightarrow> (\<forall>k lo hi. lo \<le> hi \<longrightarrow> lo \<le> pick k lo hi \<and> pick k lo hi \<le> hi)"

definition window_pick :: "(nat \<Rightarrow> nat \<Rightarrow> nat \<Rightarrow> nat) \<Rightarrow> nat \<Rightarrow> nat \<Rightarrow> nat \<Rightarrow> nat" where
  "window_pick pick depth n i = pick i i (min (i + depth) n - 1)"

lemma window_pick_range:
  assumes "uniform_choice pick" "i < n" "0 < depth"
  shows "i \<le> window_pick pick depth n i" "window_pick pick depth n i < n" "window_pick pick depth n i < i + depth"
proof -
  have "i \<le> min (i + depth) n - 1" using assms by simp
  then have "i \<le> window_pick pick depth n i \<and> window_pick pick depth n i \<le> min (i + depth) n - 1"
    using assms(1) by (simp add: uniform_choice_def window_pick_def)
  then show "i \<le> window_pick pick depth n i" "window_pick pick depth n i < n" "window_pick pick depth n i < i + depth"
    using assms(2,3) by auto
qed

lemma reorder_map:
  assumes "uniform_choice pick" "0 < depth" "\<forall>i \<in> set is. i < length xs"
  shows "reorder_loop pick depth is (map f xs) = map f (reorder_loop pick depth is xs) \<and> mset (reorder_loop pick depth is xs) = mset xs"
  using assms(3)
proof (induction "is" arbitrary: xs)
  case (Cons i "is")
  let ?j = "pick i i (min (i + depth) (length xs) - 1)"
  have j: "?j < length xs" using window_pick_range(2) [OF assms(1) _ assms(2), of i "length xs"] Cons.prems by (simp add: window_pick_def)
  show ?case using Cons.IH [of "swap_at i ?j xs"] Cons.prems j by (simp add: swap_at_map mset_swap_at)
qed simp

text \<open>No packet overtakes more than \<open>depth - 1\<close> others: the invariant of the loop on the positions.\<close>

lemma reorder_bounded:
  assumes pick: "uniform_choice pick" "0 < depth" and "m \<le> n" "length ys = n"
    and "\<forall>k < n. if k < m then ys ! k < k + depth else ys ! k < m + depth \<or> ys ! k = k"
  shows "\<forall>k < n. reorder_loop pick depth [m..<n] ys ! k < k + depth"
  using assms(3-)
proof (induction "n - m" arbitrary: m ys)
  case 0
  then show ?case by simp
next
  case (Suc d)
  let ?j = "window_pick pick depth n m"
  have m: "m < n" and up: "[m..<n] = m # [Suc m..<n]" using Suc.hyps(2) by (simp_all add: upt_conv_Cons)
  note j = window_pick_range [OF pick(1) m pick(2)]
  have n: "length ys = n" by fact
  have "\<forall>k < n. if k < Suc m then swap_at m ?j ys ! k < k + depth else swap_at m ?j ys ! k < Suc m + depth \<or> swap_at m ?j ys ! k = k"
  proof (intro allI impI)
    fix k assume k: "k < n"
    have inv: "if i < m then ys ! i < i + depth else ys ! i < m + depth \<or> ys ! i = i" if "i < n" for i using Suc.prems(3) that by blast
    show "if k < Suc m then swap_at m ?j ys ! k < k + depth else swap_at m ?j ys ! k < Suc m + depth \<or> swap_at m ?j ys ! k = k"
      using inv [OF k] inv [OF m] inv [OF j(2)] j m k by (auto simp: swap_at_nth n split: if_splits)
  qed
  then show ?case using Suc.hyps(1) [of "Suc m" "swap_at m ?j ys"] Suc.hyps(2) m n unfolding up by (simp add: window_pick_def n)
qed



end
