(* ===== verification/Replay_Args.thy ===== *)
theory Replay_Args
  imports Pcap_Reader
begin

text \<open>
  The command lines of the capture tools (\<^verbatim>\<open>parse_target\<close>, \<^verbatim>\<open>parse_double\<close>, \<^verbatim>\<open>parse_uint64\<close> and \<^verbatim>\<open>parse_args\<close> of \<^verbatim>\<open>tools/pcap_replay.cpp\<close>,
  \<^verbatim>\<open>parse_args\<close> of \<^verbatim>\<open>tools/pcap_analyze.cpp\<close>).  The number parsers of the C library return the value and the text behind it; \<^verbatim>\<open>strtod\<close> is an
  argument.  \<open>None\<close> is the result \<^verbatim>\<open>false\<close>, after which \<^verbatim>\<open>main\<close> prints the usage and exits.
\<close>

definition is_digit :: "char \<Rightarrow> bool" where
  "is_digit c \<longleftrightarrow> 48 \<le> (of_char c :: nat) \<and> (of_char c :: nat) \<le> 57"

definition is_space :: "char \<Rightarrow> bool" where
  "is_space c \<longleftrightarrow> of_char c \<in> {32 :: nat, 9, 10, 11, 12, 13}"

definition strip_sign :: "string \<Rightarrow> bool \<times> string" where
  "strip_sign s = (case s of [] \<Rightarrow> (False, s) | c # cs \<Rightarrow> if c = CHR ''-'' then (True, cs) else if c = CHR ''+'' then (False, cs) else (False, s))"

text \<open>Sign, digits and the rest; the whole text is the rest when there are no digits.\<close>

definition scan_number :: "string \<Rightarrow> (bool \<times> nat) option \<times> string" where
  "scan_number text =
     (case strip_sign (dropWhile is_space text) of (neg, s) \<Rightarrow>
        let digits = takeWhile is_digit s in
        if digits = [] then (None, text) else (Some (neg, number_of digits 0), dropWhile is_digit s))"

definition strtol :: "string \<Rightarrow> int \<times> string" where
  "strtol text =
     (case scan_number text of
        (None, rest) \<Rightarrow> (0, rest)
      | (Some (neg, n), rest) \<Rightarrow> (if neg then max (- (2 ^ 63)) (- int n) else min (2 ^ 63 - 1) (int n), rest))"

definition strtoull :: "string \<Rightarrow> u64 \<times> string" where
  "strtoull text =
     (case scan_number text of
        (None, rest) \<Rightarrow> (0, rest)
      | (Some (neg, n), rest) \<Rightarrow> (if 2 ^ 64 \<le> n then 2 ^ 64 - 1 else if neg then - word_of_nat n else word_of_nat n, rest))"

definition parse_target :: "string \<Rightarrow> (string \<times> u16) option" where
  "parse_target text =
     (if CHR '':'' \<notin> set text then None
      else let port_text = rev (takeWhile (\<lambda>c. c \<noteq> CHR '':'') (rev text)); pos = length text - length port_text - 1 in
        if pos = 0 \<or> pos = length text - 1 then None
        else case strtol port_text of (parsed, rest) \<Rightarrow>
          if rest \<noteq> [] \<or> parsed < 1 \<or> 65535 < parsed then None else Some (take pos text, word_of_int parsed))"

definition parse_double :: "(string \<Rightarrow> f64 \<times> string) \<Rightarrow> string \<Rightarrow> f64 option" where
  "parse_double strtod text = (case strtod text of (value, rest) \<Rightarrow> if rest = [] then Some value else None)"

definition parse_uint64 :: "string \<Rightarrow> u64 option" where
  "parse_uint64 text = (case strtoull text of (value, rest) \<Rightarrow> if rest = [] then Some value else None)"

text \<open>The loop over the arguments behind the file name; \<^verbatim>\<open>i + 1 >= argc\<close> is the missing value of an option.\<close>

fun parse_replay_options :: "(string \<Rightarrow> f64 \<times> string) \<Rightarrow> string list \<Rightarrow> ReplayOptions \<Rightarrow> ReplayOptions option" where
  "parse_replay_options strtod [] opt = Some opt"
| "parse_replay_options strtod (arg # args) opt =
     (if arg = ''--target'' then
        (case args of [] \<Rightarrow> None
         | a # args \<Rightarrow> (case parse_target a of None \<Rightarrow> None
             | Some (ip, port) \<Rightarrow> parse_replay_options strtod args (opt\<lparr>ro_target_ip := ip, ro_target_port := port\<rparr>)))
      else if arg = ''--speed'' \<or> arg = ''--rate-multiplier'' then
        (case args of [] \<Rightarrow> None
         | a # args \<Rightarrow> (case parse_double strtod a of None \<Rightarrow> None
             | Some v \<Rightarrow> if f64_lt v 0 then None else parse_replay_options strtod args (opt\<lparr>ro_speed := v\<rparr>)))
      else if arg = ''--target-ip'' then
        (case args of [] \<Rightarrow> None | a # args \<Rightarrow> parse_replay_options strtod args (opt\<lparr>ro_target_ip := a\<rparr>))
      else if arg = ''--loop'' then parse_replay_options strtod args (opt\<lparr>ro_loop := True\<rparr>)
      else if arg = ''--count'' then
        (case args of [] \<Rightarrow> None
         | a # args \<Rightarrow> (case parse_uint64 a of None \<Rightarrow> None
             | Some n \<Rightarrow> if n = 0 then None else parse_replay_options strtod args (opt\<lparr>ro_count := Some n\<rparr>)))
      else if arg = ''--start-time'' then
        (case args of [] \<Rightarrow> None
         | a # args \<Rightarrow> (case parse_double strtod a of None \<Rightarrow> None
             | Some t \<Rightarrow> parse_replay_options strtod args (opt\<lparr>ro_start_time_epoch := Some t\<rparr>)))
      else if arg = ''--end-time'' then
        (case args of [] \<Rightarrow> None
         | a # args \<Rightarrow> (case parse_double strtod a of None \<Rightarrow> None
             | Some t \<Rightarrow> parse_replay_options strtod args (opt\<lparr>ro_end_time_epoch := Some t\<rparr>)))
      else None)"

definition default_replay_options :: ReplayOptions where
  "default_replay_options = \<lparr>ro_pcap_file = [], ro_target_ip = ''127.0.0.1'', ro_target_port = 9999, ro_speed = 0x3FF0000000000000, ro_loop = False,
     ro_count = None, ro_start_time_epoch = None, ro_end_time_epoch = None\<rparr>"

text \<open>\<open>argv\<close> without the program name.\<close>

definition parse_replay_args :: "(string \<Rightarrow> f64 \<times> string) \<Rightarrow> string list \<Rightarrow> ReplayOptions option" where
  "parse_replay_args strtod argv =
     (case argv of
        [] \<Rightarrow> None
      | path # args \<Rightarrow>
         (case parse_replay_options strtod args (default_replay_options\<lparr>ro_pcap_file := path\<rparr>) of
            None \<Rightarrow> None
          | Some opt \<Rightarrow>
             (case (ro_start_time_epoch opt, ro_end_time_epoch opt) of
                (Some t0, Some t1) \<Rightarrow> if f64_lt t1 t0 then None else Some opt
              | _ \<Rightarrow> Some opt)))"

fun parse_analyze_options :: "string list \<Rightarrow> string option \<Rightarrow> string option option" where
  "parse_analyze_options [] output_json = Some output_json"
| "parse_analyze_options (arg # args) output_json =
     (if arg = ''--output'' then (case args of [] \<Rightarrow> None | a # args \<Rightarrow> parse_analyze_options args (Some a)) else None)"

definition parse_analyze_args :: "string list \<Rightarrow> (string \<times> string option) option" where
  "parse_analyze_args argv = (case argv of [] \<Rightarrow> None | path # args \<Rightarrow> map_option (Pair path) (parse_analyze_options args None))"

subsection \<open>Targets\<close>

lemma to_string_all_digits: "list_all is_digit (to_string n)"
  using to_string_digits [of _ n] by (auto simp: list_all_iff is_digit_def less_Suc_eq_le [symmetric])

lemma to_string_not_empty: "to_string n \<noteq> []"
  by (subst to_string.simps) simp

lemma digit_facts: "is_digit c \<Longrightarrow> \<not> is_space c \<and> c \<noteq> CHR ''-'' \<and> c \<noteq> CHR ''+'' \<and> c \<noteq> CHR '':''"
  by (auto simp: is_digit_def is_space_def)

lemma scan_to_string: "scan_number (to_string n) = (Some (False, n), [])"
proof -
  obtain c cs where s: "to_string n = c # cs" using to_string_not_empty by (cases "to_string n") auto
  have d: "\<forall>x \<in> set (c # cs). is_digit x" using to_string_all_digits [of n] by (simp add: s list_all_iff)
  then have c: "\<not> is_space c" "c \<noteq> CHR ''-''" "c \<noteq> CHR ''+''" using digit_facts by auto
  have "takeWhile is_digit (c # cs) = c # cs" "dropWhile is_digit (c # cs) = []" using d by simp_all
  then show ?thesis using c number_of_to_string [of n] by (simp add: scan_number_def s strip_sign_def Let_def)
qed

lemma colon_not_in_number: "CHR '':'' \<notin> set (to_string n)"
  using to_string_all_digits [of n] digit_facts by (auto simp: list_all_iff)

lemma port_not_zero:
  assumes "1 \<le> x" "x \<le> 65535"
  shows "word_of_int x \<noteq> (0 :: u16)"
proof
  assume "word_of_int x = (0 :: u16)"
  then have "uint (word_of_int x :: u16) = 0" by simp
  then show False using assms by (simp add: uint_word_of_int_eq take_bit_eq_mod)
qed

text \<open>
  The target option of the replay: \<^verbatim>\<open>ip:port\<close> with a port between 1 and 65535 gives back the address and the port, whatever the address
  text contains (the last colon separates); every accepted text consists of a non-empty address, a colon and a port text, and the port is not 0.
\<close>

lemma parse_target_roundtrip:
  "(ip \<noteq> [] \<and> 1 \<le> p \<and> p \<le> 65535 \<longrightarrow> parse_target (ip @ '':'' @ to_string p) = Some (ip, word_of_nat p)) \<and>
   (parse_target text = Some (ip', q) \<longrightarrow> q \<noteq> 0 \<and> ip' \<noteq> [] \<and> (\<exists>rest. text = ip' @ '':'' @ rest \<and> CHR '':'' \<notin> set rest))"
proof (intro conjI impI)
  assume *: "ip \<noteq> [] \<and> 1 \<le> p \<and> p \<le> 65535"
  let ?t = "ip @ '':'' @ to_string p"
  have tw: "takeWhile (\<lambda>c. c \<noteq> CHR '':'') (rev (to_string p) @ CHR '':'' # rev ip) = rev (to_string p)"
    using colon_not_in_number [of p] takeWhile_append2 [of "rev (to_string p)" "\<lambda>c. c \<noteq> CHR '':''" "CHR '':'' # rev ip"] by fastforce
  show "parse_target ?t = Some (ip, word_of_nat p)"
    using * to_string_not_empty [of p] by (simp add: parse_target_def tw strtol_def scan_to_string Let_def)
next
  assume *: "parse_target text = Some (ip', q)"
  let ?r = "takeWhile (\<lambda>c. c \<noteq> CHR '':'') (rev text)"
  have colon: "CHR '':'' \<in> set text" using * by (auto simp: parse_target_def split: if_splits)
  then have ne: "dropWhile (\<lambda>c. c \<noteq> CHR '':'') (rev text) \<noteq> []" by auto
  then have hd: "hd (dropWhile (\<lambda>c. c \<noteq> CHR '':'') (rev text)) = CHR '':''" using hd_dropWhile [OF ne] by simp
  obtain d where d: "dropWhile (\<lambda>c. c \<noteq> CHR '':'') (rev text) = CHR '':'' # d" using ne hd by (metis list.collapse)
  have "rev text = ?r @ CHR '':'' # d" using d takeWhile_dropWhile_id [of "\<lambda>c. c \<noteq> CHR '':''" "rev text"] by metis
  then have whole: "text = rev d @ '':'' @ rev ?r" by (metis append_Cons append_Nil append_assoc rev_append rev_rev_ident rev.simps(2))
  have no: "CHR '':'' \<notin> set (rev ?r)" by (auto dest: set_takeWhileD)
  have pos: "length text - length (rev ?r) - 1 = length d" using arg_cong [OF whole, of length] by simp
  have ip: "ip' = rev d \<and> d \<noteq> [] \<and> q \<noteq> 0"
    using * colon pos arg_cong [OF whole, of "take (length d)"]
    by (auto simp: parse_target_def Let_def not_less port_not_zero split: if_splits prod.splits)
  then show "q \<noteq> 0" "ip' \<noteq> []" "\<exists>rest. text = ip' @ '':'' @ rest \<and> CHR '':'' \<notin> set rest" using whole no by auto
qed

end
