(* ===== verification/Emulator.thy ===== *)
theory Emulator
  imports Packet_Generator Replay_Args
begin

text \<open>
  The senders and the command line of the FPGA emulator (\<^verbatim>\<open>tools/fpga_emulator/emulator_main.cpp\<close>).  A sender thread owns its generator and its
  counters; one iteration of its loop is a step, and the clock, the random numbers and the results of \<^verbatim>\<open>sendto\<close> are the arguments of the step.
  The datagrams handed to \<^verbatim>\<open>sendto\<close> are recorded.  Sockets, CPU affinity, pauses and the text of the report are not modelled.
\<close>

record EmulatorConfig =
  ec_target_ip :: string
  ec_target_port :: u16
  ec_bind_device :: string
  ec_bind_ips :: "string list"
  ec_cpu_list :: "int list"
  ec_cpi_frags :: u16
  ec_frame_rate :: f64
  ec_drop_rate :: f64
  ec_reorder_depth :: u64
  ec_duration_sec :: f64
  ec_arrays :: u64
  ec_frag_payload_bytes :: u64
  ec_heartbeat_interval_ms :: u32
  ec_pps :: f64
  ec_payload_bytes :: u64
  ec_threads :: u64
  ec_output_json :: string

definition default_emulator_config :: EmulatorConfig where
  "default_emulator_config = \<lparr>ec_target_ip = ''127.0.0.1'', ec_target_port = 9999, ec_bind_device = [], ec_bind_ips = [], ec_cpu_list = [], ec_cpi_frags = 128,
     ec_frame_rate = 0x4034000000000000, ec_drop_rate = 0, ec_reorder_depth = 0, ec_duration_sec = 0x404E000000000000, ec_arrays = 3,
     ec_frag_payload_bytes = 1400, ec_heartbeat_interval_ms = 1000, ec_pps = 0, ec_payload_bytes = 256, ec_threads = 1, ec_output_json = []\<rparr>"

subsection \<open>The command line\<close>

text \<open>\<^verbatim>\<open>end == s\<close>: nothing was converted, the rest is the whole text.\<close>

definition emu_parse_double :: "(string \<Rightarrow> f64 \<times> string) \<Rightarrow> string \<Rightarrow> f64 \<Rightarrow> f64" where
  "emu_parse_double strtod s fallback = (case strtod s of (value, rest) \<Rightarrow> if rest = s \<or> rest \<noteq> [] then fallback else value)"

definition parse_size :: "string \<Rightarrow> u64 \<Rightarrow> u64" where
  "parse_size s fallback = (case strtoull s of (value, rest) \<Rightarrow> if rest = s \<or> rest \<noteq> [] then fallback else value)"

definition parse_u16 :: "string \<Rightarrow> u16 \<Rightarrow> u16" where
  "parse_u16 s fallback = (let v = parse_size s (ucast fallback) in if v > 65535 then fallback else ucast v)"

text \<open>\<^verbatim>\<open>std::getline\<close> with a comma: a text that ends with a comma has no empty last token.\<close>

function getline_tokens :: "string \<Rightarrow> string list" where
  "getline_tokens s =
     (if s = [] then []
      else takeWhile (\<lambda>c. c \<noteq> CHR '','') s # getline_tokens (drop (Suc (length (takeWhile (\<lambda>c. c \<noteq> CHR '','') s))) s))"
  by pat_completeness auto
termination
  by (relation "measure length") auto

declare getline_tokens.simps [simp del]

fun parse_cpu_tokens :: "string list \<Rightarrow> int list option" where
  "parse_cpu_tokens [] = Some []"
| "parse_cpu_tokens (t # ts) =
     (if t = [] then None
      else case strtol t of (value, rest) \<Rightarrow>
        if rest = t \<or> rest \<noteq> [] \<or> value < 0 then None
        else map_option (Cons (sint (word_of_int value :: 32 word))) (parse_cpu_tokens ts))"

definition parse_cpu_list :: "string \<Rightarrow> int list option" where
  "parse_cpu_list s = parse_cpu_tokens (getline_tokens s)"

datatype emulator_cli = CliExit nat | CliConfig EmulatorConfig

definition set_option :: "(string \<Rightarrow> f64 \<times> string) \<Rightarrow> string \<Rightarrow> string \<Rightarrow> EmulatorConfig \<Rightarrow> EmulatorConfig option" where
  "set_option strtod arg v cfg =
     (if arg = ''--target-ip'' then Some (cfg\<lparr>ec_target_ip := v\<rparr>)
      else if arg = ''--target-port'' then Some (cfg\<lparr>ec_target_port := parse_u16 v (ec_target_port cfg)\<rparr>)
      else if arg = ''--bind-ip'' then Some (cfg\<lparr>ec_bind_ips := ec_bind_ips cfg @ [v]\<rparr>)
      else if arg = ''--bind-device'' then Some (cfg\<lparr>ec_bind_device := v\<rparr>)
      else if arg = ''--cpu-list'' then map_option (\<lambda>cpus. cfg\<lparr>ec_cpu_list := cpus\<rparr>) (parse_cpu_list v)
      else if arg = ''--cpi-frags'' then Some (cfg\<lparr>ec_cpi_frags := parse_u16 v (ec_cpi_frags cfg)\<rparr>)
      else if arg = ''--frame-rate'' then Some (cfg\<lparr>ec_frame_rate := emu_parse_double strtod v (ec_frame_rate cfg)\<rparr>)
      else if arg = ''--drop-rate'' then Some (cfg\<lparr>ec_drop_rate := emu_parse_double strtod v (ec_drop_rate cfg)\<rparr>)
      else if arg = ''--reorder-depth'' then Some (cfg\<lparr>ec_reorder_depth := parse_size v (ec_reorder_depth cfg)\<rparr>)
      else if arg = ''--duration'' then Some (cfg\<lparr>ec_duration_sec := emu_parse_double strtod v (ec_duration_sec cfg)\<rparr>)
      else if arg = ''--arrays'' then Some (cfg\<lparr>ec_arrays := min 3 (max 1 (parse_size v (ec_arrays cfg)))\<rparr>)
      else if arg = ''--frag-payload'' then Some (cfg\<lparr>ec_frag_payload_bytes := parse_size v (ec_frag_payload_bytes cfg)\<rparr>)
      else if arg = ''--heartbeat-ms'' then Some (cfg\<lparr>ec_heartbeat_interval_ms := ucast (parse_size v (ucast (ec_heartbeat_interval_ms cfg)))\<rparr>)
      else if arg = ''--pps'' then Some (cfg\<lparr>ec_pps := emu_parse_double strtod v (ec_pps cfg)\<rparr>)
      else if arg = ''--payload-bytes'' then Some (cfg\<lparr>ec_payload_bytes := parse_size v (ec_payload_bytes cfg)\<rparr>)
      else if arg = ''--threads'' then Some (cfg\<lparr>ec_threads := max 1 (parse_size v (ec_threads cfg))\<rparr>)
      else if arg = ''--output'' then Some (cfg\<lparr>ec_output_json := v\<rparr>)
      else None)"

definition value_options :: "string list" where
  "value_options = [''--target-ip'', ''--target-port'', ''--bind-ip'', ''--bind-device'', ''--cpu-list'', ''--cpi-frags'', ''--frame-rate'', ''--drop-rate'',
     ''--reorder-depth'', ''--duration'', ''--arrays'', ''--frag-payload'', ''--heartbeat-ms'', ''--pps'', ''--payload-bytes'', ''--threads'', ''--output'']"

fun parse_emulator_options :: "(string \<Rightarrow> f64 \<times> string) \<Rightarrow> string list \<Rightarrow> EmulatorConfig \<Rightarrow> emulator_cli" where
  "parse_emulator_options strtod [] cfg = CliConfig (if ec_output_json cfg = [] then cfg\<lparr>ec_output_json := ''fpga_emulator_report.json''\<rparr> else cfg)"
| "parse_emulator_options strtod (arg # args) cfg =
     (if arg \<in> set value_options \<and> args \<noteq> [] then
        (case set_option strtod arg (hd args) cfg of None \<Rightarrow> CliExit 2 | Some cfg' \<Rightarrow> parse_emulator_options strtod (tl args) cfg')
      else if arg = ''--help'' then CliExit 0
      else CliExit 2)"

definition parse_emulator_args :: "(string \<Rightarrow> f64 \<times> string) \<Rightarrow> string list \<Rightarrow> emulator_cli" where
  "parse_emulator_args strtod argv = parse_emulator_options strtod argv default_emulator_config"

subsection \<open>The senders\<close>

record ArrayStats =
  as_packets_sent :: u64
  as_bytes_sent :: u64
  as_cpis_sent :: u64
  as_heartbeats_sent :: u64
  as_send_errors :: u64

record array_sender =
  ar_generator :: PacketGenerator
  ar_stats :: ArrayStats
  ar_sent :: "bytes list"

definition array_sender_new :: "EmulatorConfig \<Rightarrow> nat \<Rightarrow> array_sender" where
  "array_sender_new cfg array_index =
     \<lparr>ar_generator = generator_new \<lparr>gc_source_id = 0x11 + word_of_nat array_index, gc_dest_id = 0x01, gc_cpi_frags = ec_cpi_frags cfg,
        gc_frag_payload_bytes = unat (ec_frag_payload_bytes cfg), gc_drop_rate = ec_drop_rate cfg, gc_reorder_depth = unat (ec_reorder_depth cfg)\<rparr>,
      ar_stats = \<lparr>as_packets_sent = 0, as_bytes_sent = 0, as_cpis_sent = 0, as_heartbeats_sent = 0, as_send_errors = 0\<rparr>, ar_sent = []\<rparr>"

text \<open>One iteration: \<open>complete k\<close> says that the \<open>k\<close>-th call of \<^verbatim>\<open>sendto\<close> of the sender took the whole datagram, \<open>due\<close> that the heartbeat time has come.\<close>

definition send_fragment :: "(nat \<Rightarrow> bool) \<Rightarrow> bytes \<Rightarrow> array_sender \<Rightarrow> array_sender" where
  "send_fragment complete pkt a =
     (let st = ar_stats a in
      a\<lparr>ar_sent := ar_sent a @ [pkt],
        ar_stats := (if complete (length (ar_sent a))
          then st\<lparr>as_packets_sent := as_packets_sent st + 1, as_bytes_sent := as_bytes_sent st + word_of_nat (length pkt)\<rparr>
          else st\<lparr>as_send_errors := as_send_errors st + 1\<rparr>)\<rparr>)"

definition send_heartbeat :: "(nat \<Rightarrow> u64) \<Rightarrow> (nat \<Rightarrow> bool) \<Rightarrow> array_sender \<Rightarrow> array_sender" where
  "send_heartbeat clock complete a =
     (case make_heartbeat_packet clock (ar_generator a) of (hb, g) \<Rightarrow>
        let st = ar_stats a in
        a\<lparr>ar_generator := g, ar_sent := ar_sent a @ [hb],
          ar_stats := (if complete (length (ar_sent a)) then st\<lparr>as_heartbeats_sent := as_heartbeats_sent st + 1\<rparr> else st)\<rparr>)"

record array_answers =
  aa_clock :: "nat \<Rightarrow> u64"
  aa_hb_clock :: "nat \<Rightarrow> u64"
  aa_draw :: "nat \<Rightarrow> f64"
  aa_pick :: "nat \<Rightarrow> nat \<Rightarrow> nat \<Rightarrow> nat"
  aa_complete :: "nat \<Rightarrow> bool"
  aa_due :: bool

definition array_iteration :: "EmulatorConfig \<Rightarrow> array_answers \<Rightarrow> array_sender \<Rightarrow> array_sender" where
  "array_iteration cfg an a =
     (case make_cpi_packets (aa_clock an) (ar_generator a) of (packets, g) \<Rightarrow>
        let a = fold (send_fragment (aa_complete an)) (apply_impairments (aa_draw an) (aa_pick an) (pg_config g) packets) (a\<lparr>ar_generator := g\<rparr>);
            st = ar_stats a;
            a = a\<lparr>ar_stats := st\<lparr>as_cpis_sent := as_cpis_sent st + 1\<rparr>\<rparr>
        in if ec_heartbeat_interval_ms cfg > 0 \<and> aa_due an then send_heartbeat (aa_hb_clock an) (aa_complete an) a else a)"

fun run_array_sender :: "EmulatorConfig \<Rightarrow> array_answers list \<Rightarrow> array_sender \<Rightarrow> array_sender" where
  "run_array_sender cfg [] a = a"
| "run_array_sender cfg (an # ans) a = run_array_sender cfg ans (array_iteration cfg an a)"

record pps_sender =
  ps_generator :: PacketGenerator
  ps_sent_ok :: u64
  ps_send_fail :: u64
  ps_sent :: "bytes list"

text \<open>\<open>None\<close>: the packet does not hold its header.\<close>

definition pps_iteration :: "(nat \<Rightarrow> u64) \<Rightarrow> bool \<Rightarrow> pps_sender \<Rightarrow> pps_sender option" where
  "pps_iteration clock complete s =
     map_option (\<lambda>(packet, g). s\<lparr>ps_generator := g, ps_sent := ps_sent s @ [packet],
        ps_sent_ok := (if complete then ps_sent_ok s + 1 else ps_sent_ok s), ps_send_fail := (if complete then ps_send_fail s else ps_send_fail s + 1)\<rparr>)
       (make_data_packet clock (ps_generator s))"

definition emulator_exit_code :: "bool \<Rightarrow> ArrayStats list \<Rightarrow> nat" where
  "emulator_exit_code report_written stats =
     (if \<not> report_written then 1 else if fold (\<lambda>s t. t + as_send_errors s) stats 0 > 0 then 1 else 0)"

subsection \<open>The stream of a sender\<close>

definition refused :: "bytes \<Rightarrow> bool" where
  "refused p \<longleftrightarrow> parse (Some p) (length p) = None"

definition valid_heartbeat :: "Validator \<Rightarrow> bytes \<Rightarrow> bool" where
  "valid_heartbeat v p \<longleftrightarrow> (case parse (Some p) (length p) of None \<Rightarrow> False | Some q \<Rightarrow> get_packet_type (header q) = HEARTBEAT \<and> validate v q = VR_OK)"

definition stream_inv :: "Validator \<Rightarrow> nat \<Rightarrow> array_sender \<Rightarrow> bool" where
  "stream_inv v n a \<longleftrightarrow>
     gc_dest_id (pg_config (ar_generator a)) = 0x01 \<and> (\<forall>p \<in> set (ar_sent a). refused p \<or> valid_heartbeat v p) \<and>
     as_packets_sent (ar_stats a) + as_send_errors (ar_stats a) = word_of_nat (length (filter refused (ar_sent a))) \<and>
     as_cpis_sent (ar_stats a) = word_of_nat n"

lemma impaired_subset:
  assumes "uniform_choice pick"
  shows "set (apply_impairments draw pick cfg packets) \<subseteq> set packets"
proof -
  let ?kept = "if f64_lt 0 (gc_drop_rate cfg) then drop_packets draw (gc_drop_rate cfg) 0 packets else packets"
  have "set (reorder_loop pick (gc_reorder_depth cfg) [0..<length ps] ps) = set ps" if "1 < gc_reorder_depth cfg" for ps :: "bytes list"
    using reorder_map [OF assms, of "gc_reorder_depth cfg" "[0..<length ps]" ps id] that by (intro mset_eq_setD) simp
  then have "set (apply_impairments draw pick cfg packets) = set ?kept" by (simp add: apply_impairments_def Let_def)
  then show ?thesis by (auto elim: list_emb_set [OF drop_packets_subseq] split: if_splits)
qed

lemma cpi_config: "pg_config (snd (make_cpi_packets clock g)) = pg_config g"
  using cpi_loop_packets [of clock "clock 0" "pg_next_frame_counter g" "pg_next_cpi_count g" "[0..<unat (gc_cpi_frags (pg_config g))]"
      "g\<lparr>pg_next_frame_counter := pg_next_frame_counter g + 1, pg_next_cpi_count := pg_next_cpi_count g + 1\<rparr>"]
  by (simp add: make_cpi_packets_def case_prod_beta)

lemma cpi_all_refused: "p \<in> set (fst (make_cpi_packets clock g)) \<Longrightarrow> refused p"
  using cpi_packets_shape(2) [of p clock g] cpi_packet_refused by (auto simp: refused_def)

lemma send_fragments_inv:
  assumes "stream_inv v n a" "\<forall>p \<in> set ps. refused p"
  shows "stream_inv v n (fold (send_fragment complete) ps a)"
  using assms
proof (induction ps arbitrary: a)
  case (Cons p ps)
  have "stream_inv v n (send_fragment complete p a)"
    using Cons.prems by (simp add: stream_inv_def send_fragment_def Let_def algebra_simps)
  then show ?case using Cons by simp
qed simp

lemma heartbeat_valid:
  assumes "check_dest_id v (gc_dest_id (pg_config g))" "scope v = DATA_AND_HEARTBEAT"
  shows "valid_heartbeat v (fst (make_heartbeat_packet clock g)) \<and> \<not> refused (fst (make_heartbeat_packet clock g))"
proof -
  let ?pl = "heartbeat_body @ bytes_le 4 (crc32c (Some heartbeat_body) 44)"
  let ?h = "common_header_for (clock 0) (word_of_nat (length ?pl)) 0x04 g"
  have n: "length ?pl = 48" "length ?pl \<le> MAX_PAYLOAD_SIZE" by (simp_all add: const_defs)
  have "validate v \<lparr>header = ?h, payload = Some ?pl, total_size = 32 + length ?pl\<rparr> = VR_OK"
    by (rule generated_validates [OF n(2) assms(1)]) (simp add: assms(2) heartbeat_crc_verifies)
  then show ?thesis using generated_parses [OF n(2), of "clock 0" 4 g]
    by (simp add: valid_heartbeat_def refused_def make_heartbeat_packet_def HEARTBEAT_PAYLOAD_SIZE_def get_packet_type_def packet_type_of_def generated_header)
qed

lemma array_iteration_inv:
  assumes inv: "stream_inv v n a" and pick: "uniform_choice (aa_pick an)" and v: "check_dest_id v 0x01" "scope v = DATA_AND_HEARTBEAT"
  shows "stream_inv v (Suc n) (array_iteration cfg an a)"
proof -
  obtain packets g where g: "make_cpi_packets (aa_clock an) (ar_generator a) = (packets, g)" by (cases "make_cpi_packets (aa_clock an) (ar_generator a)")
  let ?out = "apply_impairments (aa_draw an) (aa_pick an) (pg_config g) packets"
  have c: "pg_config g = pg_config (ar_generator a)" using cpi_config [of "aa_clock an" "ar_generator a"] by (simp add: g)
  have r: "\<forall>p \<in> set ?out. refused p"
    using impaired_subset [OF pick, of "aa_draw an" "pg_config g" packets] cpi_all_refused [of _ "aa_clock an" "ar_generator a"] by (auto simp: g)
  have "stream_inv v n (a\<lparr>ar_generator := g\<rparr>)" using inv c by (simp add: stream_inv_def)
  from send_fragments_inv [OF this r, of "aa_complete an"]
  have f: "stream_inv v n (fold (send_fragment (aa_complete an)) ?out (a\<lparr>ar_generator := g\<rparr>))" (is "stream_inv v n ?a") .
  have hb: "valid_heartbeat v (fst (make_heartbeat_packet clock (ar_generator ?a))) \<and> \<not> refused (fst (make_heartbeat_packet clock (ar_generator ?a)))" for clock
    using f v by (intro heartbeat_valid) (simp_all add: stream_inv_def)
  have hc: "pg_config (snd (make_heartbeat_packet clock g)) = pg_config g" for clock g by (simp add: make_heartbeat_packet_def next_sequence_def)
  show ?thesis using f hb hc
    by (simp add: array_iteration_def g send_heartbeat_def case_prod_beta Let_def) (auto simp: stream_inv_def)
qed

text \<open>
  The stream of an emulator in its default mode, whatever the losses, the reordering and the results of \<^verbatim>\<open>sendto\<close>: every datagram it hands to the
  socket is either refused by the receiver's parser or a heartbeat the receiver accepts, so no data packet is ever accepted; its
  counters count the data datagrams, sent or failed, and the CPIs exactly.
\<close>

lemma emulator_stream:
  fixes cfg :: EmulatorConfig and index :: nat
  assumes "list_all (\<lambda>an. uniform_choice (aa_pick an)) answers" "check_dest_id v 0x01" "scope v = DATA_AND_HEARTBEAT"
  defines "a \<equiv> run_array_sender cfg answers (array_sender_new cfg index)"
  shows "list_all (\<lambda>p. parse (Some p) (length p) = None \<or>
      (\<exists>q. parse (Some p) (length p) = Some q \<and> get_packet_type (header q) = HEARTBEAT \<and> validate v q = VR_OK)) (ar_sent a) \<and>
    as_packets_sent (ar_stats a) + as_send_errors (ar_stats a) = word_of_nat (length (filter (\<lambda>p. parse (Some p) (length p) = None) (ar_sent a))) \<and>
    as_cpis_sent (ar_stats a) = word_of_nat (length answers)"
proof -
  have "stream_inv v (n + length answers) (run_array_sender cfg answers b)" if "stream_inv v n b" for n b
    using assms(1) that
  proof (induction answers arbitrary: n b)
    case (Cons an ans)
    then show ?case using array_iteration_inv [OF Cons.prems(2) _ assms(2,3), of an cfg] Cons.IH [of "Suc n" "array_iteration cfg an b"] by simp
  qed simp
  moreover have "stream_inv v 0 (array_sender_new cfg index)" by (simp add: stream_inv_def array_sender_new_def generator_new_def)
  ultimately have "stream_inv v (0 + length answers) a" unfolding a_def by blast
  then show ?thesis by (auto simp: stream_inv_def refused_def [abs_def] valid_heartbeat_def list_all_iff split: option.splits)
qed

end
