(* ===== verification/Config.thy ===== *)
theory Config
  imports Replay_Args
begin

text \<open>
  The configuration of the receiver (\<^verbatim>\<open>src/m01_receiver/config/config_manager.cpp\<close>): its sections with their defaults, reading a YAML file,
  validation, and the manager that installs, reloads and announces configurations.

  Correspondence.  The YAML library is an argument: \<open>yaml\<close> is the interface the code uses of it, with \<open>None\<close> for a thrown \<^verbatim>\<open>YAML::Exception\<close>.
  A load that throws another exception (\<^verbatim>\<open>std::stoul\<close>) is \<open>Inl StoulError\<close>: \<^verbatim>\<open>load_from_file\<close> only catches \<^verbatim>\<open>YAML::Exception\<close>.
\<close>

subsection \<open>The sections\<close>

record NetworkSection =
  net_listen_port :: u16
  net_bind_ips :: "string list"
  net_bind_ip :: string
  net_interface :: string
  net_local_device_id :: u8
  net_recv_threads :: int
  net_recvmmsg_batch_size :: u64
  net_socket_rcvbuf_mb :: u64
  net_enable_so_reuseport :: bool
  net_enable_ip_freebind :: bool
  net_source_id_map :: "u8 list"
  net_cpu_affinity_map :: "int list"
  net_source_filter_enabled :: bool

record ReassemblySection =
  rsm_timeout_ms :: u32
  rsm_max_contexts :: u64
  rsm_max_total_frags :: u16
  rsm_sample_count_fixed :: u64
  rsm_max_reasm_bytes_per_key :: u64

record ReorderSection =
  rdr_window_size :: u64
  rdr_timeout_ms :: u32
  rdr_enable_zero_fill :: bool

record TimestampSection =
  tsp_apply_window_ms :: u32
  tsp_enable_check :: bool
  tsp_allow_unlocked_clock :: bool

record ControlReliabilitySection =
  crl_rto_ms :: u32
  crl_max_retry :: u32
  crl_dup_cmd_cache_size :: u64

record FlowControlSection =
  flw_max_buffer_size :: u64
  flw_high_watermark :: u64
  flw_low_watermark :: u64
  flw_policy :: string

record LoggingSection =
  lgg_level :: string
  lgg_log_file :: string

record MonitoringSection =
  mon_metrics_port :: u16
  mon_metrics_bind_ip :: string

record PerformanceSection =
  prf_numa_node :: int
  prf_reassembler_cache_align_bytes :: u64
  prf_prefetch_hints_enabled :: bool
  prf_qos_enabled :: bool
  prf_rma_session_timeout_ms :: u32
  prf_heartbeat_max_queue_depth :: u64
  prf_packet_pool_mb_per_face :: u64
  prf_recv_drain_rounds :: u64
  prf_processing_cpu_affinity_map :: "int list"

record DeliverySection =
  dlv_method :: string
  dlv_shm_name :: string
  dlv_shm_size_mb :: u64
  dlv_socket_path :: string
  dlv_reconnect_interval_ms :: u32

record CaptureSection =
  cap_enabled :: bool
  cap_spool_dir :: string
  cap_archive_dir :: string
  cap_spool_low_watermark_pct :: u32
  cap_archive_low_watermark_pct :: u32
  cap_archive_max_files :: u64
  cap_archive_max_age_days :: u32
  cap_max_file_size_mb :: u64
  cap_max_files :: u64
  cap_filter_packet_types :: "u8 list"
  cap_filter_source_ids :: "u8 list"

record QueueSection =
  que_rawcpi_q_capacity :: u64
  que_rawcpi_q_slot_size_mb :: u64

record ConsumerSection =
  con_print_summary :: bool
  con_write_to_file :: bool
  con_output_dir :: string
  con_stats_interval_ms :: u32

record ReceiverConfig =
  cfg_network :: NetworkSection
  cfg_reassembly :: ReassemblySection
  cfg_reorder :: ReorderSection
  cfg_timestamp :: TimestampSection
  cfg_control_reliability :: ControlReliabilitySection
  cfg_flow_control :: FlowControlSection
  cfg_logging :: LoggingSection
  cfg_monitoring :: MonitoringSection
  cfg_performance :: PerformanceSection
  cfg_delivery :: DeliverySection
  cfg_capture :: CaptureSection
  cfg_queue :: QueueSection
  cfg_consumer :: ConsumerSection

definition default_network :: NetworkSection where
  "default_network = \<lparr>net_listen_port = 9999, net_bind_ips = [], net_bind_ip = ''0.0.0.0'', net_interface = [], net_local_device_id = 0x01, net_recv_threads = 8,
     net_recvmmsg_batch_size = 64, net_socket_rcvbuf_mb = 256, net_enable_so_reuseport = True, net_enable_ip_freebind = False, net_source_id_map = [], net_cpu_affinity_map = [],
     net_source_filter_enabled = True\<rparr>"

definition default_reassembly :: ReassemblySection where
  "default_reassembly = \<lparr>rsm_timeout_ms = 100, rsm_max_contexts = 1024, rsm_max_total_frags = 1024, rsm_sample_count_fixed = 4096, rsm_max_reasm_bytes_per_key = 16 * 1024 * 1024\<rparr>"

definition default_reorder :: ReorderSection where
  "default_reorder = \<lparr>rdr_window_size = 512, rdr_timeout_ms = 50, rdr_enable_zero_fill = True\<rparr>"

definition default_timestamp :: TimestampSection where
  "default_timestamp = \<lparr>tsp_apply_window_ms = 5, tsp_enable_check = True, tsp_allow_unlocked_clock = True\<rparr>"

definition default_control_reliability :: ControlReliabilitySection where
  "default_control_reliability = \<lparr>crl_rto_ms = 2500, crl_max_retry = 3, crl_dup_cmd_cache_size = 1000\<rparr>"

definition default_flow_control :: FlowControlSection where
  "default_flow_control = \<lparr>flw_max_buffer_size = 1024, flw_high_watermark = 800, flw_low_watermark = 200, flw_policy = ''DROP_OLDEST''\<rparr>"

definition default_logging :: LoggingSection where
  "default_logging = \<lparr>lgg_level = ''INFO'', lgg_log_file = []\<rparr>"

definition default_monitoring :: MonitoringSection where
  "default_monitoring = \<lparr>mon_metrics_port = 8080, mon_metrics_bind_ip = ''0.0.0.0''\<rparr>"

definition default_performance :: PerformanceSection where
  "default_performance = \<lparr>prf_numa_node = 1, prf_reassembler_cache_align_bytes = 64, prf_prefetch_hints_enabled = True, prf_qos_enabled = True, prf_rma_session_timeout_ms = 30000, prf_heartbeat_max_queue_depth = 1000,
     prf_packet_pool_mb_per_face = 64, prf_recv_drain_rounds = 4, prf_processing_cpu_affinity_map = []\<rparr>"

definition default_delivery :: DeliverySection where
  "default_delivery = \<lparr>dlv_method = ''callback'', dlv_shm_name = ''/receiver_shm'', dlv_shm_size_mb = 64, dlv_socket_path = ''/tmp/tower_receiver.sock'', dlv_reconnect_interval_ms = 100\<rparr>"

definition default_capture :: CaptureSection where
  "default_capture = \<lparr>cap_enabled = False, cap_spool_dir = ''/var/spool/qdgz300/receiver'', cap_archive_dir = ''/data/qdgz300/receiver'', cap_spool_low_watermark_pct = 10, cap_archive_low_watermark_pct = 10, cap_archive_max_files = 256,
     cap_archive_max_age_days = 7, cap_max_file_size_mb = 1024, cap_max_files = 10, cap_filter_packet_types = [], cap_filter_source_ids = []\<rparr>"

definition default_queue :: QueueSection where
  "default_queue = \<lparr>que_rawcpi_q_capacity = 64, que_rawcpi_q_slot_size_mb = 2\<rparr>"

definition default_consumer :: ConsumerSection where
  "default_consumer = \<lparr>con_print_summary = True, con_write_to_file = False, con_output_dir = ''/tmp/receiver_rawblocks'', con_stats_interval_ms = 1000\<rparr>"

definition default_receiver_config :: ReceiverConfig where
  "default_receiver_config = \<lparr>cfg_network = default_network, cfg_reassembly = default_reassembly, cfg_reorder = default_reorder, cfg_timestamp = default_timestamp, cfg_control_reliability = default_control_reliability,
     cfg_flow_control = default_flow_control, cfg_logging = default_logging, cfg_monitoring = default_monitoring, cfg_performance = default_performance, cfg_delivery = default_delivery,
     cfg_capture = default_capture, cfg_queue = default_queue, cfg_consumer = default_consumer\<rparr>"

subsection \<open>Reading a file\<close>

record 'n yaml =
  y_load :: "string \<Rightarrow> 'n option"
  y_defined :: "'n \<Rightarrow> bool"
  y_sub :: "'n \<Rightarrow> string \<Rightarrow> 'n option"
  y_is_sequence :: "'n \<Rightarrow> bool"
  y_is_scalar :: "'n \<Rightarrow> bool"
  y_elements :: "'n \<Rightarrow> 'n list"
  y_u16 :: "'n \<Rightarrow> u16 option"
  y_u32 :: "'n \<Rightarrow> u32 option"
  y_size :: "'n \<Rightarrow> u64 option"
  y_int :: "'n \<Rightarrow> int option"
  y_bool :: "'n \<Rightarrow> bool option"
  y_string :: "'n \<Rightarrow> string option"

datatype config_error = YamlError | StoulError

definition thrown :: "config_error \<Rightarrow> 'a option \<Rightarrow> config_error + 'a" where
  "thrown e x = (case x of None \<Rightarrow> Inl e | Some v \<Rightarrow> Inr v)"

fun bind_result :: "config_error + 'a \<Rightarrow> ('a \<Rightarrow> config_error + 'b) \<Rightarrow> config_error + 'b" where
  "bind_result (Inl e) f = Inl e"
| "bind_result (Inr v) f = f v"

fun run_steps :: "('c \<Rightarrow> config_error + 'c) list \<Rightarrow> 'c \<Rightarrow> config_error + 'c" where
  "run_steps [] c = Inr c"
| "run_steps (f # fs) c = bind_result (f c) (run_steps fs)"

fun map_result :: "('a \<Rightarrow> config_error + 'b) \<Rightarrow> 'a list \<Rightarrow> config_error + 'b list" where
  "map_result f [] = Inr []"
| "map_result f (x # xs) = bind_result (f x) (\<lambda>y. bind_result (map_result f xs) (\<lambda>ys. Inr (y # ys)))"

text \<open>\<^verbatim>\<open>node && node[key]\<close> and then the value: the child when both are defined.\<close>

definition present :: "'n yaml \<Rightarrow> 'n \<Rightarrow> string \<Rightarrow> config_error + 'n option" where
  "present Y node key =
     (if \<not> y_defined Y node then Inr None
      else bind_result (thrown YamlError (y_sub Y node key)) (\<lambda>child. Inr (if y_defined Y child then Some child else None)))"

definition assign_if_present :: "'n yaml \<Rightarrow> 'n \<Rightarrow> string \<Rightarrow> ('n \<Rightarrow> 'a option) \<Rightarrow> ('a \<Rightarrow> 'c \<Rightarrow> 'c) \<Rightarrow> 'c \<Rightarrow> config_error + 'c" where
  "assign_if_present Y node key as upd c =
     bind_result (present Y node key) (\<lambda>child. case child of
        None \<Rightarrow> Inr c
      | Some v \<Rightarrow> bind_result (thrown YamlError (as v)) (\<lambda>x. Inr (upd x c)))"

definition assign_sequence_if_present :: "'n yaml \<Rightarrow> 'n \<Rightarrow> string \<Rightarrow> ('n \<Rightarrow> 'a option) \<Rightarrow> ('a list \<Rightarrow> 'c \<Rightarrow> 'c) \<Rightarrow> 'c \<Rightarrow> config_error + 'c" where
  "assign_sequence_if_present Y node key as upd c =
     bind_result (present Y node key) (\<lambda>child. case child of
        None \<Rightarrow> Inr c
      | Some seq \<Rightarrow> if \<not> y_is_sequence Y seq then Inr c
                    else bind_result (map_result (\<lambda>v. thrown YamlError (as v)) (y_elements Y seq)) (\<lambda>xs. Inr (upd xs c)))"

text \<open>\<^verbatim>\<open>std::stoul(text, nullptr, 0)\<close>: the prefix gives the base, text behind the number is ignored, no digits and a value beyond 64 bits throw.\<close>

definition digit_value :: "nat \<Rightarrow> char \<Rightarrow> nat option" where
  "digit_value base c =
     (let n = of_char c; d = (if 48 \<le> n \<and> n \<le> 57 then n - 48 else if 97 \<le> n \<and> n \<le> 122 then n - 87 else if 65 \<le> n \<and> n \<le> 90 then n - 55 else 99)
      in if d < base then Some d else None)"

fun scan_base :: "nat \<Rightarrow> string \<Rightarrow> nat \<Rightarrow> nat" where
  "scan_base base [] acc = acc"
| "scan_base base (c # cs) acc = (case digit_value base c of None \<Rightarrow> acc | Some d \<Rightarrow> scan_base base cs (base * acc + d))"

definition has_digit :: "nat \<Rightarrow> string \<Rightarrow> bool" where
  "has_digit base s = (case s of [] \<Rightarrow> False | c # cs \<Rightarrow> digit_value base c \<noteq> None)"

definition stoul_auto :: "string \<Rightarrow> u64 option" where
  "stoul_auto text =
     (case strip_sign (dropWhile is_space text) of (neg, s) \<Rightarrow>
        let hex = (take 2 s = ''0x'' \<or> take 2 s = ''0X'') \<and> has_digit 16 (drop 2 s);
            value = (if hex then Some (scan_base 16 (drop 2 s) 0)
                     else if take 1 s = ''0'' then Some (scan_base 8 s 0)
                     else if has_digit 10 s then Some (scan_base 10 s 0) else None)
        in case value of
             None \<Rightarrow> None
           | Some n \<Rightarrow> if 2 ^ 64 \<le> n then None else Some (if neg then - word_of_nat n else word_of_nat n))"

definition assign_hex_or_decimal_u8 :: "'n yaml \<Rightarrow> 'n \<Rightarrow> string \<Rightarrow> (u8 \<Rightarrow> 'c \<Rightarrow> 'c) \<Rightarrow> 'c \<Rightarrow> config_error + 'c" where
  "assign_hex_or_decimal_u8 Y node key upd c =
     bind_result (present Y node key) (\<lambda>child. case child of
        None \<Rightarrow> Inr c
      | Some v \<Rightarrow> bind_result (thrown YamlError (y_string Y v)) (\<lambda>text.
          bind_result (thrown StoulError (stoul_auto text)) (\<lambda>n. Inr (upd (ucast n) c))))"

definition assign_hex_or_decimal_u8_vector :: "'n yaml \<Rightarrow> 'n \<Rightarrow> string \<Rightarrow> (u8 list \<Rightarrow> 'c \<Rightarrow> 'c) \<Rightarrow> 'c \<Rightarrow> config_error + 'c" where
  "assign_hex_or_decimal_u8_vector Y node key upd c =
     bind_result (present Y node key) (\<lambda>child. case child of
        None \<Rightarrow> Inr c
      | Some seq \<Rightarrow> if \<not> y_is_sequence Y seq then Inr c
                    else bind_result (map_result (\<lambda>v. bind_result (thrown YamlError (y_string Y v)) (\<lambda>text. bind_result (thrown StoulError (stoul_auto text)) (\<lambda>n. Inr (ucast n))))
                                       (filter (y_is_scalar Y) (y_elements Y seq)))
                           (\<lambda>xs. Inr (upd xs c)))"

text \<open>A section: the node below the root, which must allow the subscript, and the assignments to its part of the configuration.\<close>

definition load_section :: "'n yaml \<Rightarrow> 'n \<Rightarrow> string \<Rightarrow> ('n \<Rightarrow> 's \<Rightarrow> config_error + 's) \<Rightarrow> ('c \<Rightarrow> 's) \<Rightarrow> ('s \<Rightarrow> 'c \<Rightarrow> 'c) \<Rightarrow> 'c \<Rightarrow> config_error + 'c" where
  "load_section Y root key load get upd c =
     bind_result (thrown YamlError (y_sub Y root key)) (\<lambda>node. bind_result (load node (get c)) (\<lambda>s. Inr (upd s c)))"

definition load_network :: "'n yaml \<Rightarrow> 'n \<Rightarrow> NetworkSection \<Rightarrow> config_error + NetworkSection" where
  "load_network Y node = run_steps
     [assign_if_present Y node ''listen_port'' (y_u16 Y) (\<lambda>v c. c\<lparr>net_listen_port := v\<rparr>),
      assign_sequence_if_present Y node ''bind_ips'' (y_string Y) (\<lambda>v c. c\<lparr>net_bind_ips := v\<rparr>),
      assign_if_present Y node ''bind_ip'' (y_string Y) (\<lambda>v c. c\<lparr>net_bind_ip := v\<rparr>),
      assign_if_present Y node ''interface'' (y_string Y) (\<lambda>v c. c\<lparr>net_interface := v\<rparr>),
      assign_hex_or_decimal_u8 Y node ''local_device_id'' (\<lambda>v c. c\<lparr>net_local_device_id := v\<rparr>),
      assign_if_present Y node ''recv_threads'' (y_int Y) (\<lambda>v c. c\<lparr>net_recv_threads := v\<rparr>),
      assign_if_present Y node ''recvmmsg_batch_size'' (y_size Y) (\<lambda>v c. c\<lparr>net_recvmmsg_batch_size := v\<rparr>),
      assign_if_present Y node ''socket_rcvbuf_mb'' (y_size Y) (\<lambda>v c. c\<lparr>net_socket_rcvbuf_mb := v\<rparr>),
      assign_if_present Y node ''enable_so_reuseport'' (y_bool Y) (\<lambda>v c. c\<lparr>net_enable_so_reuseport := v\<rparr>),
      assign_if_present Y node ''enable_ip_freebind'' (y_bool Y) (\<lambda>v c. c\<lparr>net_enable_ip_freebind := v\<rparr>),
      assign_hex_or_decimal_u8_vector Y node ''source_id_map'' (\<lambda>v c. c\<lparr>net_source_id_map := v\<rparr>),
      assign_sequence_if_present Y node ''cpu_affinity_map'' (y_int Y) (\<lambda>v c. c\<lparr>net_cpu_affinity_map := v\<rparr>),
      assign_if_present Y node ''source_filter_enabled'' (y_bool Y) (\<lambda>v c. c\<lparr>net_source_filter_enabled := v\<rparr>)]"

definition load_reassembly :: "'n yaml \<Rightarrow> 'n \<Rightarrow> ReassemblySection \<Rightarrow> config_error + ReassemblySection" where
  "load_reassembly Y node = run_steps
     [assign_if_present Y node ''timeout_ms'' (y_u32 Y) (\<lambda>v c. c\<lparr>rsm_timeout_ms := v\<rparr>),
      assign_if_present Y node ''max_contexts'' (y_size Y) (\<lambda>v c. c\<lparr>rsm_max_contexts := v\<rparr>),
      assign_if_present Y node ''max_total_frags'' (y_u16 Y) (\<lambda>v c. c\<lparr>rsm_max_total_frags := v\<rparr>),
      assign_if_present Y node ''sample_count_fixed'' (y_size Y) (\<lambda>v c. c\<lparr>rsm_sample_count_fixed := v\<rparr>),
      assign_if_present Y node ''max_reasm_bytes_per_key'' (y_size Y) (\<lambda>v c. c\<lparr>rsm_max_reasm_bytes_per_key := v\<rparr>)]"

definition load_reorder :: "'n yaml \<Rightarrow> 'n \<Rightarrow> ReorderSection \<Rightarrow> config_error + ReorderSection" where
  "load_reorder Y node = run_steps
     [assign_if_present Y node ''window_size'' (y_size Y) (\<lambda>v c. c\<lparr>rdr_window_size := v\<rparr>),
      assign_if_present Y node ''timeout_ms'' (y_u32 Y) (\<lambda>v c. c\<lparr>rdr_timeout_ms := v\<rparr>),
      assign_if_present Y node ''enable_zero_fill'' (y_bool Y) (\<lambda>v c. c\<lparr>rdr_enable_zero_fill := v\<rparr>)]"

definition load_timestamp :: "'n yaml \<Rightarrow> 'n \<Rightarrow> TimestampSection \<Rightarrow> config_error + TimestampSection" where
  "load_timestamp Y node = run_steps
     [assign_if_present Y node ''apply_window_ms'' (y_u32 Y) (\<lambda>v c. c\<lparr>tsp_apply_window_ms := v\<rparr>),
      assign_if_present Y node ''enable_check'' (y_bool Y) (\<lambda>v c. c\<lparr>tsp_enable_check := v\<rparr>),
      assign_if_present Y node ''allow_unlocked_clock'' (y_bool Y) (\<lambda>v c. c\<lparr>tsp_allow_unlocked_clock := v\<rparr>)]"

definition load_control_reliability :: "'n yaml \<Rightarrow> 'n \<Rightarrow> ControlReliabilitySection \<Rightarrow> config_error + ControlReliabilitySection" where
  "load_control_reliability Y node = run_steps
     [assign_if_present Y node ''rto_ms'' (y_u32 Y) (\<lambda>v c. c\<lparr>crl_rto_ms := v\<rparr>),
      assign_if_present Y node ''max_retry'' (y_u32 Y) (\<lambda>v c. c\<lparr>crl_max_retry := v\<rparr>),
      assign_if_present Y node ''dup_cmd_cache_size'' (y_size Y) (\<lambda>v c. c\<lparr>crl_dup_cmd_cache_size := v\<rparr>)]"

definition load_flow_control :: "'n yaml \<Rightarrow> 'n \<Rightarrow> FlowControlSection \<Rightarrow> config_error + FlowControlSection" where
  "load_flow_control Y node = run_steps
     [assign_if_present Y node ''max_buffer_size'' (y_size Y) (\<lambda>v c. c\<lparr>flw_max_buffer_size := v\<rparr>),
      assign_if_present Y node ''high_watermark'' (y_size Y) (\<lambda>v c. c\<lparr>flw_high_watermark := v\<rparr>),
      assign_if_present Y node ''low_watermark'' (y_size Y) (\<lambda>v c. c\<lparr>flw_low_watermark := v\<rparr>),
      assign_if_present Y node ''policy'' (y_string Y) (\<lambda>v c. c\<lparr>flw_policy := v\<rparr>)]"

definition load_logging :: "'n yaml \<Rightarrow> 'n \<Rightarrow> LoggingSection \<Rightarrow> config_error + LoggingSection" where
  "load_logging Y node = run_steps
     [assign_if_present Y node ''level'' (y_string Y) (\<lambda>v c. c\<lparr>lgg_level := v\<rparr>),
      assign_if_present Y node ''log_file'' (y_string Y) (\<lambda>v c. c\<lparr>lgg_log_file := v\<rparr>)]"

definition load_monitoring :: "'n yaml \<Rightarrow> 'n \<Rightarrow> MonitoringSection \<Rightarrow> config_error + MonitoringSection" where
  "load_monitoring Y node = run_steps
     [assign_if_present Y node ''metrics_port'' (y_u16 Y) (\<lambda>v c. c\<lparr>mon_metrics_port := v\<rparr>),
      assign_if_present Y node ''metrics_bind_ip'' (y_string Y) (\<lambda>v c. c\<lparr>mon_metrics_bind_ip := v\<rparr>)]"

definition load_performance :: "'n yaml \<Rightarrow> 'n \<Rightarrow> PerformanceSection \<Rightarrow> config_error + PerformanceSection" where
  "load_performance Y node = run_steps
     [assign_if_present Y node ''numa_node'' (y_int Y) (\<lambda>v c. c\<lparr>prf_numa_node := v\<rparr>),
      assign_if_present Y node ''reassembler_cache_align_bytes'' (y_size Y) (\<lambda>v c. c\<lparr>prf_reassembler_cache_align_bytes := v\<rparr>),
      assign_if_present Y node ''prefetch_hints_enabled'' (y_bool Y) (\<lambda>v c. c\<lparr>prf_prefetch_hints_enabled := v\<rparr>),
      assign_if_present Y node ''qos_enabled'' (y_bool Y) (\<lambda>v c. c\<lparr>prf_qos_enabled := v\<rparr>),
      assign_if_present Y node ''rma_session_timeout_ms'' (y_u32 Y) (\<lambda>v c. c\<lparr>prf_rma_session_timeout_ms := v\<rparr>),
      assign_if_present Y node ''heartbeat_max_queue_depth'' (y_size Y) (\<lambda>v c. c\<lparr>prf_heartbeat_max_queue_depth := v\<rparr>),
      assign_if_present Y node ''packet_pool_mb_per_face'' (y_size Y) (\<lambda>v c. c\<lparr>prf_packet_pool_mb_per_face := v\<rparr>),
      assign_if_present Y node ''recv_drain_rounds'' (y_size Y) (\<lambda>v c. c\<lparr>prf_recv_drain_rounds := v\<rparr>),
      assign_sequence_if_present Y node ''processing_cpu_affinity_map'' (y_int Y) (\<lambda>v c. c\<lparr>prf_processing_cpu_affinity_map := v\<rparr>)]"

definition load_delivery :: "'n yaml \<Rightarrow> 'n \<Rightarrow> DeliverySection \<Rightarrow> config_error + DeliverySection" where
  "load_delivery Y node = run_steps
     [assign_if_present Y node ''method'' (y_string Y) (\<lambda>v c. c\<lparr>dlv_method := v\<rparr>),
      assign_if_present Y node ''shm_name'' (y_string Y) (\<lambda>v c. c\<lparr>dlv_shm_name := v\<rparr>),
      assign_if_present Y node ''shm_size_mb'' (y_size Y) (\<lambda>v c. c\<lparr>dlv_shm_size_mb := v\<rparr>),
      assign_if_present Y node ''socket_path'' (y_string Y) (\<lambda>v c. c\<lparr>dlv_socket_path := v\<rparr>),
      assign_if_present Y node ''reconnect_interval_ms'' (y_u32 Y) (\<lambda>v c. c\<lparr>dlv_reconnect_interval_ms := v\<rparr>)]"

definition load_capture :: "'n yaml \<Rightarrow> 'n \<Rightarrow> CaptureSection \<Rightarrow> config_error + CaptureSection" where
  "load_capture Y node = run_steps
     [assign_if_present Y node ''enabled'' (y_bool Y) (\<lambda>v c. c\<lparr>cap_enabled := v\<rparr>),
      assign_if_present Y node ''spool_dir'' (y_string Y) (\<lambda>v c. c\<lparr>cap_spool_dir := v\<rparr>),
      (\<lambda>c. if cap_spool_dir c = cap_spool_dir default_capture then assign_if_present Y node ''output_dir'' (y_string Y) (\<lambda>v c. c\<lparr>cap_spool_dir := v\<rparr>) c else Inr c),
      assign_if_present Y node ''archive_dir'' (y_string Y) (\<lambda>v c. c\<lparr>cap_archive_dir := v\<rparr>),
      assign_if_present Y node ''spool_low_watermark_pct'' (y_u32 Y) (\<lambda>v c. c\<lparr>cap_spool_low_watermark_pct := v\<rparr>),
      assign_if_present Y node ''archive_low_watermark_pct'' (y_u32 Y) (\<lambda>v c. c\<lparr>cap_archive_low_watermark_pct := v\<rparr>),
      assign_if_present Y node ''archive_max_files'' (y_size Y) (\<lambda>v c. c\<lparr>cap_archive_max_files := v\<rparr>),
      assign_if_present Y node ''archive_max_age_days'' (y_u32 Y) (\<lambda>v c. c\<lparr>cap_archive_max_age_days := v\<rparr>),
      assign_if_present Y node ''max_file_size_mb'' (y_size Y) (\<lambda>v c. c\<lparr>cap_max_file_size_mb := v\<rparr>),
      assign_if_present Y node ''max_files'' (y_size Y) (\<lambda>v c. c\<lparr>cap_max_files := v\<rparr>),
      assign_hex_or_decimal_u8_vector Y node ''filter_packet_types'' (\<lambda>v c. c\<lparr>cap_filter_packet_types := v\<rparr>),
      assign_hex_or_decimal_u8_vector Y node ''filter_source_ids'' (\<lambda>v c. c\<lparr>cap_filter_source_ids := v\<rparr>)]"

definition load_queue :: "'n yaml \<Rightarrow> 'n \<Rightarrow> QueueSection \<Rightarrow> config_error + QueueSection" where
  "load_queue Y node = run_steps
     [assign_if_present Y node ''rawcpi_q_capacity'' (y_size Y) (\<lambda>v c. c\<lparr>que_rawcpi_q_capacity := v\<rparr>),
      assign_if_present Y node ''rawcpi_q_slot_size_mb'' (y_size Y) (\<lambda>v c. c\<lparr>que_rawcpi_q_slot_size_mb := v\<rparr>)]"

definition load_consumer :: "'n yaml \<Rightarrow> 'n \<Rightarrow> ConsumerSection \<Rightarrow> config_error + ConsumerSection" where
  "load_consumer Y node = run_steps
     [assign_if_present Y node ''print_summary'' (y_bool Y) (\<lambda>v c. c\<lparr>con_print_summary := v\<rparr>),
      assign_if_present Y node ''write_to_file'' (y_bool Y) (\<lambda>v c. c\<lparr>con_write_to_file := v\<rparr>),
      assign_if_present Y node ''output_dir'' (y_string Y) (\<lambda>v c. c\<lparr>con_output_dir := v\<rparr>),
      assign_if_present Y node ''stats_interval_ms'' (y_u32 Y) (\<lambda>v c. c\<lparr>con_stats_interval_ms := v\<rparr>)]"

text \<open>The sections in the order of the code.\<close>

definition load_sections :: "'n yaml \<Rightarrow> 'n \<Rightarrow> ReceiverConfig \<Rightarrow> config_error + ReceiverConfig" where
  "load_sections Y root = run_steps
     [load_section Y root ''network'' (load_network Y) cfg_network (\<lambda>v c. c\<lparr>cfg_network := v\<rparr>),
      load_section Y root ''reassembly'' (load_reassembly Y) cfg_reassembly (\<lambda>v c. c\<lparr>cfg_reassembly := v\<rparr>),
      load_section Y root ''reorder'' (load_reorder Y) cfg_reorder (\<lambda>v c. c\<lparr>cfg_reorder := v\<rparr>),
      load_section Y root ''timestamp'' (load_timestamp Y) cfg_timestamp (\<lambda>v c. c\<lparr>cfg_timestamp := v\<rparr>),
      load_section Y root ''control_reliability'' (load_control_reliability Y) cfg_control_reliability (\<lambda>v c. c\<lparr>cfg_control_reliability := v\<rparr>),
      load_section Y root ''flow_control'' (load_flow_control Y) cfg_flow_control (\<lambda>v c. c\<lparr>cfg_flow_control := v\<rparr>),
      load_section Y root ''logging'' (load_logging Y) cfg_logging (\<lambda>v c. c\<lparr>cfg_logging := v\<rparr>),
      load_section Y root ''monitoring'' (load_monitoring Y) cfg_monitoring (\<lambda>v c. c\<lparr>cfg_monitoring := v\<rparr>),
      load_section Y root ''performance'' (load_performance Y) cfg_performance (\<lambda>v c. c\<lparr>cfg_performance := v\<rparr>),
      load_section Y root ''delivery'' (load_delivery Y) cfg_delivery (\<lambda>v c. c\<lparr>cfg_delivery := v\<rparr>),
      load_section Y root ''capture'' (load_capture Y) cfg_capture (\<lambda>v c. c\<lparr>cfg_capture := v\<rparr>),
      load_section Y root ''queue'' (load_queue Y) cfg_queue (\<lambda>v c. c\<lparr>cfg_queue := v\<rparr>),
      load_section Y root ''consumer'' (load_consumer Y) cfg_consumer (\<lambda>v c. c\<lparr>cfg_consumer := v\<rparr>)]"

subsection \<open>Validation\<close>

text \<open>\<^verbatim>\<open>std::min_element\<close> of a non-empty vector.\<close>

definition min_element :: "int list \<Rightarrow> int" where
  "min_element xs = fold min (tl xs) (hd xs)"

definition validate_network :: "NetworkSection \<Rightarrow> bool" where
  "validate_network n =
     (let has_any = net_bind_ips n \<noteq> [] \<or> net_source_id_map n \<noteq> [] \<or> net_cpu_affinity_map n \<noteq> [] in
      if net_listen_port n = 0 then False
      else if net_recv_threads n \<le> 0 then False
      else if has_any \<and> (length (net_bind_ips n) \<noteq> 3 \<or> length (net_source_id_map n) \<noteq> 3 \<or> length (net_cpu_affinity_map n) \<noteq> 3) then False
      else if net_bind_ips n \<noteq> [] \<and> (\<not> distinct (net_bind_ips n) \<or> [] \<in> set (net_bind_ips n)) then False
      else if net_source_id_map n \<noteq> [] \<and> (\<not> distinct (net_source_id_map n) \<or> (\<exists>s \<in> set (net_source_id_map n). s < 0x11 \<or> s > 0x13)) then False
      else if net_cpu_affinity_map n \<noteq> [] \<and> (\<not> distinct (net_cpu_affinity_map n) \<or> min_element (net_cpu_affinity_map n) < 0) then False
      else True)"

definition validate_limits :: "ReceiverConfig \<Rightarrow> bool" where
  "validate_limits c =
     (let r = cfg_reassembly c; k = cfg_control_reliability c; f = cfg_flow_control c in
      if rsm_max_total_frags r = 0 \<or> rsm_max_total_frags r > 1024 then False
      else if rsm_max_reasm_bytes_per_key r = 0 then False
      else if rdr_window_size (cfg_reorder c) = 0 then False
      else if crl_rto_ms k = 0 \<or> crl_rto_ms k > 60000 then False
      else if crl_max_retry k = 0 \<or> crl_max_retry k > 10 then False
      else if crl_dup_cmd_cache_size k = 0 \<or> crl_dup_cmd_cache_size k > 100000 then False
      else if flw_low_watermark f > flw_high_watermark f then False
      else if flw_high_watermark f > flw_max_buffer_size f then False
      else if flw_policy f \<noteq> ''DROP_OLDEST'' \<and> flw_policy f \<noteq> ''REJECT_NEW'' then False
      else True)"

definition validate_performance :: "NetworkSection \<Rightarrow> PerformanceSection \<Rightarrow> bool" where
  "validate_performance n p =
     (let cpus = prf_processing_cpu_affinity_map p; align = prf_reassembler_cache_align_bytes p in
      if prf_numa_node p \<noteq> 1 then False
      else if align < 64 \<or> align AND (align - 1) \<noteq> 0 then False
      else if prf_rma_session_timeout_ms p = 0 \<or> prf_rma_session_timeout_ms p > 300000 then False
      else if prf_heartbeat_max_queue_depth p = 0 \<or> prf_heartbeat_max_queue_depth p > 100000 then False
      else if prf_packet_pool_mb_per_face p < 32 \<or> prf_packet_pool_mb_per_face p > 512 then False
      else if prf_recv_drain_rounds p = 0 \<or> prf_recv_drain_rounds p > 16 then False
      else if cpus \<noteq> [] \<and> (\<not> distinct cpus \<or> min_element cpus < 0 \<or>
                            length cpus \<noteq> (if net_bind_ips n \<noteq> [] then length (net_bind_ips n) else 1)) then False
      else True)"

definition validate_outputs :: "ReceiverConfig \<Rightarrow> bool" where
  "validate_outputs c =
     (let k = cfg_capture c; q = cfg_queue c; s = cfg_consumer c in
      if dlv_reconnect_interval_ms (cfg_delivery c) = 0 then False
      else if cap_max_files k = 0 then False
      else if cap_enabled k \<and> cap_spool_dir k = [] then False
      else if cap_archive_max_files k = 0 \<or> cap_archive_max_files k > 100000 then False
      else if cap_spool_low_watermark_pct k = 0 \<or> cap_spool_low_watermark_pct k > 99 then False
      else if cap_archive_low_watermark_pct k = 0 \<or> cap_archive_low_watermark_pct k > 99 then False
      else if cap_archive_max_age_days k = 0 \<or> cap_archive_max_age_days k > 3650 then False
      else if que_rawcpi_q_capacity q = 0 \<or> que_rawcpi_q_capacity q > 1024 then False
      else if que_rawcpi_q_slot_size_mb q = 0 \<or> que_rawcpi_q_slot_size_mb q > 16 then False
      else if con_stats_interval_ms s = 0 \<or> con_stats_interval_ms s > 60000 then False
      else if con_write_to_file s \<and> con_output_dir s = [] then False
      else True)"

definition validate_config :: "ReceiverConfig \<Rightarrow> bool" where
  "validate_config c \<longleftrightarrow> validate_network (cfg_network c) \<and> validate_limits c \<and> validate_performance (cfg_network c) (cfg_performance c) \<and> validate_outputs c"

subsection \<open>The manager\<close>

record 'cb ConfigManager =
  cm_current_config :: ReceiverConfig
  cm_config_file_path :: string
  cm_callbacks :: "'cb list"

definition config_manager_new :: "'cb ConfigManager" where
  "config_manager_new = \<lparr>cm_current_config = default_receiver_config, cm_config_file_path = [], cm_callbacks = []\<rparr>"

text \<open>\<open>Inl\<close>: an exception leaves the function.\<close>

definition load_from_file :: "'n yaml \<Rightarrow> string \<Rightarrow> 'cb ConfigManager \<Rightarrow> unit + ('cb ConfigManager \<times> bool)" where
  "load_from_file Y path m =
     (case bind_result (thrown YamlError (y_load Y path)) (\<lambda>root. load_sections Y root default_receiver_config) of
        Inl YamlError \<Rightarrow> Inr (m, False)
      | Inl StoulError \<Rightarrow> Inl ()
      | Inr cfg \<Rightarrow> if \<not> validate_config cfg then Inr (m, False) else Inr (m\<lparr>cm_current_config := cfg, cm_config_file_path := path\<rparr>, True))"

text \<open>The calls of the callbacks, in order.\<close>

definition reload_config :: "'n yaml \<Rightarrow> 'cb ConfigManager \<Rightarrow> unit + ('cb ConfigManager \<times> bool \<times> ('cb \<times> ReceiverConfig) list)" where
  "reload_config Y m =
     (if cm_config_file_path m = [] then Inr (m, False, [])
      else case load_from_file Y (cm_config_file_path m) m of
        Inl e \<Rightarrow> Inl e
      | Inr (m', ok) \<Rightarrow> if \<not> ok then Inr (m', False, []) else Inr (m', True, map (\<lambda>cb. (cb, cm_current_config m')) (cm_callbacks m')))"

definition register_reload_callback :: "'cb \<Rightarrow> 'cb ConfigManager \<Rightarrow> 'cb ConfigManager" where
  "register_reload_callback cb m = m\<lparr>cm_callbacks := cm_callbacks m @ [cb]\<rparr>"

subsection \<open>What a manager can hold\<close>

lemma default_receiver_config_valid: "validate_config default_receiver_config"
  by (simp add: validate_config_def validate_network_def validate_limits_def validate_performance_def validate_outputs_def default_receiver_config_def
      default_network_def default_reassembly_def default_reorder_def default_control_reliability_def default_flow_control_def default_performance_def
      default_delivery_def default_capture_def default_queue_def default_consumer_def Let_def)

lemma load_from_file_cases:
  assumes "load_from_file Y path m = Inr (m', ok)"
  shows "\<not> ok \<and> m' = m \<or> ok \<and> (\<exists>cfg. m' = m\<lparr>cm_current_config := cfg, cm_config_file_path := path\<rparr> \<and> validate_config cfg)"
  using assms by (auto simp: load_from_file_def split: sum.splits config_error.splits if_splits)

datatype ('n, 'cb) config_op = LoadFile "'n yaml" string | Reload "'n yaml" | Register 'cb

text \<open>The calls of the callbacks are recorded; an exception that leaves the manager changes nothing.\<close>

fun config_step :: "('n, 'cb) config_op \<Rightarrow> 'cb ConfigManager \<Rightarrow> 'cb ConfigManager \<times> ('cb \<times> ReceiverConfig) list" where
  "config_step (LoadFile Y path) m = (case load_from_file Y path m of Inl e \<Rightarrow> (m, []) | Inr (m', ok) \<Rightarrow> (m', []))"
| "config_step (Reload Y) m = (case reload_config Y m of Inl e \<Rightarrow> (m, []) | Inr (m', ok, calls) \<Rightarrow> (m', calls))"
| "config_step (Register cb) m = (register_reload_callback cb m, [])"

fun config_run :: "('n, 'cb) config_op list \<Rightarrow> 'cb ConfigManager \<Rightarrow> 'cb ConfigManager \<times> ('cb \<times> ReceiverConfig) list" where
  "config_run [] m = (m, [])"
| "config_run (op # ops) m =
     (case config_step op m of (m1, calls) \<Rightarrow> case config_run ops m1 of (m2, calls') \<Rightarrow> (m2, calls @ calls'))"

lemma config_step_valid:
  assumes "validate_config (cm_current_config m)" and "config_step op m = (m', calls)"
  shows "validate_config (cm_current_config m')" and "(cb, cfg) \<in> set calls \<Longrightarrow> validate_config cfg \<and> cb \<in> set (cm_callbacks m)"
proof -
  have load: "validate_config (cm_current_config m1) \<and> cm_callbacks m1 = cm_callbacks m" if "load_from_file Y path m = Inr (m1, ok)" for Y :: "'b yaml" and path m1 ok
    using load_from_file_cases [OF that] assms(1) by auto
  have "validate_config (cm_current_config m') \<and> ((cb, cfg) \<in> set calls \<longrightarrow> validate_config cfg \<and> cb \<in> set (cm_callbacks m))"
  proof (cases op)
    case (LoadFile Y path)
    then show ?thesis using assms load by (auto split: sum.splits)
  next
    case (Reload Y)
    then show ?thesis using assms load by (auto simp: reload_config_def split: sum.splits if_splits)
  next
    case (Register c)
    then show ?thesis using assms by (auto simp: register_reload_callback_def)
  qed
  then show "validate_config (cm_current_config m')" "(cb, cfg) \<in> set calls \<Longrightarrow> validate_config cfg \<and> cb \<in> set (cm_callbacks m)" by simp_all
qed

text \<open>
  C28: The receiver only ever runs with a validated configuration: after any sequence of loads, reloads and registrations, whatever the files
  contain and whatever the YAML library throws, the current configuration is valid, and so is every configuration that
  was announced to a callback.
\<close>

theorem configuration_always_valid:
  assumes "config_run ops config_manager_new = (m, calls)"
  shows "validate_config (cm_current_config m) \<and> list_all (\<lambda>(cb, cfg). validate_config cfg) calls"
proof -
  have "validate_config (cm_current_config m2) \<and> (\<forall>(cb, cfg) \<in> set cs. validate_config cfg)"
    if "validate_config (cm_current_config m1)" "config_run ops m1 = (m2, cs)" for m1 m2 cs
    using that
  proof (induction ops arbitrary: m1 cs)
    case (Cons op ops)
    obtain m' cs1 where s: "config_step op m1 = (m', cs1)" by (cases "config_step op m1")
    obtain cs2 where r: "config_run ops m' = (m2, cs2)" "cs = cs1 @ cs2" using Cons.prems(2) s by (auto split: prod.splits)
    show ?case using Cons.IH [OF config_step_valid(1) [OF Cons.prems(1) s] r(1)] config_step_valid(2) [OF Cons.prems(1) s] r(2) by auto
  qed auto
  from this [OF _ assms] show ?thesis using default_receiver_config_valid by (auto simp: config_manager_new_def list_all_iff)
qed

text \<open>A document is a text or a table of tables here; it is an instance of the interface for examples.\<close>

datatype sample_node = NoNode | Text string | Table "(string \<times> sample_node) list"

definition sample_yaml :: "sample_node \<Rightarrow> sample_node yaml" where
  "sample_yaml doc = \<lparr>y_load = (\<lambda>path. Some doc), y_defined = (\<lambda>n. n \<noteq> NoNode),
     y_sub = (\<lambda>n key. case n of Text s \<Rightarrow> None | NoNode \<Rightarrow> Some NoNode | Table m \<Rightarrow> (case map_of m key of None \<Rightarrow> Some NoNode | Some v \<Rightarrow> Some v)),
     y_is_sequence = (\<lambda>n. False), y_is_scalar = (\<lambda>n. case n of Text s \<Rightarrow> True | _ \<Rightarrow> False), y_elements = (\<lambda>n. []),
     y_u16 = (\<lambda>n. None), y_u32 = (\<lambda>n. None),
     y_size = (\<lambda>n. case n of Text s \<Rightarrow> (case strtoull s of (v, []) \<Rightarrow> Some v | _ \<Rightarrow> None) | _ \<Rightarrow> None), y_int = (\<lambda>n. None), y_bool = (\<lambda>n. None),
     y_string = (\<lambda>n. case n of Text s \<Rightarrow> Some s | _ \<Rightarrow> None)\<rparr>"

lemmas load_defs = load_sections_def load_section_def load_network_def load_reassembly_def load_reorder_def load_timestamp_def load_control_reliability_def
  load_flow_control_def load_logging_def load_monitoring_def load_performance_def load_delivery_def load_capture_def load_queue_def load_consumer_def
  assign_if_present_def assign_sequence_if_present_def assign_hex_or_decimal_u8_def assign_hex_or_decimal_u8_vector_def present_def thrown_def

text \<open>An identifier that is no number leaves \<^verbatim>\<open>load_from_file\<close> with an exception it does not catch, and one beyond a byte is cut off.\<close>

lemma bad_identifier_escapes: "load_from_file (sample_yaml (Table [(''network'', Table [(''local_device_id'', Text ''SPS'')])])) path m = Inl ()"
  by (simp add: load_from_file_def load_defs sample_yaml_def stoul_auto_def strip_sign_def is_space_def has_digit_def digit_value_def)

lemma wide_identifier_truncated:
  "load_network (sample_yaml doc) (Table [(''local_device_id'', Text ''0x101'')]) default_network = Inr (default_network\<lparr>net_local_device_id := 1\<rparr>)"
  by (simp add: load_defs sample_yaml_def stoul_auto_def strip_sign_def is_space_def has_digit_def digit_value_def)

theorem configuration_always_valid_witness:
  "validate_config (cm_current_config (fst (config_run [LoadFile (sample_yaml (Table [(''reorder'', Table [(''window_size'', Text ''0'')])])) ''a.yaml'', Register (0 :: nat),
     Reload (sample_yaml (Text ''x''))] config_manager_new)))"
  using configuration_always_valid [of "[LoadFile (sample_yaml (Table [(''reorder'', Table [(''window_size'', Text ''0'')])])) ''a.yaml'', Register (0 :: nat),
     Reload (sample_yaml (Text ''x''))]" "fst (config_run [LoadFile (sample_yaml (Table [(''reorder'', Table [(''window_size'', Text ''0'')])])) ''a.yaml'', Register (0 :: nat),
     Reload (sample_yaml (Text ''x''))] config_manager_new)"] by (metis prod.collapse)

end
