(* ===== verification/App_Init.thy ===== *)
theory App_Init
  imports Face_Safety Config
begin

text \<open>
  The assembly of the receiver (\<^verbatim>\<open>app_init\<close>, \<^verbatim>\<open>src/m01_receiver/app_init.cpp\<close>): from the configuration to the bindings of the array faces, the
  processing CPUs, the components of every face and the capture, and the routing of received packets to the faces.

  Correspondence.  The components of a face are those of \<^verbatim>\<open>Face_Pipeline\<close>.  Logger and metrics only record; the delivery back end and the
  capture writer are given by the parameters they are created with.  \<open>None\<close> is an exception that leaves \<^verbatim>\<open>app_init\<close>.
\<close>

datatype LogLevel = LL_DEBUG | LL_INFO | LL_WARN | LL_ERROR

definition parse_log_level :: "string \<Rightarrow> LogLevel" where
  "parse_log_level level =
     (if level = ''DEBUG'' then LL_DEBUG else if level = ''WARN'' then LL_WARN else if level = ''ERROR'' then LL_ERROR else LL_INFO)"

subsection \<open>Processing CPUs\<close>

fun pick_cpus :: "int list \<Rightarrow> int list \<Rightarrow> nat \<Rightarrow> int list \<Rightarrow> int list" where
  "pick_cpus [] reserved n resolved = resolved"
| "pick_cpus (cpu # cpus) reserved n resolved =
     (if length resolved < n then pick_cpus cpus reserved n (if cpu \<in> set reserved then resolved else resolved @ [cpu]) else resolved)"

function fill_cpus :: "int list \<Rightarrow> nat \<Rightarrow> int list \<Rightarrow> int list" where
  "fill_cpus rx_cpus n resolved =
     (if length resolved < n then
        fill_cpus rx_cpus n (resolved @ [if rx_cpus = [] then 16 + int (length resolved) else rx_cpus ! (length resolved mod length rx_cpus)])
      else resolved)"
  by pat_completeness auto
termination
  by (relation "measure (\<lambda>(rx_cpus, n, resolved). n - length resolved)") auto

declare fill_cpus.simps [simp del]

definition resolve_processing_cpu_affinity_map :: "ReceiverConfig \<Rightarrow> nat \<Rightarrow> int list" where
  "resolve_processing_cpu_affinity_map c n =
     (let given = prf_processing_cpu_affinity_map (cfg_performance c); rx_cpus = net_cpu_affinity_map (cfg_network c) in
      if length given = n then given else fill_cpus rx_cpus n (pick_cpus [16..31] rx_cpus n []))"

subsection \<open>Array faces\<close>

record ArrayFaceBinding =
  ab_array_id :: u8
  ab_bind_ip :: string
  ab_listen_port :: u16
  ab_expected_source_id :: u8
  ab_cpu_affinity :: int
  ab_source_filter_enabled :: bool

definition has_three_face_topology :: "NetworkSection \<Rightarrow> bool" where
  "has_three_face_topology n \<longleftrightarrow> length (net_bind_ips n) = 3 \<and> length (net_source_id_map n) = 3 \<and> length (net_cpu_affinity_map n) = 3"

definition num_faces :: "NetworkSection \<Rightarrow> nat" where
  "num_faces n = (if has_three_face_topology n then 3 else 1)"

definition array_faces :: "NetworkSection \<Rightarrow> ArrayFaceBinding list" where
  "array_faces n =
     (if has_three_face_topology n
      then map (\<lambda>i. \<lparr>ab_array_id = word_of_nat (i + 1), ab_bind_ip = net_bind_ips n ! i, ab_listen_port = net_listen_port n,
                     ab_expected_source_id = net_source_id_map n ! i, ab_cpu_affinity = net_cpu_affinity_map n ! i,
                     ab_source_filter_enabled = net_source_filter_enabled n\<rparr>) [0..<3]
      else [\<lparr>ab_array_id = 1, ab_bind_ip = net_bind_ip n, ab_listen_port = net_listen_port n, ab_expected_source_id = 0x11, ab_cpu_affinity = 16,
             ab_source_filter_enabled = False\<rparr>])"

subsection \<open>Components\<close>

datatype delivery_choice = Use_shared_memory string u64 | Use_unix_socket string u32 | Use_callback

definition choose_delivery :: "DeliverySection \<Rightarrow> delivery_choice" where
  "choose_delivery d =
     (if dlv_method d = ''shared_memory'' then Use_shared_memory (dlv_shm_name d) (dlv_shm_size_mb d * 1024 * 1024)
      else if dlv_method d = ''unix_socket'' then Use_unix_socket (dlv_socket_path d) (dlv_reconnect_interval_ms d)
      else Use_callback)"

definition reorder_config_of :: "ReceiverConfig \<Rightarrow> ReorderConfig" where
  "reorder_config_of c = \<lparr>oc_window_size = unat (rdr_window_size (cfg_reorder c)), oc_timeout_ms = rdr_timeout_ms (cfg_reorder c),
     oc_enable_zero_fill = rdr_enable_zero_fill (cfg_reorder c)\<rparr>"

definition reassembler_config_of :: "ReceiverConfig \<Rightarrow> ReassemblerConfig" where
  "reassembler_config_of c = (let r = cfg_reassembly c in
     \<lparr>rc_timeout_ms = rsm_timeout_ms r, rc_max_contexts = unat (rsm_max_contexts r), rc_max_total_frags = rsm_max_total_frags r,
      rc_sample_count_fixed = unat (rsm_sample_count_fixed r), rc_max_reasm_bytes_per_key = unat (rsm_max_reasm_bytes_per_key r)\<rparr>)"

definition consumer_enabled :: "ReceiverConfig \<Rightarrow> bool" where
  "consumer_enabled c \<longleftrightarrow> con_print_summary (cfg_consumer c) \<or> con_write_to_file (cfg_consumer c)"

definition build_face :: "(nat \<Rightarrow> u64) \<Rightarrow> ReceiverConfig \<Rightarrow> nat \<Rightarrow> FacePipeline" where
  "build_face now c i = face_pipeline_new (word_of_nat (i + 1)) (net_local_device_id (cfg_network c)) (reorder_config_of c) (reassembler_config_of c)
     (unat (prf_heartbeat_max_queue_depth (cfg_performance c))) (consumer_enabled c) (now i)"

definition capture_config_of :: "CaptureSection \<Rightarrow> PcapWriterConfig" where
  "capture_config_of k = \<lparr>pc_enabled = cap_enabled k, pc_spool_dir = cap_spool_dir k, pc_max_file_size_mb = cap_max_file_size_mb k,
     pc_max_files = unat (cap_max_files k), pc_pending_queue_capacity = 4096, pc_filter_packet_types = cap_filter_packet_types k,
     pc_filter_source_ids = cap_filter_source_ids k\<rparr>"

record AppContext =
  ax_config :: ReceiverConfig
  ax_log_level :: LogLevel
  ax_delivery :: delivery_choice
  ax_array_faces :: "ArrayFaceBinding list"
  ax_processing_cpus :: "int list"
  ax_face_pipelines :: "FacePipeline list"
  ax_pcap_writer :: "PcapWriter option"

text \<open>The capture starts when it is enabled and its first file can be created; otherwise the receiver runs without it.\<close>

definition start_capture :: "pcap_io \<Rightarrow> (string \<Rightarrow> bytes option) \<Rightarrow> CaptureSection \<Rightarrow> PcapWriter option" where
  "start_capture io disk k =
     (if \<not> cap_enabled k then None
      else case pcap_start io (pcap_writer_new (capture_config_of k) disk) of
        Some (w, ok) \<Rightarrow> if ok then Some w else None
      | None \<Rightarrow> None)"

definition build_context :: "(nat \<Rightarrow> u64) \<Rightarrow> pcap_io \<Rightarrow> (string \<Rightarrow> bytes option) \<Rightarrow> ReceiverConfig \<Rightarrow> AppContext" where
  "build_context now io disk c =
     \<lparr>ax_config = c, ax_log_level = parse_log_level (lgg_level (cfg_logging c)), ax_delivery = choose_delivery (cfg_delivery c),
      ax_array_faces = array_faces (cfg_network c), ax_processing_cpus = resolve_processing_cpu_affinity_map c (num_faces (cfg_network c)),
      ax_face_pipelines = map (build_face now c) [0..<num_faces (cfg_network c)], ax_pcap_writer = start_capture io disk (cfg_capture c)\<rparr>"

definition app_init :: "'n yaml \<Rightarrow> string \<Rightarrow> (nat \<Rightarrow> u64) \<Rightarrow> pcap_io \<Rightarrow> (string \<Rightarrow> bytes option) \<Rightarrow> 'cb ConfigManager \<Rightarrow>
    ('cb ConfigManager \<times> int \<times> AppContext option) option" where
  "app_init Y path now io disk m =
     (case load_from_file Y path m of
        Inl e \<Rightarrow> None
      | Inr (m', ok) \<Rightarrow> if \<not> ok then Some (m', 1, None) else Some (m', 0, Some (build_context now io disk (cm_current_config m'))))"

subsection \<open>The faces together\<close>

text \<open>The packet callback of the receiver and the steps of the threads of a face; a packet for a face that does not exist is dropped.\<close>

datatype app_event = Receive u8 ReceivedPacket | Face_event nat face_event

definition route_index :: "u8 \<Rightarrow> u64" where
  "route_index array_id = ucast array_id - 1"

definition face_event_of :: "nat \<Rightarrow> app_event \<Rightarrow> (nat \<times> face_event) option" where
  "face_event_of n ev =
     (case ev of
        Receive array_id raw \<Rightarrow> if word_of_nat n \<le> route_index array_id then None else Some (unat (route_index array_id), Datagram raw)
      | Face_event i e \<Rightarrow> if n \<le> i then None else Some (i, e))"

definition app_step :: "app_event \<Rightarrow> FacePipeline list \<Rightarrow> face_error + FacePipeline list \<times> (nat \<times> OrderedPacket) list" where
  "app_step ev faces =
     (case face_event_of (length faces) ev of
        None \<Rightarrow> Inr (faces, [])
      | Some (i, e) \<Rightarrow>
         (case face_step e (faces ! i) of
            Inl err \<Rightarrow> Inl err
          | Inr (fp, outs) \<Rightarrow> Inr (faces[i := fp], map (Pair i) outs)))"

fun run_app :: "app_event list \<Rightarrow> FacePipeline list \<Rightarrow> face_error + FacePipeline list \<times> (nat \<times> OrderedPacket) list" where
  "run_app [] faces = Inr (faces, [])"
| "run_app (ev # evs) faces =
     (case app_step ev faces of
        Inl err \<Rightarrow> Inl err
      | Inr (faces1, outs) \<Rightarrow> (case run_app evs faces1 of Inl err \<Rightarrow> Inl err | Inr (faces2, outs') \<Rightarrow> Inr (faces2, outs @ outs')))"

subsection \<open>CPUs\<close>

lemma pick_cpus_eq: "pick_cpus cpus reserved n resolved = resolved @ take (n - length resolved) (filter (\<lambda>c. c \<notin> set reserved) cpus)"
  by (induction cpus reserved n resolved rule: pick_cpus.induct) (auto simp: Suc_diff_Suc [symmetric] not_less)

lemma fill_cpus_done: "n \<le> length resolved \<Longrightarrow> fill_cpus rx n resolved = resolved"
  by (subst fill_cpus.simps) simp

lemma length_filter_not_in:
  assumes "distinct xs"
  shows "length xs \<le> length (filter (\<lambda>c. c \<notin> set ys) xs) + length ys"
proof -
  have "length (filter (\<lambda>c. c \<notin> set ys) xs) = card (set xs - set ys)"
    using distinct_card [OF distinct_filter [OF assms, of "\<lambda>c. c \<notin> set ys"]] by (metis set_diff_eq set_filter)
  moreover have "card (set xs) - card (set ys) \<le> card (set xs - set ys)" by (rule diff_card_le_card_Diff) simp
  moreover have "card (set ys) \<le> length ys" by (rule card_length)
  ultimately show ?thesis using distinct_card [OF assms] by linarith
qed

lemma free_cpus: "16 \<le> length (filter (\<lambda>c. c \<notin> set reserved) [16..31]) + length reserved"
  using length_filter_not_in [of "[16..31]" reserved] by simp

lemma valid_topology:
  assumes "validate_config c"
  shows "has_three_face_topology (cfg_network c) \<or>
     net_bind_ips (cfg_network c) = [] \<and> net_source_id_map (cfg_network c) = [] \<and> net_cpu_affinity_map (cfg_network c) = []"
    and "has_three_face_topology (cfg_network c) \<Longrightarrow> distinct (net_bind_ips (cfg_network c)) \<and> distinct (net_source_id_map (cfg_network c)) \<and>
     distinct (net_cpu_affinity_map (cfg_network c))"
  using assms by (auto simp: validate_config_def validate_network_def has_three_face_topology_def Let_def split: if_splits)

lemma default_processing_cpus:
  assumes "length rx \<le> 3" "n \<le> 3"
  shows "fill_cpus rx n (pick_cpus [16..31] rx n []) = take n (filter (\<lambda>c. c \<notin> set rx) [16..31])"
  using free_cpus [of rx] assms by (simp add: pick_cpus_eq fill_cpus_done min_def)

lemma valid_bindings:
  assumes valid: "validate_config c"
  shows "map ab_array_id (array_faces (cfg_network c)) = map (\<lambda>i. word_of_nat (i + 1)) [0..<num_faces (cfg_network c)] \<and>
    distinct (map ab_bind_ip (array_faces (cfg_network c))) \<and> distinct (map ab_expected_source_id (array_faces (cfg_network c))) \<and>
    distinct (map ab_cpu_affinity (array_faces (cfg_network c)))"
proof (cases "has_three_face_topology (cfg_network c)")
  case True
  let ?net = "cfg_network c"
  have three: "map ((!) xs) [0..<3] = xs" if "length xs = 3" for xs :: "'z list" using map_nth [of xs] that by simp
  have "map ab_bind_ip (array_faces ?net) = net_bind_ips ?net" "map ab_expected_source_id (array_faces ?net) = net_source_id_map ?net"
    "map ab_cpu_affinity (array_faces ?net) = net_cpu_affinity_map ?net" "map ab_array_id (array_faces ?net) = map (\<lambda>i. word_of_nat (i + 1)) [0..<3]"
    using True three [of "net_bind_ips ?net"] three [of "net_source_id_map ?net"] three [of "net_cpu_affinity_map ?net"]
    by (simp_all add: array_faces_def comp_def has_three_face_topology_def del: upt_Suc)
  then show ?thesis using valid_topology(2) [OF valid True] True by (simp add: num_faces_def)
next
  case False
  then show ?thesis by (simp add: array_faces_def num_faces_def)
qed

text \<open>
  C34: The assembly of a valid configuration: one face, or three with their own addresses, sources and receive CPUs; the faces are numbered from
  1, and every face gets a processing CPU of its own, which is also different from all configured receive CPUs unless the
  configuration names the processing CPUs itself.
\<close>

theorem valid_config_topology:
  assumes valid: "validate_config c"
  defines "n \<equiv> num_faces (cfg_network c)" and "cpus \<equiv> resolve_processing_cpu_affinity_map c (num_faces (cfg_network c))"
  shows "n \<in> {1, 3} \<and> map ab_array_id (array_faces (cfg_network c)) = map (\<lambda>i. word_of_nat (i + 1)) [0..<n] \<and>
    distinct (map ab_bind_ip (array_faces (cfg_network c))) \<and> distinct (map ab_expected_source_id (array_faces (cfg_network c))) \<and>
    distinct (map ab_cpu_affinity (array_faces (cfg_network c))) \<and> length cpus = n \<and> distinct cpus \<and>
    (prf_processing_cpu_affinity_map (cfg_performance c) = [] \<longrightarrow> set cpus \<inter> set (net_cpu_affinity_map (cfg_network c)) = {})"
proof -
  let ?net = "cfg_network c" and ?given = "prf_processing_cpu_affinity_map (cfg_performance c)"
  let ?rx = "net_cpu_affinity_map ?net"
  have n3: "n \<le> 3" "n \<in> {1, 3}" by (auto simp: n_def num_faces_def)
  have rx: "length ?rx \<le> 3" using valid_topology(1) [OF valid] by (auto simp: has_three_face_topology_def)
  have given: "?given = [] \<or> length ?given = n \<and> distinct ?given"
    using valid valid_topology(1) [OF valid]
    by (auto simp: validate_config_def validate_performance_def Let_def n_def num_faces_def has_three_face_topology_def split: if_splits)
  define free where "free = filter (\<lambda>c. c \<notin> set ?rx) [16..31]"
  have "16 \<le> length free + length ?rx" unfolding free_def by (rule free_cpus)
  then have len: "n \<le> length free" using rx n3(1) by linarith
  have dist: "distinct free" unfolding free_def by (intro distinct_filter distinct_upto)
  have disj: "set free \<inter> set ?rx = {}" unfolding free_def set_filter by blast
  have take: "cpus = take n free" if "?given = []"
  proof -
    have "length ?given \<noteq> n" using that n3(2) by auto
    then show ?thesis using default_processing_cpus [OF rx n3(1)]
      unfolding cpus_def n_def resolve_processing_cpu_affinity_map_def Let_def free_def by (simp only: if_False)
  qed
  have own: "length cpus = n \<and> distinct cpus"
  proof (cases "?given = []")
    case True
    then show ?thesis using take len dist by simp
  next
    case False
    then show ?thesis using given by (simp add: cpus_def n_def resolve_processing_cpu_affinity_map_def)
  qed
  have "set cpus \<inter> set ?rx = {}" if "?given = []" using take [OF that] disj set_take_subset [of n free] by blast
  then show ?thesis using n3(2) valid_bindings [OF valid] own by (simp add: n_def)
qed

text \<open>The single face of a configuration without a topology is received and processed on the same CPU.\<close>

lemma single_face_shares_cpu:
  assumes "validate_config c" "\<not> has_three_face_topology (cfg_network c)" "prf_processing_cpu_affinity_map (cfg_performance c) = []"
  shows "map ab_cpu_affinity (array_faces (cfg_network c)) = resolve_processing_cpu_affinity_map c (num_faces (cfg_network c))"
proof -
  have rx: "net_cpu_affinity_map (cfg_network c) = []" using valid_topology(1) [OF assms(1)] assms(2) by simp
  have "[16..31] = 16 # [17..31 :: int]" by (simp add: upto_rec1)
  then have "fill_cpus [] 1 (pick_cpus [16..31] [] 1 []) = [16]" by (simp add: pick_cpus_eq fill_cpus_done)
  then show ?thesis using assms(2,3) by (simp add: array_faces_def num_faces_def resolve_processing_cpu_affinity_map_def rx)
qed

theorem valid_config_topology_witness:
  "num_faces (cfg_network default_receiver_config) = 1 \<and> distinct (resolve_processing_cpu_affinity_map default_receiver_config (num_faces (cfg_network default_receiver_config)))"
  using valid_config_topology [OF default_receiver_config_valid]
  by (auto simp: num_faces_def default_receiver_config_def default_network_def has_three_face_topology_def)

subsection \<open>The faces are independent\<close>

definition events_of :: "nat \<Rightarrow> nat \<Rightarrow> app_event list \<Rightarrow> face_event list" where
  "events_of n i evs = List.map_filter (\<lambda>ev. case face_event_of n ev of Some (j, e) \<Rightarrow> if j = i then Some e else None | None \<Rightarrow> None) evs"

lemma events_of_simps:
  "events_of n i [] = []"
  "events_of n i (ev # evs) = (case face_event_of n ev of Some (j, e) \<Rightarrow> if j = i then e # events_of n i evs else events_of n i evs | None \<Rightarrow> events_of n i evs)"
  by (simp_all add: events_of_def map_filter_def split: option.splits)

lemma face_event_of_bound:
  assumes "face_event_of n ev = Some (i, e)" "n < 2 ^ 64"
  shows "i < n"
proof (cases ev)
  case (Receive array_id raw)
  then show ?thesis using assms by (auto simp: face_event_of_def word_le_nat_alt unat_of_nat take_bit_nat_eq_self not_le split: if_splits)
qed (use assms in \<open>auto simp: face_event_of_def split: if_splits\<close>)

lemma run_app_projects:
  assumes "length faces < 2 ^ 64" and "\<forall>i < length faces. \<exists>fp outs. run_face (events_of (length faces) i evs) (faces ! i) = Inr (fp, outs)"
  shows "\<exists>faces' outs. run_app evs faces = Inr (faces', outs) \<and> length faces' = length faces \<and>
    (\<forall>i < length faces. run_face (events_of (length faces) i evs) (faces ! i) = Inr (faces' ! i, map snd (filter (\<lambda>p. fst p = i) outs)))"
  using assms
proof (induction evs arbitrary: faces)
  case Nil
  then show ?case by (simp add: events_of_simps)
next
  case (Cons ev evs)
  let ?n = "length faces"
  show ?case
  proof (cases "face_event_of ?n ev")
    case None
    then show ?thesis using Cons by (fastforce simp: events_of_simps app_step_def)
  next
    case (Some p)
    then obtain i e where ev: "face_event_of ?n ev = Some (i, e)" by (cases p) auto
    have i: "i < ?n" by (rule face_event_of_bound [OF ev Cons.prems(1)])
    obtain fp1 o1 where s: "face_step e (faces ! i) = Inr (fp1, o1)"
      using Cons.prems(2) i by (fastforce simp: events_of_simps ev split: sum.splits)
    let ?faces = "faces[i := fp1]"
    have rest: "\<exists>fp outs. run_face (events_of ?n j evs) (?faces ! j) = Inr (fp, outs)" if "j < ?n" for j
    proof -
      obtain fp outs where "run_face (events_of ?n j (ev # evs)) (faces ! j) = Inr (fp, outs)" using Cons.prems(2) \<open>j < ?n\<close> by blast
      then show ?thesis using s i by (cases "j = i") (auto simp: events_of_simps ev split: sum.splits)
    qed
    obtain faces' outs where r: "run_app evs ?faces = Inr (faces', outs)" "length faces' = ?n"
        "\<forall>j < ?n. run_face (events_of ?n j evs) (?faces ! j) = Inr (faces' ! j, map snd (filter (\<lambda>p. fst p = j) outs))"
      using Cons.IH [of ?faces] rest Cons.prems(1) by auto
    have "run_app (ev # evs) faces = Inr (faces', map (Pair i) o1 @ outs)" by (simp add: app_step_def ev s r(1))
    moreover have "run_face (events_of ?n j (ev # evs)) (faces ! j) = Inr (faces' ! j, map snd (filter (\<lambda>p. fst p = j) (map (Pair i) o1 @ outs)))"
      if "j < ?n" for j
      using r(3) [rule_format, OF that] s i that by (auto simp: events_of_simps ev nth_list_update filter_map comp_def split: if_splits)
    ultimately show ?thesis using r(2) by blast
  qed
qed

lemma events_of_datagrams: "Datagram raw \<in> set (events_of n i evs) \<Longrightarrow> (\<exists>a. Receive a raw \<in> set evs) \<or> (\<exists>j. Face_event j (Datagram raw) \<in> set evs)"
  by (induction evs) (auto simp: events_of_simps face_event_of_def split: app_event.splits if_splits option.splits)


lemma empty_document_default: "load_sections (sample_yaml (Table [])) (Table []) default_receiver_config = Inr default_receiver_config"
  by (simp add: load_defs sample_yaml_def)


end
