(* ===== verification/Face_Receiver.thy ===== *)
theory Face_Receiver
  imports Packet_Pool Protocol_Containers App_Init "HOL-Library.Code_Target_Nat"
begin

text \<open>
  The UDP receivers: \<^verbatim>\<open>ArrayFaceReceiver\<close> (\<^verbatim>\<open>src/m01_receiver/network/array_face_receiver.cpp\<close>), which receives batches of datagrams into
  buffers of its packet pool, and \<^verbatim>\<open>UdpReceiver\<close> (\<^verbatim>\<open>udp_receiver.cpp\<close>), which starts and stops one per array face.

  Correspondence.  The answers of the operating system (\<^verbatim>\<open>socket\<close>, \<^verbatim>\<open>setsockopt\<close>, \<^verbatim>\<open>bind\<close>, \<^verbatim>\<open>recvmmsg\<close>, thread affinity, the clock, \<^verbatim>\<open>new\<close>)
  are arguments.  A buffer is its address in the pool; a delivered packet carries the address and the bytes received into it.
  \<^verbatim>\<open>recv_buffers\<close>, which lives as long as the receive thread, is a part of the receiver.  The two nested loops of
  \<^verbatim>\<open>receive_loop\<close> are one sequence of rounds with a drain counter.  The packet handler is present, as in every receiver that
  \<^verbatim>\<open>UdpReceiver\<close> creates.  \<open>None\<close> is an access to memory the pool does not own.  Open descriptors are a list.
\<close>

subsection \<open>Configuration\<close>

record ArrayFaceReceiverConfig =
  afc_array_id :: u8
  afc_expected_source_id :: u8
  afc_bind_ip :: string
  afc_listen_port :: u16
  afc_cpu_affinity :: int
  afc_source_filter_enabled :: bool
  afc_recv_batch_size :: u64
  afc_recv_drain_rounds :: u64
  afc_socket_rcvbuf_mb :: u64
  afc_packet_pool_mb :: u64
  afc_enable_ip_freebind :: bool

definition kPacketBufferSize :: nat where "kPacketBufferSize = 65535"

definition effective_batch_size :: "ArrayFaceReceiverConfig \<Rightarrow> u64" where
  "effective_batch_size c = min (max 1 (afc_recv_batch_size c)) 64"

abbreviation batch_count :: "ArrayFaceReceiverConfig \<Rightarrow> nat" where
  "batch_count c \<equiv> unat (effective_batch_size c)"

definition face_pool_size :: "ArrayFaceReceiverConfig \<Rightarrow> u64" where
  "face_pool_size c =
     (let min_pool_size = effective_batch_size c * max 4 (afc_recv_drain_rounds c);
          pool_bytes = afc_packet_pool_mb c * 1024 * 1024;
          budget_pool_size = max 1 ((pool_bytes + (65535 - 1)) div 65535)
      in max min_pool_size budget_pool_size)"

subsection \<open>Counters\<close>

text \<open>\<^verbatim>\<open>UdpReceiverStatistics\<close>, shared by all faces, and the socket counters of the metrics.\<close>

record ReceiverCounters =
  uc_packets_received :: u64
  uc_packets_filtered :: u64
  uc_bytes_received :: u64
  uc_recv_errors :: u64
  uc_affinity_failures :: u64
  uc_socket_bind_failures :: u64
  sm_receive_errors :: u64
  sm_receive_batches :: u64
  sm_packets_received :: u64
  sm_bytes_received :: u64
  sm_source_filtered :: u64

definition no_counts :: ReceiverCounters where
  "no_counts = \<lparr>uc_packets_received = 0, uc_packets_filtered = 0, uc_bytes_received = 0, uc_recv_errors = 0, uc_affinity_failures = 0,
     uc_socket_bind_failures = 0, sm_receive_errors = 0, sm_receive_batches = 0, sm_packets_received = 0, sm_bytes_received = 0, sm_source_filtered = 0\<rparr>"

definition count_recv_error :: "ReceiverCounters \<Rightarrow> ReceiverCounters" where
  "count_recv_error k = k\<lparr>uc_recv_errors := uc_recv_errors k + 1, sm_receive_errors := sm_receive_errors k + 1\<rparr>"

definition count_message :: "nat \<Rightarrow> ReceiverCounters \<Rightarrow> ReceiverCounters" where
  "count_message len k = k\<lparr>sm_packets_received := sm_packets_received k + 1, sm_bytes_received := sm_bytes_received k + word_of_nat len\<rparr>"

definition count_filtered :: "ReceiverCounters \<Rightarrow> ReceiverCounters" where
  "count_filtered k = k\<lparr>uc_packets_filtered := uc_packets_filtered k + 1, sm_source_filtered := sm_source_filtered k + 1\<rparr>"

definition count_received :: "nat \<Rightarrow> ReceiverCounters \<Rightarrow> ReceiverCounters" where
  "count_received len k = k\<lparr>uc_packets_received := uc_packets_received k + 1, uc_bytes_received := uc_bytes_received k + word_of_nat len\<rparr>"

subsection \<open>Messages\<close>

datatype cmsghdr = Cmsg (cmsg_level: int) (cmsg_type: int) (cmsg_data: u8)

record message =
  msg_data :: bytes
  msg_control :: "cmsghdr list"

datatype recvmmsg_answer = Received_messages "message list" | Recv_failed int

definition IPPROTO_IP :: int where "IPPROTO_IP = 0"
definition IP_TOS :: int where "IP_TOS = 1"
definition errno_EINTR :: int where "errno_EINTR = 4"
definition errno_EAGAIN :: int where "errno_EAGAIN = 11"

fun extract_dscp_from_cmsg :: "cmsghdr list \<Rightarrow> u8" where
  "extract_dscp_from_cmsg [] = 0"
| "extract_dscp_from_cmsg (c # cs) =
     (if cmsg_level c = IPPROTO_IP \<and> cmsg_type c = IP_TOS then drop_bit 2 (cmsg_data c) else extract_dscp_from_cmsg cs)"

definition classify_priority :: "bytes option \<Rightarrow> nat \<Rightarrow> u8 \<Rightarrow> PacketPriority" where
  "classify_priority buffer len dscp =
     (if dscp = 48 then HIGH
      else case buffer of
        None \<Rightarrow> NORMAL
      | Some bs \<Rightarrow> if len > 18 \<and> bs ! 18 = packet_type_code HEARTBEAT then HIGH else NORMAL)"

text \<open>What the handler gets: \<^verbatim>\<open>ReceivedPacket\<close> with the face and the priority, which the receive stage does not read.\<close>

record FacePacket = ReceivedPacket +
  fk_array_id :: u8
  fk_priority :: PacketPriority

subsection \<open>The receiver of a face\<close>

record ArrayFaceReceiver =
  ar_config :: ArrayFaceReceiverConfig
  ar_running :: bool
  ar_affinity_verified :: bool
  ar_sockfd :: int
  ar_pool :: PacketPool
  ar_recv_buffers :: "nat option list"
  ar_drain_round :: nat

definition face_receiver_new :: "nat option \<Rightarrow> ArrayFaceReceiverConfig \<Rightarrow> ArrayFaceReceiver" where
  "face_receiver_new storage c =
     \<lparr>ar_config = c, ar_running = False, ar_affinity_verified = False, ar_sockfd = -1,
      ar_pool = packet_pool_new kPacketBufferSize (unat (face_pool_size c)) storage, ar_recv_buffers = [], ar_drain_round = 0\<rparr>"

text \<open>The local state of a batch: what remains in \<^verbatim>\<open>recv_buffers\<close>, the calls of the capture hook, the two buckets.\<close>

record BatchState =
  bs_pool :: PacketPool
  bs_recv_buffers :: "nat option list"
  bs_counters :: ReceiverCounters
  bs_captured :: "(bytes \<times> nat \<times> u64) list"
  bs_heartbeat_batch :: "FacePacket list"
  bs_data_batch :: "FacePacket list"

fun allocate_buffers :: "((nat \<times> u32) list \<Rightarrow> nat option) \<Rightarrow> nat \<Rightarrow> nat \<Rightarrow> PacketPool \<Rightarrow> nat option list \<Rightarrow> PacketPool \<times> nat option list \<times> bool" where
  "allocate_buffers nw 0 i p bufs = (p, bufs, True)"
| "allocate_buffers nw (Suc n) i p bufs =
     (case pp_allocate nw p of
        (p', None) \<Rightarrow> (p', bufs[i := None], False)
      | (p', Some x) \<Rightarrow> allocate_buffers nw n (Suc i) p' (bufs[i := Some x]))"

fun return_buffers :: "nat option list \<Rightarrow> PacketPool \<Rightarrow> PacketPool option" where
  "return_buffers [] p = Some p"
| "return_buffers (None # bufs) p = return_buffers bufs p"
| "return_buffers (Some x # bufs) p = (case pp_deallocate (Some x) p of None \<Rightarrow> None | Some p' \<Rightarrow> return_buffers bufs p')"

definition source_accepted :: "ArrayFaceReceiverConfig \<Rightarrow> message \<Rightarrow> bool" where
  "source_accepted c m \<longleftrightarrow> \<not> (afc_source_filter_enabled c \<and> (length (msg_data m) \<le> 20 \<or> msg_data m ! 20 \<noteq> afc_expected_source_id c))"

definition pending_packet :: "ArrayFaceReceiverConfig \<Rightarrow> u64 \<Rightarrow> nat option \<Rightarrow> message \<Rightarrow> FacePacket" where
  "pending_packet c ts buf m =
     \<lparr>rp_data = map_option (\<lambda>x. (x, msg_data m)) buf, rp_length = length (msg_data m), rp_receive_timestamp_ns = ts,
      fk_array_id = afc_array_id c,
      fk_priority = classify_priority (map_option (\<lambda>x. msg_data m) buf) (length (msg_data m)) (extract_dscp_from_cmsg (msg_control m))\<rparr>"

definition receive_message :: "ArrayFaceReceiverConfig \<Rightarrow> bool \<Rightarrow> u64 \<Rightarrow> nat \<Rightarrow> message \<Rightarrow> BatchState \<Rightarrow> BatchState option" where
  "receive_message c hook ts i m b =
     (let len = length (msg_data m); buf = bs_recv_buffers b ! i;
          b1 = b\<lparr>bs_recv_buffers := (bs_recv_buffers b)[i := None], bs_counters := count_message len (bs_counters b)\<rparr>
      in if \<not> source_accepted c m then
           (case pp_deallocate buf (bs_pool b1) of
              None \<Rightarrow> None
            | Some p \<Rightarrow> Some (b1\<lparr>bs_pool := p, bs_counters := count_filtered (bs_counters b1)\<rparr>))
         else
           (let pk = pending_packet c ts buf m;
                b2 = b1\<lparr>bs_captured := bs_captured b1 @ (if hook then [(msg_data m, len, ts div 1000)] else []),
                        bs_counters := count_received len (bs_counters b1)\<rparr>
            in Some (if fk_priority pk = HIGH then b2\<lparr>bs_heartbeat_batch := bs_heartbeat_batch b2 @ [pk]\<rparr>
                     else b2\<lparr>bs_data_batch := bs_data_batch b2 @ [pk]\<rparr>)))"

fun receive_messages :: "ArrayFaceReceiverConfig \<Rightarrow> bool \<Rightarrow> u64 \<Rightarrow> nat \<Rightarrow> message list \<Rightarrow> BatchState \<Rightarrow> BatchState option" where
  "receive_messages c hook ts i [] b = Some b"
| "receive_messages c hook ts i (m # ms) b =
     (case receive_message c hook ts i m b of None \<Rightarrow> None | Some b' \<Rightarrow> receive_messages c hook ts (Suc i) ms b')"

text \<open>What the environment answers in one round; whether \<^verbatim>\<open>recvmmsg\<close> may wait depends on the drain round.\<close>

record round_env =
  re_new :: "(nat \<times> u32) list \<Rightarrow> nat option"
  re_recvmmsg :: "bool \<Rightarrow> recvmmsg_answer"
  re_running :: bool
  re_steady_ns :: u64
  re_capture_hook :: bool

definition next_drain :: "ArrayFaceReceiverConfig \<Rightarrow> nat \<Rightarrow> nat \<Rightarrow> nat" where
  "next_drain c d received =
     (if received < batch_count c then 0 else if d + 1 < unat (max 1 (afc_recv_drain_rounds c)) then d + 1 else 0)"

definition receive_round :: "round_env \<Rightarrow> ArrayFaceReceiver \<Rightarrow> ReceiverCounters \<Rightarrow>
    (ArrayFaceReceiver \<times> ReceiverCounters \<times> (bytes \<times> nat \<times> u64) list \<times> FacePacket list) option" where
  "receive_round env r k =
     (let c = ar_config r in
      case allocate_buffers (re_new env) (batch_count c) 0 (ar_pool r) (ar_recv_buffers r) of (p, bufs, allocated) \<Rightarrow>
        let r1 = r\<lparr>ar_recv_buffers := bufs\<rparr> in
        if \<not> allocated then
          map_option (\<lambda>p'. (r1\<lparr>ar_pool := p', ar_drain_round := 0\<rparr>, count_recv_error k, [], [])) (return_buffers bufs p)
        else case re_recvmmsg env (ar_drain_round r \<noteq> 0) of
            Recv_failed err \<Rightarrow>
              map_option (\<lambda>p'. (r1\<lparr>ar_pool := p', ar_drain_round := 0\<rparr>,
                 if re_running env \<and> err \<noteq> errno_EINTR \<and> err \<noteq> errno_EAGAIN then count_recv_error k else k, [], [])) (return_buffers bufs p)
          | Received_messages ms \<Rightarrow>
              if ms = [] then map_option (\<lambda>p'. (r1\<lparr>ar_pool := p', ar_drain_round := 0\<rparr>, k, [], [])) (return_buffers bufs p)
              else
                (case receive_messages c (re_capture_hook env) (re_steady_ns env) 0 ms
                        \<lparr>bs_pool = p, bs_recv_buffers = bufs, bs_counters = k\<lparr>sm_receive_batches := sm_receive_batches k + 1\<rparr>,
                         bs_captured = [], bs_heartbeat_batch = [], bs_data_batch = []\<rparr> of
                   None \<Rightarrow> None
                 | Some b \<Rightarrow>
                    map_option (\<lambda>p'. (r1\<lparr>ar_pool := p', ar_recv_buffers := bs_recv_buffers b,
                                         ar_drain_round := next_drain c (ar_drain_round r) (length ms)\<rparr>,
                                      bs_counters b, bs_captured b, bs_heartbeat_batch b @ bs_data_batch b))
                      (return_buffers (bs_recv_buffers b) (bs_pool b))))"

text \<open>
  The receive thread together with the threads that own delivered packets: they give buffers back at any time between rounds.
  The last component is the list of the buffers delivered and not yet given back.
\<close>

datatype loop_event = Round round_env | Release nat

record loop_state =
  ls_receiver :: ArrayFaceReceiver
  ls_counters :: ReceiverCounters
  ls_captured :: "(bytes \<times> nat \<times> u64) list"
  ls_delivered :: "FacePacket list"
  ls_held :: "nat list"

definition packet_buffers :: "FacePacket list \<Rightarrow> nat list" where
  "packet_buffers pks = List.map_filter (\<lambda>pk. map_option fst (rp_data pk)) pks"

fun loop_step :: "loop_event \<Rightarrow> loop_state \<Rightarrow> loop_state option" where
  "loop_step (Round env) s =
     (case receive_round env (ls_receiver s) (ls_counters s) of
        None \<Rightarrow> None
      | Some (r, k, captured, delivered) \<Rightarrow>
          Some (s\<lparr>ls_receiver := r, ls_counters := k, ls_captured := ls_captured s @ captured, ls_delivered := ls_delivered s @ delivered,
                  ls_held := ls_held s @ packet_buffers delivered\<rparr>))"
| "loop_step (Release x) s =
     (if x \<in> set (ls_held s)
      then (case pp_deallocate (Some x) (ar_pool (ls_receiver s)) of
              None \<Rightarrow> None
            | Some p \<Rightarrow> Some (s\<lparr>ls_receiver := (ls_receiver s)\<lparr>ar_pool := p\<rparr>, ls_held := remove1 x (ls_held s)\<rparr>))
      else Some s)"

fun run_loop :: "loop_event list \<Rightarrow> loop_state \<Rightarrow> loop_state option" where
  "run_loop [] s = Some s"
| "run_loop (ev # evs) s = (case loop_step ev s of None \<Rightarrow> None | Some s' \<Rightarrow> run_loop evs s')"

subsection \<open>Start and stop of a face\<close>

record socket_io =
  so_socket :: int
  so_set_rcvbuf :: "int \<Rightarrow> int"
  so_set_freebind :: int
  so_set_rcvtimeo :: int
  so_inet_pton :: "string \<Rightarrow> int"
  so_bind :: "string \<Rightarrow> u16 \<Rightarrow> int"

record thread_io =
  th_setaffinity :: "int list \<Rightarrow> int"
  th_getaffinity :: "int list option"

definition rcvbuf_bytes :: "ArrayFaceReceiverConfig \<Rightarrow> int" where
  "rcvbuf_bytes c = sint (ucast (afc_socket_rcvbuf_mb c * 1024 * 1024) :: 32 word)"

definition initialize_socket :: "socket_io \<Rightarrow> ArrayFaceReceiverConfig \<Rightarrow> int list \<Rightarrow> int \<times> int list" where
  "initialize_socket io c fds =
     (let sockfd = so_socket io in
      if sockfd < 0 then (-1, fds)
      else let opened = sockfd # fds; close = remove1 sockfd opened in
        if so_set_rcvbuf io (rcvbuf_bytes c) \<noteq> 0 then (-1, close)
        else if afc_enable_ip_freebind c \<and> so_set_freebind io \<noteq> 0 then (-1, close)
        else if so_set_rcvtimeo io \<noteq> 0 then (-1, close)
        else if so_inet_pton io (afc_bind_ip c) \<noteq> 1 then (-1, close)
        else if so_bind io (afc_bind_ip c) (afc_listen_port c) < 0 then (-1, close)
        else (sockfd, opened))"

definition bind_current_thread_to_cpu :: "thread_io \<Rightarrow> ArrayFaceReceiverConfig \<Rightarrow> bool" where
  "bind_current_thread_to_cpu io c =
     (if th_setaffinity io [afc_cpu_affinity c] \<noteq> 0 then False
      else case th_getaffinity io of None \<Rightarrow> False | Some actual \<Rightarrow> afc_cpu_affinity c \<in> set actual)"

text \<open>The beginning of the thread, \<^verbatim>\<open>run\<close>, up to its first round.\<close>

definition face_run :: "thread_io \<Rightarrow> ArrayFaceReceiver \<Rightarrow> ReceiverCounters \<Rightarrow> ArrayFaceReceiver \<times> ReceiverCounters" where
  "face_run io r k =
     (let affinity_ok = bind_current_thread_to_cpu io (ar_config r) in
      (r\<lparr>ar_affinity_verified := affinity_ok, ar_recv_buffers := replicate (batch_count (ar_config r)) None, ar_drain_round := 0\<rparr>,
       if affinity_ok then k else k\<lparr>uc_affinity_failures := uc_affinity_failures k + 1, uc_recv_errors := uc_recv_errors k + 1\<rparr>))"

definition face_start :: "socket_io \<Rightarrow> thread_io \<Rightarrow> ArrayFaceReceiver \<Rightarrow> ReceiverCounters \<Rightarrow> int list \<Rightarrow>
    ArrayFaceReceiver \<times> ReceiverCounters \<times> int list \<times> bool" where
  "face_start sio tio r k fds =
     (if ar_running r then (r, k, fds, True)
      else case initialize_socket sio (ar_config r) fds of (sockfd, fds') \<Rightarrow>
        let r1 = r\<lparr>ar_running := True, ar_sockfd := sockfd\<rparr> in
        if sockfd < 0 then
          (r1\<lparr>ar_running := False\<rparr>,
           k\<lparr>uc_socket_bind_failures := uc_socket_bind_failures k + 1, uc_recv_errors := uc_recv_errors k + 1\<rparr>, fds', False)
        else (case face_run tio r1 k of (r2, k2) \<Rightarrow> (r2, k2, fds', True)))"

definition face_stop :: "ArrayFaceReceiver \<Rightarrow> int list \<Rightarrow> ArrayFaceReceiver \<times> int list" where
  "face_stop r fds =
     (if \<not> ar_running r then (r, fds)
      else if ar_sockfd r \<ge> 0 then (r\<lparr>ar_running := False, ar_sockfd := -1\<rparr>, remove1 (ar_sockfd r) fds)
      else (r\<lparr>ar_running := False\<rparr>, fds))"

subsection \<open>Buffers in use\<close>

context buffer_pool
begin

lemma al_used:
  assumes "ok p" and "al p = (p', Some b)"
  shows "ok p'" and "b \<notin> (buffers p - set (free p)) \<union> others p"
    and "(buffers p' - set (free p')) \<union> others p' = insert b ((buffers p - set (free p)) \<union> others p)"
proof -
  note fo = free_ok [OF assms(1)]
  have "ok p' \<and> b \<notin> (buffers p - set (free p)) \<union> others p \<and>
     (buffers p' - set (free p')) \<union> others p' = insert b ((buffers p - set (free p)) \<union> others p)"
  proof (cases "free p")
    case Nil
    from al_empty [OF assms(1) Nil] assms(2) have q: "ok p'" "free p' = []" "buffers p' = buffers p" "b \<notin> others p" "others p' = insert b (others p)"
      by auto
    then have "b \<notin> buffers p" using free_ok [OF q(1)] by auto
    then show ?thesis using q Nil by auto
  next
    case (Cons x xs)
    from al_free [OF assms(1) Cons] assms(2) have "ok p'" "free p' = xs" "buffers p' = buffers p" "others p' = others p" "x = b" by auto
    then show ?thesis using fo Cons by auto
  qed
  then show "ok p'" and "b \<notin> (buffers p - set (free p)) \<union> others p"
    and "(buffers p' - set (free p')) \<union> others p' = insert b ((buffers p - set (free p)) \<union> others p)" by blast+
qed

lemma de_used:
  assumes "ok p" and "b \<in> (buffers p - set (free p)) \<union> others p"
  shows "\<exists>p'. de b p = Some p' \<and> ok p' \<and> (buffers p' - set (free p')) \<union> others p' = (buffers p - set (free p)) \<union> others p - {b}"
proof (cases "b \<in> others p")
  case True
  with free_ok [OF assms(1)] have "b \<notin> buffers p" by blast
  with de_other [OF assms(1) True] show ?thesis by auto
next
  case False
  then have "b \<in> buffers p" "b \<notin> set (free p)" using assms(2) by auto
  from de_free [OF assms(1) this] False show ?thesis by auto
qed

end

definition pool_used :: "PacketPool \<Rightarrow> nat set" where
  "pool_used p = (pp_buffers p - set (pp_free p)) \<union> pp_fallback p"

definition new_total :: "nat \<Rightarrow> nat \<Rightarrow> ((nat \<times> u32) list \<Rightarrow> nat option) \<Rightarrow> bool" where
  "new_total b e nw \<longleftrightarrow> new_ok b e nw \<and> (\<forall>heap. nw heap \<noteq> None)"

lemma pool_take:
  assumes "new_total b e nw" and "pp_ok b e p"
  obtains p' x where "pp_allocate nw p = (p', Some x)" "pp_ok b e p'" "x \<notin> pool_used p" "pool_used p' = insert x (pool_used p)"
proof -
  have nw: "checked_new b e nw = nw" using assms(1) checked_new_id by (simp add: new_total_def)
  obtain raw where "nw (pp_heap p) = Some raw" using assms(1) by (auto simp: new_total_def)
  then obtain p' x where a: "pp_allocate nw p = (p', Some x)" by (cases "pp_free_head p") (auto simp: pp_allocate_def Let_def)
  from packet_pool.al_used [OF assms(2), of nw p' x, unfolded nw, OF a] a that show ?thesis by (simp add: pool_used_def)
qed

lemma pool_give:
  assumes "pp_ok b e p" and "x \<in> pool_used p"
  obtains p' where "pp_deallocate (Some x) p = Some p'" "pp_ok b e p'" "pool_used p' = pool_used p - {x}"
  using packet_pool.de_used [OF assms(1), of x] assms(2) that by (auto simp: pool_used_def)

lemma allocate_buffers_ok:
  assumes "new_total b e nw" "pp_ok b e p" "i + n \<le> length bufs"
  shows "\<exists>p' xs. allocate_buffers nw n i p bufs = (p', take i bufs @ map Some xs @ drop (i + n) bufs, True) \<and> pp_ok b e p' \<and>
    length xs = n \<and> distinct xs \<and> set xs \<inter> pool_used p = {} \<and> pool_used p' = pool_used p \<union> set xs"
  using assms(2,3)
proof (induction n arbitrary: i p bufs)
  case (Suc n)
  obtain p1 x where p1: "pp_allocate nw p = (p1, Some x)" "pp_ok b e p1" "x \<notin> pool_used p" "pool_used p1 = insert x (pool_used p)"
    by (rule pool_take [OF assms(1) Suc.prems(1)])
  obtain p' xs where r: "allocate_buffers nw n (Suc i) p1 (bufs[i := Some x]) =
      (p', take (Suc i) (bufs[i := Some x]) @ map Some xs @ drop (Suc i + n) (bufs[i := Some x]), True)"
      "pp_ok b e p'" "length xs = n" "distinct xs" "set xs \<inter> pool_used p1 = {}" "pool_used p' = pool_used p1 \<union> set xs"
    using Suc.IH [OF p1(2), of "Suc i" "bufs[i := Some x]"] Suc.prems(2) by auto
  have "take (Suc i) (bufs[i := Some x]) = take i bufs @ [Some x]" using Suc.prems(2) by (simp add: take_Suc_conv_app_nth)
  then show ?case using r p1 by (intro exI [of _ p'] exI [of _ "x # xs"]) auto
qed (simp add: exI [of _ "[]"])

lemma return_buffers_ok:
  assumes "pp_ok b e p" "distinct xs" "set xs \<subseteq> pool_used p"
  shows "\<exists>p'. return_buffers (replicate n None @ map Some xs) p = Some p' \<and> pp_ok b e p' \<and> pool_used p' = pool_used p - set xs"
proof (induction n)
  case 0
  show ?case using assms
  proof (induction xs arbitrary: p)
    case (Cons x xs)
    obtain p1 where p1: "pp_deallocate (Some x) p = Some p1" "pp_ok b e p1" "pool_used p1 = pool_used p - {x}"
      using pool_give [OF Cons.prems(1), of x] Cons.prems(3) by auto
    have "set xs \<subseteq> pool_used p1" using Cons.prems(2,3) p1(3) by auto
    from Cons.IH [OF p1(2) _ this] Cons.prems(2) obtain p' where "return_buffers (map Some xs) p1 = Some p'" "pp_ok b e p'"
      "pool_used p' = pool_used p1 - set xs" by auto
    then show ?case using p1 by auto
  qed simp
qed simp

subsection \<open>A batch of messages\<close>

definition msg_priority :: "message \<Rightarrow> PacketPriority" where
  "msg_priority m = classify_priority (Some (msg_data m)) (length (msg_data m)) (extract_dscp_from_cmsg (msg_control m))"

definition passed :: "ArrayFaceReceiverConfig \<Rightarrow> PacketPriority \<Rightarrow> (nat \<times> message) list \<Rightarrow> (nat \<times> message) list" where
  "passed c pr xms = filter (\<lambda>(x, m). source_accepted c m \<and> msg_priority m = pr) xms"

definition pending_of :: "ArrayFaceReceiverConfig \<Rightarrow> u64 \<Rightarrow> nat \<times> message \<Rightarrow> FacePacket" where
  "pending_of c ts = (\<lambda>(x, m). pending_packet c ts (Some x) m)"

definition count_batch :: "ArrayFaceReceiverConfig \<Rightarrow> message list \<Rightarrow> ReceiverCounters \<Rightarrow> ReceiverCounters" where
  "count_batch c ms k = fold (\<lambda>m k. if source_accepted c m then count_received (length (msg_data m)) (count_message (length (msg_data m)) k)
     else count_filtered (count_message (length (msg_data m)) k)) ms k"

definition captures_of :: "ArrayFaceReceiverConfig \<Rightarrow> bool \<Rightarrow> u64 \<Rightarrow> message list \<Rightarrow> (bytes \<times> nat \<times> u64) list" where
  "captures_of c hook ts ms = (if hook then map (\<lambda>m. (msg_data m, length (msg_data m), ts div 1000)) (filter (source_accepted c) ms) else [])"

lemma receive_messages_ok:
  assumes "pp_ok b e (bs_pool st)" "bs_recv_buffers st = replicate i None @ map Some xs" "distinct xs" "set xs \<subseteq> pool_used (bs_pool st)"
    and "length ms \<le> length xs"
  shows "\<exists>p'. receive_messages c hook ts i ms st = Some \<lparr>bs_pool = p',
       bs_recv_buffers = replicate (i + length ms) None @ map Some (drop (length ms) xs),
       bs_counters = count_batch c ms (bs_counters st), bs_captured = bs_captured st @ captures_of c hook ts ms,
       bs_heartbeat_batch = bs_heartbeat_batch st @ map (pending_of c ts) (passed c HIGH (zip xs ms)),
       bs_data_batch = bs_data_batch st @ map (pending_of c ts) (passed c NORMAL (zip xs ms))\<rparr> \<and>
    pp_ok b e p' \<and> pool_used p' = pool_used (bs_pool st) - fst ` {xm \<in> set (zip xs ms). \<not> source_accepted c (snd xm)}"
  using assms
proof (induction ms arbitrary: i xs st)
  case Nil
  then show ?case by (intro exI [of _ "bs_pool st"]) (cases st, simp add: count_batch_def captures_of_def passed_def)
next
  case (Cons m ms)
  obtain x xs' where xs: "xs = x # xs'" using Cons.prems(5) by (cases xs) auto
  have buf: "bs_recv_buffers st ! i = Some x" and upd: "(bs_recv_buffers st)[i := None] = replicate (Suc i) None @ map Some xs'"
    using Cons.prems(2) xs by (simp_all add: nth_append list_update_append replicate_append_same [symmetric])
  show ?case
  proof (cases "source_accepted c m")
    case True
    let ?pk = "pending_packet c ts (Some x) m"
    have pr: "fk_priority ?pk = msg_priority m" by (simp add: pending_packet_def msg_priority_def)
    obtain st1 where st1: "receive_message c hook ts i m st = Some st1" by (simp add: receive_message_def Let_def True)
    have f: "bs_pool st1 = bs_pool st" "bs_recv_buffers st1 = replicate (Suc i) None @ map Some xs'"
      "bs_counters st1 = count_received (length (msg_data m)) (count_message (length (msg_data m)) (bs_counters st))"
      "bs_captured st1 = bs_captured st @ captures_of c hook ts [m]"
      "bs_heartbeat_batch st1 = bs_heartbeat_batch st @ map (pending_of c ts) (passed c HIGH [(x, m)])"
      "bs_data_batch st1 = bs_data_batch st @ map (pending_of c ts) (passed c NORMAL [(x, m)])"
      using st1 True by (cases "msg_priority m"; force simp: receive_message_def Let_def buf upd pr passed_def pending_of_def captures_of_def)+
    have "set xs' \<subseteq> pool_used (bs_pool st1)" using Cons.prems(4) xs f(1) by auto
    from Cons.IH [OF _ f(2) _ this] Cons.prems(1,3,5) xs f(1) obtain p' where
      r: "receive_messages c hook ts (Suc i) ms st1 = Some \<lparr>bs_pool = p',
         bs_recv_buffers = replicate (Suc i + length ms) None @ map Some (drop (length ms) xs'),
         bs_counters = count_batch c ms (bs_counters st1), bs_captured = bs_captured st1 @ captures_of c hook ts ms,
         bs_heartbeat_batch = bs_heartbeat_batch st1 @ map (pending_of c ts) (passed c HIGH (zip xs' ms)),
         bs_data_batch = bs_data_batch st1 @ map (pending_of c ts) (passed c NORMAL (zip xs' ms))\<rparr>" "pp_ok b e p'"
      "pool_used p' = pool_used (bs_pool st1) - fst ` {xm \<in> set (zip xs' ms). \<not> source_accepted c (snd xm)}" by auto
    have "{xm \<in> set (zip xs (m # ms)). \<not> source_accepted c (snd xm)} = {xm \<in> set (zip xs' ms). \<not> source_accepted c (snd xm)}"
      using True xs by auto
    then show ?thesis using r st1 f True xs by (simp add: count_batch_def captures_of_def passed_def)
  next
    case False
    obtain p1 where p1: "pp_deallocate (Some x) (bs_pool st) = Some p1" "pp_ok b e p1" "pool_used p1 = pool_used (bs_pool st) - {x}"
      using pool_give [OF Cons.prems(1), of x] Cons.prems(4) xs by auto
    define st1 where "st1 = st\<lparr>bs_recv_buffers := replicate (Suc i) None @ map Some xs', bs_pool := p1,
      bs_counters := count_filtered (count_message (length (msg_data m)) (bs_counters st))\<rparr>"
    have st1: "receive_message c hook ts i m st = Some st1" by (simp add: receive_message_def Let_def False buf upd p1(1) st1_def)
    have "set xs' \<subseteq> pool_used p1" using Cons.prems(3,4) xs p1(3) by auto
    then obtain p' where
      r: "receive_messages c hook ts (Suc i) ms st1 = Some \<lparr>bs_pool = p',
         bs_recv_buffers = replicate (Suc i + length ms) None @ map Some (drop (length ms) xs'),
         bs_counters = count_batch c ms (bs_counters st1), bs_captured = bs_captured st1 @ captures_of c hook ts ms,
         bs_heartbeat_batch = bs_heartbeat_batch st1 @ map (pending_of c ts) (passed c HIGH (zip xs' ms)),
         bs_data_batch = bs_data_batch st1 @ map (pending_of c ts) (passed c NORMAL (zip xs' ms))\<rparr>" "pp_ok b e p'"
      "pool_used p' = pool_used p1 - fst ` {xm \<in> set (zip xs' ms). \<not> source_accepted c (snd xm)}"
      using Cons.IH [of st1 "Suc i" xs'] Cons.prems(3,5) xs p1(2) by (auto simp: st1_def)
    have "fst ` {xm \<in> set (zip xs (m # ms)). \<not> source_accepted c (snd xm)} = insert x (fst ` {xm \<in> set (zip xs' ms). \<not> source_accepted c (snd xm)})"
      using False xs by force
    then show ?thesis using r st1 False xs p1(3) by (simp add: st1_def count_batch_def captures_of_def passed_def) blast
  qed
qed

subsection \<open>A round\<close>

lemma batch_partition:
  assumes "distinct xs" "length ms \<le> length xs"
  shows "set xs = fst ` {xm \<in> set (zip xs ms). P (snd xm)} \<union> fst ` {xm \<in> set (zip xs ms). \<not> P (snd xm)} \<union> set (drop (length ms) xs)"
    and "fst ` {xm \<in> set (zip xs ms). P (snd xm)} \<inter> fst ` {xm \<in> set (zip xs ms). \<not> P (snd xm)} = {}"
    and "fst ` set (zip xs ms) \<inter> set (drop (length ms) xs) = {}"
proof -
  have take: "map fst (zip xs ms) = take (length ms) xs" using assms(2) by (simp add: map_fst_zip_take min_def)
  then have z: "fst ` set (zip xs ms) = set (take (length ms) xs)" by (metis list.set_map)
  have "set xs = set (take (length ms) xs) \<union> set (drop (length ms) xs)" by (metis append_take_drop_id set_append)
  then show "set xs = fst ` {xm \<in> set (zip xs ms). P (snd xm)} \<union> fst ` {xm \<in> set (zip xs ms). \<not> P (snd xm)} \<union> set (drop (length ms) xs)"
    using z by blast
  have "inj_on fst (set (zip xs ms))" using take assms(1) by (metis distinct_map distinct_take)
  then show "fst ` {xm \<in> set (zip xs ms). P (snd xm)} \<inter> fst ` {xm \<in> set (zip xs ms). \<not> P (snd xm)} = {}" by (auto dest: inj_onD)
  show "fst ` set (zip xs ms) \<inter> set (drop (length ms) xs) = {}" unfolding z by (rule set_take_disj_set_drop_if_distinct [OF assms(1)]) simp
qed

definition answer_messages :: "recvmmsg_answer \<Rightarrow> message list" where
  "answer_messages a = (case a of Received_messages ms \<Rightarrow> ms | Recv_failed err \<Rightarrow> [])"

definition round_ok :: "nat \<Rightarrow> nat \<Rightarrow> ArrayFaceReceiverConfig \<Rightarrow> round_env \<Rightarrow> bool" where
  "round_ok b e c env \<longleftrightarrow> new_total b e (re_new env) \<and> (\<forall>d. length (answer_messages (re_recvmmsg env d)) \<le> batch_count c)"

lemma batch_count_pos: "0 < batch_count c"
proof -
  have "1 \<le> effective_batch_size c" by (simp add: effective_batch_size_def max_def min_def not_le word_le_nat_alt word_less_nat_alt)
  then show ?thesis by (simp add: word_le_nat_alt)
qed

lemma next_drain_none [simp]: "next_drain c d 0 = 0"
  using batch_count_pos [of c] by (simp add: next_drain_def)

lemma count_batch_counts:
  "uc_packets_received (count_batch c ms k) = uc_packets_received k + word_of_nat (length (filter (source_accepted c) ms))"
  "uc_packets_filtered (count_batch c ms k) = uc_packets_filtered k + word_of_nat (length (filter (\<lambda>m. \<not> source_accepted c m) ms))"
  "uc_bytes_received (count_batch c ms k) = uc_bytes_received k + word_of_nat (sum_list (map (\<lambda>m. length (msg_data m)) (filter (source_accepted c) ms)))"
  by (induction ms arbitrary: k) (simp_all add: count_batch_def count_received_def count_filtered_def count_message_def)

lemma count_recv_error_same [simp]:
  "uc_packets_received (count_recv_error k) = uc_packets_received k" "uc_packets_filtered (count_recv_error k) = uc_packets_filtered k"
  "uc_bytes_received (count_recv_error k) = uc_bytes_received k"
  by (simp_all add: count_recv_error_def)

definition counts_batch :: "ArrayFaceReceiverConfig \<Rightarrow> message list \<Rightarrow> ReceiverCounters \<Rightarrow> ReceiverCounters \<Rightarrow> bool" where
  "counts_batch c ms k k' \<longleftrightarrow>
     uc_packets_received k' = uc_packets_received k + word_of_nat (length (filter (source_accepted c) ms)) \<and>
     uc_packets_filtered k' = uc_packets_filtered k + word_of_nat (length (filter (\<lambda>m. \<not> source_accepted c m) ms)) \<and>
     uc_bytes_received k' = uc_bytes_received k + word_of_nat (sum_list (map (\<lambda>m. length (msg_data m)) (filter (source_accepted c) ms)))"

lemma receive_round_ok:
  assumes "pp_ok b e (ar_pool r)" "length (ar_recv_buffers r) = batch_count (ar_config r)" "round_ok b e (ar_config r) env"
  defines "ms \<equiv> answer_messages (re_recvmmsg env (ar_drain_round r \<noteq> 0))" and "c \<equiv> ar_config r"
  shows "\<exists>p' xs bufs k'. receive_round env r k = Some (r\<lparr>ar_pool := p', ar_recv_buffers := bufs, ar_drain_round := next_drain c (ar_drain_round r) (length ms)\<rparr>,
       k', captures_of c (re_capture_hook env) (re_steady_ns env) ms,
       map (pending_of c (re_steady_ns env)) (passed c HIGH (zip xs ms) @ passed c NORMAL (zip xs ms))) \<and>
     pp_ok b e p' \<and> length bufs = batch_count c \<and> distinct xs \<and> length ms \<le> length xs \<and> set xs \<inter> pool_used (ar_pool r) = {} \<and>
     counts_batch c ms k k' \<and>
     pool_used p' = pool_used (ar_pool r) \<union> fst ` {xm \<in> set (zip xs ms). source_accepted c (snd xm)}"
proof -
  let ?ans = "re_recvmmsg env (ar_drain_round r \<noteq> 0)"
  have len: "length ms \<le> batch_count c" and new: "new_total b e (re_new env)" using assms(3) by (simp_all add: round_ok_def ms_def c_def)
  obtain p xs where al: "allocate_buffers (re_new env) (batch_count c) 0 (ar_pool r) (ar_recv_buffers r) = (p, map Some xs, True)"
      "pp_ok b e p" "length xs = batch_count c" "distinct xs" "set xs \<inter> pool_used (ar_pool r) = {}" "pool_used p = pool_used (ar_pool r) \<union> set xs"
    using allocate_buffers_ok [OF new assms(1), of 0 "batch_count c" "ar_recv_buffers r"] assms(2) by (auto simp: c_def)
  show ?thesis
  proof (cases "ms = []")
    case True
    obtain p' where p': "return_buffers (map Some xs) p = Some p'" "pp_ok b e p'" "pool_used p' = pool_used p - set xs"
      using return_buffers_ok [OF al(2,4), of 0] al(6) by auto
    let ?r = "r\<lparr>ar_pool := p', ar_recv_buffers := map Some xs, ar_drain_round := 0\<rparr>"
    have "\<exists>k'. receive_round env r k = Some (?r, k', [], []) \<and> counts_batch c [] k k'"
    proof (cases ?ans)
      case (Received_messages qs)
      then have "qs = []" using True by (simp add: ms_def answer_messages_def)
      then show ?thesis using Received_messages al(1) p'(1) by (simp add: receive_round_def c_def [symmetric] counts_batch_def)
    next
      case (Recv_failed err)
      then show ?thesis using al(1) p'(1) by (simp add: receive_round_def c_def [symmetric] counts_batch_def)
    qed
    then obtain k' where "receive_round env r k = Some (?r, k', [], [])" "counts_batch c [] k k'" by blast
    moreover have "pool_used p' = pool_used (ar_pool r)" using p'(3) al(5,6) by auto
    ultimately show ?thesis using p'(2) al(3,4,5) True
      by (intro exI [of _ p'] exI [of _ xs] exI [of _ "map Some xs"] exI [of _ k']) (simp add: passed_def captures_of_def)
  next
    case False
    then have ans: "?ans = Received_messages ms" by (auto simp: ms_def answer_messages_def split: recvmmsg_answer.splits)
    let ?st = "\<lparr>bs_pool = p, bs_recv_buffers = map Some xs, bs_counters = k\<lparr>sm_receive_batches := sm_receive_batches k + 1\<rparr>,
      bs_captured = [], bs_heartbeat_batch = [], bs_data_batch = []\<rparr>"
    define rest where "rest = drop (length ms) xs"
    define bad where "bad = fst ` {xm \<in> set (zip xs ms). \<not> source_accepted c (snd xm)}"
    define good where "good = fst ` {xm \<in> set (zip xs ms). source_accepted c (snd xm)}"
    obtain p1 where m: "receive_messages c (re_capture_hook env) (re_steady_ns env) 0 ms ?st = Some \<lparr>bs_pool = p1,
       bs_recv_buffers = replicate (length ms) None @ map Some rest,
       bs_counters = count_batch c ms (k\<lparr>sm_receive_batches := sm_receive_batches k + 1\<rparr>),
       bs_captured = captures_of c (re_capture_hook env) (re_steady_ns env) ms,
       bs_heartbeat_batch = map (pending_of c (re_steady_ns env)) (passed c HIGH (zip xs ms)),
       bs_data_batch = map (pending_of c (re_steady_ns env)) (passed c NORMAL (zip xs ms))\<rparr>"
      "pp_ok b e p1" "pool_used p1 = pool_used p - bad"
      using receive_messages_ok [of b e ?st 0 xs ms c "re_capture_hook env" "re_steady_ns env"] al len
      unfolding rest_def bad_def by auto
    have split: "set xs = good \<union> bad \<union> set rest" "good \<inter> bad = {}" "(good \<union> bad) \<inter> set rest = {}"
      using batch_partition(1,2) [OF al(4), of ms "source_accepted c"] batch_partition(3) [OF al(4), of ms] len al(3)
      unfolding good_def bad_def rest_def by auto
    have "set rest \<subseteq> pool_used p1" "distinct rest" using al(4,6) m(3) split by (auto simp: rest_def)
    then obtain p' where p': "return_buffers (replicate (length ms) None @ map Some rest) p1 = Some p'" "pp_ok b e p'" "pool_used p' = pool_used p1 - set rest"
      using return_buffers_ok [OF m(2), of rest "length ms"] by auto
    have "pool_used p' = pool_used (ar_pool r) \<union> good" using p'(3) m(3) al(5,6) split by blast
    moreover have "counts_batch c ms k (count_batch c ms (k\<lparr>sm_receive_batches := sm_receive_batches k + 1\<rparr>))"
      by (simp add: counts_batch_def count_batch_counts)
    ultimately show ?thesis using p'(1,2) m(1) al(1,3,4,5) len ans False
      by (intro exI [of _ p'] exI [of _ xs] exI [of _ "replicate (length ms) None @ map Some rest"]
            exI [of _ "count_batch c ms (k\<lparr>sm_receive_batches := sm_receive_batches k + 1\<rparr>)"])
         (simp add: receive_round_def c_def [symmetric] good_def [symmetric] rest_def)
  qed
qed

subsection \<open>The receive thread\<close>

definition loop_start :: "thread_io \<Rightarrow> nat option \<Rightarrow> ArrayFaceReceiverConfig \<Rightarrow> loop_state" where
  "loop_start tio storage c =
     (case face_run tio ((face_receiver_new storage c)\<lparr>ar_running := True\<rparr>) no_counts of
        (r, k) \<Rightarrow> \<lparr>ls_receiver = r, ls_counters = k, ls_captured = [], ls_delivered = [], ls_held = []\<rparr>)"

text \<open>The batches that the rounds of a run receive.\<close>

fun loop_batches :: "ArrayFaceReceiverConfig \<Rightarrow> nat \<Rightarrow> loop_event list \<Rightarrow> (round_env \<times> message list) list" where
  "loop_batches c d [] = []"
| "loop_batches c d (Release x # evs) = loop_batches c d evs"
| "loop_batches c d (Round env # evs) =
     (let ms = answer_messages (re_recvmmsg env (d \<noteq> 0)) in (env, ms) # loop_batches c (next_drain c d (length ms)) evs)"

text \<open>A packet without the address of its buffer, and what a batch has to deliver: first the packets of high priority.\<close>

definition packet_view :: "FacePacket \<Rightarrow> bytes option \<times> nat \<times> u64 \<times> u8 \<times> PacketPriority" where
  "packet_view pk = (map_option snd (rp_data pk), rp_length pk, rp_receive_timestamp_ns pk, fk_array_id pk, fk_priority pk)"

definition message_view :: "ArrayFaceReceiverConfig \<Rightarrow> u64 \<Rightarrow> message \<Rightarrow> bytes option \<times> nat \<times> u64 \<times> u8 \<times> PacketPriority" where
  "message_view c ts m = (Some (msg_data m), length (msg_data m), ts, afc_array_id c, msg_priority m)"

definition batch_delivery :: "ArrayFaceReceiverConfig \<Rightarrow> round_env \<times> message list \<Rightarrow> (bytes option \<times> nat \<times> u64 \<times> u8 \<times> PacketPriority) list" where
  "batch_delivery c = (\<lambda>(env, ms). map (message_view c (re_steady_ns env))
     (filter (\<lambda>m. source_accepted c m \<and> msg_priority m = HIGH) ms @ filter (\<lambda>m. source_accepted c m \<and> msg_priority m = NORMAL) ms))"

lemma map_filter_zip: "length ms \<le> length xs \<Longrightarrow> map (f \<circ> snd) (filter (\<lambda>(x, m). P m) (zip xs ms)) = map f (filter P ms)"
  by (induction xs ms rule: list_induct2') auto

lemma delivered_view:
  assumes "length ms \<le> length xs"
  shows "map packet_view (map (pending_of c ts) (passed c HIGH (zip xs ms) @ passed c NORMAL (zip xs ms))) =
    map (message_view c ts) (filter (\<lambda>m. source_accepted c m \<and> msg_priority m = HIGH) ms @ filter (\<lambda>m. source_accepted c m \<and> msg_priority m = NORMAL) ms)"
proof -
  have "packet_view \<circ> pending_of c ts = message_view c ts \<circ> snd"
    by (auto simp: packet_view_def pending_of_def pending_packet_def message_view_def msg_priority_def)
  then have "map packet_view (map (pending_of c ts) (passed c pr (zip xs ms))) =
      map (message_view c ts) (filter (\<lambda>m. source_accepted c m \<and> msg_priority m = pr) ms)" for pr
    using map_filter_zip [OF assms, of "message_view c ts" "\<lambda>m. source_accepted c m \<and> msg_priority m = pr"] by (simp add: passed_def)
  then show ?thesis by simp
qed

lemma delivered_buffers:
  fixes c :: ArrayFaceReceiverConfig and ms :: "message list"
  assumes "distinct xs"
  defines "ps \<equiv> passed c HIGH (zip xs ms) @ passed c NORMAL (zip xs ms)"
  shows "packet_buffers (map (pending_of c ts) ps) = map fst ps" "distinct (map fst ps)"
    "set (map fst ps) = fst ` {xm \<in> set (zip xs ms). source_accepted c (snd xm)}"
proof -
  have pr: "msg_priority m = HIGH \<or> msg_priority m = NORMAL" for m by (cases "msg_priority m") auto
  show "packet_buffers (map (pending_of c ts) ps) = map fst ps"
    by (induction ps) (auto simp: packet_buffers_def map_filter_simps pending_of_def pending_packet_def split: prod.splits)
  have "distinct (map fst (zip xs ms))" using assms(1) by (simp add: map_fst_zip_take)
  then have inj: "inj_on fst (set (zip xs ms))" and d: "distinct (zip xs ms)" unfolding distinct_map by blast+
  have "distinct ps" unfolding ps_def passed_def using d by auto
  moreover have "set ps \<subseteq> set (zip xs ms)" by (auto simp: ps_def passed_def)
  ultimately show "distinct (map fst ps)" using inj_on_subset [OF inj] by (simp add: distinct_map)
  have "set ps = {xm \<in> set (zip xs ms). source_accepted c (snd xm)}" using pr unfolding ps_def passed_def by fastforce
  then show "set (map fst ps) = fst ` {xm \<in> set (zip xs ms). source_accepted c (snd xm)}" by simp
qed

definition loop_inv :: "nat \<Rightarrow> nat \<Rightarrow> ArrayFaceReceiverConfig \<Rightarrow> loop_state \<Rightarrow> bool" where
  "loop_inv b e c s \<longleftrightarrow> ar_config (ls_receiver s) = c \<and> pp_ok b e (ar_pool (ls_receiver s)) \<and>
     length (ar_recv_buffers (ls_receiver s)) = batch_count c \<and> distinct (ls_held s) \<and> set (ls_held s) = pool_used (ar_pool (ls_receiver s))"

lemma round_step_ok:
  assumes "loop_inv b e c s" "round_ok b e c env"
  defines "ms \<equiv> answer_messages (re_recvmmsg env (ar_drain_round (ls_receiver s) \<noteq> 0))"
  shows "\<exists>s'. loop_step (Round env) s = Some s' \<and> loop_inv b e c s' \<and>
     ar_drain_round (ls_receiver s') = next_drain c (ar_drain_round (ls_receiver s)) (length ms) \<and>
     map packet_view (ls_delivered s') = map packet_view (ls_delivered s) @ batch_delivery c (env, ms) \<and>
     ls_captured s' = ls_captured s @ captures_of c (re_capture_hook env) (re_steady_ns env) ms \<and>
     counts_batch c ms (ls_counters s) (ls_counters s')"
proof -
  let ?r = "ls_receiver s"
  have inv: "ar_config ?r = c" "pp_ok b e (ar_pool ?r)" "length (ar_recv_buffers ?r) = batch_count c" "distinct (ls_held s)"
    "set (ls_held s) = pool_used (ar_pool ?r)" using assms(1) by (simp_all add: loop_inv_def)
  obtain p' xs bufs k' where r: "receive_round env ?r (ls_counters s) =
       Some (?r\<lparr>ar_pool := p', ar_recv_buffers := bufs, ar_drain_round := next_drain c (ar_drain_round ?r) (length ms)\<rparr>,
       k', captures_of c (re_capture_hook env) (re_steady_ns env) ms,
       map (pending_of c (re_steady_ns env)) (passed c HIGH (zip xs ms) @ passed c NORMAL (zip xs ms)))"
     "pp_ok b e p'" "length bufs = batch_count c" "distinct xs" "length ms \<le> length xs" "set xs \<inter> pool_used (ar_pool ?r) = {}"
     "counts_batch c ms (ls_counters s) k'" "pool_used p' = pool_used (ar_pool ?r) \<union> fst ` {xm \<in> set (zip xs ms). source_accepted c (snd xm)}"
    using receive_round_ok [OF inv(2), of env "ls_counters s"] inv(1,3) assms(2) unfolding ms_def by blast
  note db = delivered_buffers [OF r(4), where c = c and ms = ms]
  have "set (map fst (passed c HIGH (zip xs ms) @ passed c NORMAL (zip xs ms))) \<subseteq> set xs" unfolding db(3) by (auto dest: set_zip_leftD)
  then have "set (ls_held s) \<inter> set (map fst (passed c HIGH (zip xs ms) @ passed c NORMAL (zip xs ms))) = {}" using r(6) inv(5) by blast
  then have "distinct (ls_held s @ map fst (passed c HIGH (zip xs ms) @ passed c NORMAL (zip xs ms)))" using inv(4) db(2) by simp
  moreover have "set (ls_held s @ map fst (passed c HIGH (zip xs ms) @ passed c NORMAL (zip xs ms))) = pool_used p'"
    unfolding set_append [of "ls_held s"] db(3) inv(5) r(8) by simp
  ultimately show ?thesis using r inv(1) delivered_view [OF r(5), of c "re_steady_ns env"]
    by (simp add: loop_inv_def db(1) batch_delivery_def map_append [of packet_view] del: map_append)
qed

lemma release_step_ok:
  assumes "loop_inv b e c s"
  shows "\<exists>s'. loop_step (Release x) s = Some s' \<and> loop_inv b e c s' \<and> ar_drain_round (ls_receiver s') = ar_drain_round (ls_receiver s) \<and>
     ls_delivered s' = ls_delivered s \<and> ls_captured s' = ls_captured s \<and> ls_counters s' = ls_counters s"
proof (cases "x \<in> set (ls_held s)")
  case True
  then obtain p where "pp_deallocate (Some x) (ar_pool (ls_receiver s)) = Some p" "pp_ok b e p" "pool_used p = pool_used (ar_pool (ls_receiver s)) - {x}"
    using pool_give [of b e "ar_pool (ls_receiver s)" x] assms by (auto simp: loop_inv_def)
  then show ?thesis using True assms by (simp add: loop_inv_def)
qed (use assms in simp)

lemma run_loop_ok:
  assumes "loop_inv b e c s" "\<forall>env. Round env \<in> set evs \<longrightarrow> round_ok b e c env"
  shows "\<exists>s'. run_loop evs s = Some s' \<and> loop_inv b e c s' \<and>
     map packet_view (ls_delivered s') =
       map packet_view (ls_delivered s) @ concat (map (batch_delivery c) (loop_batches c (ar_drain_round (ls_receiver s)) evs)) \<and>
     ls_captured s' = ls_captured s @
       concat (map (\<lambda>(env, ms). captures_of c (re_capture_hook env) (re_steady_ns env) ms) (loop_batches c (ar_drain_round (ls_receiver s)) evs)) \<and>
     counts_batch c (concat (map snd (loop_batches c (ar_drain_round (ls_receiver s)) evs))) (ls_counters s) (ls_counters s')"
  using assms
proof (induction evs arbitrary: s)
  case Nil
  then show ?case by (simp add: counts_batch_def)
next
  case (Cons ev evs)
  show ?case
  proof (cases ev)
    case (Round env)
    let ?ms = "answer_messages (re_recvmmsg env (ar_drain_round (ls_receiver s) \<noteq> 0))"
    obtain s1 where s1: "loop_step (Round env) s = Some s1" "loop_inv b e c s1"
       "ar_drain_round (ls_receiver s1) = next_drain c (ar_drain_round (ls_receiver s)) (length ?ms)"
       "map packet_view (ls_delivered s1) = map packet_view (ls_delivered s) @ batch_delivery c (env, ?ms)"
       "ls_captured s1 = ls_captured s @ captures_of c (re_capture_hook env) (re_steady_ns env) ?ms"
       "counts_batch c ?ms (ls_counters s) (ls_counters s1)"
      using round_step_ok [OF Cons.prems(1), of env] Cons.prems(2) Round by auto
    show ?thesis using Cons.IH [OF s1(2)] Cons.prems(2) s1(1,3-6) Round by (fastforce simp: Let_def counts_batch_def)
  next
    case (Release x)
    then show ?thesis using Cons.IH release_step_ok [OF Cons.prems(1), of x] Cons.prems(2) by fastforce
  qed
qed

lemma face_pool_size_pos: "0 < unat (face_pool_size c)"
proof -
  have "1 \<le> face_pool_size c" unfolding face_pool_size_def Let_def by (meson max.cobounded1 max.coboundedI2)
  then show ?thesis by (simp add: word_le_nat_alt)
qed

lemma loop_start_ok:
  "loop_inv base (base + kPacketBufferSize * unat (face_pool_size c)) c (loop_start tio (Some base) c)"
  using packet_pool_new_ok [of kPacketBufferSize "unat (face_pool_size c)" base] face_pool_size_pos [of c]
  by (simp add: loop_inv_def loop_start_def face_run_def face_receiver_new_def kPacketBufferSize_def pool_used_def Let_def)

lemma field_le_one: "i < length bs \<Longrightarrow> field_le i (Suc 0) bs = bs ! i"
  by (simp add: field_le_def hd_drop_conv_nth take_Suc)

text \<open>The priority of a packet that parses is decided by its header or by the mark of its IP packet.\<close>

lemma heartbeat_priority:
  assumes "parse (Some (msg_data m)) (length (msg_data m)) = Some p"
  shows "msg_priority m = HIGH \<longleftrightarrow> get_packet_type (header p) = HEARTBEAT \<or> extract_dscp_from_cmsg (msg_control m) = 48"
proof -
  have "header p = decode_common (msg_data m)" "18 < length (msg_data m)"
    using assms by (auto simp: parse_Some_iff basic_validation_iff COMMON_HEADER_SIZE_def)
  then show ?thesis
    by (auto simp: msg_priority_def classify_priority_def get_packet_type_def decode_common_def field_le_one packet_type_code_def)
qed

subsection \<open>Properties\<close>

text \<open>
  C30: The receive thread of a face, as long as memory can be allocated: for all answers of \<^verbatim>\<open>recvmmsg\<close> and all points at which
  other threads give packets back, no buffer is freed that is not in use and none is lost or handed out twice: the buffers in use are exactly
  those of the packets delivered and not yet given back.  Every batch is delivered completely and with its bytes, first the packets of high
  priority, then the others, each in the order of arrival; only packets of a foreign source are dropped.  The capture sees the same packets in
  the order of arrival, and the counters count them.
\<close>

theorem receive_loop_exact:
  assumes "\<forall>env. Round env \<in> set evs \<longrightarrow> round_ok base (base + kPacketBufferSize * unat (face_pool_size c)) c env"
  defines "batches \<equiv> loop_batches c 0 evs"
  shows "\<exists>s. run_loop evs (loop_start tio (Some base) c) = Some s \<and> distinct (ls_held s) \<and>
    set (ls_held s) = (pp_buffers (ar_pool (ls_receiver s)) - set (pp_free (ar_pool (ls_receiver s)))) \<union> pp_fallback (ar_pool (ls_receiver s)) \<and>
    map packet_view (ls_delivered s) = concat (map (batch_delivery c) batches) \<and>
    ls_captured s = concat (map (\<lambda>(env, ms). captures_of c (re_capture_hook env) (re_steady_ns env) ms) batches) \<and>
    uc_packets_received (ls_counters s) = word_of_nat (length (filter (source_accepted c) (concat (map snd batches)))) \<and>
    uc_packets_filtered (ls_counters s) = word_of_nat (length (filter (\<lambda>m. \<not> source_accepted c m) (concat (map snd batches))))"
proof -
  let ?s = "loop_start tio (Some base) c"
  have zero: "ar_drain_round (ls_receiver ?s) = 0" "ls_delivered ?s = []" "ls_captured ?s = []"
    "uc_packets_received (ls_counters ?s) = 0" "uc_packets_filtered (ls_counters ?s) = 0"
    by (simp_all add: loop_start_def face_run_def no_counts_def Let_def)
  show ?thesis using run_loop_ok [OF loop_start_ok assms(1), of tio] zero
    by (auto simp: loop_inv_def pool_used_def counts_batch_def batches_def)
qed

definition sample_face :: "u64 \<Rightarrow> ArrayFaceReceiverConfig" where
  "sample_face batch = \<lparr>afc_array_id = 1, afc_expected_source_id = 0x11, afc_bind_ip = ''0.0.0.0'', afc_listen_port = 9999, afc_cpu_affinity = 16,
     afc_source_filter_enabled = True, afc_recv_batch_size = batch, afc_recv_drain_rounds = 4, afc_socket_rcvbuf_mb = 256, afc_packet_pool_mb = 0,
     afc_enable_ip_freebind = False\<rparr>"

definition sample_message :: "u8 \<Rightarrow> u8 \<Rightarrow> message" where
  "sample_message type source = \<lparr>msg_data = replicate 18 0 @ [type, 1, source], msg_control = [Cmsg 0 1 0]\<rparr>"

definition sample_round :: "((nat \<times> u32) list \<Rightarrow> nat option) \<Rightarrow> message list \<Rightarrow> round_env" where
  "sample_round nw ms = \<lparr>re_new = nw, re_recvmmsg = (\<lambda>dontwait. Received_messages ms), re_running = True, re_steady_ns = 5000, re_capture_hook = True\<rparr>"

definition sample_thread :: thread_io where
  "sample_thread = \<lparr>th_setaffinity = (\<lambda>cpus. 0), th_getaffinity = Some [16]\<rparr>"

text \<open>Memory beyond the address \<open>e\<close>.\<close>

definition far_new :: "nat \<Rightarrow> (nat \<times> u32) list \<Rightarrow> nat option" where
  "far_new e heap = Some (e + sum_list (map fst heap) + 1)"

lemma far_new_total: "new_total b e (far_new e)"
proof -
  have "a \<le> sum_list (map fst heap)" if "a \<in> fst ` set heap" for a and heap :: "(nat \<times> u32) list"
    using member_le_sum_list [of a "map fst heap"] that by simp
  then show ?thesis by (force simp: new_total_def new_ok_def far_new_def)
qed

lemma sample_pool_size: "unat (face_pool_size (sample_face 3)) = 12" "batch_count (sample_face 3) = 3"
  by code_simp+

theorem receive_loop_exact_witness:
  "\<exists>s. run_loop [Round (sample_round (far_new 786420) [sample_message 3 0x11, sample_message 3 0x12, sample_message 4 0x11]), Release 0]
       (loop_start sample_thread (Some 0) (sample_face 3)) = Some s \<and>
     map packet_view (ls_delivered s) = map (message_view (sample_face 3) 5000) [sample_message 4 0x11, sample_message 3 0x11]"
proof -
  let ?env = "sample_round (far_new 786420) [sample_message 3 0x11, sample_message 3 0x12, sample_message 4 0x11]"
  have env: "round_ok 0 (0 + kPacketBufferSize * unat (face_pool_size (sample_face 3))) (sample_face 3) ?env"
    using far_new_total [of 0 786420]
    by (simp add: round_ok_def sample_round_def sample_pool_size kPacketBufferSize_def answer_messages_def)
  have acc: "source_accepted (sample_face 3) (sample_message 3 0x11)" "\<not> source_accepted (sample_face 3) (sample_message 3 0x12)"
    "source_accepted (sample_face 3) (sample_message 4 0x11)" "msg_priority (sample_message 3 0x11) = NORMAL" "msg_priority (sample_message 4 0x11) = HIGH"
    by code_simp+
  have "concat (map (batch_delivery (sample_face 3)) (loop_batches (sample_face 3) 0 [Round ?env, Release 0])) =
      map (message_view (sample_face 3) 5000) [sample_message 4 0x11, sample_message 3 0x11]"
    by (simp add: batch_delivery_def sample_round_def answer_messages_def acc Let_def)
  then show ?thesis using receive_loop_exact [of "[Round ?env, Release 0]" 0 "sample_face 3" sample_thread] env by auto
qed

text \<open>
  When memory cannot be allocated, the guarantee is lost: after a round that freed the rest of its buffers, the entries of
  \<^verbatim>\<open>recv_buffers\<close> still point to them; an allocation that fails in the middle of the next round frees such an entry again.  The free list then
  points to itself, and the next round receives all its messages into one and the same buffer.
\<close>

definition no_new :: "(nat \<times> u32) list \<Rightarrow> nat option" where
  "no_new heap = None"

definition empty_round :: "nat \<Rightarrow> loop_event" where
  "empty_round n = Round (sample_round no_new (replicate n \<lparr>msg_data = [], msg_control = []\<rparr>))"

definition unfiltered_face :: ArrayFaceReceiverConfig where
  "unfiltered_face = (sample_face 3)\<lparr>afc_source_filter_enabled := False\<rparr>"

text \<open>The state after eleven of the twelve buffers have been delivered: the last entry of \<^verbatim>\<open>recv_buffers\<close> points to the only free buffer.\<close>

definition last_buffer_state :: loop_state where
  "last_buffer_state =
     \<lparr>ls_receiver = \<lparr>ar_config = unfiltered_face, ar_running = True, ar_affinity_verified = True, ar_sockfd = -1,
        ar_pool = (packet_pool_new 65535 12 (Some 0))\<lparr>pp_free_head := Some 11, pp_available := 1, pp_allocated := 11, pp_alloc_count := 12, pp_dealloc_count := 1\<rparr>,
        ar_recv_buffers = [None, None, Some 720885], ar_drain_round = 0\<rparr>,
      ls_counters = no_counts\<lparr>uc_packets_received := 11, sm_receive_batches := 4, sm_packets_received := 11\<rparr>,
      ls_captured = replicate 11 ([], 0, 5),
      ls_delivered = map (\<lambda>i. \<lparr>rp_data = Some (i * 65535, []), rp_length = 0, rp_receive_timestamp_ns = 5000, fk_array_id = 1, fk_priority = NORMAL\<rparr>) [0..<11],
      ls_held = map (\<lambda>i. i * 65535) [0..<11]\<rparr>"

lemma last_buffer_reached:
  "run_loop (map empty_round [3, 3, 3, 2]) (loop_start sample_thread (Some 0) unfiltered_face) = Some last_buffer_state"
  by code_simp

lemma last_buffer_freed_twice:
  "map_option (\<lambda>s. packet_buffers (drop 11 (ls_delivered s))) (run_loop (map empty_round [0, 3]) last_buffer_state) = Some [720885, 720885, 720885]"
  by code_simp

lemma run_loop_append: "run_loop (evs1 @ evs2) s = (case run_loop evs1 s of None \<Rightarrow> None | Some s' \<Rightarrow> run_loop evs2 s')"
  by (induction evs1 arbitrary: s) (auto split: option.splits)

lemma stale_buffer_freed_twice:
  "\<exists>s. run_loop (map empty_round ([3, 3, 3, 2] @ [0, 3])) (loop_start sample_thread (Some 0) unfiltered_face) = Some s \<and>
     packet_buffers (drop 11 (ls_delivered s)) = [720885, 720885, 720885]"
  using last_buffer_freed_twice unfolding map_append run_loop_append last_buffer_reached by auto

end
