(* ===== verification/Udp_Receiver.thy ===== *)
theory Udp_Receiver
  imports Face_Receiver "HOL-Library.Multiset"
begin

text \<open>
  \<^verbatim>\<open>UdpReceiver\<close> (\<^verbatim>\<open>src/m01_receiver/network/udp_receiver.cpp\<close>): one receiver per array face, started together or not at all, with the
  configuration that \<^verbatim>\<open>app_init\<close> derives; and the way of a datagram from the socket of a face to its pipeline.

  Correspondence.  The receivers are the list \<^verbatim>\<open>array_receivers\<close>; a receiver that is not in the list has been destroyed, together with its
  packet pool.  \<open>ur_fds\<close> are the open descriptors of the process.  The memory of the pools and the answers of the system are
  arguments, by the number of the face.
\<close>

record UdpReceiverConfig =
  uco_array_faces :: "ArrayFaceBinding list"
  uco_listen_port :: u16
  uco_bind_ip :: string
  uco_recv_batch_size :: u64
  uco_recv_drain_rounds :: u64
  uco_socket_rcvbuf_mb :: u64
  uco_packet_pool_mb_per_face :: u64
  uco_enable_ip_freebind :: bool
  uco_cpu_affinity_start :: int

definition udp_config_of :: "ReceiverConfig \<Rightarrow> UdpReceiverConfig" where
  "udp_config_of c =
     \<lparr>uco_array_faces = array_faces (cfg_network c), uco_listen_port = net_listen_port (cfg_network c), uco_bind_ip = net_bind_ip (cfg_network c),
      uco_recv_batch_size = net_recvmmsg_batch_size (cfg_network c), uco_recv_drain_rounds = prf_recv_drain_rounds (cfg_performance c),
      uco_socket_rcvbuf_mb = net_socket_rcvbuf_mb (cfg_network c), uco_packet_pool_mb_per_face = prf_packet_pool_mb_per_face (cfg_performance c),
      uco_enable_ip_freebind = net_enable_ip_freebind (cfg_network c), uco_cpu_affinity_start = 16\<rparr>"

definition resolve_bindings :: "UdpReceiverConfig \<Rightarrow> ArrayFaceBinding list" where
  "resolve_bindings c =
     (if uco_array_faces c \<noteq> [] then uco_array_faces c
      else [\<lparr>ab_array_id = 1, ab_bind_ip = ''0.0.0.0'', ab_listen_port = uco_listen_port c, ab_expected_source_id = 0,
             ab_cpu_affinity = max 0 (uco_cpu_affinity_start c), ab_source_filter_enabled = False\<rparr>])"

definition face_config_of :: "UdpReceiverConfig \<Rightarrow> ArrayFaceBinding \<Rightarrow> ArrayFaceReceiverConfig" where
  "face_config_of c b =
     \<lparr>afc_array_id = ab_array_id b, afc_expected_source_id = ab_expected_source_id b, afc_bind_ip = ab_bind_ip b, afc_listen_port = ab_listen_port b,
      afc_cpu_affinity = ab_cpu_affinity b, afc_source_filter_enabled = ab_source_filter_enabled b, afc_recv_batch_size = uco_recv_batch_size c,
      afc_recv_drain_rounds = uco_recv_drain_rounds c, afc_socket_rcvbuf_mb = uco_socket_rcvbuf_mb c,
      afc_packet_pool_mb = uco_packet_pool_mb_per_face c, afc_enable_ip_freebind = uco_enable_ip_freebind c\<rparr>"

record 'h UdpReceiver =
  ur_config :: UdpReceiverConfig
  ur_running :: bool
  ur_capture_hook :: "'h option"
  ur_receivers :: "ArrayFaceReceiver list"
  ur_counters :: ReceiverCounters
  ur_fds :: "int list"

definition udp_receiver_new :: "UdpReceiverConfig \<Rightarrow> 'h option \<Rightarrow> int list \<Rightarrow> 'h UdpReceiver" where
  "udp_receiver_new c hook fds =
     \<lparr>ur_config = c, ur_running = False, ur_capture_hook = hook, ur_receivers = [], ur_counters = no_counts, ur_fds = fds\<rparr>"

record udp_env =
  ue_socket :: "nat \<Rightarrow> socket_io"
  ue_thread :: "nat \<Rightarrow> thread_io"
  ue_storage :: "nat \<Rightarrow> nat option"

fun start_faces :: "udp_env \<Rightarrow> nat \<Rightarrow> ArrayFaceBinding list \<Rightarrow> 'h UdpReceiver \<Rightarrow> 'h UdpReceiver \<times> bool" where
  "start_faces env i [] u = (u, True)"
| "start_faces env i (b # bs) u =
     (case face_start (ue_socket env i) (ue_thread env i) (face_receiver_new (ue_storage env i) (face_config_of (ur_config u) b)) (ur_counters u) (ur_fds u) of
        (r, k, fds, ok) \<Rightarrow>
          if \<not> ok then (u\<lparr>ur_counters := k, ur_fds := fds\<rparr>, False)
          else start_faces env (Suc i) bs (u\<lparr>ur_counters := k, ur_fds := fds, ur_receivers := ur_receivers u @ [r]\<rparr>))"

fun stop_faces :: "ArrayFaceReceiver list \<Rightarrow> int list \<Rightarrow> int list" where
  "stop_faces [] fds = fds"
| "stop_faces (r # rs) fds = stop_faces rs (snd (face_stop r fds))"

definition udp_stop :: "'h UdpReceiver \<Rightarrow> 'h UdpReceiver" where
  "udp_stop u =
     (if \<not> ur_running u then u
      else u\<lparr>ur_running := False, ur_fds := stop_faces (ur_receivers u) (ur_fds u), ur_receivers := []\<rparr>)"

definition udp_start :: "udp_env \<Rightarrow> 'h UdpReceiver \<Rightarrow> 'h UdpReceiver \<times> bool" where
  "udp_start env u =
     (if ur_running u then (u, True)
      else let bindings = resolve_bindings (ur_config u) in
        if bindings = [] then (u, False)
        else case start_faces env 0 bindings (u\<lparr>ur_running := True, ur_receivers := []\<rparr>) of
            (u', started_all) \<Rightarrow> if \<not> started_all then (udp_stop u', False) else (u', True))"

definition set_capture_hook :: "'h option \<Rightarrow> 'h UdpReceiver \<Rightarrow> 'h UdpReceiver" where
  "set_capture_hook hook u = u\<lparr>ur_capture_hook := hook\<rparr>"

definition get_face_runtime_stats :: "'h UdpReceiver \<Rightarrow> (u8 \<times> bool \<times> PoolStatistics) list" where
  "get_face_runtime_stats u =
     map (\<lambda>r. (afc_array_id (ar_config r), ar_affinity_verified r, pp_get_statistics (ar_pool r))) (ur_receivers u)"

text \<open>A packet of a face is given back: its destructor calls the pool of the receiver it came from.\<close>

definition release_packet :: "nat \<Rightarrow> nat \<Rightarrow> 'h UdpReceiver \<Rightarrow> 'h UdpReceiver option" where
  "release_packet i x u =
     (if i < length (ur_receivers u)
      then map_option (\<lambda>p. u\<lparr>ur_receivers := (ur_receivers u)[i := (ur_receivers u ! i)\<lparr>ar_pool := p\<rparr>]\<rparr>)
             (pp_deallocate (Some x) (ar_pool (ur_receivers u ! i)))
      else None)"

text \<open>What the callback of the receiver gets from a packet: the event of the application.\<close>

definition received_event :: "FacePacket \<Rightarrow> app_event" where
  "received_event pk = Receive (fk_array_id pk) (ReceivedPacket.truncate pk)"

subsection \<open>Starting and stopping\<close>

definition face_up :: "ArrayFaceReceiver \<Rightarrow> bool" where
  "face_up r \<longleftrightarrow> ar_running r \<and> 0 \<le> ar_sockfd r \<and> length (ar_recv_buffers r) = batch_count (ar_config r)"

lemma face_start_new:
  assumes "face_start sio tio (face_receiver_new storage c) k fds = (r, k', fds', ok)"
  shows "ok \<Longrightarrow> face_up r \<and> ar_config r = c \<and> fds' = ar_sockfd r # fds \<and> uc_socket_bind_failures k' = uc_socket_bind_failures k"
    and "\<not> ok \<Longrightarrow> fds' = fds \<and> uc_socket_bind_failures k' = uc_socket_bind_failures k + 1"
  using assms
  by (auto simp: face_start_def face_receiver_new_def face_up_def face_run_def initialize_socket_def Let_def split: prod.splits if_splits)

lemma start_faces_effect:
  assumes "start_faces env i bs u = (u', ok)"
  shows "\<exists>rs. ur_receivers u' = ur_receivers u @ rs \<and> (\<forall>r \<in> set rs. face_up r) \<and> ur_running u' = ur_running u \<and> ur_config u' = ur_config u \<and>
     mset (ur_fds u') = mset (ur_fds u) + mset (map ar_sockfd rs) \<and> map ar_config rs = map (face_config_of (ur_config u)) (take (length rs) bs) \<and>
     (ok \<longrightarrow> length rs = length bs) \<and>
     uc_socket_bind_failures (ur_counters u') = uc_socket_bind_failures (ur_counters u) + (if ok then 0 else 1)"
  using assms
proof (induction bs arbitrary: i u)
  case (Cons b bs)
  obtain r k fds ok1 where f: "face_start (ue_socket env i) (ue_thread env i) (face_receiver_new (ue_storage env i) (face_config_of (ur_config u) b))
      (ur_counters u) (ur_fds u) = (r, k, fds, ok1)" by (cases "face_start (ue_socket env i) (ue_thread env i)
        (face_receiver_new (ue_storage env i) (face_config_of (ur_config u) b)) (ur_counters u) (ur_fds u)") auto
  show ?case
  proof (cases ok1)
    case True
    let ?u = "u\<lparr>ur_counters := k, ur_fds := fds, ur_receivers := ur_receivers u @ [r]\<rparr>"
    have "start_faces env (Suc i) bs ?u = (u', ok)" using Cons.prems f True by simp
    from Cons.IH [OF this] obtain rs where rs: "ur_receivers u' = ur_receivers ?u @ rs" "\<forall>r \<in> set rs. face_up r"
      "ur_running u' = ur_running ?u" "ur_config u' = ur_config ?u" "mset (ur_fds u') = mset (ur_fds ?u) + mset (map ar_sockfd rs)"
      "map ar_config rs = map (face_config_of (ur_config ?u)) (take (length rs) bs)" "ok \<longrightarrow> length rs = length bs"
      "uc_socket_bind_failures (ur_counters u') = uc_socket_bind_failures (ur_counters ?u) + (if ok then 0 else 1)" by auto
    show ?thesis using rs face_start_new(1) [OF f True] by (intro exI [of _ "r # rs"]) auto
  next
    case False
    then show ?thesis using Cons.prems f face_start_new(2) [OF f False] by auto
  qed
qed simp

lemma stop_faces_closes:
  assumes "\<forall>r \<in> set rs. face_up r"
  shows "mset (stop_faces rs fds) = mset fds - mset (map ar_sockfd rs)"
  using assms by (induction rs arbitrary: fds) (auto simp: face_stop_def face_up_def)

text \<open>
  C40: The receiver starts all faces or none.  When it answers true, every configured face runs, with its own open socket and its
  configuration; when it answers false, exactly one bind failure has been counted, all sockets that were opened are closed again and no receiver is left;
  stopping a started receiver also closes exactly its sockets.
\<close>

theorem udp_start_all_or_nothing:
  assumes "\<not> ur_running u" and start: "udp_start env u = (u', ok)" and "uco_array_faces (ur_config u) \<noteq> []"
  shows "(if ok then ur_running u' \<and> (\<forall>r \<in> set (ur_receivers u'). face_up r) \<and>
           map ar_config (ur_receivers u') = map (face_config_of (ur_config u)) (uco_array_faces (ur_config u)) \<and>
           mset (ur_fds u') = mset (ur_fds u) + mset (map ar_sockfd (ur_receivers u'))
         else \<not> ur_running u' \<and> ur_receivers u' = [] \<and> mset (ur_fds u') = mset (ur_fds u) \<and>
           uc_socket_bind_failures (ur_counters u') = uc_socket_bind_failures (ur_counters u) + 1) \<and>
    mset (ur_fds (udp_stop u')) = mset (ur_fds u) \<and> ur_receivers (udp_stop u') = []"
proof -
  have b: "resolve_bindings (ur_config u) = uco_array_faces (ur_config u)" using assms(3) by (simp add: resolve_bindings_def)
  let ?u = "u\<lparr>ur_running := True, ur_receivers := []\<rparr>"
  obtain u1 ok1 where s: "start_faces env 0 (uco_array_faces (ur_config u)) ?u = (u1, ok1)" by fastforce
  from start_faces_effect [OF s] obtain rs where rs: "ur_receivers u1 = rs" "\<forall>r \<in> set rs. face_up r" "ur_running u1"
      "mset (ur_fds u1) = mset (ur_fds u) + mset (map ar_sockfd rs)"
      "map ar_config rs = map (face_config_of (ur_config u)) (take (length rs) (uco_array_faces (ur_config u)))"
      "ok1 \<longrightarrow> length rs = length (uco_array_faces (ur_config u))"
      "uc_socket_bind_failures (ur_counters u1) = uc_socket_bind_failures (ur_counters u) + (if ok1 then 0 else 1)" by auto
  have closed: "mset (ur_fds (udp_stop u1)) = mset (ur_fds u) \<and> ur_receivers (udp_stop u1) = [] \<and> \<not> ur_running (udp_stop u1) \<and>
      ur_counters (udp_stop u1) = ur_counters u1"
    using rs(1-4) stop_faces_closes [OF rs(2)] by (simp add: udp_stop_def)
  show ?thesis
  proof (cases ok1)
    case True
    then have "u' = u1" "ok" using start assms(1,3) b s by (auto simp: udp_start_def Let_def)
    then show ?thesis using rs closed True by auto
  next
    case False
    then have "u' = udp_stop u1" "\<not> ok" using start assms(1,3) b s by (auto simp: udp_start_def Let_def)
    moreover have "udp_stop (udp_stop u1) = udp_stop u1" using closed by (simp add: udp_stop_def)
    ultimately show ?thesis using rs(7) closed False by simp
  qed
qed

text \<open>
  A packet that outlives the receiver can no longer be given back: \<^verbatim>\<open>stop\<close> destroys the pools.  \<^verbatim>\<open>app_shutdown\<close> stops the receiver
  before it drains the queues, whose envelopes own packets.
\<close>

lemma release_after_stop: "ur_running u \<Longrightarrow> release_packet i x (udp_stop u) = None \<and> get_face_runtime_stats (udp_stop u) = []"
  by (simp add: release_packet_def udp_stop_def get_face_runtime_stats_def)

subsection \<open>From the sockets to the pipelines\<close>

lemma loop_delivers:
  assumes "\<forall>env. Round env \<in> set evs \<longrightarrow> round_ok base (base + kPacketBufferSize * unat (face_pool_size c)) c env"
    and "run_loop evs (loop_start tio (Some base) c) = Some s" and "pk \<in> set (ls_delivered s)"
  shows "\<exists>m ts. source_accepted c m \<and> packet_view pk = message_view c ts m"
proof -
  let ?batches = "loop_batches c (ar_drain_round (ls_receiver (loop_start tio (Some base) c))) evs"
  have "ls_delivered (loop_start tio (Some base) c) = []" by (simp add: loop_start_def face_run_def Let_def)
  then have "map packet_view (ls_delivered s) = concat (map (batch_delivery c) ?batches)"
    using run_loop_ok [OF loop_start_ok assms(1), of tio] assms(2) by auto
  moreover have "packet_view pk \<in> set (map packet_view (ls_delivered s))" using assms(3) by simp
  ultimately have "packet_view pk \<in> set (concat (map (batch_delivery c) ?batches))" by (rule subst)
  then show ?thesis by (auto simp: batch_delivery_def)
qed

lemma face_route: "i < 3 \<Longrightarrow> face_event_of 3 (Receive (word_of_nat (i + 1)) raw) = Some (i, Datagram raw)"
proof -
  assume "i < 3"
  then consider "i = 0" | "i = 1" | "i = 2" by linarith
  moreover have "route_index 1 = 0" "route_index 2 = 1" "route_index 3 = 2" by (simp_all add: route_index_def)
  ultimately show ?thesis by cases (simp_all add: face_event_of_def word_le_nat_alt)
qed

text \<open>
  C35: Every array face has its own radar source: with three faces and source filtering, whatever datagrams arrive at the socket of
  face \<open>i\<close>, each packet that its receiver hands over goes to the pipeline of face \<open>i\<close>, its buffer holds all its bytes, and its header carries the source
  configured for that face, so that no other face delivers packets of this source.
\<close>

theorem receiver_source_isolation:
  assumes valid: "validate_config c" and three: "has_three_face_topology (cfg_network c)" and filt: "net_source_filter_enabled (cfg_network c)"
    and i: "i < 3" and face: "fc = face_config_of (udp_config_of c) (array_faces (cfg_network c) ! i)"
    and rounds: "\<forall>env. Round env \<in> set evs \<longrightarrow> round_ok base (base + kPacketBufferSize * unat (face_pool_size fc)) fc env"
    and run: "run_loop evs (loop_start tio (Some base) fc) = Some s" and pk: "pk \<in> set (ls_delivered s)"
  shows "face_event_of (num_faces (cfg_network c)) (received_event pk) = Some (i, Datagram (ReceivedPacket.truncate pk)) \<and>
    received_ok (ReceivedPacket.truncate pk) \<and>
    (\<forall>p. parse (map_option snd (rp_data pk)) (rp_length pk) = Some p \<longrightarrow>
       source_id (header p) = net_source_id_map (cfg_network c) ! i \<and>
       (\<forall>j < 3. source_id (header p) = net_source_id_map (cfg_network c) ! j \<longrightarrow> j = i))"
proof -
  obtain m ts where m: "source_accepted fc m" "packet_view pk = message_view fc ts m" using loop_delivers [OF rounds run pk] by blast
  then obtain x where data: "rp_data pk = Some (x, msg_data m)" "rp_length pk = length (msg_data m)" and a: "fk_array_id pk = afc_array_id fc"
    by (auto simp: packet_view_def message_view_def)
  have id: "afc_array_id fc = word_of_nat (i + 1)" "afc_expected_source_id fc = net_source_id_map (cfg_network c) ! i" "afc_source_filter_enabled fc"
    using three filt i by (simp_all add: face face_config_of_def array_faces_def udp_config_of_def del: upt_Suc)
  have "face_event_of (num_faces (cfg_network c)) (received_event pk) = Some (i, Datagram (ReceivedPacket.truncate pk))"
    using face_route [OF i] a id(1) three by (simp add: received_event_def num_faces_def)
  moreover have "received_ok (ReceivedPacket.truncate pk)" using data by (simp add: received_ok_def ReceivedPacket.defs)
  moreover have "source_id (header p) = net_source_id_map (cfg_network c) ! i"
    if p: "parse (map_option snd (rp_data pk)) (rp_length pk) = Some p" for p
  proof -
    have "source_id (header p) = field_le 20 (Suc 0) (msg_data m)" "20 < length (msg_data m)"
      using p data by (auto simp: parse_Some_iff basic_validation_iff COMMON_HEADER_SIZE_def decode_common_def)
    then show ?thesis using m(1) id(2,3) by (simp add: source_accepted_def field_le_one)
  qed
  moreover have "j = i" if "j < 3" "net_source_id_map (cfg_network c) ! i = net_source_id_map (cfg_network c) ! j" for j
    using valid_topology(2) [OF valid three] three that i by (metis has_three_face_topology_def nth_eq_iff_index_eq)
  ultimately show ?thesis by auto
qed

definition sample_socket :: "int \<Rightarrow> int \<Rightarrow> socket_io" where
  "sample_socket fd result = \<lparr>so_socket = fd, so_set_rcvbuf = (\<lambda>bytes. 0), so_set_freebind = 0, so_set_rcvtimeo = 0, so_inet_pton = (\<lambda>ip. 1), so_bind = (\<lambda>ip port. result)\<rparr>"

definition sample_udp :: "unit UdpReceiver" where
  "sample_udp = udp_receiver_new ((udp_config_of default_receiver_config)
     \<lparr>uco_array_faces := [array_faces default_network ! 0, array_faces default_network ! 0]\<rparr>) None [0, 1, 2]"

definition sample_udp_env :: udp_env where
  "sample_udp_env = \<lparr>ue_socket = (\<lambda>i. sample_socket (3 + int i) (if i = 1 then -1 else 0)), ue_thread = (\<lambda>i. sample_thread), ue_storage = (\<lambda>i. Some 0)\<rparr>"

theorem udp_start_all_or_nothing_witness:
  "\<not> snd (udp_start sample_udp_env sample_udp) \<and> mset (ur_fds (fst (udp_start sample_udp_env sample_udp))) = mset [0, 1, 2]"
proof -
  have s: "\<not> ur_running sample_udp" "uco_array_faces (ur_config sample_udp) \<noteq> []" "ur_fds sample_udp = [0, 1, 2]"
    by (simp_all add: sample_udp_def udp_receiver_new_def)
  have fail: "\<not> snd (udp_start sample_udp_env sample_udp)"
    by (simp add: udp_start_def sample_udp_def udp_receiver_new_def resolve_bindings_def sample_udp_env_def face_start_def face_receiver_new_def
        initialize_socket_def sample_socket_def face_run_def Let_def)
  then show ?thesis using udp_start_all_or_nothing [OF s(1) _ s(2), of sample_udp_env "fst (udp_start sample_udp_env sample_udp)" False] s(3)
    by (cases "udp_start sample_udp_env sample_udp") auto
qed

definition three_faces :: ReceiverConfig where
  "three_faces = default_receiver_config\<lparr>cfg_network := default_network\<lparr>net_bind_ips := [''10.0.0.1'', ''10.0.0.2'', ''10.0.0.3''],
     net_source_id_map := [0x11, 0x12, 0x13], net_cpu_affinity_map := [16, 17, 18], net_source_filter_enabled := True\<rparr>\<rparr>"

lemma three_faces_valid: "validate_config three_faces" "has_three_face_topology (cfg_network three_faces)"
proof -
  have "validate_network (cfg_network three_faces)"
    by (simp add: validate_network_def three_faces_def default_network_def min_element_def Let_def)
  moreover have "validate_limits three_faces = validate_limits default_receiver_config" "validate_outputs three_faces = validate_outputs default_receiver_config"
    by (simp_all add: validate_limits_def validate_outputs_def three_faces_def)
  moreover have "prf_processing_cpu_affinity_map default_performance = []" by (simp add: default_performance_def)
  then have "validate_performance (cfg_network three_faces) (cfg_performance three_faces) =
      validate_performance (cfg_network default_receiver_config) (cfg_performance default_receiver_config)"
    by (simp add: validate_performance_def three_faces_def default_receiver_config_def)
  ultimately show "validate_config three_faces" using default_receiver_config_valid by (simp add: validate_config_def)
  show "has_three_face_topology (cfg_network three_faces)" by (simp add: has_three_face_topology_def three_faces_def)
qed

theorem receiver_source_isolation_witness:
  "\<exists>pk. rp_data pk \<noteq> None \<and> face_event_of 3 (received_event pk) = Some (1, Datagram (ReceivedPacket.truncate pk))"
proof -
  define fc where "fc = face_config_of (udp_config_of three_faces) (array_faces (cfg_network three_faces) ! 1)"
  let ?e = "0 + kPacketBufferSize * unat (face_pool_size fc)"
  let ?ms = "[sample_message 3 0x12]" and ?tio = sample_thread
  let ?env = "sample_round (far_new ?e) ?ms"
  have f: "afc_source_filter_enabled fc" "afc_expected_source_id fc = 0x12" "net_source_filter_enabled (cfg_network three_faces)" "num_faces (cfg_network three_faces) = 3"
    using three_faces_valid(2)
    by (simp_all add: fc_def face_config_of_def udp_config_of_def array_faces_def three_faces_def num_faces_def has_three_face_topology_def)
  have m: "source_accepted fc (sample_message 3 0x12)" "msg_priority (sample_message 3 0x12) = NORMAL"
    using f(1,2) by (simp_all add: source_accepted_def sample_message_def msg_priority_def classify_priority_def packet_type_code_def
        nth_append IPPROTO_IP_def IP_TOS_def)
  have env: "\<forall>env. Round env \<in> set [Round ?env] \<longrightarrow> round_ok 0 ?e fc env"
    using far_new_total [of 0 ?e] batch_count_pos [of fc] by (simp add: round_ok_def sample_round_def answer_messages_def Suc_leI)
  obtain s where s: "run_loop [Round ?env] (loop_start ?tio (Some 0) fc) = Some s"
    "map packet_view (ls_delivered s) = map (message_view fc 5000) ?ms"
  proof -
    have zero: "ls_delivered (loop_start ?tio (Some 0) fc) = []" "ar_drain_round (ls_receiver (loop_start ?tio (Some 0) fc)) = 0"
      by (simp_all add: loop_start_def face_run_def Let_def)
    have "batch_delivery fc (?env, ?ms) = map (message_view fc 5000) ?ms" using m by (simp add: batch_delivery_def sample_round_def)
    moreover have "loop_batches fc 0 [Round ?env] = [(?env, ?ms)]" by (simp add: sample_round_def answer_messages_def Let_def)
    moreover obtain s' where "run_loop [Round ?env] (loop_start ?tio (Some 0) fc) = Some s'"
        "map packet_view (ls_delivered s') = map packet_view [] @ concat (map (batch_delivery fc) (loop_batches fc 0 [Round ?env]))"
      using run_loop_ok [OF loop_start_ok env, of ?tio] unfolding zero by blast
    ultimately show ?thesis using that [of s'] by (simp only: list.map concat.simps append_Nil append_Nil2)
  qed
  then obtain pk where pk: "pk \<in> set (ls_delivered s)" "packet_view pk = message_view fc 5000 (sample_message 3 0x12)" by (cases "ls_delivered s") auto
  have "rp_data pk \<noteq> None" using pk(2) by (auto simp: packet_view_def message_view_def)
  then show ?thesis using receiver_source_isolation [OF three_faces_valid f(3) _ fc_def env s(1) pk(1)] f(4) by auto
qed

end
