(* ===== verification/Metrics.thy ===== *)
theory Metrics
  imports Pcap_Writer Floating
begin

text \<open>
  The metrics of the receiver (\<^verbatim>\<open>src/m01_receiver/monitoring/metrics.cpp\<close>): counters, gauges and histograms, their text exposition and the
  HTTP endpoint that serves it.

  Correspondence.  \<^verbatim>\<open>MetricsCollector::Impl\<close> is one record; every operation is a few relaxed atomic accesses and is taken as one step.
  Arithmetic and printing of \<^verbatim>\<open>double\<close>, the external metrics file and the answers of the socket calls are arguments.  Of a request the
  server reads the text up to the first NUL character.
\<close>

subsection \<open>Indices and labels\<close>

datatype PacketTypeIndex = PTI_DATA | PTI_HEARTBEAT | PTI_UNKNOWN

datatype DropReasonIndex = INVALID_MAGIC | VERSION_MISMATCH | DEST_ID_MISMATCH | LENGTH_MISMATCH | NON_DATA_PACKET | SEQUENCE_DUPLICATE
  | SEQUENCE_OUT_OF_WINDOW | BUFFER_OVERFLOW | TIMEOUT | CLOCK_UNLOCKED | LATE_FRAGMENT | REASM_DUPLICATE_FRAG | REASM_TIMEOUT
  | MAX_CONTEXTS_EXCEEDED | REASM_BYTES_OVERFLOW

definition PACKET_TYPE_LABELS :: "string list" where
  "PACKET_TYPE_LABELS = [''data'', ''heartbeat'', ''unknown'']"

definition DROP_REASON_LABELS :: "string list" where
  "DROP_REASON_LABELS = [''INVALID_MAGIC'', ''VERSION_MISMATCH'', ''DEST_ID_MISMATCH'', ''LENGTH_MISMATCH'', ''NON_DATA_PACKET'', ''SEQUENCE_DUPLICATE'',
     ''SEQUENCE_OUT_OF_WINDOW'', ''BUFFER_OVERFLOW'', ''TIMEOUT'', ''CLOCK_UNLOCKED'', ''LATE_FRAGMENT'', ''REASM_DUPLICATE_FRAG'', ''REASM_TIMEOUT'',
     ''MAX_CONTEXTS_EXCEEDED'', ''REASM_BYTES_OVERFLOW'']"

definition SIGNAL_LABELS :: "string list" where
  "SIGNAL_LABELS = [''SIGHUP'', ''SIGTERM'', ''SIGINT'']"

definition FACE_METRIC_COUNT :: nat where "FACE_METRIC_COUNT = 3"

definition packet_type_number :: "PacketTypeIndex \<Rightarrow> nat" where
  "packet_type_number t = (case t of PTI_DATA \<Rightarrow> 0 | PTI_HEARTBEAT \<Rightarrow> 1 | PTI_UNKNOWN \<Rightarrow> 2)"

definition drop_reason_number :: "DropReasonIndex \<Rightarrow> nat" where
  "drop_reason_number r = (case r of INVALID_MAGIC \<Rightarrow> 0 | VERSION_MISMATCH \<Rightarrow> 1 | DEST_ID_MISMATCH \<Rightarrow> 2 | LENGTH_MISMATCH \<Rightarrow> 3
     | NON_DATA_PACKET \<Rightarrow> 4 | SEQUENCE_DUPLICATE \<Rightarrow> 5 | SEQUENCE_OUT_OF_WINDOW \<Rightarrow> 6 | BUFFER_OVERFLOW \<Rightarrow> 7 | TIMEOUT \<Rightarrow> 8 | CLOCK_UNLOCKED \<Rightarrow> 9
     | LATE_FRAGMENT \<Rightarrow> 10 | REASM_DUPLICATE_FRAG \<Rightarrow> 11 | REASM_TIMEOUT \<Rightarrow> 12 | MAX_CONTEXTS_EXCEEDED \<Rightarrow> 13 | REASM_BYTES_OVERFLOW \<Rightarrow> 14)"

definition packet_type_index_from_string :: "string \<Rightarrow> PacketTypeIndex" where
  "packet_type_index_from_string s = (if s = ''data'' then PTI_DATA else if s = ''heartbeat'' then PTI_HEARTBEAT else PTI_UNKNOWN)"

definition drop_reason_index_from_string :: "string \<Rightarrow> DropReasonIndex" where
  "drop_reason_index_from_string s =
     (if s = ''INVALID_MAGIC'' then INVALID_MAGIC else if s = ''VERSION_MISMATCH'' then VERSION_MISMATCH
      else if s = ''DEST_ID_MISMATCH'' then DEST_ID_MISMATCH else if s = ''LENGTH_MISMATCH'' then LENGTH_MISMATCH
      else if s = ''NON_DATA_PACKET'' then NON_DATA_PACKET else if s = ''SEQUENCE_DUPLICATE'' then SEQUENCE_DUPLICATE
      else if s = ''SEQUENCE_OUT_OF_WINDOW'' then SEQUENCE_OUT_OF_WINDOW else if s = ''BUFFER_OVERFLOW'' then BUFFER_OVERFLOW
      else if s = ''TIMEOUT'' then TIMEOUT else if s = ''CLOCK_UNLOCKED'' then CLOCK_UNLOCKED
      else if s = ''LATE_FRAGMENT'' then LATE_FRAGMENT else if s = ''REASM_DUPLICATE_FRAG'' then REASM_DUPLICATE_FRAG
      else if s = ''REASM_TIMEOUT'' then REASM_TIMEOUT else if s = ''MAX_CONTEXTS_EXCEEDED'' then MAX_CONTEXTS_EXCEEDED
      else if s = ''REASM_BYTES_OVERFLOW'' then REASM_BYTES_OVERFLOW else LENGTH_MISMATCH)"

fun index_in :: "string \<Rightarrow> string list \<Rightarrow> nat \<Rightarrow> nat option" where
  "index_in s [] i = None"
| "index_in s (l # ls) i = (if s = l then Some i else index_in s ls (Suc i))"

definition signal_index_from_string :: "string \<Rightarrow> nat option" where
  "signal_index_from_string s = index_in s SIGNAL_LABELS 0"

subsection \<open>Histograms\<close>

definition DATA_DELAY_BUCKET_BOUNDS :: "f64 list" where
  "DATA_DELAY_BUCKET_BOUNDS = [0x3F50624DD2F1A9FC, 0x3F747AE147AE147B, 0x3F847AE147AE147B, 0x3FA999999999999A, 0x3FB999999999999A,
     0x3FE0000000000000, 0x3FF0000000000000, 0x4014000000000000]"

definition PROCESSING_LATENCY_BUCKET_BOUNDS :: "u64 list" where
  "PROCESSING_LATENCY_BUCKET_BOUNDS = [100, 500, 1000, 5000, 10000, 50000, 100000, 500000]"

definition PACKET_POOL_ALLOC_LATENCY_BUCKET_BOUNDS :: "u64 list" where
  "PACKET_POOL_ALLOC_LATENCY_BUCKET_BOUNDS = [100, 500, 1000, 5000, 10000, 50000, 100000, 500000]"

record 'v histogram =
  hg_bucket_counts :: "u64 list"
  hg_count :: u64
  hg_sum :: 'v

fun bucket_index :: "('v \<Rightarrow> 'v \<Rightarrow> bool) \<Rightarrow> 'v \<Rightarrow> 'v list \<Rightarrow> nat" where
  "bucket_index le x [] = 0"
| "bucket_index le x (b # bs) = (if le x b then 0 else Suc (bucket_index le x bs))"

definition observe :: "('v \<Rightarrow> 'v \<Rightarrow> bool) \<Rightarrow> ('v \<Rightarrow> 'v \<Rightarrow> 'v) \<Rightarrow> 'v list \<Rightarrow> 'v \<Rightarrow> 'v histogram \<Rightarrow> 'v histogram" where
  "observe le add bounds x h =
     (let i = bucket_index le x bounds in
      \<lparr>hg_bucket_counts = (hg_bucket_counts h)[i := hg_bucket_counts h ! i + 1], hg_count = hg_count h + 1, hg_sum = add (hg_sum h) x\<rparr>)"

definition no_observations :: "nat \<Rightarrow> 'v \<Rightarrow> 'v histogram" where
  "no_observations n zero = \<lparr>hg_bucket_counts = replicate (Suc n) 0, hg_count = 0, hg_sum = zero\<rparr>"

fun cumulate :: "u64 \<Rightarrow> u64 list \<Rightarrow> u64 list" where
  "cumulate acc [] = []"
| "cumulate acc (k # ks) = (acc + k) # cumulate (acc + k) ks"

subsection \<open>The collector\<close>

record MetricsCollector =
  mc_started :: bool
  mc_port :: u16
  mc_bind_ip :: string
  mc_listen_fd :: int
  mc_packets_received :: u64
  mc_packets_by_type :: "u64 list"
  mc_packets_by_reason :: "u64 list"
  mc_bytes_received :: u64
  mc_applied_late :: u64
  mc_clock_unlocked :: u64
  mc_missing_fragments_total :: u64
  mc_config_reload_total :: u64
  mc_signal_received_total :: "u64 list"
  mc_heartbeat_packets_processed :: u64
  mc_heartbeat_sent_total :: u64
  mc_socket_packets_received_total :: u64
  mc_socket_bytes_received_total :: u64
  mc_socket_receive_batches_total :: u64
  mc_socket_source_filtered_total :: u64
  mc_socket_receive_errors_total :: u64
  mc_pipeline_packets_entered_total :: u64
  mc_pipeline_parse_ok_total :: u64
  mc_pipeline_validate_ok_total :: u64
  mc_active_contexts :: u64
  mc_buffer_current :: u64
  mc_buffer_max :: u64
  mc_uptime_seconds :: f64
  mc_memory_rss_bytes :: u64
  mc_numa_local_memory_pct :: f64
  mc_heartbeat_queue_depth :: u64
  mc_heartbeat_state :: int
  mc_face_rx_queue_depth :: "u64 list"
  mc_face_rx_queue_high_watermark :: "u64 list"
  mc_face_rx_queue_drops :: "u64 list"
  mc_face_packet_pool_total :: "u64 list"
  mc_face_packet_pool_available :: "u64 list"
  mc_face_packet_pool_fallback_alloc :: "u64 list"
  mc_data_delay :: "f64 histogram"
  mc_processing_latency :: "u64 histogram"
  mc_packet_pool_alloc_latency :: "u64 histogram"

definition metrics_collector_new :: MetricsCollector where
  "metrics_collector_new =
     \<lparr>mc_started = False, mc_port = 8080, mc_bind_ip = ''0.0.0.0'', mc_listen_fd = -1, mc_packets_received = 0, mc_packets_by_type = replicate 3 0,
      mc_packets_by_reason = replicate 15 0, mc_bytes_received = 0, mc_applied_late = 0, mc_clock_unlocked = 0, mc_missing_fragments_total = 0,
      mc_config_reload_total = 0, mc_signal_received_total = replicate 3 0, mc_heartbeat_packets_processed = 0, mc_heartbeat_sent_total = 0,
      mc_socket_packets_received_total = 0, mc_socket_bytes_received_total = 0, mc_socket_receive_batches_total = 0,
      mc_socket_source_filtered_total = 0, mc_socket_receive_errors_total = 0, mc_pipeline_packets_entered_total = 0,
      mc_pipeline_parse_ok_total = 0, mc_pipeline_validate_ok_total = 0, mc_active_contexts = 0, mc_buffer_current = 0, mc_buffer_max = 0,
      mc_uptime_seconds = 0, mc_memory_rss_bytes = 0, mc_numa_local_memory_pct = 0, mc_heartbeat_queue_depth = 0, mc_heartbeat_state = 0,
      mc_face_rx_queue_depth = replicate 3 0, mc_face_rx_queue_high_watermark = replicate 3 0, mc_face_rx_queue_drops = replicate 3 0,
      mc_face_packet_pool_total = replicate 3 0, mc_face_packet_pool_available = replicate 3 0, mc_face_packet_pool_fallback_alloc = replicate 3 0,
      mc_data_delay = no_observations 8 0, mc_processing_latency = no_observations 8 0, mc_packet_pool_alloc_latency = no_observations 8 0\<rparr>"

definition initialize_metrics :: "u16 \<Rightarrow> string \<Rightarrow> MetricsCollector \<Rightarrow> MetricsCollector" where
  "initialize_metrics port ip m = m\<lparr>mc_port := port, mc_bind_ip := ip\<rparr>"

subsection \<open>Counters\<close>

definition bump :: "nat \<Rightarrow> u64 \<Rightarrow> u64 list \<Rightarrow> u64 list" where
  "bump i n ks = ks[i := ks ! i + n]"

definition increment_packets_received :: "u64 \<Rightarrow> MetricsCollector \<Rightarrow> MetricsCollector" where
  "increment_packets_received n m = m\<lparr>mc_packets_received := mc_packets_received m + n\<rparr>"
definition increment_packets_received_by_type :: "PacketTypeIndex \<Rightarrow> u64 \<Rightarrow> MetricsCollector \<Rightarrow> MetricsCollector" where
  "increment_packets_received_by_type t n m = m\<lparr>mc_packets_by_type := bump (packet_type_number t) n (mc_packets_by_type m)\<rparr>"
definition increment_packets_received_named :: "string \<Rightarrow> u64 \<Rightarrow> MetricsCollector \<Rightarrow> MetricsCollector" where
  "increment_packets_received_named s n m = increment_packets_received_by_type (packet_type_index_from_string s) n m"
definition increment_packets_dropped_by_reason :: "DropReasonIndex \<Rightarrow> u64 \<Rightarrow> MetricsCollector \<Rightarrow> MetricsCollector" where
  "increment_packets_dropped_by_reason r n m = m\<lparr>mc_packets_by_reason := bump (drop_reason_number r) n (mc_packets_by_reason m)\<rparr>"
definition increment_packets_dropped :: "string \<Rightarrow> u64 \<Rightarrow> MetricsCollector \<Rightarrow> MetricsCollector" where
  "increment_packets_dropped s n m = increment_packets_dropped_by_reason (drop_reason_index_from_string s) n m"
definition increment_bytes_received :: "u64 \<Rightarrow> MetricsCollector \<Rightarrow> MetricsCollector" where
  "increment_bytes_received n m = m\<lparr>mc_bytes_received := mc_bytes_received m + n\<rparr>"
definition increment_applied_late :: "u64 \<Rightarrow> MetricsCollector \<Rightarrow> MetricsCollector" where
  "increment_applied_late n m = m\<lparr>mc_applied_late := mc_applied_late m + n\<rparr>"
definition increment_clock_unlocked :: "u64 \<Rightarrow> MetricsCollector \<Rightarrow> MetricsCollector" where
  "increment_clock_unlocked n m = m\<lparr>mc_clock_unlocked := mc_clock_unlocked m + n\<rparr>"
definition increment_config_reloads :: "u64 \<Rightarrow> MetricsCollector \<Rightarrow> MetricsCollector" where
  "increment_config_reloads n m = m\<lparr>mc_config_reload_total := mc_config_reload_total m + n\<rparr>"
definition increment_signal_received :: "string \<Rightarrow> u64 \<Rightarrow> MetricsCollector \<Rightarrow> MetricsCollector" where
  "increment_signal_received s n m =
     (case signal_index_from_string s of None \<Rightarrow> m | Some i \<Rightarrow> m\<lparr>mc_signal_received_total := bump i n (mc_signal_received_total m)\<rparr>)"
definition increment_heartbeat_packets_processed :: "u64 \<Rightarrow> MetricsCollector \<Rightarrow> MetricsCollector" where
  "increment_heartbeat_packets_processed n m = m\<lparr>mc_heartbeat_packets_processed := mc_heartbeat_packets_processed m + n\<rparr>"
definition increment_heartbeat_sent :: "u64 \<Rightarrow> MetricsCollector \<Rightarrow> MetricsCollector" where
  "increment_heartbeat_sent n m = m\<lparr>mc_heartbeat_sent_total := mc_heartbeat_sent_total m + n\<rparr>"
definition increment_socket_packets_received :: "u64 \<Rightarrow> MetricsCollector \<Rightarrow> MetricsCollector" where
  "increment_socket_packets_received n m = m\<lparr>mc_socket_packets_received_total := mc_socket_packets_received_total m + n\<rparr>"
definition increment_socket_bytes_received :: "u64 \<Rightarrow> MetricsCollector \<Rightarrow> MetricsCollector" where
  "increment_socket_bytes_received n m = m\<lparr>mc_socket_bytes_received_total := mc_socket_bytes_received_total m + n\<rparr>"
definition increment_socket_receive_batches :: "u64 \<Rightarrow> MetricsCollector \<Rightarrow> MetricsCollector" where
  "increment_socket_receive_batches n m = m\<lparr>mc_socket_receive_batches_total := mc_socket_receive_batches_total m + n\<rparr>"
definition increment_socket_source_filtered :: "u64 \<Rightarrow> MetricsCollector \<Rightarrow> MetricsCollector" where
  "increment_socket_source_filtered n m = m\<lparr>mc_socket_source_filtered_total := mc_socket_source_filtered_total m + n\<rparr>"
definition increment_socket_receive_errors :: "u64 \<Rightarrow> MetricsCollector \<Rightarrow> MetricsCollector" where
  "increment_socket_receive_errors n m = m\<lparr>mc_socket_receive_errors_total := mc_socket_receive_errors_total m + n\<rparr>"
definition increment_pipeline_packets_entered :: "u64 \<Rightarrow> MetricsCollector \<Rightarrow> MetricsCollector" where
  "increment_pipeline_packets_entered n m = m\<lparr>mc_pipeline_packets_entered_total := mc_pipeline_packets_entered_total m + n\<rparr>"
definition increment_pipeline_parse_ok :: "u64 \<Rightarrow> MetricsCollector \<Rightarrow> MetricsCollector" where
  "increment_pipeline_parse_ok n m = m\<lparr>mc_pipeline_parse_ok_total := mc_pipeline_parse_ok_total m + n\<rparr>"
definition increment_pipeline_validate_ok :: "u64 \<Rightarrow> MetricsCollector \<Rightarrow> MetricsCollector" where
  "increment_pipeline_validate_ok n m = m\<lparr>mc_pipeline_validate_ok_total := mc_pipeline_validate_ok_total m + n\<rparr>"

subsection \<open>Gauges\<close>

definition set_active_reorder_contexts :: "u64 \<Rightarrow> MetricsCollector \<Rightarrow> MetricsCollector" where
  "set_active_reorder_contexts n m = m\<lparr>mc_active_contexts := n\<rparr>"
definition set_missing_fragments_total :: "u64 \<Rightarrow> MetricsCollector \<Rightarrow> MetricsCollector" where
  "set_missing_fragments_total n m = m\<lparr>mc_missing_fragments_total := n\<rparr>"
definition set_buffer_usage :: "u64 \<Rightarrow> u64 \<Rightarrow> MetricsCollector \<Rightarrow> MetricsCollector" where
  "set_buffer_usage current mx m = m\<lparr>mc_buffer_current := current, mc_buffer_max := mx\<rparr>"
definition set_uptime_seconds :: "f64 \<Rightarrow> MetricsCollector \<Rightarrow> MetricsCollector" where
  "set_uptime_seconds s m = m\<lparr>mc_uptime_seconds := s\<rparr>"
definition set_memory_rss_bytes :: "u64 \<Rightarrow> MetricsCollector \<Rightarrow> MetricsCollector" where
  "set_memory_rss_bytes n m = m\<lparr>mc_memory_rss_bytes := n\<rparr>"
definition set_numa_local_memory_pct :: "f64 \<Rightarrow> MetricsCollector \<Rightarrow> MetricsCollector" where
  "set_numa_local_memory_pct pct m =
     (let p1 = (if f64_lt pct 0 then 0 else pct); p2 = (if f64_lt 0x4059000000000000 p1 then 0x4059000000000000 else p1) in m\<lparr>mc_numa_local_memory_pct := p2\<rparr>)"
definition set_heartbeat_queue_depth :: "u64 \<Rightarrow> MetricsCollector \<Rightarrow> MetricsCollector" where
  "set_heartbeat_queue_depth n m = m\<lparr>mc_heartbeat_queue_depth := n\<rparr>"
definition set_heartbeat_state :: "int \<Rightarrow> MetricsCollector \<Rightarrow> MetricsCollector" where
  "set_heartbeat_state st m = m\<lparr>mc_heartbeat_state := st\<rparr>"

definition face_slot :: "u8 \<Rightarrow> nat option" where
  "face_slot array_id = (if array_id = 0 \<or> unat array_id > FACE_METRIC_COUNT then None else Some (unat array_id - 1))"

definition set_face_rx_queue_depth :: "u8 \<Rightarrow> u64 \<Rightarrow> MetricsCollector \<Rightarrow> MetricsCollector" where
  "set_face_rx_queue_depth a n m =
     (case face_slot a of None \<Rightarrow> m | Some i \<Rightarrow> m\<lparr>mc_face_rx_queue_depth := (mc_face_rx_queue_depth m)[i := n]\<rparr>)"
definition set_face_rx_queue_high_watermark :: "u8 \<Rightarrow> u64 \<Rightarrow> MetricsCollector \<Rightarrow> MetricsCollector" where
  "set_face_rx_queue_high_watermark a n m =
     (case face_slot a of None \<Rightarrow> m | Some i \<Rightarrow> m\<lparr>mc_face_rx_queue_high_watermark := (mc_face_rx_queue_high_watermark m)[i := n]\<rparr>)"
definition set_face_rx_queue_drops :: "u8 \<Rightarrow> u64 \<Rightarrow> MetricsCollector \<Rightarrow> MetricsCollector" where
  "set_face_rx_queue_drops a n m =
     (case face_slot a of None \<Rightarrow> m | Some i \<Rightarrow> m\<lparr>mc_face_rx_queue_drops := (mc_face_rx_queue_drops m)[i := n]\<rparr>)"
definition set_face_packet_pool_stats :: "u8 \<Rightarrow> u64 \<Rightarrow> u64 \<Rightarrow> u64 \<Rightarrow> MetricsCollector \<Rightarrow> MetricsCollector" where
  "set_face_packet_pool_stats a tot available fallback m =
     (case face_slot a of
        None \<Rightarrow> m
      | Some i \<Rightarrow> m\<lparr>mc_face_packet_pool_total := (mc_face_packet_pool_total m)[i := tot],
                    mc_face_packet_pool_available := (mc_face_packet_pool_available m)[i := available],
                    mc_face_packet_pool_fallback_alloc := (mc_face_packet_pool_fallback_alloc m)[i := fallback]\<rparr>)"

subsection \<open>Observations\<close>

definition observe_data_delay :: "fpu \<Rightarrow> f64 \<Rightarrow> MetricsCollector \<Rightarrow> MetricsCollector" where
  "observe_data_delay fp delay m =
     (let d = (if f64_lt delay 0 then 0 else delay) in m\<lparr>mc_data_delay := observe f64_le (d_add fp) DATA_DELAY_BUCKET_BOUNDS d (mc_data_delay m)\<rparr>)"
definition observe_processing_latency :: "u64 \<Rightarrow> MetricsCollector \<Rightarrow> MetricsCollector" where
  "observe_processing_latency us m = m\<lparr>mc_processing_latency := observe (\<le>) (+) PROCESSING_LATENCY_BUCKET_BOUNDS us (mc_processing_latency m)\<rparr>"
definition observe_packet_pool_allocation_latency_ns :: "u64 \<Rightarrow> MetricsCollector \<Rightarrow> MetricsCollector" where
  "observe_packet_pool_allocation_latency_ns ns m =
     m\<lparr>mc_packet_pool_alloc_latency := observe (\<le>) (+) PACKET_POOL_ALLOC_LATENCY_BUCKET_BOUNDS ns (mc_packet_pool_alloc_latency m)\<rparr>"

definition collect_system_metrics :: "f64 \<Rightarrow> u64 \<Rightarrow> MetricsCollector \<Rightarrow> MetricsCollector" where
  "collect_system_metrics uptime rss m = set_memory_rss_bytes rss (set_uptime_seconds uptime m)"

subsection \<open>Exposition\<close>

record metrics_env =
  me_fpu :: fpu
  me_show :: "f64 \<Rightarrow> string"
  me_of_int :: "int \<Rightarrow> f64"
  me_external :: "string option"

definition nl :: string where "nl = [CHR 0x0A]"

definition quoted :: "string \<Rightarrow> string" where
  "quoted s = CHR 0x22 # s @ [CHR 0x22]"

definition family_head :: "string \<Rightarrow> string \<Rightarrow> string \<Rightarrow> string" where
  "family_head name help type = ''# HELP '' @ name @ '' '' @ help @ nl @ ''# TYPE '' @ name @ '' '' @ type @ nl"

definition append_counter :: "string \<Rightarrow> string \<Rightarrow> u64 \<Rightarrow> string" where
  "append_counter name help v = family_head name help ''counter'' @ name @ '' '' @ to_string (unat v) @ nl"

definition append_gauge :: "metrics_env \<Rightarrow> string \<Rightarrow> string \<Rightarrow> f64 \<Rightarrow> string" where
  "append_gauge env name help v = family_head name help ''gauge'' @ name @ '' '' @ me_show env v @ nl"

definition labelled :: "string \<Rightarrow> string \<Rightarrow> string list \<Rightarrow> u64 list \<Rightarrow> string" where
  "labelled name label values ks =
     concat (map (\<lambda>(l, k). name @ ''{'' @ label @ ''='' @ quoted l @ ''} '' @ to_string (unat k) @ nl) (zip values ks))"

definition append_face_gauge :: "string \<Rightarrow> string \<Rightarrow> u64 list \<Rightarrow> string" where
  "append_face_gauge name help ks = family_head name help ''gauge'' @ labelled name ''face'' (map (\<lambda>i. to_string (i + 1)) [0..<FACE_METRIC_COUNT]) ks"

definition append_face_counter :: "string \<Rightarrow> string \<Rightarrow> u64 list \<Rightarrow> string" where
  "append_face_counter name help ks = family_head name help ''counter'' @ labelled name ''face'' (map (\<lambda>i. to_string (i + 1)) [0..<FACE_METRIC_COUNT]) ks"

definition append_histogram :: "('v \<Rightarrow> string) \<Rightarrow> string \<Rightarrow> string \<Rightarrow> 'v list \<Rightarrow> 'v histogram \<Rightarrow> string" where
  "append_histogram sh name help bounds h =
     family_head name help ''histogram'' @
     labelled (name @ ''_bucket'') ''le'' (map sh bounds @ [''+Inf'']) (cumulate 0 (hg_bucket_counts h)) @
     name @ ''_sum '' @ sh (hg_sum h) @ nl @ name @ ''_count '' @ to_string (unat (hg_count h)) @ nl"

fun quantile_scan :: "fpu \<Rightarrow> f64 \<Rightarrow> f64 \<Rightarrow> u64 \<Rightarrow> (f64 \<times> u64) list \<Rightarrow> f64 \<Rightarrow> f64" where
  "quantile_scan fp rank prev_bound prev_cum [] last_bound = last_bound"
| "quantile_scan fp rank prev_bound prev_cum ((bound, cum) # bs) last_bound =
     (if f64_le rank (d_of_size fp cum) then
        let bucket_count = (if cum > prev_cum then cum - prev_cum else 0) in
        if bucket_count = 0 then bound
        else let pos = d_div fp (d_sub fp rank (d_of_size fp prev_cum)) (d_of_size fp bucket_count) in
          d_add fp prev_bound (d_mul fp (d_sub fp bound prev_bound) pos)
      else quantile_scan fp rank bound cum bs last_bound)"

definition histogram_quantile_from_cumulative :: "fpu \<Rightarrow> (f64 \<times> u64) list \<Rightarrow> u64 \<Rightarrow> f64 \<Rightarrow> f64" where
  "histogram_quantile_from_cumulative fp buckets n q =
     (if n = 0 \<or> buckets = [] then 0 else quantile_scan fp (d_mul fp q (d_of_size fp n)) 0 0 buckets (fst (last buckets)))"

definition append_quantiles :: "metrics_env \<Rightarrow> string \<Rightarrow> string \<Rightarrow> f64 list \<Rightarrow> u64 list \<Rightarrow> u64 \<Rightarrow> string" where
  "append_quantiles env name help bounds counts n =
     (let buckets = zip bounds (cumulate 0 counts);
          quantile = histogram_quantile_from_cumulative (me_fpu env) buckets n in
      append_gauge env (name @ ''_p50'') (''Approximate P50 '' @ help) (quantile 0x3FE0000000000000) @
      append_gauge env (name @ ''_p99'') (''Approximate P99 '' @ help) (quantile 0x3FEFAE147AE147AE) @
      append_gauge env (name @ ''_p999'') (''Approximate P99.9 '' @ help) (quantile 0x3FEFF7CED916872B))"

definition counter_families :: "MetricsCollector \<Rightarrow> string list" where
  "counter_families m =
     [append_counter ''receiver_packets_received_total'' ''Total received packets'' (mc_packets_received m),
      append_counter ''receiver_bytes_received_total'' ''Total received bytes'' (mc_bytes_received m),
      append_counter ''receiver_applied_late_total'' ''Total applied-late events'' (mc_applied_late m),
      append_counter ''receiver_clock_unlocked_total'' ''Total clock unlocked events'' (mc_clock_unlocked m),
      append_counter ''receiver_config_reload_total'' ''Total successful config reloads'' (mc_config_reload_total m),
      append_counter ''heartbeat_packets_processed'' ''Total heartbeat packets processed'' (mc_heartbeat_packets_processed m),
      append_counter ''receiver_heartbeat_sent_total'' ''Total heartbeat packets sent'' (mc_heartbeat_sent_total m),
      append_counter ''receiver_missing_fragments_total'' ''Total missing fragments after reassembly timeout'' (mc_missing_fragments_total m),
      append_counter ''receiver_socket_packets_received_total'' ''UDP packets received from socket before protocol filtering'' (mc_socket_packets_received_total m),
      append_counter ''receiver_socket_bytes_received_total'' ''UDP payload bytes received from socket before protocol filtering'' (mc_socket_bytes_received_total m),
      append_counter ''receiver_socket_receive_batches_total'' ''recvmmsg batches received from socket'' (mc_socket_receive_batches_total m),
      append_counter ''receiver_socket_source_filtered_total'' ''UDP packets dropped by source filter before pipeline'' (mc_socket_source_filtered_total m),
      append_counter ''receiver_socket_receive_errors_total'' ''UDP socket receive errors before pipeline'' (mc_socket_receive_errors_total m),
      append_counter ''receiver_pipeline_packets_entered_total'' ''Packets entering the receiver pipeline callback'' (mc_pipeline_packets_entered_total m),
      append_counter ''receiver_pipeline_parse_ok_total'' ''Packets successfully parsed in the receiver pipeline'' (mc_pipeline_parse_ok_total m),
      append_counter ''receiver_pipeline_validate_ok_total'' ''Packets successfully validated in the receiver pipeline'' (mc_pipeline_validate_ok_total m),
      family_head ''receiver_signal_received_total'' ''Received UNIX signals by name'' ''counter'' @
        labelled ''receiver_signal_received_total'' ''signal'' SIGNAL_LABELS (mc_signal_received_total m),
      family_head ''receiver_packets_received_total'' ''Received packets by packet type'' ''counter'' @
        labelled ''receiver_packets_received_total'' ''packet_type'' PACKET_TYPE_LABELS (mc_packets_by_type m),
      family_head ''receiver_packets_dropped_total'' ''Dropped packets by reason'' ''counter'' @
        labelled ''receiver_packets_dropped_total'' ''reason'' DROP_REASON_LABELS (mc_packets_by_reason m)]"

definition gauge_families :: "metrics_env \<Rightarrow> MetricsCollector \<Rightarrow> string list" where
  "gauge_families env m =
     [append_gauge env ''receiver_reasm_contexts_active'' ''Active reassembly contexts'' (d_of_size (me_fpu env) (mc_active_contexts m)),
      append_gauge env ''receiver_buffer_usage_current'' ''Current buffer usage'' (d_of_size (me_fpu env) (mc_buffer_current m)),
      append_gauge env ''receiver_buffer_usage_max'' ''Configured max buffer size'' (d_of_size (me_fpu env) (mc_buffer_max m)),
      append_gauge env ''receiver_uptime_seconds'' ''Process uptime in seconds'' (mc_uptime_seconds m),
      append_gauge env ''receiver_memory_rss_bytes'' ''Process RSS memory usage in bytes'' (d_of_size (me_fpu env) (mc_memory_rss_bytes m)),
      append_gauge env ''numa_local_memory_pct'' ''Percentage of memory allocated from local NUMA node'' (mc_numa_local_memory_pct m),
      append_gauge env ''heartbeat_queue_depth'' ''Current heartbeat queue depth'' (d_of_size (me_fpu env) (mc_heartbeat_queue_depth m)),
      append_gauge env ''receiver_heartbeat_state'' ''Heartbeat link state (0=DISCONNECTED,1=CONNECTING,2=CONNECTED)'' (me_of_int env (mc_heartbeat_state m)),
      append_face_gauge ''receiver_rx_queue_depth'' ''Current per-face RxStage queue depth'' (mc_face_rx_queue_depth m),
      append_face_gauge ''receiver_rx_queue_high_watermark'' ''Observed per-face RxStage queue high watermark'' (mc_face_rx_queue_high_watermark m),
      append_face_counter ''receiver_rx_queue_drops_total'' ''Per-face RxStage queue drop-oldest count'' (mc_face_rx_queue_drops m),
      append_face_gauge ''receiver_packet_pool_total_buffers'' ''Per-face PacketPool total buffer count'' (mc_face_packet_pool_total m),
      append_face_gauge ''receiver_packet_pool_available_buffers'' ''Per-face PacketPool available buffer count'' (mc_face_packet_pool_available m),
      append_face_counter ''receiver_packet_pool_fallback_alloc_total'' ''Per-face PacketPool fallback allocation count'' (mc_face_packet_pool_fallback_alloc m)]"

definition histogram_families :: "metrics_env \<Rightarrow> MetricsCollector \<Rightarrow> string list" where
  "histogram_families env m =
     [append_histogram (me_show env) ''receiver_data_delay_seconds_histogram'' ''Data delay in seconds'' DATA_DELAY_BUCKET_BOUNDS (mc_data_delay m),
      append_histogram (\<lambda>v. to_string (unat v)) ''receiver_processing_latency_us_histogram'' ''Processing latency in microseconds''
        PROCESSING_LATENCY_BUCKET_BOUNDS (mc_processing_latency m),
      append_histogram (\<lambda>v. to_string (unat v)) ''packet_pool_allocation_latency_ns'' ''Packet pool allocation latency in nanoseconds''
        PACKET_POOL_ALLOC_LATENCY_BUCKET_BOUNDS (mc_packet_pool_alloc_latency m),
      append_quantiles env ''receiver_data_delay_seconds'' ''data delay'' DATA_DELAY_BUCKET_BOUNDS (hg_bucket_counts (mc_data_delay m)) (hg_count (mc_data_delay m)),
      append_quantiles env ''receiver_processing_latency_us'' ''processing latency'' (map (d_of_size (me_fpu env)) PROCESSING_LATENCY_BUCKET_BOUNDS)
        (hg_bucket_counts (mc_processing_latency m)) (hg_count (mc_processing_latency m))]"

definition read_external_metrics_payload :: "metrics_env \<Rightarrow> string" where
  "read_external_metrics_payload env =
     (case me_external env of None \<Rightarrow> [] | Some payload \<Rightarrow> if payload \<noteq> [] \<and> last payload \<noteq> CHR 0x0A then payload @ nl else payload)"

definition build_metrics_payload :: "metrics_env \<Rightarrow> MetricsCollector \<Rightarrow> string" where
  "build_metrics_payload env m = concat (counter_families m @ gauge_families env m @ histogram_families env m) @ read_external_metrics_payload env"

subsection \<open>The endpoint\<close>

record http_io =
  hs_socket :: int
  hs_inet_pton :: "string \<Rightarrow> int"
  hs_bind :: "string \<Rightarrow> u16 \<Rightarrow> int"
  hs_listen :: int

text \<open>The beginning of the server thread; the loop that serves requests runs while \<^verbatim>\<open>started\<close> holds.\<close>

definition open_server :: "http_io \<Rightarrow> MetricsCollector \<Rightarrow> MetricsCollector" where
  "open_server io m =
     (let closed = m\<lparr>mc_listen_fd := -1, mc_started := False\<rparr> in
      if hs_socket io < 0 then m\<lparr>mc_listen_fd := hs_socket io, mc_started := False\<rparr>
      else if hs_inet_pton io (mc_bind_ip m) \<noteq> 1 then closed
      else if hs_bind io (mc_bind_ip m) (mc_port m) < 0 then closed
      else if hs_listen io < 0 then closed
      else m\<lparr>mc_listen_fd := hs_socket io\<rparr>)"

definition metrics_start :: "http_io \<Rightarrow> MetricsCollector \<Rightarrow> MetricsCollector \<times> bool" where
  "metrics_start io m = (if mc_started m then (m, True) else (open_server io (m\<lparr>mc_started := True\<rparr>), True))"

definition metrics_stop :: "MetricsCollector \<Rightarrow> MetricsCollector" where
  "metrics_stop m = m\<lparr>mc_started := False, mc_listen_fd := (if mc_listen_fd m \<ge> 0 then -1 else mc_listen_fd m)\<rparr>"

definition crlf :: string where "crlf = [CHR 0x0D, CHR 0x0A]"

definition metrics_response :: "string \<Rightarrow> string" where
  "metrics_response body =
     ''HTTP/1.0 200 OK'' @ crlf @ ''Content-Type: text/plain; version=0.0.4; charset=utf-8'' @ crlf @
     ''Content-Length: '' @ to_string (length body) @ crlf @ ''Connection: close'' @ crlf @ crlf @ body"

definition not_found_response :: string where
  "not_found_response = ''HTTP/1.0 404 Not Found'' @ crlf @ ''Content-Length: 0'' @ crlf @ ''Connection: close'' @ crlf @ crlf"

definition serve_request :: "metrics_env \<Rightarrow> string \<Rightarrow> MetricsCollector \<Rightarrow> string option" where
  "serve_request env received m =
     (let request = takeWhile (\<lambda>c. c \<noteq> CHR 0x00) received in
      if received = [] then None
      else if take 12 request = ''GET /metrics'' then Some (metrics_response (build_metrics_payload env m))
      else Some not_found_response)"

subsection \<open>Histograms count exactly\<close>

text \<open>What a histogram needs of its bounds: a value below one of them is below all later ones.\<close>

locale histogram_bounds =
  fixes le :: "'v \<Rightarrow> 'v \<Rightarrow> bool" and add :: "'v \<Rightarrow> 'v \<Rightarrow> 'v" and bounds :: "'v list"
  assumes le_later: "i \<le> j \<Longrightarrow> j < length bounds \<Longrightarrow> le x (bounds ! i) \<Longrightarrow> le x (bounds ! j)"
begin

lemma bucket_index_le: "bucket_index le x bs \<le> length bs"
  by (induction bs) auto

lemma bucket_index_first: "i < bucket_index le x bs \<Longrightarrow> \<not> le x (bs ! i)"
  by (induction bs arbitrary: i) (auto simp: nth_Cons split: if_splits nat.splits)

lemma bucket_index_hit: "bucket_index le x bs < length bs \<Longrightarrow> le x (bs ! bucket_index le x bs)"
  by (induction bs) auto

lemma bucket_index_iff: "j < length bounds \<Longrightarrow> bucket_index le x bounds \<le> j \<longleftrightarrow> le x (bounds ! j)"
  using bucket_index_first [of j x bounds] le_later [of "bucket_index le x bounds" j x] bucket_index_hit [of x bounds]
  by (meson le_less_trans not_le)

lemma length_cumulate: "length (cumulate acc ks) = length ks"
  by (induction ks arbitrary: acc) auto

lemma cumulate_nth: "j < length ks \<Longrightarrow> cumulate acc ks ! j = acc + sum_list (take (Suc j) ks)"
  by (induction ks arbitrary: acc j) (auto simp: nth_Cons add.assoc split: nat.splits)

lemma sum_take_bump:
  fixes ks :: "u64 list"
  assumes "i < length ks"
  shows "sum_list (take n (ks[i := ks ! i + 1])) = sum_list (take n ks) + (if i < n then 1 else 0)"
  using assms
proof (induction ks arbitrary: i n)
  case (Cons k ks)
  then show ?case by (cases i; cases n) auto
qed simp

text \<open>The cumulative counts after any observations.\<close>

lemma observations_cumulative:
  assumes "length (hg_bucket_counts h) = Suc (length bounds)"
  shows "cumulate 0 (hg_bucket_counts (fold (observe le add bounds) xs h)) =
      map (\<lambda>j. cumulate 0 (hg_bucket_counts h) ! j + word_of_nat (length (filter (\<lambda>x. bucket_index le x bounds \<le> j) xs))) [0..<Suc (length bounds)] \<and>
    hg_count (fold (observe le add bounds) xs h) = hg_count h + word_of_nat (length xs) \<and>
    hg_sum (fold (observe le add bounds) xs h) = fold (\<lambda>x acc. add acc x) xs (hg_sum h)"
  using assms
proof (induction xs arbitrary: h)
  case Nil
  then show ?case by (auto simp: length_cumulate intro!: nth_equalityI simp del: upt_Suc)
next
  case (Cons x xs)
  let ?h = "observe le add bounds x h" and ?i = "bucket_index le x bounds"
  have i: "?i < length (hg_bucket_counts h)" using bucket_index_le [of x bounds] Cons.prems by simp
  have b: "hg_bucket_counts ?h = (hg_bucket_counts h)[?i := hg_bucket_counts h ! ?i + 1]" by (simp add: observe_def Let_def)
  have "cumulate 0 (hg_bucket_counts ?h) ! j = cumulate 0 (hg_bucket_counts h) ! j + (if ?i \<le> j then 1 else 0)" if "j < Suc (length bounds)" for j
    using that Cons.prems sum_take_bump [OF i, of "Suc j"] by (simp add: cumulate_nth b less_Suc_eq_le)
  then have "map (\<lambda>j. cumulate 0 (hg_bucket_counts ?h) ! j + word_of_nat (length (filter (\<lambda>x. bucket_index le x bounds \<le> j) xs))) [0..<Suc (length bounds)] =
     map (\<lambda>j. cumulate 0 (hg_bucket_counts h) ! j + word_of_nat (length (filter (\<lambda>x. bucket_index le x bounds \<le> j) (x # xs)))) [0..<Suc (length bounds)]"
    by (intro map_cong refl) (auto simp del: upt_Suc)
  moreover have "length (hg_bucket_counts ?h) = Suc (length bounds)" using Cons.prems b by simp
  ultimately show ?case using Cons.IH [of ?h] by (simp add: observe_def Let_def del: upt_Suc)
qed

lemma histogram_exact:
  fixes xs :: "'v list" and z :: 'v
  defines "h \<equiv> fold (observe le add bounds) xs (no_observations (length bounds) z)"
  shows "cumulate 0 (hg_bucket_counts h) = map (\<lambda>b. word_of_nat (length (filter (\<lambda>x. le x b) xs))) bounds @ [word_of_nat (length xs)]"
    and "hg_count h = word_of_nat (length xs)" and "hg_sum h = fold (\<lambda>x acc. add acc x) xs z"
proof -
  let ?h0 = "no_observations (length bounds) z"
  have len: "length (hg_bucket_counts ?h0) = Suc (length bounds)" by (simp add: no_observations_def)
  have zero: "cumulate 0 (hg_bucket_counts ?h0) ! j = 0" if "j < Suc (length bounds)" for j
    using that cumulate_nth [of j "hg_bucket_counts ?h0" 0] by (simp add: no_observations_def sum_list_replicate)
  note ob = observations_cumulative [OF len, where xs = xs, folded h_def]
  have "cumulate 0 (hg_bucket_counts h) ! j = (map (\<lambda>b. word_of_nat (length (filter (\<lambda>x. le x b) xs))) bounds @ [word_of_nat (length xs)]) ! j"
    if j: "j < Suc (length bounds)" for j
  proof (cases "j < length bounds")
    case True
    then show ?thesis using ob zero [OF j] j by (simp add: bucket_index_iff nth_append del: upt_Suc)
  next
    case False
    then have "j = length bounds" using j by simp
    then show ?thesis using ob zero [OF j] j bucket_index_le by (simp add: nth_append del: upt_Suc)
  qed
  moreover have "length (cumulate 0 (hg_bucket_counts h)) = Suc (length bounds)" using ob by simp
  ultimately show "cumulate 0 (hg_bucket_counts h) = map (\<lambda>b. word_of_nat (length (filter (\<lambda>x. le x b) xs))) bounds @ [word_of_nat (length xs)]"
    by (intro nth_equalityI) simp_all
  show "hg_count h = word_of_nat (length xs)" "hg_sum h = fold (\<lambda>x acc. add acc x) xs z" using ob by (simp_all add: no_observations_def)
qed

end

interpretation latency: histogram_bounds "(\<le>)" "(+)" PROCESSING_LATENCY_BUCKET_BOUNDS
proof
  fix i j :: nat and x :: u64
  assume "i \<le> j" "j < length PROCESSING_LATENCY_BUCKET_BOUNDS" and le: "x \<le> PROCESSING_LATENCY_BUCKET_BOUNDS ! i"
  moreover have "sorted PROCESSING_LATENCY_BUCKET_BOUNDS" by (simp add: PROCESSING_LATENCY_BUCKET_BOUNDS_def)
  ultimately show "x \<le> PROCESSING_LATENCY_BUCKET_BOUNDS ! j" using sorted_nth_mono order_trans by blast
qed

interpretation delay: histogram_bounds f64_le "d_add fp" DATA_DELAY_BUCKET_BOUNDS for fp
proof
  fix i j :: nat and x :: f64
  assume ij: "i \<le> j" "j < length DATA_DELAY_BUCKET_BOUNDS" and le: "f64_le x (DATA_DELAY_BUCKET_BOUNDS ! i)"
  have "sorted_wrt (\<lambda>a b. f64_le a b) DATA_DELAY_BUCKET_BOUNDS" by code_simp
  then show "f64_le x (DATA_DELAY_BUCKET_BOUNDS ! j)"
    using ij le f64o.le_trans sorted_wrt_nth_less [of f64_le DATA_DELAY_BUCKET_BOUNDS i j] by (cases "i = j") auto
qed

text \<open>The histogram of the processing latency that a scrape reports.\<close>

lemma fold_observe_latency:
  "mc_processing_latency (fold observe_processing_latency xs m) =
     fold (observe (\<le>) (+) PROCESSING_LATENCY_BUCKET_BOUNDS) xs (mc_processing_latency m)"
  by (induction xs arbitrary: m) (simp_all add: observe_processing_latency_def)

lemma latency_histogram_exact:
  defines "h \<equiv> \<lambda>xs. mc_processing_latency (fold observe_processing_latency xs metrics_collector_new)"
  shows "append_histogram sh name help PROCESSING_LATENCY_BUCKET_BOUNDS (h xs) = family_head name help ''histogram'' @
     labelled (name @ ''_bucket'') ''le'' (map sh PROCESSING_LATENCY_BUCKET_BOUNDS @ [''+Inf''])
       (map (\<lambda>b. word_of_nat (length (filter (\<lambda>x. x \<le> b) xs))) PROCESSING_LATENCY_BUCKET_BOUNDS @ [word_of_nat (length xs)]) @
     name @ ''_sum '' @ sh (fold (\<lambda>x acc. acc + x) xs 0) @ nl @ name @ ''_count '' @ to_string (unat (word_of_nat (length xs) :: u64)) @ nl"
proof -
  have "mc_processing_latency metrics_collector_new = no_observations (length PROCESSING_LATENCY_BUCKET_BOUNDS) 0"
    by (simp add: metrics_collector_new_def PROCESSING_LATENCY_BUCKET_BOUNDS_def eval_nat_numeral)
  then have "h xs = fold (observe (\<le>) (+) PROCESSING_LATENCY_BUCKET_BOUNDS) xs (no_observations (length PROCESSING_LATENCY_BUCKET_BOUNDS) 0)"
    by (simp add: h_def fold_observe_latency)
  then show ?thesis using latency.histogram_exact [of xs 0] by (simp add: append_histogram_def)
qed

text \<open>Two families have the same name: a reader of the exposition format finds two declarations of \<^verbatim>\<open>receiver_packets_received_total\<close>.\<close>

lemma family_declared_twice:
  "\<exists>v rest. counter_families m ! 0 = ''# HELP receiver_packets_received_total '' @ v \<and>
     counter_families m ! 17 = ''# HELP receiver_packets_received_total '' @ rest"
  by (simp add: counter_families_def append_counter_def family_head_def)

lemma response_length:
  assumes "serve_request env request m = Some response" and "take 12 (takeWhile (\<lambda>c. c \<noteq> CHR 0x00) request) = ''GET /metrics''"
  shows "\<exists>head. response = head @ ''Content-Length: '' @ to_string (length (build_metrics_payload env m)) @ crlf @ ''Connection: close'' @ crlf @ crlf @
    build_metrics_payload env m"
  using assms by (auto simp: serve_request_def metrics_response_def Let_def split: if_splits)

end
