(* ===== verification/App_Run.thy ===== *)
theory App_Run
  imports Udp_Receiver Metrics Reorder_Flush Face_Delivery Pcap_Reader
begin

text \<open>
  The running receiver (\<^verbatim>\<open>src/m01_receiver/app_run.cpp\<close>, \<^verbatim>\<open>signal_handler.cpp\<close>, \<^verbatim>\<open>main.cpp\<close>): start, the threads of the faces, the main loop with
  signals, reloads, timeout sweeps and metrics, and the shutdown.

  Correspondence.  \<open>AppState\<close> is \<^verbatim>\<open>AppContext\<close> with the singletons it uses (configuration, metrics, signal flags).  One iteration of the main loop,
  one received packet and one iteration of a processing thread are steps; clocks, the file system, the YAML file and the operating system are
  arguments.  Logging only writes and is not part of the state, except for the level.  An access to memory of a destroyed packet pool is the error
  \<open>Use_after_free\<close>.
\<close>

subsection \<open>Signals\<close>

definition SIGHUP :: int where "SIGHUP = 1"
definition SIGINT :: int where "SIGINT = 2"
definition SIGTERM :: int where "SIGTERM = 15"

record SignalFlags =
  sg_running :: bool
  sg_reload_requested :: bool
  sg_sigint :: u64
  sg_sigterm :: u64
  sg_sighup :: u64

definition signal_handler_impl :: "int \<Rightarrow> SignalFlags \<Rightarrow> SignalFlags" where
  "signal_handler_impl n f =
     (if n = SIGINT \<or> n = SIGTERM then
        (if n = SIGINT then f\<lparr>sg_sigint := sg_sigint f + 1\<rparr> else f\<lparr>sg_sigterm := sg_sigterm f + 1\<rparr>)\<lparr>sg_running := False\<rparr>
      else if n = SIGHUP then f\<lparr>sg_sighup := sg_sighup f + 1, sg_reload_requested := True\<rparr>
      else f)"

definition reset_signal_flags :: "SignalFlags \<Rightarrow> SignalFlags" where
  "reset_signal_flags f = f\<lparr>sg_running := True, sg_reload_requested := False, sg_sigint := 0, sg_sigterm := 0, sg_sighup := 0\<rparr>"

subsection \<open>State\<close>

text \<open>What has been reported of the counters of a face.\<close>

record FaceReported =
  fr_reasm_late_fragments :: u64
  fr_reasm_duplicate_fragments :: u64
  fr_reasm_frames_incomplete :: u64
  fr_reasm_contexts_overflow :: u64
  fr_reasm_bytes_overflow :: u64
  fr_reorder_duplicates :: u64
  fr_reorder_zero_filled :: u64

definition nothing_reported :: FaceReported where
  "nothing_reported = \<lparr>fr_reasm_late_fragments = 0, fr_reasm_duplicate_fragments = 0, fr_reasm_frames_incomplete = 0, fr_reasm_contexts_overflow = 0,
     fr_reasm_bytes_overflow = 0, fr_reorder_duplicates = 0, fr_reorder_zero_filled = 0\<rparr>"

record AppState =
  as_config_manager :: "unit ConfigManager"
  as_dry_run :: bool
  as_started :: bool
  as_log_level :: LogLevel
  as_metrics :: MetricsCollector
  as_signals :: SignalFlags
  as_last_sigint :: u64
  as_last_sigterm :: u64
  as_last_sighup :: u64
  as_udp :: "unit UdpReceiver"
  as_faces :: "FacePipeline list"
  as_reported :: "FaceReported list"
  as_consumers :: "StubConsumer list"
  as_processing_running :: bool
  as_pcap_writer :: "PcapWriter option"
  as_disk :: "string \<Rightarrow> bytes option"
  as_last_system_metrics :: u64

datatype app_error = Reload_exception | Face_failure face_error | Use_after_free

subsection \<open>Reload\<close>

definition stub_config_of :: "ReceiverConfig \<Rightarrow> nat \<Rightarrow> StubConsumerConfig" where
  "stub_config_of c i = (let k = cfg_consumer c in
     \<lparr>scc_array_id = word_of_nat (i + 1), scc_print_summary = con_print_summary k, scc_write_to_file = con_write_to_file k,
      scc_output_file = con_output_dir k, scc_stats_interval_ms = ucast (con_stats_interval_ms k)\<rparr>)"

text \<open>The files as the capture left them: a running writer owns them.\<close>

definition files_of :: "AppState \<Rightarrow> string \<Rightarrow> bytes option" where
  "files_of s = (case as_pcap_writer s of None \<Rightarrow> as_disk s | Some w \<Rightarrow> pw_disk w)"

definition with_files :: "(string \<Rightarrow> bytes option) \<Rightarrow> AppState \<Rightarrow> AppState" where
  "with_files d s = (case as_pcap_writer s of None \<Rightarrow> s\<lparr>as_disk := d\<rparr> | Some w \<Rightarrow> s\<lparr>as_pcap_writer := Some (w\<lparr>pw_disk := d\<rparr>)\<rparr>)"

record 'n iter_env =
  ie_yaml :: "'n yaml"
  ie_capture_io :: pcap_io
  ie_stop_ios :: "nat \<Rightarrow> pcap_io"
  ie_rename_ok :: bool
  ie_sweep_clocks :: "nat \<Rightarrow> clocks"
  ie_sweep_reassembler :: "nat \<Rightarrow> nat \<Rightarrow> u64"
  ie_sweep_reorderer :: "nat \<Rightarrow> nat \<Rightarrow> u64"
  ie_now_ns :: u64
  ie_uptime_seconds :: f64
  ie_rss_bytes :: u64

text \<open>A replaced writer is destroyed, which stops it, after the new one has started; both work on the same files.\<close>

definition apply_capture_runtime_config :: "'n iter_env \<Rightarrow> CaptureSection \<Rightarrow> AppState \<Rightarrow> AppState" where
  "apply_capture_runtime_config env k s =
     (let stopped = (\<lambda>w. pcap_stop (ie_stop_ios env) (ie_rename_ok env) w) in
      if \<not> cap_enabled k then
        (case as_pcap_writer s of
           None \<Rightarrow> s\<lparr>as_udp := set_capture_hook None (as_udp s)\<rparr>
         | Some w \<Rightarrow> s\<lparr>as_udp := set_capture_hook None (as_udp s), as_pcap_writer := None, as_disk := pw_disk (stopped w)\<rparr>)
      else case pcap_start (ie_capture_io env) (pcap_writer_new (capture_config_of k) (files_of s)) of
          None \<Rightarrow> s
        | Some (w, ok) \<Rightarrow>
            if \<not> ok then with_files (pw_disk w) s
            else let d = (case as_pcap_writer s of None \<Rightarrow> pw_disk w | Some old \<Rightarrow> pw_disk (stopped (old\<lparr>pw_disk := pw_disk w\<rparr>))) in
              s\<lparr>as_pcap_writer := Some (w\<lparr>pw_disk := d\<rparr>), as_udp := set_capture_hook (Some ()) (as_udp s)\<rparr>)"

definition set_face_timeouts :: "ReceiverConfig \<Rightarrow> FacePipeline \<Rightarrow> FacePipeline" where
  "set_face_timeouts c fp =
     fp\<lparr>fp_reassembler := set_timeout_ms (rsm_timeout_ms (cfg_reassembly c)) (fp_reassembler fp),
        fp_reorderer := reorder_set_timeout_ms (rdr_timeout_ms (cfg_reorder c)) (fp_reorderer fp)\<rparr>"

definition on_reload :: "'n iter_env \<Rightarrow> ReceiverConfig \<Rightarrow> AppState \<Rightarrow> AppState" where
  "on_reload env c s =
     apply_capture_runtime_config env (cfg_capture c)
       (s\<lparr>as_log_level := parse_log_level (lgg_level (cfg_logging c)), as_faces := map (set_face_timeouts c) (as_faces s)\<rparr>)"

definition handle_reload :: "'n iter_env \<Rightarrow> AppState \<Rightarrow> app_error + AppState" where
  "handle_reload env s =
     (if \<not> sg_reload_requested (as_signals s) then Inr s
      else let s1 = s\<lparr>as_signals := (as_signals s)\<lparr>sg_reload_requested := False\<rparr>\<rparr> in
        case reload_config (ie_yaml env) (as_config_manager s1) of
          Inl e \<Rightarrow> Inl Reload_exception
        | Inr (cm, ok, calls) \<Rightarrow>
            let s2 = fold (\<lambda>(cb, c). on_reload env c) calls (s1\<lparr>as_config_manager := cm\<rparr>) in
            if ok then Inr (s2\<lparr>as_metrics := increment_config_reloads 1 (as_metrics s2)\<rparr>) else Inr s2)"

subsection \<open>The main loop\<close>

definition report_signal :: "string \<Rightarrow> u64 \<Rightarrow> u64 \<Rightarrow> MetricsCollector \<Rightarrow> u64 \<times> MetricsCollector" where
  "report_signal name now prev m = (if now > prev then (now, increment_signal_received name (now - prev) m) else (prev, m))"

definition report_signals :: "AppState \<Rightarrow> AppState" where
  "report_signals s =
     (let f = as_signals s;
          (l1, m1) = report_signal ''SIGINT'' (sg_sigint f) (as_last_sigint s) (as_metrics s);
          (l2, m2) = report_signal ''SIGTERM'' (sg_sigterm f) (as_last_sigterm s) m1;
          (l3, m3) = report_signal ''SIGHUP'' (sg_sighup f) (as_last_sighup s) m2
      in s\<lparr>as_last_sigint := l1, as_last_sigterm := l2, as_last_sighup := l3, as_metrics := m3\<rparr>)"

fun sweep_faces :: "'n iter_env \<Rightarrow> nat \<Rightarrow> FacePipeline list \<Rightarrow> face_error + FacePipeline list \<times> (nat \<times> OrderedPacket) list" where
  "sweep_faces env i [] = Inr ([], [])"
| "sweep_faces env i (fp # fps) =
     (case timeout_sweep (ie_sweep_clocks env i) (ie_sweep_reassembler env i) (ie_sweep_reorderer env i) fp of
        Inl e \<Rightarrow> Inl e
      | Inr (fp', outs) \<Rightarrow>
          (case sweep_faces env (Suc i) fps of Inl e \<Rightarrow> Inl e | Inr (fps', outs') \<Rightarrow> Inr (fp' # fps', map (Pair i) outs @ outs')))"

definition report_delta :: "DropReasonIndex \<Rightarrow> u64 \<Rightarrow> u64 \<Rightarrow> MetricsCollector \<Rightarrow> u64 \<times> MetricsCollector" where
  "report_delta r now prev m = (if now > prev then (now, increment_packets_dropped_by_reason r (now - prev) m) else (prev, m))"

definition report_face :: "FacePipeline \<Rightarrow> FaceReported \<Rightarrow> MetricsCollector \<Rightarrow> FaceReported \<times> MetricsCollector" where
  "report_face fp fr m =
     (let st = rsm_stats (fp_reassembler fp); os = ord_stats (fp_reorderer fp);
          (l1, m1) = report_delta LATE_FRAGMENT (late_fragments st) (fr_reasm_late_fragments fr) m;
          (l2, m2) = report_delta REASM_DUPLICATE_FRAG (duplicate_fragments st) (fr_reasm_duplicate_fragments fr) m1;
          (l3, m3) = report_delta REASM_TIMEOUT (frames_incomplete st) (fr_reasm_frames_incomplete fr) m2;
          (l4, m4) = report_delta MAX_CONTEXTS_EXCEEDED (contexts_overflow st) (fr_reasm_contexts_overflow fr) m3;
          (l5, m5) = report_delta REASM_BYTES_OVERFLOW (reasm_bytes_overflow st) (fr_reasm_bytes_overflow fr) m4;
          (l6, m6) = report_delta SEQUENCE_DUPLICATE (packets_duplicate os) (fr_reorder_duplicates fr) m5;
          (l7, m7) = report_delta TIMEOUT (packets_zero_filled os) (fr_reorder_zero_filled fr) m6
      in (\<lparr>fr_reasm_late_fragments = l1, fr_reasm_duplicate_fragments = l2, fr_reasm_frames_incomplete = l3, fr_reasm_contexts_overflow = l4,
           fr_reasm_bytes_overflow = l5, fr_reorder_duplicates = l6, fr_reorder_zero_filled = l7\<rparr>, m7))"

fun report_faces :: "FacePipeline list \<Rightarrow> FaceReported list \<Rightarrow> MetricsCollector \<Rightarrow> FaceReported list \<times> MetricsCollector" where
  "report_faces (fp # fps) (fr # frs) m =
     (case report_face fp fr m of (fr', m1) \<Rightarrow> (case report_faces fps frs m1 of (frs', m2) \<Rightarrow> (fr' # frs', m2)))"
| "report_faces fps frs m = (frs, m)"

definition total_active_contexts :: "FacePipeline list \<Rightarrow> u64" where
  "total_active_contexts fps = sum_list (map (\<lambda>fp. let st = rsm_stats (fp_reassembler fp) in contexts_created st - contexts_destroyed st) fps)"

definition all_missing_fragments :: "FacePipeline list \<Rightarrow> u64" where
  "all_missing_fragments fps = sum_list (map (\<lambda>fp. total_missing_fragments (rsm_stats (fp_reassembler fp))) fps)"

definition report_rx :: "FacePipeline \<Rightarrow> MetricsCollector \<Rightarrow> MetricsCollector" where
  "report_rx fp m =
     (let st = get_stats (fp_rx_stage fp); a = fp_array_id fp in
      set_face_rx_queue_drops a (rs_queue_drops st)
        (set_face_rx_queue_high_watermark a (word_of_nat (rs_queue_high_watermark st))
          (set_face_rx_queue_depth a (word_of_nat (spsc_size (rx_queue (fp_rx_stage fp)))) m)))"

definition report_pool :: "u8 \<times> bool \<times> PoolStatistics \<Rightarrow> MetricsCollector \<Rightarrow> MetricsCollector" where
  "report_pool rt m = (case rt of (a, verified, st) \<Rightarrow> set_face_packet_pool_stats a (ps_total_size st) (ps_available st) (ps_fallback_alloc st) m)"

definition report_metrics :: "AppState \<Rightarrow> AppState" where
  "report_metrics s =
     (case report_faces (as_faces s) (as_reported s) (as_metrics s) of
        (frs, m) \<Rightarrow>
          s\<lparr>as_reported := frs,
            as_metrics := fold report_pool (get_face_runtime_stats (as_udp s))
              (fold report_rx (as_faces s)
                (set_missing_fragments_total (all_missing_fragments (as_faces s)) (set_active_reorder_contexts (total_active_contexts (as_faces s)) m)))\<rparr>)"

definition system_metrics :: "'n iter_env \<Rightarrow> AppState \<Rightarrow> AppState" where
  "system_metrics env s =
     (if ie_now_ns env - as_last_system_metrics s \<ge> 5000000000
      then s\<lparr>as_metrics := increment_heartbeat_sent 1 (collect_system_metrics (ie_uptime_seconds env) (ie_rss_bytes env) (as_metrics s)),
             as_last_system_metrics := ie_now_ns env\<rparr>
      else s)"

definition main_iteration :: "'n iter_env \<Rightarrow> AppState \<Rightarrow> app_error + AppState \<times> (nat \<times> OrderedPacket) list" where
  "main_iteration env s =
     (case handle_reload env (report_signals s) of
        Inl e \<Rightarrow> Inl e
      | Inr s1 \<Rightarrow>
          (case sweep_faces env 0 (as_faces s1) of
             Inl e \<Rightarrow> Inl (Face_failure e)
           | Inr (fps, outs) \<Rightarrow> Inr (system_metrics env (report_metrics (s1\<lparr>as_faces := fps\<rparr>)), outs)))"

subsection \<open>The processing threads\<close>

definition packet_type_index :: "u8 \<Rightarrow> PacketTypeIndex" where
  "packet_type_index t = (case packet_type_of t of DATA \<Rightarrow> PTI_DATA | HEARTBEAT \<Rightarrow> PTI_HEARTBEAT | _ \<Rightarrow> PTI_UNKNOWN)"

definition count_processed :: "fpu \<Rightarrow> RxEnvelope \<Rightarrow> u64 \<Rightarrow> u64 \<Rightarrow> MetricsCollector \<Rightarrow> MetricsCollector" where
  "count_processed fp env processing_us now_ms m =
     (let m1 = increment_packets_received 1 (increment_pipeline_packets_entered 1 m);
          m2 = increment_packets_received_by_type (packet_type_index (packet_type (env_header env))) 1 m1;
          m3 = increment_pipeline_validate_ok 1 (increment_pipeline_parse_ok 1 (increment_bytes_received (ucast (env_packet_length env)) m2));
          m4 = observe_processing_latency processing_us m3;
          ts = timestamp (env_header env)
      in if ts > 0 \<and> now_ms \<ge> ts then observe_data_delay fp (d_div fp (d_of_size fp (now_ms - ts)) 0x408F400000000000) m4 else m4)"

definition processing_step :: "fpu \<Rightarrow> nat \<Rightarrow> clocks \<Rightarrow> u64 \<Rightarrow> u64 \<Rightarrow> AppState \<Rightarrow> app_error + AppState \<times> (nat \<times> OrderedPacket) list" where
  "processing_step fpu i ck us now_ms s =
     (if \<not> as_processing_running s \<or> i \<ge> length (as_faces s) then Inr (s, [])
      else case try_pop (rx_queue (fp_rx_stage (as_faces s ! i))) of
          None \<Rightarrow> Inr (s, [])
        | Some (env, q) \<Rightarrow>
            (case processing_iteration ck (as_faces s ! i) of
               Inl e \<Rightarrow> Inl (Face_failure e)
             | Inr (fp, outs) \<Rightarrow>
                 Inr (s\<lparr>as_faces := (as_faces s)[i := fp], as_metrics := count_processed fpu env us now_ms (as_metrics s)\<rparr>, map (Pair i) outs)))"

fun drain_ring :: "nat \<Rightarrow> (nat \<Rightarrow> clocks) \<Rightarrow> FacePipeline \<Rightarrow> face_error + FacePipeline \<times> OrderedPacket list" where
  "drain_ring 0 cks fp = Inr (fp, [])"
| "drain_ring (Suc n) cks fp =
     (case try_pop (rx_queue (fp_rx_stage fp)) of
        None \<Rightarrow> Inr (fp, [])
      | Some (env, q) \<Rightarrow>
          (case drain_envelope (cks n) env (fp\<lparr>fp_rx_stage := (fp_rx_stage fp)\<lparr>rx_queue := q\<rparr>\<rparr>) of
             Inl e \<Rightarrow> Inl e
           | Inr (fp1, outs) \<Rightarrow> (case drain_ring n cks fp1 of Inl e \<Rightarrow> Inl e | Inr (fp2, outs') \<Rightarrow> Inr (fp2, outs @ outs'))))"

fun drain_faces :: "(nat \<Rightarrow> nat \<Rightarrow> clocks) \<Rightarrow> nat \<Rightarrow> FacePipeline list \<Rightarrow> face_error + FacePipeline list \<times> (nat \<times> OrderedPacket) list" where
  "drain_faces cks i [] = Inr ([], [])"
| "drain_faces cks i (fp # fps) =
     (case drain_ring QUEUE_CAPACITY (cks i) fp of
        Inl e \<Rightarrow> Inl e
      | Inr (fp', outs) \<Rightarrow>
          (case drain_faces cks (Suc i) fps of Inl e \<Rightarrow> Inl e | Inr (fps', outs') \<Rightarrow> Inr (fp' # fps', map (Pair i) outs @ outs')))"

subsection \<open>Events\<close>

datatype 'n run_event = Iteration "'n iter_env" | Arrive u8 ReceivedPacket | Process nat clocks u64 u64 | Signal_arrives int

fun run_step :: "fpu \<Rightarrow> 'n run_event \<Rightarrow> AppState \<Rightarrow> app_error + AppState \<times> (nat \<times> OrderedPacket) list" where
  "run_step fpu (Iteration env) s = (if sg_running (as_signals s) then main_iteration env s else Inr (s, []))"
| "run_step fpu (Arrive a raw) s =
     (case app_step (Receive a raw) (as_faces s) of Inl e \<Rightarrow> Inl (Face_failure e) | Inr (fps, outs) \<Rightarrow> Inr (s\<lparr>as_faces := fps\<rparr>, outs))"
| "run_step fpu (Process i ck us now_ms) s = processing_step fpu i ck us now_ms s"
| "run_step fpu (Signal_arrives n) s = Inr (s\<lparr>as_signals := signal_handler_impl n (as_signals s)\<rparr>, [])"

fun run_receiver :: "fpu \<Rightarrow> 'n run_event list \<Rightarrow> AppState \<Rightarrow> app_error + AppState \<times> (nat \<times> OrderedPacket) list" where
  "run_receiver fpu [] s = Inr (s, [])"
| "run_receiver fpu (ev # evs) s =
     (case run_step fpu ev s of
        Inl e \<Rightarrow> Inl e
      | Inr (s1, outs) \<Rightarrow> (case run_receiver fpu evs s1 of Inl e \<Rightarrow> Inl e | Inr (s2, outs') \<Rightarrow> Inr (s2, outs @ outs')))"

subsection \<open>Start\<close>

record start_env =
  se_http :: http_io
  se_udp :: udp_env
  se_uptime_seconds :: f64
  se_rss_bytes :: u64
  se_consumer_open :: "nat \<Rightarrow> int"
  se_consumer_now_ms :: "nat \<Rightarrow> u64"
  se_drain_clocks :: "nat \<Rightarrow> nat \<Rightarrow> clocks"
  se_now_ns :: u64

fun start_consumers :: "start_env \<Rightarrow> nat \<Rightarrow> StubConsumer list \<Rightarrow> StubConsumer list \<times> bool" where
  "start_consumers env i [] = ([], True)"
| "start_consumers env i (c # cs) =
     (case stub_start (se_consumer_open env i) (se_consumer_now_ms env i) c of
        (c', ok) \<Rightarrow> if \<not> ok then (c' # cs, False) else (case start_consumers env (Suc i) cs of (cs', ok') \<Rightarrow> (c' # cs', ok')))"

text \<open>\<^verbatim>\<open>app_run\<close> up to its loop; a returned code means that the loop is not entered.\<close>

definition app_run_start :: "start_env \<Rightarrow> AppState \<Rightarrow> app_error + AppState \<times> int option" where
  "app_run_start env s =
     (if as_dry_run s then Inr (s, Some 0)
      else
        (let s1 = s\<lparr>as_config_manager := register_reload_callback () (as_config_manager s), as_signals := reset_signal_flags (as_signals s),
                    as_metrics := collect_system_metrics (se_uptime_seconds env) (se_rss_bytes env) (set_heartbeat_state 1 (as_metrics s))\<rparr>;
             s2 = s1\<lparr>as_metrics := fst (metrics_start (se_http env) (as_metrics s1))\<rparr>
         in if \<not> snd (metrics_start (se_http env) (as_metrics s1)) then Inr (s2, Some 1)
         else case udp_start (se_udp env) (as_udp s2) of
             (u, ok) \<Rightarrow>
               if \<not> ok then Inr (s2\<lparr>as_udp := u\<rparr>, Some 1)
               else case start_consumers env 0 (as_consumers s2) of
                   (cs, all_started) \<Rightarrow>
                     if \<not> all_started then
                       (case drain_faces (se_drain_clocks env) 0 (as_faces s2) of
                          Inl e \<Rightarrow> Inl (Face_failure e)
                        | Inr (fps, outs) \<Rightarrow>
                            Inr (s2\<lparr>as_udp := udp_stop u, as_faces := fps, as_consumers := map stub_stop cs, as_processing_running := False\<rparr>, Some 1))
                     else Inr (s2\<lparr>as_udp := u, as_consumers := cs, as_processing_running := True, as_started := True,
                                  as_metrics := set_heartbeat_state 2 (as_metrics s2), as_last_system_metrics := se_now_ns env\<rparr>, None)))"

definition app_state_of :: "AppContext \<Rightarrow> unit ConfigManager \<Rightarrow> bool \<Rightarrow> SignalFlags \<Rightarrow> int list \<Rightarrow> (string \<Rightarrow> bytes option) \<Rightarrow> AppState" where
  "app_state_of ctx cm dry_run signals fds disk =
     (let c = ax_config ctx; n = length (ax_face_pipelines ctx) in
      \<lparr>as_config_manager = cm, as_dry_run = dry_run, as_started = False, as_log_level = ax_log_level ctx,
       as_metrics = initialize_metrics (mon_metrics_port (cfg_monitoring c)) (mon_metrics_bind_ip (cfg_monitoring c)) metrics_collector_new,
       as_signals = signals, as_last_sigint = 0, as_last_sigterm = 0, as_last_sighup = 0,
       as_udp = udp_receiver_new (udp_config_of c) (map_option (\<lambda>w. ()) (ax_pcap_writer ctx)) fds,
       as_faces = ax_face_pipelines ctx, as_reported = replicate n nothing_reported,
       as_consumers = (if consumer_enabled c then map (\<lambda>i. stub_consumer_new (stub_config_of c i) (fp_rawblock_queue (ax_face_pipelines ctx ! i))) [0..<n] else []),
       as_processing_running = False, as_pcap_writer = ax_pcap_writer ctx, as_disk = disk, as_last_system_metrics = 0\<rparr>)"

subsection \<open>Shutdown\<close>

record shutdown_env =
  sh_late :: "nat \<Rightarrow> bool"
  sh_stop_ios :: "nat \<Rightarrow> pcap_io"
  sh_rename_ok :: bool
  sh_clocks :: "nat \<Rightarrow> clocks"
  sh_reassembler :: "nat \<Rightarrow> nat \<Rightarrow> u64"
  sh_flush_blocks :: "nat \<Rightarrow> nat \<Rightarrow> u64"

datatype shutdown_result = Shut_down AppState "(nat \<times> OrderedPacket) list" | Forced_exit nat

text \<open>Contexts that own packets of a pool.\<close>

definition holds_pool_buffer :: "FacePipeline \<Rightarrow> bool" where
  "holds_pool_buffer fp \<longleftrightarrow> (\<exists>kc \<in> set (rsm_contexts (fp_reassembler fp)). \<exists>r \<in> set (ctx_fragment_refs (snd kc)). ref_pool_buffer r \<noteq> None)"

definition ring_nonempty :: "FacePipeline \<Rightarrow> bool" where
  "ring_nonempty fp \<longleftrightarrow> try_pop (rx_queue (fp_rx_stage fp)) \<noteq> None"

fun flush_reassemblers :: "shutdown_env \<Rightarrow> nat \<Rightarrow> FacePipeline list \<Rightarrow> face_error + FacePipeline list \<times> (nat \<times> OrderedPacket) list" where
  "flush_reassemblers env i [] = Inr ([], [])"
| "flush_reassemblers env i (fp # fps) =
     (case flush_all (sh_reassembler env i) (fp_reassembler fp) of
        Inl e \<Rightarrow> Inl (Reassembly_exception e)
      | Inr ((r, frames), forced) \<Rightarrow>
          (case emit_frames (sh_clocks env i) frames (fp\<lparr>fp_reassembler := r\<rparr>) of
             Inl e \<Rightarrow> Inl e
           | Inr (fp', outs) \<Rightarrow>
               (case flush_reassemblers env (Suc i) fps of Inl e \<Rightarrow> Inl e | Inr (fps', outs') \<Rightarrow> Inr (fp' # fps', map (Pair i) outs @ outs'))))"

fun flush_reorderers :: "shutdown_env \<Rightarrow> nat \<Rightarrow> FacePipeline list \<Rightarrow> face_error + FacePipeline list \<times> (nat \<times> OrderedPacket) list" where
  "flush_reorderers env i [] = Inr ([], [])"
| "flush_reorderers env i (fp # fps) =
     (case flush (fp_reorderer fp) of
        ((r, outs), drained) \<Rightarrow>
          (case push_blocks (fp_array_id fp) (sh_flush_blocks env i) outs (fp_rawblock_queue fp) of
             None \<Rightarrow> Inl Push_never_returns
           | Some q \<Rightarrow>
               (case flush_reorderers env (Suc i) fps of
                  Inl e \<Rightarrow> Inl e
                | Inr (fps', outs') \<Rightarrow> Inr (fp\<lparr>fp_reorderer := r, fp_rawblock_queue := q\<rparr> # fps', map (Pair i) outs @ outs'))))"

text \<open>
  The stages in order, each followed by the check of the deadline.  The receiver is stopped first; after that every packet in a ring and every
  pool buffer in a reassembler is memory of a destroyed pool.
\<close>

definition app_shutdown :: "shutdown_env \<Rightarrow> AppState \<Rightarrow> app_error + shutdown_result" where
  "app_shutdown env s =
     (if \<not> as_started s then Inr (Shut_down s [])
      else let s0 = s\<lparr>as_consumers := map stub_stop (as_consumers s)\<rparr> in
      if sh_late env 0 then Inr (Forced_exit 0)
      else let s1 = s0\<lparr>as_udp := udp_stop (as_udp s0)\<rparr> in
      if sh_late env 1 then Inr (Forced_exit 1)
      else if \<exists>fp \<in> set (as_faces s1). ring_nonempty fp then Inl Use_after_free
      else let s2 = s1\<lparr>as_processing_running := False\<rparr> in
      if sh_late env 2 then Inr (Forced_exit 2)
      else let s3 = (case as_pcap_writer s2 of
                       None \<Rightarrow> s2
                     | Some w \<Rightarrow> s2\<lparr>as_pcap_writer := None, as_disk := pw_disk (pcap_stop (sh_stop_ios env) (sh_rename_ok env) w)\<rparr>) in
      if sh_late env 3 then Inr (Forced_exit 3)
      else if \<exists>fp \<in> set (as_faces s3). holds_pool_buffer fp then Inl Use_after_free
      else case flush_reassemblers env 0 (as_faces s3) of
          Inl e \<Rightarrow> Inl (Face_failure e)
        | Inr (fps, outs) \<Rightarrow>
            if sh_late env 4 then Inr (Forced_exit 4)
            else case flush_reorderers env 0 fps of
                Inl e \<Rightarrow> Inl (Face_failure e)
              | Inr (fps', outs') \<Rightarrow>
                  if sh_late env 5 then Inr (Forced_exit 5)
                  else if sh_late env 6 then Inr (Forced_exit 6)
                  else let m = set_heartbeat_state 0 (metrics_stop (as_metrics s3)) in
                    if sh_late env 7 then Inr (Forced_exit 7)
                    else Inr (Shut_down (s3\<lparr>as_faces := fps', as_metrics := m, as_started := False\<rparr>) (outs @ outs')))"

subsection \<open>The program\<close>

record CliOptions =
  cli_config_file :: string
  cli_dry_run :: bool
  cli_show_version :: bool

definition default_cli :: CliOptions where
  "default_cli = \<lparr>cli_config_file = ''config/receiver.yaml'', cli_dry_run = False, cli_show_version = False\<rparr>"

datatype cli_result = Cli_ok CliOptions | Cli_error | Cli_help

fun parse_cli_options :: "string list \<Rightarrow> CliOptions \<Rightarrow> cli_result" where
  "parse_cli_options [] opt = Cli_ok opt"
| "parse_cli_options (arg # args) opt =
     (if arg = ''--config'' then
        (case args of [] \<Rightarrow> Cli_error | path # rest \<Rightarrow> parse_cli_options rest (opt\<lparr>cli_config_file := path\<rparr>))
      else if arg = ''--dry-run'' then parse_cli_options args (opt\<lparr>cli_dry_run := True\<rparr>)
      else if arg = ''--version'' then parse_cli_options args (opt\<lparr>cli_show_version := True\<rparr>)
      else if arg = ''--help'' then Cli_help
      else if arg \<noteq> [] \<and> hd arg \<noteq> CHR ''-'' then parse_cli_options args (opt\<lparr>cli_config_file := arg\<rparr>)
      else Cli_error)"

datatype output_line = Usage_line | Version_line

text \<open>The results of the three phases are arguments; the exit code comes with the lines printed before.\<close>

definition receiver_main :: "(CliOptions \<Rightarrow> int) \<Rightarrow> (CliOptions \<Rightarrow> int) \<Rightarrow> (CliOptions \<Rightarrow> int) \<Rightarrow> string list \<Rightarrow> output_line list \<times> int" where
  "receiver_main init run shut args =
     (case parse_cli_options args default_cli of
        Cli_help \<Rightarrow> ([Usage_line], 0)
      | Cli_error \<Rightarrow> ([Usage_line], 2)
      | Cli_ok opt \<Rightarrow>
          ((if cli_show_version opt then [Version_line] else []) @ [Version_line],
           if init opt \<noteq> 0 then init opt else if run opt \<noteq> 0 then run opt else shut opt))"

subsection \<open>Reports of the main loop\<close>

text \<open>The counters of a face that are reported as drops, with the field that remembers what was reported.\<close>

definition drop_sources :: "(DropReasonIndex \<times> (FacePipeline \<Rightarrow> u64) \<times> (FaceReported \<Rightarrow> u64)) list" where
  "drop_sources =
     [(LATE_FRAGMENT, \<lambda>fp. late_fragments (rsm_stats (fp_reassembler fp)), fr_reasm_late_fragments),
      (REASM_DUPLICATE_FRAG, \<lambda>fp. duplicate_fragments (rsm_stats (fp_reassembler fp)), fr_reasm_duplicate_fragments),
      (REASM_TIMEOUT, \<lambda>fp. frames_incomplete (rsm_stats (fp_reassembler fp)), fr_reasm_frames_incomplete),
      (MAX_CONTEXTS_EXCEEDED, \<lambda>fp. contexts_overflow (rsm_stats (fp_reassembler fp)), fr_reasm_contexts_overflow),
      (REASM_BYTES_OVERFLOW, \<lambda>fp. reasm_bytes_overflow (rsm_stats (fp_reassembler fp)), fr_reasm_bytes_overflow),
      (SEQUENCE_DUPLICATE, \<lambda>fp. packets_duplicate (ord_stats (fp_reorderer fp)), fr_reorder_duplicates),
      (TIMEOUT, \<lambda>fp. packets_zero_filled (ord_stats (fp_reorderer fp)), fr_reorder_zero_filled)]"

definition reported_inv :: "AppState \<Rightarrow> bool" where
  "reported_inv s \<longleftrightarrow> length (as_reported s) = length (as_faces s) \<and> length (mc_packets_by_reason (as_metrics s)) = 15 \<and>
     (\<forall>(r, now, prev) \<in> set drop_sources. mc_packets_by_reason (as_metrics s) ! drop_reason_number r = sum_list (map prev (as_reported s)))"

definition counters_grew :: "FacePipeline list \<Rightarrow> FaceReported list \<Rightarrow> bool" where
  "counters_grew fps frs \<longleftrightarrow> (\<forall>(r, now, prev) \<in> set drop_sources. list_all2 (\<lambda>fp fr. prev fr \<le> now fp) fps frs)"

lemma report_delta_eq:
  assumes "report_delta r now prev m = (l, m')"
  shows "mc_packets_by_reason m' = bump (drop_reason_number r) (l - prev) (mc_packets_by_reason m)" and "prev \<le> now \<Longrightarrow> l = now"
  using assms by (auto simp: report_delta_def increment_packets_dropped_by_reason_def bump_def split: if_splits)

lemma bump_props [simp]: "length (bump i n ks) = length ks" "i < length ks \<Longrightarrow> bump i n ks ! j = (if i = j then ks ! i + n else ks ! j)"
  by (auto simp: bump_def)

lemma report_face_eq:
  assumes "report_face fp fr m = (fr', m')" and "length (mc_packets_by_reason m) = 15"
  shows "length (mc_packets_by_reason m') = 15"
    and "(r, now, prev) \<in> set drop_sources \<Longrightarrow>
      mc_packets_by_reason m' ! drop_reason_number r = mc_packets_by_reason m ! drop_reason_number r + (prev fr' - prev fr)"
    and "(r, now, prev) \<in> set drop_sources \<Longrightarrow> prev fr \<le> now fp \<Longrightarrow> prev fr' = now fp"
proof -
  let ?st = "rsm_stats (fp_reassembler fp)" and ?os = "ord_stats (fp_reorderer fp)"
  obtain l1 m1 where d1: "report_delta LATE_FRAGMENT (late_fragments ?st) (fr_reasm_late_fragments fr) m = (l1, m1)" by fastforce
  obtain l2 m2 where d2: "report_delta REASM_DUPLICATE_FRAG (duplicate_fragments ?st) (fr_reasm_duplicate_fragments fr) m1 = (l2, m2)" by fastforce
  obtain l3 m3 where d3: "report_delta REASM_TIMEOUT (frames_incomplete ?st) (fr_reasm_frames_incomplete fr) m2 = (l3, m3)" by fastforce
  obtain l4 m4 where d4: "report_delta MAX_CONTEXTS_EXCEEDED (contexts_overflow ?st) (fr_reasm_contexts_overflow fr) m3 = (l4, m4)" by fastforce
  obtain l5 m5 where d5: "report_delta REASM_BYTES_OVERFLOW (reasm_bytes_overflow ?st) (fr_reasm_bytes_overflow fr) m4 = (l5, m5)" by fastforce
  obtain l6 m6 where d6: "report_delta SEQUENCE_DUPLICATE (packets_duplicate ?os) (fr_reorder_duplicates fr) m5 = (l6, m6)" by fastforce
  obtain l7 m7 where d7: "report_delta TIMEOUT (packets_zero_filled ?os) (fr_reorder_zero_filled fr) m6 = (l7, m7)" by fastforce
  note ds = d1 d2 d3 d4 d5 d6 d7
  have res: "fr' = \<lparr>fr_reasm_late_fragments = l1, fr_reasm_duplicate_fragments = l2, fr_reasm_frames_incomplete = l3, fr_reasm_contexts_overflow = l4,
      fr_reasm_bytes_overflow = l5, fr_reorder_duplicates = l6, fr_reorder_zero_filled = l7\<rparr>" "m' = m7"
    using assms(1) by (simp_all add: report_face_def ds)
  note eqs = ds [THEN report_delta_eq(1)]
  show "length (mc_packets_by_reason m') = 15" using assms(2) by (simp add: res(2) eqs)
  show "mc_packets_by_reason m' ! drop_reason_number r = mc_packets_by_reason m ! drop_reason_number r + (prev fr' - prev fr)"
    if "(r, now, prev) \<in> set drop_sources"
    using that assms(2) by (auto simp: drop_sources_def res eqs drop_reason_number_def)
  show "prev fr' = now fp" if "(r, now, prev) \<in> set drop_sources" "prev fr \<le> now fp"
    using that ds [THEN report_delta_eq(2)] by (auto simp: drop_sources_def res)
qed

lemma report_faces_eq:
  assumes "report_faces fps frs m = (frs', m')" "length frs = length fps" "length (mc_packets_by_reason m) = 15"
  shows "length frs' = length fps \<and> length (mc_packets_by_reason m') = 15 \<and>
    (\<forall>(r, now, prev) \<in> set drop_sources.
      mc_packets_by_reason m' ! drop_reason_number r + sum_list (map prev frs) = mc_packets_by_reason m ! drop_reason_number r + sum_list (map prev frs') \<and>
      (list_all2 (\<lambda>fp fr. prev fr \<le> now fp) fps frs \<longrightarrow> map prev frs' = map now fps))"
  using assms
proof (induction fps frs m arbitrary: frs' m' rule: report_faces.induct)
  case (1 fp fps fr frs m)
  obtain fr1 m1 where f: "report_face fp fr m = (fr1, m1)" by fastforce
  obtain frs2 m2 where g: "report_faces fps frs m1 = (frs2, m2)" by fastforce
  have r: "frs' = fr1 # frs2" "m' = m2" using 1(2) f g by simp_all
  note fe = report_face_eq [OF f 1(4)]
  have IH: "length frs2 = length fps \<and> length (mc_packets_by_reason m2) = 15 \<and>
    (\<forall>(r, now, prev) \<in> set drop_sources.
      mc_packets_by_reason m2 ! drop_reason_number r + sum_list (map prev frs) = mc_packets_by_reason m1 ! drop_reason_number r + sum_list (map prev frs2) \<and>
      (list_all2 (\<lambda>fp fr. prev fr \<le> now fp) fps frs \<longrightarrow> map prev frs2 = map now fps))"
    using 1(1) [OF f [symmetric] g] 1(3) fe(1) by simp
  have "mc_packets_by_reason m2 ! drop_reason_number r + (prev fr + sum_list (map prev frs)) =
      mc_packets_by_reason m ! drop_reason_number r + (prev fr1 + sum_list (map prev frs2)) \<and>
      (prev fr \<le> now fp \<and> list_all2 (\<lambda>fp fr. prev fr \<le> now fp) fps frs \<longrightarrow> prev fr1 = now fp \<and> map prev frs2 = map now fps)"
    if "(r, now, prev) \<in> set drop_sources" for r now prev
    using bspec [OF conjunct2 [OF conjunct2 [OF IH]] that] fe(2,3) [OF that] by (auto simp: algebra_simps)
  then show ?case using IH r by auto
qed (auto simp: list_all2_Nil)

lemma set_slot_same [simp]:
  "mc_packets_by_reason (set_face_rx_queue_depth a n m) = mc_packets_by_reason m"
  "mc_packets_by_reason (set_face_rx_queue_high_watermark a n m) = mc_packets_by_reason m"
  "mc_packets_by_reason (set_face_rx_queue_drops a n m) = mc_packets_by_reason m"
  "mc_packets_by_reason (set_face_packet_pool_stats a t v b m) = mc_packets_by_reason m"
  "mc_packets_by_reason (increment_signal_received nm n m) = mc_packets_by_reason m"
  by (simp_all add: set_face_rx_queue_depth_def set_face_rx_queue_high_watermark_def set_face_rx_queue_drops_def set_face_packet_pool_stats_def
      increment_signal_received_def split: option.splits)

lemma report_gauges_same: "mc_packets_by_reason (fold report_pool rts (fold report_rx fps m)) = mc_packets_by_reason m"
proof -
  have "mc_packets_by_reason (fold report_rx fps m) = mc_packets_by_reason m" for m
    by (induction fps arbitrary: m) (simp_all add: report_rx_def Let_def)
  moreover have "mc_packets_by_reason (fold report_pool rts m) = mc_packets_by_reason m" for m
    by (induction rts arbitrary: m) (auto simp: report_pool_def split: prod.splits)
  ultimately show ?thesis by simp
qed

lemma report_metrics_exact:
  assumes "reported_inv s"
  shows "reported_inv (report_metrics s)" and "as_faces (report_metrics s) = as_faces s"
    and "counters_grew (as_faces s) (as_reported s) \<Longrightarrow> (r, now, prev) \<in> set drop_sources \<Longrightarrow>
      mc_packets_by_reason (as_metrics (report_metrics s)) ! drop_reason_number r = sum_list (map now (as_faces s))"
proof -
  obtain frs m where f: "report_faces (as_faces s) (as_reported s) (as_metrics s) = (frs, m)" by fastforce
  have inv: "length (as_reported s) = length (as_faces s)" "length (mc_packets_by_reason (as_metrics s)) = 15"
    "\<forall>(r, now, prev) \<in> set drop_sources. mc_packets_by_reason (as_metrics s) ! drop_reason_number r = sum_list (map prev (as_reported s))"
    using assms by (simp_all add: reported_inv_def)
  note fe = report_faces_eq [OF f inv(1,2)]
  have same: "mc_packets_by_reason (as_metrics (report_metrics s)) = mc_packets_by_reason m" "as_reported (report_metrics s) = frs"
    by (simp_all add: report_metrics_def f report_gauges_same set_missing_fragments_total_def set_active_reorder_contexts_def)
  show faces: "as_faces (report_metrics s) = as_faces s" by (simp add: report_metrics_def f)
  have now: "mc_packets_by_reason m ! drop_reason_number r = sum_list (map prev frs)" if "(r, now, prev) \<in> set drop_sources" for r now prev
    using bspec [OF conjunct2 [OF conjunct2 [OF fe]] that] bspec [OF inv(3) that] by simp
  then show "reported_inv (report_metrics s)" using fe by (auto simp: reported_inv_def same faces)
  show "mc_packets_by_reason (as_metrics (report_metrics s)) ! drop_reason_number r = sum_list (map now (as_faces s))"
    if "counters_grew (as_faces s) (as_reported s)" "(r, now, prev) \<in> set drop_sources"
    using now [OF that(2)] bspec [OF conjunct2 [OF conjunct2 [OF fe]] that(2)] that by (auto simp: same counters_grew_def)
qed

lemma apply_capture_same:
  "as_faces (apply_capture_runtime_config env k s) = as_faces s" "as_metrics (apply_capture_runtime_config env k s) = as_metrics s"
  "as_reported (apply_capture_runtime_config env k s) = as_reported s"
  by (simp_all add: apply_capture_runtime_config_def with_files_def Let_def split: option.splits prod.splits)

lemma set_face_timeouts_inv: "face_inv fp \<Longrightarrow> face_inv (set_face_timeouts c fp)"
  by (simp add: set_face_timeouts_def face_inv_def set_timeout_ms_def reorder_set_timeout_ms_def reasm_inv_def reord_inv_def winv_def slot_at_def base_free_def)

text \<open>Steps that keep the faces in order and the reported drops as they are.\<close>

definition quiet :: "AppState \<Rightarrow> AppState \<Rightarrow> bool" where
  "quiet s s' \<longleftrightarrow> as_reported s' = as_reported s \<and> mc_packets_by_reason (as_metrics s') = mc_packets_by_reason (as_metrics s) \<and>
     length (as_faces s') = length (as_faces s) \<and> ((\<forall>fp \<in> set (as_faces s). face_inv fp) \<longrightarrow> (\<forall>fp \<in> set (as_faces s'). face_inv fp))"

lemma quiet_refl [simp]: "quiet s s"
  by (simp add: quiet_def)

lemma quiet_trans: "quiet s s' \<Longrightarrow> quiet s' s'' \<Longrightarrow> quiet s s''"
  by (auto simp: quiet_def)

lemma quiet_reported_inv: "quiet s s' \<Longrightarrow> reported_inv s \<Longrightarrow> reported_inv s'"
  by (auto simp: quiet_def reported_inv_def)

lemma report_signals_quiet: "quiet s (report_signals s)"
  by (auto simp: quiet_def report_signals_def report_signal_def Let_def)

lemma on_reload_quiet: "quiet s (on_reload env c s)"
  by (auto simp: quiet_def on_reload_def apply_capture_same set_face_timeouts_inv)

lemma handle_reload_quiet:
  assumes "handle_reload env s = Inr s'"
  shows "quiet s s'"
proof -
  have calls: "quiet t (fold (\<lambda>(cb, c). on_reload env c) cs t)" for t and cs :: "(unit \<times> ReceiverConfig) list"
    by (induction cs arbitrary: t) (auto intro: quiet_trans on_reload_quiet)
  have up: "quiet s (s\<lparr>as_signals := f, as_config_manager := cm\<rparr>)" for f cm by (simp add: quiet_def)
  have counted: "quiet t (t\<lparr>as_metrics := increment_config_reloads 1 (as_metrics t)\<rparr>)" for t
    by (simp add: quiet_def increment_config_reloads_def)
  show ?thesis
    using assms quiet_trans [OF up calls] quiet_trans [OF quiet_trans [OF up calls] counted]
    by (auto simp: handle_reload_def Let_def split: if_splits sum.splits prod.splits)
qed

lemma sweep_faces_total:
  assumes "\<forall>fp \<in> set fps. face_inv fp"
  shows "\<exists>fps' outs. sweep_faces env i fps = Inr (fps', outs) \<and> length fps' = length fps \<and> (\<forall>fp \<in> set fps'. face_inv fp)"
  using assms
proof (induction fps arbitrary: i)
  case (Cons fp fps)
  from sweep_total [of fp "ie_sweep_clocks env i" "ie_sweep_reassembler env i" "ie_sweep_reorderer env i"] Cons.prems obtain fp' outs where
    "timeout_sweep (ie_sweep_clocks env i) (ie_sweep_reassembler env i) (ie_sweep_reorderer env i) fp = Inr (fp', outs)" "face_inv fp'" by auto
  moreover obtain fps' outs' where "sweep_faces env (Suc i) fps = Inr (fps', outs')" "length fps' = length fps" "\<forall>fp \<in> set fps'. face_inv fp"
    using Cons by fastforce
  ultimately show ?case by auto
qed simp

lemma system_metrics_quiet: "quiet s (system_metrics env s)" "as_faces (system_metrics env s) = as_faces s"
  by (simp_all add: quiet_def system_metrics_def collect_system_metrics_def increment_heartbeat_sent_def set_memory_rss_bytes_def set_uptime_seconds_def)

text \<open>
  C15: One iteration of the main loop, whatever the state of the faces, unless the YAML library throws while a reload is under way: the loop
  survives the timeout sweeps of all faces, every face keeps its invariant, and the drops exposed under each reason
  remain the sum of what has been reported of the faces.  As long as no counter has wrapped, the exposed value
  is exactly the sum of the counter over the faces, each event counted once.
\<close>

theorem main_iteration_reports:
  assumes "reported_inv s" and "\<forall>fp \<in> set (as_faces s). face_inv fp" and "handle_reload env (report_signals s) \<noteq> Inl Reload_exception"
  shows "\<exists>s' outs. main_iteration env s = Inr (s', outs) \<and> reported_inv s' \<and> (\<forall>fp \<in> set (as_faces s'). face_inv fp) \<and>
    (counters_grew (as_faces s') (as_reported s) \<longrightarrow>
      (\<forall>(r, now, prev) \<in> set drop_sources. mc_packets_by_reason (as_metrics s') ! drop_reason_number r = sum_list (map now (as_faces s'))))"
proof -
  obtain s1 where s1: "handle_reload env (report_signals s) = Inr s1"
    using assms(3) by (auto simp: handle_reload_def Let_def split: if_splits sum.splits prod.splits)
  have q: "quiet s s1" by (rule quiet_trans [OF report_signals_quiet handle_reload_quiet [OF s1]])
  then have f1: "\<forall>fp \<in> set (as_faces s1). face_inv fp" and r1: "reported_inv s1" and p1: "as_reported s1 = as_reported s"
    using assms(1,2) quiet_reported_inv by (auto simp: quiet_def)
  from sweep_faces_total [OF f1, of env 0] obtain fps outs where
    sw: "sweep_faces env 0 (as_faces s1) = Inr (fps, outs)" "length fps = length (as_faces s1)" "\<forall>fp \<in> set fps. face_inv fp" by blast
  let ?s2 = "s1\<lparr>as_faces := fps\<rparr>"
  let ?s' = "system_metrics env (report_metrics ?s2)"
  have r2: "reported_inv ?s2" using r1 sw(2) by (simp add: reported_inv_def)
  note rm = report_metrics_exact [OF r2]
  have faces: "as_faces ?s' = fps" using rm(2) by (simp add: system_metrics_quiet(2))
  have same: "mc_packets_by_reason (as_metrics ?s') = mc_packets_by_reason (as_metrics (report_metrics ?s2))"
    using system_metrics_quiet(1) [of "report_metrics ?s2" env] by (simp add: quiet_def)
  have "main_iteration env s = Inr (?s', outs)" using s1 sw(1) by (simp add: main_iteration_def)
  moreover have "reported_inv ?s'" using quiet_reported_inv [OF system_metrics_quiet(1) rm(1)] .
  moreover have "mc_packets_by_reason (as_metrics ?s') ! drop_reason_number r = sum_list (map now fps)"
    if "counters_grew fps (as_reported s)" "(r, now, prev) \<in> set drop_sources" for r now prev
    using rm(3) [of r now prev] that p1 by (simp add: same)
  then have "counters_grew fps (as_reported s) \<longrightarrow>
      (\<forall>(r, now, prev) \<in> set drop_sources. mc_packets_by_reason (as_metrics ?s') ! drop_reason_number r = sum_list (map now fps))"
    by blast
  ultimately show ?thesis using sw(3) by (intro exI [of _ ?s'] exI [of _ outs]) (simp add: faces)
qed

subsection \<open>What a shutdown leaves\<close>

definition drained_window :: "Reorderer_state \<Rightarrow> bool" where
  "drained_window r \<longleftrightarrow> (case window_of r of None \<Rightarrow> True | Some (e, m) \<Rightarrow> m = Map.empty)"

text \<open>A face as the shutdown needs it: the invariant, and the reorderer delivers to the block queue.\<close>

definition wired_face :: "FacePipeline \<Rightarrow> bool" where
  "wired_face fp \<longleftrightarrow> face_inv fp \<and> ord_callback (fp_reorderer fp)"

lemma insert_frames_callback: "reord_inv r \<Longrightarrow> ord_callback (fst (insert_frames clk fs r)) = ord_callback r"
proof (induction clk fs r rule: insert_frames.induct)
  case (2 clk f fs r)
  obtain r1 outs where i: "insert_owned (clk 0) (frame_header f) (Some (rf_data f)) (rf_total_size f) r = (r1, outs)" by fastforce
  then have "reord_inv r1 \<and> ord_callback r1 = ord_callback r"
    using insert_owned_refines [OF 2(2), of "clk 0" "frame_header f" "Some (rf_data f)" "rf_total_size f"] by auto
  then show ?case using 2(1) [OF i [symmetric]] i by (auto split: prod.splits)
qed simp

lemma flush_reassemblers_total:
  assumes "\<forall>fp \<in> set fps. wired_face fp"
  shows "\<exists>fps' outs. flush_reassemblers env i fps = Inr (fps', outs) \<and>
    (\<forall>fp \<in> set fps'. wired_face fp \<and> rsm_contexts (fp_reassembler fp) = [])"
  using assms
proof (induction fps arbitrary: i)
  case (Cons fp fps)
  then have fp: "face_inv fp" "reasm_inv (fp_reassembler fp)" "ord_callback (fp_reorderer fp)" by (simp_all add: wired_face_def face_inv_def)
  then have "distinct (map fst (rsm_contexts (fp_reassembler fp)))" by (simp add: reasm_inv_def al_wf_def)
  from complete_keys_eq [OF fp(2) this, of "sh_reassembler env i"] obtain r frames where
    r: "flush_all (sh_reassembler env i) (fp_reassembler fp) = Inr ((r, frames), length (rsm_contexts (fp_reassembler fp)))" "reasm_inv r" "rsm_contexts r = []"
    by (auto simp: flush_all_def Let_def filter_empty_conv)
  have "face_inv (fp\<lparr>fp_reassembler := r\<rparr>)" using fp(1) r(2) by (simp add: face_inv_def)
  from emit_frames_total [OF this, of "sh_clocks env i" frames] obtain fp' outs where
    e: "emit_frames (sh_clocks env i) frames (fp\<lparr>fp_reassembler := r\<rparr>) = Inr (fp', outs)" "face_inv fp'" "fp_reassembler fp' = r" by auto
  have "ord_callback (fp_reorderer fp')"
    using emit_frames_Inr(1) [OF e(1)] insert_frames_callback [of "fp_reorderer fp" "ck_reorder (sh_clocks env i)" frames] fp(1,3) by (simp add: face_inv_def)
  moreover obtain fps' outs' where
    "flush_reassemblers env (Suc i) fps = Inr (fps', outs')" "\<forall>fp \<in> set fps'. wired_face fp \<and> rsm_contexts (fp_reassembler fp) = []"
    using Cons by (auto simp del: flush_reassemblers.simps) blast
  ultimately show ?case using r e by (simp add: wired_face_def)
qed simp

lemma flush_reorderers_total:
  assumes "\<forall>fp \<in> set fps. wired_face fp \<and> rsm_contexts (fp_reassembler fp) = []"
  shows "\<exists>fps' outs. flush_reorderers env i fps = Inr (fps', outs) \<and>
    (\<forall>fp \<in> set fps'. face_inv fp \<and> rsm_contexts (fp_reassembler fp) = [] \<and> drained_window (fp_reorderer fp))"
  using assms
proof (induction fps arbitrary: i)
  case (Cons fp fps)
  then have fp: "face_inv fp" "reord_inv (fp_reorderer fp)" "ord_callback (fp_reorderer fp)" "rsm_contexts (fp_reassembler fp) = []"
    by (simp_all add: wired_face_def face_inv_def)
  obtain r outs n where f: "flush (fp_reorderer fp) = ((r, outs), n)" by (metis prod.exhaust)
  from flush_delivers_pending [OF fp(2,3) f] have r: "reord_inv r" "drained_window r" by (auto simp: drained_window_def split: option.splits)
  obtain q where "push_blocks (fp_array_id fp) (sh_flush_blocks env i) outs (fp_rawblock_queue fp) = Some q" "block_queue_ok q"
    using push_blocks_total fp(1) unfolding face_inv_def by blast
  moreover obtain fps' outs' where "flush_reorderers env (Suc i) fps = Inr (fps', outs')"
    "\<forall>fp \<in> set fps'. face_inv fp \<and> rsm_contexts (fp_reassembler fp) = [] \<and> drained_window (fp_reorderer fp)"
    using Cons by (auto simp del: flush_reorderers.simps) blast
  ultimately show ?case using f r fp by (simp add: face_inv_def)
qed simp


subsection \<open>Examples\<close>

text \<open>A receiver with one face that has counted three late fragments, none of them reported yet.\<close>

definition late_face :: FacePipeline where
  "late_face = (let fp = face_pipeline_new 1 1 sample_reorder sample_config 10 True 0; r = fp_reassembler fp in
     fp\<lparr>fp_reassembler := r\<lparr>rsm_stats := (rsm_stats r)\<lparr>late_fragments := 3\<rparr>\<rparr>\<rparr>)"

definition sample_app :: AppState where
  "sample_app = \<lparr>as_config_manager = config_manager_new, as_dry_run = False, as_started = True, as_log_level = LL_INFO, as_metrics = metrics_collector_new,
     as_signals = \<lparr>sg_running = True, sg_reload_requested = False, sg_sigint = 0, sg_sigterm = 0, sg_sighup = 1\<rparr>,
     as_last_sigint = 0, as_last_sigterm = 0, as_last_sighup = 0, as_udp = sample_udp\<lparr>ur_running := True\<rparr>, as_faces = [late_face],
     as_reported = [nothing_reported], as_consumers = [], as_processing_running = True, as_pcap_writer = None, as_disk = Map.empty, as_last_system_metrics = 0\<rparr>"

definition sample_iteration :: "sample_node iter_env" where
  "sample_iteration = \<lparr>ie_yaml = sample_yaml NoNode, ie_capture_io = sample_io, ie_stop_ios = (\<lambda>i. sample_io), ie_rename_ok = True, ie_sweep_clocks = (\<lambda>i. sample_clocks),
     ie_sweep_reassembler = (\<lambda>i j. 5), ie_sweep_reorderer = (\<lambda>i j. 5), ie_now_ns = 6000000000, ie_uptime_seconds = 0, ie_rss_bytes = 0\<rparr>"

definition sample_shutdown :: shutdown_env where
  "sample_shutdown = \<lparr>sh_late = (\<lambda>i. False), sh_stop_ios = (\<lambda>i. sample_io), sh_rename_ok = True, sh_clocks = (\<lambda>i. sample_clocks),
     sh_reassembler = (\<lambda>i j. 5), sh_flush_blocks = (\<lambda>i j. 5)\<rparr>"

lemma late_face_wired: "wired_face late_face"
proof -
  have "face_inv (face_pipeline_new 1 1 sample_reorder sample_config 10 True 0)"
    by (rule face_pipeline_new_inv) (simp_all add: sample_config_def)
  then have "face_inv late_face" by (simp add: late_face_def Let_def face_inv_def reasm_inv_def)
  then show ?thesis by (simp add: wired_face_def late_face_def face_pipeline_new_def reorderer_new_def Let_def)
qed

theorem main_iteration_reports_witness:
  "\<exists>s' outs. main_iteration sample_iteration sample_app = Inr (s', outs) \<and> reported_inv s' \<and> (\<forall>fp \<in> set (as_faces s'). face_inv fp)"
proof -
  have "reported_inv sample_app"
    by (auto simp: reported_inv_def sample_app_def metrics_collector_new_def drop_sources_def drop_reason_number_def nothing_reported_def)
  moreover have "\<forall>fp \<in> set (as_faces sample_app). face_inv fp" using late_face_wired by (simp add: sample_app_def wired_face_def)
  moreover have "handle_reload sample_iteration (report_signals sample_app) \<noteq> Inl Reload_exception"
    by (simp add: handle_reload_def report_signals_def report_signal_def sample_app_def)
  ultimately show ?thesis using main_iteration_reports [of sample_app sample_iteration] by blast
qed


subsection \<open>Where the reports fall short\<close>

text \<open>Entered, parsed and validated packets are counted at one place, after the validation: the three counters never differ.\<close>

definition pipeline_counts_agree :: "MetricsCollector \<Rightarrow> bool" where
  "pipeline_counts_agree m \<longleftrightarrow> mc_pipeline_packets_entered_total m = mc_pipeline_parse_ok_total m \<and> mc_pipeline_parse_ok_total m = mc_pipeline_validate_ok_total m"

lemma processed_counts_agree: "pipeline_counts_agree m \<Longrightarrow> pipeline_counts_agree (count_processed fp env us now_ms m)"
  by (simp add: pipeline_counts_agree_def count_processed_def Let_def increment_packets_received_def increment_pipeline_packets_entered_def
      increment_packets_received_by_type_def increment_pipeline_validate_ok_def increment_pipeline_parse_ok_def increment_bytes_received_def
      observe_processing_latency_def observe_data_delay_def)

text \<open>SIGINT and SIGTERM end the loop before it reports them.\<close>

lemma stop_signal_unreported:
  assumes "n = SIGINT \<or> n = SIGTERM"
  shows "run_receiver fpu [Signal_arrives n, Iteration env] s = Inr (s\<lparr>as_signals := signal_handler_impl n (as_signals s)\<rparr>, [])"
  using assms by (auto simp: signal_handler_impl_def SIGINT_def SIGTERM_def)

text \<open>\<^verbatim>\<open>--version\<close> prints the version twice and the program goes on to run.\<close>

lemma version_runs: "receiver_main init run shut [''--version''] =
    ([Version_line, Version_line], let opt = default_cli\<lparr>cli_show_version := True\<rparr> in if init opt \<noteq> 0 then init opt else if run opt \<noteq> 0 then run opt else shut opt)"
  by (simp add: receiver_main_def default_cli_def)

text \<open>An identifier in the file that is no number ends the running receiver at the next reload.\<close>

lemma reload_can_kill:
  assumes "cm_config_file_path (as_config_manager s) \<noteq> []" and "sg_reload_requested (as_signals s)"
    and "ie_yaml env = sample_yaml (Table [(''network'', Table [(''local_device_id'', Text ''SPS'')])])"
  shows "main_iteration env s = Inl Reload_exception"
  using assms
  by (simp add: main_iteration_def handle_reload_def report_signals_def reload_config_def bad_identifier_escapes Let_def split: prod.splits)

end
