(* ===== verification/Logging.thy ===== *)
theory Logging
  imports App_Init Metrics
begin

text \<open>
  The loggers (\<^verbatim>\<open>src/m01_receiver/monitoring/logger.cpp\<close>, \<^verbatim>\<open>src/logging/async_logger.cpp\<close>) and the shared metrics
  (\<^verbatim>\<open>include/qdgz300/common/metrics.h\<close>, \<^verbatim>\<open>src/logging/metrics_exporter.cpp\<close>).

  Correspondence.  \<open>Logger\<close> and \<open>AsyncLogger\<close> are the static and member variables of the classes with the parameters the spdlog logger was
  created with; an operation that logs returns the calls it makes of spdlog.  spdlog itself, the fields of \<^verbatim>\<open>gmtime_r\<close> and the
  printing of a double are arguments.  A reader of one-line JSON objects says what a log line means.
\<close>

subsection \<open>Time stamps\<close>

record tm =
  tm_year :: nat
  tm_mon :: nat
  tm_mday :: nat
  tm_hour :: nat
  tm_min :: nat
  tm_sec :: nat

text \<open>A decimal number with at least the given digits, and the calendar fields as both loggers print them.\<close>

definition padded :: "nat \<Rightarrow> nat \<Rightarrow> string" where
  "padded w n = replicate (w - length (to_string n)) (CHR ''0'') @ to_string n"

definition date_time :: "tm \<Rightarrow> string" where
  "date_time t = padded 4 (tm_year t + 1900) @ ''-'' @ padded 2 (tm_mon t + 1) @ ''-'' @ padded 2 (tm_mday t) @ ''T'' @
     padded 2 (tm_hour t) @ '':'' @ padded 2 (tm_min t) @ '':'' @ padded 2 (tm_sec t)"

definition iso8601_now_utc :: "tm \<Rightarrow> string" where
  "iso8601_now_utc t = date_time t @ ''Z''"

definition ts_buf :: "tm \<Rightarrow> nat \<Rightarrow> string" where
  "ts_buf t epoch_ms = date_time t @ ''.'' @ padded 3 (epoch_ms mod 1000) @ ''Z''"

subsection \<open>The logger of the receiver\<close>

datatype spd_level = Spd_trace | Spd_debug | Spd_info | Spd_warn | Spd_err | Spd_critical | Spd_off

definition to_spdlog_level :: "LogLevel \<Rightarrow> spd_level" where
  "to_spdlog_level l = (case l of LL_DEBUG \<Rightarrow> Spd_debug | LL_INFO \<Rightarrow> Spd_info | LL_WARN \<Rightarrow> Spd_warn | LL_ERROR \<Rightarrow> Spd_err)"

definition to_level_name :: "LogLevel \<Rightarrow> string" where
  "to_level_name l = (case l of LL_DEBUG \<Rightarrow> ''DEBUG'' | LL_INFO \<Rightarrow> ''INFO'' | LL_WARN \<Rightarrow> ''WARN'' | LL_ERROR \<Rightarrow> ''ERROR'')"

definition level_number :: "LogLevel \<Rightarrow> nat" where
  "level_number l = (case l of LL_DEBUG \<Rightarrow> 0 | LL_INFO \<Rightarrow> 1 | LL_WARN \<Rightarrow> 2 | LL_ERROR \<Rightarrow> 3)"

definition log_escape_json :: "string \<Rightarrow> string" where
  "log_escape_json input = concat (map (\<lambda>ch.
     if ch = CHR 0x5C then [CHR 0x5C, CHR 0x5C]
     else if ch = CHR 0x22 then [CHR 0x5C, CHR 0x22]
     else if ch = CHR 0x0A then [CHR 0x5C, CHR ''n'']
     else if ch = CHR 0x0D then [CHR 0x5C, CHR ''r'']
     else if ch = CHR 0x09 then [CHR 0x5C, CHR ''t'']
     else [ch]) input)"

datatype log_sink = Console_sink | File_sink string

record Backend =
  lb_name :: string
  lb_sink :: log_sink
  lb_pattern :: string
  lb_level :: spd_level

record Logger =
  lg_backend :: Backend
  lg_current_level :: LogLevel
  lg_json_format :: bool

definition colour_pattern :: string where "colour_pattern = ''%Y-%m-%d %H:%M:%S.%e [%^%l%$] %v''"
definition plain_pattern :: string where "plain_pattern = ''%Y-%m-%d %H:%M:%S.%e [%l] %v''"

definition logger_new :: Logger where
  "logger_new = \<lparr>lg_backend = \<lparr>lb_name = ''receiver_default'', lb_sink = Console_sink, lb_pattern = colour_pattern, lb_level = to_spdlog_level LL_INFO\<rparr>,
     lg_current_level = LL_INFO, lg_json_format = False\<rparr>"

text \<open>\<open>None\<close>: the file sink throws because the file cannot be opened.\<close>

definition logger_initialize :: "(string \<Rightarrow> bool) \<Rightarrow> LogLevel \<Rightarrow> string \<Rightarrow> Logger \<Rightarrow> Logger option" where
  "logger_initialize opens level log_file L =
     (if log_file \<noteq> [] then
        (if opens log_file
         then Some (L\<lparr>lg_backend := \<lparr>lb_name = ''receiver_file'', lb_sink = File_sink log_file, lb_pattern = plain_pattern, lb_level = to_spdlog_level level\<rparr>,
                      lg_current_level := level\<rparr>)
         else None)
      else Some (L\<lparr>lg_backend := \<lparr>lb_name = ''receiver_console'', lb_sink = Console_sink, lb_pattern = colour_pattern, lb_level = to_spdlog_level level\<rparr>,
                   lg_current_level := level\<rparr>))"

definition logger_set_level :: "LogLevel \<Rightarrow> Logger \<Rightarrow> Logger" where
  "logger_set_level level L = L\<lparr>lg_current_level := level, lg_backend := (lg_backend L)\<lparr>lb_level := to_spdlog_level level\<rparr>\<rparr>"

definition set_json_format :: "bool \<Rightarrow> Logger \<Rightarrow> Logger" where
  "set_json_format enabled L = L\<lparr>lg_json_format := enabled, lg_backend := (lg_backend L)\<lparr>lb_pattern := (if enabled then ''%v'' else colour_pattern)\<rparr>\<rparr>"

definition is_enabled :: "Logger \<Rightarrow> LogLevel \<Rightarrow> bool" where
  "is_enabled L level \<longleftrightarrow> level_number level \<ge> level_number (lg_current_level L)"

definition lower_hex :: "u8 \<Rightarrow> string" where
  "lower_hex b = map (\<lambda>d. char_of (if d < 10 then 48 + d else 87 + d)) [unat b div 16, unat b mod 16]"

definition with_trace_id :: "u8 \<Rightarrow> u16 \<Rightarrow> u32 \<Rightarrow> string" where
  "with_trace_id src epoch seq_no = ''0x'' @ lower_hex src @ '':'' @ to_string (unat epoch) @ '':'' @ to_string (unat seq_no)"

definition json_line :: "tm \<Rightarrow> LogLevel \<Rightarrow> string option \<Rightarrow> string \<Rightarrow> string" where
  "json_line t level trace_id message =
     ''{'' @ quoted ''time'' @ '':'' @ quoted (iso8601_now_utc t) @ '','' @ quoted ''level'' @ '':'' @ quoted (to_level_name level) @ '','' @
     quoted ''trace_id'' @ '':'' @ quoted (case trace_id of None \<Rightarrow> [] | Some i \<Rightarrow> i) @ '','' @
     quoted ''msg'' @ '':'' @ quoted (log_escape_json message) @ ''}''"

definition log_message :: "tm \<Rightarrow> LogLevel \<Rightarrow> string \<Rightarrow> string option \<Rightarrow> Logger \<Rightarrow> (spd_level \<times> string) list" where
  "log_message t level message trace_id L =
     (if \<not> is_enabled L level then []
      else [(to_spdlog_level level,
             if lg_json_format L then json_line t level trace_id message
             else case trace_id of
                 None \<Rightarrow> message
               | Some i \<Rightarrow> if i \<noteq> [] then ''[trace_id='' @ i @ ''] '' @ message else message)])"

text \<open>A formatted message; \<open>None\<close> is a failure of \<^verbatim>\<open>snprintf\<close>.\<close>

definition logf :: "tm \<Rightarrow> LogLevel \<Rightarrow> string option \<Rightarrow> string option \<Rightarrow> Logger \<Rightarrow> (spd_level \<times> string) list" where
  "logf t level formatted trace_id L =
     (case formatted of None \<Rightarrow> [] | Some msg \<Rightarrow> if msg = [] then [] else log_message t level msg trace_id L)"

subsection \<open>The asynchronous logger\<close>

datatype AsyncLevel = AL_TRACE | AL_DEBUG | AL_INFO | AL_WARN | AL_ERROR | AL_CRITICAL | AL_OFF

definition async_spdlog_level :: "AsyncLevel \<Rightarrow> spd_level" where
  "async_spdlog_level l = (case l of AL_TRACE \<Rightarrow> Spd_trace | AL_DEBUG \<Rightarrow> Spd_debug | AL_INFO \<Rightarrow> Spd_info | AL_WARN \<Rightarrow> Spd_warn
     | AL_ERROR \<Rightarrow> Spd_err | AL_CRITICAL \<Rightarrow> Spd_critical | AL_OFF \<Rightarrow> Spd_off)"

definition level_to_json_string :: "spd_level \<Rightarrow> string" where
  "level_to_json_string l = (case l of Spd_trace \<Rightarrow> ''TRACE'' | Spd_debug \<Rightarrow> ''DEBUG'' | Spd_info \<Rightarrow> ''INFO'' | Spd_warn \<Rightarrow> ''WARN''
     | Spd_err \<Rightarrow> ''ERROR'' | Spd_critical \<Rightarrow> ''CRITICAL'' | Spd_off \<Rightarrow> ''OFF'')"

record AsyncLoggerConfig =
  alc_log_dir :: string
  alc_log_name :: string
  alc_level :: AsyncLevel
  alc_async_queue_size :: u64
  alc_max_file_size_mb :: u64
  alc_max_files :: u64
  alc_console_output :: bool
  alc_run_id :: u64

record AsyncBackend =
  ab_queue_size :: u64
  ab_file_path :: string
  ab_max_bytes :: u64
  ab_max_files :: u64
  ab_console :: bool
  ab_level :: spd_level

record AsyncLogger =
  al_logger :: "AsyncBackend option"
  al_run_id :: u64
  al_current_level :: AsyncLevel
  al_thread_trace_id :: "nat \<Rightarrow> u64"

definition async_logger_new :: AsyncLogger where
  "async_logger_new = \<lparr>al_logger = None, al_run_id = 0, al_current_level = AL_INFO, al_thread_trace_id = (\<lambda>thread. 0)\<rparr>"

text \<open>spdlog throws before the logger is created: no thread pool of that size, or a file that cannot be opened.\<close>

definition async_initialize :: "(AsyncLoggerConfig \<Rightarrow> bool) \<Rightarrow> AsyncLoggerConfig \<Rightarrow> AsyncLogger \<Rightarrow> AsyncLogger \<times> bool" where
  "async_initialize throws c A =
     (if throws c then (A, False)
      else (A\<lparr>al_logger := Some \<lparr>ab_queue_size = alc_async_queue_size c, ab_file_path = alc_log_dir c @ ''/'' @ alc_log_name c @ ''.log'',
                                ab_max_bytes = alc_max_file_size_mb c * 1024 * 1024, ab_max_files = alc_max_files c,
                                ab_console = alc_console_output c, ab_level = async_spdlog_level (alc_level c)\<rparr>,
               al_run_id := alc_run_id c, al_current_level := alc_level c\<rparr>, True))"

definition async_shutdown :: "AsyncLogger \<Rightarrow> AsyncLogger" where
  "async_shutdown A = A\<lparr>al_logger := None\<rparr>"

definition set_thread_trace_id :: "nat \<Rightarrow> u64 \<Rightarrow> AsyncLogger \<Rightarrow> AsyncLogger" where
  "set_thread_trace_id thread i A = A\<lparr>al_thread_trace_id := (al_thread_trace_id A)(thread := i)\<rparr>"

definition async_set_level :: "AsyncLevel \<Rightarrow> AsyncLogger \<Rightarrow> AsyncLogger" where
  "async_set_level level A =
     A\<lparr>al_current_level := level, al_logger := map_option (\<lambda>b. b\<lparr>ab_level := async_spdlog_level level\<rparr>) (al_logger A)\<rparr>"

definition async_escape :: "string \<Rightarrow> string" where
  "async_escape msg = concat (map (\<lambda>c.
     if c = CHR 0x22 then [CHR 0x5C, CHR 0x22] else if c = CHR 0x5C then [CHR 0x5C, CHR 0x5C] else if c = CHR 0x0A then [CHR 0x5C, CHR ''n''] else [c]) msg)"

definition build_json_line :: "tm \<Rightarrow> nat \<Rightarrow> u64 \<Rightarrow> u64 \<Rightarrow> spd_level \<Rightarrow> string \<Rightarrow> string \<Rightarrow> string \<Rightarrow> string" where
  "build_json_line t epoch_ms run_id trace_id level module msg detail_json =
     ''{'' @ quoted ''ts'' @ '':'' @ quoted (ts_buf t epoch_ms) @ '','' @ quoted ''level'' @ '':'' @ quoted (level_to_json_string level) @ '','' @
     quoted ''run_id'' @ '':'' @ to_string (unat run_id) @ '','' @ quoted ''trace_id'' @ '':'' @ to_string (unat trace_id) @ '','' @
     quoted ''module'' @ '':'' @ quoted module @ '','' @ quoted ''msg'' @ '':'' @ quoted (async_escape msg) @
     (if detail_json \<noteq> [] then '','' @ quoted ''detail'' @ '':'' @ detail_json else []) @ ''}''"

text \<open>The convenience functions differ in the level only; \<open>should_log\<close> is spdlog's filter, given the level of the logger and of the line.\<close>

definition log_at :: "(spd_level \<Rightarrow> spd_level \<Rightarrow> bool) \<Rightarrow> tm \<Rightarrow> nat \<Rightarrow> nat \<Rightarrow> spd_level \<Rightarrow> string \<Rightarrow> string \<Rightarrow> string \<Rightarrow> AsyncLogger \<Rightarrow> (spd_level \<times> string) list" where
  "log_at should_log t epoch_ms thread level module msg detail A =
     (case al_logger A of
        None \<Rightarrow> []
      | Some b \<Rightarrow> if should_log (ab_level b) level
          then [(level, build_json_line t epoch_ms (al_run_id A) (al_thread_trace_id A thread) level module msg detail)] else [])"

definition log_structured :: "(spd_level \<Rightarrow> spd_level \<Rightarrow> bool) \<Rightarrow> tm \<Rightarrow> nat \<Rightarrow> nat \<Rightarrow> AsyncLevel \<Rightarrow> string \<Rightarrow> string \<Rightarrow> string \<Rightarrow> AsyncLogger \<Rightarrow> (spd_level \<times> string) list" where
  "log_structured should_log t epoch_ms thread level module msg detail A =
     log_at should_log t epoch_ms thread (async_spdlog_level level) module msg detail A"

subsection \<open>Shared metrics\<close>

type_synonym AtomicCounter = u64
type_synonym AtomicGauge = "64 word"

definition counter_increment :: "u64 \<Rightarrow> AtomicCounter \<Rightarrow> AtomicCounter" where
  "counter_increment delta v = v + delta"

definition gauge_increment :: "64 word \<Rightarrow> AtomicGauge \<Rightarrow> AtomicGauge" where
  "gauge_increment delta v = v + delta"

definition gauge_decrement :: "64 word \<Rightarrow> AtomicGauge \<Rightarrow> AtomicGauge" where
  "gauge_decrement delta v = v - delta"

datatype MetricType = METRIC_COUNTER | METRIC_GAUGE

text \<open>The reader of a value sees the state of the program, \<open>None\<close> when no reader was given.\<close>

record 's MetricDescriptor =
  md_name :: string
  md_help :: string
  md_type :: MetricType
  md_read :: "('s \<Rightarrow> f64) option"

definition register_metric :: "'s MetricDescriptor \<Rightarrow> 's MetricDescriptor list \<Rightarrow> 's MetricDescriptor list" where
  "register_metric d ms = ms @ [d]"

definition register_metrics :: "'s MetricDescriptor list \<Rightarrow> 's MetricDescriptor list \<Rightarrow> 's MetricDescriptor list" where
  "register_metrics ds ms = fold register_metric ds ms"

definition export_metric :: "(f64 \<Rightarrow> string) \<Rightarrow> 's \<Rightarrow> 's MetricDescriptor \<Rightarrow> string" where
  "export_metric print_fixed s m =
     family_head (md_name m) (md_help m) (case md_type m of METRIC_COUNTER \<Rightarrow> ''counter'' | METRIC_GAUGE \<Rightarrow> ''gauge'') @
     md_name m @ '' '' @ print_fixed (case md_read m of None \<Rightarrow> 0 | Some f \<Rightarrow> f s) @ nl"

definition export_text :: "(f64 \<Rightarrow> string) \<Rightarrow> 's \<Rightarrow> 's MetricDescriptor list \<Rightarrow> string" where
  "export_text print_fixed s ms = concat (map (export_metric print_fixed s) ms)"

lemma export_registered: "export_text pr s (register_metrics ds ms) = export_text pr s ms @ export_text pr s ds"
proof -
  have "register_metrics ds ms = ms @ ds"
    unfolding register_metrics_def by (induction ds arbitrary: ms) (simp_all add: register_metric_def)
  then show ?thesis by (simp add: export_text_def)
qed

subsection \<open>What a line means\<close>

text \<open>
  A reader of one-line objects with texts and natural numbers as values, after RFC 8259: inside a text a quote ends it, a backslash
  begins an escape (here the short ones), and control characters are not allowed.
\<close>

datatype json_value = JText string | JNumber string

definition short_escape :: "char \<Rightarrow> char option" where
  "short_escape e = map_of [(CHR 0x22, CHR 0x22), (CHR 0x5C, CHR 0x5C), (CHR ''/'', CHR ''/''), (CHR ''b'', CHR 0x08), (CHR ''f'', CHR 0x0C),
     (CHR ''n'', CHR 0x0A), (CHR ''r'', CHR 0x0D), (CHR ''t'', CHR 0x09)] e"

definition control_char :: "char \<Rightarrow> bool" where
  "control_char c \<longleftrightarrow> (of_char c :: nat) < 32"

fun read_text :: "string \<Rightarrow> (string \<times> string) option" where
  "read_text [] = None"
| "read_text [c] = (if c = CHR 0x22 then Some ([], []) else None)"
| "read_text (c # d # cs) =
     (if c = CHR 0x22 then Some ([], d # cs)
      else if c = CHR 0x5C then (case short_escape d of None \<Rightarrow> None | Some x \<Rightarrow> map_option (apfst (Cons x)) (read_text cs))
      else if control_char c then None
      else map_option (apfst (Cons c)) (read_text (d # cs)))"

definition digit_char :: "char \<Rightarrow> bool" where
  "digit_char c \<longleftrightarrow> (of_char c :: nat) \<in> {48..<58}"

definition read_value :: "string \<Rightarrow> (json_value \<times> string) option" where
  "read_value s =
     (case s of
        [] \<Rightarrow> None
      | c # cs \<Rightarrow> if c = CHR 0x22 then map_option (apfst JText) (read_text cs)
          else if digit_char c then Some (JNumber (takeWhile digit_char s), dropWhile digit_char s) else None)"

fun read_members :: "nat \<Rightarrow> string \<Rightarrow> (string \<times> json_value) list option" where
  "read_members 0 s = None"
| "read_members (Suc n) s =
     (case read_value s of
        Some (JText k, CHR '':'' # s1) \<Rightarrow>
          (case read_value s1 of
             Some (v, CHR '','' # s2) \<Rightarrow> map_option (Cons (k, v)) (read_members n s2)
           | Some (v, [CHR ''}'']) \<Rightarrow> Some [(k, v)]
           | _ \<Rightarrow> None)
      | _ \<Rightarrow> None)"

definition read_line :: "string \<Rightarrow> (string \<times> json_value) list option" where
  "read_line s = (case s of CHR ''{'' # t \<Rightarrow> read_members (length t) t | _ \<Rightarrow> None)"

text \<open>Characters that stand for themselves, and the messages that survive.\<close>

definition plain :: "string \<Rightarrow> bool" where
  "plain s \<longleftrightarrow> list_all (\<lambda>c. c \<noteq> CHR 0x22 \<and> c \<noteq> CHR 0x5C \<and> \<not> control_char c) s"

definition loggable :: "string \<Rightarrow> bool" where
  "loggable s \<longleftrightarrow> list_all (\<lambda>c. control_char c \<longrightarrow> c \<in> {CHR 0x0A, CHR 0x0D, CHR 0x09}) s"

lemma read_text_Cons:
  "read_text (c # cs) =
     (if c = CHR 0x22 then Some ([], cs)
      else if c = CHR 0x5C then (case cs of [] \<Rightarrow> None | d # ds \<Rightarrow> (case short_escape d of None \<Rightarrow> None | Some x \<Rightarrow> map_option (apfst (Cons x)) (read_text ds)))
      else if control_char c then None else map_option (apfst (Cons c)) (read_text cs))"
  by (cases cs) simp_all

lemma read_plain: "plain s \<Longrightarrow> read_text (s @ CHR 0x22 # rest) = Some (s, rest)"
  by (induction s) (simp_all add: plain_def read_text_Cons)

lemma short_escapes [simp]:
  "short_escape (CHR 0x22) = Some (CHR 0x22)" "short_escape (CHR 0x5C) = Some (CHR 0x5C)" "short_escape (CHR ''n'') = Some (CHR 0x0A)"
  "short_escape (CHR ''r'') = Some (CHR 0x0D)" "short_escape (CHR ''t'') = Some (CHR 0x09)"
  by (simp_all add: short_escape_def)

lemma read_escaped: "loggable s \<Longrightarrow> read_text (log_escape_json s @ CHR 0x22 # rest) = Some (s, rest)"
  by (induction s) (auto simp: loggable_def log_escape_json_def read_text_Cons)

lemma read_async: "list_all (\<lambda>c. control_char c \<longrightarrow> c = CHR 0x0A) s \<Longrightarrow> read_text (async_escape s @ CHR 0x22 # rest) = Some (s, rest)"
  by (induction s) (auto simp: async_escape_def read_text_Cons)

lemma quoted_append: "quoted s @ rest = CHR 0x22 # s @ CHR 0x22 # rest"
  by (simp add: quoted_def)

lemma read_value_text: "read_text (s @ CHR 0x22 # rest) = Some (x, rest) \<Longrightarrow> read_value (quoted s @ rest) = Some (JText x, rest)"
  by (simp add: read_value_def quoted_append)

lemma read_member:
  assumes "plain k" and "read_value (v @ CHR '','' # rest) = Some (x, CHR '','' # rest)"
  shows "read_members (Suc n) (quoted k @ CHR '':'' # v @ CHR '','' # rest) = map_option (Cons (k, x)) (read_members n rest)"
  using read_value_text [OF read_plain [OF assms(1)], of "CHR '':'' # v @ CHR '','' # rest"] assms(2) by simp

lemma read_last_member:
  assumes "plain k" and "read_value (v @ ''}'') = Some (x, ''}'')"
  shows "read_members (Suc n) (quoted k @ CHR '':'' # v @ ''}'') = Some [(k, x)]"
  using read_value_text [OF read_plain [OF assms(1)], of "CHR '':'' # v @ ''}''"] assms(2) by simp

subsection \<open>Plain parts\<close>

lemma plain_simps [simp]: "plain []" "plain (s @ t) \<longleftrightarrow> plain s \<and> plain t" "plain (c # s) \<longleftrightarrow> c \<noteq> CHR 0x22 \<and> c \<noteq> CHR 0x5C \<and> \<not> control_char c \<and> plain s"
  by (auto simp: plain_def)

lemma digit_char_plain: "digit_char c \<Longrightarrow> c \<noteq> CHR 0x22 \<and> c \<noteq> CHR 0x5C \<and> \<not> control_char c"
  by (auto simp: digit_char_def control_char_def)

lemma to_string_digit_chars: "list_all digit_char (to_string n)"
proof (induction n rule: to_string.induct)
  case (1 n)
  have d: "digit_char (char_of (48 + n mod 10))" by (simp add: digit_char_def take_bit_eq_mod)
  show ?case
  proof (cases "n < 10")
    case True
    then show ?thesis using d by (simp add: to_string.simps [of n])
  next
    case False
    then show ?thesis using 1 d by (simp add: to_string.simps [of n])
  qed
qed

lemma to_string_plain [simp]: "plain (to_string n)"
  using to_string_digit_chars [of n] by (auto simp: plain_def list_all_iff dest: digit_char_plain)

lemma padded_plain [simp]: "plain (padded w n)"
proof -
  have "plain (replicate k (CHR ''0''))" for k by (induction k) (simp_all add: control_char_def)
  then show ?thesis by (simp add: padded_def)
qed

lemma control_char_literals [simp]: "control_char (Char b0 b1 b2 b3 b4 b5 b6 b7) \<longleftrightarrow> \<not> b5 \<and> \<not> b6 \<and> \<not> b7"
  by (cases b0; cases b1; cases b2; cases b3; cases b4; cases b5; cases b6; cases b7) (simp_all add: control_char_def)

lemma date_time_plain [simp]: "plain (date_time t)"
  by (simp add: date_time_def)

lemma names_plain [simp]: "plain (iso8601_now_utc t)" "plain (ts_buf t ms)" "plain (to_level_name l)" "plain (level_to_json_string sl)"
  by (simp_all add: iso8601_now_utc_def ts_buf_def to_level_name_def level_to_json_string_def split: LogLevel.splits spd_level.splits)

lemma lower_hex_plain [simp]: "plain (lower_hex b)"
proof -
  have "plain [char_of (if d < 10 then 48 + d else 87 + d)]" if "d < 16" for d :: nat
  proof -
    let ?n = "if d < 10 then 48 + d else 87 + d"
    have "(of_char (char_of ?n :: char) :: nat) = ?n" using that by (simp add: take_bit_eq_mod)
    then have "\<not> control_char (char_of ?n)" "char_of ?n \<noteq> CHR 0x22" "char_of ?n \<noteq> CHR 0x5C"
      using that by (auto simp: control_char_def simp del: of_char_of split: if_splits)
    then show ?thesis by simp
  qed
  moreover have "unat b < 256" using unsigned_less [of b] by simp
  then have "unat b div 16 < 16" "unat b mod 16 < 16" by (simp_all add: less_mult_imp_div_less)
  ultimately show ?thesis by (simp add: lower_hex_def)
qed

lemma trace_id_plain [simp]: "plain (with_trace_id src ep seq_no)"
  by (simp add: with_trace_id_def)

text \<open>
  C36: A log line in JSON format says what was logged.  For every enabled level, every message whose only control characters are newline,
  carriage return and tab, and every trace identifier the logger forms, exactly one line is handed on, and reading it as JSON yields
  the time, the level, the identifier and the message, character for character.
\<close>

theorem json_line_roundtrip:
  assumes "lg_json_format L" and "is_enabled L level" and "loggable message"
    and "trace_id = None \<or> (\<exists>src ep seq_no. trace_id = Some (with_trace_id src ep seq_no))"
  shows "\<exists>line. log_message t level message trace_id L = [(to_spdlog_level level, line)] \<and>
    read_line line = Some [(''time'', JText (iso8601_now_utc t)), (''level'', JText (to_level_name level)),
      (''trace_id'', JText (case trace_id of None \<Rightarrow> [] | Some i \<Rightarrow> i)), (''msg'', JText message)]"
proof (intro exI conjI)
  show "log_message t level message trace_id L = [(to_spdlog_level level, json_line t level trace_id message)]"
    using assms(1,2) by (simp add: log_message_def)
  let ?i = "case trace_id of None \<Rightarrow> [] | Some i \<Rightarrow> i"
  have i: "plain ?i" using assms(4) by auto
  have val: "read_value (quoted s @ rest) = Some (JText s, rest)" if "plain s" for s rest by (rule read_value_text [OF read_plain [OF that]])
  have msg: "read_value (quoted (log_escape_json message) @ ''}'') = Some (JText message, ''}'')"
    by (rule read_value_text [OF read_escaped [OF assms(3)]])
  let ?line = "json_line t level trace_id message"
  obtain n where n: "length (tl ?line) = Suc (Suc (Suc (Suc n)))"
    by (rule that [of "length (tl ?line) - 4"]) (simp add: json_line_def quoted_def)
  have "read_line ?line = read_members (Suc (Suc (Suc (Suc n)))) (tl ?line)" by (simp add: read_line_def json_line_def flip: n)
  also have "\<dots> = Some [(''time'', JText (iso8601_now_utc t)), (''level'', JText (to_level_name level)), (''trace_id'', JText ?i), (''msg'', JText message)]"
    using read_member [OF _ val] read_last_member [OF _ msg] i by (simp add: json_line_def)
  finally show "read_line ?line = Some [(''time'', JText (iso8601_now_utc t)), (''level'', JText (to_level_name level)),
      (''trace_id'', JText ?i), (''msg'', JText message)]" .
qed

definition sample_tm :: tm where
  "sample_tm = \<lparr>tm_year = 126, tm_mon = 0, tm_mday = 2, tm_hour = 3, tm_min = 4, tm_sec = 5\<rparr>"

theorem json_line_roundtrip_witness:
  "\<exists>line. log_message sample_tm LL_WARN [CHR 0x22, CHR ''a'', CHR 0x09, CHR 0x5C] (Some (with_trace_id 0x11 3 4)) (set_json_format True logger_new) = [(Spd_warn, line)] \<and>
     read_line line = Some [(''time'', JText (iso8601_now_utc sample_tm)), (''level'', JText ''WARN''), (''trace_id'', JText (with_trace_id 0x11 3 4)),
       (''msg'', JText [CHR 0x22, CHR ''a'', CHR 0x09, CHR 0x5C])]"
proof -
  have "lg_json_format (set_json_format True logger_new)" "is_enabled (set_json_format True logger_new) LL_WARN"
    by (simp_all add: set_json_format_def is_enabled_def logger_new_def level_number_def)
  moreover have "loggable [CHR 0x22, CHR ''a'', CHR 0x09, CHR 0x5C]" by (simp add: loggable_def)
  ultimately show ?thesis
    using json_line_roundtrip [of "set_json_format True logger_new" LL_WARN "[CHR 0x22, CHR ''a'', CHR 0x09, CHR 0x5C]" "Some (with_trace_id 0x11 3 4)" sample_tm]
    by (auto simp: to_spdlog_level_def to_level_name_def)
qed

subsection \<open>The asynchronous lines\<close>

lemma read_number: "read_value (to_string n @ CHR '','' # rest) = Some (JNumber (to_string n), CHR '','' # rest)"
proof -
  obtain c cs where cs: "to_string n = c # cs" by (cases "to_string n") (simp_all add: to_string.simps [of n] split: if_splits)
  then have "digit_char c" "c \<noteq> CHR 0x22" using to_string_digit_chars [of n] digit_char_plain by auto
  moreover have "takeWhile digit_char (to_string n @ CHR '','' # rest) = to_string n" "dropWhile digit_char (to_string n @ CHR '','' # rest) = CHR '','' # rest"
    using to_string_digit_chars [of n] by (simp_all add: takeWhile_append dropWhile_append list_all_iff digit_char_def)
  ultimately show ?thesis using cs by (simp add: read_value_def)
qed

text \<open>A line without detail reads back when the module name is plain and the message has no control character but the newline.\<close>

lemma async_line_readable:
  assumes "plain module" and "list_all (\<lambda>c. control_char c \<longrightarrow> c = CHR 0x0A) msg"
  shows "read_line (build_json_line t ms run_id trace_id level module msg []) =
    Some [(''ts'', JText (ts_buf t ms)), (''level'', JText (level_to_json_string level)), (''run_id'', JNumber (to_string (unat run_id))),
      (''trace_id'', JNumber (to_string (unat trace_id))), (''module'', JText module), (''msg'', JText msg)]"
proof -
  let ?line = "build_json_line t ms run_id trace_id level module msg []"
  have val: "read_value (quoted s @ rest) = Some (JText s, rest)" if "plain s" for s rest by (rule read_value_text [OF read_plain [OF that]])
  have m: "read_value (quoted (async_escape msg) @ ''}'') = Some (JText msg, ''}'')" by (rule read_value_text [OF read_async [OF assms(2)]])
  obtain n where n: "length (tl ?line) = Suc (Suc (Suc (Suc (Suc (Suc n)))))"
    by (rule that [of "length (tl ?line) - 6"]) (simp add: build_json_line_def quoted_def)
  have "read_line ?line = read_members (Suc (Suc (Suc (Suc (Suc (Suc n)))))) (tl ?line)" by (simp add: read_line_def build_json_line_def flip: n)
  then show ?thesis
    using read_member [OF _ val] read_member [OF _ read_number] read_last_member [OF _ m] assms(1) by (simp add: build_json_line_def)
qed

text \<open>A tab in a message, or a quote in a module name, gives a line that is not JSON.\<close>

lemma async_tab_unreadable: "read_line (build_json_line sample_tm 0 1 2 Spd_info ''m'' [CHR 0x09] []) = None"
  by code_simp

lemma async_module_unescaped: "read_line (build_json_line sample_tm 0 1 2 Spd_info [CHR 0x22] ''x'' []) = None"
  by code_simp

text \<open>A control character the logger of the receiver does not escape, and the pattern that a later initialisation puts back.\<close>

lemma bell_unreadable: "read_line (json_line sample_tm LL_INFO None [CHR 0x07]) = None"
  by code_simp

lemma initialize_forgets_json:
  assumes "logger_initialize opens level path (set_json_format True L) = Some L'"
  shows "lg_json_format L' \<and> lb_pattern (lg_backend L') \<noteq> ''%v''"
  using assms by (auto simp: logger_initialize_def set_json_format_def colour_pattern_def plain_pattern_def split: if_splits)

subsection \<open>Levels\<close>

text \<open>The level of the spdlog logger always is the configured one.\<close>

definition async_level_agrees :: "AsyncLogger \<Rightarrow> bool" where
  "async_level_agrees A \<longleftrightarrow> (case al_logger A of None \<Rightarrow> True | Some b \<Rightarrow> ab_level b = async_spdlog_level (al_current_level A))"

lemma async_level_invariant:
  "async_level_agrees async_logger_new"
  "async_level_agrees A \<Longrightarrow> async_level_agrees (fst (async_initialize throws c A))"
  "async_level_agrees (async_shutdown A)" "async_level_agrees A \<Longrightarrow> async_level_agrees (set_thread_trace_id th i A)"
  "async_level_agrees (async_set_level l A)"
  by (auto simp: async_level_agrees_def async_logger_new_def async_initialize_def async_shutdown_def set_thread_trace_id_def async_set_level_def
      split: option.splits)

end
