(* ===== verification/Protocol_Control.thy ===== *)
theory Protocol_Control
  imports Packet_Generator Protocol_Containers
begin

text \<open>
  The rest of \<^verbatim>\<open>include/qdgz300/m01_receiver/protocol/protocol_types.h\<close>: the packed structs of control, acknowledgement, heartbeat and register
  access packets with their byte layouts, the names of the drop reasons and the hash functions of the keys.  Signed fields are
  their bit patterns; \<^verbatim>\<open>std::hash\<close> of an integer is an argument.
\<close>

subsection \<open>Control tables and acknowledgements\<close>

record ControlTableHeader =
  ct_frame_counter :: u32
  ct_frame_beam_total :: u16
  ct_beams_per_second :: u16
  ct_cpi_count_base :: u32

definition encode_table :: "ControlTableHeader \<Rightarrow> bytes" where
  "encode_table h = bytes_le 4 (ct_frame_counter h) @ bytes_le 2 (ct_frame_beam_total h) @ bytes_le 2 (ct_beams_per_second h) @ bytes_le 4 (ct_cpi_count_base h)"

definition decode_table :: "bytes \<Rightarrow> ControlTableHeader" where
  "decode_table bs = \<lparr>ct_frame_counter = field_le 0 4 bs, ct_frame_beam_total = field_le 4 2 bs, ct_beams_per_second = field_le 6 2 bs, ct_cpi_count_base = field_le 8 4 bs\<rparr>"

record ControlBeamItem =
  bi_beam_id :: u16
  bi_beam_work_status :: u8
  bi_antenna_broadening_sel :: u8
  bi_azimuth_angle :: u16
  bi_elevation_angle :: u16
  bi_work_freq_index :: u8
  bi_mgc_gain :: u16
  bi_period_combo_mode :: u8
  bi_long_code_waveform :: u8
  bi_short_code_waveform :: u8
  bi_signal_bandwidth :: u16
  bi_pulse_width :: u16
  bi_pulse_period :: u16
  bi_accumulation_count :: u16
  bi_sim_target_range :: u16
  bi_sim_target_velocity :: u16
  bi_short_code_sample_count :: u16
  bi_long_code_sample_count :: u16
  bi_data_rate_mbps :: u8
  bi_reserved :: u8

definition encode_beam :: "ControlBeamItem \<Rightarrow> bytes" where
  "encode_beam b =
     bytes_le 2 (bi_beam_id b) @ bytes_le 1 (bi_beam_work_status b) @ bytes_le 1 (bi_antenna_broadening_sel b) @ bytes_le 2 (bi_azimuth_angle b) @
     bytes_le 2 (bi_elevation_angle b) @ bytes_le 1 (bi_work_freq_index b) @ bytes_le 2 (bi_mgc_gain b) @ bytes_le 1 (bi_period_combo_mode b) @
     bytes_le 1 (bi_long_code_waveform b) @ bytes_le 1 (bi_short_code_waveform b) @ bytes_le 2 (bi_signal_bandwidth b) @ bytes_le 2 (bi_pulse_width b) @
     bytes_le 2 (bi_pulse_period b) @ bytes_le 2 (bi_accumulation_count b) @ bytes_le 2 (bi_sim_target_range b) @ bytes_le 2 (bi_sim_target_velocity b) @
     bytes_le 2 (bi_short_code_sample_count b) @ bytes_le 2 (bi_long_code_sample_count b) @ bytes_le 1 (bi_data_rate_mbps b) @ bytes_le 1 (bi_reserved b)"

definition decode_beam :: "bytes \<Rightarrow> ControlBeamItem" where
  "decode_beam bs =
     \<lparr>bi_beam_id = field_le 0 2 bs, bi_beam_work_status = field_le 2 1 bs, bi_antenna_broadening_sel = field_le 3 1 bs, bi_azimuth_angle = field_le 4 2 bs,
      bi_elevation_angle = field_le 6 2 bs, bi_work_freq_index = field_le 8 1 bs, bi_mgc_gain = field_le 9 2 bs, bi_period_combo_mode = field_le 11 1 bs,
      bi_long_code_waveform = field_le 12 1 bs, bi_short_code_waveform = field_le 13 1 bs, bi_signal_bandwidth = field_le 14 2 bs, bi_pulse_width = field_le 16 2 bs,
      bi_pulse_period = field_le 18 2 bs, bi_accumulation_count = field_le 20 2 bs, bi_sim_target_range = field_le 22 2 bs, bi_sim_target_velocity = field_le 24 2 bs,
      bi_short_code_sample_count = field_le 26 2 bs, bi_long_code_sample_count = field_le 28 2 bs, bi_data_rate_mbps = field_le 30 1 bs, bi_reserved = field_le 31 1 bs\<rparr>"

definition encode_ack :: "ScheduleApplyAckPayload \<Rightarrow> bytes" where
  "encode_ack a = bytes_le 4 (ack_frame_counter a) @ bytes_le 4 (acked_sequence_number a) @ bytes_le 1 (ack_result a) @ bytes_le 1 (error_code a) @
     bytes_le 2 (error_detail a) @ bytes_le 8 (applied_timestamp a) @ bytes_le 4 (payload_crc32c a)"

definition decode_ack :: "bytes \<Rightarrow> ScheduleApplyAckPayload" where
  "decode_ack bs = \<lparr>ack_frame_counter = field_le 0 4 bs, acked_sequence_number = field_le 4 4 bs, ack_result = field_le 8 1 bs, error_code = field_le 9 1 bs,
     error_detail = field_le 10 2 bs, applied_timestamp = field_le 12 8 bs, payload_crc32c = field_le 20 4 bs\<rparr>"

subsection \<open>Heartbeats and register access\<close>

record HeartbeatPayload =
  hb_system_status_alive :: u32
  hb_system_status_state :: u32
  hb_core_temp :: u16
  hb_op_mode :: u8
  hb_time_coord_source :: u8
  hb_device_number :: bytes
  hb_time_offset :: u32
  hb_error_counters :: "u32 list"
  hb_lo_lock_flags :: u8
  hb_supply_current :: u8
  hb_tr_comm_status :: u8
  hb_reserved_align2 :: u8
  hb_voltage_stability_flags :: u16
  hb_panel_temp :: u16
  hb_crc32c :: u32

definition wf_heartbeat :: "HeartbeatPayload \<Rightarrow> bool" where
  "wf_heartbeat h \<longleftrightarrow> length (hb_device_number h) = 4 \<and> length (hb_error_counters h) = 4"

definition encode_heartbeat :: "HeartbeatPayload \<Rightarrow> bytes" where
  "encode_heartbeat h =
     bytes_le 4 (hb_system_status_alive h) @ bytes_le 4 (hb_system_status_state h) @ bytes_le 2 (hb_core_temp h) @ bytes_le 1 (hb_op_mode h) @
     bytes_le 1 (hb_time_coord_source h) @ hb_device_number h @ bytes_le 4 (hb_time_offset h) @ concat (map (bytes_le 4) (hb_error_counters h)) @
     bytes_le 1 (hb_lo_lock_flags h) @ bytes_le 1 (hb_supply_current h) @ bytes_le 1 (hb_tr_comm_status h) @ bytes_le 1 (hb_reserved_align2 h) @
     bytes_le 2 (hb_voltage_stability_flags h) @ bytes_le 2 (hb_panel_temp h) @ bytes_le 4 (hb_crc32c h)"

definition decode_heartbeat :: "bytes \<Rightarrow> HeartbeatPayload" where
  "decode_heartbeat bs =
     \<lparr>hb_system_status_alive = field_le 0 4 bs, hb_system_status_state = field_le 4 4 bs, hb_core_temp = field_le 8 2 bs, hb_op_mode = field_le 10 1 bs,
      hb_time_coord_source = field_le 11 1 bs, hb_device_number = take 4 (drop 12 bs), hb_time_offset = field_le 16 4 bs,
      hb_error_counters = map (\<lambda>i. field_le (20 + 4 * i) 4 bs) [0..<4], hb_lo_lock_flags = field_le 36 1 bs, hb_supply_current = field_le 37 1 bs,
      hb_tr_comm_status = field_le 38 1 bs, hb_reserved_align2 = field_le 39 1 bs, hb_voltage_stability_flags = field_le 40 2 bs, hb_panel_temp = field_le 42 2 bs,
      hb_crc32c = field_le 44 4 bs\<rparr>"

record RmaHeader =
  rma_session_id :: u32
  rma_session_token :: u64
  rma_cmd_type :: u8
  rma_cmd_flags :: u8
  rma_cmd_seq :: u16

definition encode_rma :: "RmaHeader \<Rightarrow> bytes" where
  "encode_rma h = bytes_le 4 (rma_session_id h) @ bytes_le 8 (rma_session_token h) @ bytes_le 1 (rma_cmd_type h) @ bytes_le 1 (rma_cmd_flags h) @ bytes_le 2 (rma_cmd_seq h)"

definition decode_rma :: "bytes \<Rightarrow> RmaHeader" where
  "decode_rma bs = \<lparr>rma_session_id = field_le 0 4 bs, rma_session_token = field_le 4 8 bs, rma_cmd_type = field_le 12 1 bs, rma_cmd_flags = field_le 13 1 bs, rma_cmd_seq = field_le 14 2 bs\<rparr>"

subsection \<open>Drop reasons\<close>

datatype DropReason = INVALID_MAGIC | VERSION_MISMATCH | DEST_ID_MISMATCH | LENGTH_MISMATCH | NON_DATA_PACKET | SEQUENCE_DUPLICATE | SEQUENCE_OUT_OF_WINDOW
  | BUFFER_OVERFLOW | TIMEOUT | CLOCK_UNLOCKED | LATE_FRAGMENT | REASM_DUPLICATE_FRAG | REASM_TIMEOUT | MAX_CONTEXTS_EXCEEDED | REASM_BYTES_OVERFLOW

definition drop_reason_name :: "DropReason \<Rightarrow> string" where
  "drop_reason_name r =
     (case r of
        INVALID_MAGIC \<Rightarrow> ''INVALID_MAGIC'' | VERSION_MISMATCH \<Rightarrow> ''VERSION_MISMATCH'' | DEST_ID_MISMATCH \<Rightarrow> ''DEST_ID_MISMATCH''
      | LENGTH_MISMATCH \<Rightarrow> ''LENGTH_MISMATCH'' | NON_DATA_PACKET \<Rightarrow> ''NON_DATA_PACKET'' | SEQUENCE_DUPLICATE \<Rightarrow> ''SEQUENCE_DUPLICATE''
      | SEQUENCE_OUT_OF_WINDOW \<Rightarrow> ''SEQUENCE_OUT_OF_WINDOW'' | BUFFER_OVERFLOW \<Rightarrow> ''BUFFER_OVERFLOW'' | TIMEOUT \<Rightarrow> ''TIMEOUT''
      | CLOCK_UNLOCKED \<Rightarrow> ''CLOCK_UNLOCKED'' | LATE_FRAGMENT \<Rightarrow> ''LATE_FRAGMENT'' | REASM_DUPLICATE_FRAG \<Rightarrow> ''REASM_DUPLICATE_FRAG''
      | REASM_TIMEOUT \<Rightarrow> ''REASM_TIMEOUT'' | MAX_CONTEXTS_EXCEEDED \<Rightarrow> ''MAX_CONTEXTS_EXCEEDED'' | REASM_BYTES_OVERFLOW \<Rightarrow> ''REASM_BYTES_OVERFLOW'')"

lemma drop_reason_name_inj: "drop_reason_name a = drop_reason_name b \<Longrightarrow> a = b"
  by (cases a; cases b) (simp_all add: drop_reason_name_def)

subsection \<open>Hash functions\<close>

definition hash_combine :: "u64 \<Rightarrow> u64 \<Rightarrow> u64" where
  "hash_combine v h = h XOR (v + 0x9e3779b97f4a7c15 + push_bit 6 h + drop_bit 2 h)"

definition ReassemblyKeyHash :: "(u64 \<Rightarrow> u64) \<Rightarrow> ReassemblyKey \<Rightarrow> u64" where
  "ReassemblyKeyHash std_hash key =
     fold (\<lambda>v. hash_combine (std_hash v))
       [ucast (rk_source_id key), ucast (rk_frame_counter key), ucast (rk_beam_id key), ucast (rk_cpi_count key), ucast (rk_pulse_index key),
        ucast (rk_channel_mask key), ucast (rk_data_type key)] (std_hash (ucast (rk_control_epoch key)))"

definition DupCmdKeyHasher :: "(u64 \<Rightarrow> u64) \<Rightarrow> DupCmdKey \<Rightarrow> u64" where
  "DupCmdKeyHasher std_hash key =
     fold (\<lambda>v. hash_combine (std_hash v)) [ucast (dk_control_epoch key), ucast (dk_sequence_number key)] (std_hash (ucast (dk_source_id key)))"

subsection \<open>Layouts\<close>

text \<open>The sizes the header file asserts, and reading what was written.\<close>

lemma layout_sizes:
  "length (encode_table h) = 12" "length (encode_beam b) = 32" "length (encode_ack a) = 24" "length (encode_rma r) = 16"
  by (simp_all add: encode_table_def encode_beam_def encode_ack_def encode_rma_def)

lemma heartbeat_size: "wf_heartbeat hb \<Longrightarrow> length (encode_heartbeat hb) = HEARTBEAT_PAYLOAD_SIZE"
  by (auto simp: encode_heartbeat_def wf_heartbeat_def HEARTBEAT_PAYLOAD_SIZE_def length_concat o_def eval_nat_numeral length_Suc_conv)

lemma layout_roundtrip:
  "decode_table (encode_table h @ rest) = h" "decode_ack (encode_ack a @ rest) = a" "decode_rma (encode_rma r @ rest) = r"
  by (simp_all add: decode_table_def encode_table_def decode_ack_def encode_ack_def decode_rma_def encode_rma_def field_le_def)

lemma beam_roundtrip: "decode_beam (encode_beam b @ rest) = b"
  by (simp add: decode_beam_def encode_beam_def field_le_def)

lemma heartbeat_roundtrip:
  assumes "wf_heartbeat h"
  shows "decode_heartbeat (encode_heartbeat h @ rest) = h"
proof -
  obtain a b c d where e: "hb_error_counters h = [a, b, c, d]" using assms by (auto simp: wf_heartbeat_def eval_nat_numeral length_Suc_conv)
  have "[0..<4] = [0, 1, 2, 3 :: nat]" by (simp add: upt_rec)
  then show ?thesis using assms e by (simp add: wf_heartbeat_def decode_heartbeat_def encode_heartbeat_def field_le_def)
qed

text \<open>What the emulator sends as a heartbeat: alive, 45 degrees, mode 1, everything else zero, and the checksum of the bytes before it.\<close>

lemma generated_heartbeat:
  "decode_heartbeat (heartbeat_body @ bytes_le 4 (crc32c (Some heartbeat_body) 44)) =
     \<lparr>hb_system_status_alive = 1, hb_system_status_state = 0, hb_core_temp = 45, hb_op_mode = 1, hb_time_coord_source = 0, hb_device_number = [0, 0, 0, 0],
      hb_time_offset = 0, hb_error_counters = [0, 0, 0, 0], hb_lo_lock_flags = 0, hb_supply_current = 0, hb_tr_comm_status = 0, hb_reserved_align2 = 0,
      hb_voltage_stability_flags = 0, hb_panel_temp = 0, hb_crc32c = crc32c (Some heartbeat_body) 44\<rparr>"
proof -
  let ?c = "crc32c (Some heartbeat_body) 44"
  let ?h = "\<lparr>hb_system_status_alive = 1, hb_system_status_state = 0, hb_core_temp = 45, hb_op_mode = 1, hb_time_coord_source = 0, hb_device_number = [0, 0, 0, 0],
      hb_time_offset = 0, hb_error_counters = [0, 0, 0, 0], hb_lo_lock_flags = 0, hb_supply_current = 0, hb_tr_comm_status = 0, hb_reserved_align2 = 0,
      hb_voltage_stability_flags = 0, hb_panel_temp = 0, hb_crc32c = ?c\<rparr>"
  have zero: "bytes_le n (0 :: 'a::len word) = replicate n 0" for n by (simp add: bytes_le_def map_replicate_trivial)
  have "encode_heartbeat ?h = heartbeat_body @ bytes_le 4 ?c"
    by (simp add: encode_heartbeat_def heartbeat_body_def zero eval_nat_numeral)
  then show ?thesis using heartbeat_roundtrip [of ?h "[]"] by (simp add: wf_heartbeat_def)
qed

end
