(* ===== verification/Spec2Isabelle.thy ===== *)
theory Spec2Isabelle
  imports Protocol_Containers Spsc_Concurrency Reassembly_Paths Reorder_Flush Delivery_Ring Delivery_Socket Face_Frame Control Pool_Concurrency Track_Output Signal_Proc
    Pcap_Analyze Emulator App_Run Logging Protocol_Control
begin

text \<open>
  Verification of the QDGZ300 radar backend (C++, \<^verbatim>\<open>src/\<close>).  Paths below are relative to \<^verbatim>\<open>src/\<close> of the repository snapshot, so that
  \<^verbatim>\<open>src/m01_receiver/\<close> is the directory of the receiver and \<^verbatim>\<open>include/qdgz300/\<close> that of the headers.

  \<^bold>\<open>The program.\<close>  Three array faces send UDP packets with a common header and, for data, one fragment of a frame.  One receive thread per face
  (\<^verbatim>\<open>ArrayFaceReceiver\<close>, started by \<^verbatim>\<open>UdpReceiver\<close>) reads batches of datagrams into buffers of a packet pool, filters them by source and hands them to
  the receive stage, which parses and validates them and pushes them into a lock-free ring.  One processing thread per face pops the ring; the dispatcher
  passes data packets to the reassembler, the reassembler passes complete or timed-out frames to the reorderer, and the reorderer passes frames in
  sequence to a delivery back end and, as raw blocks, to a second ring.  The main thread sweeps timeouts, reloads the configuration on SIGHUP and
  reports metrics.  Packets can be captured to files, replayed and analysed; an emulator generates traffic.  Beside the receiver stand a control plane
  (system states, orchestration), signal processing (here the build without a GPU), data processing (tracking and fusion) and a gateway to the
  displays.

  \<^bold>\<open>Theories and sources.\<close>
  \<^item> \<open>Prelude\<close>: machine integers, the little-endian codec behind every \<^verbatim>\<open>memcpy\<close> of a packed struct, facts on lists, words, association lists.
  \<^item> \<open>Protocol_Types\<close>, \<open>Protocol_Containers\<close>, \<open>Protocol_Control\<close>: \<^verbatim>\<open>protocol/protocol_types.h\<close>, the headers with their layouts, keys and their order, sequence
    comparison; the priority queue and the cache of duplicate commands; control, heartbeat and register structures.
  \<^item> \<open>Crc32c\<close>, \<open>Packet_Validation\<close>: \<^verbatim>\<open>protocol/crc32c.cpp\<close>, \<^verbatim>\<open>packet_parser.cpp\<close>, \<^verbatim>\<open>validator.cpp\<close>.
  \<^item> \<open>Spsc_Queue\<close>, \<open>Spsc_Concurrency\<close>: \<^verbatim>\<open>common/spsc_queue.h\<close> and \<^verbatim>\<open>delivery/spsc_queue.h\<close>, as operations and as interleaved memory accesses of two threads.
  \<^item> \<open>Dispatcher\<close>, \<open>Rx_Stage\<close>: \<^verbatim>\<open>pipeline/dispatcher.cpp\<close>, \<^verbatim>\<open>pipeline/rx_stage.cpp\<close>.
  \<^item> \<open>Reassembler\<close> with \<open>Reassembly\<close>, \<open>Reassembly_Order\<close>, \<open>Reassembly_Paths\<close>: \<^verbatim>\<open>pipeline/reassembler.cpp\<close>; the model, its invariant and frame contents,
    sequences of packets, and the two paths with and without copying.
  \<^item> \<open>Reorderer\<close> with \<open>Reorder_Refinement\<close>, \<open>Reorder_Order\<close>, \<open>Reorder_Flush\<close>: \<^verbatim>\<open>pipeline/reorderer.cpp\<close>; the model, its refinement of a window of pending packets, and what it delivers.
  \<^item> \<open>Raw_Block\<close>, \<open>Delivery\<close>, \<open>Delivery_Ring\<close>, \<open>Delivery_Socket\<close>: \<^verbatim>\<open>delivery/rawblock_adapter\<close>, \<^verbatim>\<open>stub_consumer.cpp\<close>, \<^verbatim>\<open>delivery_interface.cpp\<close>.
  \<^item> \<open>Packet_Pool\<close>, \<open>Pool_Concurrency\<close>: \<^verbatim>\<open>network/packet_pool.cpp\<close>, \<^verbatim>\<open>common/memory_pool.h\<close>, and the compare-and-swap loops of the free list.
  \<^item> \<open>Face_Pipeline\<close>, \<open>Face_Safety\<close>, \<open>Face_Delivery\<close>, \<open>Face_Frame\<close>: the components of a face as \<^verbatim>\<open>app_init.cpp\<close> wires them, with the steps of its threads.
  \<^item> \<open>Face_Receiver\<close>, \<open>Udp_Receiver\<close>: \<^verbatim>\<open>network/array_face_receiver.cpp\<close>, \<^verbatim>\<open>network/udp_receiver.cpp\<close>.
  \<^item> \<open>Config\<close>, \<open>App_Init\<close>, \<open>App_Run\<close>: \<^verbatim>\<open>config/config_manager.cpp\<close>, \<^verbatim>\<open>app_init.cpp\<close>, \<^verbatim>\<open>app_run.cpp\<close>, \<^verbatim>\<open>signal_handler.cpp\<close>, \<^verbatim>\<open>main.cpp\<close>.
  \<^item> \<open>Metrics\<close>, \<open>Logging\<close>: \<^verbatim>\<open>monitoring/metrics.cpp\<close>, \<^verbatim>\<open>monitoring/logger.cpp\<close>, \<^verbatim>\<open>src/logging/\<close>, \<^verbatim>\<open>common/metrics.h\<close>.
  \<^item> \<open>Pcap_Writer\<close>, \<open>Pcap_Capture\<close>, \<open>Pcap_Reader\<close>, \<open>Replay_Args\<close>, \<open>Pcap_Analyze\<close>: \<^verbatim>\<open>capture/pcap_writer.cpp\<close>, \<^verbatim>\<open>tools/pcap_replay.cpp\<close>, \<^verbatim>\<open>tools/pcap_analyze.cpp\<close>.
  \<^item> \<open>Packet_Generator\<close>, \<open>Emulator\<close>: \<^verbatim>\<open>tools/fpga_emulator/\<close>.
  \<^item> \<open>Error_Codes\<close>, \<open>Control\<close>: \<^verbatim>\<open>common/error_codes.h\<close>, \<^verbatim>\<open>common/system_state.cpp\<close>, \<^verbatim>\<open>src/control/\<close>.
  \<^item> \<open>Floating\<close>, \<open>Track_Types\<close>, \<open>Tracking\<close>, \<open>Track_Manager\<close>, \<open>Fusion\<close>: IEEE 754 comparison on bit patterns and \<^verbatim>\<open>src/m03_data_proc/\<close>.
  \<^item> \<open>Signal_Proc\<close>: \<^verbatim>\<open>src/m02_signal_proc/\<close>.  \<open>Gateway\<close>, \<open>Track_Output\<close>: \<^verbatim>\<open>src/m04_gateway/\<close> and the way of a track to the display.

  \<^bold>\<open>How state and operations correspond.\<close>  A class is a record of its members, a method a function on the record that returns the new record with its
  result; a callback is the list of its calls, an exception the left side of a sum, a null pointer or an empty optional \<open>None\<close>.  Integers keep
  their width and wrap.  Counters that the program keeps in 64 bits are 64-bit words.  What the program asks of its surroundings is an argument: readings of clocks,
  results of system calls, the file system as a map from names to bytes, the YAML library, random numbers, rounded arithmetic and the printing of
  doubles, \<^verbatim>\<open>std::sort\<close>, the intrinsics of the ARM build, spdlog's filter.  Laws of such arguments are hypotheses with an instance in the witness.
  Threads are sequences of steps in any order: whole loop iterations where a mutex or a single owner makes them atomic, single memory accesses for the ring and the free list.

  \<^bold>\<open>What is shown.\<close>
  \<^item> Frames: fragments in any order, repeated and mixed with other frames, give exactly the frame of the sender; a frame that
    times out is zero-filled where fragments are missing and its key is refused afterwards; both paths agree; the invariant holds after every operation.
  \<^item> Order: the reorderer refines a window of pending packets, delivers without gap and sorts arrivals within its window; a flush empties it.
  \<^item> A face: every interleaving of its threads is safe, and the datagrams of a frame come out as one ordered packet and one block.  The faces of an assembled receiver
    do not influence each other.
  \<^item> Buffers and rings: both pools hand out every buffer once and get it back, with one allocating thread also under interleaving; the
    rings are first-in first-out and, when they overwrite, keep the newest; a ring of capacity one hangs when it is full.
  \<^item> Receiving: each datagram of a batch is delivered, filtered or returned exactly once; the start is all or nothing; sources cannot enter another face.
  \<^item> Configuration and running: only validated configurations are used; an iteration of the main loop keeps all invariants and exposes exact sums of drops; a shutdown drains
    everything or touches freed pool memory, with the exact condition.
  \<^item> Wire and files: parser and validator accept exactly the format; CRC implementations agree; captured packets replay identically; the analysis
    counts exactly; generated packets are within their bounds; a JSON log line reads back.
  \<^item> Tracks: greedy association, life cycle as a function of the history of hits, unique identifiers, fusion as a partition, frames to the display byte for byte.
  \<^item> Control: whatever the modules answer, the states follow the transition table; the dispatcher of signal processing delivers in order.

  Interfaces are locales: \<open>crc_intrinsics\<close>, \<open>drop_oldest_queue\<close> (both rings), \<open>buffer_pool\<close> (both pools), \<open>reorder_contract\<close>, \<open>float_order\<close> (both widths)
  and \<open>histogram_bounds\<close> (two histograms); their lemmas reach the components through the interpretations.

  \<^bold>\<open>Loops and bounds.\<close>  Loops over data are structural or have a measure.  Loops that may not end are \<^verbatim>\<open>partial_function (option)\<close> (the overwriting
  push, the replay loop), and that they return is proved where it holds.  Fuel occurs in the drain of a receive ring, bounded by the capacity of the ring, which is the most
  it can hold; in the writer thread of a capture, two steps per queued packet and two to stop; and in the reader of log lines, bounded by the length of the line.

  \<^bold>\<open>Not modelled.\<close>  Libraries and the operating system (arguments, as above); weak memory: interleavings are sequentially consistent; CPU and NUMA placement
  (\<^verbatim>\<open>common/numa_utils.cpp\<close>, \<^verbatim>\<open>numa_allocator.h\<close>), which changes speed and not results; the code compiled only for Windows or with CUDA; creation and removal of the shared
  mapping; texts of progress and report lines; the measuring programs of \<^verbatim>\<open>tools/benchmarks/\<close>, which time the components above; scripts and the test suite.
\<close>

end
